(* ===== verification/Orqara_Prelude.thy ===== *)
theory Orqara_Prelude
  imports Main "HOL-Library.Multiset" "HOL-Library.Sublist" "HOL-Library.AList"
begin

text \<open>
  Shared vocabulary of the development.

  JavaScript values that several components use: results of code that may throw
  (\<open>'e + 'a\<close>, \<open>Inl\<close> the thrown error), numbers that may be \<open>NaN\<close>, strings with
  \<open>trim\<close>, \<open>split\<close>, \<open>join\<close>, \<open>startsWith\<close> and decimal rendering, \<open>Map\<close> and \<open>Set\<close>
  in insertion order, and \<open>Array.prototype.sort\<close> with a comparator (a stable sort).
  Strings are lists of code units below 256, the range of HOL characters.

  Facts that carry proofs across components are collected in \<open>js_simps\<close>.
\<close>

named_theorems js_simps

section \<open>Results of code that may throw\<close>

definition ebind :: "'e + 'a \<Rightarrow> ('a \<Rightarrow> 'e + 'b) \<Rightarrow> 'e + 'b" where
  "ebind r f = (case r of Inl e \<Rightarrow> Inl e | Inr x \<Rightarrow> f x)"

lemma ebind_simps [simp]:
  "ebind (Inl e) f = Inl e"
  "ebind (Inr x) f = f x"
  by (simp_all add: ebind_def)

lemma ebind_Inr_iff: "ebind r f = Inr y \<longleftrightarrow> (\<exists>x. r = Inr x \<and> f x = Inr y)"
  by (cases r) auto

text \<open>Evaluating a list of results stops at the first error, as \<open>Promise.all\<close> rejects.\<close>

fun eall :: "('e + 'a) list \<Rightarrow> 'e + 'a list" where
  "eall [] = Inr []"
| "eall (r # rs) = ebind r (\<lambda>x. ebind (eall rs) (\<lambda>xs. Inr (x # xs)))"

lemma eall_map_Inr: "(\<And>x. x \<in> set xs \<Longrightarrow> f x = Inr (g x)) \<Longrightarrow> eall (map f xs) = Inr (map g xs)"
  by (induction xs) auto

text \<open>
  Code that may also never return: \<open>None\<close> is a computation that does not end,
  \<open>Some (Inl e)\<close> a throw and \<open>Some (Inr x)\<close> a result.
\<close>

definition obind :: "('e + 'a) option \<Rightarrow> ('a \<Rightarrow> ('e + 'b) option) \<Rightarrow> ('e + 'b) option" where
  "obind r f = (case r of None \<Rightarrow> None | Some (Inl e) \<Rightarrow> Some (Inl e) | Some (Inr x) \<Rightarrow> f x)"

lemma obind_simps [simp]:
  "obind None f = None"
  "obind (Some (Inl e)) f = Some (Inl e)"
  "obind (Some (Inr x)) f = f x"
  by (simp_all add: obind_def)

lemma obind_Inr_iff: "obind r f = Some (Inr y) \<longleftrightarrow> (\<exists>x. r = Some (Inr x) \<and> f x = Some (Inr y))"
  by (auto simp: obind_def split: option.splits sum.splits)

section \<open>Numbers\<close>

text \<open>The numbers the modelled code computes with are integers or \<open>NaN\<close>.\<close>

datatype js_num = Num int | NaN

text \<open>\<open>a - b\<close> as a comparator result: \<open>sort\<close> reads \<open>NaN\<close> as \<open>+0\<close>.\<close>

fun num_cmp :: "js_num \<Rightarrow> js_num \<Rightarrow> int" where
  "num_cmp (Num a) (Num b) = a - b"
| "num_cmp _ _ = 0"

text \<open>\<open>a !== b\<close>: \<open>NaN\<close> differs from everything.\<close>

fun num_neq :: "js_num \<Rightarrow> js_num \<Rightarrow> bool" where
  "num_neq (Num a) (Num b) = (a \<noteq> b)"
| "num_neq _ _ = True"

section \<open>Insertion-ordered sets and maps\<close>

text \<open>
  A \<open>Map\<close> is an association list in insertion order: \<open>AList.update\<close> overwrites a value in
  place and appends a new key, \<open>AList.delete\<close> removes a key, \<open>map_of\<close> reads one.
  A \<open>Set\<close> is a list without repetitions in insertion order.
\<close>

definition set_add :: "'a \<Rightarrow> 'a list \<Rightarrow> 'a list" where
  "set_add x xs = (if x \<in> set xs then xs else xs @ [x])"

definition set_del :: "'a \<Rightarrow> 'a list \<Rightarrow> 'a list" where
  "set_del x xs = filter (\<lambda>y. y \<noteq> x) xs"

definition set_of :: "'a list \<Rightarrow> 'a list" where
  "set_of xs = foldl (\<lambda>s x. set_add x s) [] xs"

lemma set_set_add [simp]: "set (set_add x xs) = insert x (set xs)"
  by (auto simp: set_add_def)

lemma distinct_set_add [simp]: "distinct (set_add x xs) = distinct xs"
  by (auto simp: set_add_def)

lemma set_set_del [simp]: "set (set_del x xs) = set xs - {x}"
  by (auto simp: set_del_def)

lemma distinct_set_del [simp]: "distinct xs \<Longrightarrow> distinct (set_del x xs)"
  by (simp add: set_del_def)

lemma length_set_del_less: "x \<in> set xs \<Longrightarrow> length (set_del x xs) < length xs"
  unfolding set_del_def by (rule length_filter_less) auto

lemma set_of_acc: "set (foldl (\<lambda>s x. set_add x s) a xs) = set a \<union> set xs"
  by (induction xs arbitrary: a) auto

lemma distinct_of_acc: "distinct (foldl (\<lambda>s x. set_add x s) a xs) = distinct a"
  by (induction xs arbitrary: a) auto

lemma set_set_of [simp]: "set (set_of xs) = set xs"
  by (simp add: set_of_def set_of_acc)

lemma distinct_set_of [simp]: "distinct (set_of xs)"
  by (simp add: set_of_def distinct_of_acc)

lemma dom_update [simp]: "fst ` set (AList.update k v al) = insert k (fst ` set al)"
  by (simp add: dom_update)

lemma map_of_update [js_simps]: "map_of (AList.update k v al) = (map_of al)(k \<mapsto> v)"
  by (simp add: update_conv')

lemma map_of_delete [js_simps]: "map_of (AList.delete k al) = (map_of al)(k := None)"
  by (simp add: delete_conv')

section \<open>Lists\<close>

lemma append_Cons_first:
  "x \<notin> set xs \<Longrightarrow> x \<notin> set xs' \<Longrightarrow> xs @ x # ys = xs' @ x # ys' \<Longrightarrow> xs = xs' \<and> ys = ys'"
proof (induction xs arbitrary: xs')
  case Nil
  then show ?case by (cases xs') auto
next
  case (Cons a xs)
  then show ?case by (cases xs') auto
qed

section \<open>Sorting with a comparator\<close>

text \<open>
  \<open>Array.prototype.sort\<close> with a consistent comparator returns the stable sort of the array;
  \<open>le a b\<close> stands for a comparator result of at most zero.
\<close>

fun insert_by :: "('a \<Rightarrow> 'a \<Rightarrow> bool) \<Rightarrow> 'a \<Rightarrow> 'a list \<Rightarrow> 'a list" where
  "insert_by le x [] = [x]"
| "insert_by le x (y # ys) = (if le x y then x # y # ys else y # insert_by le x ys)"

definition sort_by :: "('a \<Rightarrow> 'a \<Rightarrow> bool) \<Rightarrow> 'a list \<Rightarrow> 'a list" where
  "sort_by le xs = foldr (insert_by le) xs []"

lemma sort_by_simps [simp]:
  "sort_by le [] = []"
  "sort_by le (x # xs) = insert_by le x (sort_by le xs)"
  by (simp_all add: sort_by_def)

lemma mset_insert_by [simp]: "mset (insert_by le x xs) = add_mset x (mset xs)"
  by (induction xs) auto

lemma mset_sort_by [simp]: "mset (sort_by le xs) = mset xs"
  by (induction xs) auto

lemma set_insert_by [simp]: "set (insert_by le x xs) = insert x (set xs)"
  by (induction xs) auto

lemma set_sort_by [simp]: "set (sort_by le xs) = set xs"
  by (induction xs) auto

lemma length_sort_by [simp]: "length (sort_by le xs) = length xs"
  using mset_sort_by[of le xs] by (metis size_mset)

lemma distinct_sort_by [simp]: "distinct (sort_by le xs) = distinct xs"
  by (metis mset_eq_imp_distinct_iff mset_sort_by)

lemma sort_by_eq_Nil [simp]: "sort_by le xs = [] \<longleftrightarrow> xs = []"
  by (metis length_0_conv length_sort_by)

text \<open>The contract of a comparator on the values \<open>ok\<close> that it can compare.\<close>

locale total_preorder =
  fixes le :: "'a \<Rightarrow> 'a \<Rightarrow> bool" and ok :: "'a \<Rightarrow> bool"
  assumes le_total: "ok x \<Longrightarrow> ok y \<Longrightarrow> le x y \<or> le y x"
    and le_trans: "ok x \<Longrightarrow> ok y \<Longrightarrow> ok z \<Longrightarrow> le x y \<Longrightarrow> le y z \<Longrightarrow> le x z"
begin

lemma sorted_insert_by:
  "list_all ok (x # xs) \<Longrightarrow> sorted_wrt le xs \<Longrightarrow> sorted_wrt le (insert_by le x xs)"
proof (induction xs)
  case Nil
  then show ?case by simp
next
  case (Cons y ys)
  then have "le x z" if "le x y" "z \<in> set ys" for z
    using that le_trans[of x y z] by (auto simp: list_all_iff)
  moreover have "le x y \<or> le y x"
    using Cons.prems le_total[of x y] by simp
  ultimately show ?case using Cons by auto
qed

lemma sorted_sort_by: "list_all ok xs \<Longrightarrow> sorted_wrt le (sort_by le xs)"
  by (induction xs) (auto intro!: sorted_insert_by simp: list_all_iff)

lemma hd_sort_by_le: "list_all ok xs \<Longrightarrow> x \<in> set xs \<Longrightarrow> le (hd (sort_by le xs)) x"
proof -
  assume ok: "list_all ok xs" and x: "x \<in> set xs"
  obtain y ys where s: "sort_by le xs = y # ys"
    using x by (cases "sort_by le xs") auto
  have "x = y \<or> x \<in> set ys"
    using x set_sort_by[of le xs] s by auto
  then show ?thesis
    using sorted_sort_by[OF ok] s le_total[of x x] ok x by (auto simp: list_all_iff)
qed

lemma insert_by_filter:
  "list_all ok (z # x # xs) \<Longrightarrow> sorted_wrt le xs \<Longrightarrow>
   filter (\<lambda>y. le y z \<and> le z y) (insert_by le x xs) =
     (if le x z \<and> le z x then x # filter (\<lambda>y. le y z \<and> le z y) xs
      else filter (\<lambda>y. le y z \<and> le z y) xs)"
proof (induction xs)
  case Nil
  then show ?case by simp
next
  case (Cons y ys)
  show ?case
  proof (cases "le x y")
    case True
    then show ?thesis by simp
  next
    case False
    have "\<not> (le x z \<and> le z x)" if "le y z" "le z y"
      using that False le_trans[of x z y] Cons.prems(1) by auto
    with Cons False show ?thesis by auto
  qed
qed

text \<open>Stability: elements that compare equal keep their order.\<close>

lemma sort_by_stable:
  "list_all ok (z # xs) \<Longrightarrow>
   filter (\<lambda>y. le y z \<and> le z y) (sort_by le xs) = filter (\<lambda>y. le y z \<and> le z y) xs"
  by (induction xs) (auto simp: insert_by_filter sorted_sort_by list_all_iff)

end

section \<open>Lists updated and filtered\<close>

fun replace_first :: "('a \<Rightarrow> bool) \<Rightarrow> ('a \<Rightarrow> 'a) \<Rightarrow> 'a list \<Rightarrow> 'a list" where
  "replace_first P f [] = []"
| "replace_first P f (x # xs) = (if P x then f x # xs else x # replace_first P f xs)"

lemma map_replace_first: "(\<And>r. g (f r) = g r) \<Longrightarrow> map g (replace_first P f rs) = map g rs"
  by (induction rs) auto

text \<open>The elements with a new key, as a loop with a set of seen keys collects them.\<close>

fun dedup_by :: "('a \<Rightarrow> 'b) \<Rightarrow> 'b list \<Rightarrow> 'a list \<Rightarrow> 'a list" where
  "dedup_by key seen [] = []"
| "dedup_by key seen (x # xs) =
     (if key x \<in> set seen then dedup_by key seen xs else x # dedup_by key (key x # seen) xs)"

lemma dedup_by_distinct: "distinct (map key (dedup_by key seen xs)) \<and> set (map key (dedup_by key seen xs)) \<inter> set seen = {}"
  by (induction key seen xs rule: dedup_by.induct) auto

lemma dedup_by_id: "distinct (map key xs) \<Longrightarrow> set (map key xs) \<inter> set seen = {} \<Longrightarrow> dedup_by key seen xs = xs"
  by (induction key seen xs rule: dedup_by.induct) auto

lemma dedup_by_subset: "set (dedup_by key seen xs) \<subseteq> set xs"
  by (induction key seen xs rule: dedup_by.induct) auto

lemma dedup_by_keys: "key ` set (dedup_by key seen xs) = key ` set xs - set seen"
  by (induction key seen xs rule: dedup_by.induct) auto

definition remove_nth :: "nat \<Rightarrow> 'a list \<Rightarrow> 'a list" where
  "remove_nth k xs = take k xs @ drop (Suc k) xs"

definition insert_nth :: "nat \<Rightarrow> 'a \<Rightarrow> 'a list \<Rightarrow> 'a list" where
  "insert_nth k x xs = take k xs @ x # drop k xs"

definition last_opt :: "'a list \<Rightarrow> 'a option" where
  "last_opt xs = (if xs = [] then None else Some (last xs))"

definition head_opt :: "'a list \<Rightarrow> 'a option" where
  "head_opt xs = (case xs of [] \<Rightarrow> None | x # _ \<Rightarrow> Some x)"

end
