(* ===== verification/Js_String.thy ===== *)
theory Js_String
  imports Orqara_Prelude
begin

text \<open>
  The string operations of the source: \<open>trim\<close>, \<open>split\<close>, \<open>join\<close>, \<open>startsWith\<close>, template
  rendering of integers and \<open>parseInt\<close>, and the leftmost match of a pattern, which is
  how the regular expressions of the task documents are modelled.
\<close>

section \<open>Character classes\<close>

definition nl :: string where
  "nl = ''\<newline>''"

definition is_nl :: "char \<Rightarrow> bool" where
  "is_nl c \<longleftrightarrow> c = CHR 0x0A"

text \<open>Line terminators of the \<open>^\<close>, \<open>$\<close> and \<open>.\<close> of a multiline regular expression.\<close>

definition line_term :: "char \<Rightarrow> bool" where
  "line_term c \<longleftrightarrow> c = CHR 0x0A \<or> c = CHR 0x0D"

text \<open>The white space that \<open>trim\<close> removes and \<open>\s\<close> matches.\<close>

definition js_space :: "char \<Rightarrow> bool" where
  "js_space c \<longleftrightarrow> c \<in> {CHR 0x09, CHR 0x0A, CHR 0x0B, CHR 0x0C, CHR 0x0D, CHR 0x20, CHR 0xA0}"

definition is_digit :: "char \<Rightarrow> bool" where
  "is_digit c \<longleftrightarrow> c \<in> set ''0123456789''"

section \<open>trim\<close>

definition trim_end :: "string \<Rightarrow> string" where
  "trim_end s = rev (dropWhile js_space (rev s))"

definition trim :: "string \<Rightarrow> string" where
  "trim s = trim_end (dropWhile js_space s)"

lemma trim_Nil [simp]: "trim [] = []"
  by (simp add: trim_def trim_end_def)

definition trimmed :: "string \<Rightarrow> bool" where
  "trimmed s \<longleftrightarrow> s = [] \<or> (\<not> js_space (hd s) \<and> \<not> js_space (last s))"

lemma dropWhile_trimmed: "trimmed s \<Longrightarrow> dropWhile js_space s = s"
  by (cases s) (auto simp: trimmed_def)

lemma trim_end_trimmed: "trimmed s \<Longrightarrow> trim_end s = s"
  by (cases s rule: rev_cases) (auto simp: trimmed_def trim_end_def)

lemma trim_end_append_space:
  assumes "\<forall>c \<in> set w. js_space c"
  shows "trim_end (s @ w) = trim_end s"
proof -
  have "dropWhile js_space (rev w @ rev s) = dropWhile js_space (rev s)"
    using assms by (intro dropWhile_append2) auto
  then show ?thesis by (simp add: trim_end_def)
qed

text \<open>White space around a trimmed string is what \<open>trim\<close> removes.\<close>

lemma trim_surround:
  assumes "trimmed s" "\<forall>c \<in> set v. js_space c" "\<forall>c \<in> set w. js_space c"
  shows "trim (v @ s @ w) = s"
proof (cases "s = []")
  case True
  have "dropWhile js_space (v @ s @ w) = []"
    unfolding dropWhile_eq_Nil_conv using assms True by auto
  then show ?thesis using True by (simp only: trim_def) (simp add: trim_end_def)
next
  case False
  have "dropWhile js_space (v @ s @ w) = s @ w"
    using assms(1,2) False by (cases s) (auto simp: trimmed_def dropWhile_append2)
  then show ?thesis
    by (simp add: trim_def trim_end_append_space[OF assms(3)] trim_end_trimmed[OF assms(1)])
qed

lemma trim_trimmed [simp]: "trimmed s \<Longrightarrow> trim s = s"
  using trim_surround[of s "[]" "[]"] by simp

lemma trimmed_trim: "trimmed (trim s)"
proof -
  let ?t = "dropWhile js_space s"
  have end_split: "?t = trim_end ?t @ rev (takeWhile js_space (rev ?t))"
    by (simp add: trim_end_def flip: rev_append)
  show ?thesis
  proof (cases "trim s = []")
    case True
    then show ?thesis by (simp add: trimmed_def)
  next
    case False
    then have ne: "trim_end ?t \<noteq> []" by (simp add: trim_def)
    then have "?t \<noteq> []" by (metis append_Nil2 append_is_Nil_conv end_split trim_def trim_Nil)
    then have "\<not> js_space (hd ?t)" by (rule hd_dropWhile)
    moreover have "hd ?t = hd (trim_end ?t)"
      using end_split ne by (metis hd_append2)
    moreover have "dropWhile js_space (rev ?t) \<noteq> []"
      using ne unfolding trim_end_def by simp
    then have "\<not> js_space (last (trim_end ?t))"
      unfolding trim_end_def last_rev[symmetric] rev_rev_ident by (subst last_rev) (rule hd_dropWhile)
    ultimately show ?thesis by (simp add: trimmed_def trim_def)
  qed
qed

lemma trim_eq_Nil: "trim s = [] \<Longrightarrow> \<forall>c \<in> set s. js_space c"
proof -
  assume "trim s = []"
  then have "\<forall>c \<in> set (dropWhile js_space s). js_space c"
    by (simp add: trim_def trim_end_def)
  then have "dropWhile js_space s = []"
    using hd_dropWhile hd_in_set by blast
  then show ?thesis by simp
qed

section \<open>split and join\<close>

fun split_on :: "('a \<Rightarrow> bool) \<Rightarrow> 'a list \<Rightarrow> 'a list list" where
  "split_on P [] = [[]]"
| "split_on P (x # xs) =
     (if P x then [] # split_on P xs
      else (case split_on P xs of [] \<Rightarrow> [[x]] | y # ys \<Rightarrow> (x # y) # ys))"

fun join :: "'a list \<Rightarrow> 'a list list \<Rightarrow> 'a list" where
  "join sep [] = []"
| "join sep [x] = x"
| "join sep (x # y # ys) = x @ sep @ join sep (y # ys)"

lemma split_on_neq_Nil [simp]: "split_on P xs \<noteq> []"
  by (induction xs) (auto split: list.splits)

lemma split_on_append: "P c \<Longrightarrow> split_on P (u @ c # r) = split_on P u @ split_on P r"
  by (induction u) (auto split: list.splits)

lemma split_on_none: "\<forall>x \<in> set u. \<not> P x \<Longrightarrow> split_on P u = [u]"
  by (induction u) auto

lemma split_on_first: "\<forall>x \<in> set u. \<not> P x \<Longrightarrow> P c \<Longrightarrow> split_on P (u @ c # r) = u # split_on P r"
  by (simp add: split_on_append split_on_none)

lemma split_on_join:
  assumes "xs \<noteq> []" "\<forall>x \<in> set xs. \<forall>c \<in> set x. \<not> P c" "P c"
  shows "split_on P (join [c] xs) = xs"
  using assms(1,2)
proof (induction "[c]" xs rule: join.induct)
  case 1
  then show ?case by simp
next
  case (2 x)
  then show ?case by (simp add: split_on_none)
next
  case (3 x y ys)
  then show ?case using assms(3) by (simp add: split_on_first)
qed

lemma split_on_elem: "y \<in> set (split_on P xs) \<Longrightarrow> c \<in> set y \<Longrightarrow> \<not> P c"
proof (induction xs arbitrary: y)
  case (Cons x xs)
  then show ?case
    by (cases "split_on P xs") (fastforce split: if_splits)+
qed simp

section \<open>Prefixes and leftmost matches\<close>

fun strip_prefix :: "string \<Rightarrow> string \<Rightarrow> string option" where
  "strip_prefix [] s = Some s"
| "strip_prefix (p # ps) [] = None"
| "strip_prefix (p # ps) (c # cs) = (if p = c then strip_prefix ps cs else None)"

lemma strip_prefix_append [simp]: "strip_prefix p (p @ s) = Some s"
  by (induction p) auto

lemma strip_prefix_append2 [simp]: "strip_prefix (p @ q) (p @ s) = strip_prefix q s"
  by (induction p) auto

lemma strip_prefix_Some: "strip_prefix p s = Some r \<longleftrightarrow> s = p @ r"
  by (induction p s rule: strip_prefix.induct) auto

lemma strip_prefix_None: "strip_prefix p s = None \<longleftrightarrow> \<not> prefix p s"
  by (induction p s rule: strip_prefix.induct) auto

text \<open>
  The leftmost position of a string where the matcher \<open>f\<close> accepts the rest: the text before
  it and what the matcher returns.
\<close>

fun find_at :: "(string \<Rightarrow> 'b option) \<Rightarrow> string \<Rightarrow> (string \<times> 'b) option" where
  "find_at f [] = map_option (\<lambda>b. ([], b)) (f [])"
| "find_at f (c # cs) =
     (case f (c # cs) of
        Some b \<Rightarrow> Some ([], b)
      | None \<Rightarrow> map_option (\<lambda>(u, b). (c # u, b)) (find_at f cs))"

lemma find_at_here: "f s = Some b \<Longrightarrow> find_at f s = Some ([], b)"
  by (cases s) auto

lemma find_at_append:
  assumes "\<And>u v. a = u @ v \<Longrightarrow> v \<noteq> [] \<Longrightarrow> f (v @ s) = None" "f s = Some r"
  shows "find_at f (a @ s) = Some (a, r)"
  using assms(1)
proof (induction a)
  case Nil
  then show ?case using assms(2) by (simp add: find_at_here)
next
  case (Cons c cs)
  have "f ((c # cs) @ s) = None"
    by (rule Cons.prems[of "[]"]) auto
  moreover have "find_at f (cs @ s) = Some (cs, r)"
    by (rule Cons.IH) (use Cons.prems[of "c # _"] in auto)
  ultimately show ?case by simp
qed

lemma find_at_None:
  assumes "\<And>u v. s = u @ v \<Longrightarrow> f v = None"
  shows "find_at f s = None"
  using assms
proof (induction s)
  case Nil
  then show ?case by simp
next
  case (Cons c cs)
  have "f (c # cs) = None"
    by (rule Cons.prems[of "[]"]) simp
  moreover have "find_at f cs = None"
    by (rule Cons.IH) (use Cons.prems[of "c # _"] in auto)
  ultimately show ?case by simp
qed

lemma find_at_None_suffix: "find_at f s = None \<Longrightarrow> s = u @ v \<Longrightarrow> f v = None"
proof (induction u arbitrary: s)
  case Nil
  then show ?case by (cases v) (auto split: option.splits)
next
  case (Cons c u)
  then show ?case by (auto split: option.splits)
qed

lemma find_at_Some_split: "find_at f s = Some (u, b) \<Longrightarrow> \<exists>v. s = u @ v \<and> f v = Some b"
  by (induction s arbitrary: u) (auto split: option.splits)

section \<open>Decimal numbers\<close>

definition digit :: "nat \<Rightarrow> char" where
  "digit n = ''0123456789'' ! n"

definition digit_val :: "char \<Rightarrow> nat" where
  "digit_val c = of_char c - 48"

fun show_nat :: "nat \<Rightarrow> string" where
  "show_nat n = (if n < 10 then [digit n] else show_nat (n div 10) @ [digit (n mod 10)])"

declare show_nat.simps [simp del]

definition show_int :: "int \<Rightarrow> string" where
  "show_int i = (if i < 0 then CHR ''-'' # show_nat (nat (- i)) else show_nat (nat i))"

fun show_num :: "js_num \<Rightarrow> string" where
  "show_num (Num i) = show_int i"
| "show_num NaN = ''NaN''"

definition digits_val :: "string \<Rightarrow> nat" where
  "digits_val ds = foldl (\<lambda>a c. 10 * a + digit_val c) 0 ds"

text \<open>\<open>parseInt(s, 10)\<close>: skip white space, an optional sign, the longest run of digits.\<close>

definition parse_digits :: "string \<Rightarrow> nat option" where
  "parse_digits s =
     (case takeWhile is_digit s of [] \<Rightarrow> None | ds \<Rightarrow> Some (digits_val ds))"

definition parse_int10 :: "string \<Rightarrow> js_num" where
  "parse_int10 s =
     (case dropWhile js_space s of
        [] \<Rightarrow> NaN
      | c # cs \<Rightarrow>
          (if c = CHR ''-'' then (case parse_digits cs of None \<Rightarrow> NaN | Some n \<Rightarrow> Num (- int n))
           else if c = CHR ''+'' then (case parse_digits cs of None \<Rightarrow> NaN | Some n \<Rightarrow> Num (int n))
           else (case parse_digits (c # cs) of None \<Rightarrow> NaN | Some n \<Rightarrow> Num (int n))))"

lemma less_10_cases: "n < 10 \<Longrightarrow> n \<in> {0, 1, 2, 3, 4, 5, 6, 7, 8, 9 :: nat}"
  by auto

lemma digit_props:
  assumes "n < 10"
  shows "is_digit (digit n)" "digit_val (digit n) = n" "\<not> js_space (digit n)"
    "digit n \<noteq> CHR ''-''" "digit n \<noteq> CHR ''+''" "\<not> line_term (digit n)"
  using less_10_cases[OF assms]
  by (auto simp: digit_def is_digit_def digit_val_def js_space_def line_term_def)

lemma show_nat_digits: "\<forall>c \<in> set (show_nat n). \<exists>k < 10. c = digit k"
proof (induction n rule: show_nat.induct)
  case (1 n)
  show ?case
  proof (cases "n < 10")
    case True
    then show ?thesis by (auto simp: show_nat.simps[of n])
  next
    case False
    have "\<exists>k < 10. digit (n mod 10) = digit k"
      by (rule exI[of _ "n mod 10"]) simp
    then show ?thesis using 1 False by (auto simp: show_nat.simps[of n])
  qed
qed

lemma show_nat_neq_Nil [simp]: "show_nat n \<noteq> []"
  by (simp add: show_nat.simps[of n])

lemma digits_val_show_nat: "digits_val (show_nat n) = n"
proof (induction n rule: show_nat.induct)
  case (1 n)
  show ?case
  proof (cases "n < 10")
    case True
    then show ?thesis by (simp add: show_nat.simps[of n] digits_val_def digit_props)
  next
    case False
    then have "digits_val (show_nat n) = 10 * (n div 10) + n mod 10"
      using 1 by (simp add: show_nat.simps[of n] digits_val_def digit_props)
    then show ?thesis by simp
  qed
qed

lemma show_nat_char:
  assumes "c \<in> set (show_nat n)"
  shows "is_digit c" "\<not> line_term c"
proof -
  obtain k where "k < 10" "c = digit k"
    using assms show_nat_digits by blast
  then show "is_digit c" "\<not> line_term c"
    by (simp_all add: digit_props)
qed

lemma parse_digits_show_nat [simp]: "parse_digits (show_nat n) = Some n"
proof -
  have "takeWhile is_digit (show_nat n) = show_nat n"
    using show_nat_char(1) by (simp add: takeWhile_eq_all_conv)
  then show ?thesis
    using show_nat_neq_Nil[of n] unfolding parse_digits_def
    by (metis digits_val_show_nat list.exhaust list.simps(5))
qed

lemma show_nat_Cons: "\<exists>k r. show_nat n = digit k # r \<and> k < 10"
  using show_nat_digits[of n] by (cases "show_nat n") auto

text \<open>Printing an integer and reading it back with \<open>parseInt\<close> is the identity.\<close>

lemma parse_int10_show_int: "parse_int10 (show_int i) = Num i"
proof (cases "i < 0")
  case True
  then show ?thesis by (simp add: parse_int10_def show_int_def js_space_def)
next
  case False
  then obtain k r where k: "show_nat (nat i) = digit k # r" "k < 10"
    using show_nat_Cons by blast
  have "parse_digits (digit k # r) = Some (nat i)"
    using k(1) parse_digits_show_nat[of "nat i"] by simp
  then show ?thesis
    using False k digit_props[OF k(2)] by (simp add: parse_int10_def show_int_def)
qed

lemma parse_int10_show_num [simp]: "parse_int10 (show_num x) = x"
proof (cases x)
  case (Num i)
  then show ?thesis by (simp add: parse_int10_show_int)
next
  case NaN
  then show ?thesis by (simp add: parse_int10_def js_space_def parse_digits_def is_digit_def)
qed

lemma show_num_no_term: "c \<in> set (show_num x) \<Longrightarrow> \<not> line_term c"
proof (cases x)
  case (Num i)
  assume "c \<in> set (show_num x)"
  then show ?thesis
    using Num show_nat_char(2) by (auto simp: show_int_def line_term_def split: if_splits)
qed (auto simp: line_term_def)

lemma show_num_neq_Nil [simp]: "show_num x \<noteq> []"
  by (cases x) (auto simp: show_int_def)

section \<open>Comparison by code units\<close>

fun code_unit_compare :: "string \<Rightarrow> string \<Rightarrow> int" where
  "code_unit_compare [] [] = 0"
| "code_unit_compare [] (b # bs) = -1"
| "code_unit_compare (a # as) [] = 1"
| "code_unit_compare (a # as) (b # bs) =
     (if a = b then code_unit_compare as bs
      else if (of_char a :: nat) < of_char b then -1 else 1)"

lemma code_unit_compare_refl [simp]: "code_unit_compare a a = 0"
  by (induction a) auto

lemma code_unit_compare_total: "code_unit_compare a b \<le> 0 \<or> code_unit_compare b a \<le> 0"
  by (induction a b rule: code_unit_compare.induct) auto

lemma code_unit_compare_trans:
  "code_unit_compare a b \<le> 0 \<Longrightarrow> code_unit_compare b c \<le> 0 \<Longrightarrow> code_unit_compare a c \<le> 0"
proof (induction a b arbitrary: c rule: code_unit_compare.induct)
  case (1 c) then show ?case by simp
next
  case (2 b bs c) then show ?case by (cases c) auto
next
  case (3 a as c) then show ?case by simp
next
  case (4 a as b bs c) then show ?case
    by (cases c) (auto split: if_splits)
qed

end
