(* ===== verification/Task_Document.thy ===== *)
theory Task_Document
  imports Js_String
begin

text \<open>
  Tasks and their markdown files: the data of \<open>tasks/types.ts\<close> and the serializer and parser
  of \<open>tasks/task-document.ts\<close>. Each regular expression of the parser is a matcher applied at
  the leftmost position where it accepts (\<open>find_at\<close>); lazy groups are the text before the
  leftmost match of what follows them.
\<close>

section \<open>Data\<close>

text \<open>
  A status read from a file is cast without a check, so a value outside the five declared
  ones is carried by \<open>Unchecked\<close>.
\<close>

datatype task_status = Draft | Open | In_progress | Done | Failed | Unchecked string

definition status_string :: "task_status \<Rightarrow> string" where
  "status_string s =
     (case s of
        Draft \<Rightarrow> ''draft''
      | Open \<Rightarrow> ''open''
      | In_progress \<Rightarrow> ''in_progress''
      | Done \<Rightarrow> ''done''
      | Failed \<Rightarrow> ''failed''
      | Unchecked t \<Rightarrow> t)"

definition status_of_string :: "string \<Rightarrow> task_status" where
  "status_of_string t =
     (if t = ''draft'' then Draft
      else if t = ''open'' then Open
      else if t = ''in_progress'' then In_progress
      else if t = ''done'' then Done
      else if t = ''failed'' then Failed
      else Unchecked t)"

record task_note =
  n_timestamp :: string
  n_content :: string

record task =
  t_id :: string
  t_title :: string
  t_status :: task_status
  t_deps :: "string list"
  t_parentId :: "string option"
  t_body :: string
  t_acceptanceCriteria :: "string list"
  t_notes :: "task_note list"
  t_created :: string
  t_assignee :: "string option"
  t_priority :: "js_num option"
  t_raw :: string

text \<open>An optional string is truthy when it is present and not empty.\<close>

definition truthy :: "string option \<Rightarrow> bool" where
  "truthy s = (case s of None \<Rightarrow> False | Some t \<Rightarrow> t \<noteq> [])"

text \<open>\<open>s || undefined\<close>.\<close>

definition non_empty :: "string \<Rightarrow> string option" where
  "non_empty s = (if s = [] then None else Some s)"

section \<open>serializeTask\<close>

definition opt_line :: "string \<Rightarrow> string option \<Rightarrow> string list" where
  "opt_line key v = (if truthy v then [key @ '': '' @ the v] else [])"

definition frontmatter_fields :: "task \<Rightarrow> string list" where
  "frontmatter_fields t =
     [''id: '' @ t_id t,
      ''title: '' @ t_title t,
      ''status: '' @ status_string (t_status t),
      ''deps: ['' @ join '', '' (t_deps t) @ '']'',
      ''created: '' @ t_created t]
     @ opt_line ''parentId'' (t_parentId t)
     @ opt_line ''assignee'' (t_assignee t)
     @ (case t_priority t of None \<Rightarrow> [] | Some p \<Rightarrow> [''priority: '' @ show_num p])"

definition criteria_header :: string where
  "criteria_header = ''## Acceptance Criteria\<newline>''"

definition notes_header :: string where
  "notes_header = ''## Notes\<newline>''"

definition criterion_line :: "string \<Rightarrow> string" where
  "criterion_line c = ''- [ ] '' @ c @ nl"

definition note_text :: "task_note \<Rightarrow> string" where
  "note_text n = nl @ ''**'' @ n_timestamp n @ ''**'' @ nl @ nl @ n_content n @ nl"

definition serialize_content :: "task \<Rightarrow> string" where
  "serialize_content t =
     (if t_body t \<noteq> [] then t_body t @ nl else [])
     @ (if t_acceptanceCriteria t \<noteq> []
        then nl @ criteria_header @ nl @ concat (map criterion_line (t_acceptanceCriteria t))
        else [])
     @ (if t_notes t \<noteq> []
        then nl @ notes_header @ concat (map note_text (t_notes t))
        else [])"

definition serializeTask :: "task \<Rightarrow> string" where
  "serializeTask t =
     join nl ([''---''] @ frontmatter_fields t @ [''---'']) @ nl @ nl @ serialize_content t"

section \<open>parseTask\<close>

datatype doc_error = Missing_frontmatter

text \<open>\<open>/^---\n([\s\S]*?)\n---\n/\<close>: the captured group and the text after the match.\<close>

definition split_frontmatter :: "string \<Rightarrow> (string \<times> string) option" where
  "split_frontmatter content =
     (case strip_prefix ''---\<newline>'' content of
        None \<Rightarrow> None
      | Some r \<Rightarrow> find_at (strip_prefix ''\<newline>---\<newline>'') r)"

text \<open>\<open>^key: (.*)$\<close> in multiline mode: the first line that starts with the key.\<close>

fun first_value :: "string \<Rightarrow> string list \<Rightarrow> string" where
  "first_value key [] = []"
| "first_value key (l # ls) =
     (case strip_prefix (key @ '': '') l of Some v \<Rightarrow> v | None \<Rightarrow> first_value key ls)"

definition getValue :: "string \<Rightarrow> string \<Rightarrow> string" where
  "getValue frontmatter key = first_value key (split_on line_term frontmatter)"

text \<open>\<open>/\[(.*)\]/\<close>: from the first opening bracket to the last closing one after it.\<close>

definition bracketed :: "string \<Rightarrow> string option" where
  "bracketed s =
     (case dropWhile (\<lambda>c. c \<noteq> CHR ''['') s of
        [] \<Rightarrow> None
      | _ # r \<Rightarrow>
          (case dropWhile (\<lambda>c. c \<noteq> CHR '']'') (rev r) of
             [] \<Rightarrow> None
           | _ # q \<Rightarrow> Some (rev q)))"

definition parse_deps :: "string \<Rightarrow> string list" where
  "parse_deps s =
     (case bracketed s of
        None \<Rightarrow> []
      | Some m \<Rightarrow>
          (if trim m = [] then []
           else filter (\<lambda>d. d \<noteq> []) (map trim (split_on (\<lambda>c. c = CHR '','') m))))"

text \<open>\<open>\d{4}-\d{2}-\d{2}T\<close>\<close>

fun date_head :: "string \<Rightarrow> (string \<times> string) option" where
  "date_head (a # b # c # d # e # f # g # h # i # j # k # r) =
     (if is_digit a \<and> is_digit b \<and> is_digit c \<and> is_digit d \<and> e = CHR ''-'' \<and>
         is_digit f \<and> is_digit g \<and> h = CHR ''-'' \<and> is_digit i \<and> is_digit j \<and> k = CHR ''T''
      then Some ([a, b, c, d, e, f, g, h, i, j, k], r) else None)"
| "date_head _ = None"

definition ts_char :: "char \<Rightarrow> bool" where
  "ts_char c \<longleftrightarrow> is_digit c \<or> c = CHR '':'' \<or> c = CHR ''.'' \<or> c = CHR ''Z''"

text \<open>The head of a note: \<open>\*\*(\d{4}-\d{2}-\d{2}T[\d:.Z]+)\*\*\n\n\<close>.\<close>

definition match_note_head :: "string \<Rightarrow> (string \<times> string) option" where
  "match_note_head s =
     (case strip_prefix ''**'' s of
        None \<Rightarrow> None
      | Some r \<Rightarrow>
          (case date_head r of
             None \<Rightarrow> None
           | Some (d, r1) \<Rightarrow>
               (if takeWhile ts_char r1 = [] then None
                else map_option (\<lambda>r2. (d @ takeWhile ts_char r1, r2))
                       (strip_prefix ''**\<newline>\<newline>'' (dropWhile ts_char r1)))))"

text \<open>Where a note ends: the lookahead \<open>(?=\n\*\*\d{4}|$)\<close>.\<close>

fun four_digits :: "string \<Rightarrow> bool" where
  "four_digits (a # b # c # d # r) = (is_digit a \<and> is_digit b \<and> is_digit c \<and> is_digit d)"
| "four_digits _ = False"

definition note_end :: "string \<Rightarrow> unit option" where
  "note_end s =
     (if s = [] then Some ()
      else (case strip_prefix ''\<newline>**'' s of
              None \<Rightarrow> None
            | Some r \<Rightarrow> if four_digits r then Some () else None))"

definition note_body :: "string \<Rightarrow> string" where
  "note_body s = (case find_at note_end s of None \<Rightarrow> s | Some (c, _) \<Rightarrow> c)"

lemma date_head_Some: "date_head s = Some (d, r) \<Longrightarrow> s = d @ r"
  by (cases s rule: date_head.cases) (auto split: if_splits)

lemma date_head_chars:
  "date_head s = Some (d, r) \<Longrightarrow> \<forall>c \<in> set d. is_digit c \<or> c = CHR ''-'' \<or> c = CHR ''T''"
  by (cases s rule: date_head.cases) (auto split: if_splits)

lemma match_note_head_length:
  assumes "match_note_head s = Some (ts, r)"
  shows "length r < length s"
proof -
  from assms obtain r0 d r1 where 1: "s = ''**'' @ r0" "date_head r0 = Some (d, r1)"
    and 2: "strip_prefix ''**\<newline>\<newline>'' (dropWhile ts_char r1) = Some r"
    by (auto simp: match_note_head_def strip_prefix_Some split: option.splits prod.splits if_splits)
  have "length r \<le> length (dropWhile ts_char r1)"
    using 2 unfolding strip_prefix_Some by simp
  also have "\<dots> \<le> length r1"
    by (rule length_dropWhile_le)
  also have "\<dots> \<le> length r0"
    using date_head_Some[OF 1(2)] by simp
  finally show ?thesis using 1(1) by simp
qed

text \<open>All matches of the note pattern, left to right, each search starting where the last match ended.\<close>

function scan_notes :: "string \<Rightarrow> task_note list" where
  "scan_notes s =
     (case match_note_head s of
        Some (ts, r) \<Rightarrow>
          \<lparr>n_timestamp = ts, n_content = trim (note_body r)\<rparr> # scan_notes (drop (length (note_body r)) r)
      | None \<Rightarrow> (case s of [] \<Rightarrow> [] | _ # s' \<Rightarrow> scan_notes s'))"
  by pat_completeness auto
termination
  by (relation "measure length") (auto dest!: match_note_head_length)

declare scan_notes.simps [simp del]

definition parse_notes :: "string \<Rightarrow> task_note list" where
  "parse_notes fileBody =
     (case find_at (strip_prefix notes_header) fileBody of
        None \<Rightarrow> []
      | Some (_, section_text) \<Rightarrow> scan_notes section_text)"

text \<open>\<open>- \[[ x]\] (.+)$\<close> within one line.\<close>

definition match_criterion :: "string \<Rightarrow> string option" where
  "match_criterion s =
     (case strip_prefix ''- [ ] '' s of
        Some r \<Rightarrow> non_empty r
      | None \<Rightarrow> (case strip_prefix ''- [x] '' s of Some r \<Rightarrow> non_empty r | None \<Rightarrow> None))"

definition criteria_end :: "string \<Rightarrow> unit option" where
  "criteria_end s =
     (if s = [] \<or> strip_prefix ''\<newline>## Notes'' s \<noteq> None then Some () else None)"

fun criteria_of_lines :: "string list \<Rightarrow> string list" where
  "criteria_of_lines [] = []"
| "criteria_of_lines (l # ls) =
     (case find_at match_criterion l of
        None \<Rightarrow> criteria_of_lines ls
      | Some (_, c) \<Rightarrow> trim c # criteria_of_lines ls)"

definition parse_criteria :: "string \<Rightarrow> string list" where
  "parse_criteria fileBody =
     (case find_at (strip_prefix (criteria_header @ nl)) fileBody of
        None \<Rightarrow> []
      | Some (_, r) \<Rightarrow>
          (case find_at criteria_end r of
             None \<Rightarrow> []
           | Some (sec, _) \<Rightarrow> criteria_of_lines (split_on line_term sec)))"

text \<open>\<open>/\n## (Acceptance Criteria|Notes)\n/\<close>\<close>

definition section_start :: "string \<Rightarrow> unit option" where
  "section_start s =
     (if strip_prefix (nl @ criteria_header) s \<noteq> None \<or> strip_prefix (nl @ notes_header) s \<noteq> None
      then Some () else None)"

definition parse_body :: "string \<Rightarrow> string" where
  "parse_body fileBody =
     trim (case find_at section_start fileBody of
             None \<Rightarrow> fileBody
           | Some (lead, _) \<Rightarrow> trim lead)"

definition parseTask :: "string \<Rightarrow> string \<Rightarrow> doc_error + task" where
  "parseTask now content =
     (case split_frontmatter content of
        None \<Rightarrow> Inl Missing_frontmatter
      | Some (frontmatter, fileBody) \<Rightarrow>
          (let value = getValue frontmatter;
               priorityStr = value ''priority''
           in Inr \<lparr>t_id = value ''id'',
                   t_title = value ''title'',
                   t_status = status_of_string (value ''status''),
                   t_deps = parse_deps (value ''deps''),
                   t_parentId = non_empty (value ''parentId''),
                   t_body = parse_body fileBody,
                   t_acceptanceCriteria = parse_criteria fileBody,
                   t_notes = parse_notes fileBody,
                   t_created = (if value ''created'' = [] then now else value ''created''),
                   t_assignee = non_empty (value ''assignee''),
                   t_priority = (if priorityStr = [] then None else Some (parse_int10 priorityStr)),
                   t_raw = content\<rparr>))"

end
