(* ===== verification/Task_Roundtrip.thy ===== *)
theory Task_Roundtrip
  imports Task_Document
begin

text \<open>
  The round trip of the task documents: a well-formed task survives writing and reading.
  \<open>wf_task\<close> lists what the file format needs of the fields, since the serializer escapes
  nothing: one-line header fields, dependencies without commas, a body and notes that do not
  contain a line ending in one of the two section headings.
\<close>

section \<open>Well-formed tasks\<close>

definition one_line :: "string \<Rightarrow> bool" where
  "one_line s \<longleftrightarrow> list_all (\<lambda>c. \<not> line_term c) s"

text \<open>No line of the text ends with the heading \<open>h\<close>.\<close>

definition no_end :: "string \<Rightarrow> string \<Rightarrow> bool" where
  "no_end h s \<longleftrightarrow> list_all (\<lambda>l. \<not> suffix h l) (split_on is_nl s)"

definition criteria_title :: string where
  "criteria_title = ''## Acceptance Criteria''"

definition notes_title :: string where
  "notes_title = ''## Notes''"

definition wf_status :: "task_status \<Rightarrow> bool" where
  "wf_status s \<longleftrightarrow> (case s of Unchecked _ \<Rightarrow> False | _ \<Rightarrow> True)"

definition wf_opt :: "string option \<Rightarrow> bool" where
  "wf_opt v \<longleftrightarrow> (case v of None \<Rightarrow> True | Some s \<Rightarrow> s \<noteq> [] \<and> one_line s)"

definition wf_dep :: "string \<Rightarrow> bool" where
  "wf_dep d \<longleftrightarrow> d \<noteq> [] \<and> trimmed d \<and> one_line d \<and> CHR '','' \<notin> set d"

definition wf_criterion :: "string \<Rightarrow> bool" where
  "wf_criterion c \<longleftrightarrow> c \<noteq> [] \<and> trimmed c \<and> one_line c \<and> \<not> suffix notes_title c"

definition wf_timestamp :: "string \<Rightarrow> bool" where
  "wf_timestamp ts \<longleftrightarrow>
     (case date_head ts of None \<Rightarrow> False | Some (d, run) \<Rightarrow> run \<noteq> [] \<and> list_all ts_char run)"

definition note_start :: "string \<Rightarrow> unit option" where
  "note_start s =
     (case strip_prefix ''\<newline>**'' s of
        None \<Rightarrow> None
      | Some r \<Rightarrow> if four_digits r then Some () else None)"

definition wf_note :: "task_note \<Rightarrow> bool" where
  "wf_note n \<longleftrightarrow>
     wf_timestamp (n_timestamp n) \<and> trimmed (n_content n) \<and>
     no_end criteria_title (n_content n) \<and>
     find_at note_start (n_content n @ nl) = None"

definition wf_task :: "task \<Rightarrow> bool" where
  "wf_task t \<longleftrightarrow>
     one_line (t_id t) \<and> one_line (t_title t) \<and> wf_status (t_status t) \<and>
     list_all wf_dep (t_deps t) \<and> wf_opt (t_parentId t) \<and>
     trimmed (t_body t) \<and> no_end criteria_title (t_body t) \<and> no_end notes_title (t_body t) \<and>
     list_all wf_criterion (t_acceptanceCriteria t) \<and> list_all wf_note (t_notes t) \<and>
     one_line (t_created t) \<and> t_created t \<noteq> [] \<and> wf_opt (t_assignee t)"

section \<open>Lines\<close>

lemma nl_simps [simp]: "is_nl (CHR 0x0A)" "nl = [CHR 0x0A]" "line_term (CHR 0x0A)"
  by (simp_all add: is_nl_def nl_def line_term_def)

lemma no_end_nl: "no_end h (u @ CHR 0x0A # r) \<longleftrightarrow> no_end h u \<and> no_end h r"
  by (simp add: no_end_def split_on_append)

lemma no_end_Cons_nl [simp]: "no_end h (CHR 0x0A # r) \<longleftrightarrow> no_end h [] \<and> no_end h r"
  using no_end_nl[of h "[]" r] by simp

lemma no_end_line: "\<forall>c \<in> set s. \<not> is_nl c \<Longrightarrow> no_end h s \<longleftrightarrow> \<not> suffix h s"
  by (simp add: no_end_def split_on_none)

lemma last_split_on_append:
  assumes "\<forall>c \<in> set h. \<not> P c"
  shows "\<exists>ls p. split_on P (u @ h) = ls @ [p @ h]"
proof (induction u)
  case Nil
  show ?case using assms by (intro exI[of _ "[]"]) (simp add: split_on_none)
next
  case (Cons c u)
  then obtain ls p where "split_on P (u @ h) = ls @ [p @ h]" by blast
  then show ?case
    by (cases ls) (auto intro: exI[of _ "[]"] exI[of _ "[] # _"])
qed

text \<open>A heading followed by a newline shows up as the end of a line.\<close>

lemma heading_not_absent:
  assumes "s = u @ h @ CHR 0x0A # r" "\<forall>c \<in> set h. \<not> is_nl c"
  shows "\<not> no_end h s"
proof -
  obtain ls p where "split_on is_nl (u @ h) = ls @ [p @ h]"
    using last_split_on_append[OF assms(2)] by blast
  then have "split_on is_nl s = ls @ [p @ h] @ split_on is_nl r"
    using split_on_append[of is_nl "CHR 0x0A" "u @ h" r] assms(1) by simp
  moreover have "suffix h (p @ h)" by (simp add: suffix_def)
  ultimately show ?thesis by (simp add: no_end_def)
qed

lemma find_heading_None:
  assumes "no_end h s" "\<forall>c \<in> set h. \<not> is_nl c"
  shows "find_at (strip_prefix (h @ CHR 0x0A # w)) s = None"
proof (rule find_at_None)
  fix u v assume "s = u @ v"
  show "strip_prefix (h @ CHR 0x0A # w) v = None"
  proof (rule ccontr)
    assume "strip_prefix (h @ CHR 0x0A # w) v \<noteq> None"
    then obtain r where "v = h @ CHR 0x0A # w @ r"
      by (auto simp: strip_prefix_Some)
    with \<open>s = u @ v\<close> show False
      using heading_not_absent[of s u h "w @ r"] assms by simp
  qed
qed

text \<open>
  A heading is not found early: no match starts inside a text \<open>a\<close> that ends a line and in
  which no line ends with the heading, whatever follows.
\<close>

lemma heading_not_inside:
  assumes "a = u @ v" "v \<noteq> []" "last a = CHR 0x0A" "no_end h a" "\<forall>c \<in> set h. \<not> is_nl c"
  shows "strip_prefix (h @ CHR 0x0A # w) (v @ s) = None"
proof (rule ccontr)
  assume "strip_prefix (h @ CHR 0x0A # w) (v @ s) \<noteq> None"
  then obtain r where "v @ s = (h @ [CHR 0x0A]) @ w @ r"
    by (auto simp: strip_prefix_Some)
  then obtain x0 where "v = (h @ [CHR 0x0A]) @ x0 \<or> v @ x0 = h @ [CHR 0x0A]"
    unfolding append_eq_append_conv2 by blast
  then consider x where "v = (h @ [CHR 0x0A]) @ x" | x where "v @ x = h @ [CHR 0x0A]" "x \<noteq> []"
    by (cases "x0 = []") auto
  then show False
  proof cases
    case 1
    then have "a = u @ h @ CHR 0x0A # x" using assms(1) by simp
    then show False using heading_not_absent assms(4,5) by blast
  next
    case 2
    then obtain y where "h = v @ y"
      by (cases x rule: rev_cases) auto
    moreover have "last v = CHR 0x0A"
      using assms(1-3) by simp
    then have "CHR 0x0A \<in> set v"
      using last_in_set[OF assms(2)] by simp
    ultimately have "CHR 0x0A \<in> set h" by simp
    then show False using assms(5) by auto
  qed
qed

section \<open>The header fields\<close>

lemma status_roundtrip: "wf_status s \<Longrightarrow> status_of_string (status_string s) = s"
  by (cases s) (simp_all add: wf_status_def status_string_def status_of_string_def)

lemma one_line_status: "wf_status s \<Longrightarrow> one_line (status_string s)"
  by (cases s) (simp_all add: wf_status_def status_string_def one_line_def line_term_def)

lemma one_line_append [simp]: "one_line (a @ b) \<longleftrightarrow> one_line a \<and> one_line b"
  by (simp add: one_line_def)

lemma one_line_not_term: "one_line s \<Longrightarrow> c \<in> set s \<Longrightarrow> \<not> line_term c \<and> \<not> is_nl c"
  by (auto simp: one_line_def list_all_iff line_term_def is_nl_def)

lemma one_line_join: "one_line sep \<Longrightarrow> list_all one_line xs \<Longrightarrow> one_line (join sep xs)"
  by (induction sep xs rule: join.induct) (auto simp: one_line_def)

lemma one_line_opt: "wf_opt v \<Longrightarrow> list_all one_line (opt_line key v) \<longleftrightarrow> truthy v \<longrightarrow> one_line key"
  by (auto simp: opt_line_def truthy_def wf_opt_def one_line_def line_term_def split: option.splits)

lemma one_line_fields:
  assumes "wf_task t"
  shows "list_all one_line (frontmatter_fields t)"
proof -
  have "one_line (join '', '' (t_deps t))"
    using assms by (intro one_line_join) (auto simp: wf_task_def wf_dep_def list_all_iff one_line_def line_term_def)
  moreover have "one_line (show_num p)" for p
    using show_num_no_term by (auto simp: one_line_def list_all_iff)
  ultimately show ?thesis
    using assms one_line_status[of "t_status t"]
    by (simp add: wf_task_def frontmatter_fields_def one_line_opt split: option.split)
      (simp add: one_line_def line_term_def)
qed

lemma split_fields:
  assumes "wf_task t" "P \<in> {is_nl, line_term}"
  shows "split_on P (join nl (frontmatter_fields t)) = frontmatter_fields t"
proof -
  have "\<forall>x \<in> set (frontmatter_fields t). \<forall>c \<in> set x. \<not> P c"
    using one_line_fields[OF assms(1)] assms(2) one_line_not_term by (auto simp: list_all_iff)
  moreover have "P (CHR 0x0A)"
    using assms(2) by auto
  ultimately show ?thesis
    using split_on_join[of "frontmatter_fields t" P "CHR 0x0A"]
    by (simp add: frontmatter_fields_def)
qed

lemma takeWhile_split_on:
  "P c \<Longrightarrow> takeWhile (\<lambda>x. \<not> P x) (v @ c # s) = hd (split_on P v)"
  by (induction v) (auto split: list.splits)

text \<open>Every field starts with its key, so none is the closing line of dashes.\<close>

lemma dashes_not_field: "''---'' \<notin> set (frontmatter_fields t)"
  by (auto simp: frontmatter_fields_def opt_line_def split: option.splits)

lemma split_frontmatter_fields:
  assumes "wf_task t"
  shows "split_frontmatter (join nl ([''---''] @ frontmatter_fields t @ [''---'']) @ nl @ r)
    = Some (join nl (frontmatter_fields t), r)"
proof -
  let ?fm = "join nl (frontmatter_fields t)"
  let ?h = "''---''"
  let ?s = "''\<newline>---\<newline>'' @ r"
  have ne: "frontmatter_fields t \<noteq> []"
    by (simp add: frontmatter_fields_def)
  have join_snoc: "join sep (xs @ [y]) = (if xs = [] then y else join sep xs @ sep @ y)" for sep xs and y :: string
    by (induction sep xs rule: join.induct) auto
  have join_Cons: "join [CHR 0x0A] (?h # xs) = ?h @ [CHR 0x0A] @ join [CHR 0x0A] xs" if "xs \<noteq> []" for xs
    using that by (cases xs) auto
  have doc: "join nl ([?h] @ frontmatter_fields t @ [?h]) @ nl @ r = ''---\<newline>'' @ ?fm @ ?s"
    using ne by (simp add: join_Cons join_snoc)
  have "find_at (strip_prefix ''\<newline>---\<newline>'') (?fm @ ?s) = Some (?fm, r)"
  proof (rule find_at_append)
    fix u v assume uv: "?fm = u @ v" "v \<noteq> []"
    show "strip_prefix ''\<newline>---\<newline>'' (v @ ?s) = None"
    proof (rule ccontr)
      assume "strip_prefix ''\<newline>---\<newline>'' (v @ ?s) \<noteq> None"
      then obtain q where q: "v @ ?s = ''\<newline>---\<newline>'' @ q"
        by (auto simp: strip_prefix_Some)
      then obtain v' where v: "v = CHR 0x0A # v'"
        using uv(2) by (cases v) auto
      then have "v' @ CHR 0x0A # (''---\<newline>'' @ r) = ''---'' @ CHR 0x0A # q"
        using q by simp
      then have "hd (split_on is_nl v') = hd (split_on is_nl ''---'')"
        by (metis takeWhile_split_on nl_simps(1))
      then have "''---'' = hd (split_on is_nl v')"
        by (simp add: is_nl_def)
      then have "''---'' \<in> set (split_on is_nl v')"
        by (metis hd_in_set split_on_neq_Nil)
      then have "''---'' \<in> set (split_on is_nl ?fm)"
        using uv(1) v by (simp add: split_on_append)
      then show False
        using split_fields[OF assms, of is_nl] dashes_not_field by simp
    qed
  qed simp
  then show ?thesis
    unfolding split_frontmatter_def doc by simp
qed

lemma header_values:
  assumes "wf_task t"
  defines "v \<equiv> getValue (join nl (frontmatter_fields t))"
  shows "v ''id'' = t_id t" "v ''title'' = t_title t" "v ''status'' = status_string (t_status t)"
    "v ''deps'' = ''['' @ join '', '' (t_deps t) @ '']''" "v ''created'' = t_created t"
    "non_empty (v ''parentId'') = t_parentId t" "non_empty (v ''assignee'') = t_assignee t"
    "v ''priority'' = (case t_priority t of None \<Rightarrow> [] | Some p \<Rightarrow> show_num p)"
proof -
  have v: "v key = first_value key (frontmatter_fields t)" for key
    using split_fields[OF assms(1), of line_term] by (simp add: v_def getValue_def)
  show "v ''id'' = t_id t" "v ''title'' = t_title t" "v ''status'' = status_string (t_status t)"
    "v ''deps'' = ''['' @ join '', '' (t_deps t) @ '']''" "v ''created'' = t_created t"
    by (simp_all add: v frontmatter_fields_def)
  have wf: "wf_opt (t_parentId t)" "wf_opt (t_assignee t)"
    using assms(1) by (simp_all add: wf_task_def)
  show "non_empty (v ''parentId'') = t_parentId t"
    using wf by (cases "t_parentId t"; cases "t_assignee t"; cases "t_priority t")
      (auto simp: v frontmatter_fields_def opt_line_def truthy_def wf_opt_def non_empty_def)
  show "non_empty (v ''assignee'') = t_assignee t"
    using wf by (cases "t_parentId t"; cases "t_assignee t"; cases "t_priority t")
      (auto simp: v frontmatter_fields_def opt_line_def truthy_def wf_opt_def non_empty_def)
  show "v ''priority'' = (case t_priority t of None \<Rightarrow> [] | Some p \<Rightarrow> show_num p)"
    using wf by (cases "t_parentId t"; cases "t_assignee t"; cases "t_priority t")
      (auto simp: v frontmatter_fields_def opt_line_def truthy_def wf_opt_def)
qed

text \<open>The dependency list: brackets stripped, split at the commas, each item trimmed.\<close>

lemma bracketed_list: "bracketed (''['' @ m @ '']'') = Some m"
  by (simp add: bracketed_def)

lemma split_deps:
  "list_all wf_dep ds \<Longrightarrow> ds \<noteq> [] \<Longrightarrow>
   map trim (split_on (\<lambda>c. c = CHR '','') (join '', '' ds)) = ds"
proof (induction ds rule: induct_list012)
  case (2 d)
  then have "CHR '','' \<notin> set d" by (simp add: wf_dep_def)
  then show ?case using 2 by (subst split_on_none) (auto simp: wf_dep_def)
next
  case (3 d e ds)
  let ?P = "\<lambda>c. c = CHR '',''"
  obtain x xs where s: "split_on ?P (join '', '' (e # ds)) = x # xs"
    by (cases "split_on ?P (join '', '' (e # ds))") auto
  have d: "\<forall>c \<in> set d. \<not> ?P c" "trimmed d" and e: "trimmed e"
    using 3 by (auto simp: wf_dep_def)
  have "map trim (x # xs) = e # ds"
    using 3 s by simp
  moreover have "trim (CHR '' '' # x) = trim x"
    by (simp add: trim_def js_space_def)
  moreover have "split_on ?P (join '', '' (d # e # ds)) = d # (CHR '' '' # x) # xs"
    using split_on_first[OF d(1), of "CHR '',''" "CHR '' '' # join '', '' (e # ds)"] s by simp
  ultimately show ?case using d(2) by simp
qed simp

lemma parse_deps_join:
  assumes "list_all wf_dep ds"
  shows "parse_deps (''['' @ join '', '' ds @ '']'') = ds"
proof (cases "ds = []")
  case True
  then show ?thesis by (simp add: parse_deps_def bracketed_def)
next
  case False
  let ?m = "join '', '' ds"
  have items: "map trim (split_on (\<lambda>c. c = CHR '','') ?m) = ds"
    using split_deps assms False by blast
  have "trim ?m \<noteq> []"
  proof
    assume "trim ?m = []"
    then have "\<forall>c \<in> set ?m. js_space c"
      using trim_eq_Nil by blast
    moreover obtain d ds' where ds: "ds = d # ds'"
      using False by (cases ds) auto
    moreover have "hd d \<in> set d" "\<not> js_space (hd d)"
      using assms ds by (auto simp: wf_dep_def trimmed_def)
    ultimately show False
      by (cases ds') auto
  qed
  moreover have "filter (\<lambda>d. d \<noteq> []) ds = ds"
    using assms by (auto simp: filter_id_conv wf_dep_def list_all_iff)
  ultimately show ?thesis
    unfolding parse_deps_def bracketed_list by (simp add: items)
qed

section \<open>The sections\<close>

lemma titles [simp]:
  "criteria_header = criteria_title @ nl" "notes_header = notes_title @ nl"
  "\<forall>c \<in> set criteria_title. \<not> is_nl c" "\<forall>c \<in> set notes_title. \<not> is_nl c"
  by (simp_all add: criteria_header_def criteria_title_def notes_header_def notes_title_def is_nl_def)

lemma hd_titles: "hd criteria_title = CHR ''#''" "hd notes_title = CHR ''#''"
  "criteria_title \<noteq> []" "notes_title \<noteq> []"
  by (simp_all add: criteria_title_def notes_title_def)

text \<open>The parts of the text after the header fields.\<close>

definition body_part :: "task \<Rightarrow> string" where
  "body_part t = nl @ (if t_body t \<noteq> [] then t_body t @ nl else [])"

definition criteria_part :: "task \<Rightarrow> string" where
  "criteria_part t =
     (if t_acceptanceCriteria t \<noteq> []
      then nl @ criteria_header @ nl @ concat (map criterion_line (t_acceptanceCriteria t)) else [])"

definition notes_part :: "task \<Rightarrow> string" where
  "notes_part t =
     (if t_notes t \<noteq> [] then nl @ notes_header @ concat (map note_text (t_notes t)) else [])"

lemma serialize_parts: "nl @ serialize_content t = body_part t @ criteria_part t @ notes_part t"
  by (simp add: serialize_content_def body_part_def criteria_part_def notes_part_def)

lemma no_end_Nil [simp]: "h \<noteq> [] \<Longrightarrow> no_end h []"
  by (simp add: no_end_def)

lemma no_end_append_line:
  "no_end h (u @ CHR 0x0A # r @ s) \<longleftrightarrow> no_end h u \<and> no_end h (r @ s)"
  by (simp add: no_end_nl)

lemma no_end_body:
  assumes "wf_task t" "h \<in> {criteria_title, notes_title}"
  shows "no_end h (body_part t)"
  using assms hd_titles by (auto simp: body_part_def wf_task_def no_end_nl)

lemma last_body_part: "last (body_part t) = CHR 0x0A" "body_part t \<noteq> []"
  by (simp_all add: body_part_def)

lemma not_suffix_criterion:
  assumes "wf_criterion c"
  shows "no_end notes_title (''- [ ] '' @ c)"
proof -
  have "\<forall>x \<in> set (''- [ ] '' @ c). \<not> is_nl x"
    using assms one_line_not_term by (auto simp: wf_criterion_def is_nl_def)
  moreover have "\<not> suffix notes_title (''- [ ] '' @ c)"
  proof
    assume "suffix notes_title (''- [ ] '' @ c)"
    then obtain x where "notes_title = x @ c" "x \<in> set (suffixes ''- [ ] '')"
      using assms unfolding suffix_append in_set_suffixes wf_criterion_def by blast
    then show False
      using assms by (auto simp: notes_title_def wf_criterion_def)
  qed
  ultimately show ?thesis using no_end_line by blast
qed

lemma no_end_criteria_lines:
  "list_all wf_criterion cs \<Longrightarrow> no_end notes_title r \<Longrightarrow>
   no_end notes_title (concat (map criterion_line cs) @ r)"
proof (induction cs)
  case (Cons c cs)
  have "concat (map criterion_line (c # cs)) @ r
    = (''- [ ] '' @ c) @ CHR 0x0A # (concat (map criterion_line cs) @ r)"
    by (simp add: criterion_line_def[of c])
  then show ?case
    using Cons not_suffix_criterion[of c] by (simp only: no_end_nl) simp
qed simp

lemma no_end_criteria_part:
  assumes "wf_task t" "no_end notes_title r"
  shows "no_end notes_title (criteria_part t @ r)"
proof -
  have "no_end notes_title criteria_title"
    by (simp add: no_end_line) (simp add: notes_title_def criteria_title_def suffix_def)
  then show ?thesis
    using assms no_end_criteria_lines[of "t_acceptanceCriteria t" r] hd_titles
    by (simp add: criteria_part_def wf_task_def no_end_nl)
qed

text \<open>The first section heading ends the body.\<close>

lemma section_not_inside:
  assumes "wf_task t" "body_part t = u @ v" "v \<noteq> []" "s = [] \<or> hd s = CHR 0x0A"
  shows "section_start (v @ s) = None"
proof -
  have "strip_prefix (CHR 0x0A # h @ [CHR 0x0A]) (v @ s) = None" if h: "h \<in> {criteria_title, notes_title}" for h
  proof (cases v)
    case (Cons c v')
    show ?thesis
    proof (cases "v' = []")
      case True
      then show ?thesis using Cons h assms(4) hd_titles
        by (cases s) (auto simp: criteria_title_def notes_title_def)
    next
      case False
      have split: "body_part t = (u @ [c]) @ v'"
        using assms(2) Cons by simp
      have "\<forall>x \<in> set h. \<not> is_nl x"
        using h titles(3,4) by blast
      then have "strip_prefix (h @ CHR 0x0A # []) (v' @ s) = None"
        by (rule heading_not_inside[OF split False last_body_part(1) no_end_body[OF assms(1) h]])
      then show ?thesis using Cons by auto
    qed
  qed (use assms(3) in simp)
  then show ?thesis by (simp add: section_start_def)
qed

lemma trim_body_part: "wf_task t \<Longrightarrow> trim (body_part t) = t_body t"
  using trim_surround[of "t_body t" nl nl]
  by (auto simp: body_part_def wf_task_def js_space_def) (simp add: trim_def trim_end_def js_space_def)

lemma parse_body_serialize:
  assumes "wf_task t"
  shows "parse_body (body_part t @ criteria_part t @ notes_part t) = t_body t"
proof (cases "criteria_part t @ notes_part t = []")
  case True
  have "section_start [] = None"
    by (simp add: section_start_def)
  then have "find_at section_start (body_part t) = None"
    using section_not_inside[OF assms, of _ _ "[]"] by (intro find_at_None) (metis append_Nil2)
  then show ?thesis using True trim_body_part[OF assms] by (simp add: parse_body_def)
next
  case False
  let ?s = "criteria_part t @ notes_part t"
  have hd: "hd ?s = CHR 0x0A" "section_start ?s = Some ()"
    using False by (auto simp: criteria_part_def notes_part_def section_start_def)
  have "find_at section_start (body_part t @ ?s) = Some (body_part t, ())"
    by (rule find_at_append) (use section_not_inside[OF assms] hd in auto)
  moreover have "trimmed (t_body t)" using assms by (simp add: wf_task_def)
  ultimately show ?thesis using trim_body_part[OF assms] by (simp add: parse_body_def)
qed

text \<open>The criteria: each line of the section carries one.\<close>

lemma criteria_line_starts:
  "list_all wf_criterion cs \<Longrightarrow> concat (map criterion_line cs) = u @ CHR 0x0A # v \<Longrightarrow>
   v = [] \<or> hd v = CHR ''-''"
proof (induction cs arbitrary: u)
  case (Cons c cs)
  let ?l = "''- [ ] '' @ c"
  have no: "CHR 0x0A \<notin> set ?l"
    using Cons.prems(1) one_line_not_term[of c "CHR 0x0A"] by (auto simp: wf_criterion_def)
  have "concat (map criterion_line (c # cs)) = ?l @ CHR 0x0A # concat (map criterion_line cs)"
    by (simp add: criterion_line_def[of c])
  then have eq: "?l @ CHR 0x0A # concat (map criterion_line cs) = u @ CHR 0x0A # v"
    using Cons.prems(2) by simp
  show ?case
  proof (cases "CHR 0x0A \<in> set u")
    case True
    then obtain u1 u2 where u: "u = u1 @ CHR 0x0A # u2" "CHR 0x0A \<notin> set u1"
      by (meson split_list_first)
    then have "?l @ CHR 0x0A # concat (map criterion_line cs) = u1 @ CHR 0x0A # (u2 @ CHR 0x0A # v)"
      using eq by simp
    then have "concat (map criterion_line cs) = u2 @ CHR 0x0A # v"
      using append_Cons_first[OF no u(2)] by blast
    then show ?thesis using Cons.IH[of u2] Cons.prems(1) by simp
  next
    case False
    then have "v = concat (map criterion_line cs)"
      using append_Cons_first[OF no False eq] by simp
    then show ?thesis by (cases cs) (auto simp: criterion_line_def)
  qed
qed simp

lemma match_criterion_line: "wf_criterion c \<Longrightarrow> find_at match_criterion (''- [ ] '' @ c) = Some ([], c)"
  by (simp add: match_criterion_def non_empty_def wf_criterion_def)

lemma criteria_of_serialized:
  "list_all wf_criterion cs \<Longrightarrow>
   criteria_of_lines (split_on line_term (concat (map criterion_line cs))) = cs"
proof (induction cs)
  case Nil
  show ?case by (simp add: match_criterion_def)
next
  case (Cons c cs)
  have "split_on line_term (criterion_line c @ r) = (''- [ ] '' @ c) # split_on line_term r" for r
  proof -
    have "\<forall>x \<in> set (''- [ ] '' @ c). \<not> line_term x"
      using Cons.prems one_line_not_term by (auto simp: wf_criterion_def line_term_def)
    then show ?thesis
      using split_on_first[of "''- [ ] '' @ c" line_term "CHR 0x0A" r] by (simp add: criterion_line_def)
  qed
  then show ?case
    using Cons match_criterion_line[of c] by (simp add: wf_criterion_def)
qed

text \<open>The criteria section ends at the notes heading or at the end of the file.\<close>

lemma criteria_section:
  assumes "list_all wf_criterion cs" "s = [] \<or> (\<exists>r. s = CHR 0x0A # notes_title @ r)"
  shows "find_at criteria_end (concat (map criterion_line cs) @ s) = Some (concat (map criterion_line cs), ())"
proof (rule find_at_append)
  show "criteria_end s = Some ()"
    using assms(2) by (auto simp: criteria_end_def notes_title_def)
  fix u v assume uv: "concat (map criterion_line cs) = u @ v" "v \<noteq> []"
  show "criteria_end (v @ s) = None"
  proof (cases "hd v = CHR 0x0A")
    case True
    then obtain v' where v: "v = CHR 0x0A # v'"
      using uv(2) by (cases v) auto
    have "v' = [] \<or> hd v' = CHR ''-''"
      using criteria_line_starts[OF assms(1), of u v'] uv(1) v by simp
    then show ?thesis
      using v assms(2) by (cases v') (auto simp: criteria_end_def)
  next
    case False
    then show ?thesis
      using uv(2) by (cases v) (auto simp: criteria_end_def)
  qed
qed

lemma wf_timestamp_obtain:
  assumes "wf_timestamp ts"
  obtains d run where "ts = d @ run" "\<And>x. date_head (ts @ x) = Some (d, run @ x)"
    "run \<noteq> []" "\<forall>c \<in> set run. ts_char c" "\<And>x. four_digits (ts @ x)"
proof -
  obtain d run where dr: "date_head ts = Some (d, run)" "run \<noteq> []" "list_all ts_char run"
    using assms by (auto simp: wf_timestamp_def split: option.splits)
  then have "date_head (ts @ x) = Some (d, run @ x)" for x
    by (cases ts rule: date_head.cases) (auto split: if_splits)
  moreover have "four_digits (ts @ x)" for x
    using dr(1) by (cases ts rule: date_head.cases) (auto split: if_splits)
  ultimately show ?thesis
    using that dr date_head_Some[OF dr(1)] by (auto simp: list_all_iff)
qed

lemma no_end_note:
  assumes "wf_note n"
  shows "no_end criteria_title (note_text n @ r) \<longleftrightarrow> no_end criteria_title r"
proof -
  obtain d run where ts: "n_timestamp n = d @ run" "run \<noteq> []" "\<forall>c \<in> set run. ts_char c"
    and dh: "\<And>x. date_head (n_timestamp n @ x) = Some (d, run @ x)"
    using assms wf_timestamp_obtain by (metis wf_note_def)
  have "\<not> (is_digit (CHR 0x0A) \<or> CHR 0x0A = CHR ''-'' \<or> CHR 0x0A = CHR ''T'')"
    "\<not> ts_char (CHR 0x0A)"
    by (simp_all add: is_digit_def ts_char_def)
  moreover have "date_head (n_timestamp n) = Some (d, run)"
    using dh[of "[]"] by (simp only: append_Nil2)
  then have "\<forall>c \<in> set d. is_digit c \<or> c = CHR ''-'' \<or> c = CHR ''T''"
    by (rule date_head_chars)
  ultimately have "\<forall>c \<in> set d. \<not> is_nl c" "\<forall>c \<in> set run. \<not> is_nl c"
    unfolding is_nl_def using ts(3) by blast+
  then have line: "\<forall>c \<in> set (''**'' @ n_timestamp n @ ''**''). \<not> is_nl c"
    unfolding ts(1) by (simp add: ball_Un is_nl_def)
  have "\<not> suffix criteria_title ((''**'' @ n_timestamp n @ ''*'') @ ''*'')"
    unfolding criteria_title_def suffix_def by (auto simp del: append_assoc dest!: arg_cong[where f = last])
  then have "no_end criteria_title (''**'' @ n_timestamp n @ ''**'')"
    using no_end_line[OF line] by simp
  moreover have "note_text n @ r = CHR 0x0A # (''**'' @ n_timestamp n @ ''**'') @ CHR 0x0A # CHR 0x0A # n_content n @ CHR 0x0A # r"
    by (simp add: note_text_def)
  moreover have "no_end criteria_title (n_content n)"
    using assms by (simp add: wf_note_def)
  ultimately show ?thesis
    using hd_titles no_end_nl[of criteria_title "''**'' @ n_timestamp n @ ''**''"]
      no_end_nl[of criteria_title "n_content n" r] no_end_Nil[of criteria_title]
    by (metis no_end_Cons_nl)
qed

lemma no_end_notes_part:
  assumes "wf_task t"
  shows "no_end criteria_title (notes_part t)"
proof -
  have "list_all wf_note ns \<Longrightarrow> no_end criteria_title (concat (map note_text ns))" for ns
    by (induction ns) (auto simp: no_end_note hd_titles)
  moreover have "no_end criteria_title notes_title"
    by (simp add: no_end_line) (simp add: notes_title_def criteria_title_def suffix_def)
  ultimately show ?thesis
    using assms hd_titles by (simp add: notes_part_def wf_task_def no_end_nl)
qed

lemma parse_criteria_serialize:
  assumes "wf_task t"
  shows "parse_criteria (body_part t @ criteria_part t @ notes_part t) = t_acceptanceCriteria t"
proof (cases "t_acceptanceCriteria t = []")
  case True
  have "no_end criteria_title (body_part t @ notes_part t)"
    using no_end_body[OF assms, of criteria_title] no_end_notes_part[OF assms]
      hd_titles no_end_nl[of criteria_title _ "notes_part t"]
    by (cases "t_body t = []") (auto simp: body_part_def no_end_nl)
  then have "find_at (strip_prefix (criteria_title @ CHR 0x0A # nl)) (body_part t @ notes_part t) = None"
    by (rule find_heading_None) simp
  then show ?thesis using True by (simp add: parse_criteria_def criteria_part_def)
next
  case False
  let ?lines = "concat (map criterion_line (t_acceptanceCriteria t))"
  let ?s = "criteria_title @ CHR 0x0A # CHR 0x0A # ?lines @ notes_part t"
  have wf: "list_all wf_criterion (t_acceptanceCriteria t)"
    using assms by (simp add: wf_task_def)
  have "find_at (strip_prefix (criteria_title @ CHR 0x0A # nl)) ((body_part t @ nl) @ ?s)
    = Some (body_part t @ nl, ?lines @ notes_part t)"
  proof (rule find_at_append)
    fix u v assume uv: "body_part t @ nl = u @ v" "v \<noteq> []"
    have "no_end criteria_title (body_part t @ nl)"
      using no_end_body[OF assms, of criteria_title] hd_titles by (simp add: no_end_nl)
    then show "strip_prefix (criteria_title @ CHR 0x0A # nl) (v @ ?s) = None"
      by (intro heading_not_inside[OF uv]) simp_all
  qed simp
  moreover have "find_at criteria_end (?lines @ notes_part t) = Some (?lines, ())"
    by (rule criteria_section[OF wf]) (auto simp: notes_part_def)
  ultimately show ?thesis
    using False criteria_of_serialized[OF wf] by (simp add: parse_criteria_def criteria_part_def)
qed

text \<open>The notes are read back one by one.\<close>

lemma four_digits_take: "four_digits s \<longleftrightarrow> 4 \<le> length s \<and> list_all is_digit (take 4 s)"
  by (cases s rule: four_digits.cases) (auto simp: numeral_eq_Suc)

lemma four_digits_inside:
  assumes "four_digits (w @ s)" "w \<noteq> []" "last w = CHR 0x0A"
  shows "four_digits w"
proof (cases "4 \<le> length w")
  case False
  then have "take 4 (w @ s) = w @ take (4 - length w) s" by simp
  then have "list_all is_digit w"
    using assms(1) by (simp add: four_digits_take)
  then have "is_digit (CHR 0x0A)"
    using assms(2,3) last_in_set[of w] by (auto simp: list_all_iff)
  then show ?thesis by (simp add: is_digit_def)
qed (use assms(1) in \<open>simp add: four_digits_take\<close>)

text \<open>A note start that begins inside a text that ends a line lies inside it.\<close>

lemma note_start_inside:
  assumes "strip_prefix ''\<newline>**'' (v @ s) = Some r" "four_digits r" "v \<noteq> []" "last v = CHR 0x0A"
    "v \<noteq> nl"
  shows "note_start v = Some ()"
proof -
  obtain w where v: "v = CHR 0x0A # w" "w \<noteq> []" "last w = CHR 0x0A"
    using assms by (cases v) (auto split: if_splits)
  then obtain w2 where w: "w = CHR ''*'' # w2" "w2 \<noteq> []" "last w2 = CHR 0x0A"
    using assms(1) by (cases w) (auto split: if_splits)
  then obtain w3 where w2: "w2 = CHR ''*'' # w3" "w3 \<noteq> []" "last w3 = CHR 0x0A"
    using assms(1) v(1) by (cases w2) (auto split: if_splits)
  have "r = w3 @ s"
    using assms(1) v(1) w(1) w2(1) by simp
  then show ?thesis
    using four_digits_inside[of w3 s] assms(2) w2 v(1) w(1) by (simp add: note_start_def)
qed

lemma note_body_content:
  assumes "find_at note_start (c @ nl) = None" "s = [] \<or> (\<exists>r. s = ''\<newline>**'' @ r \<and> four_digits r)"
  shows "note_body ((c @ nl) @ s) = c @ nl"
proof -
  have "find_at note_end ((c @ nl) @ s) = Some (c @ nl, ())"
  proof (rule find_at_append)
    show "note_end s = Some ()"
      using assms(2) by (auto simp: note_end_def)
    fix u v assume uv: "c @ nl = u @ v" "v \<noteq> []"
    have none: "note_start v = None"
      using find_at_None_suffix[OF assms(1) uv(1)] .
    have last: "last v = CHR 0x0A"
      using uv by (metis last_appendR last_snoc nl_simps(2))
    show "note_end (v @ s) = None"
    proof (cases "v = nl")
      case True
      then show ?thesis using assms(2) by (auto simp: note_end_def)
    next
      case False
      then show ?thesis
        using note_start_inside[OF _ _ uv(2) last, of s] none uv(2)
        by (auto simp: note_end_def split: option.splits)
    qed
  qed
  then show ?thesis by (simp add: note_body_def)
qed

lemma match_note_head_serialized:
  assumes "wf_timestamp ts"
  shows "match_note_head (''**'' @ ts @ ''**\<newline>\<newline>'' @ r) = Some (ts, r)"
proof -
  let ?tail = "''**\<newline>\<newline>'' @ r"
  obtain d run where ts: "ts = d @ run" "date_head (ts @ ?tail) = Some (d, run @ ?tail)"
    "run \<noteq> []" "\<forall>c \<in> set run. ts_char c"
    using assms by (metis wf_timestamp_obtain)
  have stop: "\<not> ts_char (CHR ''*'')"
    by (simp add: ts_char_def is_digit_def)
  have "takeWhile ts_char (run @ ?tail) = run" "dropWhile ts_char (run @ ?tail) = ?tail"
    using ts(4) stop by simp_all
  then show ?thesis
    using ts(1,2,3) by (simp add: match_note_head_def)
qed

lemma scan_notes_serialized:
  "list_all wf_note ns \<Longrightarrow> scan_notes (concat (map note_text ns)) = ns"
proof (induction ns)
  case Nil
  show ?case by (simp add: scan_notes.simps[of "[]"] match_note_head_def)
next
  case (Cons n ns)
  let ?rest = "concat (map note_text ns)"
  let ?c = "n_content n"
  let ?head = "''**'' @ n_timestamp n @ ''**\<newline>\<newline>''"
  have wf: "wf_timestamp (n_timestamp n)" "trimmed ?c" "find_at note_start (?c @ nl) = None"
    using Cons.prems by (simp_all add: wf_note_def)
  have rest: "?rest = [] \<or> (\<exists>r. ?rest = ''\<newline>**'' @ r \<and> four_digits r)"
  proof (cases ns)
    case (Cons m ms)
    then have "wf_timestamp (n_timestamp m)"
      using Cons.prems by (simp add: wf_note_def)
    then have "four_digits (n_timestamp m @ x)" for x
      by (meson wf_timestamp_obtain)
    then show ?thesis using Cons by (simp add: note_text_def[of m])
  qed simp
  have body: "note_body ((?c @ nl) @ ?rest) = ?c @ nl"
    using note_body_content[OF wf(3) rest] .
  have "trim (?c @ nl) = ?c"
    using trim_surround[OF wf(2), of "[]" nl] by (simp add: js_space_def)
  moreover have "scan_notes (?head @ (?c @ nl) @ ?rest) =
      \<lparr>n_timestamp = n_timestamp n, n_content = trim (?c @ nl)\<rparr> # scan_notes ?rest"
    using match_note_head_serialized[OF wf(1), of "(?c @ nl) @ ?rest"] body
    by (subst scan_notes.simps) simp
  ultimately have "scan_notes (?head @ (?c @ nl) @ ?rest) = n # ns"
    using Cons by simp
  moreover have "scan_notes (concat (map note_text (n # ns))) = scan_notes (?head @ (?c @ nl) @ ?rest)"
    by (subst scan_notes.simps) (simp add: note_text_def[of n] match_note_head_def)
  ultimately show ?case by simp
qed

lemma parse_notes_serialize:
  assumes "wf_task t"
  shows "parse_notes (body_part t @ criteria_part t @ notes_part t) = t_notes t"
proof (cases "t_notes t = []")
  case True
  have "no_end notes_title (criteria_part t)"
    using no_end_criteria_part[OF assms, of "[]"] hd_titles by simp
  then have "no_end notes_title (body_part t @ criteria_part t)"
    using no_end_body[OF assms, of notes_title] hd_titles
    by (cases "t_body t = []") (auto simp: body_part_def no_end_nl)
  then have "find_at (strip_prefix (notes_title @ CHR 0x0A # [])) (body_part t @ criteria_part t) = None"
    by (rule find_heading_None) simp
  then show ?thesis using True by (simp add: parse_notes_def notes_part_def)
next
  case False
  let ?a = "body_part t @ criteria_part t @ nl"
  let ?notes = "concat (map note_text (t_notes t))"
  let ?s = "notes_title @ CHR 0x0A # ?notes"
  have "no_end notes_title (criteria_part t @ nl)"
    using no_end_criteria_part[OF assms, of nl] hd_titles by simp
  then have clean: "no_end notes_title ?a"
    using no_end_body[OF assms, of notes_title] hd_titles
    by (cases "t_body t = []") (auto simp: body_part_def no_end_nl)
  have "find_at (strip_prefix (notes_title @ CHR 0x0A # [])) (?a @ ?s) = Some (?a, ?notes)"
  proof (rule find_at_append)
    fix u v assume uv: "?a = u @ v" "v \<noteq> []"
    show "strip_prefix (notes_title @ CHR 0x0A # []) (v @ ?s) = None"
      by (rule heading_not_inside[OF uv _ clean]) simp_all
  qed simp
  moreover have "list_all wf_note (t_notes t)"
    using assms by (simp add: wf_task_def)
  ultimately show ?thesis
    using False scan_notes_serialized by (simp add: parse_notes_def notes_part_def)
qed

section \<open>The round trip\<close>

lemma parse_serialize:
  assumes "wf_task t"
  shows "parseTask now (serializeTask t) = Inr (t\<lparr>t_raw := serializeTask t\<rparr>)"
proof -
  have "serializeTask t = join nl ([''---''] @ frontmatter_fields t @ [''---'']) @ nl @ (nl @ serialize_content t)"
    by (simp only: serializeTask_def append_assoc)
  then have fm: "split_frontmatter (serializeTask t) =
      Some (join nl (frontmatter_fields t), body_part t @ criteria_part t @ notes_part t)"
    using split_frontmatter_fields[OF assms] serialize_parts[of t] by metis
  have deps: "parse_deps (''['' @ join '', '' (t_deps t) @ '']'') = t_deps t"
    using assms by (intro parse_deps_join) (simp add: wf_task_def)
  have created: "t_created t \<noteq> []" and status: "wf_status (t_status t)"
    using assms by (simp_all add: wf_task_def)
  have priority: "(let p = getValue (join nl (frontmatter_fields t)) ''priority''
      in if p = [] then None else Some (parse_int10 p)) = t_priority t"
    unfolding header_values(8)[OF assms] by (simp split: option.split)
  show ?thesis
    using priority created
    unfolding parseTask_def fm option.case prod.case Let_def
      header_values(1-7)[OF assms] deps status_roundtrip[OF status]
      parse_body_serialize[OF assms] parse_criteria_serialize[OF assms] parse_notes_serialize[OF assms]
    by simp
qed

section \<open>Properties\<close>

text \<open>
  C1. A task whose fields the format can hold survives being written and read: the parser gives
  back every field, only \<open>raw\<close> becomes the text itself, and writing the task that was read
  reproduces the same text.
\<close>

theorem task_document_roundtrip:
  assumes "wf_task t"
  shows "\<exists>u. parseTask now (serializeTask t) = Inr u
    \<and> u = t\<lparr>t_raw := serializeTask t\<rparr> \<and> serializeTask u = serializeTask t"
proof -
  have "serializeTask (t\<lparr>t_raw := r\<rparr>) = serializeTask t" for r
    by (simp add: serializeTask_def frontmatter_fields_def serialize_content_def)
  then show ?thesis using parse_serialize[OF assms] by simp
qed

text \<open>A task with every kind of field.\<close>

definition full_task :: task where
  "full_task =
     \<lparr>t_id = ''a1'', t_title = ''Title'', t_status = In_progress, t_deps = [''b2'', ''c3''],
      t_parentId = Some ''p0'', t_body = ''Text'', t_acceptanceCriteria = [''works''],
      t_notes = [\<lparr>n_timestamp = ''2026-01-01T00:00:00.000Z'', n_content = ''first''\<rparr>],
      t_created = ''2026-01-01'', t_assignee = Some ''codex'', t_priority = Some (Num 2), t_raw = []\<rparr>"

lemma wf_full_task: "wf_task full_task"
  by code_simp

lemma task_document_roundtrip_witness:
  "\<exists>u. parseTask ''now'' (serializeTask full_task) = Inr u \<and> t_notes u = t_notes full_task \<and> t_status u = In_progress"
  using task_document_roundtrip[OF wf_full_task, of "''now''"] by (auto simp: full_task_def)


end
