(* ===== verification/Task_Graph.thy ===== *)
theory Task_Graph
  imports Task_Document
begin

text \<open>
  The task graph of \<open>tasks/task-graph.ts\<close>: the indexes built from a list of tasks, which tasks
  are ready, blocked or executable, and the comparator that orders them.

  \<open>String.prototype.localeCompare\<close> depends on the collation of the runtime, so the comparators
  take it as the argument \<open>lc\<close>; what they need of it is \<open>collation lc\<close>: a total preorder.
\<close>

section \<open>Comparators\<close>

definition collation :: "(string \<Rightarrow> string \<Rightarrow> int) \<Rightarrow> bool" where
  "collation lc \<longleftrightarrow>
     (\<forall>a b. lc a b \<le> 0 \<or> lc b a \<le> 0) \<and>
     (\<forall>a b c. lc a b \<le> 0 \<longrightarrow> lc b c \<le> 0 \<longrightarrow> lc a c \<le> 0)"

definition sortByPriorityThenCreated :: "(string \<Rightarrow> string \<Rightarrow> int) \<Rightarrow> task \<Rightarrow> task \<Rightarrow> int" where
  "sortByPriorityThenCreated lc a b =
     (case (t_priority a, t_priority b) of
        (Some _, None) \<Rightarrow> -1
      | (None, Some _) \<Rightarrow> 1
      | (Some p, Some q) \<Rightarrow>
          if num_neq p q then num_cmp p q else lc (t_created a) (t_created b)
      | (None, None) \<Rightarrow> lc (t_created a) (t_created b))"

definition sort_tasks :: "(string \<Rightarrow> string \<Rightarrow> int) \<Rightarrow> task list \<Rightarrow> task list" where
  "sort_tasks lc = sort_by (\<lambda>a b. sortByPriorityThenCreated lc a b \<le> 0)"

definition sort_created :: "(string \<Rightarrow> string \<Rightarrow> int) \<Rightarrow> task list \<Rightarrow> task list" where
  "sort_created lc = sort_by (\<lambda>a b. lc (t_created a) (t_created b) \<le> 0)"

section \<open>The graph\<close>

record task_graph =
  g_allTasks :: "task list"
  g_candidates :: "task list"
  g_taskMap :: "(string \<times> task) list"
  g_childrenMap :: "(string \<times> task list) list"
  g_candidateIds :: "string list"
  g_doneTaskIds :: "string list"

definition buildTaskMap :: "task list \<Rightarrow> (string \<times> task) list" where
  "buildTaskMap tasks = foldl (\<lambda>m t. AList.update (t_id t) t m) [] tasks"

definition siblings :: "(string \<times> task list) list \<Rightarrow> string \<Rightarrow> task list" where
  "siblings m p = (case map_of m p of None \<Rightarrow> [] | Some ts \<Rightarrow> ts)"

definition add_child :: "(string \<times> task list) list \<Rightarrow> task \<Rightarrow> (string \<times> task list) list" where
  "add_child m t =
     (if truthy (t_parentId t)
      then AList.update (the (t_parentId t)) (siblings m (the (t_parentId t)) @ [t]) m
      else m)"

definition buildChildrenMap :: "task list \<Rightarrow> (string \<times> task list) list" where
  "buildChildrenMap tasks = foldl add_child [] tasks"

definition areTaskDepsDone :: "task_graph \<Rightarrow> task \<Rightarrow> string list \<Rightarrow> bool" where
  "areTaskDepsDone g t completed =
     list_all (\<lambda>d. map_of (g_taskMap g) d \<noteq> None \<and> d \<in> set completed) (t_deps t)"

definition areTaskChildrenDone :: "task_graph \<Rightarrow> string \<Rightarrow> string list \<Rightarrow> bool \<Rightarrow> bool" where
  "areTaskChildrenDone g tid completed scoped =
     list_all (\<lambda>c. scoped \<and> t_id c \<notin> set (g_candidateIds g) \<or> t_id c \<in> set completed)
       (siblings (g_childrenMap g) tid)"

definition isReadyTask :: "task_graph \<Rightarrow> task \<Rightarrow> bool" where
  "isReadyTask g t \<longleftrightarrow>
     t_status t = Open \<and> areTaskDepsDone g t (g_doneTaskIds g)
     \<and> areTaskChildrenDone g (t_id t) (g_doneTaskIds g) False"

definition isBlockedTask :: "task_graph \<Rightarrow> task \<Rightarrow> bool" where
  "isBlockedTask g t \<longleftrightarrow>
     t_status t \<noteq> Draft \<and> t_status t \<noteq> Done \<and> t_deps t \<noteq> []
     \<and> \<not> areTaskDepsDone g t (g_doneTaskIds g)"

definition isTaskExecutableInOrder :: "task_graph \<Rightarrow> string \<Rightarrow> string list \<Rightarrow> bool" where
  "isTaskExecutableInOrder g tid completed =
     (case map_of (g_taskMap g) tid of
        None \<Rightarrow> False
      | Some t \<Rightarrow> areTaskDepsDone g t completed \<and> areTaskChildrenDone g (t_id t) completed True)"

definition getTasksById :: "task_graph \<Rightarrow> string list \<Rightarrow> task list" where
  "getTasksById g ids = List.map_filter (map_of (g_taskMap g)) ids"

section \<open>Loading a scoped graph\<close>

text \<open>
  The store is the three calls the code makes of it: \<open>list\<close>, \<open>get\<close> and \<open>getDescendants\<close>; the
  last one may never return.
\<close>

definition loadScopedCandidates ::
    "(string \<Rightarrow> 'e + task option) \<Rightarrow> (string \<Rightarrow> ('e + task list) option) \<Rightarrow> task list \<Rightarrow>
     string option \<Rightarrow> ('e + task list) option" where
  "loadScopedCandidates getf descf allTasks scopeId =
     (if \<not> truthy scopeId then Some (Inr allTasks)
      else obind (Some (getf (the scopeId))) (\<lambda>scopeTask.
           obind (descf (the scopeId)) (\<lambda>descendants.
           Some (Inr (case scopeTask of None \<Rightarrow> descendants | Some t \<Rightarrow> t # descendants)))))"

definition make_graph :: "task list \<Rightarrow> task list \<Rightarrow> task_graph" where
  "make_graph allTasks candidates =
     \<lparr>g_allTasks = allTasks, g_candidates = candidates, g_taskMap = buildTaskMap allTasks,
      g_childrenMap = buildChildrenMap allTasks,
      g_candidateIds = set_of (map t_id candidates),
      g_doneTaskIds = set_of (map t_id (filter (\<lambda>t. t_status t = Done) allTasks))\<rparr>"

definition loadScopedTaskGraph ::
    "('e + task list) \<Rightarrow> (string \<Rightarrow> 'e + task option) \<Rightarrow> (string \<Rightarrow> ('e + task list) option) \<Rightarrow>
     string option \<Rightarrow> ('e + task_graph) option" where
  "loadScopedTaskGraph lst getf descf scopeId =
     obind (Some lst) (\<lambda>allTasks.
     obind (loadScopedCandidates getf descf allTasks scopeId) (\<lambda>candidates.
     Some (Inr (make_graph allTasks candidates))))"

section \<open>Facts about the comparators\<close>

lemma collation_code_unit: "collation code_unit_compare"
  unfolding collation_def using code_unit_compare_total code_unit_compare_trans by blast

text \<open>The priority order of two tasks whose priorities are numbers or absent.\<close>

definition num_priority :: "task \<Rightarrow> bool" where
  "num_priority t \<longleftrightarrow> t_priority t \<noteq> Some NaN"

text \<open>
  A \<open>NaN\<close> priority compares equal to every other one, which is not transitive; on a total
  order of the comparator is proved for numeric priorities.
\<close>

definition task_le :: "(string \<Rightarrow> string \<Rightarrow> int) \<Rightarrow> task \<Rightarrow> task \<Rightarrow> bool" where
  "task_le lc a b \<longleftrightarrow> sortByPriorityThenCreated lc a b \<le> 0"

lemma num_priority_iff: "num_priority t \<longleftrightarrow> (\<exists>p. t_priority t = Some (Num p)) \<or> t_priority t = None"
  unfolding num_priority_def by (metis js_num.distinct(1) js_num.exhaust not_Some_eq option.inject)

lemma task_le_total:
  assumes "collation lc" "num_priority a" "num_priority b"
  shows "task_le lc a b \<or> task_le lc b a"
proof -
  have "lc (t_created a) (t_created b) \<le> 0 \<or> lc (t_created b) (t_created a) \<le> 0"
    using assms(1) unfolding collation_def by blast
  then show ?thesis
    using assms(2,3) unfolding num_priority_iff by (auto simp: task_le_def sortByPriorityThenCreated_def)
qed

lemma task_le_trans:
  assumes "collation lc" "num_priority a" "num_priority b" "num_priority c"
    "task_le lc a b" "task_le lc b c"
  shows "task_le lc a c"
proof -
  have lc: "lc (t_created a) (t_created b) \<le> 0 \<Longrightarrow> lc (t_created b) (t_created c) \<le> 0 \<Longrightarrow>
      lc (t_created a) (t_created c) \<le> 0"
    using assms(1) unfolding collation_def by blast
  show ?thesis
    using assms(2-6) lc unfolding num_priority_iff task_le_def sortByPriorityThenCreated_def
    by (auto split: if_splits)
qed

lemma prio_order: "collation lc \<Longrightarrow> total_preorder (task_le lc) num_priority"
  by (rule total_preorder.intro) (fact task_le_total, fact task_le_trans)

interpretation prio: total_preorder "task_le code_unit_compare" num_priority
  by (rule prio_order) (rule collation_code_unit)

lemma created_order:
  "collation lc \<Longrightarrow> total_preorder (\<lambda>a b. lc (t_created a) (t_created b) \<le> 0) (\<lambda>_. True)"
  by unfold_locales (auto simp: collation_def)

lemma sort_tasks_alt: "sort_tasks lc = sort_by (task_le lc)"
  by (simp add: sort_tasks_def task_le_def[abs_def])

section \<open>Facts about the indexes\<close>

lemma map_of_buildTaskMap_acc:
  "map_of (foldl (\<lambda>m t. AList.update (t_id t) t m) m ts) =
   map_of m ++ map_of (rev (map (\<lambda>t. (t_id t, t)) ts))"
  by (induction ts arbitrary: m) (simp_all add: js_simps map_add_upd_left map_add_def fun_eq_iff split: option.splits)

lemma map_of_buildTaskMap: "map_of (buildTaskMap ts) = map_of (rev (map (\<lambda>t. (t_id t, t)) ts))"
  by (simp add: buildTaskMap_def map_of_buildTaskMap_acc)

lemma taskMap_Some: "map_of (buildTaskMap ts) i = Some t \<Longrightarrow> t \<in> set ts \<and> t_id t = i"
  unfolding map_of_buildTaskMap by (auto dest: map_of_SomeD)

lemma taskMap_None: "map_of (buildTaskMap ts) i = None \<longleftrightarrow> i \<notin> t_id ` set ts"
  unfolding map_of_buildTaskMap by (auto simp: map_of_eq_None_iff image_image)

lemma taskMap_unique:
  assumes "distinct (map t_id ts)" "t \<in> set ts"
  shows "map_of (buildTaskMap ts) (t_id t) = Some t"
proof -
  obtain u where u: "map_of (buildTaskMap ts) (t_id t) = Some u"
    using assms(2) taskMap_None[of ts "t_id t"] by (cases "map_of (buildTaskMap ts) (t_id t)") auto
  then have "u = t"
    using taskMap_Some[OF u] assms by (metis distinct_map inj_onD)
  with u show ?thesis by simp
qed

lemma siblings_add_child:
  "siblings (add_child m t) p =
   siblings m p @ (if truthy (t_parentId t) \<and> t_parentId t = Some p then [t] else [])"
  by (auto simp: add_child_def siblings_def js_simps truthy_def split: option.splits)

lemma siblings_build:
  "siblings (foldl add_child m ts) p =
   siblings m p @ filter (\<lambda>t. truthy (t_parentId t) \<and> t_parentId t = Some p) ts"
  by (induction ts arbitrary: m) (auto simp: siblings_add_child)

lemma siblings_children:
  "siblings (buildChildrenMap ts) p =
   (if p = [] then [] else filter (\<lambda>t. t_parentId t = Some p) ts)"
proof -
  have "siblings (buildChildrenMap ts) p =
      filter (\<lambda>t. truthy (t_parentId t) \<and> t_parentId t = Some p) ts"
    unfolding buildChildrenMap_def siblings_build by (simp add: siblings_def)
  then show ?thesis by (auto simp: truthy_def filter_empty_conv intro!: filter_cong)
qed

end
