(* ===== verification/Execution_Order.thy ===== *)
theory Execution_Order
  imports Task_Graph
begin

text \<open>
  \<open>tasks/execution-order.ts\<close>: the simulated run of the task graph. The loop over the pending
  tasks is a \<open>partial_function\<close> on the code's variables; on a graph that
  \<open>loadScopedTaskGraph\<close> builds it always returns, and what it returns is the least set closed
  under "all dependencies and scoped children are done".
\<close>

section \<open>The program\<close>

record order_state =
  o_timeline :: "task list"
  o_orderMap :: "(string \<times> nat) list"
  o_orderIdx :: nat
  o_simDone :: "string list"
  o_remaining :: "string list"

record execution_order =
  r_timeline :: "task list"
  r_orderMap :: "(string \<times> nat) list"
  r_blocked :: "string list"

definition push_order :: "task \<Rightarrow> order_state \<Rightarrow> order_state" where
  "push_order t s =
     s\<lparr>o_timeline := o_timeline s @ [t],
       o_orderMap := AList.update (t_id t) (o_orderIdx s) (o_orderMap s),
       o_orderIdx := o_orderIdx s + 1\<rparr>"

definition pending_ids :: "task_graph \<Rightarrow> string list" where
  "pending_ids g =
     set_of (map t_id (filter (\<lambda>t. t_status t = Open \<or> t_status t = In_progress) (g_candidates g)))"

definition done_candidates :: "(string \<Rightarrow> string \<Rightarrow> int) \<Rightarrow> task_graph \<Rightarrow> task list" where
  "done_candidates lc g = sort_created lc (filter (\<lambda>t. t_status t = Done) (g_candidates g))"

definition order_init :: "(string \<Rightarrow> string \<Rightarrow> int) \<Rightarrow> task_graph \<Rightarrow> order_state" where
  "order_init lc g =
     fold push_order (done_candidates lc g)
       \<lparr>o_timeline = [], o_orderMap = [], o_orderIdx = 0, o_simDone = g_doneTaskIds g,
        o_remaining = pending_ids g\<rparr>"

definition readyNow :: "(string \<Rightarrow> string \<Rightarrow> int) \<Rightarrow> task_graph \<Rightarrow> order_state \<Rightarrow> task list" where
  "readyNow lc g s =
     sort_tasks lc
       (filter (\<lambda>t. isTaskExecutableInOrder g (t_id t) (o_simDone s)) (getTasksById g (o_remaining s)))"

definition take_task :: "task \<Rightarrow> order_state \<Rightarrow> order_state" where
  "take_task t s =
     (push_order t s)\<lparr>o_simDone := set_add (t_id t) (o_simDone s),
                      o_remaining := set_del (t_id t) (o_remaining s)\<rparr>"

partial_function (option) order_loop ::
    "(string \<Rightarrow> string \<Rightarrow> int) \<Rightarrow> task_graph \<Rightarrow> order_state \<Rightarrow> order_state option" where
  "order_loop lc g s =
     (if o_remaining s = [] then Some s
      else case readyNow lc g s of
             [] \<Rightarrow> Some s
           | t # _ \<Rightarrow> order_loop lc g (take_task t s))"

definition order_result :: "order_state \<Rightarrow> execution_order" where
  "order_result s =
     \<lparr>r_timeline = o_timeline s, r_orderMap = o_orderMap s, r_blocked = o_remaining s\<rparr>"

definition execution_order_of ::
    "(string \<Rightarrow> string \<Rightarrow> int) \<Rightarrow> task_graph \<Rightarrow> execution_order option" where
  "execution_order_of lc g = map_option order_result (order_loop lc g (order_init lc g))"

definition computeExecutionOrder ::
    "(string \<Rightarrow> string \<Rightarrow> int) \<Rightarrow> ('e + task list) \<Rightarrow> (string \<Rightarrow> 'e + task option) \<Rightarrow>
     (string \<Rightarrow> ('e + task list) option) \<Rightarrow> string option \<Rightarrow> ('e + execution_order) option" where
  "computeExecutionOrder lc lst getf descf scopeId =
     obind (loadScopedTaskGraph lst getf descf scopeId)
       (\<lambda>g. map_option Inr (execution_order_of lc g))"

text \<open>\<open>orderMap.get(id) ?? Infinity\<close>; \<open>Infinity - Infinity\<close> is \<open>NaN\<close>, which sorts as equal.\<close>

definition order_le :: "(string \<times> nat) list \<Rightarrow> task \<Rightarrow> task \<Rightarrow> bool" where
  "order_le om a b =
     (case (map_of om (t_id a), map_of om (t_id b)) of
        (Some i, Some j) \<Rightarrow> i \<le> j
      | (Some _, None) \<Rightarrow> True
      | (None, Some _) \<Rightarrow> False
      | (None, None) \<Rightarrow> True)"

definition buildSortedChildrenMap ::
    "task list \<Rightarrow> (string \<times> nat) list \<Rightarrow> (string \<times> task list) list" where
  "buildSortedChildrenMap tasks om =
     map (\<lambda>(p, cs). (p, sort_by (order_le om) cs)) (buildChildrenMap tasks)"

section \<open>Specification\<close>

text \<open>
  What "can be completed" means, with no order of work: a done task is complete, and a pending
  candidate completes once all of its dependencies exist and are complete and so are its
  children in the scope.
\<close>

inductive completable :: "task_graph \<Rightarrow> string \<Rightarrow> bool" for g where
  completable_done: "i \<in> set (g_doneTaskIds g) \<Longrightarrow> completable g i"
| completable_pending:
    "i \<in> set (pending_ids g) \<Longrightarrow> map_of (g_taskMap g) i = Some t \<Longrightarrow>
     (\<And>d. d \<in> set (t_deps t) \<Longrightarrow> map_of (g_taskMap g) d \<noteq> None \<and> completable g d) \<Longrightarrow>
     (\<And>c. c \<in> set (siblings (g_childrenMap g) i) \<Longrightarrow>
        t_id c \<in> set (g_candidateIds g) \<Longrightarrow> completable g (t_id c)) \<Longrightarrow>
     completable g i"

text \<open>A graph as \<open>loadScopedTaskGraph\<close> builds it from a store whose task ids are unique.\<close>

definition wf_graph :: "task_graph \<Rightarrow> bool" where
  "wf_graph g \<longleftrightarrow>
     g = make_graph (g_allTasks g) (g_candidates g)
     \<and> distinct (map t_id (g_allTasks g)) \<and> distinct (map t_id (g_candidates g))
     \<and> set (g_candidates g) \<subseteq> set (g_allTasks g)"

section \<open>The loop returns\<close>

lemma wf_graph_indexes:
  assumes "wf_graph g"
  shows "g_taskMap g = buildTaskMap (g_allTasks g)"
    "g_childrenMap g = buildChildrenMap (g_allTasks g)"
    "g_candidateIds g = set_of (map t_id (g_candidates g))"
    "g_doneTaskIds g = set_of (map t_id (filter (\<lambda>t. t_status t = Done) (g_allTasks g)))"
proof -
  have g: "g = make_graph (g_allTasks g) (g_candidates g)"
    using assms unfolding wf_graph_def by blast
  show "g_taskMap g = buildTaskMap (g_allTasks g)"
    "g_childrenMap g = buildChildrenMap (g_allTasks g)"
    "g_candidateIds g = set_of (map t_id (g_candidates g))"
    "g_doneTaskIds g = set_of (map t_id (filter (\<lambda>t. t_status t = Done) (g_allTasks g)))"
    by (subst g, simp add: make_graph_def)+
qed

lemma wf_graph_tasks:
  assumes "wf_graph g"
  shows "distinct (map t_id (g_allTasks g))" "distinct (map t_id (g_candidates g))"
    "t \<in> set (g_candidates g) \<Longrightarrow> t \<in> set (g_allTasks g)"
  using assms unfolding wf_graph_def by blast+

lemma wf_graph_taskMap:
  assumes "wf_graph g" "map_of (g_taskMap g) i = Some t"
  shows "t_id t = i \<and> t \<in> set (g_allTasks g)"
  using taskMap_Some assms(2) unfolding wf_graph_indexes(1)[OF assms(1)] by blast

lemma getTasksById_mem:
  "t \<in> set (getTasksById g ids) \<longleftrightarrow> (\<exists>i \<in> set ids. map_of (g_taskMap g) i = Some t)"
  by (force simp: getTasksById_def List.map_filter_def image_iff)

lemma readyNow_mem:
  assumes "wf_graph g"
  shows "t \<in> set (readyNow lc g s) \<longleftrightarrow>
    t_id t \<in> set (o_remaining s) \<and> map_of (g_taskMap g) (t_id t) = Some t
    \<and> isTaskExecutableInOrder g (t_id t) (o_simDone s)"
  using wf_graph_taskMap[OF assms]
  by (auto simp: readyNow_def sort_tasks_def getTasksById_mem)

lemma order_loop_induct:
  assumes g: "wf_graph g"
    and init: "P s"
    and step: "\<And>t ts s. P s \<Longrightarrow> readyNow lc g s = t # ts \<Longrightarrow> P (take_task t s)"
  shows "\<exists>s'. order_loop lc g s = Some s' \<and> P s' \<and> readyNow lc g s' = []"
  using init
proof (induction "length (o_remaining s)" arbitrary: s rule: less_induct)
  case less
  show ?case
  proof (cases "readyNow lc g s")
    case Nil
    then have "order_loop lc g s = Some s"
      by (simp add: order_loop.simps[of lc g s])
    with Nil less.prems show ?thesis by simp
  next
    case (Cons t ts)
    then have "t_id t \<in> set (o_remaining s)"
      using readyNow_mem[OF g, of t lc s] by simp
    then have "length (o_remaining (take_task t s)) < length (o_remaining s)" "o_remaining s \<noteq> []"
      by (auto simp: take_task_def length_set_del_less)
    moreover from this(2) Cons have "order_loop lc g s = order_loop lc g (take_task t s)"
      by (simp add: order_loop.simps[of lc g s])
    ultimately show ?thesis
      using less.hyps[of "take_task t s"] step[OF less.prems Cons] by simp
  qed
qed

section \<open>What the loop maintains\<close>

lemma areTaskDepsDone_mono:
  "areTaskDepsDone g t xs \<Longrightarrow> set xs \<subseteq> set ys \<Longrightarrow> areTaskDepsDone g t ys"
  unfolding areTaskDepsDone_def list_all_iff by blast

lemma areTaskChildrenDone_mono:
  "areTaskChildrenDone g i xs b \<Longrightarrow> set xs \<subseteq> set ys \<Longrightarrow> areTaskChildrenDone g i ys b"
  unfolding areTaskChildrenDone_def list_all_iff by blast

text \<open>Task \<open>t\<close> may run when the tasks \<open>xs\<close> have been completed.\<close>

definition settled :: "task_graph \<Rightarrow> task list \<Rightarrow> task \<Rightarrow> bool" where
  "settled g xs t \<longleftrightarrow> isTaskExecutableInOrder g (t_id t) (g_doneTaskIds g @ map t_id xs)"

definition order_inv :: "task_graph \<Rightarrow> order_state \<Rightarrow> bool" where
  "order_inv g s \<longleftrightarrow>
     o_orderIdx s = length (o_timeline s)
     \<and> o_orderMap s = zip (map t_id (o_timeline s)) [0..<length (o_timeline s)]
     \<and> distinct (map t_id (o_timeline s)) \<and> distinct (o_remaining s)
     \<and> set (map t_id (o_timeline s)) \<inter> set (o_remaining s) = {}
     \<and> set (o_simDone s) = set (g_doneTaskIds g) \<union> set (map t_id (o_timeline s))
     \<and> set (map t_id (o_timeline s)) \<union> set (o_remaining s)
         = t_id ` {t \<in> set (g_candidates g). t_status t = Done} \<union> set (pending_ids g)
     \<and> set (o_timeline s) \<subseteq> set (g_allTasks g)
     \<and> set (o_remaining s) \<subseteq> set (pending_ids g)
     \<and> (\<forall>i \<in> set (o_simDone s). completable g i)
     \<and> (\<forall>xs t ys. o_timeline s = xs @ t # ys \<longrightarrow> t_status t \<noteq> Done \<longrightarrow> settled g xs t)"

lemma update_fresh: "k \<notin> fst ` set al \<Longrightarrow> AList.update k v al = al @ [(k, v)]"
  by (induction al) auto

lemma order_inv_step:
  assumes g: "wf_graph g" and inv: "order_inv g s" and ready: "readyNow lc g s = t # ts"
  shows "order_inv g (take_task t s)"
proof -
  have t: "t_id t \<in> set (o_remaining s)" "map_of (g_taskMap g) (t_id t) = Some t"
    "isTaskExecutableInOrder g (t_id t) (o_simDone s)"
    using readyNow_mem[OF g, of t lc s] ready by auto
  have t_all: "t \<in> set (g_allTasks g)"
    using wf_graph_taskMap[OF g t(2)] by simp
  have fresh: "t_id t \<notin> set (map t_id (o_timeline s))"
    using inv t(1) unfolding order_inv_def by blast
  have "completable g (t_id t)"
  proof (rule completable_pending)
    show "t_id t \<in> set (pending_ids g)" using inv t(1) unfolding order_inv_def by blast
    show "map_of (g_taskMap g) (t_id t) = Some t" by fact
    fix d assume "d \<in> set (t_deps t)"
    then show "map_of (g_taskMap g) d \<noteq> None \<and> completable g d"
      using t(2,3) inv by (auto simp: isTaskExecutableInOrder_def areTaskDepsDone_def list_all_iff order_inv_def)
  next
    fix c assume "c \<in> set (siblings (g_childrenMap g) (t_id t))" "t_id c \<in> set (g_candidateIds g)"
    then show "completable g (t_id c)"
      using t(2,3) inv by (auto simp: isTaskExecutableInOrder_def areTaskChildrenDone_def list_all_iff order_inv_def)
  qed
  moreover have "settled g (o_timeline s) t"
    using t(2,3) inv unfolding settled_def isTaskExecutableInOrder_def order_inv_def
    by (auto intro: areTaskDepsDone_mono areTaskChildrenDone_mono)
  then have "settled g xs u"
    if "o_timeline s @ [t] = xs @ u # ys" "t_status u \<noteq> Done" for xs u ys
    using that inv unfolding order_inv_def
    by (cases ys rule: rev_cases) auto
  moreover have "AList.update (t_id t) (o_orderIdx s) (o_orderMap s) =
      zip (map t_id (o_timeline s @ [t])) [0..<length (o_timeline s @ [t])]"
    using inv fresh update_fresh[of "t_id t" "o_orderMap s"]
    unfolding order_inv_def by (force simp: set_zip)
  ultimately show ?thesis
    using inv t t_all fresh unfolding order_inv_def take_task_def push_order_def by auto
qed

lemma fold_push_order:
  "distinct (map t_id (o_timeline s @ ts)) \<Longrightarrow> o_orderIdx s = length (o_timeline s) \<Longrightarrow>
   o_orderMap s = zip (map t_id (o_timeline s)) [0..<length (o_timeline s)] \<Longrightarrow>
   fold push_order ts s =
     s\<lparr>o_timeline := o_timeline s @ ts,
       o_orderMap := zip (map t_id (o_timeline s @ ts)) [0..<length (o_timeline s @ ts)],
       o_orderIdx := length (o_timeline s @ ts)\<rparr>"
proof (induction ts arbitrary: s)
  case Nil
  then show ?case by simp
next
  case (Cons t ts)
  have "t_id t \<notin> fst ` set (o_orderMap s)"
    using Cons.prems by (auto simp: set_zip)
  then have "push_order t s = s\<lparr>o_timeline := o_timeline s @ [t],
       o_orderMap := zip (map t_id (o_timeline s @ [t])) [0..<length (o_timeline s @ [t])],
       o_orderIdx := length (o_timeline s @ [t])\<rparr>"
    using Cons.prems update_fresh[of "t_id t" "o_orderMap s"] by (simp add: push_order_def)
  then show ?case
    using Cons.IH[of "push_order t s"] Cons.prems(1) by simp
qed

lemma wf_graph_pending:
  assumes "wf_graph g" "i \<in> set (pending_ids g)"
  shows "\<exists>t. map_of (g_taskMap g) i = Some t \<and> t_id t = i \<and> t \<in> set (g_candidates g)
    \<and> (t_status t = Open \<or> t_status t = In_progress)"
proof -
  obtain t where t: "t \<in> set (g_candidates g)" "t_id t = i" "t_status t = Open \<or> t_status t = In_progress"
    using assms(2) by (auto simp: pending_ids_def)
  then show ?thesis
    using taskMap_unique[of "g_allTasks g" t] assms(1) wf_graph_indexes(1)[OF assms(1)]
    unfolding wf_graph_def by auto
qed

lemma order_inv_init:
  assumes g: "wf_graph g"
  shows "order_inv g (order_init lc g)"
proof -
  let ?done = "done_candidates lc g"
  have set_done: "set ?done = {t \<in> set (g_candidates g). t_status t = Done}"
    by (auto simp: done_candidates_def sort_created_def)
  have "mset (map t_id ?done) = mset (map t_id (filter (\<lambda>t. t_status t = Done) (g_candidates g)))"
    by (simp add: done_candidates_def sort_created_def)
  moreover have "distinct (map t_id (filter (\<lambda>t. t_status t = Done) (g_candidates g)))"
    using g by (simp add: wf_graph_def distinct_map_filter)
  ultimately have dist: "distinct (map t_id ?done)"
    by (metis mset_eq_imp_distinct_iff)
  have ids: "set (g_doneTaskIds g) = t_id ` {t \<in> set (g_allTasks g). t_status t = Done}"
    unfolding wf_graph_indexes(4)[OF g] by simp
  have sub: "t_id ` set ?done \<subseteq> set (g_doneTaskIds g)"
    using g unfolding set_done ids wf_graph_def by blast
  have disj: "t_id ` set ?done \<inter> set (pending_ids g) = {}"
  proof -
    have "inj_on t_id (set (g_candidates g))"
      using g unfolding wf_graph_def distinct_map by blast
    then have same: "t = u" if "t \<in> set (g_candidates g)" "u \<in> set (g_candidates g)" "t_id t = t_id u" for t u
      using that by (metis inj_onD)
    have False if a: "t \<in> set ?done" and b: "t_id t \<in> set (pending_ids g)" for t
    proof -
      obtain u where "t_id u = t_id t" "u \<in> set (g_candidates g)"
        "t_status u = Open \<or> t_status u = In_progress"
        using wf_graph_pending[OF g b] by blast
      then show False using a same[of t u] unfolding set_done by auto
    qed
    then show ?thesis by blast
  qed
  have init: "order_init lc g =
     \<lparr>o_timeline = ?done, o_orderMap = zip (map t_id ?done) [0..<length ?done],
      o_orderIdx = length ?done, o_simDone = g_doneTaskIds g, o_remaining = pending_ids g\<rparr>"
    unfolding order_init_def by (subst fold_push_order) (use dist in simp_all)
  have all: "set ?done \<subseteq> set (g_allTasks g)"
    using g unfolding set_done wf_graph_def by blast
  have "t_status t = Done" if "?done = xs @ t # ys" for xs t ys
  proof -
    have "t \<in> set ?done" unfolding that by simp
    then show ?thesis unfolding set_done by simp
  qed
  then show ?thesis
    unfolding order_inv_def init
    using dist disj sub all set_done by (auto simp: pending_ids_def intro: completable_done)
qed

section \<open>Results\<close>

lemma order_loop_final:
  assumes "wf_graph g"
  obtains s where "order_loop lc g (order_init lc g) = Some s" "order_inv g s" "readyNow lc g s = []"
  using order_loop_induct[OF assms, of "order_inv g" "order_init lc g" lc]
    order_inv_init[OF assms] order_inv_step[OF assms] by blast

lemma execution_order_final:
  assumes "wf_graph g"
  obtains s where "execution_order_of lc g = Some (order_result s)" "order_inv g s" "readyNow lc g s = []"
  using order_loop_final[OF assms, of lc] unfolding execution_order_of_def by (metis option.simps(9))

text \<open>At the end no remaining task is executable.\<close>

lemma final_not_executable:
  assumes g: "wf_graph g" and inv: "order_inv g s" and fin: "readyNow lc g s = []"
    and i: "i \<in> set (o_remaining s)"
  shows "\<not> isTaskExecutableInOrder g i (o_simDone s)"
proof
  assume ex: "isTaskExecutableInOrder g i (o_simDone s)"
  have "i \<in> set (pending_ids g)" using inv i unfolding order_inv_def by blast
  then obtain t where "map_of (g_taskMap g) i = Some t" "t_id t = i"
    using wf_graph_pending[OF g] by blast
  then have "t \<in> set (readyNow lc g s)"
    using readyNow_mem[OF g] i ex by simp
  with fin show False by simp
qed

lemma completable_final:
  assumes g: "wf_graph g" and inv: "order_inv g s" and fin: "readyNow lc g s = []"
    and "completable g i"
  shows "i \<in> set (o_simDone s)"
  using assms(4)
proof (induction rule: completable.induct)
  case (completable_done i)
  then show ?case using inv unfolding order_inv_def by blast
next
  case (completable_pending i t)
  have "isTaskExecutableInOrder g i (o_simDone s)"
    using completable_pending.hyps(2) completable_pending.IH wf_graph_taskMap[OF g completable_pending.hyps(2)]
    by (auto simp: isTaskExecutableInOrder_def areTaskDepsDone_def areTaskChildrenDone_def list_all_iff)
  then have "i \<notin> set (o_remaining s)"
    using final_not_executable[OF g inv fin] by blast
  moreover have "i \<in> set (map t_id (o_timeline s)) \<union> set (o_remaining s)"
    using inv completable_pending.hyps(1) unfolding order_inv_def by blast
  ultimately show ?case using inv unfolding order_inv_def by blast
qed

lemma wf_make_graph:
  assumes "distinct (map t_id ts)"
  shows "wf_graph (make_graph ts ts)"
  unfolding wf_graph_def using assms by (simp add: make_graph_def)

lemma order_init_timeline:
  assumes "wf_graph g"
  shows "o_timeline (order_init lc g) = done_candidates lc g"
proof -
  have "o_timeline (fold push_order ts s) = o_timeline s @ ts" for ts s
    by (induction ts arbitrary: s) (simp_all add: push_order_def)
  then show ?thesis by (simp add: order_init_def)
qed

lemma order_loop_prefix:
  assumes "wf_graph g" "execution_order_of lc g = Some (order_result s)"
  obtains pending where "o_timeline s = done_candidates lc g @ pending"
    "set (map t_id pending) \<subseteq> set (pending_ids g)"
proof -
  let ?P = "\<lambda>s. order_inv g s \<and> (\<exists>pending. o_timeline s = done_candidates lc g @ pending \<and>
      set (map t_id pending) \<subseteq> set (pending_ids g))"
  have "?P (take_task t u)" if "?P u" "readyNow lc g u = t # ts" for t ts u
  proof -
    have "t_id t \<in> set (pending_ids g)"
      using that readyNow_mem[OF assms(1), of t lc u] unfolding order_inv_def by auto
    then show ?thesis
      using that order_inv_step[OF assms(1)] by (force simp: take_task_def push_order_def)
  qed
  then obtain u where "order_loop lc g (order_init lc g) = Some u" "?P u"
    using order_loop_induct[OF assms(1), of ?P "order_init lc g" lc]
      order_inv_init[OF assms(1)] order_init_timeline[OF assms(1)] by auto
  moreover from this have "order_result u = order_result s"
    using assms(2) by (simp add: execution_order_of_def)
  ultimately show thesis using that by (auto simp: order_result_def)
qed

lemma wf_graph_same_id:
  assumes "wf_graph g" "t \<in> set (g_allTasks g)" "u \<in> set (g_allTasks g)" "t_id t = t_id u"
  shows "t = u"
  using assms unfolding wf_graph_def by (metis distinct_map inj_onD)

lemma done_candidate:
  assumes "wf_graph g" "i \<in> t_id ` set (g_candidates g)" "i \<in> set (g_doneTaskIds g)"
  shows "i \<in> t_id ` {t \<in> set (g_candidates g). t_status t = Done}"
proof -
  obtain t where t: "t \<in> set (g_candidates g)" "t_id t = i" using assms(2) by blast
  obtain u where u: "u \<in> set (g_allTasks g)" "t_status u = Done" "t_id u = i"
    using assms(3) unfolding wf_graph_indexes(4)[OF assms(1)] by auto
  have "t \<in> set (g_allTasks g)" using t(1) assms(1) unfolding wf_graph_def by blast
  then have "t = u" using wf_graph_same_id[OF assms(1)] u t by blast
  with t u show ?thesis by blast
qed

lemma pending_not_done:
  assumes "wf_graph g" "i \<in> set (pending_ids g)"
  shows "i \<notin> set (g_doneTaskIds g)"
proof
  assume dn: "i \<in> set (g_doneTaskIds g)"
  obtain t where t: "t \<in> set (g_candidates g)" "t_id t = i"
    "t_status t = Open \<or> t_status t = In_progress"
    using wf_graph_pending[OF assms] by blast
  then have "i \<in> t_id ` set (g_candidates g)" by blast
  from done_candidate[OF assms(1) this dn]
  obtain u where u: "u \<in> set (g_candidates g)" "t_status u = Done" "t_id u = i"
    by blast
  have "t = u"
    using wf_graph_same_id[OF assms(1) wf_graph_tasks(3)[OF assms(1) t(1)] wf_graph_tasks(3)[OF assms(1) u(1)]]
      t(2) u(3) by simp
  with t u show False by auto
qed

text \<open>
  The greedy choice: a pending task enters the timeline only when it comes first, by priority
  and creation date, among the pending tasks that are executable at that point.
\<close>

definition first_choice :: "(string \<Rightarrow> string \<Rightarrow> int) \<Rightarrow> task_graph \<Rightarrow> task list \<Rightarrow> task \<Rightarrow> bool" where
  "first_choice lc g xs t \<longleftrightarrow>
     (\<forall>u. t_id u \<in> set (pending_ids g) \<longrightarrow> t_id u \<notin> set (map t_id xs) \<longrightarrow>
        map_of (g_taskMap g) (t_id u) = Some u \<longrightarrow> settled g xs u \<longrightarrow> task_le lc t u)"

definition greedy_inv :: "(string \<Rightarrow> string \<Rightarrow> int) \<Rightarrow> task_graph \<Rightarrow> order_state \<Rightarrow> bool" where
  "greedy_inv lc g s \<longleftrightarrow> order_inv g s \<and>
     (\<forall>xs t ys. o_timeline s = xs @ t # ys \<longrightarrow> t_status t \<noteq> Done \<longrightarrow> first_choice lc g xs t)"

lemma executable_cong:
  "set xs = set ys \<Longrightarrow> isTaskExecutableInOrder g i xs = isTaskExecutableInOrder g i ys"
  by (simp add: isTaskExecutableInOrder_def areTaskDepsDone_def areTaskChildrenDone_def cong: option.case_cong)

lemma greedy_inv_step:
  assumes g: "wf_graph g" and lc: "collation lc" and num: "list_all num_priority (g_allTasks g)"
    and inv: "greedy_inv lc g s" and ready: "readyNow lc g s = t # ts"
  shows "greedy_inv lc g (take_task t s)"
proof -
  have inv': "order_inv g s" using inv unfolding greedy_inv_def by blast
  let ?xs = "o_timeline s"
  let ?exec = "filter (\<lambda>t. isTaskExecutableInOrder g (t_id t) (o_simDone s)) (getTasksById g (o_remaining s))"
  have hd: "hd (sort_by (task_le lc) ?exec) = t"
    using ready by (simp add: readyNow_def sort_tasks_alt)
  have "list_all num_priority ?exec"
    using num wf_graph_taskMap[OF g] by (auto simp: list_all_iff getTasksById_mem)
  then have le: "task_le lc t u" if "u \<in> set ?exec" for u
    using total_preorder.hd_sort_by_le[OF prio_order[OF lc] _ that] hd by simp
  have "first_choice lc g ?xs t"
    unfolding first_choice_def
  proof (intro allI impI)
    fix u assume u: "t_id u \<in> set (pending_ids g)" "t_id u \<notin> set (map t_id ?xs)"
      "map_of (g_taskMap g) (t_id u) = Some u" "settled g ?xs u"
    have "t_id u \<in> set (o_remaining s)"
      using inv' u(1,2) unfolding order_inv_def by blast
    moreover have "isTaskExecutableInOrder g (t_id u) (o_simDone s)"
      using u(4) inv' executable_cong[of "o_simDone s" "g_doneTaskIds g @ map t_id ?xs"]
      unfolding settled_def order_inv_def by simp
    ultimately have "u \<in> set ?exec"
      using u(3) by (auto simp: getTasksById_mem)
    then show "task_le lc t u" by (rule le)
  qed
  then have "first_choice lc g xs u"
    if "?xs @ [t] = xs @ u # ys" "t_status u \<noteq> Done" for xs u ys
    using that inv unfolding greedy_inv_def by (cases ys rule: rev_cases) auto
  moreover have "order_inv g (take_task t s)"
    by (rule order_inv_step[OF g inv' ready])
  ultimately show ?thesis
    unfolding greedy_inv_def by (simp add: take_task_def push_order_def)
qed

lemma greedy_inv_init:
  assumes "wf_graph g"
  shows "greedy_inv lc g (order_init lc g)"
proof -
  have tl: "o_timeline (order_init lc g) = done_candidates lc g"
    by (rule order_init_timeline[OF assms])
  have "t_status t = Done" if "o_timeline (order_init lc g) = xs @ t # ys" for xs t ys
  proof -
    have "t \<in> set (done_candidates lc g)" using that tl by simp
    then show ?thesis by (auto simp: done_candidates_def sort_created_def)
  qed
  then show ?thesis
    using order_inv_init[OF assms] unfolding greedy_inv_def by blast
qed

lemma execution_order_split:
  assumes "wf_graph g"
  shows "\<exists>r. execution_order_of lc g = Some r
    \<and> distinct (map t_id (r_timeline r) @ r_blocked r)
    \<and> set (map t_id (r_timeline r) @ r_blocked r)
        = t_id ` {t \<in> set (g_candidates g). t_status t \<in> {Done, Open, In_progress}}
    \<and> r_orderMap r = zip (map t_id (r_timeline r)) [0..<length (r_timeline r)]
    \<and> (\<exists>pending. r_timeline r = done_candidates lc g @ pending
          \<and> set (map t_id pending) \<subseteq> set (pending_ids g))"
proof -
  obtain s where s: "execution_order_of lc g = Some (order_result s)" "order_inv g s"
    by (rule execution_order_final[OF assms])
  obtain pending where "o_timeline s = done_candidates lc g @ pending"
    "set (map t_id pending) \<subseteq> set (pending_ids g)"
    using order_loop_prefix[OF assms s(1)] by (auto simp: order_result_def)
  moreover have "set (pending_ids g) = t_id ` {t \<in> set (g_candidates g). t_status t \<in> {Open, In_progress}}"
    by (auto simp: pending_ids_def)
  ultimately show ?thesis
    using s unfolding order_inv_def
    by (intro exI[of _ "order_result s"]) (auto simp: order_result_def)
qed

section \<open>Properties\<close>

text \<open>
  On the graph of a store with unique task ids the simulated run always ends; the timeline
  and the blocked set split the candidates that are done, open or in progress into two disjoint
  parts without repetitions, the done ones come first, and \<open>orderMap\<close> numbers the timeline.
\<close>

theorem execution_order_partition:
  assumes "wf_graph g"
  shows "\<exists>r. execution_order_of lc g = Some r
    \<and> distinct (map t_id (r_timeline r) @ r_blocked r)
    \<and> set (map t_id (r_timeline r) @ r_blocked r)
        = t_id ` {t \<in> set (g_candidates g). t_status t \<in> {Done, Open, In_progress}}
    \<and> r_orderMap r = zip (map t_id (r_timeline r)) [0..<length (r_timeline r)]
    \<and> (\<exists>pending. r_timeline r = done_candidates lc g @ pending
          \<and> set (map t_id pending) \<subseteq> set (pending_ids g))"
  using assms by (rule execution_order_split)

text \<open>
  C13. The timeline respects the graph: whenever a task that was not already done appears, all of
  its dependencies exist and are done or appear earlier, and so are its children in the scope.
\<close>

theorem execution_order_respects_dependencies:
  assumes "wf_graph g" "execution_order_of lc g = Some r"
    "r_timeline r = xs @ t # ys" "t_status t \<noteq> Done"
  shows "(\<forall>d \<in> set (t_deps t). d \<in> t_id ` set (g_allTasks g)
            \<and> (d \<in> set (g_doneTaskIds g) \<or> d \<in> t_id ` set xs))
    \<and> (\<forall>c \<in> set (g_candidates g). t_parentId c = Some (t_id t) \<and> t_id t \<noteq> [] \<longrightarrow>
          t_id c \<in> set (g_doneTaskIds g) \<or> t_id c \<in> t_id ` set xs)"
proof -
  obtain s where s: "execution_order_of lc g = Some (order_result s)" "order_inv g s"
    by (rule execution_order_final[OF assms(1)])
  then have "o_timeline s = xs @ t # ys"
    using assms(2,3) by (simp add: order_result_def)
  then have settled: "settled g xs t" and t: "t \<in> set (g_allTasks g)"
    using s(2) assms(4) unfolding order_inv_def by auto
  have map: "map_of (g_taskMap g) (t_id t) = Some t"
    using taskMap_unique[of "g_allTasks g" t] t assms(1) wf_graph_indexes(1)[OF assms(1)]
    unfolding wf_graph_def by simp
  have sub: "set (g_candidates g) \<subseteq> set (g_allTasks g)"
    using assms(1) unfolding wf_graph_def by blast
  have "areTaskDepsDone g t (g_doneTaskIds g @ map t_id xs)"
    "areTaskChildrenDone g (t_id t) (g_doneTaskIds g @ map t_id xs) True"
    using settled map unfolding settled_def isTaskExecutableInOrder_def by simp_all
  moreover have "map_of (g_taskMap g) d \<noteq> None \<longleftrightarrow> d \<in> t_id ` set (g_allTasks g)" for d
    by (simp only: wf_graph_indexes(1)[OF assms(1)] taskMap_None not_not)
  ultimately show ?thesis
    using sub
    by (auto simp: areTaskDepsDone_def areTaskChildrenDone_def list_all_iff
        wf_graph_indexes(2,3)[OF assms(1)] siblings_children intro: rev_image_eqI)
      blast
qed

text \<open>
  C12. The greedy simulation computes the order-free specification: a candidate is in the timeline
  exactly when it is completable, and the blocked set is exactly the pending candidates that no
  order of work completes.
\<close>

theorem execution_order_completable:
  assumes "wf_graph g" "execution_order_of lc g = Some r"
  shows "(\<forall>i \<in> t_id ` set (g_candidates g). i \<in> set (map t_id (r_timeline r)) \<longleftrightarrow> completable g i)
    \<and> set (r_blocked r) = {i \<in> set (pending_ids g). \<not> completable g i}"
proof -
  obtain s where s: "execution_order_of lc g = Some (order_result s)" "order_inv g s" "readyNow lc g s = []"
    by (rule execution_order_final[OF assms(1)])
  have r: "r = order_result s" using s(1) assms(2) by simp
  have dn: "i \<in> set (o_simDone s) \<longleftrightarrow> completable g i" for i
    using completable_final[OF assms(1) s(2,3)] s(2) unfolding order_inv_def by blast
  have pend: "i \<notin> set (g_doneTaskIds g)" if "i \<in> set (pending_ids g)" for i
    using pending_not_done[OF assms(1) that] .
  have cand: "i \<in> t_id ` {t \<in> set (g_candidates g). t_status t = Done}"
    if "i \<in> t_id ` set (g_candidates g)" "i \<in> set (g_doneTaskIds g)" for i
    using done_candidate[OF assms(1) that] .
  have ids: "set (o_simDone s) = set (g_doneTaskIds g) \<union> set (map t_id (o_timeline s))"
    and split: "set (map t_id (o_timeline s)) \<union> set (o_remaining s)
         = t_id ` {t \<in> set (g_candidates g). t_status t = Done} \<union> set (pending_ids g)"
    and disj: "set (map t_id (o_timeline s)) \<inter> set (o_remaining s) = {}"
    and rem: "set (o_remaining s) \<subseteq> set (pending_ids g)"
    using s(2) unfolding order_inv_def by - (elim conjE, assumption)+
  have not_pend: "i \<notin> set (pending_ids g)" if "i \<in> set (g_doneTaskIds g)" for i
    using that pending_not_done[OF assms(1)] by (rule contrapos_pn)
  have "i \<in> set (map t_id (o_timeline s)) \<longleftrightarrow> completable g i" if i: "i \<in> t_id ` set (g_candidates g)" for i
  proof
    assume "completable g i"
    then have "i \<in> set (g_doneTaskIds g) \<or> i \<in> set (map t_id (o_timeline s))"
      using dn[of i] unfolding ids by blast
    moreover have "i \<in> set (map t_id (o_timeline s))" if "i \<in> set (g_doneTaskIds g)"
    proof -
      have "i \<in> set (map t_id (o_timeline s)) \<union> set (o_remaining s)"
        unfolding split by (rule UnI1) (rule cand[OF i that])
      then show ?thesis using not_pend[OF that] rem by blast
    qed
    ultimately show "i \<in> set (map t_id (o_timeline s))" by blast
  qed (use dn ids in blast)
  moreover have "i \<in> set (o_remaining s) \<longleftrightarrow> i \<in> set (pending_ids g) \<and> \<not> completable g i" for i
    using dn[of i] pend[of i] split rem disj unfolding ids by blast
  ultimately show ?thesis
    unfolding r order_result_def by auto
qed

text \<open>
  Among the tasks that could run next, the timeline takes one that the comparator of
  \<open>getReady\<close> puts first (lowest priority number, tasks without a priority last, then oldest).
\<close>

theorem execution_order_greedy:
  assumes "wf_graph g" "collation lc" "list_all num_priority (g_allTasks g)"
    "execution_order_of lc g = Some r" "r_timeline r = xs @ t # ys" "t_status t \<noteq> Done"
  shows "first_choice lc g xs t"
proof -
  obtain s where "order_loop lc g (order_init lc g) = Some s" "greedy_inv lc g s"
    using order_loop_induct[OF assms(1), of "greedy_inv lc g" "order_init lc g" lc]
      greedy_inv_init[OF assms(1)] greedy_inv_step[OF assms(1,2,3)] by blast
  then show ?thesis
    using assms(4-6) unfolding greedy_inv_def execution_order_of_def order_result_def by auto
qed

section \<open>A concrete graph\<close>

text \<open>Task \<open>a\<close> waits for \<open>b\<close>, \<open>b\<close> is open, \<open>c\<close> is done and \<open>d\<close> waits for a task that does not exist.\<close>

definition demo_task :: "string \<Rightarrow> task_status \<Rightarrow> string list \<Rightarrow> task" where
  "demo_task i st deps =
     \<lparr>t_id = i, t_title = ''T'', t_status = st, t_deps = deps, t_parentId = None, t_body = [],
      t_acceptanceCriteria = [], t_notes = [], t_created = ''2026-01-01'', t_assignee = None,
      t_priority = None, t_raw = []\<rparr>"

definition demo_tasks :: "task list" where
  "demo_tasks =
     [demo_task ''a'' Open [''b''], demo_task ''b'' Open [], demo_task ''c'' Done [],
      demo_task ''d'' In_progress [''x'']]"

definition demo_graph :: task_graph where
  "demo_graph = make_graph demo_tasks demo_tasks"

definition demo_order :: execution_order where
  "demo_order =
     \<lparr>r_timeline = [demo_task ''c'' Done [], demo_task ''b'' Open [], demo_task ''a'' Open [''b'']],
      r_orderMap = [(''c'', 0), (''b'', 1), (''a'', 2)], r_blocked = [''d'']\<rparr>"

lemma demo_wf: "wf_graph demo_graph"
  unfolding demo_graph_def by (rule wf_make_graph) (simp add: demo_tasks_def demo_task_def)

lemmas demo_eval = demo_graph_def demo_tasks_def demo_task_def make_graph_def buildTaskMap_def
  buildChildrenMap_def add_child_def truthy_def set_of_def set_add_def execution_order_of_def
  order_init_def done_candidates_def pending_ids_def push_order_def take_task_def readyNow_def
  sort_tasks_def sort_created_def getTasksById_def List.map_filter_def isTaskExecutableInOrder_def
  areTaskDepsDone_def areTaskChildrenDone_def siblings_def sortByPriorityThenCreated_def
  set_del_def order_result_def

lemma demo_run: "execution_order_of code_unit_compare demo_graph = Some demo_order"
  by (simp add: demo_eval demo_order_def order_loop.simps)

lemma execution_order_partition_witness:
  "\<exists>r. execution_order_of code_unit_compare demo_graph = Some r
    \<and> distinct (map t_id (r_timeline r) @ r_blocked r)"
  using execution_order_partition[OF demo_wf, of code_unit_compare] by blast

lemma execution_order_respects_dependencies_witness:
  "''b'' \<in> t_id ` set (g_allTasks demo_graph)
    \<and> (''b'' \<in> set (g_doneTaskIds demo_graph)
        \<or> ''b'' \<in> t_id ` set [demo_task ''c'' Done [], demo_task ''b'' Open []])"
  using execution_order_respects_dependencies[OF demo_wf demo_run,
      of "[demo_task ''c'' Done [], demo_task ''b'' Open []]" "demo_task ''a'' Open [''b'']" "[]"]
  by (simp add: demo_order_def demo_task_def)

lemma execution_order_completable_witness:
  "set [''d''] = {i \<in> set (pending_ids demo_graph). \<not> completable demo_graph i}"
  using execution_order_completable[OF demo_wf demo_run] by (simp add: demo_order_def)

lemma execution_order_greedy_witness:
  "first_choice code_unit_compare demo_graph [demo_task ''c'' Done []] (demo_task ''b'' Open [])"
proof (rule execution_order_greedy[OF demo_wf collation_code_unit _ demo_run])
  show "list_all num_priority (g_allTasks demo_graph)"
    by (simp add: demo_graph_def make_graph_def demo_tasks_def demo_task_def num_priority_def)
qed (simp_all add: demo_order_def demo_task_def)

end
