(* ===== verification/Task_Store.thy ===== *)
theory Task_Store
  imports Task_Roundtrip Execution_Order
begin

text \<open>
  \<open>FileTaskStore\<close> of \<open>tasks/task-store.ts\<close>. The state is the directory: the files in the order
  \<open>readdir\<close> reports them, each an id (the name without \<open>.md\<close>) with its contents. Every
  operation reads tasks by parsing files and writes them by serializing. The clock and the random
  id of \<open>create\<close> are arguments; a rejected promise is \<open>Inl\<close>, and the two traversals that follow
  parent links may not return (\<open>None\<close>).
\<close>

section \<open>State and errors\<close>

type_synonym files = "(string \<times> string) list"

datatype store_error =
    Bad_document doc_error
  | Task_not_found string
  | Parent_not_found string
  | Dependency_not_found string
  | Own_parent
  | Circular_parent
  | Cannot_start task_status

type_synonym lc = "string \<Rightarrow> string \<Rightarrow> int"

section \<open>Reading\<close>

definition parse_file :: "string \<Rightarrow> string \<Rightarrow> store_error + task" where
  "parse_file now c = (case parseTask now c of Inl e \<Rightarrow> Inl (Bad_document e) | Inr t \<Rightarrow> Inr t)"

definition readTask :: "string \<Rightarrow> files \<Rightarrow> string \<Rightarrow> store_error + task option" where
  "readTask now fs i =
     (case map_of fs i of
        None \<Rightarrow> Inr None
      | Some c \<Rightarrow> ebind (parse_file now c) (\<lambda>t. Inr (Some t)))"

definition store_list :: "lc \<Rightarrow> string \<Rightarrow> files \<Rightarrow> store_error + task list" where
  "store_list lc now fs =
     ebind (eall (map (readTask now fs) (map fst fs)))
       (\<lambda>loaded. Inr (sort_created lc (List.map_filter id loaded)))"

definition store_get :: "string \<Rightarrow> files \<Rightarrow> string \<Rightarrow> store_error + task option" where
  "store_get = readTask"

text \<open>\<open>const task = await this.get(id); if (!task) throw\<close>, the opening of most operations.\<close>

definition get_or_throw :: "string \<Rightarrow> files \<Rightarrow> string \<Rightarrow> store_error \<Rightarrow> store_error + task" where
  "get_or_throw now fs i e =
     ebind (store_get now fs i) (\<lambda>r. case r of None \<Rightarrow> Inl e | Some t \<Rightarrow> Inr t)"

abbreviation the_task :: "string \<Rightarrow> files \<Rightarrow> string \<Rightarrow> store_error + task" where
  "the_task now fs i \<equiv> get_or_throw now fs i (Task_not_found i)"

section \<open>Queries\<close>

text \<open>
  The depth-first traversal of \<open>getDepTree\<close>. Each call marks a task that was not visited, so
  fuel equal to the number of files is enough; the state is \<open>(visited, result)\<close>.
\<close>

fun dep_traverse ::
    "nat \<Rightarrow> string \<Rightarrow> files \<Rightarrow> string \<Rightarrow> string list \<times> task list \<Rightarrow>
     (store_error + (string list \<times> task list)) option"
  and dep_loop ::
    "nat \<Rightarrow> string \<Rightarrow> files \<Rightarrow> string list \<Rightarrow> string list \<times> task list \<Rightarrow>
     (store_error + (string list \<times> task list)) option" where
  "dep_traverse 0 now fs i st = None"
| "dep_traverse (Suc n) now fs i (visited, result) =
     (if i \<in> set visited then Some (Inr (visited, result))
      else obind (Some (store_get now fs i)) (\<lambda>r.
           case r of
             None \<Rightarrow> Some (Inr (set_add i visited, result))
           | Some t \<Rightarrow> dep_loop n now fs (t_deps t) (set_add i visited, result)))"
| "dep_loop n now fs [] st = Some (Inr st)"
| "dep_loop n now fs (d # ds) (visited, result) =
     (if d \<in> set visited then dep_loop n now fs ds (visited, result)
      else obind (Some (store_get now fs d)) (\<lambda>r.
           case r of
             None \<Rightarrow> dep_loop n now fs ds (visited, result)
           | Some t \<Rightarrow>
               obind (dep_traverse n now fs d (visited, result @ [t])) (dep_loop n now fs ds)))"

definition getDepTree :: "nat \<Rightarrow> string \<Rightarrow> files \<Rightarrow> string \<Rightarrow> (store_error + task list) option" where
  "getDepTree n now fs i =
     obind (Some (the_task now fs i)) (\<lambda>_.
     obind (dep_traverse n now fs i ([], [])) (\<lambda>(_, result). Some (Inr result)))"

text \<open>The parent walk, a loop that a cycle of parent links keeps running.\<close>

partial_function (option) ancestor_loop ::
    "string \<Rightarrow> files \<Rightarrow> string option \<Rightarrow> task list \<Rightarrow> (store_error + task list) option" where
  "ancestor_loop now fs current ancestors =
     (if \<not> truthy current then Some (Inr ancestors)
      else case store_get now fs (the current) of
             Inl e \<Rightarrow> Some (Inl e)
           | Inr None \<Rightarrow> Some (Inr ancestors)
           | Inr (Some parent) \<Rightarrow>
               ancestor_loop now fs (t_parentId parent) (ancestors @ [parent]))"

definition getAncestors :: "string \<Rightarrow> files \<Rightarrow> string \<Rightarrow> (store_error + task list) option" where
  "getAncestors now fs i =
     obind (Some (the_task now fs i)) (\<lambda>t. ancestor_loop now fs (t_parentId t) [])"

definition getAncestorsFrom :: "string \<Rightarrow> files \<Rightarrow> string \<Rightarrow> (store_error + task list) option" where
  "getAncestorsFrom now fs i = ancestor_loop now fs (Some i) []"

definition getChildren :: "lc \<Rightarrow> string \<Rightarrow> files \<Rightarrow> string \<Rightarrow> store_error + task list" where
  "getChildren lc now fs i =
     ebind (store_list lc now fs)
       (\<lambda>ts. Inr (sort_tasks lc (filter (\<lambda>t. t_parentId t = Some i) ts)))"

text \<open>The recursion of \<open>getDescendants\<close>, bounded by fuel: \<open>None\<close> when the depth exceeds it.\<close>

fun desc_traverse ::
    "nat \<Rightarrow> lc \<Rightarrow> string \<Rightarrow> files \<Rightarrow> string \<Rightarrow> task list \<Rightarrow> (store_error + task list) option"
  and desc_loop ::
    "nat \<Rightarrow> lc \<Rightarrow> string \<Rightarrow> files \<Rightarrow> task list \<Rightarrow> task list \<Rightarrow> (store_error + task list) option" where
  "desc_traverse 0 lc now fs i result = None"
| "desc_traverse (Suc n) lc now fs i result =
     obind (Some (getChildren lc now fs i)) (\<lambda>children. desc_loop n lc now fs children result)"
| "desc_loop n lc now fs [] result = Some (Inr result)"
| "desc_loop n lc now fs (c # cs) result =
     obind (desc_traverse n lc now fs (t_id c) (result @ [c])) (desc_loop n lc now fs cs)"

definition getDescendants :: "nat \<Rightarrow> lc \<Rightarrow> string \<Rightarrow> files \<Rightarrow> string \<Rightarrow> (store_error + task list) option" where
  "getDescendants n lc now fs i = desc_traverse n lc now fs i []"

definition store_graph :: "nat \<Rightarrow> lc \<Rightarrow> string \<Rightarrow> files \<Rightarrow> string option \<Rightarrow> (store_error + task_graph) option" where
  "store_graph n lc now fs =
     loadScopedTaskGraph (store_list lc now fs) (store_get now fs) (getDescendants n lc now fs)"

definition getReady :: "nat \<Rightarrow> lc \<Rightarrow> string \<Rightarrow> files \<Rightarrow> string option \<Rightarrow> (store_error + task list) option" where
  "getReady n lc now fs scopeId =
     obind (store_graph n lc now fs scopeId)
       (\<lambda>g. Some (Inr (sort_tasks lc (filter (isReadyTask g) (g_candidates g)))))"

definition getBlocked :: "nat \<Rightarrow> lc \<Rightarrow> string \<Rightarrow> files \<Rightarrow> string option \<Rightarrow> (store_error + task list) option" where
  "getBlocked n lc now fs scopeId =
     obind (store_graph n lc now fs scopeId)
       (\<lambda>g. Some (Inr (filter (isBlockedTask g) (g_candidates g))))"

definition getClosed :: "nat \<Rightarrow> lc \<Rightarrow> string \<Rightarrow> files \<Rightarrow> string option \<Rightarrow> (store_error + task list) option" where
  "getClosed n lc now fs scopeId =
     obind (store_graph n lc now fs scopeId)
       (\<lambda>g. Some (Inr (sort_by (\<lambda>a b. lc (t_created b) (t_created a) \<le> 0)
              (filter (\<lambda>t. t_status t = Done) (g_candidates g)))))"

section \<open>Mutations\<close>

definition writeTask :: "task \<Rightarrow> files \<Rightarrow> files" where
  "writeTask t fs = AList.update (t_id t) (serializeTask t) fs"

text \<open>\<open>CreateTaskOptions\<close>: an absent field is \<open>None\<close>.\<close>

record create_options =
  c_deps :: "string list option"
  c_parentId :: "string option"
  c_status :: "task_status option"
  c_body :: "string option"
  c_acceptanceCriteria :: "string list option"
  c_assignee :: "string option"
  c_priority :: "js_num option"

definition or_else :: "'a option \<Rightarrow> 'a \<Rightarrow> 'a" where
  "or_else v d = (case v of None \<Rightarrow> d | Some x \<Rightarrow> x)"

definition new_task :: "string \<Rightarrow> string \<Rightarrow> string \<Rightarrow> create_options \<Rightarrow> task" where
  "new_task i now title opts =
     \<lparr>t_id = i, t_title = title, t_status = or_else (c_status opts) Open,
      t_deps = or_else (c_deps opts) [], t_parentId = c_parentId opts,
      t_body = or_else (c_body opts) [],
      t_acceptanceCriteria = or_else (c_acceptanceCriteria opts) [], t_notes = [],
      t_created = now, t_assignee = c_assignee opts, t_priority = c_priority opts, t_raw = []\<rparr>"

text \<open>
  \<open>create\<close> returns the files with the task it read back; \<open>saved!\<close> asserts that the read found
  it, which \<open>Inr None\<close> would contradict.
\<close>

definition store_create ::
    "string \<Rightarrow> string \<Rightarrow> string \<Rightarrow> create_options \<Rightarrow> files \<Rightarrow> store_error + (files \<times> task option)" where
  "store_create i now title opts fs =
     ebind (if truthy (c_parentId opts)
            then ebind (get_or_throw now fs (the (c_parentId opts)) (Parent_not_found (the (c_parentId opts))))
                   (\<lambda>_. Inr ())
            else Inr ())
       (\<lambda>_. let fs' = writeTask (new_task i now title opts) fs in
            ebind (store_get now fs' i) (\<lambda>saved. Inr (fs', saved)))"

text \<open>
  \<open>Partial<Omit<Task, "id" | "created">>\<close>: a field that is absent is \<open>None\<close>; an optional field
  that is present may be set to \<open>undefined\<close>, \<open>Some None\<close>.
\<close>

record task_changes =
  h_title :: "string option"
  h_status :: "task_status option"
  h_deps :: "string list option"
  h_parentId :: "string option option"
  h_body :: "string option"
  h_acceptanceCriteria :: "string list option"
  h_notes :: "task_note list option"
  h_assignee :: "string option option"
  h_priority :: "js_num option option"
  h_raw :: "string option"

definition no_changes :: task_changes where
  "no_changes =
     \<lparr>h_title = None, h_status = None, h_deps = None, h_parentId = None, h_body = None,
      h_acceptanceCriteria = None, h_notes = None, h_assignee = None, h_priority = None, h_raw = None\<rparr>"

text \<open>\<open>{ ...task, ...changes }\<close>.\<close>

definition spread :: "task \<Rightarrow> task_changes \<Rightarrow> task" where
  "spread t h =
     \<lparr>t_id = t_id t, t_title = or_else (h_title h) (t_title t),
      t_status = or_else (h_status h) (t_status t), t_deps = or_else (h_deps h) (t_deps t),
      t_parentId = or_else (h_parentId h) (t_parentId t), t_body = or_else (h_body h) (t_body t),
      t_acceptanceCriteria = or_else (h_acceptanceCriteria h) (t_acceptanceCriteria t),
      t_notes = or_else (h_notes h) (t_notes t), t_created = t_created t,
      t_assignee = or_else (h_assignee h) (t_assignee t),
      t_priority = or_else (h_priority h) (t_priority t), t_raw = or_else (h_raw h) (t_raw t)\<rparr>"

definition store_update ::
    "string \<Rightarrow> string \<Rightarrow> task_changes \<Rightarrow> files \<Rightarrow> store_error + (files \<times> task)" where
  "store_update now i changes fs =
     ebind (the_task now fs i)
       (\<lambda>t. let updated = spread t changes in Inr (writeTask updated fs, updated))"

definition store_delete :: "string \<Rightarrow> string \<Rightarrow> files \<Rightarrow> store_error + files" where
  "store_delete now i fs = ebind (the_task now fs i) (\<lambda>_. Inr (AList.delete i fs))"

definition addDep :: "string \<Rightarrow> string \<Rightarrow> string \<Rightarrow> files \<Rightarrow> store_error + files" where
  "addDep now i depId fs =
     ebind (the_task now fs i) (\<lambda>t.
     ebind (get_or_throw now fs depId (Dependency_not_found depId)) (\<lambda>_.
     if depId \<in> set (t_deps t) then Inr fs
     else Inr (writeTask (t\<lparr>t_deps := t_deps t @ [depId]\<rparr>) fs)))"

definition removeDep :: "string \<Rightarrow> string \<Rightarrow> string \<Rightarrow> files \<Rightarrow> store_error + files" where
  "removeDep now i depId fs =
     ebind (the_task now fs i)
       (\<lambda>t. Inr (writeTask (t\<lparr>t_deps := filter (\<lambda>d. d \<noteq> depId) (t_deps t)\<rparr>) fs))"

definition set_parent_field :: "string \<Rightarrow> string \<Rightarrow> string option \<Rightarrow> files \<Rightarrow> store_error + files" where
  "set_parent_field now i parentId fs =
     ebind (store_update now i (no_changes\<lparr>h_parentId := Some parentId\<rparr>) fs) (\<lambda>(fs', _). Inr fs')"

definition setParent ::
    "string \<Rightarrow> string \<Rightarrow> string option \<Rightarrow> files \<Rightarrow> (store_error + files) option" where
  "setParent now i parentId fs =
     obind (Some (the_task now fs i)) (\<lambda>_.
     if truthy parentId
     then let p = the parentId in
          obind (Some (get_or_throw now fs p (Parent_not_found p))) (\<lambda>_.
          if p = i then Some (Inl Own_parent)
          else obind (getAncestorsFrom now fs p) (\<lambda>ancestors.
               if list_ex (\<lambda>a. t_id a = i) ancestors then Some (Inl Circular_parent)
               else Some (set_parent_field now i parentId fs)))
     else Some (set_parent_field now i parentId fs))"

definition addNote :: "string \<Rightarrow> string \<Rightarrow> string \<Rightarrow> files \<Rightarrow> store_error + files" where
  "addNote now i content fs =
     ebind (the_task now fs i)
       (\<lambda>t. Inr (writeTask (t\<lparr>t_notes := t_notes t @ [\<lparr>n_timestamp = now, n_content = content\<rparr>]\<rparr>) fs))"

text \<open>\<open>await this.get(id); throw if missing; await this.update(id, { status })\<close>.\<close>

definition set_status :: "string \<Rightarrow> string \<Rightarrow> task_status \<Rightarrow> files \<Rightarrow> store_error + files" where
  "set_status now i st fs =
     ebind (store_update now i (no_changes\<lparr>h_status := Some st\<rparr>) fs) (\<lambda>(fs', _). Inr fs')"

definition store_open :: "string \<Rightarrow> string \<Rightarrow> files \<Rightarrow> store_error + files" where
  "store_open now i fs = ebind (the_task now fs i) (\<lambda>_. set_status now i Open fs)"

definition store_start :: "string \<Rightarrow> string \<Rightarrow> files \<Rightarrow> store_error + files" where
  "store_start now i fs =
     ebind (the_task now fs i) (\<lambda>t.
     if t_status t \<noteq> Open then Inl (Cannot_start (t_status t))
     else set_status now i In_progress fs)"

definition store_close :: "string \<Rightarrow> string \<Rightarrow> files \<Rightarrow> store_error + files" where
  "store_close now i fs = ebind (the_task now fs i) (\<lambda>_. set_status now i Done fs)"

definition store_fail :: "string \<Rightarrow> string \<Rightarrow> files \<Rightarrow> store_error + files" where
  "store_fail now i fs = ebind (the_task now fs i) (\<lambda>_. set_status now i Failed fs)"

definition addAcceptanceCriteria :: "string \<Rightarrow> string \<Rightarrow> string \<Rightarrow> files \<Rightarrow> store_error + files" where
  "addAcceptanceCriteria now i criterion fs =
     ebind (the_task now fs i)
       (\<lambda>t. Inr (writeTask (t\<lparr>t_acceptanceCriteria := t_acceptanceCriteria t @ [criterion]\<rparr>) fs))"

section \<open>A directory of documents\<close>

text \<open>
  The contract between the store and the document format: a document that was encoded decodes to
  the same value, whatever the clock says. Under it the directory is a finite map.
\<close>

definition stored_docs ::
    "('n \<Rightarrow> string \<Rightarrow> 'e + 'a) \<Rightarrow> ('a \<Rightarrow> string) \<Rightarrow> ('a \<Rightarrow> bool) \<Rightarrow> files \<Rightarrow> bool" where
  "stored_docs decode key ok fs \<longleftrightarrow>
     distinct (map fst fs) \<and>
     (\<forall>i c. map_of fs i = Some c \<longrightarrow> (\<exists>x. (\<forall>n. decode n c = Inr x) \<and> key x = i \<and> ok x))"

definition doc_at :: "('n \<Rightarrow> string \<Rightarrow> 'e + 'a) \<Rightarrow> 'n \<Rightarrow> files \<Rightarrow> string \<Rightarrow> 'a option" where
  "doc_at decode n fs i =
     (case map_of fs i of
        None \<Rightarrow> None
      | Some c \<Rightarrow> (case decode n c of Inl _ \<Rightarrow> None | Inr x \<Rightarrow> Some x))"

locale document_store =
  fixes encode :: "'a \<Rightarrow> string" and decode :: "'n \<Rightarrow> string \<Rightarrow> 'e + 'a"
    and key :: "'a \<Rightarrow> string" and ok :: "'a \<Rightarrow> bool" and norm :: "'a \<Rightarrow> 'a"
  assumes decode_encode: "ok x \<Longrightarrow> decode n (encode x) = Inr (norm x)"
    and key_norm: "key (norm x) = key x"
    and ok_norm: "ok x \<Longrightarrow> ok (norm x)"
begin

lemma stored_update:
  "stored_docs decode key ok fs \<Longrightarrow> ok x \<Longrightarrow>
   stored_docs decode key ok (AList.update (key x) (encode x) fs)"
  unfolding stored_docs_def
  by (auto simp: js_simps distinct_update decode_encode key_norm ok_norm)

lemma doc_at_update:
  "ok x \<Longrightarrow> doc_at decode n (AList.update (key x) (encode x) fs) = (doc_at decode n fs)(key x \<mapsto> norm x)"
  by (auto simp: doc_at_def js_simps fun_eq_iff decode_encode)

lemma stored_delete: "stored_docs decode key ok fs \<Longrightarrow> stored_docs decode key ok (AList.delete i fs)"
  unfolding stored_docs_def by (auto simp: js_simps distinct_delete)

lemma doc_at_delete: "doc_at decode n (AList.delete i fs) = (doc_at decode n fs)(i := None)"
  by (auto simp: doc_at_def js_simps fun_eq_iff)

lemma stored_read:
  assumes "stored_docs decode key ok fs"
  shows "case map_of fs i of
      None \<Rightarrow> doc_at decode n fs i = None
    | Some c \<Rightarrow> \<exists>x. doc_at decode n fs i = Some x \<and> decode m c = Inr x \<and> key x = i \<and> ok x"
  using assms unfolding stored_docs_def doc_at_def
  by (auto split: option.split) (metis sum.simps(6))

lemma doc_at_clock:
  assumes "stored_docs decode key ok fs"
  shows "doc_at decode n fs i = doc_at decode m fs i"
  using stored_read[OF assms, where i = i and n = n and m = n] stored_read[OF assms, where i = i and n = m and m = n] by (auto split: option.splits)

end

definition with_raw :: "task \<Rightarrow> task" where
  "with_raw t = t\<lparr>t_raw := serializeTask t\<rparr>"

interpretation docs: document_store serializeTask parse_file t_id wf_task with_raw
  by unfold_locales (simp_all add: parse_file_def parse_serialize with_raw_def wf_task_def)

definition wf_files :: "files \<Rightarrow> bool" where
  "wf_files = stored_docs parse_file t_id wf_task"

definition task_at :: "files \<Rightarrow> string \<Rightarrow> task option" where
  "task_at = doc_at parse_file []"

end
