(* ===== verification/Task_Store_Spec.thy ===== *)
theory Task_Store_Spec
  imports Task_Store
begin

text \<open>
  What \<open>FileTaskStore\<close> promises: a directory of task files is a finite map from ids to tasks, each
  operation is an operation on that map, and the parent links stay acyclic, so the walks along
  them end.
\<close>

section \<open>Reading a well-formed directory\<close>

lemma map_of_key: "map_of al k = Some v \<Longrightarrow> k \<in> fst ` set al"
  by (rule rev_image_eqI) (auto dest: map_of_SomeD)

lemma readTask_at:
  assumes "wf_files fs"
  shows "readTask now fs i = Inr (task_at fs i)"
  using docs.stored_read[where fs = fs and i = i and n = "[]" and m = now] assms
  by (auto simp: wf_files_def task_at_def readTask_def split: option.splits)

lemma task_at_Some:
  assumes "wf_files fs" "task_at fs i = Some t"
  shows "t_id t = i" "wf_task t" "i \<in> set (map fst fs)"
  using docs.stored_read[where fs = fs and i = i and n = "[]" and m = "[]"] assms
  by (auto simp: wf_files_def task_at_def split: option.splits dest: map_of_key)

lemma task_at_None:
  assumes "wf_files fs"
  shows "task_at fs i = None \<longleftrightarrow> i \<notin> set (map fst fs)"
  using docs.stored_read[where fs = fs and i = i and n = "[]" and m = "[]"] assms
  by (auto simp: wf_files_def task_at_def map_of_eq_None_iff split: option.splits dest: map_of_key)

definition tasks_of :: "files \<Rightarrow> task list" where
  "tasks_of fs = map (\<lambda>i. the (task_at fs i)) (map fst fs)"

lemma tasks_of_mem:
  assumes "wf_files fs"
  shows "t \<in> set (tasks_of fs) \<longleftrightarrow> task_at fs (t_id t) = Some t"
proof
  assume "t \<in> set (tasks_of fs)"
  then obtain i where i: "i \<in> set (map fst fs)" "t = the (task_at fs i)"
    unfolding tasks_of_def by auto
  then obtain u where "task_at fs i = Some u"
    using task_at_None[OF assms, of i] by (cases "task_at fs i") auto
  then show "task_at fs (t_id t) = Some t"
    using i task_at_Some(1)[OF assms, of i u] by simp
next
  assume t: "task_at fs (t_id t) = Some t"
  then have "t_id t \<in> set (map fst fs)"
    by (rule task_at_Some(3)[OF assms])
  moreover have "t = the (task_at fs (t_id t))"
    using t by simp
  ultimately show "t \<in> set (tasks_of fs)"
    unfolding tasks_of_def set_map by (rule rev_image_eqI)
qed

lemma tasks_of_ids:
  assumes "wf_files fs"
  shows "map t_id (tasks_of fs) = map fst fs"
proof -
  have "t_id (the (task_at fs i)) = i" if "i \<in> set (map fst fs)" for i
    using task_at_None[OF assms, of i] task_at_Some(1)[OF assms, of i] that by (cases "task_at fs i") auto
  then show ?thesis unfolding tasks_of_def by (auto intro!: map_idI simp: map_idI)
qed

lemma distinct_tasks_of: "wf_files fs \<Longrightarrow> distinct (map t_id (tasks_of fs))"
  by (simp add: tasks_of_ids wf_files_def stored_docs_def)

lemma store_list_at:
  assumes "wf_files fs"
  shows "store_list lc now fs = Inr (sort_created lc (tasks_of fs))"
proof -
  have some: "task_at fs i = Some (the (task_at fs i))" if "i \<in> set (map fst fs)" for i
    using task_at_None[OF assms, of i] that by (cases "task_at fs i") auto
  have "eall (map (readTask now fs) (map fst fs)) = Inr (map (task_at fs) (map fst fs))"
    by (rule eall_map_Inr) (rule readTask_at[OF assms])
  note all = this
  have "List.map_filter id (map (task_at fs) is) = map (\<lambda>i. the (task_at fs i)) is"
    if "set is \<subseteq> set (map fst fs)" for "is"
    using that some by (induction "is") (auto simp: List.map_filter_def)
  from this[OF order_refl] have "List.map_filter id (map (task_at fs) (map fst fs)) = tasks_of fs"
    unfolding tasks_of_def .
  with all show ?thesis
    by (simp add: store_list_def del: map_map)
qed

lemma get_or_throw_at:
  assumes "wf_files fs"
  shows "get_or_throw now fs i e = (case task_at fs i of None \<Rightarrow> Inl e | Some t \<Rightarrow> Inr t)"
  by (simp add: get_or_throw_def store_get_def readTask_at[OF assms])

section \<open>Writing\<close>

lemma wf_files_write: "wf_files fs \<Longrightarrow> wf_task t \<Longrightarrow> wf_files (writeTask t fs)"
  unfolding wf_files_def writeTask_def by (rule docs.stored_update)

lemma task_at_write: "wf_task t \<Longrightarrow> task_at (writeTask t fs) = (task_at fs)(t_id t \<mapsto> with_raw t)"
  unfolding task_at_def writeTask_def by (rule docs.doc_at_update)

lemma wf_files_delete: "wf_files fs \<Longrightarrow> wf_files (AList.delete i fs)"
  unfolding wf_files_def by (rule docs.stored_delete)

lemma task_at_delete: "task_at (AList.delete i fs) = (task_at fs)(i := None)"
  unfolding task_at_def by (rule docs.doc_at_delete)

section \<open>Parent links\<close>

definition parent_rel :: "(string \<Rightarrow> task option) \<Rightarrow> (string \<times> string) set" where
  "parent_rel m = {(i, p). \<exists>t. m i = Some t \<and> t_parentId t = Some p}"

definition acyclic_parents :: "files \<Rightarrow> bool" where
  "acyclic_parents fs \<longleftrightarrow> acyclic (parent_rel (task_at fs))"

lemma single_valued_parent_rel: "single_valued (parent_rel m)"
  by (auto simp: single_valued_def parent_rel_def)

lemma parent_rel_dom: "(i, p) \<in> parent_rel m \<Longrightarrow> m i \<noteq> None"
  by (auto simp: parent_rel_def)

lemma finite_parent_rel:
  assumes "wf_files fs"
  shows "finite (parent_rel (task_at fs))"
proof -
  have "parent_rel (task_at fs) \<subseteq> (\<lambda>i. (i, the (t_parentId (the (task_at fs i))))) ` set (map fst fs)"
    using task_at_Some(3)[OF assms] by (force simp: parent_rel_def)
  then show ?thesis by (rule finite_subset) simp
qed

lemma wf_parent_rel:
  "wf_files fs \<Longrightarrow> acyclic_parents fs \<Longrightarrow> wf ((parent_rel (task_at fs))\<inverse>)"
  unfolding acyclic_parents_def by (rule finite_acyclic_wf_converse[OF finite_parent_rel])

text \<open>\<open>xs\<close> is the chain of existing ancestors that starts at the link \<open>current\<close>.\<close>

fun parent_chain :: "(string \<Rightarrow> task option) \<Rightarrow> string option \<Rightarrow> task list \<Rightarrow> bool" where
  "parent_chain m current [] \<longleftrightarrow> (case current of None \<Rightarrow> True | Some p \<Rightarrow> p = [] \<or> m p = None)"
| "parent_chain m current (t # ts) \<longleftrightarrow>
     (\<exists>p. current = Some p \<and> p \<noteq> [] \<and> m p = Some t) \<and> parent_chain m (t_parentId t) ts"

lemma ancestor_loop_chain:
  assumes fs: "wf_files fs" and ac: "acyclic_parents fs"
  shows "\<exists>xs. ancestor_loop now fs current acc = Some (Inr (acc @ xs)) \<and> parent_chain (task_at fs) current xs"
proof -
  have one: "\<exists>xs. ancestor_loop now fs (Some i) acc = Some (Inr (acc @ xs)) \<and>
      parent_chain (task_at fs) (Some i) xs" for i acc
  proof (induction i arbitrary: acc rule: wf_induct_rule[OF wf_parent_rel[OF fs ac]])
    case (1 i)
    note IH = "1"
    note step = ancestor_loop.simps[of now fs "Some i" acc]
    consider "i = []" | "i \<noteq> []" "task_at fs i = None" | t where "i \<noteq> []" "task_at fs i = Some t"
      by (cases "task_at fs i") auto
    then show ?case
    proof cases
      case 3
      have go: "ancestor_loop now fs (Some i) acc = ancestor_loop now fs (t_parentId t) (acc @ [t])"
        using 3 by (simp add: step truthy_def store_get_def readTask_at[OF fs])
      show ?thesis
      proof (cases "t_parentId t")
        case None
        then show ?thesis
          using 3 go by (intro exI[of _ "[t]"]) (simp add: ancestor_loop.simps[of now fs None] truthy_def)
      next
        case (Some p)
        then have "(p, i) \<in> (parent_rel (task_at fs))\<inverse>"
          using 3 by (auto simp: parent_rel_def)
        from IH[OF this, of "acc @ [t]"] obtain xs where
          "ancestor_loop now fs (Some p) (acc @ [t]) = Some (Inr ((acc @ [t]) @ xs))"
          "parent_chain (task_at fs) (Some p) xs" by blast
        then show ?thesis
          using 3 go Some by (intro exI[of _ "t # xs"]) simp
      qed
    next
      case 1
      then have "ancestor_loop now fs (Some i) acc = Some (Inr acc)"
        by (subst step) (simp add: truthy_def)
      with 1 show ?thesis by (intro exI[of _ "[]"]) simp
    next
      case 2
      then have "ancestor_loop now fs (Some i) acc = Some (Inr acc)"
        by (subst step) (simp add: truthy_def store_get_def readTask_at[OF fs])
      with 2 show ?thesis by (intro exI[of _ "[]"]) simp
    qed
  qed
  show ?thesis
  proof (cases current)
    case None
    then show ?thesis by (simp add: ancestor_loop.simps[of now fs None] truthy_def)
  qed (use one in blast)
qed

lemma parent_chain_ids:
  assumes "parent_chain m (Some i) xs" "\<And>j t. m j = Some t \<Longrightarrow> t_id t = j \<and> wf_task t"
    "(i, j) \<in> (parent_rel m)\<^sup>*" "m j \<noteq> None" "i \<noteq> []"
  shows "j \<in> t_id ` set xs"
  using assms(3,1,5)
proof (induction arbitrary: xs rule: converse_rtrancl_induct)
  case base
  then show ?case using assms(2,4) by (cases xs) auto
next
  case (step y z)
  obtain t where t: "m y = Some t" "t_parentId t = Some z"
    using step.hyps(1) by (auto simp: parent_rel_def)
  then obtain ts where xs: "xs = t # ts" "parent_chain m (Some z) ts"
    using step.prems by (cases xs) auto
  have "z \<noteq> []"
    using assms(2)[OF t(1)] t(2) by (simp add: wf_task_def wf_opt_def)
  from step.IH[OF xs(2) this] xs(1) show ?case by simp
qed

lemma parent_chain_reaches:
  assumes "\<And>j t. m j = Some t \<Longrightarrow> t_id t = j"
  shows "parent_chain m (Some i) xs \<Longrightarrow> a \<in> set xs \<Longrightarrow> (i, t_id a) \<in> (parent_rel m)\<^sup>* \<and> m (t_id a) = Some a"
proof (induction xs arbitrary: i)
  case (Cons t ts)
  then have t: "m i = Some t" "t_id t = i" "parent_chain m (t_parentId t) ts"
    using assms by auto
  show ?case
  proof (cases "a = t")
    case False
    then have a: "a \<in> set ts" using Cons.prems(2) by simp
    then obtain p where p: "t_parentId t = Some p"
      using t(3) by (cases ts) auto
    have "(i, p) \<in> parent_rel m" using t(1) p by (auto simp: parent_rel_def)
    moreover have "(p, t_id a) \<in> (parent_rel m)\<^sup>* \<and> m (t_id a) = Some a"
      using Cons.IH[of p] t(3) a p by simp
    ultimately show ?thesis by (meson converse_rtrancl_into_rtrancl)
  qed (use t in simp)
qed simp

lemma ancestors_from:
  assumes fs: "wf_files fs" and ac: "acyclic_parents fs" and p: "p \<noteq> []"
  obtains xs where "getAncestorsFrom now fs p = Some (Inr xs)"
    "\<And>i. task_at fs i \<noteq> None \<Longrightarrow> list_ex (\<lambda>a. t_id a = i) xs \<longleftrightarrow> (p, i) \<in> (parent_rel (task_at fs))\<^sup>*"
proof -
  obtain xs where xs: "getAncestorsFrom now fs p = Some (Inr xs)" "parent_chain (task_at fs) (Some p) xs"
    using ancestor_loop_chain[OF fs ac, of now "Some p" "[]"] unfolding getAncestorsFrom_def by auto
  have "list_ex (\<lambda>a. t_id a = i) xs \<longleftrightarrow> (p, i) \<in> (parent_rel (task_at fs))\<^sup>*"
    if "task_at fs i \<noteq> None" for i
    using parent_chain_ids[OF xs(2) _ _ that p] parent_chain_reaches[OF _ xs(2)] task_at_Some[OF fs]
    unfolding list_ex_iff by blast
  with xs(1) that show thesis by blast
qed

section \<open>The specification\<close>

text \<open>The operations on the map of tasks. \<open>with_raw\<close> records the text that was written.\<close>

type_synonym task_map = "string \<Rightarrow> task option"

datatype store_op =
    Create_op string string create_options
  | Update_op string task_changes
  | Delete_op string
  | Add_dep_op string string
  | Remove_dep_op string string
  | Set_parent_op string "string option"
  | Add_note_op string string
  | Open_op string
  | Start_op string
  | Close_op string
  | Fail_op string
  | Add_criterion_op string string

definition edit :: "task_map \<Rightarrow> string \<Rightarrow> (task \<Rightarrow> task) \<Rightarrow> store_error + task_map" where
  "edit m i f =
     (case m i of None \<Rightarrow> Inl (Task_not_found i) | Some t \<Rightarrow> Inr (m(i \<mapsto> with_raw (f t))))"

fun spec_op :: "string \<Rightarrow> store_op \<Rightarrow> task_map \<Rightarrow> store_error + task_map" where
  "spec_op now (Create_op i title opts) m =
     (if truthy (c_parentId opts) \<and> m (the (c_parentId opts)) = None
      then Inl (Parent_not_found (the (c_parentId opts)))
      else Inr (m(i \<mapsto> with_raw (new_task i now title opts))))"
| "spec_op now (Update_op i h) m = edit m i (\<lambda>t. spread t h)"
| "spec_op now (Delete_op i) m =
     (if m i = None then Inl (Task_not_found i) else Inr (m(i := None)))"
| "spec_op now (Add_dep_op i d) m =
     (case m i of
        None \<Rightarrow> Inl (Task_not_found i)
      | Some t \<Rightarrow>
          if m d = None then Inl (Dependency_not_found d)
          else if d \<in> set (t_deps t) then Inr m
          else edit m i (\<lambda>t. t\<lparr>t_deps := t_deps t @ [d]\<rparr>))"
| "spec_op now (Remove_dep_op i d) m = edit m i (\<lambda>t. t\<lparr>t_deps := filter (\<lambda>e. e \<noteq> d) (t_deps t)\<rparr>)"
| "spec_op now (Set_parent_op i p) m =
     (if m i = None then Inl (Task_not_found i)
      else if truthy p \<and> m (the p) = None then Inl (Parent_not_found (the p))
      else if truthy p \<and> the p = i then Inl Own_parent
      else if truthy p \<and> (the p, i) \<in> (parent_rel m)\<^sup>* then Inl Circular_parent
      else edit m i (\<lambda>t. t\<lparr>t_parentId := p\<rparr>))"
| "spec_op now (Add_note_op i c) m =
     edit m i (\<lambda>t. t\<lparr>t_notes := t_notes t @ [\<lparr>n_timestamp = now, n_content = c\<rparr>]\<rparr>)"
| "spec_op now (Open_op i) m = edit m i (\<lambda>t. t\<lparr>t_status := Open\<rparr>)"
| "spec_op now (Start_op i) m =
     (case m i of
        None \<Rightarrow> Inl (Task_not_found i)
      | Some t \<Rightarrow>
          if t_status t \<noteq> Open then Inl (Cannot_start (t_status t))
          else edit m i (\<lambda>t. t\<lparr>t_status := In_progress\<rparr>))"
| "spec_op now (Close_op i) m = edit m i (\<lambda>t. t\<lparr>t_status := Done\<rparr>)"
| "spec_op now (Fail_op i) m = edit m i (\<lambda>t. t\<lparr>t_status := Failed\<rparr>)"
| "spec_op now (Add_criterion_op i c) m =
     edit m i (\<lambda>t. t\<lparr>t_acceptanceCriteria := t_acceptanceCriteria t @ [c]\<rparr>)"

text \<open>The same operations on the directory.\<close>

fun run_op :: "string \<Rightarrow> store_op \<Rightarrow> files \<Rightarrow> (store_error + files) option" where
  "run_op now (Create_op i title opts) fs =
     Some (ebind (store_create i now title opts fs) (\<lambda>(fs', _). Inr fs'))"
| "run_op now (Update_op i h) fs = Some (ebind (store_update now i h fs) (\<lambda>(fs', _). Inr fs'))"
| "run_op now (Delete_op i) fs = Some (store_delete now i fs)"
| "run_op now (Add_dep_op i d) fs = Some (addDep now i d fs)"
| "run_op now (Remove_dep_op i d) fs = Some (removeDep now i d fs)"
| "run_op now (Set_parent_op i p) fs = setParent now i p fs"
| "run_op now (Add_note_op i c) fs = Some (addNote now i c fs)"
| "run_op now (Open_op i) fs = Some (store_open now i fs)"
| "run_op now (Start_op i) fs = Some (store_start now i fs)"
| "run_op now (Close_op i) fs = Some (store_close now i fs)"
| "run_op now (Fail_op i) fs = Some (store_fail now i fs)"
| "run_op now (Add_criterion_op i c) fs = Some (addAcceptanceCriteria now i c fs)"

text \<open>
  The inputs the document format can hold: values that survive being written to a file. A new
  id is one that no task or parent link uses, and \<open>update\<close> does not move a task.
\<close>

fun op_ok :: "string \<Rightarrow> task_map \<Rightarrow> store_op \<Rightarrow> bool" where
  "op_ok now m (Create_op i title opts) \<longleftrightarrow>
     wf_task (new_task i now title opts) \<and> m i = None \<and> i \<notin> Range (parent_rel m)
     \<and> c_parentId opts \<noteq> Some i"
| "op_ok now m (Update_op i h) \<longleftrightarrow>
     h_parentId h = None \<and> (case m i of None \<Rightarrow> True | Some t \<Rightarrow> wf_task (spread t h))"
| "op_ok now m (Add_dep_op i d) \<longleftrightarrow> wf_dep d"
| "op_ok now m (Set_parent_op i p) \<longleftrightarrow> wf_opt p"
| "op_ok now m (Add_note_op i c) \<longleftrightarrow> wf_note \<lparr>n_timestamp = now, n_content = c\<rparr>"
| "op_ok now m (Add_criterion_op i c) \<longleftrightarrow> wf_criterion c"
| "op_ok now m _ \<longleftrightarrow> True"

section \<open>Each operation refines its specification\<close>

text \<open>The result \<open>r\<close> of an operation on the directory implements the result \<open>m\<close> on the map.\<close>

definition refines :: "(store_error + files) option \<Rightarrow> store_error + task_map \<Rightarrow> bool" where
  "refines r m \<longleftrightarrow>
     (case r of
        None \<Rightarrow> False
      | Some (Inl e) \<Rightarrow> m = Inl e
      | Some (Inr fs) \<Rightarrow> wf_files fs \<and> m = Inr (task_at fs))"

lemma refines_simps [simp]:
  "refines (Some (Inl e)) m \<longleftrightarrow> m = Inl e"
  "refines (Some (Inr fs)) m \<longleftrightarrow> wf_files fs \<and> m = Inr (task_at fs)"
  by (simp_all add: refines_def)

lemma spread_id [simp]: "t_id (spread t h) = t_id t"
  by (simp add: spread_def)

lemma spread_cases [simp]:
  "spread t (no_changes\<lparr>h_status := Some st\<rparr>) = t\<lparr>t_status := st\<rparr>"
  "spread t (no_changes\<lparr>h_parentId := Some p\<rparr>) = t\<lparr>t_parentId := p\<rparr>"
  by (simp_all add: spread_def no_changes_def or_else_def)

lemma refines_edit:
  assumes "wf_files fs" "\<And>t. task_at fs i = Some t \<Longrightarrow> wf_task (f t) \<and> t_id (f t) = i"
  shows "refines (Some (ebind (the_task now fs i) (\<lambda>t. Inr (writeTask (f t) fs)))) (edit (task_at fs) i f)"
proof (cases "task_at fs i")
  case None
  then show ?thesis by (simp add: get_or_throw_at[OF assms(1)] edit_def)
next
  case (Some t)
  then have "wf_task (f t)" "t_id (f t) = i" using assms(2) by auto
  then show ?thesis
    using Some wf_files_write[OF assms(1)] by (simp add: get_or_throw_at[OF assms(1)] edit_def task_at_write)
qed

lemma refines_set_status:
  assumes "wf_files fs" "wf_status st"
  shows "refines (Some (set_status now i st fs)) (edit (task_at fs) i (\<lambda>t. t\<lparr>t_status := st\<rparr>))"
proof -
  have "set_status now i st fs = ebind (the_task now fs i) (\<lambda>t. Inr (writeTask (t\<lparr>t_status := st\<rparr>) fs))"
    by (cases "the_task now fs i") (simp_all add: set_status_def store_update_def Let_def)
  moreover have "wf_task (t\<lparr>t_status := st\<rparr>) \<and> t_id (t\<lparr>t_status := st\<rparr>) = i" if "task_at fs i = Some t" for t
    using task_at_Some[OF assms(1) that] assms(2) by (simp add: wf_task_def)
  ultimately show ?thesis using refines_edit[OF assms(1)] by simp
qed

lemma refines_set_parent:
  assumes "wf_files fs" "wf_opt p"
  shows "refines (Some (set_parent_field now i p fs)) (edit (task_at fs) i (\<lambda>t. t\<lparr>t_parentId := p\<rparr>))"
proof -
  have "set_parent_field now i p fs = ebind (the_task now fs i) (\<lambda>t. Inr (writeTask (t\<lparr>t_parentId := p\<rparr>) fs))"
    by (cases "the_task now fs i") (simp_all add: set_parent_field_def store_update_def Let_def)
  moreover have "wf_task (t\<lparr>t_parentId := p\<rparr>) \<and> t_id (t\<lparr>t_parentId := p\<rparr>) = i" if "task_at fs i = Some t" for t
    using task_at_Some[OF assms(1) that] assms(2) by (simp add: wf_task_def)
  ultimately show ?thesis using refines_edit[OF assms(1)] by simp
qed

lemma refines_setParent:
  assumes fs: "wf_files fs" and ac: "acyclic_parents fs" and p: "wf_opt p"
  shows "refines (setParent now i p fs) (spec_op now (Set_parent_op i p) (task_at fs))"
proof (cases "task_at fs i")
  case None
  then show ?thesis by (simp add: setParent_def get_or_throw_at[OF fs])
next
  case (Some t)
  note i = Some
  show ?thesis
  proof (cases "truthy p")
    case False
    then show ?thesis
      using i refines_set_parent[OF fs p] by (simp add: setParent_def get_or_throw_at[OF fs])
  next
    case True
    then obtain q where q: "p = Some q" "q \<noteq> []"
      by (auto simp: truthy_def split: option.splits)
    obtain xs where xs: "getAncestorsFrom now fs q = Some (Inr xs)"
      "list_ex (\<lambda>a. t_id a = i) xs \<longleftrightarrow> (q, i) \<in> (parent_rel (task_at fs))\<^sup>*"
      using ancestors_from[OF fs ac q(2), of now] i by (metis option.distinct(1))
    show ?thesis
      using i True q xs refines_set_parent[OF fs p, of now i]
      by (cases "task_at fs q") (simp_all add: setParent_def get_or_throw_at[OF fs] Let_def)
  qed
qed

lemma refines_create:
  assumes "wf_files fs" "wf_task (new_task i now title opts)"
  shows "refines (run_op now (Create_op i title opts) fs) (spec_op now (Create_op i title opts) (task_at fs))"
proof -
  let ?t = "new_task i now title opts"
  have i: "t_id ?t = i" by (simp add: new_task_def)
  have wf: "wf_files (writeTask ?t fs)" by (rule wf_files_write[OF assms])
  have ok: "(let fs' = writeTask ?t fs in ebind (store_get now fs' i) (\<lambda>saved. Inr (fs', saved)))
      = Inr (writeTask ?t fs, Some (with_raw ?t))"
    by (simp add: Let_def store_get_def readTask_at[OF wf] task_at_write[OF assms(2)] i)
  show ?thesis
  proof (cases "truthy (c_parentId opts) \<and> task_at fs (the (c_parentId opts)) = None")
    case True
    then show ?thesis by (simp add: store_create_def get_or_throw_at[OF assms(1)])
  next
    case False
    then have "store_create i now title opts fs = Inr (writeTask ?t fs, Some (with_raw ?t))"
      unfolding store_create_def ok by (auto simp: get_or_throw_at[OF assms(1)])
    then show ?thesis
      using False wf by (auto simp: task_at_write[OF assms(2)] i)
  qed
qed

lemma wf_dep_task:
  assumes "wf_files fs" "task_at fs i = Some t" "wf_dep d"
  shows "wf_task (t\<lparr>t_deps := t_deps t @ [d]\<rparr>)"
  using task_at_Some[OF assms(1,2)] assms(3) by (simp add: wf_task_def)

lemma refines_addDep:
  assumes fs: "wf_files fs" and d: "wf_dep d"
  shows "refines (Some (addDep now i d fs)) (spec_op now (Add_dep_op i d) (task_at fs))"
proof (cases "task_at fs i")
  case (Some t)
  note fd = task_at_write[OF wf_dep_task[OF fs Some d]] wf_files_write[OF fs wf_dep_task[OF fs Some d]]
  show ?thesis
    using Some task_at_Some(1)[OF fs Some] fd fs
    by (cases "task_at fs d") (simp_all add: addDep_def get_or_throw_at[OF fs] edit_def)
qed (simp add: addDep_def get_or_throw_at[OF fs])

lemma run_op_refines:
  assumes fs: "wf_files fs" and ac: "acyclic_parents fs" and ok: "op_ok now (task_at fs) op"
  shows "refines (run_op now op fs) (spec_op now op (task_at fs))"
proof -
  have wf: "t_id t = i \<and> wf_task t" if "task_at fs i = Some t" for i t
    using task_at_Some[OF fs that] by simp
  have status: "refines (Some (ebind (the_task now fs i) (\<lambda>_. set_status now i st fs)))
      (edit (task_at fs) i (\<lambda>t. t\<lparr>t_status := st\<rparr>))" if "wf_status st" for i st
    using refines_set_status[OF fs that, of now i]
    by (cases "task_at fs i") (simp_all add: get_or_throw_at[OF fs] edit_def)
  show ?thesis
  proof (cases op)
    case (Create_op i title opts)
    then show ?thesis using refines_create[OF fs] ok by simp
  next
    case (Update_op i h)
    have "ebind (store_update now i h fs) (\<lambda>(fs', _). Inr fs') =
        ebind (the_task now fs i) (\<lambda>t. Inr (writeTask (spread t h) fs))"
      by (cases "the_task now fs i") (simp_all add: store_update_def Let_def)
    moreover have "wf_task (spread t h) \<and> t_id (spread t h) = i" if "task_at fs i = Some t" for t
      using ok wf[OF that] that Update_op by simp
    ultimately show ?thesis using Update_op refines_edit[OF fs] by simp
  next
    case (Delete_op i)
    then show ?thesis
      using wf_files_delete[OF fs] task_at_delete[of i fs]
      by (cases "task_at fs i") (simp_all add: store_delete_def get_or_throw_at[OF fs])
  next
    case (Add_dep_op i d)
    then show ?thesis using refines_addDep[OF fs] ok by simp
  next
    case (Remove_dep_op i d)
    have "wf_task (t\<lparr>t_deps := filter (\<lambda>e. e \<noteq> d) (t_deps t)\<rparr>)" if "task_at fs i = Some t" for t
      using wf[OF that] by (auto simp: wf_task_def list_all_iff)
    then show ?thesis
      using wf Remove_dep_op by (auto simp: removeDep_def intro!: refines_edit[OF fs])
  next
    case (Set_parent_op i p)
    then show ?thesis using refines_setParent[OF fs ac] ok by simp
  next
    case (Add_note_op i c)
    have "wf_task (t\<lparr>t_notes := t_notes t @ [\<lparr>n_timestamp = now, n_content = c\<rparr>]\<rparr>)"
      if "task_at fs i = Some t" for t
      using wf[OF that] ok Add_note_op by (auto simp: wf_task_def)
    then show ?thesis
      using wf Add_note_op by (auto simp: addNote_def intro!: refines_edit[OF fs])
  next
    case (Start_op i)
    then show ?thesis
      using refines_set_status[OF fs, of In_progress now i]
      by (cases "task_at fs i") (simp_all add: store_start_def get_or_throw_at[OF fs] wf_status_def)
  next
    case (Add_criterion_op i c)
    have "wf_task (t\<lparr>t_acceptanceCriteria := t_acceptanceCriteria t @ [c]\<rparr>)"
      if "task_at fs i = Some t" for t
      using wf[OF that] ok Add_criterion_op by (auto simp: wf_task_def)
    then show ?thesis
      using wf Add_criterion_op by (auto simp: addAcceptanceCriteria_def intro!: refines_edit[OF fs])
  qed (use status in \<open>simp_all add: store_open_def store_close_def store_fail_def wf_status_def\<close>)
qed

section \<open>Parent links stay acyclic\<close>

lemma parent_rel_update:
  "parent_rel (m(i \<mapsto> t)) \<subseteq>
   (case t_parentId t of None \<Rightarrow> parent_rel m | Some p \<Rightarrow> insert (i, p) (parent_rel m))"
  by (auto simp: parent_rel_def split: option.splits if_splits)

lemma parent_rel_edit_same:
  assumes "m i = Some u" "t_parentId t = t_parentId u"
  shows "parent_rel (m(i \<mapsto> t)) = parent_rel m"
  using assms by (auto simp: parent_rel_def split: if_splits)

lemma parent_rel_delete: "parent_rel (m(i := None)) \<subseteq> parent_rel m"
  by (auto simp: parent_rel_def split: if_splits)

lemma acyclic_edit_same:
  assumes "acyclic (parent_rel m)" "edit m i f = Inr m'"
    "\<And>t. m i = Some t \<Longrightarrow> t_parentId (f t) = t_parentId t"
  shows "acyclic (parent_rel m')"
proof -
  obtain t where t: "m i = Some t" "m' = m(i \<mapsto> with_raw (f t))"
    using assms(2) by (auto simp: edit_def split: option.splits)
  then have "parent_rel m' = parent_rel m"
    using assms(3) by (simp add: parent_rel_edit_same with_raw_def)
  with assms(1) show ?thesis by simp
qed

lemma acyclic_set_parent:
  assumes ac: "acyclic (parent_rel m)" and r: "spec_op now (Set_parent_op i p) m = Inr m'"
    and ok: "wf_opt p"
  shows "acyclic (parent_rel m')"
proof -
  obtain t where t: "m i = Some t" "m' = m(i \<mapsto> with_raw (t\<lparr>t_parentId := p\<rparr>))"
    using r by (auto simp: edit_def split: option.splits if_splits)
  have sub: "parent_rel m' \<subseteq> (case p of None \<Rightarrow> parent_rel m | Some q \<Rightarrow> insert (i, q) (parent_rel m))"
    using parent_rel_update[of m i "with_raw (t\<lparr>t_parentId := p\<rparr>)"] t by (simp add: with_raw_def)
  show ?thesis
  proof (cases p)
    case None
    then show ?thesis using sub ac by (auto intro: acyclic_subset)
  next
    case (Some q)
    then have "q \<noteq> []" using ok by (simp add: wf_opt_def)
    then have "(q, i) \<notin> (parent_rel m)\<^sup>*"
      using r Some t(1) by (auto simp: truthy_def split: if_splits)
    then have "acyclic (insert (i, q) (parent_rel m))"
      using ac by (simp add: acyclic_insert)
    then show ?thesis using sub Some by (auto intro: acyclic_subset)
  qed
qed

lemma acyclic_create:
  assumes ac: "acyclic (parent_rel m)" and fresh: "i \<notin> Range (parent_rel m)" "t_parentId t \<noteq> Some i"
  shows "acyclic (parent_rel (m(i \<mapsto> t)))"
proof (cases "t_parentId t")
  case None
  then show ?thesis using parent_rel_update[of m i t] ac by (auto intro: acyclic_subset)
next
  case (Some p)
  have "(p, i) \<notin> (parent_rel m)\<^sup>*"
  proof
    assume "(p, i) \<in> (parent_rel m)\<^sup>*"
    then show False
      using fresh Some by (cases rule: rtranclE) auto
  qed
  then have "acyclic (insert (i, p) (parent_rel m))"
    using ac by (simp add: acyclic_insert)
  then show ?thesis using parent_rel_update[of m i t] Some by (auto intro: acyclic_subset)
qed

lemma spec_op_acyclic:
  assumes ac: "acyclic (parent_rel m)" and ok: "op_ok now m op" and r: "spec_op now op m = Inr m'"
  shows "acyclic (parent_rel m')"
proof (cases op)
  case (Create_op i title opts)
  then have "m' = m(i \<mapsto> with_raw (new_task i now title opts))"
    using r by (simp split: if_splits)
  moreover have "t_parentId (with_raw (new_task i now title opts)) = c_parentId opts"
    by (simp add: with_raw_def new_task_def)
  ultimately show ?thesis using acyclic_create[OF ac] ok Create_op by simp
next
  case (Update_op i h)
  then have "t_parentId (spread t h) = t_parentId t" for t
    using ok by (simp add: spread_def or_else_def)
  then show ?thesis using Update_op r acyclic_edit_same[OF ac] by simp
next
  case (Delete_op i)
  then show ?thesis
    using r acyclic_subset[OF ac parent_rel_delete[of m i]] by (auto split: if_splits)
next
  case (Add_dep_op i d)
  have "m' = m \<or> edit m i (\<lambda>t. t\<lparr>t_deps := t_deps t @ [d]\<rparr>) = Inr m'"
    using r Add_dep_op by (auto split: option.splits if_splits)
  then show ?thesis
    using ac acyclic_edit_same[OF ac, of i "\<lambda>t. t\<lparr>t_deps := t_deps t @ [d]\<rparr>" m'] by auto
next
  case (Set_parent_op i p)
  then show ?thesis using acyclic_set_parent[OF ac, of now i p m'] r ok by simp
next
  case (Start_op i)
  have "edit m i (\<lambda>t. t\<lparr>t_status := In_progress\<rparr>) = Inr m'"
    using r Start_op by (auto split: option.splits if_splits)
  from acyclic_edit_same[OF ac this] show ?thesis by simp
qed (use r acyclic_edit_same[OF ac] in auto)

section \<open>Descendants\<close>

definition descendants :: "files \<Rightarrow> string \<Rightarrow> string set" where
  "descendants fs i = {j. (j, i) \<in> (parent_rel (task_at fs))\<^sup>+}"

definition family :: "files \<Rightarrow> string \<Rightarrow> string set" where
  "family fs i = {j. (j, i) \<in> (parent_rel (task_at fs))\<^sup>*}"

lemma family_alt: "family fs i = insert i (descendants fs i)"
  by (auto simp: family_def descendants_def rtrancl_eq_or_trancl)

lemma descendants_dom: "wf_files fs \<Longrightarrow> descendants fs i \<subseteq> set (map fst fs)"
proof
  fix j assume fs: "wf_files fs" and "j \<in> descendants fs i"
  then have "(j, i) \<in> (parent_rel (task_at fs))\<^sup>+" by (simp add: descendants_def)
  then obtain k where "(j, k) \<in> parent_rel (task_at fs)" by (meson tranclD)
  then show "j \<in> set (map fst fs)"
    using parent_rel_dom task_at_None[OF fs] by metis
qed

lemma finite_descendants: "wf_files fs \<Longrightarrow> finite (descendants fs i)"
  using descendants_dom finite_subset by blast

lemma getChildren_at:
  assumes fs: "wf_files fs"
  obtains cs where "getChildren lc now fs i = Inr cs" "distinct (map t_id cs)"
    "set cs = {t. task_at fs (t_id t) = Some t \<and> t_parentId t = Some i}"
proof
  let ?cs = "sort_tasks lc (filter (\<lambda>t. t_parentId t = Some i) (sort_created lc (tasks_of fs)))"
  show "getChildren lc now fs i = Inr ?cs"
    by (simp add: getChildren_def store_list_at[OF fs])
  have "mset (map t_id ?cs) = mset (map t_id (filter (\<lambda>t. t_parentId t = Some i) (tasks_of fs)))"
    by (simp add: sort_tasks_def sort_created_def)
  moreover have "distinct (map t_id (filter (\<lambda>t. t_parentId t = Some i) (tasks_of fs)))"
    by (rule distinct_map_filter[OF distinct_tasks_of[OF fs]])
  ultimately show "distinct (map t_id ?cs)" by (metis mset_eq_imp_distinct_iff)
  show "set ?cs = {t. task_at fs (t_id t) = Some t \<and> t_parentId t = Some i}"
    by (auto simp: sort_tasks_def sort_created_def tasks_of_mem[OF fs])
qed

lemma child_rel: "task_at fs (t_id t) = Some t \<Longrightarrow> t_parentId t = Some i \<Longrightarrow> (t_id t, i) \<in> parent_rel (task_at fs)"
  by (auto simp: parent_rel_def)

lemma child_smaller:
  assumes fs: "wf_files fs" and ac: "acyclic_parents fs" and c: "(c, i) \<in> parent_rel (task_at fs)"
  shows "card (descendants fs c) < card (descendants fs i)"
proof (rule psubset_card_mono[OF finite_descendants[OF fs]])
  have "descendants fs c \<subseteq> descendants fs i"
    using c by (auto simp: descendants_def intro: trancl_into_trancl)
  moreover have "c \<in> descendants fs i" using c by (auto simp: descendants_def)
  moreover have "c \<notin> descendants fs c"
    using ac by (simp add: descendants_def acyclic_parents_def acyclic_def)
  ultimately show "descendants fs c \<subset> descendants fs i" by blast
qed

text \<open>Siblings have no descendant in common: a task has one parent.\<close>

lemma families_disjoint:
  assumes ac: "acyclic_parents fs" and r: "(c, i) \<in> parent_rel (task_at fs)" "(d, i) \<in> parent_rel (task_at fs)"
    and "c \<noteq> d"
  shows "family fs c \<inter> family fs d = {}"
proof (rule ccontr)
  let ?r = "parent_rel (task_at fs)"
  assume "\<not> ?thesis"
  then obtain x where x: "(x, c) \<in> ?r\<^sup>*" "(x, d) \<in> ?r\<^sup>*" by (auto simp: family_def)
  have no: False if "(a, b) \<in> ?r\<^sup>*" "a \<noteq> b" "(a, i) \<in> ?r" "(b, i) \<in> ?r" for a b
  proof -
    obtain k where "(a, k) \<in> ?r" "(k, b) \<in> ?r\<^sup>*"
      using \<open>(a, b) \<in> ?r\<^sup>*\<close> \<open>a \<noteq> b\<close> by (meson converse_rtranclE)
    moreover from this have "k = i"
      using \<open>(a, i) \<in> ?r\<close> single_valuedD[OF single_valued_parent_rel] by metis
    ultimately have "(i, i) \<in> ?r\<^sup>+"
      using \<open>(b, i) \<in> ?r\<close> by simp
    then show False using ac by (simp add: acyclic_parents_def acyclic_def)
  qed
  have "(c, d) \<in> ?r\<^sup>* \<or> (d, c) \<in> ?r\<^sup>*"
    using x single_valued_parent_rel by (rule single_valued_confluent[rotated])
  then show False using no r \<open>c \<noteq> d\<close> by metis
qed

lemma descendants_children:
  "descendants fs i = (\<Union>c \<in> {c. (c, i) \<in> parent_rel (task_at fs)}. family fs c)"
proof -
  have "(j, i) \<in> r\<^sup>+ \<longleftrightarrow> (\<exists>c. (c, i) \<in> r \<and> (j, c) \<in> r\<^sup>*)" for j and r :: "(string \<times> string) set"
    by (meson rtrancl_into_trancl1 tranclD2)
  then show ?thesis by (auto simp: descendants_def family_def)
qed

text \<open>What a traversal that starts from \<open>result\<close> and covers the ids \<open>ids\<close> returns.\<close>

definition covers :: "files \<Rightarrow> (store_error + task list) option \<Rightarrow> task list \<Rightarrow> string set \<Rightarrow> bool" where
  "covers fs r result ids \<longleftrightarrow>
     (\<exists>ts. r = Some (Inr (result @ ts)) \<and> distinct (map t_id ts) \<and> set (map t_id ts) = ids
        \<and> (\<forall>t \<in> set ts. task_at fs (t_id t) = Some t))"

lemma desc_loop_covers:
  assumes fs: "wf_files fs" and ac: "acyclic_parents fs"
    and sub: "\<And>c result. c \<in> set cs \<Longrightarrow>
      covers fs (desc_traverse n lc now fs (t_id c) result) result (descendants fs (t_id c))"
    and cs: "distinct (map t_id cs)"
      "\<And>c. c \<in> set cs \<Longrightarrow> task_at fs (t_id c) = Some c \<and> (t_id c, i) \<in> parent_rel (task_at fs)"
  shows "covers fs (desc_loop n lc now fs cs result) result (\<Union>c \<in> set cs. family fs (t_id c))"
  using sub cs
proof (induction cs arbitrary: result)
  case Nil
  then show ?case by (simp add: covers_def)
next
  case (Cons c cs)
  obtain ts where ts: "desc_traverse n lc now fs (t_id c) (result @ [c]) = Some (Inr ((result @ [c]) @ ts))"
    "distinct (map t_id ts)" "set (map t_id ts) = descendants fs (t_id c)"
    "\<forall>t \<in> set ts. task_at fs (t_id t) = Some t"
    using Cons.prems(1)[of c "result @ [c]"] by (auto simp: covers_def)
  have "covers fs (desc_loop n lc now fs cs (result @ [c] @ ts)) (result @ [c] @ ts)
      (\<Union>c \<in> set cs. family fs (t_id c))"
    using Cons.prems by (intro Cons.IH) auto
  then obtain us where us: "desc_loop n lc now fs cs (result @ [c] @ ts) = Some (Inr ((result @ [c] @ ts) @ us))"
    "distinct (map t_id us)" "set (map t_id us) = (\<Union>c \<in> set cs. family fs (t_id c))"
    "\<forall>t \<in> set us. task_at fs (t_id t) = Some t"
    by (auto simp: covers_def)
  have c: "task_at fs (t_id c) = Some c" "(t_id c, i) \<in> parent_rel (task_at fs)"
    using Cons.prems(3) by auto
  have "family fs (t_id c) \<inter> family fs (t_id d) = {}" if "d \<in> set cs" for d
    using families_disjoint[OF ac c(2), of "t_id d"] Cons.prems(2,3) that by force
  then have "family fs (t_id c) \<inter> set (map t_id us) = {}" unfolding us(3) by blast
  moreover have "t_id c \<notin> descendants fs (t_id c)"
    using ac by (simp add: descendants_def acyclic_parents_def acyclic_def)
  ultimately have "distinct (map t_id ([c] @ ts @ us))"
    using ts(2,3) us(2) unfolding family_alt by auto
  moreover have "set (map t_id ([c] @ ts @ us)) = (\<Union>c \<in> set (c # cs). family fs (t_id c))"
    using ts(3) us(3) unfolding family_alt by auto
  ultimately show ?case
    unfolding covers_def using ts(1,4) us(1,4) c(1)
    by (intro exI[of _ "[c] @ ts @ us"]) auto
qed

lemma desc_traverse_covers:
  assumes fs: "wf_files fs" and ac: "acyclic_parents fs"
  shows "card (descendants fs i) < n \<Longrightarrow>
    covers fs (desc_traverse n lc now fs i result) result (descendants fs i)"
proof (induction n arbitrary: i result)
  case (Suc n)
  obtain cs where cs: "getChildren lc now fs i = Inr cs" "distinct (map t_id cs)"
    "set cs = {t. task_at fs (t_id t) = Some t \<and> t_parentId t = Some i}"
    by (rule getChildren_at[OF fs])
  have child: "task_at fs (t_id c) = Some c \<and> (t_id c, i) \<in> parent_rel (task_at fs)" if "c \<in> set cs" for c
    using that cs(3) child_rel by blast
  have "card (descendants fs (t_id c)) < n" if "c \<in> set cs" for c
    using child_smaller[OF fs ac] child[OF that] Suc.prems by (meson less_Suc_eq_le order_less_le_trans)
  then have "covers fs (desc_loop n lc now fs cs result) result (\<Union>c \<in> set cs. family fs (t_id c))"
    using Suc.IH child by (intro desc_loop_covers[OF fs ac _ cs(2)]) auto
  moreover have "t_id ` set cs = {c. (c, i) \<in> parent_rel (task_at fs)}"
  proof -
    have "c \<in> t_id ` set cs" if rel: "(c, i) \<in> parent_rel (task_at fs)" for c
    proof -
      obtain t where t: "task_at fs c = Some t" "t_parentId t = Some i"
        using rel by (auto simp: parent_rel_def)
      then have "t_id t = c" using task_at_Some(1)[OF fs] by blast
      with t have "t \<in> set cs" unfolding cs(3) by simp
      with \<open>t_id t = c\<close> show ?thesis by blast
    qed
    then show ?thesis using child by blast
  qed
  then have "(\<Union>c \<in> set cs. family fs (t_id c)) = descendants fs i"
    unfolding descendants_children by (metis image_image)
  ultimately show ?case using cs(1) by simp
qed simp

section \<open>Scoped graphs\<close>

definition scope_ids :: "files \<Rightarrow> string option \<Rightarrow> string set" where
  "scope_ids fs scopeId =
     (if truthy scopeId
      then {i \<in> family fs (the scopeId). i \<in> set (map fst fs)}
      else set (map fst fs))"

lemma store_graph_wf:
  assumes fs: "wf_files fs" and ac: "acyclic_parents fs" and n: "length fs < n"
  obtains g where "store_graph n lc now fs scopeId = Some (Inr g)" "wf_graph g"
    "set (g_allTasks g) = set (tasks_of fs)" "set (map t_id (g_candidates g)) = scope_ids fs scopeId"
proof -
  let ?all = "sort_created lc (tasks_of fs)"
  have "mset (map t_id ?all) = mset (map t_id (tasks_of fs))"
    by (simp add: sort_created_def)
  then have dist: "distinct (map t_id ?all)"
    using distinct_tasks_of[OF fs] by (metis mset_eq_imp_distinct_iff)
  have set_all: "set ?all = set (tasks_of fs)"
    by (simp add: sort_created_def)
  have ids: "set (map t_id ?all) = set (map fst fs)"
    using tasks_of_ids[OF fs] set_all by (metis list.set_map)
  show thesis
  proof (cases "truthy scopeId")
    case False
    then have "store_graph n lc now fs scopeId = Some (Inr (make_graph ?all ?all))"
      by (simp add: store_graph_def loadScopedTaskGraph_def loadScopedCandidates_def store_list_at[OF fs])
    then show thesis
    proof (rule that)
      show "wf_graph (make_graph ?all ?all)" by (rule wf_make_graph[OF dist])
    qed (use set_all ids False in \<open>simp_all add: make_graph_def scope_ids_def\<close>)
  next
    case True
    then obtain i where i: "scopeId = Some i"
      by (auto simp: truthy_def split: option.splits)
    have "card (descendants fs i) \<le> card (set (map fst fs))"
      by (rule card_mono[OF _ descendants_dom[OF fs]]) simp
    also have "\<dots> \<le> length fs" using card_length[of "map fst fs"] by simp
    finally have "card (descendants fs i) < n" using n by simp
    from desc_traverse_covers[OF fs ac this, of lc now "[]"]
    obtain ts where ts: "getDescendants n lc now fs i = Some (Inr ts)" "distinct (map t_id ts)"
      "set (map t_id ts) = descendants fs i" "\<forall>t \<in> set ts. task_at fs (t_id t) = Some t"
      unfolding getDescendants_def covers_def by auto
    let ?cand = "case task_at fs i of None \<Rightarrow> ts | Some t \<Rightarrow> t # ts"
    have g: "store_graph n lc now fs scopeId = Some (Inr (make_graph ?all ?cand))"
      using True by (simp add: i store_graph_def loadScopedTaskGraph_def loadScopedCandidates_def
          store_list_at[OF fs] store_get_def readTask_at[OF fs] ts(1))
    have "i \<notin> descendants fs i"
      using ac by (simp add: descendants_def acyclic_parents_def acyclic_def)
    then have "distinct (map t_id ?cand)"
      using ts(2,3) task_at_Some(1)[OF fs] by (auto split: option.split)
    moreover have "set ?cand \<subseteq> set ?all"
    proof
      fix u assume "u \<in> set ?cand"
      then have "task_at fs (t_id u) = Some u"
        using ts(4) task_at_Some(1)[OF fs, of i] by (auto split: option.splits)
      then show "u \<in> set ?all" unfolding set_all by (simp only: tasks_of_mem[OF fs])
    qed
    ultimately have "wf_graph (make_graph ?all ?cand)"
      using dist unfolding wf_graph_def by (simp add: make_graph_def)
    moreover have "set (map t_id ?cand) = scope_ids fs scopeId"
      using ts(3) descendants_dom[OF fs, of i] task_at_None[OF fs, of i] task_at_Some(1)[OF fs, of i] True
      unfolding i scope_ids_def family_alt by (auto split: option.splits)
    ultimately show thesis
      using that[OF g] set_all by (simp add: make_graph_def)
  qed
qed

section \<open>Ready tasks\<close>

text \<open>
  A task is ready when it is open, each dependency exists and is done, and each child is done.
\<close>

definition ready_task :: "files \<Rightarrow> task \<Rightarrow> bool" where
  "ready_task fs t \<longleftrightarrow>
     t_status t = Open
     \<and> (\<forall>d \<in> set (t_deps t). \<exists>u. task_at fs d = Some u \<and> t_status u = Done)
     \<and> (\<forall>c u. task_at fs c = Some u \<longrightarrow> t_parentId u = Some (t_id t) \<longrightarrow> t_status u = Done)"

lemma graph_ready:
  assumes fs: "wf_files fs" and g: "wf_graph g" "set (g_allTasks g) = set (tasks_of fs)"
    and t: "task_at fs (t_id t) = Some t"
  shows "isReadyTask g t \<longleftrightarrow> ready_task fs t"
proof -
  have mem: "u \<in> set (g_allTasks g) \<longleftrightarrow> task_at fs (t_id u) = Some u" for u
    unfolding g(2) by (rule tasks_of_mem[OF fs])
  have dn: "d \<in> set (g_doneTaskIds g) \<longleftrightarrow> (\<exists>u. task_at fs d = Some u \<and> t_status u = Done)" for d
    unfolding wf_graph_indexes(4)[OF g(1)] using mem task_at_Some(1)[OF fs] by (auto simp: image_iff)
  have ex: "map_of (g_taskMap g) d \<noteq> None \<longleftrightarrow> task_at fs d \<noteq> None" for d
  proof -
    have "d \<in> t_id ` set (g_allTasks g) \<longleftrightarrow> task_at fs d \<noteq> None"
    proof
      assume "d \<in> t_id ` set (g_allTasks g)"
      then show "task_at fs d \<noteq> None" using mem by auto
    next
      assume "task_at fs d \<noteq> None"
      then obtain u where u: "task_at fs d = Some u" by blast
      then have "t_id u = d" by (rule task_at_Some(1)[OF fs])
      with u mem have "u \<in> set (g_allTasks g)" by simp
      with \<open>t_id u = d\<close> show "d \<in> t_id ` set (g_allTasks g)" by blast
    qed
    then show ?thesis
      by (simp only: wf_graph_indexes(1)[OF g(1)] taskMap_None not_not)
  qed
  have deps: "areTaskDepsDone g t (g_doneTaskIds g) \<longleftrightarrow>
      (\<forall>d \<in> set (t_deps t). \<exists>u. task_at fs d = Some u \<and> t_status u = Done)"
    unfolding areTaskDepsDone_def list_all_iff ex dn by auto
  have parent: "p \<noteq> []" if "task_at fs c = Some u" "t_parentId u = Some p" for c u p
    using task_at_Some(2)[OF fs that(1)] that(2) by (simp add: wf_task_def wf_opt_def)
  have "areTaskChildrenDone g (t_id t) (g_doneTaskIds g) False \<longleftrightarrow>
      (\<forall>c u. task_at fs c = Some u \<longrightarrow> t_parentId u = Some (t_id t) \<longrightarrow> t_status u = Done)"
    unfolding areTaskChildrenDone_def wf_graph_indexes(2)[OF g(1)] siblings_children list_all_iff dn
    using parent task_at_Some(1)[OF fs] by (auto simp: mem)
  with deps show ?thesis by (simp add: isReadyTask_def ready_task_def)
qed

section \<open>Reachable directories\<close>

inductive reachable_store :: "files \<Rightarrow> bool" where
  reachable_empty: "reachable_store []"
| reachable_op:
    "reachable_store fs \<Longrightarrow> op_ok now (task_at fs) op \<Longrightarrow> run_op now op fs = Some (Inr fs') \<Longrightarrow>
     reachable_store fs'"

lemma wf_files_empty: "wf_files []" "acyclic_parents []"
  by (simp_all add: wf_files_def stored_docs_def acyclic_parents_def parent_rel_def task_at_def
      doc_at_def acyclic_def)

lemma run_op_acyclic:
  assumes "wf_files fs" "acyclic_parents fs" "op_ok now (task_at fs) op" "run_op now op fs = Some (Inr fs')"
  shows "acyclic_parents fs'"
proof -
  have "spec_op now op (task_at fs) = Inr (task_at fs')"
    using run_op_refines[OF assms(1-3)] assms(4) by simp
  from spec_op_acyclic[OF _ assms(3) this] show ?thesis
    using assms(2) by (simp add: acyclic_parents_def)
qed

lemma reachable_store_wf: "reachable_store fs \<Longrightarrow> wf_files fs \<and> acyclic_parents fs"
proof (induction rule: reachable_store.induct)
  case reachable_empty
  then show ?case using wf_files_empty by simp
next
  case (reachable_op fs now op fs')
  then have "wf_files fs'"
    using run_op_refines[of fs now op] by simp
  with reachable_op run_op_acyclic show ?case by blast
qed

section \<open>A self-parent never ends\<close>

lemma ancestor_loop_no_result:
  assumes "i \<noteq> []" "readTask now fs i = Inr (Some t)" "t_parentId t = Some i"
    and "ancestor_loop now fs cur acc = Some r"
  shows "cur \<noteq> Some i"
proof -
  have "now = now \<longrightarrow> fs = fs \<longrightarrow> cur \<noteq> Some i"
  proof (rule ancestor_loop.raw_induct[OF _ assms(4),
        where P = "\<lambda>now' fs' cur' acc' r'. now' = now \<longrightarrow> fs' = fs \<longrightarrow> cur' \<noteq> Some i"], intro impI notI)
    fix loop now' fs' cur' acc' r'
    assume IH: "\<And>n f c b y. loop n f c b = Some y \<Longrightarrow> n = now \<longrightarrow> f = fs \<longrightarrow> c \<noteq> Some i"
      and "(if \<not> truthy cur' then Some (Inr acc')
        else case store_get now' fs' (the cur') of
               Inl e \<Rightarrow> Some (Inl e)
             | Inr None \<Rightarrow> Some (Inr acc')
             | Inr (Some parent) \<Rightarrow> loop now' fs' (t_parentId parent) (acc' @ [parent])) = Some r'"
      and "now' = now" "fs' = fs" "cur' = Some i"
    then have "loop now fs (Some i) (acc' @ [t]) = Some r'"
      using assms(1-3) by (simp add: truthy_def store_get_def)
    from IH[OF this] show False by simp
  qed
  then show ?thesis by simp
qed

lemma ancestor_loop_self:
  assumes "i \<noteq> []" "readTask now fs i = Inr (Some t)" "t_parentId t = Some i"
  shows "ancestor_loop now fs (Some i) acc = None"
  using ancestor_loop_no_result[OF assms] by (cases "ancestor_loop now fs (Some i) acc") auto

section \<open>Properties\<close>



text \<open>
  \<open>getAncestors\<close> ends and returns the chain of existing parents, from the immediate parent
  up to the first task whose parent is absent or missing; without the task it rejects.
\<close>

theorem getAncestors_chain:
  assumes "wf_files fs" "acyclic_parents fs"
  shows "case task_at fs i of
      None \<Rightarrow> getAncestors now fs i = Some (Inl (Task_not_found i))
    | Some t \<Rightarrow> \<exists>xs. getAncestors now fs i = Some (Inr xs) \<and> parent_chain (task_at fs) (t_parentId t) xs"
proof (cases "task_at fs i")
  case (Some t)
  then show ?thesis
    using ancestor_loop_chain[OF assms, of now "t_parentId t" "[]"]
    by (auto simp: getAncestors_def get_or_throw_at[OF assms(1)])
qed (simp add: getAncestors_def get_or_throw_at[OF assms(1)])

text \<open>
  \<open>getDescendants\<close> ends (its recursion is at most as deep as the number of files) and
  returns every task below \<open>i\<close> in the parent tree exactly once.
\<close>

theorem getDescendants_exact:
  assumes "wf_files fs" "acyclic_parents fs" "length fs < n"
  shows "\<exists>ts. getDescendants n lc now fs i = Some (Inr ts) \<and> distinct (map t_id ts)
    \<and> set (map t_id ts) = {j. (j, i) \<in> (parent_rel (task_at fs))\<^sup>+}
    \<and> (\<forall>t \<in> set ts. task_at fs (t_id t) = Some t)"
proof -
  have "card (descendants fs i) \<le> card (set (map fst fs))"
    by (rule card_mono[OF _ descendants_dom[OF assms(1)]]) simp
  also have "\<dots> \<le> length fs" using card_length[of "map fst fs"] by simp
  finally have "card (descendants fs i) < n" using assms(3) by simp
  from desc_traverse_covers[OF assms(1,2) this, of lc now "[]"] show ?thesis
    by (auto simp: getDescendants_def covers_def descendants_def)
qed

text \<open>
  C14. \<open>getReady\<close> returns, ordered by priority and creation date, exactly the tasks of the scope
  that are open, whose dependencies all exist and are done and whose children are all done.
\<close>

theorem getReady_exact:
  assumes "wf_files fs" "acyclic_parents fs" "length fs < n" "collation lc"
    "\<forall>i t. task_at fs i = Some t \<longrightarrow> num_priority t"
  shows "\<exists>ts. getReady n lc now fs scopeId = Some (Inr ts) \<and> sorted_wrt (task_le lc) ts
    \<and> distinct (map t_id ts)
    \<and> (\<forall>t. t \<in> set ts \<longleftrightarrow>
          t_id t \<in> scope_ids fs scopeId \<and> task_at fs (t_id t) = Some t \<and> ready_task fs t)"
proof -
  obtain g where g: "store_graph n lc now fs scopeId = Some (Inr g)" "wf_graph g"
    "set (g_allTasks g) = set (tasks_of fs)" "set (map t_id (g_candidates g)) = scope_ids fs scopeId"
    by (rule store_graph_wf[OF assms(1-3)])
  have all: "u \<in> set (g_allTasks g) \<longleftrightarrow> task_at fs (t_id u) = Some u" for u
    unfolding g(3) by (rule tasks_of_mem[OF assms(1)])
  have cand: "u \<in> set (g_candidates g) \<longleftrightarrow> t_id u \<in> scope_ids fs scopeId \<and> task_at fs (t_id u) = Some u" for u
  proof
    assume "u \<in> set (g_candidates g)"
    then show "t_id u \<in> scope_ids fs scopeId \<and> task_at fs (t_id u) = Some u"
      using wf_graph_tasks(3)[OF g(2)] all g(4) by auto
  next
    assume u: "t_id u \<in> scope_ids fs scopeId \<and> task_at fs (t_id u) = Some u"
    then obtain v where v: "v \<in> set (g_candidates g)" "t_id v = t_id u"
      using g(4) by (metis imageE list.set_map)
    then have "task_at fs (t_id u) = Some v"
      using wf_graph_tasks(3)[OF g(2) v(1)] all by metis
    with u v(1) show "u \<in> set (g_candidates g)" by simp
  qed
  let ?ts = "sort_tasks lc (filter (isReadyTask g) (g_candidates g))"
  have "list_all num_priority (filter (isReadyTask g) (g_candidates g))"
    using assms(5) cand by (auto simp: list_all_iff)
  then have "sorted_wrt (task_le lc) ?ts"
    unfolding sort_tasks_alt by (rule total_preorder.sorted_sort_by[OF prio_order[OF assms(4)]])
  moreover have "distinct (map t_id ?ts)"
    using distinct_map_filter[OF wf_graph_tasks(2)[OF g(2)], of "isReadyTask g"]
    by (metis mset_eq_imp_distinct_iff mset_map mset_sort_by sort_tasks_alt)
  moreover have "t \<in> set ?ts \<longleftrightarrow>
      t_id t \<in> scope_ids fs scopeId \<and> task_at fs (t_id t) = Some t \<and> ready_task fs t" for t
    using cand[of t] graph_ready[OF assms(1) g(2,3), of t] by (auto simp: sort_tasks_def)
  ultimately show ?thesis
    by (intro exI[of _ ?ts]) (simp add: getReady_def g(1))
qed

text \<open>
  The execution order of a whole store or of a scope always comes back, and its timeline and
  blocked set are exactly the tasks of the scope that are done, open or in progress.
\<close>

theorem store_execution_order_total:
  assumes "wf_files fs" "acyclic_parents fs" "length fs < n"
  shows "\<exists>r. computeExecutionOrder lc (store_list lc now fs) (store_get now fs)
        (getDescendants n lc now fs) scopeId = Some (Inr r)
    \<and> distinct (map t_id (r_timeline r) @ r_blocked r)
    \<and> set (map t_id (r_timeline r) @ r_blocked r) =
        {i \<in> scope_ids fs scopeId. \<exists>t. task_at fs i = Some t \<and> t_status t \<in> {Done, Open, In_progress}}"
proof -
  obtain g where g: "store_graph n lc now fs scopeId = Some (Inr g)" "wf_graph g"
    "set (g_allTasks g) = set (tasks_of fs)" "set (map t_id (g_candidates g)) = scope_ids fs scopeId"
    by (rule store_graph_wf[OF assms])
  obtain r where r: "execution_order_of lc g = Some r" "distinct (map t_id (r_timeline r) @ r_blocked r)"
    "set (map t_id (r_timeline r) @ r_blocked r)
        = t_id ` {t \<in> set (g_candidates g). t_status t \<in> {Done, Open, In_progress}}"
    using execution_order_split[OF g(2), of lc] by blast
  have "task_at fs (t_id t) = Some t" if "t \<in> set (g_candidates g)" for t
    using wf_graph_tasks(3)[OF g(2) that] unfolding g(3) by (simp add: tasks_of_mem[OF assms(1)])
  then have "t_id ` {t \<in> set (g_candidates g). t_status t \<in> {Done, Open, In_progress}} =
      {i \<in> set (map t_id (g_candidates g)). \<exists>t. task_at fs i = Some t \<and> t_status t \<in> {Done, Open, In_progress}}"
    by fastforce
  then show ?thesis
    using g(1,4) r by (intro exI[of _ r]) (simp add: computeExecutionOrder_def store_graph_def)
qed

text \<open>
  \<open>update\<close> has no cycle check: an \<open>update\<close> that makes a task its own parent succeeds, and
  afterwards \<open>getAncestors\<close> of that task never returns.
\<close>

theorem update_self_parent_diverges:
  assumes "wf_files fs" "task_at fs i = Some t" "i \<noteq> []" "one_line i"
  shows "\<exists>fs' u. store_update now i (no_changes\<lparr>h_parentId := Some (Some i)\<rparr>) fs = Inr (fs', u)
    \<and> wf_files fs' \<and> getAncestors now fs' i = None"
proof -
  let ?u = "t\<lparr>t_parentId := Some i\<rparr>" and ?fs = "writeTask (t\<lparr>t_parentId := Some i\<rparr>) fs"
  have t: "t_id t = i" "wf_task t" using task_at_Some[OF assms(1,2)] by simp_all
  then have wf: "wf_task ?u" using assms(3,4) by (simp add: wf_task_def wf_opt_def)
  then have fs: "wf_files ?fs" by (rule wf_files_write[OF assms(1)])
  have "readTask now ?fs i = Inr (Some (with_raw ?u))"
    using t by (simp add: readTask_at[OF fs] task_at_write[OF wf])
  then have "ancestor_loop now ?fs (Some i) [] = None"
    by (rule ancestor_loop_self[OF assms(3)]) (simp add: with_raw_def)
  then have "getAncestors now ?fs i = None"
    using t by (simp add: getAncestors_def get_or_throw_at[OF fs] task_at_write[OF wf] with_raw_def)
  then show ?thesis
    using fs assms(2) by (simp add: store_update_def get_or_throw_at[OF assms(1)] Let_def)
qed

section \<open>A concrete store\<close>

definition demo_now :: string where
  "demo_now = ''2026-01-01T00:00:00.000Z''"

definition demo_options :: "string option \<Rightarrow> create_options" where
  "demo_options p =
     \<lparr>c_deps = None, c_parentId = p, c_status = None, c_body = None, c_acceptanceCriteria = None,
      c_assignee = None, c_priority = None\<rparr>"

definition demo_root :: task where
  "demo_root = new_task ''r'' demo_now ''Root'' (demo_options None)"

definition demo_kid :: task where
  "demo_kid = new_task ''k'' demo_now ''Kid'' (demo_options (Some ''r''))"

definition demo_files :: files where
  "demo_files = writeTask demo_kid (writeTask demo_root [])"

lemmas demo_task_eval = new_task_def demo_options_def demo_now_def or_else_def wf_task_def
  one_line_def line_term_def wf_status_def wf_opt_def trimmed_def no_end_def

lemma demo_wf_tasks: "wf_task demo_root" "wf_task demo_kid"
  by (simp_all add: demo_root_def demo_kid_def demo_task_eval criteria_title_def notes_title_def)

lemma demo_ids [simp]: "t_id demo_root = ''r''" "t_id demo_kid = ''k''"
  by (simp_all add: demo_root_def demo_kid_def new_task_def)

lemma demo_wf_files: "wf_files (writeTask demo_root [])" "wf_files demo_files"
  using wf_files_write[OF wf_files_empty(1) demo_wf_tasks(1)]
    wf_files_write[OF wf_files_write[OF wf_files_empty(1) demo_wf_tasks(1)] demo_wf_tasks(2)]
  by (simp_all add: demo_files_def)

lemma task_at_empty: "task_at [] = Map.empty"
  by (auto simp: task_at_def doc_at_def)

lemma demo_task_at: "task_at (writeTask demo_root []) = [''r'' \<mapsto> with_raw demo_root]"
  "task_at demo_files = [''r'' \<mapsto> with_raw demo_root, ''k'' \<mapsto> with_raw demo_kid]"
  by (simp_all add: demo_files_def task_at_write[OF demo_wf_tasks(1)] task_at_write[OF demo_wf_tasks(2)] task_at_empty)

lemma demo_parents: "parent_rel [''r'' \<mapsto> with_raw demo_root, ''k'' \<mapsto> with_raw demo_kid] = {(''k'', ''r'')}"
  by (auto simp: parent_rel_def with_raw_def demo_root_def demo_kid_def new_task_def demo_options_def split: if_splits)

lemma demo_create:
  "run_op demo_now (Create_op ''r'' ''Root'' (demo_options None)) [] = Some (Inr (writeTask demo_root []))"
  "run_op demo_now (Create_op ''k'' ''Kid'' (demo_options (Some ''r''))) (writeTask demo_root []) = Some (Inr demo_files)"
proof -
  have "truthy (c_parentId (demo_options None)) = False" "truthy (c_parentId (demo_options (Some ''r''))) = True"
    "c_parentId (demo_options (Some ''r'')) = Some ''r''"
    by (simp_all add: demo_options_def truthy_def)
  then show "run_op demo_now (Create_op ''r'' ''Root'' (demo_options None)) [] = Some (Inr (writeTask demo_root []))"
    "run_op demo_now (Create_op ''k'' ''Kid'' (demo_options (Some ''r''))) (writeTask demo_root []) = Some (Inr demo_files)"
    using readTask_at[OF demo_wf_files(1), of demo_now] readTask_at[OF demo_wf_files(2), of demo_now]
    by (simp_all add: store_create_def Let_def store_get_def get_or_throw_def demo_task_at
        demo_root_def[symmetric] demo_kid_def[symmetric] demo_files_def[symmetric])
qed

lemma demo_reachable: "reachable_store demo_files"
proof -
  have "op_ok demo_now (task_at []) (Create_op ''r'' ''Root'' (demo_options None))"
    using demo_wf_tasks(1) by (simp add: demo_root_def task_at_empty parent_rel_def demo_options_def)
  from reachable_op[OF reachable_empty this demo_create(1)]
  have r: "reachable_store (writeTask demo_root [])" .
  have "parent_rel [''r'' \<mapsto> with_raw demo_root] = {}"
    by (auto simp: parent_rel_def with_raw_def demo_root_def new_task_def demo_options_def split: if_splits)
  then have "op_ok demo_now (task_at (writeTask demo_root [])) (Create_op ''k'' ''Kid'' (demo_options (Some ''r'')))"
    using demo_wf_tasks(2) by (simp add: demo_kid_def demo_task_at demo_options_def)
  from reachable_op[OF r this demo_create(2)] show ?thesis .
qed

lemma demo_acyclic: "acyclic_parents demo_files"
  using reachable_store_wf[OF demo_reachable] by simp



lemma getAncestors_chain_witness:
  "\<exists>xs. getAncestors demo_now demo_files ''k'' = Some (Inr xs) \<and> parent_chain (task_at demo_files) (Some ''r'') xs"
  using getAncestors_chain[OF demo_wf_files(2) demo_acyclic, where i = "''k''" and now = demo_now]
  by (simp add: demo_task_at with_raw_def demo_kid_def new_task_def demo_options_def)

lemma demo_length: "length demo_files < 3"
  by (simp add: demo_files_def writeTask_def)

lemma getDescendants_exact_witness:
  "\<exists>ts. getDescendants 3 code_unit_compare demo_now demo_files ''r'' = Some (Inr ts) \<and> set (map t_id ts) = {''k''}"
proof -
  have "{j. (j, ''r'') \<in> {(''k'', ''r'')}\<^sup>+} = {''k''}"
    by (auto elim: trancl.cases)
  then show ?thesis
    using getDescendants_exact[OF demo_wf_files(2) demo_acyclic demo_length, of code_unit_compare demo_now "''r''"]
    unfolding demo_task_at demo_parents by auto
qed

lemma demo_priorities: "\<forall>i t. task_at demo_files i = Some t \<longrightarrow> num_priority t"
  by (simp add: demo_task_at with_raw_def demo_kid_def demo_root_def new_task_def demo_options_def num_priority_def)

lemma demo_fields:
  "t_id (with_raw demo_kid) = ''k''" "t_deps (with_raw demo_kid) = []" "t_status (with_raw demo_kid) = Open"
  "t_parentId (with_raw demo_kid) = Some ''r''" "t_id (with_raw demo_root) = ''r''"
  "t_parentId (with_raw demo_root) = None"
  by (simp_all add: with_raw_def demo_kid_def demo_root_def new_task_def demo_options_def or_else_def)

lemma getReady_exact_witness:
  "\<exists>ts. getReady 3 code_unit_compare demo_now demo_files None = Some (Inr ts)
    \<and> with_raw demo_kid \<in> set ts \<and> with_raw demo_root \<notin> set ts"
proof -
  obtain ts where "getReady 3 code_unit_compare demo_now demo_files None = Some (Inr ts)"
    "\<forall>t. t \<in> set ts \<longleftrightarrow> t_id t \<in> scope_ids demo_files None
        \<and> task_at demo_files (t_id t) = Some t \<and> ready_task demo_files t"
    using getReady_exact[OF demo_wf_files(2) demo_acyclic demo_length collation_code_unit demo_priorities]
    by blast
  moreover have "scope_ids demo_files None = {''r'', ''k''}"
    by (auto simp: scope_ids_def truthy_def demo_files_def writeTask_def)
  moreover have "ready_task demo_files (with_raw demo_kid)"
    unfolding ready_task_def demo_task_at demo_fields by (simp split: if_splits add: demo_fields)
  moreover have "\<not> ready_task demo_files (with_raw demo_root)"
  proof
    assume "ready_task demo_files (with_raw demo_root)"
    moreover have "task_at demo_files ''k'' = Some (with_raw demo_kid)" by (simp add: demo_task_at)
    ultimately have "t_status (with_raw demo_kid) = Done"
      unfolding ready_task_def using demo_fields by metis
    then show False by (simp add: demo_fields)
  qed
  moreover have "task_at demo_files (t_id (with_raw demo_kid)) = Some (with_raw demo_kid)"
    "t_id (with_raw demo_kid) \<in> {''r'', ''k''}"
    by (simp_all add: demo_task_at demo_fields)
  ultimately show ?thesis by metis
qed

lemma store_execution_order_total_witness:
  "\<exists>r. computeExecutionOrder code_unit_compare (store_list code_unit_compare demo_now demo_files)
      (store_get demo_now demo_files) (getDescendants 3 code_unit_compare demo_now demo_files) None = Some (Inr r)"
  using store_execution_order_total[OF demo_wf_files(2) demo_acyclic demo_length] by blast

lemma update_self_parent_diverges_witness:
  "\<exists>fs'. wf_files fs' \<and> getAncestors demo_now fs' ''r'' = None"
  using update_self_parent_diverges[OF demo_wf_files(2), of "''r''" "with_raw demo_root" demo_now]
  by (auto simp: demo_task_at one_line_def line_term_def)

end
