(* ===== verification/Js_Json.thy ===== *)
theory Js_Json
  imports Js_String
begin

text \<open>
  JSON values and the text that \<open>JSON.stringify\<close> gives for them. Numbers are integers; an
  \<open>undefined\<close> property, which \<open>stringify\<close> leaves out, is absent from the object.
\<close>

datatype json = JNull | JBool bool | JString string | JInt int | JArray "json list" | JObject "(string \<times> json) list"

definition hex_digit :: "nat \<Rightarrow> char" where
  "hex_digit n = char_of (if n < 10 then 48 + n else 87 + n)"

definition json_char :: "char \<Rightarrow> string" where
  "json_char c =
     (let n = of_char c :: nat; bs = CHR 0x5C in
      if n = 34 then [bs, c] else if n = 92 then [bs, c]
      else if n = 8 then [bs, CHR ''b''] else if n = 9 then [bs, CHR ''t'']
      else if n = 10 then [bs, CHR ''n''] else if n = 12 then [bs, CHR ''f'']
      else if n = 13 then [bs, CHR ''r'']
      else if n < 32 then [bs] @ ''u00'' @ [hex_digit (n div 16), hex_digit (n mod 16)]
      else [c])"

definition json_string :: "string \<Rightarrow> string" where
  "json_string s = [CHR 0x22] @ concat (map json_char s) @ [CHR 0x22]"

fun stringify :: "json \<Rightarrow> string" where
  "stringify JNull = ''null''"
| "stringify (JBool b) = (if b then ''true'' else ''false'')"
| "stringify (JString s) = json_string s"
| "stringify (JInt i) = show_int i"
| "stringify (JArray js) = ''['' @ join '','' (map stringify js) @ '']''"
| "stringify (JObject kvs) =
     ''{'' @ join '','' (map (\<lambda>(k, v). json_string k @ '':'' @ stringify v) kvs) @ ''}''"

end
