(* ===== verification/Task_Service.thy ===== *)
theory Task_Service
  imports Js_Json
begin

text \<open>
  \<open>TaskService\<close> of \<open>tasks/task-service.ts\<close> over its three SQLite tables. A table is the list of
  its rows in rowid order; a statement is a function on the database that may fail with a
  constraint error; \<open>transaction\<close> restores the database when its body throws. Columns that hold
  JSON text hold the value itself. Parameters: \<open>sha\<close> (SHA-256 as hex text), the registry
  \<open>cwdOf\<close> of workspaces with their directory, the clock \<open>now\<close>, and the outcome of the check that
  \<open>runCheck\<close> reports.
\<close>

section \<open>Data\<close>

datatype svc_status =
    St_draft | St_open | St_queued | St_blocked | St_provisioning | St_running | St_needs_input
  | St_verifying | St_review_ready | St_completed | St_interrupted | St_failed | St_cancelled

datatype op_state = Op_running | Op_finished
datatype ev_status = Ev_pending | Ev_passed | Ev_failed | Ev_timed_out | Ev_stale
datatype isolation = Live | Disposable_checkout
datatype cmd_action = Act_start | Act_accept | Act_retry | Act_cancel

record task_check =
  ck_id :: string
  ck_command :: string
  ck_timeoutMs :: int

record snapshot =
  sn_id :: string
  sn_baseCommit :: string
  sn_trackedDiffHash :: string
  sn_untrackedManifestHash :: string

record evidence =
  v_commandId :: string
  v_taskId :: string
  v_operationState :: op_state
  v_command :: string
  v_startedAt :: string
  v_durationMs :: "int option"
  v_status :: ev_status
  v_exitCode :: "int option"
  v_stdout :: string
  v_stderr :: string
  v_isolation :: isolation
  v_snapshot :: "snapshot option"
  v_resultingSnapshotId :: "string option"

record task_row =
  w_workspace :: string
  w_id :: string
  w_title :: string
  w_prompt :: string
  w_provider :: string
  w_agent :: "string option"
  w_status :: svc_status
  w_revision :: int
  w_criteria :: "string list"
  w_check :: task_check
  w_created :: string
  w_hash :: string

record command_row =
  k_workspace :: string
  k_task :: string
  k_command :: string
  k_hash :: string
  k_revision :: int

record evidence_row =
  e_workspace :: string
  e_task :: string
  e_command :: string
  e_payload :: evidence

record svc_db =
  db_tasks :: "task_row list"
  db_commands :: "command_row list"
  db_evidence :: "evidence_row list"

datatype svc_error =
    Workspace_not_found string
  | Svc_task_not_found string
  | Command_conflict string
  | Revision_conflict int int
  | Only_review_ready
  | Only_queued
  | Agent_required
  | Only_failed
  | Only_pending
  | Constraint_violation

type_synonym 'a db_op = "svc_db \<Rightarrow> (svc_error + 'a) \<times> svc_db"

section \<open>Request hashes\<close>

definition requestHash :: "(string \<Rightarrow> string) \<Rightarrow> json \<Rightarrow> string" where
  "requestHash sha j = sha (stringify j)"

record create_input =
  i_workspaceId :: string
  i_title :: string
  i_prompt :: string
  i_providerId :: string
  i_acceptanceCriteria :: "string list"
  i_checks :: "task_check list"
  i_commandId :: string

record command_input =
  j_workspaceId :: string
  j_taskId :: string
  j_commandId :: string
  j_expectedRevision :: int
  j_action :: cmd_action
  j_agentId :: "string option"

definition check_json :: "task_check \<Rightarrow> json" where
  "check_json c =
     JObject [(''id'', JString (ck_id c)), (''command'', JString (ck_command c)),
              (''timeoutMs'', JInt (ck_timeoutMs c))]"

definition createRequestHash :: "(string \<Rightarrow> string) \<Rightarrow> create_input \<Rightarrow> string" where
  "createRequestHash sha inp =
     requestHash sha (JObject
       [(''workspaceId'', JString (i_workspaceId inp)), (''title'', JString (i_title inp)),
        (''prompt'', JString (i_prompt inp)), (''providerId'', JString (i_providerId inp)),
        (''acceptanceCriteria'', JArray (map JString (i_acceptanceCriteria inp))),
        (''checks'', JArray (map check_json (i_checks inp))),
        (''commandId'', JString (i_commandId inp))])"

definition action_string :: "cmd_action \<Rightarrow> string" where
  "action_string a =
     (case a of Act_start \<Rightarrow> ''start'' | Act_accept \<Rightarrow> ''accept''
      | Act_retry \<Rightarrow> ''retry'' | Act_cancel \<Rightarrow> ''cancel'')"

definition inputHash :: "(string \<Rightarrow> string) \<Rightarrow> command_input \<Rightarrow> string" where
  "inputHash sha inp =
     requestHash sha (JObject
       [(''workspaceId'', JString (j_workspaceId inp)), (''taskId'', JString (j_taskId inp)),
        (''commandId'', JString (j_commandId inp)),
        (''expectedRevision'', JInt (j_expectedRevision inp)),
        (''action'', JString (action_string (j_action inp)))])"

definition newTaskId :: "(string \<Rightarrow> string) \<Rightarrow> string \<Rightarrow> string \<Rightarrow> string" where
  "newTaskId sha ws cmd = take 16 (sha (''task'' @ [CHR 0x00] @ ws @ [CHR 0x00] @ cmd))"

section \<open>Statements\<close>

text \<open>\<open>BEGIN IMMEDIATE\<close>, the body, then \<open>COMMIT\<close>, or \<open>ROLLBACK\<close> and rethrow.\<close>

definition transaction :: "'a db_op \<Rightarrow> 'a db_op" where
  "transaction body db =
     (case body db of
        (Inl e, _) \<Rightarrow> (Inl e, db)
      | (Inr x, db') \<Rightarrow> (Inr x, db'))"

definition task_key :: "task_row \<Rightarrow> string \<times> string" where
  "task_key r = (w_workspace r, w_id r)"

definition command_key :: "command_row \<Rightarrow> string \<times> string" where
  "command_key r = (k_workspace r, k_command r)"

definition evidence_key :: "evidence_row \<Rightarrow> string \<times> string" where
  "evidence_key r = (e_workspace r, e_command r)"

definition find_row :: "('r \<Rightarrow> 'k) \<Rightarrow> 'k \<Rightarrow> 'r list \<Rightarrow> 'r option" where
  "find_row key k rs = List.find (\<lambda>r. key r = k) rs"

definition svc_row :: "svc_db \<Rightarrow> string \<Rightarrow> string \<Rightarrow> task_row option" where
  "svc_row db ws i = find_row task_key (ws, i) (db_tasks db)"

definition insert_task :: "task_row \<Rightarrow> unit db_op" where
  "insert_task r db =
     (if find_row task_key (task_key r) (db_tasks db) \<noteq> None then (Inl Constraint_violation, db)
      else (Inr (), db\<lparr>db_tasks := db_tasks db @ [r]\<rparr>))"

definition insert_command :: "command_row \<Rightarrow> unit db_op" where
  "insert_command r db =
     (if find_row command_key (command_key r) (db_commands db) \<noteq> None
         \<or> svc_row db (k_workspace r) (k_task r) = None
      then (Inl Constraint_violation, db)
      else (Inr (), db\<lparr>db_commands := db_commands db @ [r]\<rparr>))"

text \<open>\<open>INSERT OR IGNORE\<close> skips a duplicate key (no change) but not a missing foreign key.\<close>

definition insert_or_ignore_evidence :: "evidence_row \<Rightarrow> bool db_op" where
  "insert_or_ignore_evidence r db =
     (if find_row evidence_key (evidence_key r) (db_evidence db) \<noteq> None then (Inr False, db)
      else if svc_row db (e_workspace r) (e_task r) = None then (Inl Constraint_violation, db)
      else (Inr True, db\<lparr>db_evidence := db_evidence db @ [r]\<rparr>))"

definition update_task :: "string \<Rightarrow> string \<Rightarrow> (task_row \<Rightarrow> task_row) \<Rightarrow> svc_db \<Rightarrow> svc_db" where
  "update_task ws i f db =
     db\<lparr>db_tasks := map (\<lambda>r. if task_key r = (ws, i) then f r else r) (db_tasks db)\<rparr>"

definition update_evidence :: "string \<Rightarrow> string \<Rightarrow> evidence \<Rightarrow> svc_db \<Rightarrow> svc_db" where
  "update_evidence ws cmd v db =
     db\<lparr>db_evidence :=
          map (\<lambda>r. if evidence_key r = (ws, cmd) then r\<lparr>e_payload := v\<rparr> else r) (db_evidence db)\<rparr>"

section \<open>Reading\<close>

definition task_evidence :: "svc_db \<Rightarrow> string \<Rightarrow> string \<Rightarrow> evidence list" where
  "task_evidence db ws i =
     map e_payload (filter (\<lambda>r. e_workspace r = ws \<and> e_task r = i) (db_evidence db))"

definition latestEvidence :: "svc_db \<Rightarrow> string \<Rightarrow> string \<Rightarrow> evidence option" where
  "latestEvidence db ws i =
     (case rev (task_evidence db ws i) of [] \<Rightarrow> None | v # _ \<Rightarrow> Some v)"

text \<open>A \<open>TaskPayload\<close> is the row with its latest evidence.\<close>

type_synonym task_payload = "task_row \<times> evidence option"

definition project :: "svc_db \<Rightarrow> task_row \<Rightarrow> task_payload" where
  "project db r = (r, latestEvidence db (w_workspace r) (w_id r))"

definition workspace :: "(string \<Rightarrow> string option) \<Rightarrow> string \<Rightarrow> svc_error + string" where
  "workspace cwdOf ws = (case cwdOf ws of None \<Rightarrow> Inl (Workspace_not_found ws) | Some d \<Rightarrow> Inr d)"

definition svc_get :: "(string \<Rightarrow> string option) \<Rightarrow> string \<Rightarrow> string \<Rightarrow> svc_db \<Rightarrow> svc_error + task_payload" where
  "svc_get cwdOf ws i db =
     ebind (workspace cwdOf ws) (\<lambda>_.
       case svc_row db ws i of None \<Rightarrow> Inl (Svc_task_not_found i) | Some r \<Rightarrow> Inr (project db r))"

text \<open>\<open>ORDER BY created_at DESC\<close> compares the text; rows that tie keep the index order.\<close>

fun text_le :: "string \<Rightarrow> string \<Rightarrow> bool" where
  "text_le [] t = True"
| "text_le (a # s) [] = False"
| "text_le (a # s) (b # t) =
     ((of_char a :: nat) < of_char b \<or> a = b \<and> text_le s t)"

definition svc_list :: "(string \<Rightarrow> string option) \<Rightarrow> string \<Rightarrow> svc_db \<Rightarrow> svc_error + task_payload list" where
  "svc_list cwdOf ws db =
     ebind (workspace cwdOf ws) (\<lambda>_.
       Inr (map (project db)
         (sort_by (\<lambda>a b. text_le (w_created b) (w_created a))
           (filter (\<lambda>r. w_workspace r = ws) (db_tasks db)))))"

definition svc_evidence :: "(string \<Rightarrow> string option) \<Rightarrow> string \<Rightarrow> string \<Rightarrow> svc_db \<Rightarrow> svc_error + evidence list" where
  "svc_evidence cwdOf ws i db =
     ebind (workspace cwdOf ws) (\<lambda>_.
       if svc_row db ws i = None then Inl (Svc_task_not_found i)
       else Inr (task_evidence db ws i))"

section \<open>create\<close>

definition new_row :: "string \<Rightarrow> string \<Rightarrow> string \<Rightarrow> create_input \<Rightarrow> task_row" where
  "new_row i h now inp =
     \<lparr>w_workspace = i_workspaceId inp, w_id = i, w_title = i_title inp, w_prompt = i_prompt inp,
      w_provider = i_providerId inp, w_agent = None, w_status = St_queued, w_revision = 1,
      w_criteria = i_acceptanceCriteria inp, w_check = i_checks inp ! 0, w_created = now, w_hash = h\<rparr>"

definition create_body :: "(string \<Rightarrow> string) \<Rightarrow> string \<Rightarrow> create_input \<Rightarrow> bool db_op" where
  "create_body sha now inp db =
     (let i = newTaskId sha (i_workspaceId inp) (i_commandId inp); h = createRequestHash sha inp in
      case svc_row db (i_workspaceId inp) i of
        Some existing \<Rightarrow>
          if w_hash existing \<noteq> h then (Inl (Command_conflict (i_commandId inp)), db)
          else (Inr True, db)
      | None \<Rightarrow>
          (case insert_task (new_row i h now inp) db of
             (Inl e, db') \<Rightarrow> (Inl e, db')
           | (Inr _, db') \<Rightarrow> (Inr False, db')))"

text \<open>Runs \<open>body\<close> in a transaction for a known workspace, then reads the task back.\<close>

definition with_get ::
    "(string \<Rightarrow> string option) \<Rightarrow> string \<Rightarrow> string \<Rightarrow> 'a db_op \<Rightarrow> (task_payload \<times> 'a) db_op" where
  "with_get cwdOf ws i body db =
     (case workspace cwdOf ws of
        Inl e \<Rightarrow> (Inl e, db)
      | Inr _ \<Rightarrow>
          (case transaction body db of
             (Inl e, db') \<Rightarrow> (Inl e, db')
           | (Inr x, db') \<Rightarrow> (ebind (svc_get cwdOf ws i db') (\<lambda>p. Inr (p, x)), db')))"

definition svc_create ::
    "(string \<Rightarrow> string) \<Rightarrow> (string \<Rightarrow> string option) \<Rightarrow> string \<Rightarrow> create_input \<Rightarrow> (task_payload \<times> bool) db_op" where
  "svc_create sha cwdOf now inp =
     with_get cwdOf (i_workspaceId inp) (newTaskId sha (i_workspaceId inp) (i_commandId inp))
       (create_body sha now inp)"

section \<open>command\<close>

definition nextStatus :: "cmd_action \<Rightarrow> svc_status \<Rightarrow> string option \<Rightarrow> svc_error + svc_status" where
  "nextStatus action current agentId =
     (case action of
        Act_accept \<Rightarrow> if current \<noteq> St_review_ready then Inl Only_review_ready else Inr St_completed
      | Act_start \<Rightarrow>
          if current \<noteq> St_queued then Inl Only_queued
          else (case agentId of
                  None \<Rightarrow> Inl Agent_required
                | Some a \<Rightarrow> if a = [] then Inl Agent_required else Inr St_running)
      | Act_retry \<Rightarrow> if current \<noteq> St_failed then Inl Only_failed else Inr St_queued
      | Act_cancel \<Rightarrow>
          if current \<in> {St_draft, St_open, St_queued, St_blocked} then Inr St_cancelled
          else Inl Only_pending)"

definition next_agent :: "command_input \<Rightarrow> task_row \<Rightarrow> string option" where
  "next_agent inp r =
     (if j_action inp = Act_retry then None
      else case j_agentId inp of None \<Rightarrow> w_agent r | Some a \<Rightarrow> Some a)"

definition command_body :: "(string \<Rightarrow> string) \<Rightarrow> command_input \<Rightarrow> bool db_op" where
  "command_body sha inp db =
     (let ws = j_workspaceId inp; i = j_taskId inp; cmd = j_commandId inp; h = inputHash sha inp in
      case svc_row db ws i of
        None \<Rightarrow> (Inl (Svc_task_not_found i), db)
      | Some r \<Rightarrow>
          (case find_row command_key (ws, cmd) (db_commands db) of
             Some receipt \<Rightarrow>
               if k_hash receipt \<noteq> h then (Inl (Command_conflict cmd), db) else (Inr True, db)
           | None \<Rightarrow>
               if w_revision r \<noteq> j_expectedRevision inp
               then (Inl (Revision_conflict (j_expectedRevision inp) (w_revision r)), db)
               else (case nextStatus (j_action inp) (w_status r) (j_agentId inp) of
                       Inl e \<Rightarrow> (Inl e, db)
                     | Inr st \<Rightarrow>
                         (case insert_command
                                 \<lparr>k_workspace = ws, k_task = i, k_command = cmd, k_hash = h,
                                  k_revision = w_revision r + 1\<rparr> db of
                            (Inl e, db') \<Rightarrow> (Inl e, db')
                          | (Inr _, db') \<Rightarrow>
                              (Inr False,
                               update_task ws i
                                 (\<lambda>q. q\<lparr>w_status := st, w_revision := w_revision r + 1,
                                        w_agent := next_agent inp r\<rparr>) db')))))"

definition svc_command ::
    "(string \<Rightarrow> string) \<Rightarrow> (string \<Rightarrow> string option) \<Rightarrow> command_input \<Rightarrow> (task_payload \<times> bool) db_op" where
  "svc_command sha cwdOf inp =
     with_get cwdOf (j_workspaceId inp) (j_taskId inp) (command_body sha inp)"

section \<open>failStart\<close>

definition fail_start_row :: "string \<Rightarrow> task_row \<Rightarrow> task_row" where
  "fail_start_row agentId r =
     (if w_status r = St_running \<and> w_agent r = Some agentId
      then r\<lparr>w_status := St_failed, w_revision := w_revision r + 1\<rparr> else r)"

definition failStart :: "(string \<Rightarrow> string option) \<Rightarrow> string \<Rightarrow> string \<Rightarrow> string \<Rightarrow> unit db_op" where
  "failStart cwdOf ws i agentId db =
     (case workspace cwdOf ws of
        Inl e \<Rightarrow> (Inl e, db)
      | Inr _ \<Rightarrow> transaction (\<lambda>d. (Inr (), update_task ws i (fail_start_row agentId) d)) db)"

section \<open>verify\<close>

definition pending_evidence :: "string \<Rightarrow> string \<Rightarrow> string \<Rightarrow> task_check \<Rightarrow> evidence" where
  "pending_evidence now i cmd check =
     \<lparr>v_commandId = cmd, v_taskId = i, v_operationState = Op_running, v_command = ck_command check,
      v_startedAt = now, v_durationMs = None, v_status = Ev_pending, v_exitCode = None,
      v_stdout = [], v_stderr = [], v_isolation = Disposable_checkout, v_snapshot = None,
      v_resultingSnapshotId = None\<rparr>"

text \<open>
  The part of \<open>verify\<close> before it awaits the check: the evidence of an earlier call with this
  command id, or a claim with the check to run in the directory.
\<close>

datatype verify_begin =
    Known task_payload evidence
  | Claimed string task_check evidence

definition known_evidence ::
    "(string \<Rightarrow> string option) \<Rightarrow> string \<Rightarrow> string \<Rightarrow> string \<Rightarrow> evidence_row \<Rightarrow> svc_db \<Rightarrow> svc_error + verify_begin" where
  "known_evidence cwdOf ws i cmd row db =
     (if e_task row \<noteq> i then Inl (Command_conflict cmd)
      else ebind (svc_get cwdOf ws i db) (\<lambda>p. Inr (Known p (e_payload row))))"

definition bump :: "svc_status \<Rightarrow> task_row \<Rightarrow> task_row" where
  "bump st r = r\<lparr>w_status := st, w_revision := w_revision r + 1\<rparr>"

definition claim_body :: "string \<Rightarrow> string \<Rightarrow> string \<Rightarrow> evidence \<Rightarrow> bool db_op" where
  "claim_body ws i cmd pending db =
     (case insert_or_ignore_evidence
             \<lparr>e_workspace = ws, e_task = i, e_command = cmd, e_payload = pending\<rparr> db of
        (Inl e, db') \<Rightarrow> (Inl e, db')
      | (Inr changed, db') \<Rightarrow>
          if \<not> changed then (Inr False, db') else (Inr True, update_task ws i (bump St_verifying) db'))"

definition verify_start ::
    "(string \<Rightarrow> string option) \<Rightarrow> string \<Rightarrow> string \<Rightarrow> string \<Rightarrow> string \<Rightarrow> string option \<Rightarrow> verify_begin db_op" where
  "verify_start cwdOf now ws i cmd cwd db =
     (case workspace cwdOf ws of
        Inl e \<Rightarrow> (Inl e, db)
      | Inr dir \<Rightarrow>
          (case find_row evidence_key (ws, cmd) (db_evidence db) of
             Some existing \<Rightarrow> (known_evidence cwdOf ws i cmd existing db, db)
           | None \<Rightarrow>
               (case svc_row db ws i of
                  None \<Rightarrow> (Inl (Svc_task_not_found i), db)
                | Some r \<Rightarrow>
                    (let check = w_check r; pending = pending_evidence now i cmd check in
                     case transaction (claim_body ws i cmd pending) db of
                       (Inl e, db') \<Rightarrow> (Inl e, db')
                     | (Inr claimed, db') \<Rightarrow>
                         if claimed
                         then (Inr (Claimed (case cwd of None \<Rightarrow> dir | Some d \<Rightarrow> d) check pending), db')
                         else (case find_row evidence_key (ws, cmd) (db_evidence db') of
                                 None \<Rightarrow> (Inl Constraint_violation, db')
                               | Some row \<Rightarrow> (known_evidence cwdOf ws i cmd row db', db'))))))"

text \<open>\<open>VerificationEvidence\<close>, what a run of the check reports; a run that throws reports a message.\<close>

record verification =
  n_command :: string
  n_startedAt :: string
  n_durationMs :: int
  n_status :: ev_status
  n_exitCode :: "int option"
  n_stdout :: string
  n_stderr :: string
  n_snapshot :: snapshot
  n_resultingSnapshotId :: string

definition finish_evidence :: "evidence \<Rightarrow> string + verification \<Rightarrow> evidence" where
  "finish_evidence pending outcome =
     (case outcome of
        Inr n \<Rightarrow>
          pending\<lparr>v_command := n_command n, v_startedAt := n_startedAt n,
            v_durationMs := Some (n_durationMs n), v_status := n_status n,
            v_exitCode := n_exitCode n, v_stdout := n_stdout n, v_stderr := n_stderr n,
            v_isolation := Disposable_checkout, v_snapshot := Some (n_snapshot n),
            v_resultingSnapshotId := Some (n_resultingSnapshotId n), v_operationState := Op_finished\<rparr>
      | Inl msg \<Rightarrow>
          pending\<lparr>v_operationState := Op_finished, v_status := Ev_failed, v_stderr := msg\<rparr>)"

definition complete_body :: "string \<Rightarrow> string \<Rightarrow> string \<Rightarrow> evidence \<Rightarrow> unit db_op" where
  "complete_body ws i cmd v db =
     (Inr (), update_task ws i (bump (if v_status v = Ev_passed then St_review_ready else St_failed))
        (update_evidence ws cmd v db))"

definition completeVerification ::
    "(string \<Rightarrow> string option) \<Rightarrow> string \<Rightarrow> string \<Rightarrow> string \<Rightarrow> evidence \<Rightarrow> string + verification \<Rightarrow>
     (task_payload \<times> evidence) db_op" where
  "completeVerification cwdOf ws i cmd pending outcome db =
     (let v = finish_evidence pending outcome in
      case transaction (complete_body ws i cmd v) db of
        (Inl e, db') \<Rightarrow> (Inl e, db')
      | (Inr _, db') \<Rightarrow> (ebind (svc_get cwdOf ws i db') (\<lambda>p. Inr (p, v)), db'))"

end
