(* ===== verification/Task_Service_Spec.thy ===== *)
theory Task_Service_Spec
  imports Task_Service
begin

text \<open>
  Correctness of the task service: a step relation in which calls interleave (a verification is
  two steps, its claim and its completion), the invariant of every reachable state, idempotency of
  command ids and optimistic concurrency by revision.
\<close>

section \<open>Rows and keys\<close>

lemma find_row_None: "find_row key k rs = None \<longleftrightarrow> k \<notin> key ` set rs"
  by (auto simp: find_row_def find_None_iff)

lemma find_row_Some: "find_row key k rs = Some r \<Longrightarrow> r \<in> set rs \<and> key r = k"
  by (auto simp: find_row_def find_Some_iff)

lemma find_row_unique:
  assumes "distinct (map key rs)" "r \<in> set rs"
  shows "find_row key (key r) rs = Some r"
proof -
  obtain q where q: "find_row key (key r) rs = Some q"
    using assms(2) find_row_None[of key "key r" rs] by (cases "find_row key (key r) rs") auto
  then have "q = r"
    using find_row_Some[OF q] assms by (metis distinct_map inj_onD)
  with q show ?thesis by simp
qed

lemma find_row_append: "find_row key k rs = Some r \<Longrightarrow> find_row key k (rs @ xs) = Some r"
  by (induction rs) (auto simp: find_row_def)

lemma find_row_append_new: "find_row key k rs = None \<Longrightarrow> key x = k \<Longrightarrow> find_row key k (rs @ [x]) = Some x"
  by (induction rs) (auto simp: find_row_def split: if_splits)

lemma find_row_map:
  "(\<And>r. key (f r) = key r) \<Longrightarrow> find_row key k (map f rs) = map_option f (find_row key k rs)"
  by (induction rs) (auto simp: find_row_def)

section \<open>The system\<close>

type_synonym active = "string \<times> string \<times> string \<times> evidence"

inductive svc_step ::
    "(string \<Rightarrow> string) \<Rightarrow> (string \<Rightarrow> string option) \<Rightarrow> svc_db \<times> active list \<Rightarrow> svc_db \<times> active list \<Rightarrow> bool"
  for sha cwdOf where
  step_create:
    "svc_create sha cwdOf now inp db = (r, db') \<Longrightarrow> svc_step sha cwdOf (db, act) (db', act)"
| step_command:
    "svc_command sha cwdOf inp db = (r, db') \<Longrightarrow> svc_step sha cwdOf (db, act) (db', act)"
| step_failStart:
    "failStart cwdOf ws i agentId db = (r, db') \<Longrightarrow> svc_step sha cwdOf (db, act) (db', act)"
| step_claim:
    "verify_start cwdOf now ws i cmd cwd db = (Inr (Claimed dir check pending), db') \<Longrightarrow>
     svc_step sha cwdOf (db, act) (db', act @ [(ws, i, cmd, pending)])"
| step_known:
    "verify_start cwdOf now ws i cmd cwd db = (r, db') \<Longrightarrow>
     (\<forall>dir check pending. r \<noteq> Inr (Claimed dir check pending)) \<Longrightarrow>
     svc_step sha cwdOf (db, act) (db', act)"
| step_complete:
    "act = as @ (ws, i, cmd, pending) # bs \<Longrightarrow>
     completeVerification cwdOf ws i cmd pending outcome db = (r, db') \<Longrightarrow>
     svc_step sha cwdOf (db, act) (db', as @ bs)"

definition empty_db :: svc_db where
  "empty_db = \<lparr>db_tasks = [], db_commands = [], db_evidence = []\<rparr>"

definition svc_reachable :: "(string \<Rightarrow> string) \<Rightarrow> (string \<Rightarrow> string option) \<Rightarrow> svc_db \<times> active list \<Rightarrow> bool" where
  "svc_reachable sha cwdOf s \<longleftrightarrow> (svc_step sha cwdOf)\<^sup>*\<^sup>* (empty_db, []) s"

section \<open>What one step does\<close>

text \<open>Every operation is one of five changes of the database, or none.\<close>

definition row_step :: "(task_row \<Rightarrow> task_row) \<Rightarrow> bool" where
  "row_step f \<longleftrightarrow> (\<forall>r. task_key (f r) = task_key r \<and> (f r = r \<or> w_revision (f r) = w_revision r + 1))"

lemma row_step_bump: "row_step (bump st)"
  by (simp add: row_step_def bump_def task_key_def)

lemma row_step_fail: "row_step (fail_start_row a)"
  by (simp add: row_step_def fail_start_row_def task_key_def)

lemma with_get_cases:
  assumes "with_get cwdOf ws i body db = (r, db')"
  obtains "db' = db" "\<exists>e. r = Inl e" "cwdOf ws = None \<or> (\<exists>e. fst (body db) = Inl e)"
  | x where "body db = (Inr x, db')" "r = ebind (svc_get cwdOf ws i db') (\<lambda>p. Inr (p, x))"
  using assms
  by (auto simp: with_get_def transaction_def workspace_def split: sum.splits prod.splits option.splits)

lemma create_body_cases:
  assumes "create_body sha now inp db = (r, db')"
  obtains "db' = db" "r \<noteq> Inr False"
  | i where "i = newTaskId sha (i_workspaceId inp) (i_commandId inp)" "r = Inr False"
      "svc_row db (i_workspaceId inp) i = None"
      "db' = db\<lparr>db_tasks := db_tasks db @ [new_row i (createRequestHash sha inp) now inp]\<rparr>"
  using assms
  by (auto simp: create_body_def Let_def insert_task_def svc_row_def new_row_def task_key_def
      split: option.splits if_splits)

lemma svc_row_key: "svc_row db ws i = Some r \<Longrightarrow> r \<in> set (db_tasks db) \<and> task_key r = (ws, i)"
  unfolding svc_row_def by (rule find_row_Some)

lemma command_body_cases:
  assumes "command_body sha inp db = (r, db')"
  obtains "db' = db" "r \<noteq> Inr False"
  | q st where "r = Inr False" "svc_row db (j_workspaceId inp) (j_taskId inp) = Some q"
      "find_row command_key (j_workspaceId inp, j_commandId inp) (db_commands db) = None"
      "w_revision q = j_expectedRevision inp"
      "nextStatus (j_action inp) (w_status q) (j_agentId inp) = Inr st"
      "db' = update_task (j_workspaceId inp) (j_taskId inp)
          (\<lambda>x. x\<lparr>w_status := st, w_revision := w_revision q + 1, w_agent := next_agent inp q\<rparr>)
          (db\<lparr>db_commands := db_commands db @
             [\<lparr>k_workspace = j_workspaceId inp, k_task = j_taskId inp, k_command = j_commandId inp,
               k_hash = inputHash sha inp, k_revision = w_revision q + 1\<rparr>]\<rparr>)"
  using assms
  by (auto simp: command_body_def Let_def insert_command_def command_key_def
      split: option.splits if_splits sum.splits)

lemma known_not_claimed: "known_evidence cwdOf ws i cmd row db \<noteq> Inr (Claimed dir check pending)"
  by (simp add: known_evidence_def ebind_def split: sum.splits)

lemma claim_fresh:
  assumes "find_row evidence_key (ws, cmd) (db_evidence db) = None" "svc_row db ws i = Some q"
  shows "transaction (claim_body ws i cmd v) db =
    (Inr True, update_task ws i (bump St_verifying)
      (db\<lparr>db_evidence := db_evidence db @ [\<lparr>e_workspace = ws, e_task = i, e_command = cmd, e_payload = v\<rparr>]\<rparr>))"
  using assms by (simp add: transaction_def claim_body_def insert_or_ignore_evidence_def evidence_key_def)

lemma verify_start_cases:
  assumes r: "verify_start cwdOf now ws i cmd cwd db = (r, db')"
  obtains "db' = db" "\<forall>dir check pending. r \<noteq> Inr (Claimed dir check pending)"
  | q dir where "svc_row db ws i = Some q" "find_row evidence_key (ws, cmd) (db_evidence db) = None"
      "r = Inr (Claimed dir (w_check q) (pending_evidence now i cmd (w_check q)))"
      "db' = update_task ws i (bump St_verifying)
          (db\<lparr>db_evidence := db_evidence db @
             [\<lparr>e_workspace = ws, e_task = i, e_command = cmd,
               e_payload = pending_evidence now i cmd (w_check q)\<rparr>]\<rparr>)"
proof (cases "workspace cwdOf ws")
  case (Inl e)
  then show thesis using r that(1) by (auto simp: verify_start_def)
next
  case (Inr dir)
  note ws = Inr
  show thesis
  proof (cases "find_row evidence_key (ws, cmd) (db_evidence db)")
    case (Some row)
    then show thesis using r ws that(1) known_not_claimed by (auto simp: verify_start_def)
  next
    case None
    note fresh = None
    show thesis
    proof (cases "svc_row db ws i")
      case None
      then show thesis using r ws fresh that(1) by (auto simp: verify_start_def)
    next
      case (Some q)
      then show thesis
        using r ws fresh claim_fresh[OF fresh Some] that(2)[OF Some fresh]
        by (auto simp: verify_start_def Let_def split: option.splits)
    qed
  qed
qed

lemma completeVerification_db:
  "snd (completeVerification cwdOf ws i cmd pending outcome db) =
   update_task ws i (bump (if v_status (finish_evidence pending outcome) = Ev_passed then St_review_ready else St_failed))
     (update_evidence ws cmd (finish_evidence pending outcome) db)"
  by (simp add: completeVerification_def Let_def transaction_def complete_body_def)

lemma failStart_cases:
  assumes "failStart cwdOf ws i agentId db = (r, db')"
  obtains "db' = db" "\<exists>e. r = Inl e" | "db' = update_task ws i (fail_start_row agentId) db" "r = Inr ()"
  using assms by (auto simp: failStart_def transaction_def workspace_def split: option.splits)

section \<open>The invariant\<close>

definition finished_pass :: "evidence_row \<Rightarrow> bool" where
  "finished_pass e \<longleftrightarrow> v_operationState (e_payload e) = Op_finished \<and> v_status (e_payload e) = Ev_passed"

definition row_ok :: "command_row list \<Rightarrow> evidence_row list \<Rightarrow> active list \<Rightarrow> task_row \<Rightarrow> bool" where
  "row_ok cs es act r \<longleftrightarrow>
     w_revision r \<ge> 1
     \<and> (\<forall>k \<in> set cs. (k_workspace k, k_task k) = task_key r \<longrightarrow> 1 < k_revision k \<and> k_revision k \<le> w_revision r)
     \<and> (w_status r \<in> {St_review_ready, St_completed} \<longrightarrow>
          (\<exists>e \<in> set es. (e_workspace e, e_task e) = task_key r \<and> finished_pass e))
     \<and> (w_status r = St_verifying \<longrightarrow> (\<exists>cmd v. (w_workspace r, w_id r, cmd, v) \<in> set act))
     \<and> (w_status r = St_running \<longrightarrow> w_agent r \<noteq> None)"

lemma row_okI:
  assumes "1 \<le> w_revision r"
    "\<And>k. k \<in> set cs \<Longrightarrow> (k_workspace k, k_task k) = task_key r \<Longrightarrow> 1 < k_revision k \<and> k_revision k \<le> w_revision r"
    "w_status r \<in> {St_review_ready, St_completed} \<Longrightarrow>
       \<exists>e \<in> set es. (e_workspace e, e_task e) = task_key r \<and> finished_pass e"
    "w_status r = St_verifying \<Longrightarrow> \<exists>cmd v. (w_workspace r, w_id r, cmd, v) \<in> set act"
    "w_status r = St_running \<Longrightarrow> w_agent r \<noteq> None"
  shows "row_ok cs es act r"
  using assms unfolding row_ok_def by blast

lemma row_okD:
  assumes "row_ok cs es act r"
  shows "1 \<le> w_revision r"
    "k \<in> set cs \<Longrightarrow> (k_workspace k, k_task k) = task_key r \<Longrightarrow> 1 < k_revision k \<and> k_revision k \<le> w_revision r"
    "w_status r \<in> {St_review_ready, St_completed} \<Longrightarrow>
       \<exists>e \<in> set es. (e_workspace e, e_task e) = task_key r \<and> finished_pass e"
    "w_status r = St_verifying \<Longrightarrow> \<exists>cmd v. (w_workspace r, w_id r, cmd, v) \<in> set act"
    "w_status r = St_running \<Longrightarrow> w_agent r \<noteq> None"
  using assms unfolding row_ok_def by blast+

lemma bump_simps [simp]:
  "w_revision (bump st r) = w_revision r + 1" "w_status (bump st r) = st"
  "w_agent (bump st r) = w_agent r" "task_key (bump st r) = task_key r"
  "w_workspace (bump st r) = w_workspace r" "w_id (bump st r) = w_id r"
  "w_hash (bump st r) = w_hash r" "w_check (bump st r) = w_check r" "w_criteria (bump st r) = w_criteria r"
  by (simp_all add: bump_def task_key_def)

definition active_key :: "active \<Rightarrow> string \<times> string" where
  "active_key a = (case a of (ws, i, cmd, v) \<Rightarrow> (ws, cmd))"

definition svc_inv :: "svc_db \<times> active list \<Rightarrow> bool" where
  "svc_inv s \<longleftrightarrow> (case s of (db, act) \<Rightarrow>
     distinct (map task_key (db_tasks db)) \<and> distinct (map command_key (db_commands db))
     \<and> distinct (map evidence_key (db_evidence db))
     \<and> (\<forall>k \<in> set (db_commands db). (k_workspace k, k_task k) \<in> task_key ` set (db_tasks db))
     \<and> (\<forall>e \<in> set (db_evidence db). (e_workspace e, e_task e) \<in> task_key ` set (db_tasks db))
     \<and> distinct (map active_key act)
     \<and> (\<forall>ws i cmd v. (ws, i, cmd, v) \<in> set act \<longrightarrow> v_operationState v = Op_running \<and>
          \<lparr>e_workspace = ws, e_task = i, e_command = cmd, e_payload = v\<rparr> \<in> set (db_evidence db))
     \<and> (\<forall>r \<in> set (db_tasks db). row_ok (db_commands db) (db_evidence db) act r))"

lemma svc_inv_intro:
  assumes "distinct (map task_key (db_tasks db))" "distinct (map command_key (db_commands db))"
    "distinct (map evidence_key (db_evidence db))"
    "\<And>k. k \<in> set (db_commands db) \<Longrightarrow> (k_workspace k, k_task k) \<in> task_key ` set (db_tasks db)"
    "\<And>e. e \<in> set (db_evidence db) \<Longrightarrow> (e_workspace e, e_task e) \<in> task_key ` set (db_tasks db)"
    "distinct (map active_key act)"
    "\<And>ws i cmd v. (ws, i, cmd, v) \<in> set act \<Longrightarrow> v_operationState v = Op_running \<and>
       \<lparr>e_workspace = ws, e_task = i, e_command = cmd, e_payload = v\<rparr> \<in> set (db_evidence db)"
    "\<And>r. r \<in> set (db_tasks db) \<Longrightarrow> row_ok (db_commands db) (db_evidence db) act r"
  shows "svc_inv (db, act)"
  using assms unfolding svc_inv_def by blast

lemma svc_invD:
  assumes "svc_inv (db, act)"
  shows "distinct (map task_key (db_tasks db))" "distinct (map command_key (db_commands db))"
    "distinct (map evidence_key (db_evidence db))"
    "k \<in> set (db_commands db) \<Longrightarrow> (k_workspace k, k_task k) \<in> task_key ` set (db_tasks db)"
    "e \<in> set (db_evidence db) \<Longrightarrow> (e_workspace e, e_task e) \<in> task_key ` set (db_tasks db)"
    "distinct (map active_key act)"
    "(ws, i, cmd, v) \<in> set act \<Longrightarrow> v_operationState v = Op_running"
    "(ws, i, cmd, v) \<in> set act \<Longrightarrow>
       \<lparr>e_workspace = ws, e_task = i, e_command = cmd, e_payload = v\<rparr> \<in> set (db_evidence db)"
    "r \<in> set (db_tasks db) \<Longrightarrow> row_ok (db_commands db) (db_evidence db) act r"
  using assms unfolding svc_inv_def by blast+

text \<open>Rows of \<open>update_task\<close>: their keys, and each new row comes from an old one.\<close>

lemma update_task_keys:
  assumes "\<And>r. task_key (f r) = task_key r"
  shows "map task_key (db_tasks (update_task ws i f db)) = map task_key (db_tasks db)"
    "task_key ` set (db_tasks (update_task ws i f db)) = task_key ` set (db_tasks db)"
proof -
  show "map task_key (db_tasks (update_task ws i f db)) = map task_key (db_tasks db)"
    by (simp add: update_task_def assms)
  then show "task_key ` set (db_tasks (update_task ws i f db)) = task_key ` set (db_tasks db)"
    by (metis list.set_map)
qed

lemma update_task_tables [simp]:
  "db_commands (update_task ws i f db) = db_commands db"
  "db_evidence (update_task ws i f db) = db_evidence db"
  by (simp_all add: update_task_def)

lemma update_task_mem:
  assumes "r \<in> set (db_tasks (update_task ws i f db))"
  obtains "r \<in> set (db_tasks db)" "task_key r \<noteq> (ws, i)"
  | q where "q \<in> set (db_tasks db)" "task_key q = (ws, i)" "r = f q"
  using assms by (auto simp: update_task_def split: if_splits)

lemma svc_inv_update:
  assumes inv: "svc_inv (db, act)" and key: "\<And>r. task_key (f r) = task_key r"
    and row: "\<And>q. q \<in> set (db_tasks db) \<Longrightarrow> task_key q = (ws, i) \<Longrightarrow>
        row_ok (db_commands db) (db_evidence db) act (f q)"
  shows "svc_inv (update_task ws i f db, act)"
proof (rule svc_inv_intro)
  fix r assume "r \<in> set (db_tasks (update_task ws i f db))"
  then show "row_ok (db_commands (update_task ws i f db)) (db_evidence (update_task ws i f db)) act r"
    by (cases rule: update_task_mem) (use row svc_invD(9)[OF inv] in auto)
qed (use svc_invD(1-8)[OF inv] in \<open>simp_all add: update_task_keys[OF key]\<close>)

lemma row_ok_bump:
  assumes ok: "row_ok cs es act r"
    and "st \<in> {St_review_ready, St_completed} \<Longrightarrow>
      \<exists>e \<in> set es'. (e_workspace e, e_task e) = task_key r \<and> finished_pass e"
    and "st = St_verifying \<Longrightarrow> \<exists>cmd v. (w_workspace r, w_id r, cmd, v) \<in> set act'" and "st \<noteq> St_running"
  shows "row_ok cs es' act' (bump st r)"
proof (rule row_okI)
  fix k assume "k \<in> set cs" "(k_workspace k, k_task k) = task_key (bump st r)"
  then show "1 < k_revision k \<and> k_revision k \<le> w_revision (bump st r)"
    using row_okD(2)[OF ok, of k] by simp
qed (use assms row_okD(1)[OF ok] in simp_all)

lemma svc_inv_create:
  assumes inv: "svc_inv (db, act)" and fresh: "svc_row db (w_workspace r) (w_id r) = None"
    and r: "w_revision r = 1" "w_status r = St_queued"
  shows "svc_inv (db\<lparr>db_tasks := db_tasks db @ [r]\<rparr>, act)"
proof -
  have new: "task_key r \<notin> task_key ` set (db_tasks db)"
    using fresh unfolding svc_row_def find_row_None by (simp add: task_key_def)
  have "row_ok (db_commands db) (db_evidence db) act r"
  proof (rule row_okI)
    fix k assume k: "k \<in> set (db_commands db)" "(k_workspace k, k_task k) = task_key r"
    then have False using svc_invD(4)[OF inv k(1)] new by simp
    then show "1 < k_revision k \<and> k_revision k \<le> w_revision r" ..
  qed (use r in simp_all)
  then show ?thesis
    using svc_invD[OF inv] new by (intro svc_inv_intro) auto
qed

lemma svc_inv_command:
  assumes inv: "svc_inv (db, act)"
    and q: "svc_row db ws i = Some q"
    and fresh: "find_row command_key (ws, cmd) (db_commands db) = None"
    and st: "nextStatus action (w_status q) agent = Inr st"
    and ag: "st = St_running \<Longrightarrow> ag \<noteq> None"
  shows "svc_inv (update_task ws i (\<lambda>x. x\<lparr>w_status := st, w_revision := w_revision q + 1, w_agent := ag\<rparr>)
          (db\<lparr>db_commands := db_commands db @
             [\<lparr>k_workspace = ws, k_task = i, k_command = cmd, k_hash = h, k_revision = w_revision q + 1\<rparr>]\<rparr>), act)"
proof -
  let ?k = "\<lparr>k_workspace = ws, k_task = i, k_command = cmd, k_hash = h, k_revision = w_revision q + 1\<rparr>"
  let ?f = "\<lambda>x. x\<lparr>w_status := st, w_revision := w_revision q + 1, w_agent := ag\<rparr>"
  let ?db = "db\<lparr>db_commands := db_commands db @ [?k]\<rparr>"
  have qk: "q \<in> set (db_tasks db)" "task_key q = (ws, i)"
    using svc_row_key[OF q] by simp_all
  have key: "task_key (?f x) = task_key x" for x by (simp add: task_key_def)
  have ok: "row_ok (db_commands db) (db_evidence db) act q"
    using svc_invD(9)[OF inv qk(1)] .
  have "st \<in> {St_completed, St_running, St_queued, St_cancelled}"
    and "st = St_completed \<Longrightarrow> w_status q = St_review_ready"
    using st by (auto simp: nextStatus_def split: cmd_action.splits if_splits option.splits)
  then have new: "row_ok (db_commands db @ [?k]) (db_evidence db) act (?f q)"
    using ok ag by (fastforce simp: row_ok_def task_key_def)
  have only: "x = q" if "x \<in> set (db_tasks db)" "task_key x = (ws, i)" for x
    using that qk svc_invD(1)[OF inv] by (metis distinct_map inj_onD)
  have others: "row_ok (db_commands db @ [?k]) (db_evidence db) act x"
    if "x \<in> set (db_tasks db)" "task_key x \<noteq> (ws, i)" for x
    using svc_invD(9)[OF inv that(1)] that(2) by (auto simp: row_ok_def)
  show ?thesis
  proof (rule svc_inv_intro)
    fix r assume "r \<in> set (db_tasks (update_task ws i ?f ?db))"
    then show "row_ok (db_commands (update_task ws i ?f ?db)) (db_evidence (update_task ws i ?f ?db)) act r"
      by (cases rule: update_task_mem) (use others only new in auto)
  next
    fix k assume k: "k \<in> set (db_commands (update_task ws i ?f ?db))"
    have "(ws, i) \<in> task_key ` set (db_tasks db)" using qk by force
    then show "(k_workspace k, k_task k) \<in> task_key ` set (db_tasks (update_task ws i ?f ?db))"
      using k svc_invD(4)[OF inv] unfolding update_task_keys(2)[OF key] by auto
  next
    show "distinct (map command_key (db_commands (update_task ws i ?f ?db)))"
      using svc_invD(2)[OF inv] fresh by (simp add: find_row_None command_key_def)
  qed (use svc_invD(1,3,5,6,7,8)[OF inv] in \<open>simp_all add: update_task_keys[OF key]\<close>)
qed

lemma svc_inv_claim:
  assumes inv: "svc_inv (db, act)"
    and q: "svc_row db ws i = Some q"
    and fresh: "find_row evidence_key (ws, cmd) (db_evidence db) = None"
    and v: "v_operationState v = Op_running"
  shows "svc_inv (update_task ws i (bump St_verifying)
          (db\<lparr>db_evidence := db_evidence db @
             [\<lparr>e_workspace = ws, e_task = i, e_command = cmd, e_payload = v\<rparr>]\<rparr>), act @ [(ws, i, cmd, v)])"
proof -
  let ?e = "\<lparr>e_workspace = ws, e_task = i, e_command = cmd, e_payload = v\<rparr>"
  let ?db = "db\<lparr>db_evidence := db_evidence db @ [?e]\<rparr>"
  have qk: "q \<in> set (db_tasks db)" "task_key q = (ws, i)"
    using svc_row_key[OF q] by simp_all
  have key: "task_key (bump St_verifying x) = task_key x" for x by (simp add: bump_def task_key_def)
  have mono: "row_ok (db_commands db) (db_evidence db @ [?e]) (act @ [(ws, i, cmd, v)]) x"
    if "x \<in> set (db_tasks db)" for x
    using svc_invD(9)[OF inv that] by (auto simp: row_ok_def)
  have new: "row_ok (db_commands db) (db_evidence db @ [?e]) (act @ [(ws, i, cmd, v)]) (bump St_verifying x)"
    if "x \<in> set (db_tasks db)" "task_key x = (ws, i)" for x
    using that(2) by (intro row_ok_bump[OF mono[OF that(1)]]) (auto simp: task_key_def)
  have akey: "active_key a \<in> evidence_key ` set (db_evidence db)" if a_act: "a \<in> set act" for a
  proof -
    obtain ws' i' cmd' v' where a: "a = (ws', i', cmd', v')" by (cases a)
    then have "\<lparr>e_workspace = ws', e_task = i', e_command = cmd', e_payload = v'\<rparr> \<in> set (db_evidence db)"
      using svc_invD(8)[OF inv] a_act by blast
    then show ?thesis
      by (rule rev_image_eqI) (simp add: a active_key_def evidence_key_def)
  qed
  show ?thesis
  proof (rule svc_inv_intro)
    fix r assume "r \<in> set (db_tasks (update_task ws i (bump St_verifying) ?db))"
    then show "row_ok (db_commands (update_task ws i (bump St_verifying) ?db))
        (db_evidence (update_task ws i (bump St_verifying) ?db)) (act @ [(ws, i, cmd, v)]) r"
      by (cases rule: update_task_mem) (use mono new in auto)
  next
    fix e assume e: "e \<in> set (db_evidence (update_task ws i (bump St_verifying) ?db))"
    have "(ws, i) \<in> task_key ` set (db_tasks db)" using qk by force
    then show "(e_workspace e, e_task e) \<in> task_key ` set (db_tasks (update_task ws i (bump St_verifying) ?db))"
      using e svc_invD(5)[OF inv] unfolding update_task_keys(2)[OF key] by auto
  next
    have "(ws, cmd) \<notin> active_key ` set act"
      using akey fresh unfolding find_row_None by auto
    then show "distinct (map active_key (act @ [(ws, i, cmd, v)]))"
      using svc_invD(6)[OF inv] by (simp add: active_key_def)
  next
    show "distinct (map evidence_key (db_evidence (update_task ws i (bump St_verifying) ?db)))"
      using svc_invD(3)[OF inv] fresh by (simp add: find_row_None evidence_key_def)
  next
    fix ws' i' cmd' v' assume "(ws', i', cmd', v') \<in> set (act @ [(ws, i, cmd, v)])"
    then show "v_operationState v' = Op_running \<and>
        \<lparr>e_workspace = ws', e_task = i', e_command = cmd', e_payload = v'\<rparr>
          \<in> set (db_evidence (update_task ws i (bump St_verifying) ?db))"
      using svc_invD(7,8)[OF inv, of ws' i' cmd' v'] v by auto
  qed (use svc_invD(1,2,4)[OF inv] in \<open>simp_all add: update_task_keys[OF key]\<close>)
qed

lemma svc_inv_failStart:
  assumes inv: "svc_inv (db, act)"
  shows "svc_inv (update_task ws i (fail_start_row a) db, act)"
proof (rule svc_inv_update[OF inv])
  show "task_key (fail_start_row a r) = task_key r" for r
    by (simp add: fail_start_row_def task_key_def)
  fix q assume "q \<in> set (db_tasks db)"
  then have ok: "row_ok (db_commands db) (db_evidence db) act q" by (rule svc_invD(9)[OF inv])
  have "fail_start_row a q = q \<or> fail_start_row a q = bump St_failed q"
    by (simp add: fail_start_row_def bump_def)
  then show "row_ok (db_commands db) (db_evidence db) act (fail_start_row a q)"
    using ok row_ok_bump[OF ok, of St_failed] by auto
qed

text \<open>Completing a verification rewrites the one evidence row it claimed.\<close>

lemma update_evidence_mem:
  "e \<in> set (db_evidence db) \<Longrightarrow>
   (if evidence_key e = (ws, cmd) then e\<lparr>e_payload := v\<rparr> else e) \<in> set (db_evidence (update_evidence ws cmd v db))"
  by (auto simp: update_evidence_def)

lemma update_evidence_simps [simp]:
  "db_tasks (update_evidence ws cmd v db) = db_tasks db"
  "db_commands (update_evidence ws cmd v db) = db_commands db"
  "map evidence_key (db_evidence (update_evidence ws cmd v db)) = map evidence_key (db_evidence db)"
  by (simp_all add: update_evidence_def evidence_key_def)

lemma svc_inv_complete:
  assumes inv: "svc_inv (db, as @ (ws, i, cmd, p) # bs)"
    and v: "v_operationState v = Op_finished"
    and st: "st = (if v_status v = Ev_passed then St_review_ready else St_failed)"
  shows "svc_inv (update_task ws i (bump st) (update_evidence ws cmd v db), as @ bs)"
proof -
  let ?db = "update_evidence ws cmd v db"
  let ?e = "\<lparr>e_workspace = ws, e_task = i, e_command = cmd, e_payload = p\<rparr>"
  have e: "?e \<in> set (db_evidence db)" "v_operationState p = Op_running"
    using svc_invD(7,8)[OF inv, of ws i cmd p] by simp_all
  have claimed: "\<lparr>e_workspace = ws, e_task = i, e_command = cmd, e_payload = v\<rparr> \<in> set (db_evidence ?db)"
    using update_evidence_mem[OF e(1), of ws cmd v] by (simp add: evidence_key_def)
  have same: "e' = ?e" if "e' \<in> set (db_evidence db)" "evidence_key e' = (ws, cmd)" for e'
    using that e(1) svc_invD(3)[OF inv] by (metis distinct_map evidence_key_def evidence_row.select_convs(1,3) inj_onD)
  have keep: "\<exists>e' \<in> set (db_evidence ?db). (e_workspace e', e_task e') = k \<and> finished_pass e'"
    if "\<exists>e' \<in> set (db_evidence db). (e_workspace e', e_task e') = k \<and> finished_pass e'" for k
  proof -
    from that obtain e' where e': "e' \<in> set (db_evidence db)" "(e_workspace e', e_task e') = k" "finished_pass e'"
      by blast
    then have "e' \<noteq> ?e" using e(2) by (auto simp: finished_pass_def)
    then have "evidence_key e' \<noteq> (ws, cmd)" using same e'(1) by blast
    then show ?thesis using update_evidence_mem[OF e'(1), of ws cmd v] e'(2,3) by auto
  qed
  have others: "row_ok (db_commands db) (db_evidence ?db) (as @ bs) r"
    if "r \<in> set (db_tasks db)" "task_key r \<noteq> (ws, i)" for r
  proof -
    have ok: "row_ok (db_commands db) (db_evidence db) (as @ (ws, i, cmd, p) # bs) r"
      using svc_invD(9)[OF inv that(1)] .
    show ?thesis
    proof (rule row_okI)
      show "1 \<le> w_revision r" by (rule row_okD(1)[OF ok])
      show "1 < k_revision k \<and> k_revision k \<le> w_revision r"
        if "k \<in> set (db_commands db)" "(k_workspace k, k_task k) = task_key r" for k
        by (rule row_okD(2)[OF ok that])
      show "\<exists>e \<in> set (db_evidence ?db). (e_workspace e, e_task e) = task_key r \<and> finished_pass e"
        if "w_status r \<in> {St_review_ready, St_completed}"
        by (rule keep[OF row_okD(3)[OF ok that]])
      show "\<exists>cmd v. (w_workspace r, w_id r, cmd, v) \<in> set (as @ bs)" if "w_status r = St_verifying"
        using row_okD(4)[OF ok that] \<open>task_key r \<noteq> (ws, i)\<close> by (auto simp: task_key_def)
      show "w_agent r \<noteq> None" if "w_status r = St_running"
        by (rule row_okD(5)[OF ok that])
    qed
  qed
  have own: "row_ok (db_commands db) (db_evidence ?db) (as @ bs) (bump st r)"
    if "r \<in> set (db_tasks db)" "task_key r = (ws, i)" for r
  proof (rule row_ok_bump[OF svc_invD(9)[OF inv that(1)]])
    show "\<exists>e \<in> set (db_evidence ?db). (e_workspace e, e_task e) = task_key r \<and> finished_pass e"
      if "st \<in> {St_review_ready, St_completed}"
      using that st v claimed \<open>task_key r = (ws, i)\<close>
      by (intro bexI[OF _ claimed]) (auto simp: finished_pass_def split: if_splits)
  qed (use st in \<open>auto split: if_splits\<close>)
  show ?thesis
  proof (rule svc_inv_intro)
    fix r assume "r \<in> set (db_tasks (update_task ws i (bump st) ?db))"
    then show "row_ok (db_commands (update_task ws i (bump st) ?db)) (db_evidence (update_task ws i (bump st) ?db)) (as @ bs) r"
      by (cases rule: update_task_mem) (use others own in auto)
  next
    fix e assume "e \<in> set (db_evidence (update_task ws i (bump st) ?db))"
    then obtain e' where e': "e' \<in> set (db_evidence db)" "e_workspace e = e_workspace e'" "e_task e = e_task e'"
      by (auto simp: update_evidence_def)
    then show "(e_workspace e, e_task e) \<in> task_key ` set (db_tasks (update_task ws i (bump st) ?db))"
      using svc_invD(5)[OF inv e'(1)] by (simp add: update_task_keys)
  next
    fix ws' i' cmd' v' assume a: "(ws', i', cmd', v') \<in> set (as @ bs)"
    have "(ws', cmd') \<noteq> (ws, cmd)"
      using svc_invD(6)[OF inv] a by (force simp: active_key_def)
    moreover have "v_operationState v' = Op_running"
      "\<lparr>e_workspace = ws', e_task = i', e_command = cmd', e_payload = v'\<rparr> \<in> set (db_evidence db)"
      using svc_invD(7,8)[OF inv, of ws' i' cmd' v'] a by auto
    ultimately show "v_operationState v' = Op_running \<and>
        \<lparr>e_workspace = ws', e_task = i', e_command = cmd', e_payload = v'\<rparr>
          \<in> set (db_evidence (update_task ws i (bump st) ?db))"
      using update_evidence_mem[of "\<lparr>e_workspace = ws', e_task = i', e_command = cmd', e_payload = v'\<rparr>" db ws cmd v]
      by (auto simp: evidence_key_def)
  qed (use svc_invD(1-4,6)[OF inv] in \<open>simp_all add: update_task_keys\<close>)
qed

lemma finish_evidence_finished: "v_operationState (finish_evidence p outcome) = Op_finished"
  by (simp add: finish_evidence_def split: sum.split)

lemma svc_step_inv:
  assumes "svc_step sha cwdOf s s'" "svc_inv s"
  shows "svc_inv s'"
  using assms
proof (induction rule: svc_step.induct)
  case (step_create now inp db r db' act)
  show ?case
    using step_create.hyps unfolding svc_create_def
  proof (cases rule: with_get_cases)
    case (2 x)
    from this(1) show ?thesis
    proof (cases rule: create_body_cases)
      case (2 i)
      then show ?thesis
        using step_create.prems by (auto simp: new_row_def intro!: svc_inv_create)
    qed (use step_create.prems in simp)
  qed (use step_create.prems in simp)
next
  case (step_command inp db r db' act)
  show ?case
    using step_command.hyps unfolding svc_command_def
  proof (cases rule: with_get_cases)
    case (2 x)
    from this(1) show ?thesis
    proof (cases rule: command_body_cases)
      case (2 q st)
      have "next_agent inp q \<noteq> None" if "st = St_running"
        using 2(5) that by (auto simp: nextStatus_def next_agent_def split: cmd_action.splits if_splits option.splits)
      then show ?thesis
        unfolding 2(6) by (rule svc_inv_command[OF step_command.prems 2(2,3,5)])
    qed (use step_command.prems in simp)
  qed (use step_command.prems in simp)
next
  case (step_failStart ws i agentId db r db' act)
  from step_failStart.hyps show ?case
    by (cases rule: failStart_cases) (use step_failStart.prems svc_inv_failStart in auto)
next
  case (step_claim now ws i cmd cwd db dir check pending db' act)
  from step_claim.hyps show ?case
  proof (cases rule: verify_start_cases)
    case (2 q dir')
    then show ?thesis
      using svc_inv_claim[OF step_claim.prems 2(1,2), of pending] by (simp add: pending_evidence_def)
  qed simp
next
  case (step_known now ws i cmd cwd db r db' act)
  from step_known.hyps(1) show ?case
    by (cases rule: verify_start_cases) (use step_known in auto)
next
  case (step_complete act as ws i cmd pending bs outcome db r db')
  then have "db' = snd (completeVerification cwdOf ws i cmd pending outcome db)"
    and inv: "svc_inv (db, as @ (ws, i, cmd, pending) # bs)" by simp_all
  then show ?case
    unfolding completeVerification_db
    by (simp only: svc_inv_complete[OF inv finish_evidence_finished refl])
qed

lemma svc_inv_empty: "svc_inv (empty_db, [])"
  by (rule svc_inv_intro) (simp_all add: empty_db_def)

lemma svc_reachable_inv:
  assumes "svc_reachable sha cwdOf s"
  shows "svc_inv s"
  using assms unfolding svc_reachable_def
  by (induction rule: rtranclp_induct) (auto intro: svc_inv_empty svc_step_inv)

section \<open>Rows and receipts persist\<close>

text \<open>A row of the later state continues the earlier one: its revision never goes down.\<close>

definition continues :: "svc_db \<Rightarrow> svc_db \<Rightarrow> bool" where
  "continues db db' \<longleftrightarrow>
     (\<forall>ws i r. svc_row db ws i = Some r \<longrightarrow>
        (\<exists>r'. svc_row db' ws i = Some r' \<and> (r' = r \<or> w_revision r < w_revision r')
          \<and> w_hash r' = w_hash r \<and> w_check r' = w_check r \<and> w_criteria r' = w_criteria r))
     \<and> (\<forall>k x. find_row command_key k (db_commands db) = Some x \<longrightarrow>
          find_row command_key k (db_commands db') = Some x)"

lemma continuesD:
  assumes "continues db db'"
  shows "svc_row db ws i = Some r \<Longrightarrow>
     \<exists>r'. svc_row db' ws i = Some r' \<and> (r' = r \<or> w_revision r < w_revision r')
       \<and> w_hash r' = w_hash r \<and> w_check r' = w_check r \<and> w_criteria r' = w_criteria r"
    "find_row command_key k (db_commands db) = Some x \<Longrightarrow>
     find_row command_key k (db_commands db') = Some x"
  using assms unfolding continues_def by blast+

lemma continues_refl: "continues db db"
  by (simp add: continues_def)

lemma continues_trans:
  assumes "continues a b" "continues b c"
  shows "continues a c"
  unfolding continues_def
proof (intro conjI allI impI)
  fix ws i r assume "svc_row a ws i = Some r"
  then obtain r' where r': "svc_row b ws i = Some r'" "r' = r \<or> w_revision r < w_revision r'"
    "w_hash r' = w_hash r" "w_check r' = w_check r" "w_criteria r' = w_criteria r"
    using continuesD(1)[OF assms(1)] by blast
  then obtain r'' where "svc_row c ws i = Some r''" "r'' = r' \<or> w_revision r' < w_revision r''"
    "w_hash r'' = w_hash r'" "w_check r'' = w_check r'" "w_criteria r'' = w_criteria r'"
    using continuesD(1)[OF assms(2)] by blast
  with r' show "\<exists>r'. svc_row c ws i = Some r' \<and> (r' = r \<or> w_revision r < w_revision r')
      \<and> w_hash r' = w_hash r \<and> w_check r' = w_check r \<and> w_criteria r' = w_criteria r"
    by (intro exI[of _ r'']) auto
qed (use continuesD(2)[OF assms(1)] continuesD(2)[OF assms(2)] in blast)

lemma svc_row_update:
  assumes "\<And>r. task_key (f r) = task_key r"
  shows "svc_row (update_task ws i f db) ws' i' =
    map_option (\<lambda>r. if task_key r = (ws, i) then f r else r) (svc_row db ws' i')"
  unfolding svc_row_def update_task_def using assms by (simp add: find_row_map)

lemma continues_update:
  assumes "\<And>r. task_key (f r) = task_key r"
    and "\<And>r. svc_row db ws i = Some r \<Longrightarrow>
      (f r = r \<or> w_revision r < w_revision (f r)) \<and> w_hash (f r) = w_hash r \<and> w_check (f r) = w_check r
      \<and> w_criteria (f r) = w_criteria r"
    and "db_tasks db' = db_tasks db" "db_commands db' = db_commands db @ ks"
  shows "continues db (update_task ws i f db')"
  unfolding continues_def
proof (intro conjI allI impI)
  fix ws' i' r assume r: "svc_row db ws' i' = Some r"
  then have "svc_row (update_task ws i f db') ws' i' = Some (if task_key r = (ws, i) then f r else r)"
    using svc_row_update[OF assms(1), of ws i db' ws' i'] assms(3) by (simp add: svc_row_def)
  moreover have "svc_row db ws i = Some r" if "task_key r = (ws, i)"
    using r that svc_row_key[OF r] by simp
  ultimately show "\<exists>r'. svc_row (update_task ws i f db') ws' i' = Some r' \<and> (r' = r \<or> w_revision r < w_revision r')
      \<and> w_hash r' = w_hash r \<and> w_check r' = w_check r \<and> w_criteria r' = w_criteria r"
    using assms(2)[of r] by auto
next
  fix k x assume "find_row command_key k (db_commands db) = Some x"
  then show "find_row command_key k (db_commands (update_task ws i f db')) = Some x"
    unfolding update_task_tables assms(4) by (rule find_row_append)
qed

lemma continues_bump:
  assumes "db_tasks db' = db_tasks db" "db_commands db' = db_commands db"
  shows "continues db (update_task ws i (bump st) db')"
  by (rule continues_update[where ks = "[]"]) (use assms in simp_all)

lemma svc_step_continues:
  assumes "svc_step sha cwdOf s s'"
  shows "continues (fst s) (fst s')"
  using assms
proof (induction rule: svc_step.induct)
  case (step_create now inp db r db' act)
  show ?case
    using step_create.hyps unfolding svc_create_def
  proof (cases rule: with_get_cases)
    case (2 x)
    from this(1) show ?thesis
    proof (cases rule: create_body_cases)
      case (2 i)
      then show ?thesis
        by (auto simp: continues_def svc_row_def find_row_append)
    qed (simp add: continues_refl)
  qed (simp add: continues_refl)
next
  case (step_command inp db r db' act)
  show ?case
    using step_command.hyps unfolding svc_command_def
  proof (cases rule: with_get_cases)
    case (2 x)
    from this(1) show ?thesis
    proof (cases rule: command_body_cases)
      case (2 q st)
      have "continues db db'"
        unfolding 2(6) by (rule continues_update) (use 2(2) in \<open>auto simp: task_key_def\<close>)
      then show ?thesis by simp
    qed (simp add: continues_refl)
  qed (simp add: continues_refl)
next
  case (step_failStart ws i agentId db r db' act)
  have up: "continues db (update_task ws i (fail_start_row agentId) db)"
    by (rule continues_update[where ks = "[]"]) (simp_all add: fail_start_row_def task_key_def)
  from step_failStart.hyps show ?case
    by (cases rule: failStart_cases) (simp_all add: continues_refl up)
next
  case (step_claim now ws i cmd cwd db dir check pending db' act)
  from step_claim.hyps show ?case
    by (cases rule: verify_start_cases) (simp_all add: continues_bump)
next
  case (step_known now ws i cmd cwd db r db' act)
  from step_known.hyps(1) show ?case
    by (cases rule: verify_start_cases) (use step_known continues_refl in auto)
next
  case (step_complete act as ws i cmd pending bs outcome db r db')
  then have "db' = snd (completeVerification cwdOf ws i cmd pending outcome db)" by simp
  then show ?case
    unfolding completeVerification_db by (simp add: continues_bump)
qed

lemma svc_steps_continue:
  "(svc_step sha cwdOf)\<^sup>*\<^sup>* s s' \<Longrightarrow> continues (fst s) (fst s')"
  by (induction rule: rtranclp_induct) (auto intro: continues_refl continues_trans svc_step_continues)

section \<open>Results of a call\<close>

lemma svc_get_row: "cwdOf ws = Some d \<Longrightarrow> svc_row db ws i = Some r \<Longrightarrow> svc_get cwdOf ws i db = Inr (project db r)"
  by (simp add: svc_get_def workspace_def)

lemma svc_command_accepted:
  assumes "svc_command sha cwdOf inp db = (Inr (p, False), db')"
  obtains q where "svc_row db (j_workspaceId inp) (j_taskId inp) = Some q"
    "w_revision q = j_expectedRevision inp" "cwdOf (j_workspaceId inp) \<noteq> None"
    "\<exists>st. nextStatus (j_action inp) (w_status q) (j_agentId inp) = Inr st"
    "\<exists>r'. svc_row db' (j_workspaceId inp) (j_taskId inp) = Some r' \<and> w_revision r' = w_revision q + 1"
    "\<exists>x. find_row command_key (j_workspaceId inp, j_commandId inp) (db_commands db') = Some x
        \<and> k_hash x = inputHash sha inp"
  using assms unfolding svc_command_def
proof (cases rule: with_get_cases)
  case (2 x)
  have ws: "cwdOf (j_workspaceId inp) \<noteq> None"
    using assms by (auto simp: svc_command_def with_get_def workspace_def split: option.splits)
  have "x = False" using 2(2) by (cases "svc_get cwdOf (j_workspaceId inp) (j_taskId inp) db'") auto
  from 2(1) show thesis
  proof (cases rule: command_body_cases)
    case (2 q st)
    let ?f = "\<lambda>x. x\<lparr>w_status := st, w_revision := w_revision q + 1, w_agent := next_agent inp q\<rparr>"
    let ?k = "\<lparr>k_workspace = j_workspaceId inp, k_task = j_taskId inp, k_command = j_commandId inp,
               k_hash = inputHash sha inp, k_revision = w_revision q + 1\<rparr>"
    have "svc_row db' (j_workspaceId inp) (j_taskId inp) = Some (?f q)"
      unfolding 2(6) using 2(2) svc_row_key[OF 2(2)]
      by (subst svc_row_update) (simp_all add: task_key_def svc_row_def)
    moreover have "find_row command_key (j_workspaceId inp, j_commandId inp) (db_commands db') = Some ?k"
      unfolding 2(6) using 2(3) by (simp add: find_row_append_new command_key_def)
    ultimately show thesis
      using that[OF 2(2,4) ws] 2(5) by simp
  qed (use \<open>x = False\<close> in simp)
qed simp

section \<open>Properties\<close>

text \<open>
  C20. No task is ready for review or completed without proof: in every reachable state, whatever
  the interleaving of commands and verifications, such a task has a finished verification of its
  own that passed.
\<close>

theorem reviewed_tasks_passed:
  assumes "svc_reachable sha cwdOf (db, act)" "r \<in> set (db_tasks db)"
    "w_status r \<in> {St_review_ready, St_completed}"
  shows "\<exists>e \<in> set (db_evidence db). e_workspace e = w_workspace r \<and> e_task e = w_id r
    \<and> v_operationState (e_payload e) = Op_finished \<and> v_status (e_payload e) = Ev_passed"
  using row_okD(3)[OF svc_invD(9)[OF svc_reachable_inv[OF assms(1)] assms(2)] assms(3)]
  by (auto simp: task_key_def finished_pass_def)

text \<open>
  No task is left verifying: while the service runs, a task in that status always has an
  active verification whose completion moves it on, and a running task has an agent.
\<close>

theorem verifying_tasks_are_active:
  assumes "svc_reachable sha cwdOf (db, act)" "r \<in> set (db_tasks db)"
  shows "(w_status r = St_running \<longrightarrow> w_agent r \<noteq> None)
    \<and> (w_status r = St_verifying \<longrightarrow>
        (\<exists>as cmd v bs. act = as @ (w_workspace r, w_id r, cmd, v) # bs
          \<and> (\<forall>outcome. \<exists>r'. svc_row (snd (completeVerification cwdOf (w_workspace r) (w_id r) cmd v outcome db))
                (w_workspace r) (w_id r) = Some r'
                \<and> w_status r' \<in> {St_review_ready, St_failed})))"
proof -
  have inv: "svc_inv (db, act)" by (rule svc_reachable_inv[OF assms(1)])
  have ok: "row_ok (db_commands db) (db_evidence db) act r" by (rule svc_invD(9)[OF inv assms(2)])
  have row: "svc_row db (w_workspace r) (w_id r) = Some r"
    using find_row_unique[OF svc_invD(1)[OF inv] assms(2)] by (simp add: svc_row_def task_key_def)
  have "svc_row (snd (completeVerification cwdOf (w_workspace r) (w_id r) cmd v outcome db)) (w_workspace r) (w_id r)
      = Some (bump (if v_status (finish_evidence v outcome) = Ev_passed then St_review_ready else St_failed) r)"
    for cmd v outcome
    unfolding completeVerification_db using row
    by (subst svc_row_update) (simp_all add: svc_row_def task_key_def)
  then have moves: "\<exists>r'. svc_row (snd (completeVerification cwdOf (w_workspace r) (w_id r) cmd v outcome db))
      (w_workspace r) (w_id r) = Some r' \<and> w_status r' \<in> {St_review_ready, St_failed}" for cmd v outcome
    by simp
  show ?thesis
  proof (intro conjI impI)
    show "w_agent r \<noteq> None" if "w_status r = St_running" by (rule row_okD(5)[OF ok that])
    assume "w_status r = St_verifying"
    then obtain cmd v where "(w_workspace r, w_id r, cmd, v) \<in> set act"
      using row_okD(4)[OF ok] by blast
    then show "\<exists>as cmd v bs. act = as @ (w_workspace r, w_id r, cmd, v) # bs
          \<and> (\<forall>outcome. \<exists>r'. svc_row (snd (completeVerification cwdOf (w_workspace r) (w_id r) cmd v outcome db))
                (w_workspace r) (w_id r) = Some r' \<and> w_status r' \<in> {St_review_ready, St_failed})"
      using moves by (meson split_list)
  qed
qed

text \<open>
  C39. The database keeps its integrity: keys are unique in the three tables, every receipt and
  every evidence row belongs to a task, revisions start at one, and a receipt's revision is one
  that the task has reached.
\<close>

theorem service_integrity:
  assumes "svc_reachable sha cwdOf (db, act)"
  shows "distinct (map task_key (db_tasks db)) \<and> distinct (map command_key (db_commands db))
    \<and> distinct (map evidence_key (db_evidence db))
    \<and> (\<forall>e \<in> set (db_evidence db). \<exists>r \<in> set (db_tasks db). task_key r = (e_workspace e, e_task e))
    \<and> (\<forall>k \<in> set (db_commands db). \<exists>r \<in> set (db_tasks db). task_key r = (k_workspace k, k_task k)
          \<and> 1 < k_revision k \<and> k_revision k \<le> w_revision r)
    \<and> (\<forall>r \<in> set (db_tasks db). 1 \<le> w_revision r)"
proof -
  have inv: "svc_inv (db, act)" by (rule svc_reachable_inv[OF assms])
  have "\<exists>r \<in> set (db_tasks db). task_key r = (k_workspace k, k_task k) \<and> 1 < k_revision k \<and> k_revision k \<le> w_revision r"
    if k: "k \<in> set (db_commands db)" for k
  proof -
    obtain r where r: "r \<in> set (db_tasks db)" "task_key r = (k_workspace k, k_task k)"
      using svc_invD(4)[OF inv k] by auto
    then show ?thesis using row_okD(2)[OF svc_invD(9)[OF inv r(1)] k] by auto
  qed
  moreover have "\<exists>r \<in> set (db_tasks db). task_key r = (e_workspace e, e_task e)"
    if "e \<in> set (db_evidence db)" for e
    using svc_invD(5)[OF inv that] by auto
  moreover have "1 \<le> w_revision r" if "r \<in> set (db_tasks db)" for r
    by (rule row_okD(1)[OF svc_invD(9)[OF inv that]])
  ultimately show ?thesis using svc_invD(1-3)[OF inv] by blast
qed

text \<open>
  Command ids make retries idempotent: once a command was accepted, the same command, at any
  later time and whatever agent it names, is answered as a duplicate and changes nothing.
\<close>

theorem command_retry_is_duplicate:
  assumes "svc_command sha cwdOf inp db = (Inr (p, False), db1)"
    "(svc_step sha cwdOf)\<^sup>*\<^sup>* (db1, act1) (db2, act2)"
  shows "\<exists>p'. svc_command sha cwdOf (inp\<lparr>j_agentId := agent\<rparr>) db2 = (Inr (p', True), db2)"
proof -
  obtain q where qs: "svc_row db (j_workspaceId inp) (j_taskId inp) = Some q"
    "w_revision q = j_expectedRevision inp" "cwdOf (j_workspaceId inp) \<noteq> None"
    "\<exists>st. nextStatus (j_action inp) (w_status q) (j_agentId inp) = Inr st"
    "\<exists>r'. svc_row db1 (j_workspaceId inp) (j_taskId inp) = Some r' \<and> w_revision r' = w_revision q + 1"
    "\<exists>x. find_row command_key (j_workspaceId inp, j_commandId inp) (db_commands db1) = Some x
        \<and> k_hash x = inputHash sha inp"
    by (rule svc_command_accepted[OF assms(1)])
  note q = qs(3,5,6)
  have "continues db1 db2" using svc_steps_continue[OF assms(2)] by simp
  then obtain r x where r: "svc_row db2 (j_workspaceId inp) (j_taskId inp) = Some r"
    and x: "find_row command_key (j_workspaceId inp, j_commandId inp) (db_commands db2) = Some x"
      "k_hash x = inputHash sha inp"
    using q(2,3) continuesD[of db1 db2] by metis
  have "inputHash sha (inp\<lparr>j_agentId := agent\<rparr>) = inputHash sha inp"
    by (simp add: inputHash_def)
  then have "command_body sha (inp\<lparr>j_agentId := agent\<rparr>) db2 = (Inr True, db2)"
    using r x by (simp add: command_body_def Let_def)
  then show ?thesis
    using q(1) r by (auto simp: svc_command_def with_get_def workspace_def transaction_def svc_get_def)
qed

text \<open>
  C38. Revisions reject stale updates: of two different commands issued for the same revision of a
  task, once one was accepted the other is refused at any later time, with nothing changed.
\<close>

theorem stale_revision_rejected:
  assumes "svc_command sha cwdOf inp db = (Inr (p, False), db1)"
    "(svc_step sha cwdOf)\<^sup>*\<^sup>* (db1, act1) (db2, act2)"
    "j_workspaceId inp2 = j_workspaceId inp" "j_taskId inp2 = j_taskId inp"
    "j_expectedRevision inp2 = j_expectedRevision inp"
    "find_row command_key (j_workspaceId inp2, j_commandId inp2) (db_commands db2) = None"
  shows "\<exists>cur. j_expectedRevision inp < cur
    \<and> svc_command sha cwdOf inp2 db2 = (Inl (Revision_conflict (j_expectedRevision inp) cur), db2)"
proof -
  obtain q where qs: "svc_row db (j_workspaceId inp) (j_taskId inp) = Some q"
    "w_revision q = j_expectedRevision inp" "cwdOf (j_workspaceId inp) \<noteq> None"
    "\<exists>st. nextStatus (j_action inp) (w_status q) (j_agentId inp) = Inr st"
    "\<exists>r'. svc_row db1 (j_workspaceId inp) (j_taskId inp) = Some r' \<and> w_revision r' = w_revision q + 1"
    "\<exists>x. find_row command_key (j_workspaceId inp, j_commandId inp) (db_commands db1) = Some x
        \<and> k_hash x = inputHash sha inp"
    by (rule svc_command_accepted[OF assms(1)])
  note q = qs(2,3,5)
  have "continues db1 db2" using svc_steps_continue[OF assms(2)] by simp
  then obtain r where r: "svc_row db2 (j_workspaceId inp) (j_taskId inp) = Some r"
    "j_expectedRevision inp < w_revision r"
    using q(1,3) continuesD(1)[of db1 db2] by fastforce
  then have "command_body sha inp2 db2 = (Inl (Revision_conflict (j_expectedRevision inp) (w_revision r)), db2)"
    using assms(3-6) by (simp add: command_body_def Let_def)
  then show ?thesis
    using q(2) r(2) assms(3) by (auto simp: svc_command_def with_get_def workspace_def transaction_def)
qed

text \<open>
  A call that is rejected leaves the database as it was: unknown workspace or task, command
  id conflict, stale revision, forbidden transition and constraint violation alike.
\<close>

theorem rejected_calls_change_nothing:
  "(svc_create sha cwdOf now inp db = (Inl e, db') \<longrightarrow> db' = db)
   \<and> (svc_command sha cwdOf cinp db = (Inl e, db') \<longrightarrow> db' = db)
   \<and> (failStart cwdOf ws i agentId db = (Inl e, db') \<longrightarrow> db' = db)
   \<and> (verify_start cwdOf now ws i cmd cwd db = (Inl e, db') \<longrightarrow> db' = db)"
proof (intro conjI impI)
  assume c: "svc_create sha cwdOf now inp db = (Inl e, db')"
  then show "db' = db" unfolding svc_create_def
  proof (cases rule: with_get_cases)
    case (2 x)
    from 2(1) show ?thesis
    proof (cases rule: create_body_cases)
      case (2 i)
      have "svc_row db' (i_workspaceId inp) i = Some (new_row i (createRequestHash sha inp) now inp)"
        using 2(3) unfolding 2(4) svc_row_def by (simp add: find_row_append_new new_row_def task_key_def)
      then show ?thesis
        using c 2(1,4) \<open>create_body sha now inp db = (Inr x, db')\<close>
        by (auto simp: svc_create_def with_get_def transaction_def workspace_def svc_get_def split: option.splits)
    qed simp
  qed simp
next
  assume c: "svc_command sha cwdOf cinp db = (Inl e, db')"
  then show "db' = db" unfolding svc_command_def
  proof (cases rule: with_get_cases)
    case (2 x)
    from 2(1) show ?thesis
    proof (cases rule: command_body_cases)
      case (2 q st)
      have "svc_row db' (j_workspaceId cinp) (j_taskId cinp) \<noteq> None"
        unfolding 2(6) using 2(2) by (subst svc_row_update) (simp_all add: task_key_def svc_row_def)
      then show ?thesis
        using c \<open>command_body sha cinp db = (Inr x, db')\<close>
        by (auto simp: svc_command_def with_get_def transaction_def workspace_def svc_get_def split: option.splits)
    qed simp
  qed simp
next
  assume "failStart cwdOf ws i agentId db = (Inl e, db')"
  then show "db' = db" by (cases rule: failStart_cases) simp_all
next
  assume "verify_start cwdOf now ws i cmd cwd db = (Inl e, db')"
  then show "db' = db" by (cases rule: verify_start_cases) simp_all
qed

text \<open>
  \<open>verify\<close> looks at neither status nor revision: a verification with a new command id moves a
  task out of any status, also out of \<open>completed\<close> and \<open>cancelled\<close>, and a check that does not pass
  leaves the task that a user had accepted as failed.
\<close>

theorem verify_reopens_any_task:
  assumes "svc_row db ws i = Some r" "cwdOf ws = Some dir"
    "find_row evidence_key (ws, cmd) (db_evidence db) = None"
  shows "\<exists>check pending db1. verify_start cwdOf now ws i cmd cwd db =
        (Inr (Claimed (case cwd of None \<Rightarrow> dir | Some d \<Rightarrow> d) check pending), db1)
    \<and> svc_row db1 ws i = Some (r\<lparr>w_status := St_verifying, w_revision := w_revision r + 1\<rparr>)
    \<and> svc_row (snd (completeVerification cwdOf ws i cmd pending (Inl msg) db1)) ws i =
        Some (r\<lparr>w_status := St_failed, w_revision := w_revision r + 2\<rparr>)"
proof -
  let ?p = "pending_evidence now i cmd (w_check r)"
  let ?db1 = "update_task ws i (bump St_verifying)
      (db\<lparr>db_evidence := db_evidence db @ [\<lparr>e_workspace = ws, e_task = i, e_command = cmd, e_payload = ?p\<rparr>]\<rparr>)"
  have key: "task_key r = (ws, i)" using svc_row_key[OF assms(1)] by simp
  have start: "verify_start cwdOf now ws i cmd cwd db =
      (Inr (Claimed (case cwd of None \<Rightarrow> dir | Some d \<Rightarrow> d) (w_check r) ?p), ?db1)"
    using assms claim_fresh[OF assms(3,1), of ?p] by (simp add: verify_start_def workspace_def Let_def)
  have row1: "svc_row ?db1 ws i = Some (bump St_verifying r)"
    using assms(1) key by (subst svc_row_update) (simp_all add: svc_row_def)
  have "svc_row (update_evidence ws cmd v ?db1) ws i = svc_row ?db1 ws i" for v
    by (simp add: svc_row_def)
  then have "svc_row (snd (completeVerification cwdOf ws i cmd ?p (Inl msg) ?db1)) ws i = Some (bump St_failed (bump St_verifying r))"
    unfolding completeVerification_db using row1 key
    by (subst svc_row_update) (simp_all add: finish_evidence_def)
  then show ?thesis
    using start row1 by (intro exI[of _ "w_check r"] exI[of _ ?p] exI[of _ ?db1]) (simp add: bump_def)
qed

section \<open>A concrete run\<close>

text \<open>A task is created, started by an agent, verified with success and accepted.\<close>

definition demo_sha :: "string \<Rightarrow> string" where
  "demo_sha s = s"

definition demo_cwd :: "string \<Rightarrow> string option" where
  "demo_cwd ws = Some ''/repo''"

definition demo_check :: task_check where
  "demo_check = \<lparr>ck_id = ''k'', ck_command = ''make'', ck_timeoutMs = 1000\<rparr>"

definition demo_create_input :: create_input where
  "demo_create_input =
     \<lparr>i_workspaceId = ''w'', i_title = ''T'', i_prompt = ''P'', i_providerId = ''codex'',
      i_acceptanceCriteria = [], i_checks = [demo_check], i_commandId = ''c''\<rparr>"

definition demo_id :: string where
  "demo_id = newTaskId demo_sha ''w'' ''c''"

definition demo_command :: "cmd_action \<Rightarrow> string \<Rightarrow> int \<Rightarrow> string option \<Rightarrow> command_input" where
  "demo_command a cmd n agent =
     \<lparr>j_workspaceId = ''w'', j_taskId = demo_id, j_commandId = cmd, j_expectedRevision = n,
      j_action = a, j_agentId = agent\<rparr>"

definition demo_pass :: verification where
  "demo_pass =
     \<lparr>n_command = ''make'', n_startedAt = ''t'', n_durationMs = 5, n_status = Ev_passed,
      n_exitCode = Some 0, n_stdout = [], n_stderr = [],
      n_snapshot = \<lparr>sn_id = ''s'', sn_baseCommit = ''b'', sn_trackedDiffHash = ''d'',
                     sn_untrackedManifestHash = ''u''\<rparr>,
      n_resultingSnapshotId = ''s''\<rparr>"

definition demo_pending :: evidence where
  "demo_pending = pending_evidence ''now'' demo_id ''v1'' demo_check"

definition demo_db1 :: svc_db where
  "demo_db1 = snd (svc_create demo_sha demo_cwd ''now'' demo_create_input empty_db)"

definition demo_db2 :: svc_db where
  "demo_db2 = snd (svc_command demo_sha demo_cwd (demo_command Act_start ''s1'' 1 (Some ''agent'')) demo_db1)"

definition demo_db3 :: svc_db where
  "demo_db3 = snd (verify_start demo_cwd ''now'' ''w'' demo_id ''v1'' None demo_db2)"

definition demo_db4 :: svc_db where
  "demo_db4 = snd (completeVerification demo_cwd ''w'' demo_id ''v1'' demo_pending (Inr demo_pass) demo_db3)"

definition demo_db5 :: svc_db where
  "demo_db5 = snd (svc_command demo_sha demo_cwd (demo_command Act_accept ''a1'' 4 None) demo_db4)"

lemma demo_claim:
  "verify_start demo_cwd ''now'' ''w'' demo_id ''v1'' None demo_db2 =
     (Inr (Claimed ''/repo'' demo_check demo_pending), demo_db3)"
  by code_simp

lemma demo_statuses:
  "map w_status (db_tasks demo_db3) = [St_verifying]" "map w_status (db_tasks demo_db5) = [St_completed]"
  "map w_revision (db_tasks demo_db5) = [5]"
  by code_simp+

lemma svc_reachable_init: "svc_reachable sha cwdOf (empty_db, [])"
  by (simp add: svc_reachable_def)

lemma svc_reachable_step: "svc_reachable sha cwdOf s \<Longrightarrow> svc_step sha cwdOf s s' \<Longrightarrow> svc_reachable sha cwdOf s'"
  unfolding svc_reachable_def by (rule rtranclp.rtrancl_into_rtrancl)

lemma demo_svc_reachable:
  "svc_reachable demo_sha demo_cwd (demo_db3, [(''w'', demo_id, ''v1'', demo_pending)])"
  "svc_reachable demo_sha demo_cwd (demo_db5, [])"
proof -
  have s1: "svc_step demo_sha demo_cwd (empty_db, []) (demo_db1, [])"
    by (rule step_create) (simp add: demo_db1_def prod_eq_iff)
  have s2: "svc_step demo_sha demo_cwd (demo_db1, []) (demo_db2, [])"
    by (rule step_command) (simp add: demo_db2_def prod_eq_iff)
  have s3: "svc_step demo_sha demo_cwd (demo_db2, []) (demo_db3, [(''w'', demo_id, ''v1'', demo_pending)])"
    using step_claim[OF demo_claim, of demo_sha "[]"] by simp
  have s4: "svc_step demo_sha demo_cwd (demo_db3, [(''w'', demo_id, ''v1'', demo_pending)]) (demo_db4, [])"
    using step_complete[of "[(''w'', demo_id, ''v1'', demo_pending)]" "[]" "''w''" demo_id "''v1''" demo_pending "[]"
        demo_cwd "Inr demo_pass" demo_db3 "fst (completeVerification demo_cwd ''w'' demo_id ''v1'' demo_pending (Inr demo_pass) demo_db3)"
        demo_db4 demo_sha]
    by (simp add: demo_db4_def prod_eq_iff)
  have s5: "svc_step demo_sha demo_cwd (demo_db4, []) (demo_db5, [])"
    by (rule step_command) (simp add: demo_db5_def prod_eq_iff)
  show r3: "svc_reachable demo_sha demo_cwd (demo_db3, [(''w'', demo_id, ''v1'', demo_pending)])"
    by (rule svc_reachable_step[OF svc_reachable_step[OF svc_reachable_step[OF svc_reachable_init s1] s2] s3])
  show "svc_reachable demo_sha demo_cwd (demo_db5, [])"
    by (rule svc_reachable_step[OF svc_reachable_step[OF r3 s4] s5])
qed

lemma demo_rows:
  "\<exists>r \<in> set (db_tasks demo_db5). w_status r = St_completed"
  "\<exists>r \<in> set (db_tasks demo_db3). w_status r = St_verifying"
  using demo_statuses by (cases "db_tasks demo_db5"; cases "db_tasks demo_db3"; auto)+

lemma reviewed_tasks_passed_witness:
  "\<exists>e \<in> set (db_evidence demo_db5). v_operationState (e_payload e) = Op_finished \<and> v_status (e_payload e) = Ev_passed"
  using demo_rows(1) reviewed_tasks_passed[OF demo_svc_reachable(2)] by blast

lemma verifying_tasks_are_active_witness:
  "\<exists>r \<in> set (db_tasks demo_db3). \<exists>as cmd v bs.
     [(''w'', demo_id, ''v1'', demo_pending)] = as @ (w_workspace r, w_id r, cmd, v) # bs"
  using demo_rows(2) verifying_tasks_are_active[OF demo_svc_reachable(1)] by blast

lemma service_integrity_witness:
  "distinct (map task_key (db_tasks demo_db5)) \<and> distinct (map command_key (db_commands demo_db5))
    \<and> distinct (map evidence_key (db_evidence demo_db5))"
  using service_integrity[OF demo_svc_reachable(2)] by blast

lemma demo_accept: "\<exists>p. svc_command demo_sha demo_cwd (demo_command Act_accept ''a1'' 4 None) demo_db4 = (Inr (p, False), demo_db5)"
proof -
  have "case svc_command demo_sha demo_cwd (demo_command Act_accept ''a1'' 4 None) demo_db4 of
      (Inl _, _) \<Rightarrow> False | (Inr (p, dup), d) \<Rightarrow> dup = False \<and> d = demo_db5"
    by code_simp
  then show ?thesis by (auto split: prod.splits sum.splits)
qed

lemma command_retry_is_duplicate_witness:
  "\<exists>p. svc_command demo_sha demo_cwd ((demo_command Act_accept ''a1'' 4 None)\<lparr>j_agentId := Some ''x''\<rparr>) demo_db5 =
     (Inr (p, True), demo_db5)"
  using demo_accept command_retry_is_duplicate by (meson rtranclp.rtrancl_refl)

lemma stale_revision_rejected_witness:
  "\<exists>cur. 4 < cur \<and> svc_command demo_sha demo_cwd (demo_command Act_cancel ''x1'' 4 None) demo_db5 =
     (Inl (Revision_conflict 4 cur), demo_db5)"
proof -
  obtain p where "svc_command demo_sha demo_cwd (demo_command Act_accept ''a1'' 4 None) demo_db4 = (Inr (p, False), demo_db5)"
    using demo_accept by blast
  moreover have "find_row command_key (''w'', ''x1'') (db_commands demo_db5) = None"
    by code_simp
  ultimately show ?thesis
    using stale_revision_rejected[of demo_sha demo_cwd "demo_command Act_accept ''a1'' 4 None" demo_db4 p demo_db5 "[]"
        demo_db5 "[]" "demo_command Act_cancel ''x1'' 4 None"]
    by (simp add: demo_command_def)
qed

lemma rejected_calls_change_nothing_witness:
  "snd (svc_command demo_sha demo_cwd (demo_command Act_accept ''x1'' 7 None) demo_db5) = demo_db5"
proof -
  have "case fst (svc_command demo_sha demo_cwd (demo_command Act_accept ''x1'' 7 None) demo_db5) of
      Inl _ \<Rightarrow> True | Inr _ \<Rightarrow> False"
    by code_simp
  then obtain e where e: "fst (svc_command demo_sha demo_cwd (demo_command Act_accept ''x1'' 7 None) demo_db5) = Inl e"
    by (auto split: sum.splits)
  let ?r = "svc_command demo_sha demo_cwd (demo_command Act_accept ''x1'' 7 None) demo_db5"
  have "?r = (Inl e, snd ?r)" using e by (metis prod.collapse)
  then show ?thesis
    using rejected_calls_change_nothing[of demo_sha demo_cwd _ _ demo_db5 e "snd ?r"] by blast
qed

lemma verify_reopens_any_task_witness:
  "\<exists>r check pending db1. w_status r = St_completed
    \<and> verify_start demo_cwd ''now'' ''w'' demo_id ''v2'' None demo_db5 = (Inr (Claimed ''/repo'' check pending), db1)
    \<and> svc_row db1 ''w'' demo_id = Some (r\<lparr>w_status := St_verifying, w_revision := w_revision r + 1\<rparr>)"
proof -
  have "case svc_row demo_db5 ''w'' demo_id of None \<Rightarrow> False | Some r \<Rightarrow> w_status r = St_completed"
    "find_row evidence_key (''w'', ''v2'') (db_evidence demo_db5) = None"
    by code_simp+
  then obtain r where r: "svc_row demo_db5 ''w'' demo_id = Some r" "w_status r = St_completed"
    and fresh: "find_row evidence_key (''w'', ''v2'') (db_evidence demo_db5) = None"
    by (auto split: option.splits)
  have "demo_cwd ''w'' = Some ''/repo''" by (simp add: demo_cwd_def)
  with verify_reopens_any_task[where cwdOf = demo_cwd and now = "''now''" and cwd = None, OF r(1) _ fresh] r(2)
  show ?thesis by (simp only: option.case) blast
qed

end
