(* ===== verification/Verification.thy ===== *)
theory Verification
  imports Task_Service
begin

text \<open>
  \<open>tasks/verification.ts\<close>: the fingerprint of a workspace, the run of the check and the status it
  is given. Git, the file system and the child process are outside: their outputs are the record
  \<open>repo_state\<close> and the list of \<open>child_event\<close>s, and \<open>sha\<close> is SHA-256 in hex over the
  concatenation of the parts.
\<close>

section \<open>The fingerprint of a workspace\<close>

definition MAX_LOG_BYTES :: nat where
  "MAX_LOG_BYTES = 1024 * 1024"

text \<open>What the three git commands print, and the contents of untracked files.\<close>

record repo_state =
  rp_head :: string
  rp_diff :: string
  rp_untracked :: string
  rp_file :: "string \<Rightarrow> string"

record captured =
  cp_snapshot :: snapshot
  cp_trackedDiff :: string
  cp_untrackedFiles :: "string list"

definition hash_parts :: "(string \<Rightarrow> string) \<Rightarrow> string list \<Rightarrow> string" where
  "hash_parts sha parts = sha (concat parts)"

definition is_nul :: "char \<Rightarrow> bool" where
  "is_nul c \<longleftrightarrow> c = CHR 0x00"

definition nul :: string where
  "nul = [CHR 0x00]"

definition untracked_files :: "repo_state \<Rightarrow> string list" where
  "untracked_files rp = sort_by text_le (filter (\<lambda>p. p \<noteq> []) (split_on is_nul (rp_untracked rp)))"

definition untracked_parts :: "repo_state \<Rightarrow> string list" where
  "untracked_parts rp = concat (map (\<lambda>p. [p, nul, rp_file rp p, nul]) (untracked_files rp))"

definition captureWorkspace :: "(string \<Rightarrow> string) \<Rightarrow> repo_state \<Rightarrow> captured" where
  "captureWorkspace sha rp =
     (let base = trim (rp_head rp);
          diffHash = hash_parts sha [rp_diff rp];
          manifestHash = hash_parts sha (untracked_parts rp)
      in \<lparr>cp_snapshot =
            \<lparr>sn_id = hash_parts sha [base, nul, diffHash, nul, manifestHash], sn_baseCommit = base,
             sn_trackedDiffHash = diffHash, sn_untrackedManifestHash = manifestHash\<rparr>,
          cp_trackedDiff = rp_diff rp, cp_untrackedFiles = untracked_files rp\<rparr>)"

definition captureVerificationSnapshot :: "(string \<Rightarrow> string) \<Rightarrow> repo_state \<Rightarrow> snapshot" where
  "captureVerificationSnapshot sha rp = cp_snapshot (captureWorkspace sha rp)"

section \<open>Running the command\<close>

text \<open>
  The events of the child until it closes or fails to run, in order; \<open>Timer\<close> is the timeout, which
  also kills the process tree. \<open>once\<close> settles at the first \<open>Close\<close> or \<open>Child_error\<close>; an exit code
  is \<open>None\<close> when a signal ended the process.
\<close>

datatype child_event = Out string | Err string | Timer | Close "int option" | Child_error string

record exec_result =
  x_exitCode :: "int option"
  x_stdout :: string
  x_stderr :: string
  x_timedOut :: bool

definition append_log :: "string \<Rightarrow> string \<Rightarrow> string" where
  "append_log current chunk = take MAX_LOG_BYTES (current @ chunk)"

definition normalizedExitCode :: "bool \<Rightarrow> int option \<Rightarrow> int option" where
  "normalizedExitCode timedOut exitCode = (if timedOut then None else exitCode)"

fun exec_events :: "string \<Rightarrow> string \<Rightarrow> bool \<Rightarrow> child_event list \<Rightarrow> exec_result option" where
  "exec_events out err timedOut [] = None"
| "exec_events out err timedOut (Out s # es) = exec_events (append_log out s) err timedOut es"
| "exec_events out err timedOut (Err s # es) = exec_events out (append_log err s) timedOut es"
| "exec_events out err timedOut (Timer # es) = exec_events out err True es"
| "exec_events out err timedOut (Close code # es) =
     Some \<lparr>x_exitCode = normalizedExitCode timedOut code, x_stdout = out, x_stderr = err,
           x_timedOut = timedOut\<rparr>"
| "exec_events out err timedOut (Child_error msg # es) =
     Some \<lparr>x_exitCode = None, x_stdout = out, x_stderr = append_log err msg, x_timedOut = timedOut\<rparr>"

definition executeVerificationCommand :: "child_event list \<Rightarrow> exec_result option" where
  "executeVerificationCommand es = exec_events [] [] False es"

section \<open>The disposable checkout\<close>

text \<open>
  The effects on the disk and on git, in order. \<open>attempt\<close> says which of them succeed; the first
  failure removes the temporary root and rethrows.
\<close>

datatype disk_action =
    Git_clone string string
  | Git_checkout string string
  | Write_file string string
  | Git_apply string string
  | Make_dir string
  | Copy_file string string
  | Link_modules string string
  | Run_command string string
  | Remove_dir string

definition path_join :: "string \<Rightarrow> string \<Rightarrow> string" where
  "path_join a b = a @ ''/'' @ b"

definition dirname :: "string \<Rightarrow> string" where
  "dirname p = rev (drop 1 (dropWhile (\<lambda>c. c \<noteq> CHR ''/'') (rev p)))"

definition materialize_plan :: "string \<Rightarrow> string \<Rightarrow> bool \<Rightarrow> captured \<Rightarrow> disk_action list" where
  "materialize_plan cwd root hasModules cp =
     (let checkout = path_join root ''repo'' in
      [Git_clone cwd checkout, Git_checkout (sn_baseCommit (cp_snapshot cp)) checkout]
      @ (if cp_trackedDiff cp \<noteq> []
         then [Write_file (path_join root ''working-tree.patch'') (cp_trackedDiff cp),
               Git_apply (path_join root ''working-tree.patch'') checkout]
         else [])
      @ concat (map (\<lambda>p. [Make_dir (dirname (path_join checkout p)),
                           Copy_file (path_join cwd p) (path_join checkout p)]) (cp_untrackedFiles cp))
      @ (if hasModules
         then [Link_modules (path_join cwd ''node_modules'') (path_join checkout ''node_modules'')]
         else []))"

fun run_plan :: "(disk_action \<Rightarrow> bool) \<Rightarrow> disk_action list \<Rightarrow> bool \<times> disk_action list" where
  "run_plan attempt [] = (True, [])"
| "run_plan attempt (a # as) =
     (if attempt a then (case run_plan attempt as of (ok, log) \<Rightarrow> (ok, a # log)) else (False, [a]))"

definition materializeWorkspace ::
    "(disk_action \<Rightarrow> bool) \<Rightarrow> string \<Rightarrow> string \<Rightarrow> bool \<Rightarrow> captured \<Rightarrow> string option \<times> disk_action list" where
  "materializeWorkspace attempt cwd root hasModules cp =
     (case run_plan attempt (materialize_plan cwd root hasModules cp) of
        (True, log) \<Rightarrow> (Some (path_join root ''repo''), log)
      | (False, log) \<Rightarrow> (None, log @ [Remove_dir root]))"

section \<open>runVerification\<close>

datatype run_error = Command_required | Bad_timeout | Materialize_failed

text \<open>\<open>Number.isInteger\<close>: the timeout is a number that may be fractional or \<open>NaN\<close>, \<open>None\<close>.\<close>

definition check_input :: "string \<Rightarrow> int option \<Rightarrow> run_error option" where
  "check_input command timeoutMs =
     (if trim command = [] then Some Command_required
      else case timeoutMs of
             None \<Rightarrow> Some Bad_timeout
           | Some t \<Rightarrow> if t < 1 then Some Bad_timeout else None)"

definition run_status :: "exec_result \<Rightarrow> bool \<Rightarrow> ev_status" where
  "run_status x stale =
     (let status = if x_exitCode x = Some 0 then Ev_passed else Ev_failed;
          status' = if x_timedOut x then Ev_timed_out else status
      in if stale then Ev_stale else status')"

text \<open>
  The world of one run: the repository before and after, the events of the child, the success of
  disk actions and the clock readings. \<open>None\<close> as the result is a run whose child never closes.
\<close>

record run_world =
  wd_before :: repo_state
  wd_after :: repo_state
  wd_events :: "child_event list"
  wd_attempt :: "disk_action \<Rightarrow> bool"
  wd_root :: string
  wd_hasModules :: bool
  wd_startedAt :: string
  wd_started :: int
  wd_finished :: int

definition runVerification ::
    "(string \<Rightarrow> string) \<Rightarrow> run_world \<Rightarrow> string \<Rightarrow> string \<Rightarrow> int option \<Rightarrow>
     ((run_error + verification) \<times> disk_action list) option" where
  "runVerification sha w cwd command timeoutMs =
     (case check_input command timeoutMs of
        Some e \<Rightarrow> Some (Inl e, [])
      | None \<Rightarrow>
          (let cp = captureWorkspace sha (wd_before w); snap = cp_snapshot cp in
           case materializeWorkspace (wd_attempt w) cwd (wd_root w) (wd_hasModules w) cp of
             (None, log) \<Rightarrow> Some (Inl Materialize_failed, log)
           | (Some checkout, log) \<Rightarrow>
               (case executeVerificationCommand (wd_events w) of
                  None \<Rightarrow> None
                | Some x \<Rightarrow>
                    (let resulting = captureVerificationSnapshot sha (wd_after w);
                         stale = (sn_id resulting \<noteq> sn_id snap)
                     in Some
                       (Inr \<lparr>n_command = command, n_startedAt = wd_startedAt w,
                             n_durationMs = wd_finished w - wd_started w,
                             n_status = run_status x stale, n_exitCode = x_exitCode x,
                             n_stdout = x_stdout x, n_stderr = x_stderr x, n_snapshot = snap,
                             n_resultingSnapshotId = sn_id resulting\<rparr>,
                        log @ [Run_command checkout command, Remove_dir (dirname checkout)])))))"

section \<open>Logs\<close>

definition outs :: "child_event list \<Rightarrow> string" where
  "outs es = concat (map (\<lambda>e. case e of Out s \<Rightarrow> s | _ \<Rightarrow> []) es)"

definition settles :: "child_event \<Rightarrow> bool" where
  "settles e \<longleftrightarrow> (case e of Close _ \<Rightarrow> True | Child_error _ \<Rightarrow> True | _ \<Rightarrow> False)"

lemma append_log_append: "append_log (append_log a b) c = append_log a (b @ c)"
  by (simp add: append_log_def take_append min_def)

lemma append_log_take: "length a \<le> MAX_LOG_BYTES \<Longrightarrow> append_log a [] = a"
  by (simp add: append_log_def)

lemma exec_events_prefix:
  assumes "\<forall>e \<in> set es. \<not> settles e" "length out \<le> MAX_LOG_BYTES" "length err \<le> MAX_LOG_BYTES"
  shows "\<exists>err'. length err' \<le> MAX_LOG_BYTES \<and>
    exec_events out err t (es @ rest) = exec_events (append_log out (outs es)) err' (t \<or> Timer \<in> set es) rest"
  using assms
proof (induction es arbitrary: out err t)
  case Nil
  then show ?case by (auto simp: outs_def append_log_take)
next
  case (Cons e es)
  have len: "length (append_log a b) \<le> MAX_LOG_BYTES" for a b by (simp add: append_log_def)
  show ?case
  proof (cases e)
    case (Out s)
    then show ?thesis
      using Cons.IH[of "append_log out s" err t] Cons.prems len by (simp add: outs_def append_log_append)
  next
    case (Err s)
    then show ?thesis
      using Cons.IH[of out "append_log err s" t] Cons.prems len by (simp add: outs_def)
  next
    case Timer
    then show ?thesis using Cons.IH[of out err True] Cons.prems by (simp add: outs_def)
  qed (use Cons.prems(1) in \<open>simp_all add: settles_def\<close>)
qed

section \<open>Fingerprints\<close>

lemma split_at_nul:
  assumes "CHR 0x00 \<notin> set a" "CHR 0x00 \<notin> set b" "a @ nul @ x = b @ nul @ y"
  shows "a = b \<and> x = y"
  using append_Cons_first[of "CHR 0x00" a b x y] assms by (simp add: nul_def)

definition manifest :: "(string \<times> string) list \<Rightarrow> string" where
  "manifest fs = concat (map (\<lambda>(p, c). p @ nul @ c @ nul) fs)"

lemma manifest_inj:
  assumes "\<forall>(p, c) \<in> set xs. CHR 0x00 \<notin> set p \<and> CHR 0x00 \<notin> set c"
    "\<forall>(p, c) \<in> set ys. CHR 0x00 \<notin> set p \<and> CHR 0x00 \<notin> set c"
    "manifest xs = manifest ys"
  shows "xs = ys"
  using assms
proof (induction xs arbitrary: ys)
  case Nil
  then show ?case by (cases ys) (auto simp: manifest_def nul_def)
next
  case (Cons x xs)
  note IH = Cons.IH and prems = Cons.prems
  obtain p c where x: "x = (p, c)" by (cases x)
  show ?case
  proof (cases ys)
    case Nil
    then show ?thesis using prems(3) x by (simp add: manifest_def nul_def)
  next
    case (Cons y ys')
    obtain p' c' where y: "y = (p', c')" by (cases y)
    have clean: "CHR 0x00 \<notin> set p" "CHR 0x00 \<notin> set p'" "CHR 0x00 \<notin> set c" "CHR 0x00 \<notin> set c'"
      using prems(1,2) Cons x y by auto
    have "p @ nul @ (c @ nul @ manifest xs) = p' @ nul @ (c' @ nul @ manifest ys')"
      using prems(3) Cons x y by (simp add: manifest_def)
    from split_at_nul[OF clean(1,2) this]
    have p: "p = p'" and rest: "c @ nul @ manifest xs = c' @ nul @ manifest ys'" by simp_all
    from split_at_nul[OF clean(3,4) rest] have c: "c = c'" and "manifest xs = manifest ys'" by simp_all
    moreover have "xs = ys'"
      by (rule IH) (use prems(1,2) Cons \<open>manifest xs = manifest ys'\<close> in auto)
    ultimately show ?thesis using Cons x y p by simp
  qed
qed

lemma concat_untracked: "concat (untracked_parts rp) = manifest (map (\<lambda>p. (p, rp_file rp p)) (untracked_files rp))"
proof -
  have "concat (concat (map (\<lambda>p. [p, nul, f p, nul]) ps)) = manifest (map (\<lambda>p. (p, f p)) ps)" for f ps
    by (induction ps) (simp_all add: manifest_def)
  then show ?thesis by (simp add: untracked_parts_def)
qed

text \<open>
  What the code relies on of SHA-256 in hex: no collisions, and no NUL in its output.
\<close>

definition hex_hash :: "(string \<Rightarrow> string) \<Rightarrow> bool" where
  "hex_hash sha \<longleftrightarrow> inj sha \<and> (\<forall>s. CHR 0x00 \<notin> set (sha s))"

text \<open>The head, the diff and every untracked file, by name, with its contents.\<close>

definition repo_contents :: "repo_state \<Rightarrow> string \<times> string \<times> (string \<times> string) list" where
  "repo_contents rp =
     (trim (rp_head rp), rp_diff rp, map (\<lambda>p. (p, rp_file rp p)) (untracked_files rp))"

definition nul_free :: "repo_state \<Rightarrow> bool" where
  "nul_free rp \<longleftrightarrow> CHR 0x00 \<notin> set (rp_head rp) \<and>
     (\<forall>p \<in> set (untracked_files rp). CHR 0x00 \<notin> set (rp_file rp p))"

lemma trim_set: "set (trim s) \<subseteq> set s"
proof -
  have "set (dropWhile P xs) \<subseteq> set xs" for P and xs :: string
    by (meson set_dropWhileD subsetI)
  then show ?thesis
    unfolding trim_def trim_end_def by (metis (no_types, lifting) order_trans set_rev)
qed

lemma untracked_paths: "p \<in> set (untracked_files rp) \<Longrightarrow> CHR 0x00 \<notin> set p"
  using split_on_elem[of p is_nul "rp_untracked rp"] by (auto simp: untracked_files_def is_nul_def)

lemma snapshot_id_inj:
  assumes sha: "hex_hash sha" and nf: "nul_free a" "nul_free b"
    and eq: "sn_id (captureVerificationSnapshot sha a) = sn_id (captureVerificationSnapshot sha b)"
  shows "repo_contents a = repo_contents b"
proof -
  have inj: "x = y" if "sha x = sha y" for x y
    using sha that by (auto simp: hex_hash_def inj_def)
  have no: "CHR 0x00 \<notin> set (sha x)" for x using sha by (simp add: hex_hash_def)
  let ?m = "\<lambda>rp. manifest (map (\<lambda>p. (p, rp_file rp p)) (untracked_files rp))"
  have "trim (rp_head a) @ nul @ (sha (rp_diff a) @ nul @ sha (?m a)) =
      trim (rp_head b) @ nul @ (sha (rp_diff b) @ nul @ sha (?m b))"
    using eq inj
    by (simp add: captureVerificationSnapshot_def captureWorkspace_def Let_def hash_parts_def concat_untracked)
  moreover have "CHR 0x00 \<notin> set (trim (rp_head a))" "CHR 0x00 \<notin> set (trim (rp_head b))"
    using nf trim_set by (auto simp: nul_free_def)
  ultimately have head: "trim (rp_head a) = trim (rp_head b)"
    and rest: "sha (rp_diff a) @ nul @ sha (?m a) = sha (rp_diff b) @ nul @ sha (?m b)"
    using split_at_nul by blast+
  have "sha (rp_diff a) = sha (rp_diff b)" "sha (?m a) = sha (?m b)"
    using split_at_nul[OF no no rest] by simp_all
  then have "rp_diff a = rp_diff b" "?m a = ?m b" using inj by blast+
  moreover have "map (\<lambda>p. (p, rp_file a p)) (untracked_files a) = map (\<lambda>p. (p, rp_file b p)) (untracked_files b)"
    using \<open>?m a = ?m b\<close> nf untracked_paths by (intro manifest_inj) (auto simp: nul_free_def)
  ultimately show ?thesis using head by (simp add: repo_contents_def)
qed

section \<open>Disk actions\<close>

lemma run_plan_prefix:
  assumes "run_plan attempt as = (ok, log)"
  shows "\<exists>rest. as = log @ rest" "ok \<Longrightarrow> log = as"
  using assms by (induction as arbitrary: log) (auto split: if_splits prod.splits)

lemma dirname_join: "dirname (path_join root ''repo'') = root"
  by (simp add: dirname_def path_join_def)

lemma plan_no_run: "Run_command c d \<notin> set (materialize_plan cwd root m cp)"
  by (auto simp: materialize_plan_def Let_def)

lemma materialize_cases:
  assumes "materializeWorkspace attempt cwd root m cp = (r, log)"
  obtains "r = Some (path_join root ''repo'')" "log = materialize_plan cwd root m cp"
  | l where "r = None" "log = l @ [Remove_dir root]" "\<exists>rest. materialize_plan cwd root m cp = l @ rest"
  using assms run_plan_prefix[of attempt "materialize_plan cwd root m cp"]
  by (auto simp: materializeWorkspace_def split: prod.splits bool.splits)

section \<open>Properties\<close>

lemma runVerification_Some:
  assumes "runVerification sha w cwd command timeoutMs = Some (Inr n, log)"
  obtains x where "executeVerificationCommand (wd_events w) = Some x"
    "n_status n = run_status x (n_resultingSnapshotId n \<noteq> sn_id (n_snapshot n))"
    "n_exitCode n = x_exitCode x" "n_stdout n = x_stdout x" "n_stderr n = x_stderr x"
    "n_snapshot n = captureVerificationSnapshot sha (wd_before w)"
    "n_resultingSnapshotId n = sn_id (captureVerificationSnapshot sha (wd_after w))"
    "log = materialize_plan cwd (wd_root w) (wd_hasModules w) (captureWorkspace sha (wd_before w))
        @ [Run_command (path_join (wd_root w) ''repo'') command, Remove_dir (wd_root w)]"
    "check_input command timeoutMs = None"
proof -
  obtain r l where m: "materializeWorkspace (wd_attempt w) cwd (wd_root w) (wd_hasModules w)
      (captureWorkspace sha (wd_before w)) = (r, l)" by fastforce
  show thesis
    using assms m that
    by (cases rule: materialize_cases[OF m])
      (auto simp: runVerification_def Let_def captureVerificationSnapshot_def dirname_join
        split: option.splits)
qed

lemma exec_events_exit:
  "exec_events out err t es = Some x \<Longrightarrow> x_timedOut x \<Longrightarrow> x_exitCode x = None"
  by (induction out err t es rule: exec_events.induct) (auto simp: normalizedExitCode_def)

text \<open>
  The verdict: a run is \<open>passed\<close> exactly when the command exited with code 0 before the
  timeout and the workspace still has the fingerprint it started with; \<open>stale\<close> exactly when the
  fingerprint changed, whatever the command did; a run that timed out reports no exit code.
\<close>

theorem verification_verdict:
  assumes "runVerification sha w cwd command timeoutMs = Some (Inr n, log)"
  shows "\<exists>x. executeVerificationCommand (wd_events w) = Some x
    \<and> (n_status n = Ev_passed \<longleftrightarrow> x_exitCode x = Some 0 \<and> \<not> x_timedOut x
          \<and> sn_id (captureVerificationSnapshot sha (wd_after w)) = sn_id (n_snapshot n))
    \<and> (n_status n = Ev_stale \<longleftrightarrow>
          sn_id (captureVerificationSnapshot sha (wd_after w)) \<noteq> sn_id (n_snapshot n))
    \<and> (x_timedOut x \<longrightarrow> n_exitCode n = None) \<and> n_status n \<noteq> Ev_pending"
proof -
  obtain x where x: "executeVerificationCommand (wd_events w) = Some x"
    "n_status n = run_status x (n_resultingSnapshotId n \<noteq> sn_id (n_snapshot n))"
    "n_exitCode n = x_exitCode x"
    "n_resultingSnapshotId n = sn_id (captureVerificationSnapshot sha (wd_after w))"
    using runVerification_Some[OF assms] by metis
  have "x_timedOut x \<Longrightarrow> x_exitCode x = None"
    using x(1) exec_events_exit unfolding executeVerificationCommand_def by blast
  then show ?thesis
    using x by (auto simp: run_status_def Let_def)
qed


text \<open>
  The manifest of untracked files separates names and contents by NUL but does not encode
  lengths, so NUL bytes in a file make two different workspaces share a fingerprint: one file \<open>a\<close>
  holding \<open>x\<close>, NUL, \<open>b\<close>, NUL, \<open>y\<close> counts as two files \<open>a\<close> and \<open>b\<close>. A run between them is not stale.
\<close>

definition one_file :: repo_state where
  "one_file =
     \<lparr>rp_head = ''h'', rp_diff = [], rp_untracked = ''a'' @ nul,
      rp_file = (\<lambda>p. ''x'' @ nul @ ''b'' @ nul @ ''y'')\<rparr>"

definition two_files :: repo_state where
  "two_files =
     \<lparr>rp_head = ''h'', rp_diff = [], rp_untracked = ''a'' @ nul @ ''b'' @ nul,
      rp_file = (\<lambda>p. if p = ''a'' then ''x'' else ''y'')\<rparr>"

text \<open>
  Two workspaces whose untracked files differ have the same fingerprint, for every hash.
\<close>

theorem fingerprint_ambiguous:
  "captureVerificationSnapshot sha one_file = captureVerificationSnapshot sha two_files
   \<and> repo_contents one_file \<noteq> repo_contents two_files"
proof -
  have "untracked_files one_file = [''a'']" "untracked_files two_files = [''a'', ''b'']"
    by code_simp+
  then show ?thesis
    by (simp add: captureVerificationSnapshot_def captureWorkspace_def Let_def hash_parts_def
        untracked_parts_def repo_contents_def one_file_def two_files_def)
qed

text \<open>
  The disposable checkout does not outlive the run: whether preparing it failed half-way or the
  command ran, the last disk action removes the temporary root, and the command runs at most once,
  after the whole checkout was prepared.
\<close>

theorem checkout_removed:
  assumes "runVerification sha w cwd command timeoutMs = Some (r, log)" "log \<noteq> []"
  shows "last log = Remove_dir (wd_root w)
    \<and> (\<forall>pre c d post. log = pre @ Run_command c d # post \<longrightarrow>
          pre = materialize_plan cwd (wd_root w) (wd_hasModules w) (captureWorkspace sha (wd_before w))
          \<and> post = [Remove_dir (wd_root w)])"
proof (cases r)
  case (Inl e)
  let ?cp = "captureWorkspace sha (wd_before w)"
  obtain q l where m: "materializeWorkspace (wd_attempt w) cwd (wd_root w) (wd_hasModules w) ?cp = (q, l)"
    by fastforce
  from m show ?thesis
  proof (cases rule: materialize_cases)
    case 1
    then have False
      using assms Inl m by (auto simp: runVerification_def Let_def split: option.splits)
    then show ?thesis ..
  next
    case (2 l')
    then have log: "log = l' @ [Remove_dir (wd_root w)]"
      using assms Inl m by (auto simp: runVerification_def Let_def split: option.splits)
    obtain rest where "materialize_plan cwd (wd_root w) (wd_hasModules w) ?cp = l' @ rest"
      using 2(3) by blast
    then have "Run_command c d \<notin> set log" for c d
      using plan_no_run[of c d cwd "wd_root w" "wd_hasModules w" ?cp] by (simp add: log)
    then show ?thesis by (metis in_set_conv_decomp last_snoc log)
  qed
next
  case (Inr n)
  let ?plan = "materialize_plan cwd (wd_root w) (wd_hasModules w) (captureWorkspace sha (wd_before w))"
  have log: "log = ?plan @ [Run_command (path_join (wd_root w) ''repo'') command, Remove_dir (wd_root w)]"
    using runVerification_Some[of sha w cwd command timeoutMs n log] assms(1) Inr by metis
  have "pre = ?plan \<and> post = [Remove_dir (wd_root w)]"
    if split: "log = pre @ Run_command c d # post" for pre c d post
  proof -
    have no: "Run_command c d \<notin> set ?plan" by (rule plan_no_run)
    then have "pre @ Run_command c d # post = ?plan @ Run_command (path_join (wd_root w) ''repo'') command # [Remove_dir (wd_root w)]"
      using log split by simp
    moreover have "c = path_join (wd_root w) ''repo'' \<and> d = command"
    proof -
      have "Run_command c d \<in> set log" using split by simp
      then show ?thesis using no unfolding log by auto
    qed
    ultimately have eq: "pre @ Run_command c d # post = ?plan @ Run_command c d # [Remove_dir (wd_root w)]"
      by simp
    have "Run_command c d \<notin> set pre"
    proof
      assume "Run_command c d \<in> set pre"
      then have "2 \<le> count_list (pre @ Run_command c d # post) (Run_command c d)"
        using count_list_0_iff[of pre "Run_command c d"] by simp
      moreover have "count_list (?plan @ Run_command c d # [Remove_dir (wd_root w)]) (Run_command c d) = 1"
        using no by (simp add: count_list_append count_list_0_iff)
      ultimately show False using eq by simp
    qed
    then show ?thesis using append_Cons_first[OF _ no eq] by blast
  qed
  then show ?thesis using log by auto
qed

text \<open>
  The log of a run is the first \<open>MAX_LOG_BYTES\<close> code units of everything the command wrote to
  its standard output until it closed, however it was cut into chunks.
\<close>

theorem captured_output:
  assumes "\<forall>e \<in> set es. \<not> settles e"
  shows "\<exists>x. executeVerificationCommand (es @ Close code # rest) = Some x
    \<and> x_stdout x = take MAX_LOG_BYTES (outs es) \<and> length (x_stderr x) \<le> MAX_LOG_BYTES
    \<and> x_timedOut x = (Timer \<in> set es)
    \<and> x_exitCode x = (if Timer \<in> set es then None else code)"
  using exec_events_prefix[OF assms, of "[]" "[]" False "Close code # rest"]
  by (auto simp: executeVerificationCommand_def append_log_def normalizedExitCode_def)

section \<open>A concrete run\<close>

text \<open>An injective hash without NUL: two hex digits for each character.\<close>

definition hex_sha :: "string \<Rightarrow> string" where
  "hex_sha s = concat (map (\<lambda>c. [hex_digit (of_char c div 16), hex_digit (of_char c mod 16)]) s)"

lemma hex_digit_code: "n < 16 \<Longrightarrow> of_char (hex_digit n) = (if n < 10 then 48 + n else 87 + n :: nat)"
proof -
  assume "n < 16"
  then have "(if n < 10 then 48 + n else 87 + n) < 256" by auto
  moreover have "of_char (char_of k) = k" if "k < 256" for k :: nat
    using that by (simp add: of_char_of)
  ultimately show ?thesis unfolding hex_digit_def by blast
qed

lemma hex_digit_inj: "m < 16 \<Longrightarrow> n < 16 \<Longrightarrow> hex_digit m = hex_digit n \<Longrightarrow> m = n"
proof -
  assume m: "m < 16" "n < 16" and eq: "hex_digit m = hex_digit n"
  have "(if m < 10 then 48 + m else 87 + m) = (if n < 10 then 48 + n else 87 + n)"
    using hex_digit_code[OF m(1)] hex_digit_code[OF m(2)] unfolding eq by simp
  with m show "m = n" by presburger
qed

lemma hex_digit_not_nul: "n < 16 \<Longrightarrow> hex_digit n \<noteq> CHR 0x00"
  using hex_digit_code[of n] by (auto split: if_splits)

lemma char_code_bound: "of_char c < (256 :: nat)"
  by (rule nat_of_char_less_256)

lemma code_div_bound: "of_char c div 16 < (16 :: nat)"
proof -
  have "n div 16 < 16" if "n < 256" for n :: nat
    using that by presburger
  then show ?thesis using char_code_bound .
qed

lemma code_mod_bound: "of_char c mod 16 < (16 :: nat)"
  by (rule mod_less_divisor) simp

lemma hex_sha_inj: "hex_sha s = hex_sha t \<Longrightarrow> s = t"
proof (induction s arbitrary: t)
  case Nil
  then show ?case by (cases t) (simp_all add: hex_sha_def)
next
  case (Cons a s)
  note IH = Cons.IH and prems = Cons.prems
  show ?case
  proof (cases t)
    case Nil
    then show ?thesis using prems by (simp add: hex_sha_def)
  next
    case (Cons b t')
    have d: "hex_digit (of_char a div 16) = hex_digit (of_char b div 16)"
      "hex_digit (of_char a mod 16) = hex_digit (of_char b mod 16)" "hex_sha s = hex_sha t'"
      using prems Cons by (simp_all add: hex_sha_def)
    have "of_char a div 16 = (of_char b div 16 :: nat)" by (rule hex_digit_inj[OF code_div_bound code_div_bound d(1)])
    moreover have "of_char a mod 16 = (of_char b mod 16 :: nat)" by (rule hex_digit_inj[OF code_mod_bound code_mod_bound d(2)])
    ultimately have "of_char a = (of_char b :: nat)" by (metis div_mult_mod_eq)
    then show ?thesis using IH[OF d(3)] Cons by simp
  qed
qed

lemma hex_hash_hex_sha: "hex_hash hex_sha"
proof -
  have "CHR 0x00 \<notin> set (hex_sha s)" for s
    using hex_digit_not_nul[OF code_div_bound] hex_digit_not_nul[OF code_mod_bound]
    by (auto simp: hex_sha_def dest: sym)
  then show ?thesis using hex_sha_inj by (auto simp: hex_hash_def inj_def)
qed

definition demo_repo :: repo_state where
  "demo_repo =
     \<lparr>rp_head = ''h'', rp_diff = ''d'', rp_untracked = ''b'' @ nul @ ''a'' @ nul, rp_file = (\<lambda>p. ''x'')\<rparr>"

definition demo_world :: run_world where
  "demo_world =
     \<lparr>wd_before = demo_repo, wd_after = demo_repo, wd_events = [Out ''ok'', Close (Some 0)],
      wd_attempt = (\<lambda>_. True), wd_root = ''/tmp/r'', wd_hasModules = False, wd_startedAt = ''t'',
      wd_started = 1, wd_finished = 4\<rparr>"

lemma demo_append_log: "append_log [] ''ok'' = ''ok''"
  by (simp add: append_log_def MAX_LOG_BYTES_def)

lemma run_plan_all: "run_plan (\<lambda>_. True) as = (True, as)"
  by (induction as) simp_all

lemma demo_verification:
  obtains n log where "runVerification hex_sha demo_world ''/repo'' ''make'' (Some 10) = Some (Inr n, log)"
    "n_status n = Ev_passed" "log \<noteq> []"
proof -
  have "check_input ''make'' (Some 10) = None"
    by code_simp
  then show thesis
    using that
    by (simp add: runVerification_def demo_world_def materializeWorkspace_def run_plan_all Let_def
        executeVerificationCommand_def demo_append_log normalizedExitCode_def run_status_def
        captureVerificationSnapshot_def)
qed

lemma verification_verdict_witness:
  "\<exists>n log x. runVerification hex_sha demo_world ''/repo'' ''make'' (Some 10) = Some (Inr n, log)
     \<and> n_status n = Ev_passed \<and> executeVerificationCommand (wd_events demo_world) = Some x \<and> x_exitCode x = Some 0"
  using demo_verification verification_verdict by metis

lemma demo_nul_free: "nul_free (wd_before demo_world)" "nul_free (wd_after demo_world)"
  by (simp_all add: nul_free_def demo_world_def demo_repo_def)


lemma checkout_removed_witness:
  "\<exists>r log. runVerification hex_sha demo_world ''/repo'' ''make'' (Some 10) = Some (r, log)
     \<and> last log = Remove_dir ''/tmp/r''"
proof -
  obtain n log where r: "runVerification hex_sha demo_world ''/repo'' ''make'' (Some 10) = Some (Inr n, log)" "log \<noteq> []"
    using demo_verification by metis
  from checkout_removed[OF r] r(1) show ?thesis by (auto simp: demo_world_def)
qed

lemma captured_output_witness:
  "\<exists>x. executeVerificationCommand ([Out ''a'', Timer] @ Close None # []) = Some x
     \<and> x_stdout x = take MAX_LOG_BYTES ''a'' \<and> x_timedOut x"
  using captured_output[of "[Out ''a'', Timer]" None "[]"] by (simp add: settles_def outs_def) blast

end
