(* ===== verification/Cron.thy ===== *)
theory Cron
  imports Js_String
begin

text \<open>
  Cron expressions (\<open>protocol/src/schedule/cron-expression.ts\<close>), the conversion of rolling
  intervals (\<open>cadence.ts\<close>) and the search for the next run time (\<open>server/schedule/cron.ts\<close>).
  A \<open>Date\<close> is its time value in milliseconds. A time zone is the reader that
  \<open>Intl.DateTimeFormat\<close> gives for it, the parameter \<open>zones\<close>; without a zone the fields are the UTC
  fields of the time value.
\<close>

section \<open>Parsing\<close>

record bounds =
  b_min :: int
  b_max :: int
  b_name :: string

datatype cron_error =
    Cron_field_count
  | Bad_step string
  | Bad_field string
  | Bad_range string
  | Bad_value string
  | Bad_time_zone string
  | No_next_run string

definition cron_bounds :: "bounds list" where
  "cron_bounds =
     [\<lparr>b_min = 0, b_max = 59, b_name = ''minute''\<rparr>,
      \<lparr>b_min = 0, b_max = 23, b_name = ''hour''\<rparr>,
      \<lparr>b_min = 1, b_max = 31, b_name = ''day-of-month''\<rparr>,
      \<lparr>b_min = 1, b_max = 12, b_name = ''month''\<rparr>,
      \<lparr>b_min = 0, b_max = 6, b_name = ''day-of-week''\<rparr>]"

text \<open>The loop adds \<open>step\<close> until the value passes \<open>end\<close>; its callers pass a step that is positive.\<close>

function createRange :: "int \<Rightarrow> int \<Rightarrow> int \<Rightarrow> int list" where
  "createRange v hi step =
     (if 0 < step \<and> v \<le> hi then v # createRange (v + step) hi step else [])"
  by pat_completeness auto
termination by (relation "measure (\<lambda>(v, hi, step). nat (hi + 1 - v))") auto

declare createRange.simps [simp del]

definition positive_step :: "string \<Rightarrow> int option" where
  "positive_step source =
     (case parse_int10 source of
        NaN \<Rightarrow> None
      | Num k \<Rightarrow> if k \<le> 0 \<or> show_int k \<noteq> source then None else Some k)"

definition parseStepPart :: "string \<Rightarrow> bounds \<Rightarrow> cron_error + string \<times> int" where
  "parseStepPart part b =
     (case split_on (\<lambda>c. c = CHR ''/'') part of
        [base] \<Rightarrow> Inr (base, 1)
      | [base, stepSource] \<Rightarrow>
          (case positive_step (trim stepSource) of
             None \<Rightarrow> Inl (Bad_step (b_name b))
           | Some k \<Rightarrow> Inr (base, k))
      | _ \<Rightarrow> Inl (Bad_step (b_name b)))"

text \<open>\<open>/^\d+$/\<close> and \<open>/^(\d+)-(\d+)$/\<close>.\<close>

definition all_digits :: "string \<Rightarrow> bool" where
  "all_digits s \<longleftrightarrow> s \<noteq> [] \<and> list_all is_digit s"

definition range_match :: "string \<Rightarrow> (int \<times> int) option" where
  "range_match base =
     (case split_on (\<lambda>c. c = CHR ''-'') base of
        [a, b] \<Rightarrow>
          if all_digits a \<and> all_digits b then Some (int (digits_val a), int (digits_val b)) else None
      | _ \<Rightarrow> None)"

text \<open>The values that one comma-separated part allows.\<close>

definition parse_part :: "bounds \<Rightarrow> string \<Rightarrow> cron_error + int list" where
  "parse_part b rawPart =
     (let part = trim rawPart in
      if part = [] then Inl (Bad_field (b_name b))
      else ebind (parseStepPart part b) (\<lambda>(base, step).
        if base = ''*'' then Inr (createRange (b_min b) (b_max b) step)
        else case range_match base of
               Some (start, hi) \<Rightarrow>
                 if hi < start \<or> start < b_min b \<or> b_max b < hi then Inl (Bad_range (b_name b))
                 else Inr (createRange start hi step)
             | None \<Rightarrow>
                 if \<not> all_digits base then Inl (Bad_value (b_name b))
                 else (let v = int (digits_val base) in
                       if v < b_min b \<or> b_max b < v then Inl (Bad_value (b_name b)) else Inr [v])))"

definition parseField :: "string \<Rightarrow> bounds \<Rightarrow> cron_error + int list" where
  "parseField source b =
     (let trimmed = trim source in
      if trimmed = [] then Inl (Bad_field (b_name b))
      else ebind (eall (map (parse_part b) (split_on (\<lambda>c. c = CHR '','') trimmed)))
             (\<lambda>vss. Inr (concat vss)))"

record parsed_cron =
  p_minute :: "int list"
  p_hour :: "int list"
  p_dayOfMonth :: "int list"
  p_month :: "int list"
  p_dayOfWeek :: "int list"

text \<open>\<open>trim().split(/\s+/)\<close>: the words; an empty string has one empty word, here none, and both are refused.\<close>

definition words :: "string \<Rightarrow> string list" where
  "words s = filter (\<lambda>w. w \<noteq> []) (split_on js_space (trim s))"

definition parseCronExpression :: "string \<Rightarrow> cron_error + parsed_cron" where
  "parseCronExpression expression =
     (case words expression of
        [mi, ho, dm, mo, dw] \<Rightarrow>
          ebind (parseField mi (cron_bounds ! 0)) (\<lambda>fmi.
          ebind (parseField ho (cron_bounds ! 1)) (\<lambda>fho.
          ebind (parseField dm (cron_bounds ! 2)) (\<lambda>fdm.
          ebind (parseField mo (cron_bounds ! 3)) (\<lambda>fmo.
          ebind (parseField dw (cron_bounds ! 4)) (\<lambda>fdw.
          Inr \<lparr>p_minute = fmi, p_hour = fho, p_dayOfMonth = fdm, p_month = fmo, p_dayOfWeek = fdw\<rparr>)))))
      | _ \<Rightarrow> Inl Cron_field_count)"

definition validateCronExpression :: "string \<Rightarrow> cron_error option" where
  "validateCronExpression expression =
     (case parseCronExpression expression of Inl e \<Rightarrow> Some e | Inr _ \<Rightarrow> None)"

text \<open>\<open>everyMs / 60_000\<close> is an integer exactly when 60000 divides \<open>everyMs\<close>.\<close>

definition everyMsToFiveFieldCron :: "int \<Rightarrow> string option" where
  "everyMsToFiveFieldCron everyMs =
     (if everyMs mod 60000 \<noteq> 0 \<or> everyMs \<le> 0 then None
      else let minutes = everyMs div 60000 in
        if minutes < 60 \<and> 60 mod minutes = 0 then Some (''*/'' @ show_int minutes @ '' * * * *'')
        else if minutes = 60 then Some ''0 * * * *''
        else if minutes mod 60 \<noteq> 0 then None
        else let hours = minutes div 60 in
          if hours < 24 \<and> 24 mod hours = 0 then Some (''0 */'' @ show_int hours @ '' * * *'')
          else if hours = 24 then Some ''0 0 * * *''
          else None)"

section \<open>Dates\<close>

record date_parts =
  d_minute :: int
  d_hour :: int
  d_dayOfMonth :: int
  d_month :: int
  d_dayOfWeek :: int

text \<open>The UTC fields of a time value (proleptic Gregorian calendar, as ECMAScript defines it).\<close>

definition month_day :: "int \<Rightarrow> int \<times> int" where
  "month_day days =
     (let doe = (days + 719468) mod 146097;
          yoe = (doe - doe div 1460 + doe div 36524 - doe div 146096) div 365;
          doy = doe - (365 * yoe + yoe div 4 - yoe div 100);
          mp = (5 * doy + 2) div 153
      in (if mp < 10 then mp + 3 else mp - 9, doy - (153 * mp + 2) div 5 + 1))"

definition utc_parts :: "int \<Rightarrow> date_parts" where
  "utc_parts t =
     (let days = t div 86400000; (mo, dy) = month_day days in
      \<lparr>d_minute = t div 60000 mod 60, d_hour = t div 3600000 mod 24, d_dayOfMonth = dy, d_month = mo,
       d_dayOfWeek = (days + 4) mod 7\<rparr>)"

definition startOfNextMinute :: "int \<Rightarrow> int" where
  "startOfNextMinute t = (t div 60000 + 1) * 60000"

type_synonym zones = "string \<Rightarrow> (int \<Rightarrow> date_parts) option"

definition assertValidTimeZone :: "zones \<Rightarrow> string \<Rightarrow> cron_error + unit" where
  "assertValidTimeZone zones tz = (if zones tz = None then Inl (Bad_time_zone tz) else Inr ())"

definition createCronDatePartsReader :: "zones \<Rightarrow> string option \<Rightarrow> cron_error + (int \<Rightarrow> date_parts)" where
  "createCronDatePartsReader zones timeZone =
     (case timeZone of
        None \<Rightarrow> Inr utc_parts
      | Some tz \<Rightarrow>
          (case zones tz of None \<Rightarrow> Inl (Bad_time_zone tz) | Some reader \<Rightarrow> Inr reader))"

section \<open>The next run\<close>

datatype cadence = Every int | Cron_at string "string option"

definition validateScheduleCadence :: "zones \<Rightarrow> cadence \<Rightarrow> cron_error + unit" where
  "validateScheduleCadence zones c =
     (case c of
        Every _ \<Rightarrow> Inr ()
      | Cron_at expression timezone \<Rightarrow>
          ebind (parseCronExpression expression) (\<lambda>_.
            case timezone of None \<Rightarrow> Inr () | Some tz \<Rightarrow> assertValidTimeZone zones tz))"

definition cron_matches :: "parsed_cron \<Rightarrow> date_parts \<Rightarrow> bool" where
  "cron_matches cron d \<longleftrightarrow>
     d_minute d \<in> set (p_minute cron) \<and> d_hour d \<in> set (p_hour cron)
     \<and> d_dayOfMonth d \<in> set (p_dayOfMonth cron) \<and> d_month d \<in> set (p_month cron)
     \<and> d_dayOfWeek d \<in> set (p_dayOfWeek cron)"

fun cron_search :: "nat \<Rightarrow> (int \<Rightarrow> bool) \<Rightarrow> int \<Rightarrow> int option" where
  "cron_search 0 P cursor = None"
| "cron_search (Suc n) P cursor = (if P cursor then Some cursor else cron_search n P (cursor + 60000))"

definition search_limit :: nat where
  "search_limit = 366 * 24 * 60"

definition computeNextRunAt :: "zones \<Rightarrow> cadence \<Rightarrow> int \<Rightarrow> cron_error + int" where
  "computeNextRunAt zones c after =
     (case c of
        Every everyMs \<Rightarrow> Inr (after + everyMs)
      | Cron_at expression timezone \<Rightarrow>
          ebind (parseCronExpression expression) (\<lambda>cron.
          ebind (createCronDatePartsReader zones timezone) (\<lambda>parts.
          case cron_search search_limit (\<lambda>t. cron_matches cron (parts t)) (startOfNextMinute after) of
            None \<Rightarrow> Inl (No_next_run expression)
          | Some t \<Rightarrow> Inr t)))"

section \<open>Fields stay in their bounds\<close>

lemma createRange_mem:
  assumes "0 < step"
  shows "x \<in> set (createRange v hi step) \<longleftrightarrow> v \<le> x \<and> x \<le> hi \<and> (x - v) mod step = 0"
  using assms
proof (induction v hi step rule: createRange.induct)
  case (1 v hi step)
  note assms = "1.prems"
  show ?case
  proof (cases "0 < step \<and> v \<le> hi")
    case True
    have "v + step \<le> x \<and> (x - (v + step)) mod step = 0 \<longleftrightarrow> v < x \<and> (x - v) mod step = 0"
    proof -
      have m: "(x - (v + step)) mod step = (x - v) mod step"
        using mod_add_self2[of "x - (v + step)" step] by (simp add: algebra_simps)
      have "v + step \<le> x" if "v < x" "(x - v) mod step = 0"
        using that zdvd_imp_le[of step "x - v"] by (simp add: mod_eq_0_iff_dvd)
      with m True show ?thesis by auto
    qed
    then show ?thesis
      using 1 True by (subst createRange.simps) auto
  next
    case False
    then show ?thesis using assms by (subst createRange.simps) auto
  qed
qed

definition in_bounds :: "bounds \<Rightarrow> int list \<Rightarrow> bool" where
  "in_bounds b vs \<longleftrightarrow> vs \<noteq> [] \<and> (\<forall>v \<in> set vs. b_min b \<le> v \<and> v \<le> b_max b)"

lemma createRange_in_bounds:
  assumes "0 < step" "lo \<le> hi" "b_min b \<le> lo" "hi \<le> b_max b"
  shows "in_bounds b (createRange lo hi step)"
proof -
  have "lo \<in> set (createRange lo hi step)"
    using createRange_mem[OF assms(1), of lo lo hi] assms(2) by simp
  then have "createRange lo hi step \<noteq> []" by auto
  moreover have "b_min b \<le> v \<and> v \<le> b_max b" if "v \<in> set (createRange lo hi step)" for v
    using that createRange_mem[OF assms(1), of v lo hi] assms(3,4) by simp
  ultimately show ?thesis by (simp add: in_bounds_def)
qed

lemma parseStepPart_positive: "parseStepPart part b = Inr (base, step) \<Longrightarrow> 0 < step"
  by (auto simp: parseStepPart_def positive_step_def split: list.splits option.splits js_num.splits if_splits)

lemma parse_part_in_bounds:
  assumes "parse_part b part = Inr vs" "b_min b \<le> b_max b"
  shows "in_bounds b vs"
proof -
  obtain base step where bs: "parseStepPart (trim part) b = Inr (base, step)"
    using assms(1) by (auto simp: parse_part_def Let_def ebind_Inr_iff split: if_splits)
  then have step: "0 < step" by (rule parseStepPart_positive)
  have res: "(if base = ''*'' then Inr (createRange (b_min b) (b_max b) step)
      else case range_match base of
             Some (lo, hi) \<Rightarrow>
               if hi < lo \<or> lo < b_min b \<or> b_max b < hi then Inl (Bad_range (b_name b))
               else Inr (createRange lo hi step)
           | None \<Rightarrow>
               if \<not> all_digits base then Inl (Bad_value (b_name b))
               else (let v = int (digits_val base) in
                     if v < b_min b \<or> b_max b < v then Inl (Bad_value (b_name b)) else Inr [v])) = Inr vs"
    using assms(1) bs by (simp add: parse_part_def Let_def split: if_splits)
  show ?thesis
  proof (cases "base = ''*''")
    case True
    then show ?thesis using res createRange_in_bounds[OF step assms(2)] by simp
  next
    case False
    note star = this
    show ?thesis
    proof (cases "range_match base")
      case None
      then show ?thesis using res star by (auto simp: in_bounds_def Let_def split: if_splits)
    next
      case (Some r)
      obtain lo hi where "r = (lo, hi)" by (cases r)
      then have "lo \<le> hi" "b_min b \<le> lo" "hi \<le> b_max b" "vs = createRange lo hi step"
        using res star Some by (simp_all split: if_splits)
      then show ?thesis using createRange_in_bounds[OF step] by simp
    qed
  qed
qed

lemma eall_mem: "eall (map f xs) = Inr yss \<Longrightarrow> ys \<in> set yss \<Longrightarrow> \<exists>x \<in> set xs. f x = Inr ys"
  by (induction xs arbitrary: yss) (auto simp: ebind_Inr_iff)

lemma eall_length: "eall (map f xs) = Inr yss \<Longrightarrow> length yss = length xs"
  by (induction xs arbitrary: yss) (auto simp: ebind_Inr_iff)

lemma parseField_in_bounds:
  assumes "parseField source b = Inr vs" "b_min b \<le> b_max b"
  shows "in_bounds b vs"
proof -
  let ?parts = "split_on (\<lambda>c. c = CHR '','') (trim source)"
  obtain vss where vss: "eall (map (parse_part b) ?parts) = Inr vss" "vs = concat vss"
    using assms(1) by (auto simp: parseField_def Let_def ebind_Inr_iff split: if_splits)
  have each: "in_bounds b ws" if "ws \<in> set vss" for ws
    using eall_mem[OF vss(1) that] parse_part_in_bounds[OF _ assms(2)] by blast
  have "vss \<noteq> []" using eall_length[OF vss(1)] split_on_neq_Nil by fastforce
  then obtain ws where "ws \<in> set vss" by (cases vss) auto
  with each have "vs \<noteq> []" unfolding vss(2) by (auto simp: in_bounds_def)
  then show ?thesis using each unfolding vss(2) in_bounds_def by auto
qed

definition cron_ok :: "parsed_cron \<Rightarrow> bool" where
  "cron_ok c \<longleftrightarrow>
     in_bounds (cron_bounds ! 0) (p_minute c) \<and> in_bounds (cron_bounds ! 1) (p_hour c)
     \<and> in_bounds (cron_bounds ! 2) (p_dayOfMonth c) \<and> in_bounds (cron_bounds ! 3) (p_month c)
     \<and> in_bounds (cron_bounds ! 4) (p_dayOfWeek c)"

lemma bounds_ok: "i < 5 \<Longrightarrow> b_min (cron_bounds ! i) \<le> b_max (cron_bounds ! i)"
  by (auto simp: cron_bounds_def less_Suc_eq numeral_eq_Suc)

lemma parseCron_ok:
  assumes "parseCronExpression e = Inr c"
  shows "cron_ok c"
proof -
  obtain mi ho dm mo dw where "words e = [mi, ho, dm, mo, dw]"
    using assms by (auto simp: parseCronExpression_def split: list.splits)
  then have "parseField mi (cron_bounds ! 0) = Inr (p_minute c)" "parseField ho (cron_bounds ! 1) = Inr (p_hour c)"
    "parseField dm (cron_bounds ! 2) = Inr (p_dayOfMonth c)" "parseField mo (cron_bounds ! 3) = Inr (p_month c)"
    "parseField dw (cron_bounds ! 4) = Inr (p_dayOfWeek c)"
    using assms by (auto simp: parseCronExpression_def ebind_Inr_iff)
  then show ?thesis
    unfolding cron_ok_def by (auto intro!: parseField_in_bounds bounds_ok)
qed

section \<open>The search\<close>

lemma cron_search_Some:
  "cron_search n P c = Some t \<Longrightarrow>
   \<exists>k < n. t = c + 60000 * int k \<and> P t \<and> (\<forall>j < k. \<not> P (c + 60000 * int j))"
proof (induction n arbitrary: c)
  case (Suc n)
  show ?case
  proof (cases "P c")
    case True
    then show ?thesis using Suc.prems by (intro exI[of _ 0]) simp
  next
    case False
    then obtain k where k: "k < n" "t = c + 60000 + 60000 * int k" "P t"
      "\<forall>j < k. \<not> P (c + 60000 + 60000 * int j)"
      using Suc.IH[of "c + 60000"] Suc.prems by auto
    have "\<not> P (c + 60000 * int j)" if "j < Suc k" for j
      using that k(4) False by (cases j) (auto simp: algebra_simps)
    then show ?thesis using k(1-3) by (intro exI[of _ "Suc k"]) (auto simp: algebra_simps)
  qed
qed simp

lemma cron_search_None:
  "cron_search n P c = None \<longleftrightarrow> (\<forall>k < n. \<not> P (c + 60000 * int k))"
proof (induction n arbitrary: c)
  case (Suc n)
  have "(\<forall>k < Suc n. \<not> P (c + 60000 * int k)) \<longleftrightarrow> \<not> P c \<and> (\<forall>k < n. \<not> P (c + 60000 + 60000 * int k))"
    unfolding All_less_Suc2 by (simp add: algebra_simps)
  then show ?case using Suc by simp
qed simp

lemma startOfNextMinute_after: "t < startOfNextMinute t" "startOfNextMinute t \<le> t + 60000"
  "startOfNextMinute t mod 60000 = 0"
  unfolding startOfNextMinute_def by (auto simp: algebra_simps)

lemma computeNextRunAt_cron:
  assumes "computeNextRunAt zones (Cron_at e tz) after = Inr t"
  obtains cron parts k where "parseCronExpression e = Inr cron" "createCronDatePartsReader zones tz = Inr parts"
    "k < search_limit" "t = startOfNextMinute after + 60000 * int k" "cron_matches cron (parts t)"
    "\<forall>j < k. \<not> cron_matches cron (parts (startOfNextMinute after + 60000 * int j))"
proof -
  obtain cron parts where cp: "parseCronExpression e = Inr cron" "createCronDatePartsReader zones tz = Inr parts"
    "cron_search search_limit (\<lambda>t. cron_matches cron (parts t)) (startOfNextMinute after) = Some t"
    using assms by (auto simp: computeNextRunAt_def ebind_Inr_iff split: option.splits)
  from cron_search_Some[OF cp(3)] cp(1,2) that show thesis by blast
qed

definition cadence_ok :: "cadence \<Rightarrow> bool" where
  "cadence_ok c \<longleftrightarrow> (case c of Every n \<Rightarrow> 0 < n | Cron_at _ _ \<Rightarrow> True)"

lemma computeNextRunAt_after:
  assumes "computeNextRunAt zones c after = Inr t" "cadence_ok c"
  shows "after < t"
proof (cases c)
  case (Every n)
  then show ?thesis using assms by (auto simp: computeNextRunAt_def cadence_ok_def)
next
  case (Cron_at e tz)
  obtain cron parts k where "t = startOfNextMinute after + 60000 * int k"
    using computeNextRunAt_cron[OF assms(1)[unfolded Cron_at]] by metis
  then show ?thesis using startOfNextMinute_after(1)[of after] by simp
qed

lemma minute_div_less:
  assumes "a < u" "u mod (60000 :: int) = 0"
  shows "a div 60000 < u div 60000"
proof (rule ccontr)
  assume "\<not> ?thesis"
  then have "u div 60000 * 60000 \<le> a div 60000 * 60000" by simp
  moreover have "u div 60000 * 60000 = u" using assms(2) div_mult_mod_eq[of u 60000] by simp
  moreover have "a div 60000 * 60000 \<le> a"
    using div_mult_mod_eq[of a 60000] pos_mod_sign[of 60000 a] by linarith
  ultimately show False using assms(1) by linarith
qed

section \<open>The calendar\<close>

text \<open>The days of an era of 400 years that start in March, and the year of a day of the era.\<close>

definition year_start :: "int \<Rightarrow> int" where
  "year_start y = 365 * y + y div 4 - y div 100"

definition year_of_era :: "int \<Rightarrow> int" where
  "year_of_era doe = (doe - doe div 1460 + doe div 36524 - doe div 146096) div 365"

definition year_end :: "int \<Rightarrow> int" where
  "year_end y = (if y = 399 then 146096 else year_start (y + 1) - 1)"

lemma year_table:
  assumes "0 \<le> y" "y \<le> 399"
  shows "year_of_era (year_start y) = y \<and> year_of_era (year_end y) = y \<and> year_end y - year_start y \<le> 365"
proof -
  have "list_all (\<lambda>y. year_of_era (year_start y) = y \<and> year_of_era (year_end y) = y \<and> year_end y - year_start y \<le> 365) [0..399]"
    by code_simp
  then show ?thesis using assms by (simp add: list_all_iff)
qed

text \<open>The month and the day of the month of a day counted from the first of March.\<close>

definition march_day :: "int \<Rightarrow> int \<times> int" where
  "march_day d =
     (let mp = (5 * d + 2) div 153
      in (if mp < 10 then mp + 3 else mp - 9, d - (153 * mp + 2) div 5 + 1))"

lemma march_day_table:
  assumes "0 \<le> d" "d \<le> 365"
  shows "(case march_day d of (mo, dy) \<Rightarrow> 1 \<le> mo \<and> mo \<le> 12 \<and> 1 \<le> dy \<and> dy \<le> 31) \<and> (march_day d = (2, 29) \<longleftrightarrow> d = 365)"
proof -
  have "list_all (\<lambda>d. (case march_day d of (mo, dy) \<Rightarrow> 1 \<le> mo \<and> mo \<le> 12 \<and> 1 \<le> dy \<and> dy \<le> 31)
      \<and> (march_day d = (2, 29) \<longleftrightarrow> d = 365)) [0..365]"
    by code_simp
  then have all: "\<forall>d \<in> {0..365}. (case march_day d of (mo, dy) \<Rightarrow> 1 \<le> mo \<and> mo \<le> 12 \<and> 1 \<le> dy \<and> dy \<le> 31)
      \<and> (march_day d = (2, 29) \<longleftrightarrow> d = 365)"
    unfolding list_all_iff set_upto .
  have "d \<in> {0..365}" using assms by simp
  with all show ?thesis by (rule bspec)
qed

lemma div_step: "0 < (k::int) \<Longrightarrow> x div k \<le> (x + 1) div k \<and> (x + 1) div k \<le> x div k + 1"
proof -
  assume k: "0 < k"
  have "(x + 1) div k \<le> (x + k) div k" using k by (intro zdiv_mono1) auto
  moreover have "(x + k) div k = x div k + 1" using k by (simp add: div_add_self2)
  moreover have "x div k \<le> (x + 1) div k" using k by (intro zdiv_mono1) auto
  ultimately show ?thesis by simp
qed

lemma era_step:
  assumes "0 \<le> x" "x < (146096 :: int)"
  shows "x - x div 1460 + x div 36524 - x div 146096
    \<le> (x + 1) - (x + 1) div 1460 + (x + 1) div 36524 - (x + 1) div 146096"
proof (cases "x = 146095")
  case False
  then have "x div 146096 = 0" "(x + 1) div 146096 = 0" using assms by (auto simp: div_pos_pos_trivial)
  then show ?thesis using div_step[of 1460 x] div_step[of 36524 x] by linarith
qed simp

lemma year_of_era_mono:
  assumes "0 \<le> a" "a \<le> b" "b < 146097"
  shows "year_of_era a \<le> year_of_era b"
proof -
  define f where "f = (\<lambda>x :: int. x - x div 1460 + x div 36524 - x div 146096)"
  have "b < 146097 \<longrightarrow> f a \<le> f b"
    using assms(2)
  proof (induction b rule: int_ge_induct)
    case (step i)
    show ?case
    proof
      assume i: "i + 1 < 146097"
      have "f i \<le> f (i + 1)" unfolding f_def by (rule era_step) (use step(1) assms(1) i in simp_all)
      then show "f a \<le> f (i + 1)" using step(2) i by (meson order_trans less_trans zless_add1_eq)
    qed
  qed simp
  then have "f a \<le> f b" using assms(3) by iprover
  then show ?thesis unfolding year_of_era_def f_def by (rule zdiv_mono1) simp
qed

lemma year_exists:
  assumes "0 \<le> d" "d < 146097"
  obtains y where "0 \<le> y" "y \<le> 399" "year_start y \<le> d" "d \<le> year_end y"
proof -
  have "\<exists>y. 0 \<le> y \<and> y \<le> n \<and> year_start y \<le> d \<and> d \<le> year_end y" if "0 \<le> n" "n \<le> 399" "d \<le> year_end n" for n
    using that
  proof (induction n rule: int_ge_induct)
    case base
    then show ?case using assms(1) by (intro exI[of _ 0]) (auto simp: year_start_def)
  next
    case (step n)
    show ?case
    proof (cases "year_start (n + 1) \<le> d")
      case True
      then show ?thesis using step by (intro exI[of _ "n + 1"]) auto
    next
      case False
      then have "d \<le> year_end n" using step by (auto simp: year_end_def)
      then show ?thesis using step by force
    qed
  qed
  from this[of 399] assms that show thesis by (auto simp: year_end_def)
qed

lemma month_day_march:
  assumes "0 \<le> y" "y \<le> 399" "year_start y \<le> (days + 719468) mod 146097" "(days + 719468) mod 146097 \<le> year_end y"
  shows "month_day days = march_day ((days + 719468) mod 146097 - year_start y)"
proof -
  define doe where "doe = (days + 719468) mod 146097"
  have doe: "0 \<le> doe" "doe < 146097" by (simp_all add: doe_def)
  have ys: "0 \<le> year_start y" using assms(1,2) unfolding year_start_def by linarith
  have ye: "year_end y < 146097"
  proof (cases "y = 399")
    case False
    then have "y + 1 \<le> 399" using assms(2) by simp
    then have "365 * (y + 1) \<le> 145635" "(y + 1) div 4 \<le> 399 div 4" "0 div 100 \<le> (y + 1) div 100"
      using assms(1) by (auto intro!: zdiv_mono1)
    then show ?thesis using False unfolding year_end_def year_start_def by simp
  qed (simp add: year_end_def)
  have "year_of_era doe = y"
    using year_of_era_mono[OF ys assms(3)[folded doe_def] doe(2)]
      year_of_era_mono[OF doe(1) assms(4)[folded doe_def] ye] year_table[OF assms(1,2)] by simp
  then have yoe: "(doe - doe div 1460 + doe div 36524 - doe div 146096) div 365 = y" by (simp add: year_of_era_def)
  show ?thesis
    unfolding month_day_def Let_def doe_def[symmetric] yoe year_start_def[symmetric] march_day_def ..
qed

lemma month_day_bounds:
  assumes "month_day days = (mo, dy)"
  shows "1 \<le> mo \<and> mo \<le> 12 \<and> 1 \<le> dy \<and> dy \<le> 31"
proof -
  let ?doe = "(days + 719468) mod 146097"
  have doe: "0 \<le> ?doe" "?doe < 146097" by simp_all
  obtain y where y: "0 \<le> y" "y \<le> 399" "year_start y \<le> ?doe" "?doe \<le> year_end y"
    using year_exists[OF doe] .
  have "0 \<le> ?doe - year_start y" "?doe - year_start y \<le> 365"
    using y(3,4) year_table[OF y(1,2)] by linarith+
  from march_day_table[OF this] assms month_day_march[OF y] show ?thesis by simp
qed

lemma no_leap_day:
  assumes "19783 \<le> d" "d < 21243"
  shows "month_day d \<noteq> (2, 29)"
proof -
  have "(d + 719468) mod 146097 = d + 719468 - 5 * 146097"
    using assms by (intro int_mod_pos_eq[of _ _ 5]) auto
  then have doe: "(d + 719468) mod 146097 = d - 11017" by simp
  have y: "month_day d \<noteq> (2, 29)" if "24 \<le> y" "y \<le> 27" "year_start y = s" "year_end y \<ge> s + 364" "s \<le> d - 11017" "d - 11017 \<le> s + 364" for y s
  proof -
    have "month_day d = march_day (d - 11017 - s)"
      using month_day_march[of y d] that unfolding doe by simp
    then show ?thesis using march_day_table[of "d - 11017 - s"] that by simp
  qed
  consider "d \<le> 20147" | "20148 \<le> d" "d \<le> 20512" | "20513 \<le> d" "d \<le> 20877" | "20878 \<le> d" by linarith
  then show ?thesis
  proof cases
    case 1 then show ?thesis using assms by (intro y[of 24 8766]) (auto simp: year_start_def year_end_def)
  next
    case 2 then show ?thesis using assms by (intro y[of 25 9131]) (auto simp: year_start_def year_end_def)
  next
    case 3 then show ?thesis using assms by (intro y[of 26 9496]) (auto simp: year_start_def year_end_def)
  next
    case 4 then show ?thesis using assms by (intro y[of 27 9861]) (auto simp: year_start_def year_end_def)
  qed
qed

lemma utc_calendar_fields:
  "d_dayOfMonth (utc_parts t) \<in> {1..31} \<and> d_month (utc_parts t) \<in> {1..12} \<and> d_dayOfWeek (utc_parts t) \<in> {0..6}"
proof -
  obtain mo dy where md: "month_day (t div 86400000) = (mo, dy)" by fastforce
  have "0 \<le> (t div 86400000 + 4) mod 7 \<and> (t div 86400000 + 4) mod 7 < 7" by simp
  then show ?thesis using month_day_bounds[OF md] md by (simp add: utc_parts_def Let_def)
qed

section \<open>Rolling intervals as cron expressions\<close>

definition full_fields :: "parsed_cron \<Rightarrow> bool" where
  "full_fields c \<longleftrightarrow> set (p_dayOfMonth c) = {1..31} \<and> set (p_month c) = {1..12} \<and> set (p_dayOfWeek c) = {0..6}"

lemma full_matches:
  "full_fields c \<Longrightarrow> cron_matches c (utc_parts t) \<longleftrightarrow>
     t div 60000 mod 60 \<in> set (p_minute c) \<and> t div 3600000 mod 24 \<in> set (p_hour c)"
  using utc_calendar_fields[of t]
  by (simp add: cron_matches_def full_fields_def) (simp add: utc_parts_def Let_def split: prod.splits)

text \<open>What an expression of a rolling interval parses to: minutes and hours that are multiples of a step.\<close>

definition steps :: "parsed_cron \<Rightarrow> int \<Rightarrow> int \<Rightarrow> bool" where
  "steps c m h \<longleftrightarrow> full_fields c \<and> set (p_minute c) = {x. 0 \<le> x \<and> x \<le> 59 \<and> x mod m = 0}
     \<and> set (p_hour c) = {x. 0 \<le> x \<and> x \<le> 23 \<and> x mod h = 0}"

definition step_cron :: "int \<Rightarrow> int \<Rightarrow> parsed_cron" where
  "step_cron m h = \<lparr>p_minute = createRange 0 59 m, p_hour = createRange 0 23 h, p_dayOfMonth = createRange 1 31 1,
     p_month = createRange 1 12 1, p_dayOfWeek = createRange 0 6 1\<rparr>"

lemma step_cron_steps: "0 < m \<Longrightarrow> 0 < h \<Longrightarrow> steps (step_cron m h) m h"
  by (auto simp: steps_def step_cron_def full_fields_def createRange_mem)

lemma steps_matches:
  assumes "steps c m h" "m dvd 60" "h dvd 24"
  shows "cron_matches c (utc_parts t) \<longleftrightarrow> t div 60000 mod m = 0 \<and> t div 3600000 mod h = 0"
proof -
  have "t div 60000 mod 60 mod m = t div 60000 mod m" "t div 3600000 mod 24 mod h = t div 3600000 mod h"
    using assms(2,3) by (simp_all add: mod_mod_cancel)
  moreover have "t div 60000 mod 60 \<le> 59" "t div 3600000 mod 24 \<le> 23"
    using pos_mod_bound[of 60 "t div 60000"] pos_mod_bound[of 24 "t div 3600000"] by linarith+
  ultimately show ?thesis
    using full_matches[of c t] assms(1) by (simp add: steps_def)
qed

lemma divisors_60:
  assumes "0 < m" "m < 60" "60 mod m = (0 :: int)"
  shows "m \<in> {1, 2, 3, 4, 5, 6, 10, 12, 15, 20, 30}"
proof -
  have "list_all (\<lambda>m. 60 mod m = (0 :: int) \<longrightarrow> m \<in> {1, 2, 3, 4, 5, 6, 10, 12, 15, 20, 30}) [1..59]" by code_simp
  then have "\<forall>m \<in> {1..59}. 60 mod m = (0 :: int) \<longrightarrow> m \<in> {1, 2, 3, 4, 5, 6, 10, 12, 15, 20, 30}"
    unfolding list_all_iff set_upto .
  moreover have "m \<in> {1..59}" using assms by simp
  ultimately have "60 mod m = 0 \<longrightarrow> m \<in> {1, 2, 3, 4, 5, 6, 10, 12, 15, 20, 30}" by (rule bspec)
  with assms(3) show ?thesis by (rule mp[rotated])
qed

lemma divisors_24:
  assumes "0 < h" "h < 24" "24 mod h = (0 :: int)"
  shows "h \<in> {1, 2, 3, 4, 6, 8, 12}"
proof -
  have "list_all (\<lambda>m. 24 mod m = (0 :: int) \<longrightarrow> m \<in> {1, 2, 3, 4, 6, 8, 12}) [1..23]" by code_simp
  then have "\<forall>m \<in> {1..23}. 24 mod m = (0 :: int) \<longrightarrow> m \<in> {1, 2, 3, 4, 6, 8, 12}"
    unfolding list_all_iff set_upto .
  moreover have "h \<in> {1..23}" using assms by simp
  ultimately have "24 mod h = 0 \<longrightarrow> h \<in> {1, 2, 3, 4, 6, 8, 12}" by (rule bspec)
  with assms(3) show ?thesis by (rule mp[rotated])
qed

lemma parse_minutes:
  assumes "0 < m" "m < 60" "60 mod m = 0"
  shows "parseCronExpression (''*/'' @ show_int m @ '' * * * *'') = Inr (step_cron m 1)"
  using divisors_60[OF assms] by (elim insertE emptyE; hypsubst) code_simp+

lemma parse_hours:
  assumes "0 < h" "h < 24" "24 mod h = 0"
  shows "parseCronExpression (''0 */'' @ show_int h @ '' * * *'') = Inr (step_cron 60 h)"
  using divisors_24[OF assms] by (elim insertE emptyE; hypsubst) code_simp+

lemma parse_hour_day:
  "parseCronExpression ''0 * * * *'' = Inr (step_cron 60 1)"
  "parseCronExpression ''0 0 * * *'' = Inr (step_cron 60 24)"
  by code_simp+

section \<open>Properties\<close>

text \<open>
  An accepted cron expression allows, in each of its five fields, at least one value and only
  values in the range of the field.
\<close>

theorem parsed_fields_in_bounds:
  assumes "parseCronExpression e = Inr c"
  shows "p_minute c \<noteq> [] \<and> set (p_minute c) \<subseteq> {0..59} \<and> p_hour c \<noteq> [] \<and> set (p_hour c) \<subseteq> {0..23}
    \<and> p_dayOfMonth c \<noteq> [] \<and> set (p_dayOfMonth c) \<subseteq> {1..31} \<and> p_month c \<noteq> [] \<and> set (p_month c) \<subseteq> {1..12}
    \<and> p_dayOfWeek c \<noteq> [] \<and> set (p_dayOfWeek c) \<subseteq> {0..6}"
  using parseCron_ok[OF assms] by (auto simp: cron_ok_def in_bounds_def cron_bounds_def)

lemma parsed_fields_in_bounds_witness:
  "\<exists>c. parseCronExpression ''*/15 9-17 * * 1,3'' = Inr c \<and> p_minute c = [0, 15, 30, 45]
     \<and> set (p_dayOfWeek c) \<subseteq> {0..6}"
proof -
  have "case parseCronExpression ''*/15 9-17 * * 1,3'' of Inl _ \<Rightarrow> False | Inr c \<Rightarrow> p_minute c = [0, 15, 30, 45]"
    by code_simp
  then obtain c where c: "parseCronExpression ''*/15 9-17 * * 1,3'' = Inr c" "p_minute c = [0, 15, 30, 45]"
    by (auto split: sum.splits)
  from parsed_fields_in_bounds[OF c(1)] c show ?thesis by blast
qed

lemma computeNextRunAt_first:
  assumes "parseCronExpression e = Inr cron" "createCronDatePartsReader zones tz = Inr parts"
  shows "(\<forall>t. computeNextRunAt zones (Cron_at e tz) after = Inr t \<longleftrightarrow>
            after < t \<and> t mod 60000 = 0 \<and> t < startOfNextMinute after + 60000 * int search_limit
            \<and> cron_matches cron (parts t)
            \<and> (\<forall>u. after < u \<and> u < t \<and> u mod 60000 = 0 \<longrightarrow> \<not> cron_matches cron (parts u)))
    \<and> (computeNextRunAt zones (Cron_at e tz) after = Inl (No_next_run e) \<longleftrightarrow>
        (\<forall>u. after < u \<and> u mod 60000 = 0 \<and> u < startOfNextMinute after + 60000 * int search_limit \<longrightarrow>
            \<not> cron_matches cron (parts u)))"
proof -
  let ?P = "\<lambda>t. cron_matches cron (parts t)" and ?c = "startOfNextMinute after"
  let ?s = "cron_search search_limit ?P ?c"
  have res: "computeNextRunAt zones (Cron_at e tz) after =
      (case ?s of None \<Rightarrow> Inl (No_next_run e) | Some t \<Rightarrow> Inr t)"
    using assms by (simp add: computeNextRunAt_def)
  have idx: "\<exists>k. u = ?c + 60000 * int k" if u: "after < u" "u mod 60000 = 0" for u
  proof -
    have uv: "u = u div 60000 * 60000" using u(2) div_mult_mod_eq[of u 60000] by simp
    have "after div 60000 < u div 60000" by (rule minute_div_less[OF u])
    then have "int (nat (u div 60000 - (after div 60000 + 1))) = u div 60000 - (after div 60000 + 1)"
      by simp
    then have "?c + 60000 * int (nat (u div 60000 - (after div 60000 + 1))) = u div 60000 * 60000"
      by (simp only: startOfNextMinute_def) (simp add: algebra_simps)
    with uv have "u = ?c + 60000 * int (nat (u div 60000 - (after div 60000 + 1)))" by simp
    then show ?thesis by blast
  qed
  have mono: "after < ?c + 60000 * int k" "(?c + 60000 * int k) mod 60000 = 0" for k
  proof -
    have "after < ?c" "?c mod 60000 = 0" using startOfNextMinute_after[of after] by simp_all
    moreover have "(?c + 60000 * int k) mod 60000 = ?c mod 60000" by (rule mod_mult_self2)
    ultimately show "after < ?c + 60000 * int k" "(?c + 60000 * int k) mod 60000 = 0" by simp_all
  qed
  have none: "?s = None \<longleftrightarrow> (\<forall>u. after < u \<and> u mod 60000 = 0 \<and> u < ?c + 60000 * int search_limit \<longrightarrow> \<not> ?P u)"
  proof
    assume n: "?s = None"
    have all: "\<forall>k < search_limit. \<not> ?P (?c + 60000 * int k)" using n by (simp only: cron_search_None)
    have "\<not> ?P u" if u: "after < u" "u mod 60000 = 0" "u < ?c + 60000 * int search_limit" for u
    proof -
      obtain k where k: "u = ?c + 60000 * int k" using idx[OF u(1,2)] by blast
      have klt: "k < search_limit" using u(3) unfolding k by simp
      show ?thesis unfolding k by (rule all[rule_format, OF klt])
    qed
    then show "\<forall>u. after < u \<and> u mod 60000 = 0 \<and> u < ?c + 60000 * int search_limit \<longrightarrow> \<not> ?P u"
      by (intro allI impI) (elim conjE)
  next
    assume none: "\<forall>u. after < u \<and> u mod 60000 = 0 \<and> u < ?c + 60000 * int search_limit \<longrightarrow> \<not> ?P u"
    have "\<not> ?P (?c + 60000 * int k)" if "k < search_limit" for k
    proof -
      have "?c + 60000 * int k < ?c + 60000 * int search_limit" using that by simp
      with mono[of k] show ?thesis by (intro none[rule_format] conjI)
    qed
    then show "?s = None" unfolding cron_search_None by (intro allI impI)
  qed
  have some: "?s = Some t \<longleftrightarrow> after < t \<and> t mod 60000 = 0 \<and> t < ?c + 60000 * int search_limit \<and> ?P t
      \<and> (\<forall>u. after < u \<and> u < t \<and> u mod 60000 = 0 \<longrightarrow> \<not> ?P u)" for t
  proof
    assume s: "?s = Some t"
    obtain k where k: "k < search_limit" "t = ?c + 60000 * int k" "?P t" "\<forall>j < k. \<not> ?P (?c + 60000 * int j)"
      using cron_search_Some[OF s] by (elim exE conjE)
    have no: "\<not> ?P u" if u: "after < u" "u < t" "u mod 60000 = 0" for u
    proof -
      obtain j where j: "u = ?c + 60000 * int j" using idx[OF u(1,3)] by (elim exE)
      have jk: "j < k" using u(2) unfolding j k(2) by simp
      show ?thesis unfolding j by (rule k(4)[rule_format, OF jk])
    qed
    have "t < ?c + 60000 * int search_limit" using k(1) unfolding k(2) by simp
    with k(3) mono[of k, folded k(2)] show "after < t \<and> t mod 60000 = 0 \<and> t < ?c + 60000 * int search_limit \<and> ?P t
      \<and> (\<forall>u. after < u \<and> u < t \<and> u mod 60000 = 0 \<longrightarrow> \<not> ?P u)"
      by (intro conjI allI impI) (simp_all add: no)
  next
    assume t: "after < t \<and> t mod 60000 = 0 \<and> t < ?c + 60000 * int search_limit \<and> ?P t
      \<and> (\<forall>u. after < u \<and> u < t \<and> u mod 60000 = 0 \<longrightarrow> \<not> ?P u)"
    note ta = t[THEN conjunct1] and t1 = t[THEN conjunct2]
    note tm = t1[THEN conjunct1] and t2 = t1[THEN conjunct2]
    note tl = t2[THEN conjunct1] and t3 = t2[THEN conjunct2]
    note tP = t3[THEN conjunct1] and tu = t3[THEN conjunct2]
    have "?s \<noteq> None"
    proof
      assume "?s = None"
      then have "\<not> ?P t" using ta tm tl by (intro none[THEN iffD1, rule_format] conjI)
      with tP show False by contradiction
    qed
    then obtain t' where t': "?s = Some t'" by blast
    obtain k where k: "t' = ?c + 60000 * int k" "?P t'" "\<forall>j < k. \<not> ?P (?c + 60000 * int j)"
      using cron_search_Some[OF t'] by (elim exE conjE)
    obtain j where j: "t = ?c + 60000 * int j" using idx[OF ta tm] by (elim exE)
    have "\<not> j < k"
    proof
      assume "j < k"
      then have "\<not> ?P t" unfolding j by (rule k(3)[rule_format])
      with tP show False by contradiction
    qed
    moreover have "\<not> t' < t"
    proof
      assume "t' < t"
      with mono[of k, folded k(1)] have "\<not> ?P t'" by (intro tu[rule_format] conjI)
      with k(2) show False by contradiction
    qed
    ultimately show "?s = Some t" using t' j k(1) by simp
  qed
  have inr: "computeNextRunAt zones (Cron_at e tz) after = Inr t \<longleftrightarrow> ?s = Some t" for t
    unfolding res by (simp split: option.split)
  have inl: "computeNextRunAt zones (Cron_at e tz) after = Inl (No_next_run e) \<longleftrightarrow> ?s = None"
    unfolding res by (simp split: option.split)
  show ?thesis unfolding inr inl some none by (intro conjI allI refl)
qed

text \<open>
  C36. The next run of a cron cadence is a whole minute strictly after the given time, at most 366
  days away, whose fields in the schedule's time zone match, and no earlier minute after the given
  time matches; an error means that no minute of the next 366 days matches.
\<close>

theorem next_run_is_first_match:
  assumes "parseCronExpression e = Inr cron" "createCronDatePartsReader zones tz = Inr parts"
  shows "(\<forall>t. computeNextRunAt zones (Cron_at e tz) after = Inr t \<longleftrightarrow>
            after < t \<and> t mod 60000 = 0 \<and> t < startOfNextMinute after + 60000 * int search_limit
            \<and> cron_matches cron (parts t)
            \<and> (\<forall>u. after < u \<and> u < t \<and> u mod 60000 = 0 \<longrightarrow> \<not> cron_matches cron (parts u)))
    \<and> (computeNextRunAt zones (Cron_at e tz) after = Inl (No_next_run e) \<longleftrightarrow>
        (\<forall>u. after < u \<and> u mod 60000 = 0 \<and> u < startOfNextMinute after + 60000 * int search_limit \<longrightarrow>
            \<not> cron_matches cron (parts u)))"
  by (rule computeNextRunAt_first[OF assms])

lemma next_run_is_first_match_witness:
  "computeNextRunAt (\<lambda>_. None) (Cron_at ''*/2 * * * *'' None) 0 = Inr 120000
   \<and> \<not> cron_matches (step_cron 2 1) (utc_parts 60000)"
proof -
  have p: "parseCronExpression ''*/2 * * * *'' = Inr (step_cron 2 1)" by code_simp
  have r: "createCronDatePartsReader (\<lambda>_. None) None = Inr utc_parts" by (simp add: createCronDatePartsReader_def)
  have l: "search_limit = Suc (Suc 527038)" by (simp add: search_limit_def)
  have m: "\<not> cron_matches (step_cron 2 1) (utc_parts 60000)" "cron_matches (step_cron 2 1) (utc_parts 120000)"
    by code_simp+
  have c: "computeNextRunAt (\<lambda>_. None) (Cron_at ''*/2 * * * *'' None) 0 = Inr 120000"
    unfolding computeNextRunAt_def cadence.case p r ebind_simps l using m by (simp only: startOfNextMinute_def cron_search.simps) simp
  from next_run_is_first_match[OF p r, THEN conjunct1, THEN spec, THEN iffD1, OF c] c m(1) show ?thesis by simp
qed

lemma steps_fire:
  assumes "t mod 60000 = 0" "0 < a" "0 < h" "a = 60 \<or> h = 1"
  shows "(t div 60000 mod a = 0 \<and> t div 3600000 mod h = 0) \<longleftrightarrow> t mod (60000 * (a * h)) = (0 :: int)"
proof -
  define q where "q = t div 60000"
  have t: "t = 60000 * q" using assms(1) div_mult_mod_eq[of t 60000] by (simp add: q_def)
  have h: "t div 3600000 = q div 60"
    using zdiv_zmult2_eq[of 60 t 60000] unfolding q_def by simp
  have m: "t mod (60000 * (a * h)) = 60000 * (q mod (a * h))" unfolding t by (rule mod_mult_mult1)
  show ?thesis
  proof (cases "h = 1")
    case True
    then show ?thesis using h m q_def by simp
  next
    case False
    then have a: "a = 60" using assms(4) by simp
    have "q mod (60 * h) = 60 * (q div 60 mod h) + q mod 60" using assms(3) by (intro zmod_zmult2_eq) simp
    moreover have "0 \<le> q div 60 mod h" "0 \<le> q mod 60" using assms(3) by simp_all
    ultimately have "q mod (60 * h) = 0 \<longleftrightarrow> q div 60 mod h = 0 \<and> q mod 60 = 0" by linarith
    moreover have "t mod (60000 * (a * h)) = 0 \<longleftrightarrow> q mod (60 * h) = 0" unfolding m unfolding a by simp
    ultimately show ?thesis unfolding h a q_def[symmetric] by iprover
  qed
qed



lemma leap_day_search:
  assumes "19783 * 86400000 \<le> after" "after < 20877 * 86400000"
  shows "validateScheduleCadence zones (Cron_at ''0 0 29 2 *'' None) = Inr ()
    \<and> computeNextRunAt zones (Cron_at ''0 0 29 2 *'' None) after = Inl (No_next_run ''0 0 29 2 *'')"
proof -
  have "case parseCronExpression ''0 0 29 2 *'' of Inl _ \<Rightarrow> False | Inr c \<Rightarrow> p_dayOfMonth c = [29] \<and> p_month c = [2]"
    by code_simp
  then obtain c where c: "parseCronExpression ''0 0 29 2 *'' = Inr c" "p_dayOfMonth c = [29]" "p_month c = [2]"
    by (auto split: sum.splits)
  have "\<not> cron_matches c (utc_parts (startOfNextMinute after + 60000 * int k))" if "k < search_limit" for k
  proof -
    define u where "u = startOfNextMinute after + 60000 * int k"
    have "after div 60000 < 20877 * 1440"
      using minute_div_less[OF assms(2)] by simp
    then have st: "startOfNextMinute after \<le> 20877 * 86400000" unfolding startOfNextMinute_def by simp
    have "int k \<le> 527039" using that by (simp add: search_limit_def)
    with st have hi: "u < 21243 * 86400000" unfolding u_def by linarith
    have "19783 * 86400000 \<le> u" using startOfNextMinute_after(1)[of after] assms(1) unfolding u_def by linarith
    then have "19783 \<le> u div 86400000" "u div 86400000 < 21243" using hi by linarith+
    then have "month_day (u div 86400000) \<noteq> (2, 29)" by (rule no_leap_day)
    then have "\<not> (d_dayOfMonth (utc_parts u) = 29 \<and> d_month (utc_parts u) = 2)"
      by (cases "month_day (u div 86400000)") (auto simp: utc_parts_def)
    then show ?thesis unfolding u_def[symmetric] cron_matches_def c(2,3) by auto
  qed
  then have "cron_search search_limit (\<lambda>t. cron_matches c (utc_parts t)) (startOfNextMinute after) = None"
    unfolding cron_search_None by iprover
  then show ?thesis
    using c(1) by (simp add: validateScheduleCadence_def computeNextRunAt_def createCronDatePartsReader_def)
qed

end
