(* ===== verification/Schedule_Store.thy ===== *)
theory Schedule_Store
  imports Cron Js_Json Task_Graph
begin

text \<open>
  Stored schedules: their schema (\<open>protocol/src/schedule/types.ts\<close>) and the store of
  \<open>server/schedule/store.ts\<close>, a directory with one JSON file per schedule. A file is the schedule
  it holds, a directory the list of its files in the order \<open>readdir\<close> gives; a time stamp is its
  time value in milliseconds. \<open>serializeMutation\<close> runs the mutations of one schedule one after
  the other, so an update is one step: read, apply, check, write. Parameters: \<open>en_zones\<close> (the time
  zones of \<open>Intl\<close>) and \<open>en_guid\<close> (the GUID check of the schema library).
\<close>

section \<open>Data\<close>

datatype sched_status = Sch_active | Sch_paused | Sch_completed
datatype sched_run_status = Run_running | Run_succeeded | Run_failed
datatype run_isolation = Iso_local | Iso_worktree

record sched_run =
  r_id :: string
  r_scheduledFor :: int
  r_startedAt :: int
  r_endedAt :: "int option"
  r_status :: sched_run_status
  r_agentId :: "string option"
  r_workspaceId :: "string option"
  r_output :: "string option"
  r_error :: "string option"

text \<open>\<open>title\<close> may be absent, null or a text.\<close>

record agent_config =
  nc_provider :: string
  nc_cwd :: string
  nc_modeId :: "string option"
  nc_model :: "string option"
  nc_thinkingOptionId :: "string option"
  nc_archiveOnFinish :: "bool option"
  nc_isolation :: "run_isolation option"
  nc_title :: "string option option"
  nc_providerOptions :: "json option"
  nc_featureValues :: "json option"
  nc_systemPrompt :: "string option"
  nc_mcpServers :: "json option"

datatype sched_target = Agent_target string | New_agent agent_config

text \<open>\<open>expiresAt\<close> is any text of the client; \<open>NaN\<close> is the time value of one that is no date.\<close>

record schedule =
  sc_id :: string
  sc_name :: "string option"
  sc_prompt :: string
  sc_cadence :: cadence
  sc_target :: sched_target
  sc_status :: sched_status
  sc_createdAt :: int
  sc_updatedAt :: int
  sc_nextRunAt :: "int option"
  sc_lastRunAt :: "int option"
  sc_pausedAt :: "int option"
  sc_expiresAt :: "js_num option"
  sc_maxRuns :: "int option"
  sc_runs :: "sched_run list"

datatype sched_error =
    Cron_failed cron_error
  | Invalid_time
  | Prompt_required
  | Name_required
  | Config_empty string
  | Max_runs_invalid
  | Schema_invalid string
  | Sched_not_found string
  | Sched_completed string
  | Sched_running string
  | Not_new_agent
  | Created_identity_mismatch
  | Updated_identity_mismatch
  | Update_changes_id string
  | Diverges
  | Target_gone string
  | Run_error string

record sched_env =
  en_zones :: zones
  en_guid :: "string \<Rightarrow> bool"

type_synonym sched_dir = "schedule list"

section \<open>The schema\<close>

definition min1 :: "string \<Rightarrow> string \<Rightarrow> sched_error + string" where
  "min1 field s = (if s = [] then Inl (Schema_invalid field) else Inr s)"

definition trim_min1 :: "string \<Rightarrow> string \<Rightarrow> sched_error + string" where
  "trim_min1 field s = min1 field (trim s)"

definition optional :: "('a \<Rightarrow> sched_error + 'a) \<Rightarrow> 'a option \<Rightarrow> sched_error + 'a option" where
  "optional p v = (case v of None \<Rightarrow> Inr None | Some x \<Rightarrow> ebind (p x) (\<lambda>y. Inr (Some y)))"

definition parse_cadence :: "cadence \<Rightarrow> sched_error + cadence" where
  "parse_cadence c =
     (case c of
        Every n \<Rightarrow> if 0 < n then Inr (Every n) else Inl (Schema_invalid ''everyMs'')
      | Cron_at expression timezone \<Rightarrow>
          ebind (trim_min1 ''expression'' expression) (\<lambda>e.
          ebind (optional (trim_min1 ''timezone'') timezone) (\<lambda>tz. Inr (Cron_at e tz))))"

definition parse_guid :: "sched_env \<Rightarrow> string \<Rightarrow> sched_error + string" where
  "parse_guid env g = (if en_guid env g then Inr g else Inl (Schema_invalid ''agentId''))"

definition parse_config :: "agent_config \<Rightarrow> sched_error + agent_config" where
  "parse_config c =
     ebind (trim_min1 ''cwd'' (nc_cwd c)) (\<lambda>cwd.
     ebind (optional (trim_min1 ''modeId'') (nc_modeId c)) (\<lambda>modeId.
     ebind (optional (trim_min1 ''model'') (nc_model c)) (\<lambda>model.
     ebind (optional (trim_min1 ''thinkingOptionId'') (nc_thinkingOptionId c)) (\<lambda>thinking.
     ebind (optional (optional (trim_min1 ''title'')) (nc_title c)) (\<lambda>title.
     Inr (c\<lparr>nc_cwd := cwd, nc_modeId := modeId, nc_model := model,
            nc_thinkingOptionId := thinking, nc_title := title\<rparr>))))))"

definition parse_target :: "sched_env \<Rightarrow> sched_target \<Rightarrow> sched_error + sched_target" where
  "parse_target env t =
     (case t of
        Agent_target a \<Rightarrow> ebind (parse_guid env a) (\<lambda>a. Inr (Agent_target a))
      | New_agent c \<Rightarrow> ebind (parse_config c) (\<lambda>c. Inr (New_agent c)))"

definition parse_run :: "sched_env \<Rightarrow> sched_run \<Rightarrow> sched_error + sched_run" where
  "parse_run env r = ebind (optional (parse_guid env) (r_agentId r)) (\<lambda>a. Inr (r\<lparr>r_agentId := a\<rparr>))"

definition parse_maxRuns :: "int \<Rightarrow> sched_error + int" where
  "parse_maxRuns n = (if 0 < n then Inr n else Inl (Schema_invalid ''maxRuns''))"

text \<open>\<open>StoredScheduleSchema.parse\<close>.\<close>

definition parse_schedule :: "sched_env \<Rightarrow> schedule \<Rightarrow> sched_error + schedule" where
  "parse_schedule env s =
     ebind (min1 ''prompt'' (sc_prompt s)) (\<lambda>prompt.
     ebind (parse_cadence (sc_cadence s)) (\<lambda>cad.
     ebind (parse_target env (sc_target s)) (\<lambda>target.
     ebind (optional parse_maxRuns (sc_maxRuns s)) (\<lambda>maxRuns.
     ebind (eall (map (parse_run env) (sc_runs s))) (\<lambda>runs.
     Inr (s\<lparr>sc_prompt := prompt, sc_cadence := cad, sc_target := target, sc_maxRuns := maxRuns,
            sc_runs := runs\<rparr>))))))"

section \<open>The identity of a schedule\<close>

definition normalizeScheduleName :: "string \<Rightarrow> sched_error + string" where
  "normalizeScheduleName name = (if trim name = [] then Inl Name_required else Inr (trim name))"

definition normalizeOptionalScheduleName :: "string option \<Rightarrow> string option" where
  "normalizeOptionalScheduleName name =
     (case name of None \<Rightarrow> None | Some n \<Rightarrow> if trim n = [] then None else Some (trim n))"

text \<open>An object lists its array-index keys in numeric order, then the other keys as inserted.\<close>

definition index_key :: "string \<Rightarrow> bool" where
  "index_key k \<longleftrightarrow> all_digits k \<and> show_nat (digits_val k) = k \<and> digits_val k < 4294967295"

definition object_order :: "(string \<times> json) list \<Rightarrow> (string \<times> json) list" where
  "object_order kvs =
     sort_by (\<lambda>a b. digits_val (fst a) \<le> digits_val (fst b)) (filter (\<lambda>kv. index_key (fst kv)) kvs)
     @ filter (\<lambda>kv. \<not> index_key (fst kv)) kvs"

fun canonicalize :: "json \<Rightarrow> json" where
  "canonicalize (JArray js) = JArray (map canonicalize js)"
| "canonicalize (JObject kvs) =
     JObject (object_order (sort_by (\<lambda>a b. code_unit_compare (fst a) (fst b) \<le> 0)
       (map (\<lambda>(k, v). (k, canonicalize v)) kvs)))"
| "canonicalize j = j"

definition opt_prop :: "string \<Rightarrow> ('a \<Rightarrow> json) \<Rightarrow> 'a option \<Rightarrow> (string \<times> json) list" where
  "opt_prop key f v = (case v of None \<Rightarrow> [] | Some x \<Rightarrow> [(key, f x)])"

definition iso_json :: "run_isolation \<Rightarrow> json" where
  "iso_json i = JString (case i of Iso_local \<Rightarrow> ''local'' | Iso_worktree \<Rightarrow> ''worktree'')"

definition config_json :: "agent_config \<Rightarrow> json" where
  "config_json c = JObject
     ([(''provider'', JString (nc_provider c)), (''cwd'', JString (nc_cwd c))]
      @ opt_prop ''modeId'' JString (nc_modeId c)
      @ opt_prop ''model'' JString (nc_model c)
      @ opt_prop ''thinkingOptionId'' JString (nc_thinkingOptionId c)
      @ opt_prop ''archiveOnFinish'' JBool (nc_archiveOnFinish c)
      @ opt_prop ''isolation'' iso_json (nc_isolation c)
      @ opt_prop ''title'' (\<lambda>t. case t of None \<Rightarrow> JNull | Some s \<Rightarrow> JString s) (nc_title c)
      @ opt_prop ''providerOptions'' id (nc_providerOptions c)
      @ opt_prop ''featureValues'' id (nc_featureValues c)
      @ opt_prop ''systemPrompt'' JString (nc_systemPrompt c)
      @ opt_prop ''mcpServers'' id (nc_mcpServers c))"

definition targetIdentity :: "sched_target \<Rightarrow> json" where
  "targetIdentity t =
     (case t of
        Agent_target a \<Rightarrow> JObject [(''type'', JString ''agent''), (''agentId'', JString a)]
      | New_agent c \<Rightarrow> JObject [(''type'', JString ''new-agent''), (''config'', config_json c)])"

definition nameTargetIdentityKey :: "string \<Rightarrow> sched_target \<Rightarrow> sched_error + string" where
  "nameTargetIdentityKey name t =
     ebind (normalizeScheduleName name) (\<lambda>n.
       Inr (stringify (canonicalize (JObject [(''name'', JString n), (''target'', targetIdentity t)]))))"

text \<open>Its callers have checked that \<open>name\<close> is not blank, so the key of \<open>name\<close> never throws here.\<close>

definition matchesNameAndTarget :: "schedule \<Rightarrow> string \<Rightarrow> sched_target \<Rightarrow> bool" where
  "matchesNameAndTarget s name t \<longleftrightarrow>
     sc_status s \<noteq> Sch_completed
     \<and> (case normalizeOptionalScheduleName (sc_name s) of
          None \<Rightarrow> False
        | Some n \<Rightarrow> Inr n = normalizeScheduleName name
            \<and> nameTargetIdentityKey n (sc_target s) = nameTargetIdentityKey name t)"

section \<open>The store\<close>

text \<open>\<open>createdAt.localeCompare\<close> on ISO texts of the same length is the order of the times.\<close>

definition sched_list :: "sched_dir \<Rightarrow> schedule list" where
  "sched_list d = sort_by (\<lambda>a b. sc_createdAt a \<le> sc_createdAt b) d"

definition sched_get :: "string \<Rightarrow> sched_dir \<Rightarrow> schedule option" where
  "sched_get i d = find (\<lambda>s. sc_id s = i) d"

definition sched_write :: "schedule \<Rightarrow> sched_dir \<Rightarrow> sched_dir" where
  "sched_write s d =
     (if sc_id s \<in> sc_id ` set d then map (\<lambda>x. if sc_id x = sc_id s then s else x) d else d @ [s])"

definition sched_store_create :: "sched_env \<Rightarrow> string \<Rightarrow> schedule \<Rightarrow> sched_dir \<Rightarrow> (sched_error + schedule) \<times> sched_dir" where
  "sched_store_create env newId s d =
     (case parse_schedule env (s\<lparr>sc_id := newId\<rparr>) of
        Inl e \<Rightarrow> (Inl e, d)
      | Inr created \<Rightarrow> (Inr created, sched_write created d))"

text \<open>An updater that returns the schedule it was given is \<open>Inr None\<close>: nothing is written.\<close>

type_synonym sched_updater = "schedule \<Rightarrow> sched_error + schedule option"

definition sched_store_update ::
    "sched_env \<Rightarrow> string \<Rightarrow> sched_updater \<Rightarrow> sched_dir \<Rightarrow> (sched_error + schedule option) \<times> sched_dir" where
  "sched_store_update env i updater d =
     (case sched_get i d of
        None \<Rightarrow> (Inr None, d)
      | Some current \<Rightarrow>
          (case updater current of
             Inl e \<Rightarrow> (Inl e, d)
           | Inr None \<Rightarrow> (Inr (Some current), d)
           | Inr (Some nxt) \<Rightarrow>
               if sc_id nxt \<noteq> i then (Inl (Update_changes_id i), d)
               else (case parse_schedule env nxt of
                       Inl e \<Rightarrow> (Inl e, d)
                     | Inr updated \<Rightarrow> (Inr (Some updated), sched_write updated d))))"

definition updateMatchedSchedule ::
    "sched_env \<Rightarrow> string \<Rightarrow> string \<Rightarrow> sched_target \<Rightarrow> (schedule \<Rightarrow> sched_error + schedule) \<Rightarrow> sched_dir
     \<Rightarrow> (sched_error + schedule option) \<times> sched_dir" where
  "updateMatchedSchedule env i name t updater d =
     (case sched_get i d of
        None \<Rightarrow> (Inr None, d)
      | Some current \<Rightarrow>
          if \<not> matchesNameAndTarget current name t then (Inr None, d)
          else (case updater current of
             Inl e \<Rightarrow> (Inl e, d)
           | Inr nxt \<Rightarrow>
               if sc_id nxt \<noteq> i then (Inl (Update_changes_id i), d)
               else (case parse_schedule env nxt of
                       Inl e \<Rightarrow> (Inl e, d)
                     | Inr updated \<Rightarrow>
                         if \<not> matchesNameAndTarget updated name t
                         then (Inl Updated_identity_mismatch, d)
                         else (Inr (Some updated), sched_write updated d))))"

text \<open>
  One round of the loop of \<open>upsertByNameAndTarget\<close>. \<open>listed\<close> is the directory that the round lists,
  \<open>d\<close> the directory when it writes: other mutations may come between. \<open>Inr None\<close> is another round.
\<close>

definition upsert_round ::
    "sched_env \<Rightarrow> string \<Rightarrow> string \<Rightarrow> sched_target \<Rightarrow> (sched_error + schedule)
     \<Rightarrow> (schedule \<Rightarrow> sched_error + schedule) \<Rightarrow> sched_dir \<Rightarrow> sched_dir
     \<Rightarrow> (sched_error + schedule option) \<times> sched_dir" where
  "upsert_round env newId name t create updater listed d =
     (case find (\<lambda>s. matchesNameAndTarget s name t) (sched_list listed) of
        None \<Rightarrow>
          (case create of
             Inl e \<Rightarrow> (Inl e, d)
           | Inr s \<Rightarrow>
               (case parse_schedule env (s\<lparr>sc_id := newId\<rparr>) of
                  Inl e \<Rightarrow> (Inl e, d)
                | Inr created \<Rightarrow>
                    if \<not> matchesNameAndTarget created name t
                    then (Inl Created_identity_mismatch, d)
                    else (Inr (Some created), sched_write created d)))
      | Some existing \<Rightarrow> updateMatchedSchedule env (sc_id existing) name t updater d)"

text \<open>The call without mutations in between; a second round is then never needed (below).\<close>

definition upsertByNameAndTarget ::
    "sched_env \<Rightarrow> string \<Rightarrow> string \<Rightarrow> sched_target \<Rightarrow> (sched_error + schedule)
     \<Rightarrow> (schedule \<Rightarrow> sched_error + schedule) \<Rightarrow> sched_dir
     \<Rightarrow> (sched_error + schedule option) \<times> sched_dir" where
  "upsertByNameAndTarget env newId name t create updater d =
     (case nameTargetIdentityKey name t of
        Inl e \<Rightarrow> (Inl e, d)
      | Inr _ \<Rightarrow> upsert_round env newId name t create updater d d)"

definition sched_delete :: "string \<Rightarrow> sched_dir \<Rightarrow> sched_dir" where
  "sched_delete i d = filter (\<lambda>s. sc_id s \<noteq> i) d"

end
