(* ===== verification/Schedule_Service.thy ===== *)
theory Schedule_Service
  imports Schedule_Store
begin

text \<open>
  \<open>ScheduleService\<close> of \<open>server/schedule/service.ts\<close>. An operation maps the directory of schedules to
  its result and the new directory. A run of a schedule is its begin, the records it writes while the
  agent works, and its end, so that other operations come between; a tick is the list of schedules it
  took when it started and is still to visit. Parameters, besides those of the store: the clock
  (\<open>now\<close>), fresh ids, the text of an error, and the agents, workspaces and file system that
  a run meets (\<open>sched_run_world\<close>).
\<close>

section \<open>Inputs and their normal forms\<close>

definition trimOptionalName :: "string option \<Rightarrow> string option" where
  "trimOptionalName v = (case v of None \<Rightarrow> None | Some s \<Rightarrow> if trim s \<noteq> [] then Some (trim s) else None)"

definition normalizePrompt :: "string \<Rightarrow> sched_error + string" where
  "normalizePrompt prompt = (if trim prompt = [] then Inl Prompt_required else Inr (trim prompt))"

definition normalizeMaxRuns :: "js_num option \<Rightarrow> sched_error + int option" where
  "normalizeMaxRuns v =
     (case v of
        None \<Rightarrow> Inr None
      | Some NaN \<Rightarrow> Inl Max_runs_invalid
      | Some (Num n) \<Rightarrow> if n \<le> 0 then Inl Max_runs_invalid else Inr (Some n))"

text \<open>The outer option of a field is absence, the inner one \<open>null\<close>.\<close>

record config_patch =
  pa_provider :: "string option"
  pa_model :: "string option option"
  pa_modeId :: "string option option"
  pa_thinkingOptionId :: "string option option"
  pa_archiveOnFinish :: "bool option"
  pa_isolation :: "run_isolation option"
  pa_cwd :: "string option"

definition set_trimmed :: "string \<Rightarrow> string \<Rightarrow> string option \<Rightarrow> sched_error + string" where
  "set_trimmed field old v =
     (case v of
        None \<Rightarrow> Inr old
      | Some s \<Rightarrow> if trim s = [] then Inl (Config_empty field) else Inr (trim s))"

definition set_or_delete :: "string option \<Rightarrow> string option option \<Rightarrow> string option" where
  "set_or_delete old v = (case v of None \<Rightarrow> old | Some s \<Rightarrow> trimOptionalName s)"

definition applyNewAgentConfig :: "agent_config \<Rightarrow> config_patch \<Rightarrow> sched_error + agent_config" where
  "applyNewAgentConfig c p =
     ebind (set_trimmed ''provider'' (nc_provider c) (pa_provider p)) (\<lambda>provider.
     ebind (set_trimmed ''cwd'' (nc_cwd c) (pa_cwd p)) (\<lambda>cwd.
     Inr (c\<lparr>nc_provider := provider, nc_cwd := cwd,
            nc_model := set_or_delete (nc_model c) (pa_model p),
            nc_modeId := set_or_delete (nc_modeId c) (pa_modeId p),
            nc_thinkingOptionId := set_or_delete (nc_thinkingOptionId c) (pa_thinkingOptionId p),
            nc_archiveOnFinish := (case pa_archiveOnFinish p of None \<Rightarrow> nc_archiveOnFinish c | Some b \<Rightarrow> Some b),
            nc_isolation := (case pa_isolation p of None \<Rightarrow> nc_isolation c | Some i \<Rightarrow> Some i)\<rparr>)))"

record sched_create_input =
  ci_name :: "string option"
  ci_prompt :: string
  ci_cadence :: cadence
  ci_target :: sched_target
  ci_maxRuns :: "js_num option"
  ci_expiresAt :: "js_num option"
  ci_runOnCreate :: "bool option"

record sched_update_input =
  ui_name :: "string option option"
  ui_prompt :: "string option"
  ui_cadence :: "cadence option"
  ui_newAgentConfig :: "config_patch option"
  ui_maxRuns :: "js_num option option"
  ui_expiresAt :: "js_num option option"

section \<open>Times\<close>

definition lift_cron :: "cron_error + 'a \<Rightarrow> sched_error + 'a" where
  "lift_cron r = (case r of Inl e \<Rightarrow> Inl (Cron_failed e) | Inr x \<Rightarrow> Inr x)"

text \<open>\<open>toISOString\<close> throws outside the range of a \<open>Date\<close>.\<close>

definition toISOString :: "int \<Rightarrow> sched_error + int" where
  "toISOString t = (if \<bar>t\<bar> \<le> 8640000000000000 then Inr t else Inl Invalid_time)"

definition next_iso :: "sched_env \<Rightarrow> cadence \<Rightarrow> int \<Rightarrow> sched_error + int" where
  "next_iso env c after = ebind (lift_cron (computeNextRunAt (en_zones env) c after)) toISOString"

text \<open>
  The loops that skip missed occurrences: from \<open>t\<close> until a time after \<open>now\<close>. A step that does not
  move forward repeats for ever; \<open>Diverges\<close> stands for the call that never returns.
\<close>

function skip_missed :: "sched_env \<Rightarrow> cadence \<Rightarrow> int \<Rightarrow> int \<Rightarrow> sched_error + int" where
  "skip_missed env c now t =
     (if t \<le> now then
        (case computeNextRunAt (en_zones env) c t of
           Inl e \<Rightarrow> Inl (Cron_failed e)
         | Inr t' \<Rightarrow> if t' \<le> t then Inl Diverges else skip_missed env c now t')
      else Inr t)"
  by pat_completeness auto
termination by (relation "measure (\<lambda>(env, c, now, t). nat (now + 1 - t))") auto

declare skip_missed.simps [simp del]

definition next_after :: "sched_env \<Rightarrow> cadence \<Rightarrow> int \<Rightarrow> int \<Rightarrow> sched_error + int" where
  "next_after env c now after =
     ebind (lift_cron (computeNextRunAt (en_zones env) c after)) (\<lambda>t.
     ebind (skip_missed env c now t) toISOString)"

section \<open>Completion\<close>

definition countCompletedRuns :: "schedule \<Rightarrow> nat" where
  "countCompletedRuns s = length (filter (\<lambda>r. r_status r \<noteq> Run_running) (sc_runs s))"

definition shouldArchiveScheduleRunWorkspace :: "string option \<Rightarrow> bool option \<Rightarrow> bool" where
  "shouldArchiveScheduleRunWorkspace agentId archiveOnFinish \<longleftrightarrow>
     agentId = None \<or> (case archiveOnFinish of None \<Rightarrow> True | Some b \<Rightarrow> b)"

definition expired :: "js_num option \<Rightarrow> int \<Rightarrow> bool" where
  "expired e now \<longleftrightarrow> (case e of Some (Num t) \<Rightarrow> t \<le> now | _ \<Rightarrow> False)"

definition shouldCompleteSchedule :: "schedule \<Rightarrow> int \<Rightarrow> bool" where
  "shouldCompleteSchedule s now \<longleftrightarrow>
     expired (sc_expiresAt s) now
     \<or> (case sc_maxRuns s of None \<Rightarrow> False | Some n \<Rightarrow> n \<le> int (countCompletedRuns s))"

definition requireSchedule :: "(sched_error + schedule option) \<Rightarrow> string \<Rightarrow> sched_error + schedule" where
  "requireSchedule r i = ebind r (\<lambda>s. case s of None \<Rightarrow> Inl (Sched_not_found i) | Some s \<Rightarrow> Inr s)"

definition completeSchedule :: "schedule \<Rightarrow> int \<Rightarrow> schedule" where
  "completeSchedule s now =
     s\<lparr>sc_status := Sch_completed, sc_nextRunAt := None, sc_pausedAt := None, sc_updatedAt := now\<rparr>"

definition mergeScheduleCadenceTimezone :: "cadence \<Rightarrow> cadence \<Rightarrow> cadence" where
  "mergeScheduleCadenceTimezone current nxt =
     (case (current, nxt) of
        (Cron_at _ (Some tz), Cron_at e None) \<Rightarrow> Cron_at e (Some tz)
      | _ \<Rightarrow> nxt)"

definition buildRunOutput :: "string option \<Rightarrow> string \<Rightarrow> string \<Rightarrow> string option" where
  "buildRunOutput output timelineText finalText =
     (if case output of None \<Rightarrow> False | Some s \<Rightarrow> trim s \<noteq> [] then output
      else if trim finalText \<noteq> [] then Some (trim finalText)
      else if trim timelineText \<noteq> [] then Some (trim timelineText)
      else None)"

definition buildScheduleFireBody :: "schedule \<Rightarrow> string \<Rightarrow> string" where
  "buildScheduleFireBody s runId =
     (case sc_name s of
        Some (c # cs) \<Rightarrow> ''Schedule '' @ [CHR 0x22] @ (c # cs) @ [CHR 0x22] @ '' fired (id='' @ sc_id s @ '', run='' @ runId @ '').''
      | _ \<Rightarrow> ''Schedule fired (id='' @ sc_id s @ '', run='' @ runId @ '').'')
     @ nl @ sc_prompt s"

section \<open>Operations of the client\<close>

definition is_every :: "cadence \<Rightarrow> bool" where
  "is_every c = (case c of Every _ \<Rightarrow> True | Cron_at _ _ \<Rightarrow> False)"

definition first_run :: "sched_env \<Rightarrow> bool option \<Rightarrow> cadence \<Rightarrow> int \<Rightarrow> sched_error + int" where
  "first_run env runOnCreate c now =
     (if case runOnCreate of None \<Rightarrow> is_every c | Some b \<Rightarrow> b then toISOString now else next_iso env c now)"

definition buildScheduleRecord ::
    "sched_env \<Rightarrow> int \<Rightarrow> sched_create_input \<Rightarrow> string option \<Rightarrow> string \<Rightarrow> sched_error + schedule" where
  "buildScheduleRecord env now input name prompt =
     ebind (first_run env (ci_runOnCreate input) (ci_cadence input) now) (\<lambda>nextRunAt.
     ebind (normalizeMaxRuns (ci_maxRuns input)) (\<lambda>maxRuns.
     Inr \<lparr>sc_id = [], sc_name = name, sc_prompt = prompt, sc_cadence = ci_cadence input,
          sc_target = ci_target input, sc_status = Sch_active, sc_createdAt = now, sc_updatedAt = now,
          sc_nextRunAt = Some nextRunAt, sc_lastRunAt = None, sc_pausedAt = None,
          sc_expiresAt = ci_expiresAt input, sc_maxRuns = maxRuns, sc_runs = []\<rparr>))"

definition createScheduleRecord ::
    "sched_env \<Rightarrow> string \<Rightarrow> int \<Rightarrow> sched_create_input \<Rightarrow> string option \<Rightarrow> string \<Rightarrow> sched_dir
     \<Rightarrow> (sched_error + schedule) \<times> sched_dir" where
  "createScheduleRecord env newId now input name prompt d =
     (case buildScheduleRecord env now input name prompt of
        Inl e \<Rightarrow> (Inl e, d)
      | Inr s \<Rightarrow> sched_store_create env newId s d)"

definition create_checks :: "sched_env \<Rightarrow> sched_create_input \<Rightarrow> sched_error + string" where
  "create_checks env input =
     ebind (normalizePrompt (ci_prompt input)) (\<lambda>prompt.
     ebind (lift_cron (validateScheduleCadence (en_zones env) (ci_cadence input))) (\<lambda>_. Inr prompt))"

definition sched_create ::
    "sched_env \<Rightarrow> string \<Rightarrow> int \<Rightarrow> sched_create_input \<Rightarrow> sched_dir \<Rightarrow> (sched_error + schedule) \<times> sched_dir" where
  "sched_create env newId now input d =
     (case create_checks env input of
        Inl e \<Rightarrow> (Inl e, d)
      | Inr prompt \<Rightarrow>
          createScheduleRecord env newId now input (trimOptionalName (ci_name input)) prompt d)"

definition replace_updater ::
    "sched_env \<Rightarrow> int \<Rightarrow> sched_create_input \<Rightarrow> string \<Rightarrow> string \<Rightarrow> schedule \<Rightarrow> sched_error + schedule" where
  "replace_updater env now input name prompt current =
     (let c = mergeScheduleCadenceTimezone (sc_cadence current) (ci_cadence input) in
      ebind (first_run env (ci_runOnCreate input) c now) (\<lambda>nextRunAt.
      ebind (normalizeMaxRuns (ci_maxRuns input)) (\<lambda>maxRuns.
      Inr (current\<lparr>sc_name := Some name, sc_prompt := prompt, sc_cadence := c,
             sc_target := ci_target input, sc_status := Sch_active, sc_pausedAt := None,
             sc_nextRunAt := Some nextRunAt, sc_expiresAt := ci_expiresAt input,
             sc_maxRuns := maxRuns, sc_updatedAt := now\<rparr>))))"

definition createOrReplace ::
    "sched_env \<Rightarrow> string \<Rightarrow> int \<Rightarrow> sched_create_input \<Rightarrow> sched_dir
     \<Rightarrow> (sched_error + schedule option) \<times> sched_dir" where
  "createOrReplace env newId now input d =
     (case create_checks env input of
        Inl e \<Rightarrow> (Inl e, d)
      | Inr prompt \<Rightarrow>
          (case trimOptionalName (ci_name input) of
             None \<Rightarrow>
               (case createScheduleRecord env newId now input None prompt d of
                  (r, d') \<Rightarrow> (ebind r (\<lambda>s. Inr (Some s)), d'))
           | Some name \<Rightarrow>
               upsertByNameAndTarget env newId name (ci_target input)
                 (buildScheduleRecord env now input (Some name) prompt)
                 (replace_updater env now input name prompt) d))"

definition sched_inspect :: "string \<Rightarrow> sched_dir \<Rightarrow> sched_error + schedule" where
  "sched_inspect i d = requireSchedule (Inr (sched_get i d)) i"

definition sched_logs :: "string \<Rightarrow> sched_dir \<Rightarrow> sched_error + sched_run list" where
  "sched_logs i d =
     ebind (sched_inspect i d) (\<lambda>s. Inr (sort_by (\<lambda>a b. r_startedAt a \<le> r_startedAt b) (sc_runs s)))"

definition pause_updater :: "int \<Rightarrow> sched_updater" where
  "pause_updater now s =
     (case sc_status s of
        Sch_completed \<Rightarrow> Inl (Sched_completed (sc_id s))
      | Sch_paused \<Rightarrow> Inr None
      | Sch_active \<Rightarrow> Inr (Some (s\<lparr>sc_status := Sch_paused, sc_nextRunAt := None,
                                     sc_pausedAt := Some now, sc_updatedAt := now\<rparr>)))"

definition update_required ::
    "sched_env \<Rightarrow> string \<Rightarrow> sched_updater \<Rightarrow> sched_dir \<Rightarrow> (sched_error + schedule) \<times> sched_dir" where
  "update_required env i f d = (case sched_store_update env i f d of (r, d') \<Rightarrow> (requireSchedule r i, d'))"

definition sched_pause :: "sched_env \<Rightarrow> int \<Rightarrow> string \<Rightarrow> sched_dir \<Rightarrow> (sched_error + schedule) \<times> sched_dir" where
  "sched_pause env now i d = update_required env i (pause_updater now) d"

definition resume_updater :: "sched_env \<Rightarrow> int \<Rightarrow> sched_updater" where
  "resume_updater env now s =
     (case sc_status s of
        Sch_completed \<Rightarrow> Inl (Sched_completed (sc_id s))
      | Sch_active \<Rightarrow> Inr None
      | Sch_paused \<Rightarrow>
          ebind (next_iso env (sc_cadence s) now) (\<lambda>t.
            Inr (Some (s\<lparr>sc_status := Sch_active, sc_pausedAt := None, sc_nextRunAt := Some t,
                         sc_updatedAt := now\<rparr>))))"

definition sched_resume :: "sched_env \<Rightarrow> int \<Rightarrow> string \<Rightarrow> sched_dir \<Rightarrow> (sched_error + schedule) \<times> sched_dir" where
  "sched_resume env now i d = update_required env i (resume_updater env now) d"

definition upd_cadence :: "sched_env \<Rightarrow> int \<Rightarrow> cadence option \<Rightarrow> schedule \<Rightarrow> sched_error + schedule" where
  "upd_cadence env now v s =
     (case v of
        None \<Rightarrow> Inr s
      | Some nxt \<Rightarrow>
          (let c = mergeScheduleCadenceTimezone (sc_cadence s) nxt in
           ebind (lift_cron (validateScheduleCadence (en_zones env) c)) (\<lambda>_.
           ebind (if sc_status s = Sch_active then ebind (next_iso env c now) (\<lambda>t. Inr (Some t)) else Inr None)
             (\<lambda>nextRunAt. Inr (s\<lparr>sc_cadence := c, sc_nextRunAt := nextRunAt\<rparr>)))))"

definition upd_config :: "config_patch option \<Rightarrow> schedule \<Rightarrow> sched_error + schedule" where
  "upd_config v s =
     (case v of
        None \<Rightarrow> Inr s
      | Some p \<Rightarrow>
          (case sc_target s of
             Agent_target _ \<Rightarrow> Inl Not_new_agent
           | New_agent c \<Rightarrow> ebind (applyNewAgentConfig c p) (\<lambda>c'. Inr (s\<lparr>sc_target := New_agent c'\<rparr>))))"

definition update_updater :: "sched_env \<Rightarrow> int \<Rightarrow> sched_update_input \<Rightarrow> sched_updater" where
  "update_updater env now input s =
     ebind (case ui_prompt input of None \<Rightarrow> Inr s
            | Some p \<Rightarrow> ebind (normalizePrompt p) (\<lambda>p. Inr (s\<lparr>sc_prompt := p\<rparr>))) (\<lambda>s1.
     let s2 = (case ui_name input of None \<Rightarrow> s1 | Some n \<Rightarrow> s1\<lparr>sc_name := trimOptionalName n\<rparr>) in
     ebind (upd_cadence env now (ui_cadence input) s2) (\<lambda>s3.
     ebind (upd_config (ui_newAgentConfig input) s3) (\<lambda>s4.
     ebind (case ui_maxRuns input of None \<Rightarrow> Inr s4
            | Some m \<Rightarrow> ebind (normalizeMaxRuns m) (\<lambda>m. Inr (s4\<lparr>sc_maxRuns := m\<rparr>))) (\<lambda>s5.
     let s6 = (case ui_expiresAt input of None \<Rightarrow> s5 | Some e \<Rightarrow> s5\<lparr>sc_expiresAt := e\<rparr>) in
     Inr (Some (s6\<lparr>sc_updatedAt := now\<rparr>))))))"

definition sched_update ::
    "sched_env \<Rightarrow> int \<Rightarrow> string \<Rightarrow> sched_update_input \<Rightarrow> sched_dir \<Rightarrow> (sched_error + schedule) \<times> sched_dir" where
  "sched_update env now i input d = update_required env i (update_updater env now input) d"

section \<open>Completion from outside\<close>

definition targets_agent :: "string \<Rightarrow> schedule \<Rightarrow> bool" where
  "targets_agent agentId s \<longleftrightarrow> sc_target s = Agent_target agentId \<and> sc_status s \<noteq> Sch_completed"

definition completeScheduleForAgent ::
    "sched_env \<Rightarrow> int \<Rightarrow> string \<Rightarrow> string \<Rightarrow> sched_dir \<Rightarrow> (sched_error + bool) \<times> sched_dir" where
  "completeScheduleForAgent env now agentId i d =
     (let completed = (case sched_get i d of None \<Rightarrow> False | Some s \<Rightarrow> targets_agent agentId s) in
      case update_required env i
             (\<lambda>s. Inr (if targets_agent agentId s then Some (completeSchedule s now) else None)) d of
        (r, d') \<Rightarrow> (ebind r (\<lambda>_. Inr completed), d'))"

text \<open>The schedules have different ids, so the order of the settled calls does not matter.\<close>

definition completeForAgent :: "sched_env \<Rightarrow> int \<Rightarrow> string \<Rightarrow> sched_dir \<Rightarrow> nat \<times> sched_dir" where
  "completeForAgent env now agentId d =
     foldl (\<lambda>(n, d) s. case completeScheduleForAgent env now agentId (sc_id s) d of
              (r, d') \<Rightarrow> (if r = Inr True then Suc n else n, d'))
       (0, d) (filter (targets_agent agentId) (sched_list d))"

definition due :: "schedule \<Rightarrow> int \<Rightarrow> bool" where
  "due s now \<longleftrightarrow> sc_status s = Sch_active \<and> sc_nextRunAt s \<noteq> None \<and> shouldCompleteSchedule s now"

definition completeScheduleIfDue ::
    "sched_env \<Rightarrow> int \<Rightarrow> string \<Rightarrow> sched_dir \<Rightarrow> (sched_error + schedule) \<times> sched_dir" where
  "completeScheduleIfDue env now i d =
     update_required env i (\<lambda>s. Inr (if due s now then Some (completeSchedule s now) else None)) d"

section \<open>Runs\<close>

definition appendRunningRun :: "sched_env \<Rightarrow> string \<Rightarrow> sched_run \<Rightarrow> sched_dir \<Rightarrow> (sched_error + schedule) \<times> sched_dir" where
  "appendRunningRun env i run d =
     update_required env i
       (\<lambda>s. Inr (Some (s\<lparr>sc_updatedAt := r_startedAt run, sc_runs := sc_runs s @ [run]\<rparr>))) d"

record finish_params =
  fp_status :: sched_run_status
  fp_agentId :: "string option"
  fp_output :: "string option"
  fp_error :: "string option"
  fp_targetGone :: bool
  fp_manual :: bool

definition finished_run :: "int \<Rightarrow> finish_params \<Rightarrow> sched_run \<Rightarrow> sched_run" where
  "finished_run now p run =
     run\<lparr>r_status := fp_status p, r_endedAt := Some now,
         r_agentId := (case fp_agentId p of None \<Rightarrow> r_agentId run | Some a \<Rightarrow> Some a),
         r_output := fp_output p, r_error := fp_error p\<rparr>"

definition finish_updater :: "sched_env \<Rightarrow> int \<Rightarrow> string \<Rightarrow> finish_params \<Rightarrow> sched_updater" where
  "finish_updater env now runId p s =
     (let updated = s\<lparr>sc_runs := map (\<lambda>r. if r_id r = runId then finished_run now p r else r) (sc_runs s),
                      sc_lastRunAt := Some now, sc_updatedAt := now\<rparr> in
      if fp_targetGone p then Inr (Some (completeSchedule updated now))
      else if sc_status updated = Sch_completed then Inr (Some updated)
      else if fp_manual p then Inr (Some updated)
      else if shouldCompleteSchedule updated now then Inr (Some (completeSchedule updated now))
      else if sc_status updated = Sch_paused then Inr (Some (updated\<lparr>sc_nextRunAt := None\<rparr>))
      else ebind (next_after env (sc_cadence updated) now
                    (case sc_nextRunAt s of None \<Rightarrow> now | Some t \<Rightarrow> t)) (\<lambda>t.
             Inr (Some (updated\<lparr>sc_nextRunAt := Some t\<rparr>))))"

definition finishRun ::
    "sched_env \<Rightarrow> int \<Rightarrow> string \<Rightarrow> string \<Rightarrow> finish_params \<Rightarrow> sched_dir \<Rightarrow> (sched_error + schedule) \<times> sched_dir" where
  "finishRun env now i runId p d = update_required env i (finish_updater env now runId p) d"

definition recordRunWorkspace ::
    "sched_env \<Rightarrow> int \<Rightarrow> string \<Rightarrow> string \<Rightarrow> string \<Rightarrow> string option \<Rightarrow> sched_dir
     \<Rightarrow> (sched_error + schedule) \<times> sched_dir" where
  "recordRunWorkspace env now i runId workspaceId agentId d =
     update_required env i
       (\<lambda>s. Inr (Some (s\<lparr>sc_updatedAt := now,
          sc_runs := map (\<lambda>r. if r_id r = runId \<and> r_status r = Run_running
                               then r\<lparr>r_workspaceId := Some workspaceId, r_agentId := agentId\<rparr> else r)
                         (sc_runs s)\<rparr>))) d"

text \<open>The start of \<open>runSchedule\<close>: the schedule is marked as running, then the run is stored.\<close>

definition running_run :: "int \<Rightarrow> bool \<Rightarrow> string \<Rightarrow> schedule \<Rightarrow> sched_run" where
  "running_run now manual runId s =
     \<lparr>r_id = runId,
      r_scheduledFor = (if manual then now else case sc_nextRunAt s of None \<Rightarrow> now | Some t \<Rightarrow> t),
      r_startedAt = now, r_endedAt = None, r_status = Run_running, r_agentId = None,
      r_workspaceId = None, r_output = None, r_error = None\<rparr>"

definition run_begin ::
    "sched_env \<Rightarrow> int \<Rightarrow> bool \<Rightarrow> string \<Rightarrow> schedule \<Rightarrow> sched_dir \<Rightarrow> string list
     \<Rightarrow> (sched_error + schedule) \<times> sched_dir \<times> string list" where
  "run_begin env now manual runId s d running =
     (case appendRunningRun env (sc_id s) (running_run now manual runId s) d of
        (r, d') \<Rightarrow> (r, d', set_add (sc_id s) running))"

text \<open>What the runner gives: an agent and its output, or an error with its text and whether it says
  that the target is gone.\<close>

datatype run_outcome = Run_ok "string option" "string option" | Run_threw string bool

definition success_params :: "bool \<Rightarrow> string option \<Rightarrow> string option \<Rightarrow> finish_params" where
  "success_params manual agentId output =
     \<lparr>fp_status = Run_succeeded, fp_agentId = agentId, fp_output = output, fp_error = None,
      fp_targetGone = False, fp_manual = manual\<rparr>"

definition failure_params :: "bool \<Rightarrow> string \<Rightarrow> bool \<Rightarrow> finish_params" where
  "failure_params manual msg gone =
     \<lparr>fp_status = Run_failed, fp_agentId = None, fp_output = None, fp_error = Some msg,
      fp_targetGone = gone, fp_manual = manual\<rparr>"

text \<open>
  The end of \<open>runSchedule\<close>. An error of the first \<open>finishRun\<close> is caught like one of the runner:
  \<open>message\<close> gives its text. The mark is removed in every case.
\<close>

definition run_settle ::
    "sched_env \<Rightarrow> (sched_error \<Rightarrow> string) \<Rightarrow> int \<Rightarrow> string \<Rightarrow> string \<Rightarrow> bool \<Rightarrow> run_outcome \<Rightarrow> sched_dir
     \<Rightarrow> string list \<Rightarrow> (sched_error + unit) \<times> sched_dir \<times> string list" where
  "run_settle env message now i runId manual outcome d running =
     (let failed = (\<lambda>msg gone. case finishRun env now i runId (failure_params manual msg gone) d of
                      (r, d') \<Rightarrow> (ebind r (\<lambda>_. Inr ()), d'));
          settled = (case outcome of
             Run_threw msg gone \<Rightarrow> failed msg gone
           | Run_ok agentId output \<Rightarrow>
               (case finishRun env now i runId (success_params manual agentId output) d of
                  (Inr _, d') \<Rightarrow> (Inr (), d')
                | (Inl e, _) \<Rightarrow> failed (message e) False))
      in (fst settled, snd settled, set_del i running))"

section \<open>Ticks\<close>

datatype tick_action = Tick_skip | Tick_complete | Tick_run

definition tick_visit :: "int \<Rightarrow> string list \<Rightarrow> schedule \<Rightarrow> tick_action" where
  "tick_visit now running s =
     (case sc_nextRunAt s of
        None \<Rightarrow> Tick_skip
      | Some t \<Rightarrow>
          if sc_status s \<noteq> Sch_active then Tick_skip
          else if sc_id s \<in> set running then Tick_skip
          else if shouldCompleteSchedule s now then Tick_complete
          else if now < t then Tick_skip
          else Tick_run)"

text \<open>The guards of \<open>runOnce\<close>.\<close>

definition runOnce_begin ::
    "sched_env \<Rightarrow> int \<Rightarrow> string \<Rightarrow> string \<Rightarrow> sched_dir \<Rightarrow> string list
     \<Rightarrow> (sched_error + schedule) \<times> sched_dir \<times> string list" where
  "runOnce_begin env now runId i d running =
     (case sched_inspect i d of
        Inl e \<Rightarrow> (Inl e, d, running)
      | Inr s \<Rightarrow>
          if sc_status s = Sch_completed then (Inl (Sched_completed i), d, running)
          else if i \<in> set running then (Inl (Sched_running i), d, running)
          else run_begin env now True runId s d running)"

section \<open>Start of the daemon\<close>

definition interrupted_workspace :: "schedule \<Rightarrow> string option" where
  "interrupted_workspace s =
     (case find (\<lambda>r. r_status r = Run_running) (sc_runs s) of
        None \<Rightarrow> None
      | Some r \<Rightarrow>
          (case (sc_target s, r_workspaceId r) of
             (New_agent c, Some (w # ws)) \<Rightarrow>
               if shouldArchiveScheduleRunWorkspace (r_agentId r) (nc_archiveOnFinish c)
               then Some (w # ws) else None
           | _ \<Rightarrow> None))"

fun fail_first_running :: "int \<Rightarrow> sched_run list \<Rightarrow> sched_run list" where
  "fail_first_running now [] = []"
| "fail_first_running now (r # rs) =
     (if r_status r = Run_running
      then r\<lparr>r_status := Run_failed, r_endedAt := Some now,
             r_error := Some ''Daemon restarted before the scheduled run completed''\<rparr> # rs
      else r # fail_first_running now rs)"

definition recover_updater :: "sched_env \<Rightarrow> int \<Rightarrow> sched_updater" where
  "recover_updater env now s =
     (let running = list_ex (\<lambda>r. r_status r = Run_running) (sc_runs s);
          s1 = (if running then s\<lparr>sc_runs := fail_first_running now (sc_runs s)\<rparr> else s) in
      case sc_nextRunAt s1 of
        Some t \<Rightarrow>
          if sc_status s1 = Sch_active \<and> t \<le> now then
            ebind (next_after env (sc_cadence s1) now t) (\<lambda>t'.
              Inr (Some (s1\<lparr>sc_nextRunAt := Some t', sc_updatedAt := now\<rparr>)))
          else Inr (if running then Some (s1\<lparr>sc_updatedAt := now\<rparr>) else None)
      | None \<Rightarrow> Inr (if running then Some (s1\<lparr>sc_updatedAt := now\<rparr>) else None))"

text \<open>The result names the workspace that is archived afterwards; a failure to archive is logged.\<close>

definition recoverInterruptedSchedule ::
    "sched_env \<Rightarrow> int \<Rightarrow> string \<Rightarrow> sched_dir \<Rightarrow> (sched_error + string option) \<times> sched_dir" where
  "recoverInterruptedSchedule env now i d =
     (let w = (case sched_get i d of None \<Rightarrow> None | Some s \<Rightarrow> interrupted_workspace s) in
      case sched_store_update env i (recover_updater env now) d of
        (r, d') \<Rightarrow> (ebind r (\<lambda>_. Inr w), d'))"

text \<open>\<open>Promise.all\<close>: every update runs, the first error is the result.\<close>

definition update_each ::
    "(string \<Rightarrow> sched_dir \<Rightarrow> (sched_error + 'a) \<times> sched_dir) \<Rightarrow> sched_dir \<Rightarrow> (sched_error + 'a list) \<times> sched_dir" where
  "update_each f d =
     foldl (\<lambda>(acc, d) s. case f (sc_id s) d of
              (r, d') \<Rightarrow> (ebind acc (\<lambda>xs. ebind r (\<lambda>x. Inr (xs @ [x]))), d'))
       (Inr [], d) (sched_list d)"

definition recoverInterruptedRuns :: "sched_env \<Rightarrow> int \<Rightarrow> sched_dir \<Rightarrow> (sched_error + string option list) \<times> sched_dir" where
  "recoverInterruptedRuns env now d = update_each (recoverInterruptedSchedule env now) d"

text \<open>\<open>agents\<close> gives for a stored agent whether it is archived.\<close>

definition sweep_updater :: "(string \<Rightarrow> bool option) \<Rightarrow> int \<Rightarrow> sched_updater" where
  "sweep_updater agents now s =
     (case sc_target s of
        New_agent _ \<Rightarrow> Inr None
      | Agent_target a \<Rightarrow>
          if sc_status s = Sch_completed then Inr None
          else if agents a = Some False then Inr None
          else Inr (Some (completeSchedule s now)))"

definition sweepOrphanedSchedule ::
    "sched_env \<Rightarrow> (string \<Rightarrow> bool option) \<Rightarrow> int \<Rightarrow> string \<Rightarrow> sched_dir \<Rightarrow> (sched_error + unit) \<times> sched_dir" where
  "sweepOrphanedSchedule env agents now i d =
     (case sched_store_update env i (sweep_updater agents now) d of (r, d') \<Rightarrow> (ebind r (\<lambda>_. Inr ()), d'))"

definition sweepOrphanedSchedules ::
    "sched_env \<Rightarrow> (string \<Rightarrow> bool option) \<Rightarrow> int \<Rightarrow> sched_dir \<Rightarrow> (sched_error + unit list) \<times> sched_dir" where
  "sweepOrphanedSchedules env agents now d = update_each (sweepOrphanedSchedule env agents now) d"

text \<open>\<open>start\<close>: an error of the recovery is thrown, and neither the sweep nor the timer follow.\<close>

definition sched_start ::
    "sched_env \<Rightarrow> (string \<Rightarrow> bool option) \<Rightarrow> int \<Rightarrow> sched_dir \<Rightarrow> (sched_error + unit) \<times> sched_dir" where
  "sched_start env agents now d =
     (case recoverInterruptedRuns env now d of
        (Inl e, d') \<Rightarrow> (Inl e, d')
      | (Inr _, d') \<Rightarrow>
          (case sweepOrphanedSchedules env agents now d' of
             (r, d'') \<Rightarrow> (ebind r (\<lambda>_. Inr ()), d'')))"

section \<open>One execution\<close>

datatype path_stat = Is_directory | Not_directory | No_entry | Stat_failed string

text \<open>The answers of the collaborators: \<open>Inl\<close> is the text of the error that the call threw.\<close>

record sched_run_world =
  rw_agent :: "bool option"                              \<comment> \<open>the stored agent: archived or not\<close>
  rw_load :: "string + string"                           \<comment> \<open>\<open>ensureAgentLoaded\<close>: the id\<close>
  rw_inFlight :: bool
  rw_startRun :: "string + unit"
  rw_wait :: "string + (bool \<times> bool \<times> string option)"   \<comment> \<open>permission, error status, last message\<close>
  rw_stat :: path_stat
  rw_workspace :: "string + (string \<times> string)"           \<comment> \<open>id and directory\<close>
  rw_recorded :: "string + unit"                         \<comment> \<open>first \<open>recordRunWorkspace\<close>\<close>
  rw_create :: "string + (string \<times> string option)"       \<comment> \<open>agent and \<open>initialPromptError\<close>\<close>
  rw_recordedAgent :: "string + unit"                    \<comment> \<open>second \<open>recordRunWorkspace\<close>\<close>
  rw_run :: "string + (bool \<times> string \<times> string)"         \<comment> \<open>canceled, timeline text, final text\<close>

definition wait_error :: "bool \<times> bool \<times> string option \<Rightarrow> string \<Rightarrow> string option" where
  "wait_error w agent =
     (case w of (permission, failed, lastMessage) \<Rightarrow>
        if permission then Some (''Scheduled agent '' @ agent @ '' is waiting for permission'')
        else if failed then
          Some (case lastMessage of None \<Rightarrow> ''Scheduled agent '' @ agent @ '' failed'' | Some m \<Rightarrow> m)
        else None)"

definition assertNewAgentCwdDirectory :: "path_stat \<Rightarrow> string \<Rightarrow> run_outcome option" where
  "assertNewAgentCwdDirectory st cwd =
     (case st of
        Is_directory \<Rightarrow> None
      | Not_directory \<Rightarrow> Some (Run_threw (''Working directory '' @ cwd @ '' is not a directory'') True)
      | No_entry \<Rightarrow> Some (Run_threw (''Working directory '' @ cwd @ '' no longer exists'') True)
      | Stat_failed m \<Rightarrow> Some (Run_threw m False))"

text \<open>The target \<open>agent\<close>: the stored agent is asked first, then loaded and run.\<close>

definition execute_agent :: "string \<Rightarrow> sched_run_world \<Rightarrow> run_outcome" where
  "execute_agent target w =
     (case rw_agent w of
        None \<Rightarrow> Run_threw (''Agent '' @ target @ '' no longer exists'') True
      | Some True \<Rightarrow> Run_threw (''Agent '' @ target @ '' is archived'') True
      | Some False \<Rightarrow>
          (case rw_load w of
             Inl m \<Rightarrow> Run_threw m False
           | Inr agent \<Rightarrow>
               if rw_inFlight w then Run_threw (''Agent '' @ agent @ '' already has an active run'') False
               else (case rw_startRun w of
                  Inl m \<Rightarrow> Run_threw m False
                | Inr _ \<Rightarrow>
                    (case rw_wait w of
                       Inl m \<Rightarrow> Run_threw m False
                     | Inr (permission, failed, lastMessage) \<Rightarrow>
                         (case wait_error (permission, failed, lastMessage) agent of
                            Some m \<Rightarrow> Run_threw m False
                          | None \<Rightarrow> Run_ok (Some agent)
                              (buildRunOutput None [] (case lastMessage of None \<Rightarrow> [] | Some m \<Rightarrow> m)))))))"

text \<open>The body of the \<open>try\<close> for a new agent: its outcome and the agent that it created.\<close>

definition execute_body :: "sched_run_world \<Rightarrow> run_outcome \<times> string option" where
  "execute_body w =
     (case rw_recorded w of
        Inl m \<Rightarrow> (Run_threw m False, None)
      | Inr _ \<Rightarrow>
     (case rw_create w of
        Inl m \<Rightarrow> (Run_threw m False, None)
      | Inr (agent, promptError) \<Rightarrow>
     (case rw_recordedAgent w of
        Inl m \<Rightarrow> (Run_threw m False, Some agent)
      | Inr _ \<Rightarrow>
     (case promptError of
        Some m \<Rightarrow> (Run_threw m False, Some agent)
      | None \<Rightarrow>
     (case rw_run w of
        Inl m \<Rightarrow> (Run_threw m False, Some agent)
      | Inr (canceled, timelineText, finalText) \<Rightarrow>
     (case rw_wait w of
        Inl m \<Rightarrow> (Run_threw m False, Some agent)
      | Inr (permission, failed, lastMessage) \<Rightarrow>
          if canceled then (Run_threw (''Scheduled agent '' @ agent @ '' was canceled'') False, Some agent)
          else (case wait_error (permission, failed, lastMessage) agent of
                  Some m \<Rightarrow> (Run_threw m False, Some agent)
                | None \<Rightarrow> (Run_ok (Some agent) (buildRunOutput lastMessage timelineText finalText), Some agent))))))))"

text \<open>\<open>executeSchedule\<close>: the outcome and the workspace that the \<open>finally\<close> block archives.\<close>

definition executeSchedule :: "schedule \<Rightarrow> sched_run_world \<Rightarrow> run_outcome \<times> string option" where
  "executeSchedule s w =
     (case sc_target s of
        Agent_target a \<Rightarrow> (execute_agent a w, None)
      | New_agent c \<Rightarrow>
          (case assertNewAgentCwdDirectory (rw_stat w) (nc_cwd c) of
             Some outcome \<Rightarrow> (outcome, None)
           | None \<Rightarrow>
               (case rw_workspace w of
                  Inl m \<Rightarrow> (Run_threw m False, None)
                | Inr (workspaceId, cwd) \<Rightarrow>
                    (case execute_body w of
                       (outcome, agentId) \<Rightarrow>
                         (outcome, if shouldArchiveScheduleRunWorkspace agentId (nc_archiveOnFinish c)
                                   then Some workspaceId else None)))))"

end
