(* ===== verification/Schedule_Spec.thy ===== *)
theory Schedule_Spec
  imports Schedule_Service
begin

text \<open>
  The scheduler as a transition system: client calls, ticks and runs that interleave, and restarts
  of the daemon. The invariants of the stored schedules and of the runs in flight, the advance to
  the next occurrence, and what happens when that advance cannot be computed.
\<close>

section \<open>The schema on stored values\<close>

lemma trim_min1_idem: "trim_min1 f s = Inr t \<Longrightarrow> trim_min1 f t = Inr t"
  by (auto simp: trim_min1_def min1_def trimmed_trim split: if_splits)

lemma optional_idem: "(\<And>x y. p x = Inr y \<Longrightarrow> p y = Inr y) \<Longrightarrow> optional p v = Inr w \<Longrightarrow> optional p w = Inr w"
  by (auto simp: optional_def ebind_Inr_iff split: option.splits)

lemma parse_cadence_idem: "parse_cadence c = Inr c' \<Longrightarrow> parse_cadence c' = Inr c'"
  using optional_idem[of "trim_min1 ''timezone''"]
  by (auto simp: parse_cadence_def ebind_Inr_iff split: cadence.splits if_splits dest: trim_min1_idem)

lemma parse_guid_idem: "parse_guid env g = Inr h \<Longrightarrow> parse_guid env h = Inr h"
  by (auto simp: parse_guid_def split: if_splits)

lemma parse_config_idem:
  assumes "parse_config c = Inr c'"
  shows "parse_config c' = Inr c'"
proof -
  obtain cwd modeId model thinking title where
    p: "trim_min1 ''cwd'' (nc_cwd c) = Inr cwd" "optional (trim_min1 ''modeId'') (nc_modeId c) = Inr modeId"
      "optional (trim_min1 ''model'') (nc_model c) = Inr model"
      "optional (trim_min1 ''thinkingOptionId'') (nc_thinkingOptionId c) = Inr thinking"
      "optional (optional (trim_min1 ''title'')) (nc_title c) = Inr title"
    and c': "c' = c\<lparr>nc_cwd := cwd, nc_modeId := modeId, nc_model := model,
            nc_thinkingOptionId := thinking, nc_title := title\<rparr>"
    using assms unfolding parse_config_def ebind_Inr_iff by blast
  have "trim_min1 ''cwd'' cwd = Inr cwd" "optional (trim_min1 ''modeId'') modeId = Inr modeId"
      "optional (trim_min1 ''model'') model = Inr model"
      "optional (trim_min1 ''thinkingOptionId'') thinking = Inr thinking"
      "optional (optional (trim_min1 ''title'')) title = Inr title"
    using p(1) by (rule trim_min1_idem)
      (rule optional_idem[OF trim_min1_idem p(2)], assumption,
       rule optional_idem[OF trim_min1_idem p(3)], assumption,
       rule optional_idem[OF trim_min1_idem p(4)], assumption,
       rule optional_idem[OF optional_idem[OF trim_min1_idem] p(5)], assumption+)
  then show ?thesis by (simp add: parse_config_def c')
qed

lemma parse_target_idem: "parse_target env t = Inr t' \<Longrightarrow> parse_target env t' = Inr t'"
  by (auto simp: parse_target_def ebind_Inr_iff parse_guid_idem parse_config_idem split: sched_target.splits)

lemma parse_run_idem: "parse_run env r = Inr r' \<Longrightarrow> parse_run env r' = Inr r'"
  using optional_idem[OF parse_guid_idem] by (auto simp: parse_run_def ebind_Inr_iff)

lemma parse_maxRuns_idem: "parse_maxRuns n = Inr m \<Longrightarrow> parse_maxRuns m = Inr m"
  by (auto simp: parse_maxRuns_def split: if_splits)

lemma eall_map_idem:
  "(\<And>x y. p x = Inr y \<Longrightarrow> p y = Inr y) \<Longrightarrow> eall (map p xs) = Inr ys \<Longrightarrow> eall (map p ys) = Inr ys"
  by (induction xs arbitrary: ys) (auto simp: ebind_Inr_iff)

lemma parse_schedule_idem:
  assumes "parse_schedule env s = Inr s'"
  shows "parse_schedule env s' = Inr s'"
  using assms parse_cadence_idem parse_target_idem optional_idem[OF parse_maxRuns_idem] eall_map_idem[OF parse_run_idem]
  by (auto simp: parse_schedule_def ebind_Inr_iff min1_def split: if_splits)

section \<open>Well-formed schedules and how they may change\<close>

definition run_wf :: "sched_run \<Rightarrow> bool" where
  "run_wf r \<longleftrightarrow> (r_status r = Run_running \<longleftrightarrow> r_endedAt r = None)"

definition sched_wf :: "schedule \<Rightarrow> bool" where
  "sched_wf s \<longleftrightarrow>
     (sc_status s = Sch_active \<longleftrightarrow> sc_nextRunAt s \<noteq> None)
     \<and> (sc_status s = Sch_paused \<longleftrightarrow> sc_pausedAt s \<noteq> None)
     \<and> list_all run_wf (sc_runs s)"

text \<open>A change of a schedule keeps it well formed, and a completed schedule stays completed.\<close>

definition evolves :: "schedule \<Rightarrow> schedule \<Rightarrow> bool" where
  "evolves s s' \<longleftrightarrow> sc_id s' = sc_id s \<and> (sched_wf s \<longrightarrow> sched_wf s')
     \<and> (sc_status s = Sch_completed \<longrightarrow> sc_status s' = Sch_completed)"

lemma evolves_refl: "evolves s s"
  by (simp add: evolves_def)

lemma evolves_trans: "evolves s t \<Longrightarrow> evolves t u \<Longrightarrow> evolves s u"
  by (auto simp: evolves_def)

lemma parse_run_wf: "parse_run env r = Inr r' \<Longrightarrow> run_wf r' = run_wf r"
  by (auto simp: parse_run_def ebind_Inr_iff run_wf_def)

lemma parse_runs_wf: "eall (map (parse_run env) rs) = Inr rs' \<Longrightarrow> list_all run_wf rs' = list_all run_wf rs"
  by (induction rs arbitrary: rs') (auto simp: ebind_Inr_iff parse_run_wf)

lemma parse_schedule_fields:
  assumes "parse_schedule env s = Inr s'"
  shows "sc_id s' = sc_id s" "sc_status s' = sc_status s" "sc_nextRunAt s' = sc_nextRunAt s"
    "sc_pausedAt s' = sc_pausedAt s" "sc_createdAt s' = sc_createdAt s" "sc_name s' = sc_name s"
    "sched_wf s' = sched_wf s"
  using assms parse_runs_wf[of env "sc_runs s"] by (auto simp: parse_schedule_def ebind_Inr_iff sched_wf_def)

lemma evolves_parse: "evolves s t \<Longrightarrow> parse_schedule env t = Inr u \<Longrightarrow> evolves s u"
  by (simp add: evolves_def parse_schedule_fields)

text \<open>The contract of an updater, and what the store makes of it.\<close>

locale schedule_updater =
  fixes f :: sched_updater
  assumes updater_evolves: "f s = Inr (Some s') \<Longrightarrow> evolves s s'"
begin

lemma update_result:
  assumes "sched_store_update env i f d = (r, d')"
  shows "d' = d \<or> (\<exists>s s'. sched_get i d = Some s \<and> evolves s s' \<and> parse_schedule env s' = Inr s'
    \<and> sc_id s' = i \<and> d' = sched_write s' d)"
  using assms updater_evolves parse_schedule_idem[of env] parse_schedule_fields(1)[of env]
  by (fastforce simp: sched_store_update_def split: option.splits sum.splits if_splits intro: evolves_parse)

end

text \<open>Directories: distinct ids, every file parses to itself and is well formed.\<close>

definition conforms :: "sched_env \<Rightarrow> schedule \<Rightarrow> bool" where
  "conforms env s \<longleftrightarrow> parse_schedule env s = Inr s"

definition dir_wf :: "sched_env \<Rightarrow> sched_dir \<Rightarrow> bool" where
  "dir_wf env d \<longleftrightarrow> distinct (map sc_id d) \<and> (\<forall>s \<in> set d. conforms env s \<and> sched_wf s)"

definition stored_evolves :: "sched_env \<Rightarrow> schedule \<Rightarrow> schedule \<Rightarrow> bool" where
  "stored_evolves env s s' \<longleftrightarrow> evolves s s' \<and> (conforms env s \<longrightarrow> conforms env s')"

definition dir_evolves :: "sched_env \<Rightarrow> sched_dir \<Rightarrow> sched_dir \<Rightarrow> bool" where
  "dir_evolves env d d' \<longleftrightarrow> (distinct (map sc_id d) \<longrightarrow> list_all2 (stored_evolves env) d d')"

lemma sched_get_Some: "sched_get i d = Some s \<Longrightarrow> s \<in> set d \<and> sc_id s = i"
  by (auto simp: sched_get_def find_Some_iff)

lemma sched_get_None: "sched_get i d = None \<longleftrightarrow> i \<notin> sc_id ` set d"
  by (auto simp: sched_get_def find_None_iff)

lemma sched_get_unique: "distinct (map sc_id d) \<Longrightarrow> s \<in> set d \<Longrightarrow> sched_get (sc_id s) d = Some s"
  by (induction d) (auto simp: sched_get_def)

lemma stored_evolves_refl: "stored_evolves env s s"
  by (simp add: stored_evolves_def evolves_refl)

lemma stored_evolves_trans: "stored_evolves env s t \<Longrightarrow> stored_evolves env t u \<Longrightarrow> stored_evolves env s u"
  by (auto simp: stored_evolves_def intro: evolves_trans)

lemma dir_evolves_ids: "list_all2 (stored_evolves env) d d' \<Longrightarrow> map sc_id d' = map sc_id d"
  by (induction rule: list_all2_induct) (auto simp: stored_evolves_def evolves_def)

lemma dir_evolves_refl: "dir_evolves env d d"
  by (simp add: dir_evolves_def list.rel_refl stored_evolves_refl)

lemma dir_evolves_trans:
  assumes "dir_evolves env d d'" "dir_evolves env d' d''"
  shows "dir_evolves env d d''"
  unfolding dir_evolves_def
proof
  assume "distinct (map sc_id d)"
  then have one: "list_all2 (stored_evolves env) d d'" using assms(1) by (simp add: dir_evolves_def)
  with \<open>distinct (map sc_id d)\<close> have "list_all2 (stored_evolves env) d' d''"
    using assms(2) dir_evolves_ids[OF one] by (simp add: dir_evolves_def)
  with one show "list_all2 (stored_evolves env) d d''"
    by (rule list_all2_trans[rotated 1]) (auto intro: stored_evolves_trans)
qed

lemma dir_evolves_write:
  assumes "sched_get i d = Some s" "evolves s s'" "conforms env s'"
  shows "dir_evolves env d (sched_write s' d)"
  unfolding dir_evolves_def
proof
  assume dist: "distinct (map sc_id d)"
  note s = sched_get_Some[OF assms(1)]
  have i: "sc_id s' = sc_id s" using assms(2) by (simp add: evolves_def)
  then have w: "sched_write s' d = map (\<lambda>x. if sc_id x = sc_id s then s' else x) d"
    using s image_eqI[of "sc_id s'" sc_id s "set d"] by (simp add: sched_write_def)
  have "stored_evolves env x (if sc_id x = sc_id s then s' else x)" if "x \<in> set d" for x
  proof -
    have "x = s" if "sc_id x = sc_id s" using that dist s \<open>x \<in> set d\<close> by (auto simp: distinct_map inj_on_def)
    then show ?thesis using assms(2,3) by (auto simp: stored_evolves_def evolves_refl)
  qed
  then show "list_all2 (stored_evolves env) d (sched_write s' d)"
    unfolding w by (simp add: list.rel_map list.rel_refl_strong)
qed

lemma dir_evolves_wf:
  assumes "dir_evolves env d d'" "dir_wf env d"
  shows "dir_wf env d'"
proof -
  have l: "list_all2 (stored_evolves env) d d'" using assms by (simp add: dir_evolves_def dir_wf_def)
  have "conforms env s' \<and> sched_wf s'" if "s' \<in> set d'" for s'
    using l that assms(2) unfolding list_all2_conv_all_nth dir_wf_def stored_evolves_def evolves_def in_set_conv_nth
    by (metis nth_mem)
  then show ?thesis using assms(2) dir_evolves_ids[OF l] by (simp add: dir_wf_def)
qed

lemma dir_evolves_completed:
  assumes "dir_evolves env d d'" "distinct (map sc_id d)" "s \<in> set d" "sc_status s = Sch_completed"
    "s' \<in> set d'" "sc_id s' = sc_id s"
  shows "sc_status s' = Sch_completed"
proof -
  have l: "list_all2 (stored_evolves env) d d'" using assms by (simp add: dir_evolves_def)
  obtain k where k: "k < length d'" "s' = d' ! k" using assms(5) by (auto simp: in_set_conv_nth)
  have e: "evolves (d ! k) s'" "k < length d"
    using l k by (auto simp: list_all2_conv_all_nth stored_evolves_def)
  then have "sc_id (d ! k) = sc_id s" using assms(6) by (simp add: evolves_def)
  then have "d ! k = s" using e(2) assms(2,3) by (auto simp: distinct_map inj_on_def)
  then show ?thesis using e(1) assms(4) by (simp add: evolves_def)
qed

context schedule_updater begin

lemma update_evolves: "dir_evolves env d (snd (sched_store_update env i f d))"
proof (cases "sched_store_update env i f d")
  case (Pair r d')
  from update_result[OF this] show ?thesis
    using dir_evolves_refl dir_evolves_write Pair by (auto simp: conforms_def)
qed

lemma required_evolves: "dir_evolves env d (snd (update_required env i f d))"
  using update_evolves[of env d i] by (simp add: update_required_def split_beta)

end

section \<open>Every updater of the service keeps its contract\<close>

lemma list_all_map_wf: "(\<And>r. run_wf r \<Longrightarrow> run_wf (g r)) \<Longrightarrow> list_all run_wf rs \<Longrightarrow> list_all run_wf (map g rs)"
  by (auto simp: list_all_iff)

lemma complete_evolves: "evolves s (completeSchedule s now)"
  by (simp add: evolves_def sched_wf_def completeSchedule_def)

lemma same_status_evolves:
  "sc_id s' = sc_id s \<Longrightarrow> sc_status s' = sc_status s \<Longrightarrow> sc_pausedAt s' = sc_pausedAt s \<Longrightarrow>
   sc_nextRunAt s' = sc_nextRunAt s \<Longrightarrow> (list_all run_wf (sc_runs s) \<Longrightarrow> list_all run_wf (sc_runs s')) \<Longrightarrow>
   evolves s s'"
  by (auto simp: evolves_def sched_wf_def)

interpretation pause: schedule_updater "pause_updater now" for now
  by unfold_locales (auto simp: pause_updater_def evolves_def sched_wf_def split: sched_status.splits)

interpretation resume: schedule_updater "resume_updater env now" for env now
  by unfold_locales (auto simp: resume_updater_def evolves_def sched_wf_def ebind_Inr_iff split: sched_status.splits)

lemma upd_cadence_evolves: "upd_cadence env now v s = Inr s' \<Longrightarrow> evolves s s'"
  by (auto simp: upd_cadence_def Let_def ebind_Inr_iff evolves_def sched_wf_def split: option.splits if_splits)

lemma upd_config_evolves: "upd_config v s = Inr s' \<Longrightarrow> evolves s s'"
  by (auto simp: upd_config_def ebind_Inr_iff intro!: same_status_evolves split: option.splits sched_target.splits)

interpretation update: schedule_updater "update_updater env now input" for env now input
proof
  fix s s' assume "update_updater env now input s = Inr (Some s')"
  then obtain s1 s3 s4 s5 where
    a: "(case ui_prompt input of None \<Rightarrow> Inr s
         | Some p \<Rightarrow> ebind (normalizePrompt p) (\<lambda>p. Inr (s\<lparr>sc_prompt := p\<rparr>))) = Inr s1"
    and b: "upd_cadence env now (ui_cadence input)
         (case ui_name input of None \<Rightarrow> s1 | Some n \<Rightarrow> s1\<lparr>sc_name := trimOptionalName n\<rparr>) = Inr s3"
    and c: "upd_config (ui_newAgentConfig input) s3 = Inr s4"
    and e: "(case ui_maxRuns input of None \<Rightarrow> Inr s4
            | Some m \<Rightarrow> ebind (normalizeMaxRuns m) (\<lambda>m. Inr (s4\<lparr>sc_maxRuns := m\<rparr>))) = Inr s5"
    and g: "s' = (case ui_expiresAt input of None \<Rightarrow> s5 | Some x \<Rightarrow> s5\<lparr>sc_expiresAt := x\<rparr>)\<lparr>sc_updatedAt := now\<rparr>"
    unfolding update_updater_def ebind_Inr_iff Let_def by auto
  have "evolves s s1" using a by (auto simp: ebind_Inr_iff evolves_refl intro!: same_status_evolves split: option.splits)
  moreover have "evolves s1 s3"
    using upd_cadence_evolves[OF b]
    by (rule evolves_trans[rotated]) (auto simp: evolves_refl intro!: same_status_evolves split: option.splits)
  moreover have "evolves s3 s4" by (rule upd_config_evolves[OF c])
  moreover have "evolves s4 s5"
    using e by (auto simp: ebind_Inr_iff evolves_refl intro!: same_status_evolves split: option.splits)
  moreover have "evolves s5 s'" unfolding g by (auto intro!: same_status_evolves split: option.splits)
  ultimately show "evolves s s'" by (meson evolves_trans)
qed

interpretation complete_agent: schedule_updater
  "\<lambda>s. Inr (if targets_agent agentId s then Some (completeSchedule s now) else None)" for agentId now
  by unfold_locales (auto simp: complete_evolves split: if_splits)

interpretation complete_due: schedule_updater
  "\<lambda>s. Inr (if due s now then Some (completeSchedule s now) else None)" for now
  by unfold_locales (auto simp: complete_evolves split: if_splits)

interpretation append_run: schedule_updater
  "\<lambda>s. Inr (Some (s\<lparr>sc_updatedAt := r_startedAt (running_run now manual runId s0),
         sc_runs := sc_runs s @ [running_run now manual runId s0]\<rparr>))" for now manual runId s0
  by unfold_locales (auto intro!: same_status_evolves simp: running_run_def run_wf_def)

interpretation record_workspace: schedule_updater
  "\<lambda>s. Inr (Some (s\<lparr>sc_updatedAt := now,
          sc_runs := map (\<lambda>r. if r_id r = runId \<and> r_status r = Run_running
                               then r\<lparr>r_workspaceId := Some workspaceId, r_agentId := agentId\<rparr> else r)
                         (sc_runs s)\<rparr>))" for now runId workspaceId agentId
  by unfold_locales (auto intro!: same_status_evolves list_all_map_wf simp: run_wf_def)

lemma finished_run_wf: "fp_status p \<noteq> Run_running \<Longrightarrow> run_wf (finished_run now p r)"
  by (simp add: finished_run_def run_wf_def)

lemma finish_evolves:
  assumes "fp_status p \<noteq> Run_running" "finish_updater env now runId p s = Inr (Some s')"
  shows "evolves s s'"
proof -
  let ?u = "s\<lparr>sc_runs := map (\<lambda>r. if r_id r = runId then finished_run now p r else r) (sc_runs s),
      sc_lastRunAt := Some now, sc_updatedAt := now\<rparr>"
  have u: "evolves s ?u"
    using assms(1) by (intro same_status_evolves) (auto intro!: list_all_map_wf finished_run_wf)
  have "evolves ?u s'"
    using assms(2) complete_evolves[of ?u now] evolves_refl[of ?u]
    by (auto simp: finish_updater_def Let_def ebind_Inr_iff evolves_def sched_wf_def split: if_splits)
      (metis sched_status.exhaust)+
  with u show ?thesis by (rule evolves_trans)
qed

interpretation succeed: schedule_updater "finish_updater env now runId (success_params manual agentId out)"
  for env now runId manual agentId out
  by unfold_locales (erule finish_evolves[rotated], simp add: success_params_def)

interpretation fail: schedule_updater "finish_updater env now runId (failure_params manual msg gone)"
  for env now runId manual msg gone
  by unfold_locales (erule finish_evolves[rotated], simp add: failure_params_def)

lemma fail_first_wf: "list_all run_wf rs \<Longrightarrow> list_all run_wf (fail_first_running now rs)"
  by (induction rs) (auto simp: run_wf_def)

interpretation recover: schedule_updater "recover_updater env now" for env now
  by unfold_locales
    (auto simp: recover_updater_def Let_def ebind_Inr_iff evolves_def sched_wf_def fail_first_wf
       split: option.splits if_splits)

interpretation sweep: schedule_updater "sweep_updater agents now" for agents now
  by unfold_locales (auto simp: sweep_updater_def complete_evolves split: sched_target.splits if_splits)

text \<open>The whole-directory passes at the start of the daemon.\<close>

lemma update_each_evolves:
  assumes "\<And>i d. dir_evolves env d (snd (f i d))"
  shows "dir_evolves env d (snd (update_each f d))"
proof -
  have "dir_evolves env d (snd acc) \<Longrightarrow> dir_evolves env d (snd (foldl (\<lambda>(acc, d) s. case f (sc_id s) d of
              (r, d') \<Rightarrow> (ebind acc (\<lambda>xs. ebind r (\<lambda>x. Inr (xs @ [x]))), d')) acc ss))" for ss acc
  proof (induction ss arbitrary: acc)
    case (Cons s ss)
    have "dir_evolves env d (snd (f (sc_id s) (snd acc)))"
      using Cons.prems assms by (rule dir_evolves_trans)
    then show ?case using Cons.IH by (simp add: split_beta)
  qed simp
  from this[of "(Inr [], d)" "sched_list d"] show ?thesis
    by (simp add: update_each_def dir_evolves_refl)
qed

lemma start_evolves: "dir_evolves env d (snd (sched_start env agents now d))"
proof -
  have r: "dir_evolves env d (snd (recoverInterruptedRuns env now d))" for d
    unfolding recoverInterruptedRuns_def
    by (rule update_each_evolves) (simp add: recoverInterruptedSchedule_def Let_def split_beta recover.update_evolves)
  have w: "dir_evolves env d (snd (sweepOrphanedSchedules env agents now d))" for d
    unfolding sweepOrphanedSchedules_def
    by (rule update_each_evolves) (simp add: sweepOrphanedSchedule_def split_beta sweep.update_evolves)
  show ?thesis
    using r[of d] dir_evolves_trans[OF r w]
    by (auto simp: sched_start_def split: prod.splits sum.splits)
      (metis snd_conv)+
qed

lemma complete_agent_evolves: "dir_evolves env d (snd (completeForAgent env now agentId d))"
proof -
  have "dir_evolves env d (snd acc) \<Longrightarrow> dir_evolves env d (snd (foldl (\<lambda>(n, d) s.
      case completeScheduleForAgent env now agentId (sc_id s) d of
              (r, d') \<Rightarrow> (if r = Inr True then Suc n else n, d')) acc ss))" for ss acc
  proof (induction ss arbitrary: acc)
    case (Cons s ss)
    have "dir_evolves env (snd acc) (snd (completeScheduleForAgent env now agentId (sc_id s) (snd acc)))"
      by (simp add: completeScheduleForAgent_def Let_def split_beta complete_agent.required_evolves)
    with Cons.prems have "dir_evolves env d (snd (completeScheduleForAgent env now agentId (sc_id s) (snd acc)))"
      by (rule dir_evolves_trans)
    then show ?case using Cons.IH by (simp add: split_beta)
  qed simp
  from this[of "(0, d)"] show ?thesis by (simp add: completeForAgent_def dir_evolves_refl)
qed

lemma settle_evolves: "dir_evolves env d (fst (snd (run_settle env message now i runId manual outcome d running)))"
  using succeed.required_evolves fail.required_evolves
  by (auto simp: run_settle_def Let_def finishRun_def split_beta split: run_outcome.splits sum.splits prod.splits)

lemma begin_evolves: "dir_evolves env d (fst (snd (run_begin env now manual runId s d running)))"
  using append_run.required_evolves
  by (simp add: run_begin_def appendRunningRun_def split_beta)

end
