(* ===== verification/Schedule_System.thy ===== *)
theory Schedule_System
  imports Schedule_Spec
begin

text \<open>
  The scheduler with its concurrent activities. A tick is a job that holds the schedules it listed
  and has not visited; a run in flight is a job that remembers the tick waiting for it. Between two
  steps of a job any other step may happen, as between two awaits of the code.
\<close>

section \<open>Steps\<close>

datatype sched_job =
    Tick_job int "schedule list"
  | Run_job string string bool "(int \<times> schedule list) option"

record sched_sys =
  sy_dir :: sched_dir
  sy_running :: "string list"
  sy_jobs :: "sched_job list"

text \<open>What \<open>setInterval\<close> starts, and the jobs that continue: a thrown error ends the tick.\<close>

definition begin_jobs :: "(sched_error + 'a) \<Rightarrow> string \<Rightarrow> string \<Rightarrow> bool \<Rightarrow> (int \<times> schedule list) option \<Rightarrow> sched_job list" where
  "begin_jobs r i runId manual k = (case r of Inl _ \<Rightarrow> [] | Inr _ \<Rightarrow> [Run_job i runId manual k])"

definition resume_jobs :: "(sched_error + 'a) \<Rightarrow> (int \<times> schedule list) option \<Rightarrow> sched_job list" where
  "resume_jobs r k = (case (r, k) of (Inr _, Some (now, rest)) \<Rightarrow> [Tick_job now rest] | _ \<Rightarrow> [])"

inductive sched_step ::
    "sched_env \<Rightarrow> (sched_error \<Rightarrow> string) \<Rightarrow> (string \<Rightarrow> bool option) \<Rightarrow> sched_sys \<Rightarrow> sched_sys \<Rightarrow> bool"
  for env message agents where
  step_create:
    "newId \<notin> sc_id ` set (sy_dir y) \<Longrightarrow>
     sched_step env message agents y (y\<lparr>sy_dir := snd (sched_create env newId now input (sy_dir y))\<rparr>)"
| step_createOrReplace:
    "newId \<notin> sc_id ` set (sy_dir y) \<Longrightarrow>
     sched_step env message agents y (y\<lparr>sy_dir := snd (createOrReplace env newId now input (sy_dir y))\<rparr>)"
| step_pause:
    "sched_step env message agents y (y\<lparr>sy_dir := snd (sched_pause env now i (sy_dir y))\<rparr>)"
| step_resume:
    "sched_step env message agents y (y\<lparr>sy_dir := snd (sched_resume env now i (sy_dir y))\<rparr>)"
| step_update:
    "sched_step env message agents y (y\<lparr>sy_dir := snd (sched_update env now i upd (sy_dir y))\<rparr>)"
| step_delete:
    "sched_step env message agents y (y\<lparr>sy_dir := sched_delete i (sy_dir y)\<rparr>)"
| step_complete_agent:
    "sched_step env message agents y (y\<lparr>sy_dir := snd (completeForAgent env now agentId (sy_dir y))\<rparr>)"
| step_tick:
    "sched_step env message agents y (y\<lparr>sy_jobs := sy_jobs y @ [Tick_job now (sched_list (sy_dir y))]\<rparr>)"
| step_tick_end:
    "sy_jobs y = js @ Tick_job now [] # ks \<Longrightarrow>
     sched_step env message agents y (y\<lparr>sy_jobs := js @ ks\<rparr>)"
| step_skip:
    "sy_jobs y = js @ Tick_job now (s # rest) # ks \<Longrightarrow> tick_visit now (sy_running y) s = Tick_skip \<Longrightarrow>
     sched_step env message agents y (y\<lparr>sy_jobs := js @ Tick_job now rest # ks\<rparr>)"
| step_complete:
    "sy_jobs y = js @ Tick_job now (s # rest) # ks \<Longrightarrow> tick_visit now (sy_running y) s = Tick_complete \<Longrightarrow>
     completeScheduleIfDue env now (sc_id s) (sy_dir y) = (r, d') \<Longrightarrow>
     sched_step env message agents y
       (y\<lparr>sy_dir := d', sy_jobs := js @ resume_jobs r (Some (now, rest)) @ ks\<rparr>)"
| step_run:
    "sy_jobs y = js @ Tick_job now (s # rest) # ks \<Longrightarrow> tick_visit now (sy_running y) s = Tick_run \<Longrightarrow>
     run_begin env now False runId s (sy_dir y) (sy_running y) = (r, d', running') \<Longrightarrow>
     sched_step env message agents y
       (y\<lparr>sy_dir := d', sy_running := running',
          sy_jobs := js @ begin_jobs r (sc_id s) runId False (Some (now, rest)) @ ks\<rparr>)"
| step_run_once:
    "runOnce_begin env now runId i (sy_dir y) (sy_running y) = (r, d', running') \<Longrightarrow>
     sched_step env message agents y
       (y\<lparr>sy_dir := d', sy_running := running', sy_jobs := sy_jobs y @ begin_jobs r i runId True None\<rparr>)"
| step_record:
    "Run_job i runId manual k \<in> set (sy_jobs y) \<Longrightarrow>
     sched_step env message agents y
       (y\<lparr>sy_dir := snd (recordRunWorkspace env now i runId workspaceId agentId (sy_dir y))\<rparr>)"
| step_settle:
    "sy_jobs y = js @ Run_job i runId manual k # ks \<Longrightarrow>
     run_settle env message now i runId manual outcome (sy_dir y) (sy_running y) = (r, d', running') \<Longrightarrow>
     sched_step env message agents y
       (y\<lparr>sy_dir := d', sy_running := running', sy_jobs := js @ resume_jobs r k @ ks\<rparr>)"
| step_restart:
    "sched_step env message agents y
       (y\<lparr>sy_dir := snd (sched_start env agents now (sy_dir y)), sy_running := [], sy_jobs := []\<rparr>)"

definition sched_reachable ::
    "sched_env \<Rightarrow> (sched_error \<Rightarrow> string) \<Rightarrow> (string \<Rightarrow> bool option) \<Rightarrow> sched_sys \<Rightarrow> bool" where
  "sched_reachable env message agents y \<longleftrightarrow>
     (sched_step env message agents)\<^sup>*\<^sup>* \<lparr>sy_dir = [], sy_running = [], sy_jobs = []\<rparr> y"

section \<open>The directory along a step\<close>

text \<open>A step lets the stored schedules evolve, adds one with a fresh id, or deletes one.\<close>

definition dir_step :: "sched_env \<Rightarrow> sched_dir \<Rightarrow> sched_dir \<Rightarrow> bool" where
  "dir_step env d d' \<longleftrightarrow>
     dir_evolves env d d'
     \<or> (\<exists>s. sc_id s \<notin> sc_id ` set d \<and> conforms env s \<and> sched_wf s \<and> d' = d @ [s])
     \<or> (\<exists>i. d' = sched_delete i d)"

lemma dir_stepI [intro]: "dir_evolves env d d' \<Longrightarrow> dir_step env d d'" "dir_step env d (sched_delete i d)"
  by (auto simp: dir_step_def)

lemma dir_step_wf:
  assumes "dir_step env d d'" "dir_wf env d"
  shows "dir_wf env d'"
  using assms dir_evolves_wf
  by (auto simp: dir_step_def dir_wf_def sched_delete_def distinct_map_filter)

lemma dir_step_completed:
  assumes "dir_step env d d'" "distinct (map sc_id d)" "s \<in> set d" "sc_status s = Sch_completed"
    "s' \<in> set d'" "sc_id s' = sc_id s"
  shows "sc_status s' = Sch_completed"
proof -
  have "s' = s" if "s' \<in> set d" using that assms(2,3,6) by (auto simp: distinct_map inj_on_def)
  then show ?thesis
    using assms dir_evolves_completed[OF _ assms(2-6)] by (auto simp: dir_step_def sched_delete_def)
qed

lemma build_wf: "buildScheduleRecord env now input name prompt = Inr s \<Longrightarrow> sched_wf (s\<lparr>sc_id := i\<rparr>)"
  by (auto simp: buildScheduleRecord_def ebind_Inr_iff sched_wf_def)

lemma create_record_step:
  assumes "newId \<notin> sc_id ` set d"
  shows "dir_step env d (snd (createScheduleRecord env newId now input name prompt d))"
proof (cases "buildScheduleRecord env now input name prompt")
  case (Inr s)
  show ?thesis
  proof (cases "parse_schedule env (s\<lparr>sc_id := newId\<rparr>)")
    case (Inr s')
    have "sc_id s' = newId" "sched_wf s'" "conforms env s'"
      using parse_schedule_fields[OF Inr] build_wf[OF \<open>_ = Inr s\<close>] parse_schedule_idem[OF Inr] by (simp_all add: conforms_def)
    then show ?thesis
      using \<open>_ = Inr s\<close> Inr assms
      by (auto simp: createScheduleRecord_def sched_store_create_def dir_step_def sched_write_def)
  qed (simp add: createScheduleRecord_def sched_store_create_def Inr dir_step_def dir_evolves_refl)
qed (simp add: createScheduleRecord_def dir_step_def dir_evolves_refl)

lemma create_step: "newId \<notin> sc_id ` set d \<Longrightarrow> dir_step env d (snd (sched_create env newId now input d))"
  by (auto simp: sched_create_def create_record_step split: sum.splits)
    (simp add: dir_step_def dir_evolves_refl)

lemma replace_evolves:
  assumes "replace_updater env now input name prompt s = Inr s'" "sc_status s \<noteq> Sch_completed"
  shows "evolves s s'"
  using assms by (auto simp: replace_updater_def Let_def ebind_Inr_iff evolves_def sched_wf_def)

lemma update_matched_evolves:
  assumes "\<And>s s'. sc_status s \<noteq> Sch_completed \<Longrightarrow> f s = Inr s' \<Longrightarrow> evolves s s'"
  shows "dir_evolves env d (snd (updateMatchedSchedule env i name t f d))"
proof (cases "sched_get i d")
  case (Some s)
  show ?thesis
  proof (cases "matchesNameAndTarget s name t")
    case True
    show ?thesis
    proof (cases "f s")
      case (Inr nxt)
      have e: "evolves s nxt" using True Inr assms by (simp add: matchesNameAndTarget_def)
      show ?thesis
      proof (cases "parse_schedule env nxt")
        case p: (Inr u)
        then have "dir_evolves env d (sched_write u d)"
          using Some evolves_parse[OF e p] parse_schedule_idem[OF p] by (intro dir_evolves_write) (auto simp: conforms_def)
        then show ?thesis
          using Some True Inr p by (simp add: updateMatchedSchedule_def dir_evolves_refl)
      qed (simp add: updateMatchedSchedule_def Some True Inr dir_evolves_refl)
    qed (simp add: updateMatchedSchedule_def Some True dir_evolves_refl)
  qed (simp add: updateMatchedSchedule_def Some dir_evolves_refl)
qed (simp add: updateMatchedSchedule_def dir_evolves_refl)

lemma create_or_replace_step:
  assumes "newId \<notin> sc_id ` set d"
  shows "dir_step env d (snd (createOrReplace env newId now input d))"
proof -
  have refl: "dir_step env d d" by (simp add: dir_step_def dir_evolves_refl)
  have u: "dir_step env d (snd (upsert_round env newId name t (buildScheduleRecord env now input n p)
      (replace_updater env now input n' p') d d))" for name t n p n' p'
  proof (cases "find (\<lambda>s. matchesNameAndTarget s name t) (sched_list d)")
    case None
    have "dir_step env d (sched_write s' d)"
      if "buildScheduleRecord env now input n p = Inr s" "parse_schedule env (s\<lparr>sc_id := newId\<rparr>) = Inr s'" for s s'
      using create_record_step[OF assms, of env now input n p] that
      by (simp add: createScheduleRecord_def sched_store_create_def)
    then show ?thesis using None refl by (auto simp: upsert_round_def split: sum.splits)
  next
    case (Some s)
    then show ?thesis
      using update_matched_evolves[of "replace_updater env now input n' p'" env d "sc_id s" name t] replace_evolves
      by (simp add: upsert_round_def dir_step_def)
  qed
  show ?thesis
    using u refl create_record_step[OF assms]
    by (auto simp: createOrReplace_def upsertByNameAndTarget_def split_beta split: sum.splits option.splits)
qed

lemma sched_step_dir:
  assumes "sched_step env message agents y y'"
  shows "dir_step env (sy_dir y) (sy_dir y')"
  using assms
proof cases
  case (step_settle js i runId manual k ks now outcome r d' running')
  then show ?thesis using settle_evolves[of env "sy_dir y" message now i runId manual outcome "sy_running y"]
    by (simp add: dir_step_def)
next
  case (step_run js now s rest ks runId r d' running')
  then show ?thesis using begin_evolves[of env "sy_dir y" now False runId s "sy_running y"] by (simp add: dir_step_def)
next
  case (step_run_once now runId i r d' running')
  then show ?thesis using begin_evolves[of env "sy_dir y" now True runId] dir_evolves_refl
    by (auto simp: dir_step_def runOnce_begin_def split: sum.splits if_splits) (metis fst_conv snd_conv)+
next
  case (step_complete js now s rest ks r d')
  then show ?thesis using complete_due.required_evolves[of env "sy_dir y" "sc_id s" now]
    by (simp add: dir_step_def completeScheduleIfDue_def)
next
  case (step_record i runId manual k now workspaceId agentId)
  then show ?thesis using record_workspace.required_evolves by (simp add: dir_step_def recordRunWorkspace_def)
qed (auto simp: create_step create_or_replace_step start_evolves complete_agent_evolves sched_pause_def sched_resume_def
   sched_update_def pause.required_evolves resume.required_evolves update.required_evolves dir_evolves_refl
   intro: dir_stepI)

section \<open>Invariants\<close>

definition run_ids :: "sched_job list \<Rightarrow> string list" where
  "run_ids js = concat (map (\<lambda>j. case j of Run_job i _ _ _ \<Rightarrow> [i] | _ \<Rightarrow> []) js)"

lemma run_ids_simps [simp]:
  "run_ids [] = []" "run_ids (Run_job i r m k # js) = i # run_ids js"
  "run_ids (Tick_job now ss # js) = run_ids js" "run_ids (js @ ks) = run_ids js @ run_ids ks"
  by (simp_all add: run_ids_def)

lemma run_ids_begin [simp]: "run_ids (begin_jobs r i runId m k) = (case r of Inl _ \<Rightarrow> [] | Inr _ \<Rightarrow> [i])"
  by (simp add: begin_jobs_def split: sum.splits)

lemma run_ids_resume [simp]: "run_ids (resume_jobs r k) = []"
  by (simp add: resume_jobs_def split: sum.splits option.splits prod.splits)

text \<open>The runs in flight are of different schedules, and their schedules are marked.\<close>

definition runs_exclusive :: "sched_sys \<Rightarrow> bool" where
  "runs_exclusive y \<longleftrightarrow> distinct (run_ids (sy_jobs y)) \<and> set (run_ids (sy_jobs y)) \<subseteq> set (sy_running y)"

lemma begin_exclusive:
  assumes "run_begin env now manual runId s d running = (r, d', running')"
  shows "running' = set_add (sc_id s) running"
  using assms by (auto simp: run_begin_def split: prod.splits)

lemma settle_unmarks:
  "run_settle env message now i runId manual outcome d running = (r, d', running') \<Longrightarrow> running' = set_del i running"
  by (auto simp: run_settle_def Let_def)

lemma visit_not_running: "tick_visit now running s = Tick_run \<Longrightarrow> sc_id s \<notin> set running"
  by (auto simp: tick_visit_def split: option.splits if_splits)

lemma inspect_id: "sched_inspect i d = Inr s \<Longrightarrow> sc_id s = i"
  using sched_get_Some[of i d]
  by (auto simp: sched_inspect_def requireSchedule_def ebind_Inr_iff split: option.splits)

lemma sched_step_exclusive:
  assumes "sched_step env message agents y y'" "runs_exclusive y"
  shows "runs_exclusive y'"
  using assms(1)
proof cases
  case (step_run js now s rest ks runId r d' running')
  have n: "sc_id s \<notin> set (run_ids (sy_jobs y))"
    using visit_not_running[OF step_run(3)] assms(2) by (auto simp: runs_exclusive_def)
  show ?thesis
    using assms(2) n step_run(2) begin_exclusive[OF step_run(4)]
    by (auto simp: step_run(1) runs_exclusive_def split: sum.splits)
next
  case (step_run_once now runId i r d' running')
  show ?thesis
  proof (cases "\<exists>s. sched_inspect i (sy_dir y) = Inr s \<and> sc_status s \<noteq> Sch_completed \<and> i \<notin> set (sy_running y)")
    case True
    then obtain s where s: "sched_inspect i (sy_dir y) = Inr s" "i \<notin> set (sy_running y)"
      "run_begin env now True runId s (sy_dir y) (sy_running y) = (r, d', running')"
      using step_run_once(2) by (auto simp: runOnce_begin_def)
    show ?thesis
      using assms(2) s(2) begin_exclusive[OF s(3)] inspect_id[OF s(1)]
      by (auto simp: step_run_once(1) runs_exclusive_def split: sum.splits)
  next
    case False
    have "running' = sy_running y \<and> (\<exists>e. r = Inl e)"
    proof (cases "sched_inspect i (sy_dir y)")
      case (Inl e)
      then have "r = Inl e" "running' = sy_running y" using step_run_once(2) by (simp_all add: runOnce_begin_def)
      then show ?thesis by simp
    next
      case (Inr s)
      then show ?thesis using step_run_once(2) False by (auto simp: runOnce_begin_def split: if_splits)
    qed
    then show ?thesis using assms(2) by (auto simp: step_run_once(1) runs_exclusive_def)
  qed
next
  case (step_settle js i runId manual k ks now outcome r d' running')
  then show ?thesis
    using assms(2) settle_unmarks[OF step_settle(3)] by (auto simp: runs_exclusive_def)
qed (use assms(2) in \<open>auto simp: runs_exclusive_def\<close>)

lemma reachable_invariant:
  assumes "sched_reachable env message agents y"
  shows "dir_wf env (sy_dir y) \<and> runs_exclusive y"
  using assms unfolding sched_reachable_def
proof (induction rule: rtranclp_induct)
  case base
  then show ?case by (simp add: dir_wf_def runs_exclusive_def)
next
  case (step y z)
  then show ?case using dir_step_wf[OF sched_step_dir[OF step(2)]] sched_step_exclusive[OF step(2)] by simp
qed

section \<open>The next occurrence\<close>

lemma skip_missed_terminates:
  "cadence_ok c \<Longrightarrow> skip_missed env c now t \<noteq> Inl Diverges"
proof (induction env c now t rule: skip_missed.induct)
  case (1 env c now t)
  show ?case
    using 1 computeNextRunAt_after[of "en_zones env" c t]
    by (subst skip_missed.simps) (auto split: sum.splits)
qed

lemma skip_missed_every:
  assumes "0 < n" "skip_missed env (Every n) now t = Inr t'"
  shows "now < t' \<and> (\<exists>k. t' = t + int k * n) \<and> (t' = t \<or> t' - n \<le> now)"
  using assms
proof (induction env "Every n" now t rule: skip_missed.induct)
  case (1 env now t)
  show ?case
  proof (cases "t \<le> now")
    case True
    then have s: "skip_missed env (Every n) now (t + n) = Inr t'"
      using 1(2,3) by (subst (asm) skip_missed.simps) (simp add: computeNextRunAt_def)
    have ih: "now < t' \<and> (\<exists>k. t' = t + n + int k * n) \<and> (t' = t + n \<or> t' - n \<le> now)"
      using True 1(2) by (intro 1(1)[OF True _ _ 1(2) s]) (auto simp: computeNextRunAt_def)
    then obtain k where "t' = t + n + int k * n" by blast
    then have "t' = t + int (Suc k) * n" by (simp add: algebra_simps)
    then have "\<exists>k. t' = t + int k * n" by blast
    with ih True show ?thesis by auto
  next
    case False
    then show ?thesis using 1(3) by (subst (asm) skip_missed.simps) (auto intro!: exI[of _ 0])
  qed
qed

definition first_match_after :: "parsed_cron \<Rightarrow> (int \<Rightarrow> date_parts) \<Rightarrow> int \<Rightarrow> int \<Rightarrow> bool" where
  "first_match_after cron parts a t \<longleftrightarrow>
     a < t \<and> t mod 60000 = 0 \<and> cron_matches cron (parts t)
     \<and> (\<forall>u. a < u \<and> u < t \<and> u mod 60000 = 0 \<longrightarrow> \<not> cron_matches cron (parts u))"

lemma compute_first_match:
  assumes "parseCronExpression e = Inr cron" "createCronDatePartsReader zones tz = Inr parts"
    "computeNextRunAt zones (Cron_at e tz) a = Inr t"
  shows "first_match_after cron parts a t"
  using computeNextRunAt_first[OF assms(1,2), THEN conjunct1, THEN spec, THEN iffD1, OF assms(3)]
  unfolding first_match_after_def by (elim conjE) (intro conjI)

lemma skip_missed_cron:
  assumes "parseCronExpression e = Inr cron" "createCronDatePartsReader (en_zones env) tz = Inr parts"
    "skip_missed env (Cron_at e tz) now t = Inr t'" "first_match_after cron parts a t"
  shows "first_match_after cron parts (max a now) t'"
  using assms
proof (induction env "Cron_at e tz" now t arbitrary: a rule: skip_missed.induct)
  case (1 env now t)
  show ?case
  proof (cases "t \<le> now")
    case True
    from 1(4) True obtain u where u: "computeNextRunAt (en_zones env) (Cron_at e tz) t = Inr u" "\<not> u \<le> t"
      "skip_missed env (Cron_at e tz) now u = Inr t'"
      by (subst (asm) skip_missed.simps) (simp split: sum.splits if_splits)
    have "first_match_after cron parts (max t now) t'"
      by (rule 1(1)[OF True u(1,2) 1(2,3) u(3) compute_first_match[OF 1(2,3) u(1)]])
    moreover have "max a now = max t now" using True 1(5) by (simp add: first_match_after_def)
    ultimately show ?thesis by simp
  next
    case False
    then have "t' = t" using 1(4) by (subst (asm) skip_missed.simps) simp
    with 1(5) False show ?thesis unfolding first_match_after_def by simp
  qed
qed

lemma next_after_every:
  assumes "0 < n" "next_after env (Every n) now old = Inr t"
  shows "now < t \<and> (\<exists>k > 0. t = old + int k * n) \<and> (t = old + n \<or> t - n \<le> now)"
proof -
  have "skip_missed env (Every n) now (old + n) = Inr t"
    using assms(2) by (auto simp: next_after_def lift_cron_def computeNextRunAt_def ebind_Inr_iff toISOString_def split: if_splits)
  from skip_missed_every[OF assms(1) this] obtain k where "t = old + n + int k * n" "now < t" "t = old + n \<or> t - n \<le> now"
    by blast
  moreover from this(1) have "t = old + int (Suc k) * n" by (simp add: algebra_simps)
  ultimately show ?thesis by blast
qed

lemma next_after_cron:
  assumes "parseCronExpression e = Inr cron" "createCronDatePartsReader (en_zones env) tz = Inr parts"
    "next_after env (Cron_at e tz) now old = Inr t"
  shows "first_match_after cron parts (max old now) t"
proof -
  obtain u where "computeNextRunAt (en_zones env) (Cron_at e tz) old = Inr u" "skip_missed env (Cron_at e tz) now u = Inr t"
    using assms(3) by (auto simp: next_after_def lift_cron_def ebind_Inr_iff toISOString_def split: if_splits sum.splits)
  with compute_first_match[OF assms(1,2) this(1)] skip_missed_cron[OF assms(1,2)] show ?thesis by blast
qed

lemma next_after_terminates: "cadence_ok c \<Longrightarrow> next_after env c now old \<noteq> Inl Diverges"
  using skip_missed_terminates[of c env now]
  by (auto simp: next_after_def lift_cron_def ebind_def toISOString_def split: sum.splits)

lemma conforms_cadence: "conforms env s \<Longrightarrow> cadence_ok (sc_cadence s)"
  by (auto simp: conforms_def parse_schedule_def ebind_Inr_iff parse_cadence_def cadence_ok_def
      split: cadence.splits if_splits)

lemma eall_Inl: "eall rs = Inl e \<Longrightarrow> Inl e \<in> set rs"
  by (induction rs) (auto simp: ebind_def split: sum.splits)

lemma parse_terminates: "parse_schedule env s \<noteq> Inl Diverges"
proof -
  have o: "optional p v \<noteq> Inl Diverges" if "\<And>x. p x \<noteq> Inl Diverges" for p :: "'a \<Rightarrow> sched_error + 'a" and v
    using that by (auto simp: optional_def ebind_def split: option.splits sum.splits)
  have m: "trim_min1 f x \<noteq> Inl Diverges" "min1 f x \<noteq> Inl Diverges" for f x
    by (auto simp: trim_min1_def min1_def)
  have c: "parse_cadence x \<noteq> Inl Diverges" for x
    using m o[of "trim_min1 f" for f, OF m(1)]
    by (auto simp: parse_cadence_def ebind_def split: cadence.splits sum.splits)
  have k: "parse_config x \<noteq> Inl Diverges" for x
    using m o[of "trim_min1 f" for f, OF m(1)] o[of "optional (trim_min1 f)" for f, OF o[OF m(1)]]
    by (auto simp: parse_config_def ebind_def split: sum.splits)
  have g: "parse_guid env x \<noteq> Inl Diverges" for x by (simp add: parse_guid_def)
  have t: "parse_target env x \<noteq> Inl Diverges" for x
    using g k by (auto simp: parse_target_def ebind_def split: sched_target.splits sum.splits)
  have r: "parse_run env x \<noteq> Inl Diverges" for x
    using o[of "parse_guid env", OF g] by (auto simp: parse_run_def ebind_def split: sum.splits)
  then have rs: "eall (map (parse_run env) xs) \<noteq> Inl Diverges" for xs
    using eall_Inl[of "map (parse_run env) xs"] by (metis imageE list.set_map)
  have "optional parse_maxRuns x \<noteq> Inl Diverges" for x by (rule o) (simp add: parse_maxRuns_def)
  then show ?thesis
    using m(2) c t rs by (auto simp: parse_schedule_def ebind_def split: sum.splits)
qed

text \<open>What an update returns, by what its updater returns.\<close>

lemma update_required_result:
  assumes "sched_get i d = Some s" "update_required env i f d = (r, d')"
  shows "f s = Inl e \<Longrightarrow> r = Inl e \<and> d' = d"
    "f s = Inr (Some u) \<Longrightarrow> sc_id u = i \<Longrightarrow>
     r = parse_schedule env u \<and> d' = (case parse_schedule env u of Inl _ \<Rightarrow> d | Inr v \<Rightarrow> sched_write v d)"
    "f s = Inr None \<Longrightarrow> r = Inr s \<and> d' = d"
  using assms by (auto simp: update_required_def sched_store_update_def requireSchedule_def split: sum.splits)

lemma finish_active:
  assumes "sc_status s = Sch_active" "sc_nextRunAt s = Some old" "\<not> fp_targetGone p" "\<not> fp_manual p"
  shows "finish_updater env now runId p s = Inl e \<Longrightarrow> next_after env (sc_cadence s) now old = Inl e"
    "finish_updater env now runId p s \<noteq> Inr None"
    "finish_updater env now runId p s = Inr (Some u) \<Longrightarrow>
     sc_id u = sc_id s \<and> (sc_nextRunAt u = None \<or> next_after env (sc_cadence s) now old = ebind (Inr (the (sc_nextRunAt u))) Inr)"
  using assms
  by (auto simp: finish_updater_def Let_def ebind_def completeSchedule_def split: sum.splits if_splits)

section \<open>Running the system\<close>

text \<open>Commands that choose a step, to compute concrete executions; an inapplicable command does nothing.\<close>

datatype sched_cmd =
    C_create string int sched_create_input
  | C_pause int string
  | C_tick int
  | C_visit nat string
  | C_settle nat int run_outcome

fun exec_cmd :: "sched_env \<Rightarrow> (sched_error \<Rightarrow> string) \<Rightarrow> sched_sys \<Rightarrow> sched_cmd \<Rightarrow> sched_sys" where
  "exec_cmd env message y (C_create newId now input) =
     (if newId \<in> sc_id ` set (sy_dir y) then y
      else y\<lparr>sy_dir := snd (sched_create env newId now input (sy_dir y))\<rparr>)"
| "exec_cmd env message y (C_pause now i) = y\<lparr>sy_dir := snd (sched_pause env now i (sy_dir y))\<rparr>"
| "exec_cmd env message y (C_tick now) = y\<lparr>sy_jobs := sy_jobs y @ [Tick_job now (sched_list (sy_dir y))]\<rparr>"
| "exec_cmd env message y (C_visit n runId) =
     (case drop n (sy_jobs y) of
        Tick_job now [] # ks \<Rightarrow> y\<lparr>sy_jobs := take n (sy_jobs y) @ ks\<rparr>
      | Tick_job now (s # rest) # ks \<Rightarrow>
          (case tick_visit now (sy_running y) s of
             Tick_skip \<Rightarrow> y\<lparr>sy_jobs := take n (sy_jobs y) @ Tick_job now rest # ks\<rparr>
           | Tick_complete \<Rightarrow>
               (case completeScheduleIfDue env now (sc_id s) (sy_dir y) of
                  (r, d') \<Rightarrow> y\<lparr>sy_dir := d', sy_jobs := take n (sy_jobs y) @ resume_jobs r (Some (now, rest)) @ ks\<rparr>)
           | Tick_run \<Rightarrow>
               (case run_begin env now False runId s (sy_dir y) (sy_running y) of
                  (r, d', running') \<Rightarrow>
                    y\<lparr>sy_dir := d', sy_running := running',
                      sy_jobs := take n (sy_jobs y) @ begin_jobs r (sc_id s) runId False (Some (now, rest)) @ ks\<rparr>))
      | _ \<Rightarrow> y)"
| "exec_cmd env message y (C_settle n now outcome) =
     (case drop n (sy_jobs y) of
        Run_job i runId manual k # ks \<Rightarrow>
          (case run_settle env message now i runId manual outcome (sy_dir y) (sy_running y) of
             (r, d', running') \<Rightarrow>
               y\<lparr>sy_dir := d', sy_running := running', sy_jobs := take n (sy_jobs y) @ resume_jobs r k @ ks\<rparr>)
      | _ \<Rightarrow> y)"

lemma exec_cmd_step:
  "exec_cmd env message y c = y \<or> sched_step env message agents y (exec_cmd env message y c)"
proof (cases c)
  case (C_visit n runId)
  have j: "sy_jobs y = take n (sy_jobs y) @ drop n (sy_jobs y)" by simp
  show ?thesis
  proof (cases "drop n (sy_jobs y)")
    case (Cons a ks)
    note j = j[unfolded this]
    show ?thesis
    proof (cases a)
      case a: (Tick_job now ss)
      show ?thesis
      proof (cases ss)
        case Nil
        then show ?thesis using step_tick_end[OF j[unfolded a Nil]] C_visit Cons a by simp
      next
        case ss: (Cons s rest)
        note jj = j[unfolded a ss]
        show ?thesis
          using step_skip[OF jj] step_complete[OF jj] step_run[OF jj] C_visit Cons a ss
          by (simp split: tick_action.split prod.split)
      qed
    qed (simp add: C_visit Cons)
  qed (simp add: C_visit)
next
  case (C_settle n now outcome)
  have j: "sy_jobs y = take n (sy_jobs y) @ drop n (sy_jobs y)" by simp
  show ?thesis
  proof (cases "drop n (sy_jobs y)")
    case (Cons a ks)
    note j = j[unfolded this]
    show ?thesis
    proof (cases a)
      case a: (Run_job i runId manual k)
      show ?thesis
        using step_settle[OF j[unfolded a]] C_settle Cons a by (simp split: prod.split)
    qed (simp add: C_settle Cons)
  qed (simp add: C_settle)
qed (auto intro: sched_step.intros)

lemma exec_reachable:
  "sched_reachable env message agents (foldl (exec_cmd env message) \<lparr>sy_dir = [], sy_running = [], sy_jobs = []\<rparr> cs)"
proof (induction cs rule: rev_induct)
  case Nil
  then show ?case by (simp add: sched_reachable_def)
next
  case (snoc c cs)
  let ?y = "foldl (exec_cmd env message) \<lparr>sy_dir = [], sy_running = [], sy_jobs = []\<rparr> cs"
  from exec_cmd_step[of env message ?y c agents] snoc show ?case
    by (auto simp: sched_reachable_def intro: rtranclp.rtrancl_into_rtrancl)
qed

definition demo_env :: sched_env where
  "demo_env = \<lparr>en_zones = (\<lambda>_. None), en_guid = (\<lambda>_. True)\<rparr>"

definition demo_input :: "cadence \<Rightarrow> sched_create_input" where
  "demo_input c = \<lparr>ci_name = None, ci_prompt = ''go'', ci_cadence = c, ci_target = Agent_target ''a'',
     ci_maxRuns = None, ci_expiresAt = None, ci_runOnCreate = Some True\<rparr>"

text \<open>Two hourly schedules; the first tick runs \<open>s1\<close>, the second tick finds \<open>s1\<close> running and runs \<open>s2\<close>.\<close>

definition two_runs :: "sched_cmd list" where
  "two_runs =
     [C_create ''s1'' 1000 (demo_input (Every 3600000)), C_create ''s2'' 1001 (demo_input (Every 3600000)),
      C_tick 2000, C_visit 0 ''r1'', C_tick 3000, C_visit 1 [], C_visit 1 ''r2'']"

definition demo :: "sched_cmd list \<Rightarrow> sched_sys" where
  "demo cs = foldl (exec_cmd demo_env (\<lambda>_. [])) \<lparr>sy_dir = [], sy_running = [], sy_jobs = []\<rparr> cs"

lemma sched_demo_reachable: "sched_reachable demo_env (\<lambda>_. []) agents (demo cs)"
  unfolding demo_def by (rule exec_reachable)

section \<open>Properties\<close>

text \<open>
  C23. In every reachable state of the scheduler the stored schedules have distinct ids and conform to
  the schema; a schedule has a next run time exactly when it is active and a pause time exactly when it
  is paused, and exactly its unfinished runs have no end time.
\<close>

theorem stored_schedules_well_formed:
  assumes "sched_reachable env message agents y"
  shows "distinct (map sc_id (sy_dir y))
    \<and> (\<forall>s \<in> set (sy_dir y). parse_schedule env s = Inr s
        \<and> (sc_nextRunAt s \<noteq> None \<longleftrightarrow> sc_status s = Sch_active)
        \<and> (sc_pausedAt s \<noteq> None \<longleftrightarrow> sc_status s = Sch_paused)
        \<and> (\<forall>r \<in> set (sc_runs s). r_endedAt r = None \<longleftrightarrow> r_status r = Run_running))"
  using reachable_invariant[OF assms]
  by (auto simp: dir_wf_def conforms_def sched_wf_def run_wf_def list_all_iff)

text \<open>
  C26. Whatever ticks and manual runs overlap, a schedule has at most one run in flight, and it is marked
  as running while it has one.
\<close>

theorem at_most_one_run_in_flight:
  assumes "sched_reachable env message agents y"
    "sy_jobs y = as @ Run_job i r1 m1 k1 # bs @ Run_job j r2 m2 k2 # cs"
  shows "i \<noteq> j \<and> i \<in> set (sy_running y) \<and> j \<in> set (sy_running y)"
  using reachable_invariant[OF assms(1)] assms(2) by (auto simp: runs_exclusive_def)

text \<open>
  C25. A completed schedule is never reopened: no client call, tick, run or restart gives it another
  status; it can only be deleted.
\<close>

theorem completed_is_final:
  assumes "sched_reachable env message agents y" "sched_step env message agents y z"
    "s \<in> set (sy_dir y)" "sc_status s = Sch_completed" "s' \<in> set (sy_dir z)" "sc_id s' = sc_id s"
  shows "sc_status s' = Sch_completed \<and> sc_nextRunAt s' = None"
proof -
  have w: "dir_wf env (sy_dir y)" using reachable_invariant[OF assms(1)] by simp
  have "sc_status s' = Sch_completed"
    using dir_step_completed[OF sched_step_dir[OF assms(2)] _ assms(3-6)] w by (simp add: dir_wf_def)
  moreover have "sched_wf s'" using dir_step_wf[OF sched_step_dir[OF assms(2)] w] assms(5) by (simp add: dir_wf_def)
  ultimately show ?thesis by (auto simp: sched_wf_def)
qed


lemma stored_schedules_well_formed_witness:
  "length (sy_dir (demo two_runs)) = 2 \<and> distinct (map sc_id (sy_dir (demo two_runs)))"
proof -
  have "length (sy_dir (demo two_runs)) = 2" by code_simp
  with stored_schedules_well_formed[OF sched_demo_reachable[of "\<lambda>_. None" two_runs]] show ?thesis by blast
qed

lemma at_most_one_run_in_flight_witness:
  "\<exists>k1 k2. sy_jobs (demo two_runs) = [Run_job ''s1'' ''r1'' False k1, Run_job ''s2'' ''r2'' False k2]
     \<and> ''s2'' \<in> set (sy_running (demo two_runs))"
proof -
  have "case sy_jobs (demo two_runs) of
      [Run_job i r m k1, Run_job j q n k2] \<Rightarrow> i = ''s1'' \<and> r = ''r1'' \<and> \<not> m \<and> j = ''s2'' \<and> q = ''r2'' \<and> \<not> n | _ \<Rightarrow> False"
    by code_simp
  then obtain k1 k2 where j: "sy_jobs (demo two_runs) = [] @ Run_job ''s1'' ''r1'' False k1 # [] @ Run_job ''s2'' ''r2'' False k2 # []"
    by (auto split: list.splits sched_job.splits)
  from at_most_one_run_in_flight[OF sched_demo_reachable[of "\<lambda>_. None" two_runs] j] j show ?thesis by auto
qed

text \<open>A schedule that may run once, after its run.\<close>

definition no_update :: sched_update_input where
  "no_update = \<lparr>ui_name = None, ui_prompt = None, ui_cadence = None, ui_newAgentConfig = None, ui_maxRuns = None,
     ui_expiresAt = None\<rparr>"

definition one_shot :: "sched_cmd list" where
  "one_shot =
     [C_create ''s1'' 1000 ((demo_input (Every 60000))\<lparr>ci_maxRuns := Some (Num 1)\<rparr>), C_tick 2000,
      C_visit 0 ''r1'', C_settle 0 2500 (Run_ok (Some ''a'') None)]"

lemma completed_is_final_witness:
  "\<exists>s s'. sy_dir (demo one_shot) = [s] \<and> sc_status s = Sch_completed
     \<and> snd (sched_update demo_env 9000 ''s1'' (no_update\<lparr>ui_cadence := Some (Every 5000)\<rparr>) [s]) = [s']
     \<and> sc_status s' = Sch_completed"
proof -
  have "case sy_dir (demo one_shot) of [s] \<Rightarrow> sc_status s = Sch_completed \<and> sc_id s = ''s1''
      \<and> (case snd (sched_update demo_env 9000 ''s1'' (no_update\<lparr>ui_cadence := Some (Every 5000)\<rparr>) [s]) of
           [s'] \<Rightarrow> sc_id s' = ''s1'' | _ \<Rightarrow> False) | _ \<Rightarrow> False"
    by code_simp
  then obtain s s' where s: "sy_dir (demo one_shot) = [s]" "sc_status s = Sch_completed" "sc_id s = ''s1''"
    and s': "snd (sched_update demo_env 9000 ''s1'' (no_update\<lparr>ui_cadence := Some (Every 5000)\<rparr>) [s]) = [s']" "sc_id s' = ''s1''"
    by (auto split: list.splits)
  note st = step_update[of demo_env "\<lambda>_. []" "\<lambda>_. None" "demo one_shot" 9000 "''s1''"
      "no_update\<lparr>ui_cadence := Some (Every 5000)\<rparr>"]
  have "s \<in> set (sy_dir (demo one_shot))" using s(1) by simp
  from completed_is_final[OF sched_demo_reachable st this s(2), of s'] s s' show ?thesis by simp
qed


text \<open>
  C27. A tick visits the list that it took at its start. While it waits for the run of one schedule, a
  second tick may run the next schedule and finish it, and that schedule may then be paused; the first
  tick, when it resumes, runs the same occurrence once more, on a paused schedule.
\<close>

theorem stale_tick_repeats_occurrence:
  "\<exists>y s r1 r2. sched_reachable demo_env (\<lambda>_. []) (\<lambda>_. None) y \<and> s \<in> set (sy_dir y)
     \<and> sc_status s = Sch_paused \<and> sc_runs s = [r1, r2] \<and> r_scheduledFor r1 = r_scheduledFor r2
     \<and> r_status r1 = Run_succeeded \<and> r_status r2 = Run_running
     \<and> (\<exists>k. Run_job (sc_id s) (r_id r2) False k \<in> set (sy_jobs y))"
proof -
  let ?cs = "two_runs @ [C_settle 1 4000 (Run_ok None None), C_pause 5000 ''s2'', C_settle 0 6000 (Run_ok None None),
    C_visit 0 ''r3'']"
  have "case sy_dir (demo ?cs) of
      [s1, s] \<Rightarrow> sc_status s = Sch_paused \<and> sc_id s = ''s2'' \<and>
        (case sc_runs s of [r1, r2] \<Rightarrow> r_scheduledFor r1 = r_scheduledFor r2 \<and> r_status r1 = Run_succeeded
           \<and> r_status r2 = Run_running \<and> r_id r2 = ''r3'' | _ \<Rightarrow> False)
    | _ \<Rightarrow> False"
    by code_simp
  then obtain s1 s r1 r2 where s: "sy_dir (demo ?cs) = [s1, s]" "sc_status s = Sch_paused" "sc_id s = ''s2''"
    "sc_runs s = [r1, r2]" "r_scheduledFor r1 = r_scheduledFor r2" "r_status r1 = Run_succeeded"
    "r_status r2 = Run_running" "r_id r2 = ''r3''"
    by (auto split: list.splits)
  have "case sy_jobs (demo ?cs) of Run_job i r m k # _ \<Rightarrow> i = ''s2'' \<and> r = ''r3'' \<and> \<not> m | _ \<Rightarrow> False"
    by code_simp
  then obtain k js where "sy_jobs (demo ?cs) = Run_job ''s2'' ''r3'' False k # js"
    by (auto split: list.splits sched_job.splits)
  then show ?thesis
    using s sched_demo_reachable[of "\<lambda>_. None" ?cs]
    by (intro exI[of _ "demo ?cs"] exI[of _ s] exI[of _ r1] exI[of _ r2]) auto
qed

section \<open>A next run that cannot be computed\<close>

lemma update_each_error:
  assumes "distinct (map sc_id d)" "s \<in> set d" "\<And>d'. sched_get (sc_id s) d' = Some s \<Longrightarrow> \<exists>e. fst (f (sc_id s) d') = Inl e"
    "\<And>i d'. i \<noteq> sc_id s \<Longrightarrow> sched_get (sc_id s) (snd (f i d')) = sched_get (sc_id s) d'"
  shows "\<exists>e. fst (update_each f d) = Inl e"
proof -
  define g where "g = (\<lambda>(acc, d) (s :: schedule). case f (sc_id s) d of
              (r, d') \<Rightarrow> (ebind acc (\<lambda>xs. ebind r (\<lambda>x. Inr (xs @ [x]))), d'))"
  have stuck: "\<exists>e. fst (foldl g acc ss) = Inl e" if "\<exists>e. fst acc = Inl e" for acc ss
    using that by (induction ss arbitrary: acc) (auto simp: g_def split_beta)
  have "\<exists>e. fst (foldl g acc ss) = Inl e"
    if "s \<in> set ss" "distinct (map sc_id ss)" "sched_get (sc_id s) (snd acc) = Some s" for acc ss
    using that
  proof (induction ss arbitrary: acc)
    case (Cons x ss)
    show ?case
    proof (cases "x = s")
      case True
      obtain e where "fst (f (sc_id s) (snd acc)) = Inl e" using assms(3)[OF Cons.prems(3)] by blast
      then have "\<exists>e. fst (g acc s) = Inl e" by (cases "fst acc") (auto simp: g_def split_beta)
      then show ?thesis using stuck[of "g acc s" ss] True by simp
    next
      case False
      then have "sc_id x \<noteq> sc_id s" using Cons.prems(1,2) by (auto simp: rev_image_eqI)
      then have "sched_get (sc_id s) (snd (g acc x)) = Some s"
        using assms(4) Cons.prems(3) by (simp add: g_def split_beta)
      then show ?thesis using Cons.IH[of "g acc x"] Cons.prems(1,2) False by simp
    qed
  qed simp
  moreover have "s \<in> set (sched_list d)" "distinct (map sc_id (sched_list d))"
    using assms(1,2) by (auto simp: sched_list_def distinct_map)
  ultimately show ?thesis
    using sched_get_unique[OF assms(1,2)] by (simp add: update_each_def g_def)
qed

lemma update_other:
  assumes "i \<noteq> j" "\<And>s s'. f s = Inr (Some s') \<Longrightarrow> sc_id s' = sc_id s"
  shows "sched_get j (snd (sched_store_update env i f d)) = sched_get j d"
proof -
  have w: "sched_get j (sched_write u d) = sched_get j d" if "sc_id u = i" for u
  proof -
    have "find (\<lambda>s. sc_id s = j) (map (\<lambda>x. if sc_id x = i then u else x) d) = find (\<lambda>s. sc_id s = j) d"
      using that assms(1) by (induction d) auto
    moreover have "find (\<lambda>s. sc_id s = j) (d @ [u]) = find (\<lambda>s. sc_id s = j) d"
      using that assms(1) by (induction d) auto
    ultimately show ?thesis using that by (simp add: sched_get_def sched_write_def)
  qed
  show ?thesis
    using w parse_schedule_fields(1)[of env]
    by (auto simp: sched_store_update_def split: option.splits sum.splits)
qed

lemma next_after_error:
  "computeNextRunAt (en_zones env) c old = Inl e \<Longrightarrow> next_after env c now old = Inl (Cron_failed e)"
  by (simp add: next_after_def lift_cron_def)

lemma finish_without_next:
  assumes "sched_get i d = Some s" "sc_status s = Sch_active" "sc_nextRunAt s = Some old" "sc_maxRuns s = None"
    "\<not> expired (sc_expiresAt s) now" "next_after env (sc_cadence s) now old = Inl e"
    "\<not> fp_targetGone p" "\<not> fp_manual p"
  shows "finishRun env now i runId p d = (Inl e, d)"
proof -
  have "finish_updater env now runId p s = Inl e"
    using assms by (simp add: finish_updater_def Let_def shouldCompleteSchedule_def)
  then show ?thesis
    using assms(1) by (simp add: finishRun_def update_required_def sched_store_update_def requireSchedule_def)
qed

lemma start_without_next:
  assumes "distinct (map sc_id d)" "s \<in> set d" "sc_status s = Sch_active" "sc_nextRunAt s = Some old" "old \<le> now"
    "next_after env (sc_cadence s) now old = Inl e"
  shows "\<exists>e'. fst (sched_start env agents now d) = Inl e'"
proof -
  have "\<exists>e'. fst (recoverInterruptedRuns env now d) = Inl e'"
    unfolding recoverInterruptedRuns_def
  proof (rule update_each_error[OF assms(1,2)])
    show "\<exists>e'. fst (recoverInterruptedSchedule env now (sc_id s) d') = Inl e'" if "sched_get (sc_id s) d' = Some s" for d'
      using that assms(3-6)
      by (simp add: recoverInterruptedSchedule_def sched_store_update_def recover_updater_def Let_def split_beta)
    show "sched_get (sc_id s) (snd (recoverInterruptedSchedule env now i d')) = sched_get (sc_id s) d'"
      if "i \<noteq> sc_id s" for i d'
      using update_other[OF that, of "recover_updater env now" env d'] recover.updater_evolves
      by (simp add: recoverInterruptedSchedule_def Let_def split_beta evolves_def)
  qed
  then show ?thesis by (auto simp: sched_start_def split: prod.splits)
qed

text \<open>
  When the next run of a due schedule cannot be computed, the end of its run throws and changes no
  file: the run stays unfinished and the run time stays in the past, so that every later tick runs the
  schedule again; and a daemon that starts meanwhile fails to start.
\<close>

theorem uncomputable_next_run:
  assumes "dir_wf env d" "s \<in> set d" "sc_status s = Sch_active" "sc_nextRunAt s = Some old" "old \<le> now"
    "sc_maxRuns s = None" "\<not> expired (sc_expiresAt s) now" "computeNextRunAt (en_zones env) (sc_cadence s) old = Inl e"
  shows "run_settle env message now (sc_id s) runId False (Run_ok agentId out) d running
      = (Inl (Cron_failed e), d, set_del (sc_id s) running)
    \<and> run_settle env message now (sc_id s) runId False (Run_threw msg False) d running
      = (Inl (Cron_failed e), d, set_del (sc_id s) running)
    \<and> tick_visit now (set_del (sc_id s) running) s = Tick_run
    \<and> (\<exists>e'. fst (sched_start env agents now d) = Inl e')"
proof -
  have dist: "distinct (map sc_id d)" and g: "sched_get (sc_id s) d = Some s"
    using assms(1,2) by (simp_all add: dir_wf_def sched_get_unique)
  note nx = next_after_error[OF assms(8), of now]
  note f = finish_without_next[OF g assms(3,4,6,7) nx]
  have settle: "run_settle env message now (sc_id s) runId False out d running
      = (Inl (Cron_failed e), d, set_del (sc_id s) running)" if "\<forall>m. out \<noteq> Run_threw m True" for out
    using that f[of "success_params False a b" for a b] f[of "failure_params False m False" for m]
    by (cases out) (auto simp: run_settle_def Let_def success_params_def failure_params_def)
  have "tick_visit now (set_del (sc_id s) running) s = Tick_run"
    using assms(3-7) by (simp add: tick_visit_def shouldCompleteSchedule_def)
  then show ?thesis using settle start_without_next[OF dist assms(2-5) nx] by simp
qed

text \<open>A schedule for the 29th of February that also runs when it is created, in January 2025.\<close>

definition leap_schedule :: schedule where
  "leap_schedule = \<lparr>sc_id = ''s'', sc_name = None, sc_prompt = ''go'', sc_cadence = Cron_at ''0 0 29 2 *'' None,
     sc_target = Agent_target ''a'', sc_status = Sch_active, sc_createdAt = 20100 * 86400000,
     sc_updatedAt = 20100 * 86400000, sc_nextRunAt = Some (20100 * 86400000), sc_lastRunAt = None,
     sc_pausedAt = None, sc_expiresAt = None, sc_maxRuns = None, sc_runs = []\<rparr>"

lemma uncomputable_next_run_witness:
  "sched_create demo_env ''s'' (20100 * 86400000) (demo_input (Cron_at ''0 0 29 2 *'' None)) [] = (Inr leap_schedule, [leap_schedule])
   \<and> tick_visit (20101 * 86400000) [] leap_schedule = Tick_run
   \<and> (\<exists>e. fst (sched_start demo_env (\<lambda>_. Some False) (20101 * 86400000) [leap_schedule]) = Inl e)"
proof -
  have c: "sched_create demo_env ''s'' (20100 * 86400000) (demo_input (Cron_at ''0 0 29 2 *'' None)) [] = (Inr leap_schedule, [leap_schedule])"
    by code_simp
  have p: "parse_schedule demo_env leap_schedule = Inr leap_schedule" by code_simp
  have w: "dir_wf demo_env [leap_schedule]"
    by (simp add: dir_wf_def conforms_def p) (simp add: sched_wf_def leap_schedule_def)
  have n: "computeNextRunAt (en_zones demo_env) (sc_cadence leap_schedule) (20100 * 86400000) = Inl (No_next_run ''0 0 29 2 *'')"
    using leap_day_search[of "20100 * 86400000" "en_zones demo_env"] by (simp add: leap_schedule_def)
  have f: "sc_status leap_schedule = Sch_active" "sc_nextRunAt leap_schedule = Some (20100 * 86400000)"
    "sc_maxRuns leap_schedule = None" "\<not> expired (sc_expiresAt leap_schedule) (20101 * 86400000)" "sc_id leap_schedule = ''s''"
    by (simp_all add: leap_schedule_def expired_def)
  have "tick_visit (20101 * 86400000) (set_del ''s'' []) leap_schedule = Tick_run
    \<and> (\<exists>e. fst (sched_start demo_env (\<lambda>_. Some False) (20101 * 86400000) [leap_schedule]) = Inl e)"
    using uncomputable_next_run[OF w _ f(1,2) _ f(3,4) n, of "\<lambda>_. []" "''r''" None None "[]" "[]" "\<lambda>_. Some False"]
    by (simp add: f(5))
  with c show ?thesis by (simp add: set_del_def)
qed

section \<open>Creating by name again\<close>

lemma insert_by_map:
  "\<forall>y \<in> set ys. le (h x) (h y) = le x y \<Longrightarrow> insert_by le (h x) (map h ys) = map h (insert_by le x ys)"
  by (induction ys) auto

lemma sort_by_map:
  "\<forall>x \<in> set xs. \<forall>y \<in> set xs. le (h x) (h y) = le x y \<Longrightarrow> sort_by le (map h xs) = map h (sort_by le xs)"
  by (induction xs) (auto intro: insert_by_map)

lemma find_mem: "find P xs = Some x \<Longrightarrow> x \<in> set xs \<and> P x"
  by (induction xs) (auto split: if_splits)

lemma find_unique: "x \<in> set xs \<Longrightarrow> P x \<Longrightarrow> \<forall>y \<in> set xs. P y \<longrightarrow> y = x \<Longrightarrow> find P xs = Some x"
  by (cases "find P xs") (metis find_None_iff, metis find_mem)

lemma ids_write: "sc_id s \<in> sc_id ` set d \<Longrightarrow> map sc_id (sched_write s d) = map sc_id d"
  by (auto simp: sched_write_def)

lemma replace_fields: "replace_updater env now input n p s = Inr s' \<Longrightarrow> sc_id s' = sc_id s \<and> sc_createdAt s' = sc_createdAt s"
  by (auto simp: replace_updater_def Let_def ebind_Inr_iff)

lemma update_matched_result:
  assumes "sched_get i d = Some x" "matchesNameAndTarget x name t" "updateMatchedSchedule env i name t f d = (r, d')"
  shows "(\<exists>e. r = Inl e \<and> d' = d) \<or> (\<exists>nxt u. f x = Inr nxt \<and> parse_schedule env nxt = Inr u \<and> sc_id u = i
     \<and> matchesNameAndTarget u name t \<and> r = Inr (Some u) \<and> d' = sched_write u d)"
proof (cases "f x")
  case (Inl e)
  then show ?thesis using assms by (auto simp: updateMatchedSchedule_def)
next
  case f: (Inr nxt)
  show ?thesis
  proof (cases "parse_schedule env nxt")
    case (Inl e)
    then show ?thesis using assms f by (auto simp: updateMatchedSchedule_def split: if_splits)
  next
    case u: (Inr u)
    then show ?thesis
      using assms f parse_schedule_fields(1)[OF u] by (auto simp: updateMatchedSchedule_def split: if_splits)
  qed
qed

text \<open>After the round the schedule that it stored is the one that the next round finds.\<close>

lemma round_finds:
  assumes dist: "distinct (map sc_id d)" and new: "newId \<notin> sc_id ` set d"
    and upd: "\<And>x x'. f x = Inr x' \<Longrightarrow> sc_id x' = sc_id x \<and> sc_createdAt x' = sc_createdAt x"
    and rd: "upsert_round env newId name t create f d d = (Inr (Some s), d1)"
  shows "find (\<lambda>s. matchesNameAndTarget s name t) (sched_list d1) = Some s \<and> sched_get (sc_id s) d1 = Some s"
proof (cases "find (\<lambda>s. matchesNameAndTarget s name t) (sched_list d)")
  case None
  then have no: "\<not> matchesNameAndTarget x name t" if "x \<in> set d" for x
    using that by (auto simp: find_None_iff sched_list_def)
  obtain c where c: "parse_schedule env (c\<lparr>sc_id := newId\<rparr>) = Inr s" "matchesNameAndTarget s name t" "d1 = sched_write s d"
    using rd None by (auto simp: upsert_round_def split: sum.splits if_splits)
  have "sc_id s = newId" using parse_schedule_fields(1)[OF c(1)] by simp
  then have d1: "d1 = d @ [s]" using c(3) new by (simp add: sched_write_def)
  have "find (\<lambda>s. matchesNameAndTarget s name t) (sched_list d1) = Some s"
    using no c(2) by (intro find_unique) (auto simp: d1 sched_list_def)
  moreover have "sched_get (sc_id s) d1 = Some s"
    using new \<open>sc_id s = newId\<close> dist by (intro sched_get_unique) (auto simp: d1)
  ultimately show ?thesis ..
next
  case (Some x)
  have x: "x \<in> set d" "matchesNameAndTarget x name t"
    using find_mem[OF Some] by (simp_all add: sched_list_def)
  note gx = sched_get_unique[OF dist x(1)]
  obtain nxt where nxt: "f x = Inr nxt" "parse_schedule env nxt = Inr s" "sc_id s = sc_id x"
    "matchesNameAndTarget s name t" "d1 = sched_write s d"
  proof -
    have "updateMatchedSchedule env (sc_id x) name t f d = (Inr (Some s), d1)"
      using rd Some by (simp add: upsert_round_def)
    from update_matched_result[OF gx x(2) this] show thesis using that by blast
  qed
  define h where "h = (\<lambda>y. if sc_id y = sc_id x then s else y)"
  have d1: "d1 = map h d" using nxt(3,5) image_eqI[of "sc_id s" sc_id x "set d"] x(1) by (simp add: sched_write_def h_def)
  have same: "y = x" if "y \<in> set d" "sc_id y = sc_id x" for y
    using that x(1) dist by (auto simp: distinct_map inj_on_def)
  have "sc_createdAt s = sc_createdAt x" using upd[OF nxt(1)] parse_schedule_fields(5)[OF nxt(2)] by simp
  then have "sc_createdAt (h y) = sc_createdAt y" if "y \<in> set d" for y
    using same[OF that] by (auto simp: h_def)
  then have sorted: "sched_list d1 = map h (sched_list d)"
    unfolding d1 sched_list_def by (intro sort_by_map) simp
  have find_h: "find (\<lambda>s. matchesNameAndTarget s name t) (map h L) = Some s"
    if "find (\<lambda>s. matchesNameAndTarget s name t) L = Some x" "set L \<subseteq> set d" for L
    using that nxt(4) same by (induction L) (auto simp: h_def split: if_splits)
  have "find (\<lambda>s. matchesNameAndTarget s name t) (sched_list d1) = Some s"
    unfolding sorted by (rule find_h[OF Some]) (simp add: sched_list_def)
  moreover have "sched_get (sc_id s) d1 = Some s"
  proof (rule sched_get_unique)
    have "sc_id s \<in> sc_id ` set d" using x(1) nxt(3) by simp
    then show "distinct (map sc_id d1)" using ids_write[of s d] dist nxt(5) by simp
    have "h x = s" by (simp add: h_def)
    then show "s \<in> set d1" using x(1) unfolding d1 by force
  qed
  ultimately show ?thesis ..
qed

text \<open>
  Creating a schedule by name twice for the same target leaves one schedule: the second call
  updates the schedule that the first one made or found, adds no file, and never has to start over.
\<close>

theorem createOrReplace_twice:
  assumes "distinct (map sc_id d)" "newId \<notin> sc_id ` set d" "trimOptionalName (ci_name input) = Some name"
    "createOrReplace env newId now input d = (Inr (Some s), d1)" "createOrReplace env newId' now' input d1 = (r, d2)"
  shows "map sc_id d2 = map sc_id d1 \<and> r \<noteq> Inr None \<and> (\<forall>s'. r = Inr (Some s') \<longrightarrow> sc_id s' = sc_id s)"
proof -
  obtain prompt k where p: "create_checks env input = Inr prompt" "nameTargetIdentityKey name (ci_target input) = Inr k"
    and r1: "upsert_round env newId name (ci_target input) (buildScheduleRecord env now input (Some name) prompt)
      (replace_updater env now input name prompt) d d = (Inr (Some s), d1)"
    using assms(3,4) by (auto simp: createOrReplace_def upsertByNameAndTarget_def split: sum.splits)
  have fs: "find (\<lambda>s. matchesNameAndTarget s name (ci_target input)) (sched_list d1) = Some s
      \<and> sched_get (sc_id s) d1 = Some s"
    by (rule round_finds[OF assms(1,2) _ r1]) (rule replace_fields)
  then have m: "matchesNameAndTarget s name (ci_target input)"
    using find_mem by fast
  have r2: "updateMatchedSchedule env (sc_id s) name (ci_target input) (replace_updater env now' input name prompt) d1 = (r, d2)"
    using assms(3,5) p fs by (simp add: createOrReplace_def upsertByNameAndTarget_def upsert_round_def)
  have "sc_id s \<in> sc_id ` set d1" using fs sched_get_Some by blast
  with update_matched_result[OF conjunct2[OF fs] m r2] show ?thesis
    using ids_write by (metis Inr_inject option.distinct(1) option.inject sum.distinct(1))
qed

lemma createOrReplace_twice_witness:
  "\<exists>s d1. createOrReplace demo_env ''s1'' 1000 ((demo_input (Every 60000))\<lparr>ci_name := Some '' beat ''\<rparr>) [] = (Inr (Some s), d1)
     \<and> sc_name s = Some ''beat''
     \<and> map sc_id (snd (createOrReplace demo_env ''s2'' 2000 ((demo_input (Every 60000))\<lparr>ci_name := Some '' beat ''\<rparr>) d1)) = [''s1'']"
proof -
  let ?i = "(demo_input (Every 60000))\<lparr>ci_name := Some '' beat ''\<rparr>"
  have "case createOrReplace demo_env ''s1'' 1000 ?i [] of
      (Inr (Some s), d1) \<Rightarrow> sc_name s = Some ''beat'' \<and> map sc_id d1 = [''s1''] | _ \<Rightarrow> False"
    by code_simp
  then obtain s d1 where s: "createOrReplace demo_env ''s1'' 1000 ?i [] = (Inr (Some s), d1)" "sc_name s = Some ''beat''"
    "map sc_id d1 = [''s1'']"
    by (auto split: prod.splits sum.splits option.splits)
  have n: "trimOptionalName (ci_name ?i) = Some ''beat''" by code_simp
  obtain r d2 where r: "createOrReplace demo_env ''s2'' 2000 ?i d1 = (r, d2)" by fastforce
  from createOrReplace_twice[OF _ _ n s(1) r] s r show ?thesis by simp
qed

section \<open>One execution\<close>

text \<open>
  For a new agent, the workspace of the run is archived afterwards exactly when it was created and
  either no agent came into being in it or the configuration does not keep it; and a run ends as
  ``target gone'' only because of its directory, before any workspace exists.
\<close>

theorem run_workspace_archived:
  assumes "sc_target s = New_agent c"
  shows "(snd (executeSchedule s w) = Some ws \<longleftrightarrow>
      rw_stat w = Is_directory \<and> (\<exists>cwd. rw_workspace w = Inr (ws, cwd))
      \<and> ((\<exists>m. rw_recorded w = Inl m) \<or> (\<exists>m. rw_create w = Inl m) \<or> nc_archiveOnFinish c \<noteq> Some False))
    \<and> ((\<exists>m. fst (executeSchedule s w) = Run_threw m True) \<longleftrightarrow> rw_stat w \<in> {Not_directory, No_entry})"
  using assms
  by (auto simp: executeSchedule_def execute_body_def assertNewAgentCwdDirectory_def shouldArchiveScheduleRunWorkspace_def
      split: path_stat.splits sum.splits prod.splits option.splits if_splits)

definition demo_config :: agent_config where
  "demo_config = \<lparr>nc_provider = ''p'', nc_cwd = ''/w'', nc_modeId = None, nc_model = None, nc_thinkingOptionId = None,
     nc_archiveOnFinish = Some False, nc_isolation = None, nc_title = None, nc_providerOptions = None,
     nc_featureValues = None, nc_systemPrompt = None, nc_mcpServers = None\<rparr>"

definition sched_demo_world :: sched_run_world where
  "sched_demo_world = \<lparr>rw_agent = None, rw_load = Inl [], rw_inFlight = False, rw_startRun = Inr (),
     rw_wait = Inr (False, False, Some ''ok''), rw_stat = Is_directory, rw_workspace = Inr (''ws'', ''/w2''),
     rw_recorded = Inr (), rw_create = Inr (''a'', None), rw_recordedAgent = Inr (), rw_run = Inr (False, [], ''out'')\<rparr>"

lemma run_workspace_archived_witness:
  "snd (executeSchedule (leap_schedule\<lparr>sc_target := New_agent demo_config\<rparr>) sched_demo_world) \<noteq> Some ''ws''
   \<and> snd (executeSchedule (leap_schedule\<lparr>sc_target := New_agent demo_config\<rparr>) (sched_demo_world\<lparr>rw_create := Inl ''busy''\<rparr>)) = Some ''ws''"
  using run_workspace_archived[of "leap_schedule\<lparr>sc_target := New_agent demo_config\<rparr>" demo_config]
  by (simp add: sched_demo_world_def demo_config_def)

end
