(* ===== verification/Timeline.thy ===== *)
theory Timeline
  imports Js_Json
begin

text \<open>
  The timeline of an agent: its items (\<open>protocol/src/agent-types.ts\<close>), the limits on their content
  (\<open>agent/agent-timeline-content.ts\<close>), the in-memory store with its pages
  (\<open>agent/agent-timeline-store.ts\<close>), and the projection that merges rows into display entries
  (\<open>agent/timeline-projection.ts\<close>). An optional property is an option, \<open>None\<close> being absence.
\<close>

section \<open>Items\<close>

datatype tool_detail =
    D_shell string "string option" "string option" "int option option"
  | D_plain_text "string option" "string option" "string option"
  | D_unknown json json
  | D_other string json

datatype tool_status = T_running | T_completed | T_failed | T_canceled

record tool_call =
  tc_callId :: string
  tc_name :: string
  tc_detail :: tool_detail
  tc_metadata :: "(string \<times> json) list option"
  tc_status :: tool_status
  tc_error :: "json option"
  tc_extra :: "(string \<times> json) list"

record plugin_item =
  pl_id :: string
  pl_pluginId :: string
  pl_kind :: string
  pl_version :: int
  pl_data :: json

datatype timeline_item =
    User_message string "string option" "string option"
  | Assistant_message string "string option"
  | Reasoning string
  | Tool_call tool_call
  | Todo json
  | Error_item string
  | Notification string string
  | Compaction json
  | Plugin_item plugin_item

definition timelineItemIdentity :: "timeline_item \<Rightarrow> string option" where
  "timelineItemIdentity item =
     (case item of
        Tool_call t \<Rightarrow> Some (tc_callId t)
      | Plugin_item p \<Rightarrow> Some (pl_pluginId p @ ''/'' @ pl_id p)
      | _ \<Rightarrow> None)"

section \<open>Limits on the content\<close>

definition TOOL_CALL_CONTENT_MAX_LENGTH :: nat where
  "TOOL_CALL_CONTENT_MAX_LENGTH = 64 * 1024"

definition PLUGIN_TIMELINE_DATA_MAX_BYTES :: nat where
  "PLUGIN_TIMELINE_DATA_MAX_BYTES = 64 * 1024"

definition utf8_length :: "string \<Rightarrow> nat" where
  "utf8_length s = sum_list (map (\<lambda>c. if of_char c < (128 :: nat) then 1 else 2) s)"

text \<open>\<open>True\<close> when the assertion passes.\<close>

definition assertPluginTimelineDataSize :: "json \<Rightarrow> bool" where
  "assertPluginTimelineDataSize data \<longleftrightarrow> utf8_length (stringify data) \<le> PLUGIN_TIMELINE_DATA_MAX_BYTES"

definition limit_text :: "string \<Rightarrow> string" where
  "limit_text s = (if length s \<le> TOOL_CALL_CONTENT_MAX_LENGTH then s else take TOOL_CALL_CONTENT_MAX_LENGTH s)"

definition limit_content :: "(string \<times> json) list \<Rightarrow> (string \<times> json) list" where
  "limit_content kvs =
     (case map_of kvs ''content'' of
        Some (JString s) \<Rightarrow> AList.update ''content'' (JString (limit_text s)) kvs
      | _ \<Rightarrow> kvs)"

definition limitFailedShellError :: "timeline_item \<Rightarrow> timeline_item" where
  "limitFailedShellError item =
     (case item of
        Tool_call t \<Rightarrow>
          (case (tc_detail t, tc_status t, tc_error t) of
             (D_shell _ _ _ _, T_failed, Some (JObject kvs)) \<Rightarrow>
               Tool_call (t\<lparr>tc_error := Some (JObject (limit_content kvs))\<rparr>)
           | _ \<Rightarrow> item)
      | _ \<Rightarrow> item)"

definition limitPlainText :: "timeline_item \<Rightarrow> timeline_item" where
  "limitPlainText item =
     (case item of
        Tool_call t \<Rightarrow>
          (case tc_detail t of
             D_plain_text l (Some s) i \<Rightarrow> Tool_call (t\<lparr>tc_detail := D_plain_text l (Some (limit_text s)) i\<rparr>)
           | _ \<Rightarrow> item)
      | _ \<Rightarrow> item)"

definition limit_shell_output :: "timeline_item \<Rightarrow> timeline_item" where
  "limit_shell_output item =
     (case item of
        Tool_call t \<Rightarrow>
          (case tc_detail t of
             D_shell cmd cwd (Some out) e \<Rightarrow> Tool_call (t\<lparr>tc_detail := D_shell cmd cwd (Some (limit_text out)) e\<rparr>)
           | _ \<Rightarrow> item)
      | _ \<Rightarrow> item)"

definition limitAgentTimelineItemContent :: "timeline_item \<Rightarrow> timeline_item" where
  "limitAgentTimelineItemContent item = limit_shell_output (limitPlainText (limitFailedShellError item))"

section \<open>The store\<close>

record timeline_row =
  tr_seq :: int
  tr_timestamp :: string
  tr_item :: timeline_item
  tr_turnId :: "string option"
  tr_providerMessageId :: "string option"

record timeline_state =
  ts_epoch :: string
  ts_rows :: "timeline_row list"
  ts_nextSeq :: int

text \<open>\<open>x ? { k: x } : {}\<close>: an empty string is left out.\<close>

definition truthy_opt :: "string option \<Rightarrow> string option" where
  "truthy_opt v = (case v of Some [] \<Rightarrow> None | _ \<Rightarrow> v)"

fun buildRowsFromItems :: "timeline_item list \<Rightarrow> int \<Rightarrow> string \<Rightarrow> timeline_row list" where
  "buildRowsFromItems [] nextSeq ts = []"
| "buildRowsFromItems (item # items) nextSeq ts =
     \<lparr>tr_seq = nextSeq, tr_timestamp = ts, tr_item = item, tr_turnId = None, tr_providerMessageId = None\<rparr>
     # buildRowsFromItems items (nextSeq + 1) ts"

record timeline_seed =
  sd_items :: "timeline_item list"
  sd_rows :: "timeline_row list"
  sd_epoch :: "string option"
  sd_nextSeq :: "int option"
  sd_timestamp :: string

text \<open>\<open>uuid\<close> is the random epoch.\<close>

definition timeline_initialize :: "string \<Rightarrow> timeline_seed \<Rightarrow> timeline_state" where
  "timeline_initialize uuid o' =
     (let start = (case sd_nextSeq o' of None \<Rightarrow> 1 | Some n \<Rightarrow> n);
          rows = (if sd_rows o' \<noteq> [] then sd_rows o' else buildRowsFromItems (sd_items o') start (sd_timestamp o'))
      in \<lparr>ts_epoch = (case sd_epoch o' of None \<Rightarrow> uuid | Some e \<Rightarrow> e), ts_rows = rows,
          ts_nextSeq = (case sd_nextSeq o' of
             Some n \<Rightarrow> n
           | None \<Rightarrow> if rows \<noteq> [] then tr_seq (last rows) + 1 else 1)\<rparr>)"

definition timeline_append ::
    "timeline_item \<Rightarrow> string \<Rightarrow> string option \<Rightarrow> string option \<Rightarrow> timeline_state \<Rightarrow> timeline_row \<times> timeline_state" where
  "timeline_append item ts turnId providerMessageId st =
     (let row = \<lparr>tr_seq = ts_nextSeq st, tr_timestamp = ts, tr_item = item, tr_turnId = truthy_opt turnId,
                 tr_providerMessageId = truthy_opt providerMessageId\<rparr>
      in (row, st\<lparr>ts_nextSeq := ts_nextSeq st + 1, ts_rows := ts_rows st @ [row]\<rparr>))"

definition submitted :: "string \<Rightarrow> timeline_row \<Rightarrow> bool" where
  "submitted clientMessageId row \<longleftrightarrow>
     (case tr_item row of User_message _ _ (Some c) \<Rightarrow> c = clientMessageId | _ \<Rightarrow> False)"

definition getSubmittedUserMessage :: "string \<Rightarrow> timeline_state \<Rightarrow> timeline_row option" where
  "getSubmittedUserMessage clientMessageId st = find (submitted clientMessageId) (ts_rows st)"

definition enrichSubmittedUserMessage ::
    "string \<Rightarrow> string \<Rightarrow> timeline_state \<Rightarrow> timeline_row option \<times> timeline_state" where
  "enrichSubmittedUserMessage clientMessageId providerMessageId st =
     (let f = (\<lambda>r. r\<lparr>tr_providerMessageId := Some providerMessageId\<rparr>) in
      (map_option f (getSubmittedUserMessage clientMessageId st),
       st\<lparr>ts_rows := replace_first (submitted clientMessageId) f (ts_rows st)\<rparr>))"

definition timeline_getLastItem :: "timeline_state \<Rightarrow> timeline_item option" where
  "timeline_getLastItem st = (if ts_rows st = [] then None else Some (tr_item (last (ts_rows st))))"

definition assistant_text :: "timeline_row \<Rightarrow> string option" where
  "assistant_text r = (case tr_item r of Assistant_message t _ \<Rightarrow> Some t | _ \<Rightarrow> None)"

text \<open>The loop from the last row backwards.\<close>

fun last_chunks :: "timeline_row list \<Rightarrow> string list \<Rightarrow> string list" where
  "last_chunks [] chunks = chunks"
| "last_chunks (r # rs) chunks =
     (case assistant_text r of
        None \<Rightarrow> if chunks \<noteq> [] then chunks else last_chunks rs chunks
      | Some t \<Rightarrow> last_chunks rs (chunks @ [t]))"

definition getLastAssistantMessage :: "timeline_state \<Rightarrow> string option" where
  "getLastAssistantMessage st =
     (let chunks = last_chunks (rev (ts_rows st)) [] in
      if chunks = [] then None else Some (concat (rev chunks)))"

subsection \<open>Pages of rows\<close>

datatype direction = Tail | Before | After

record timeline_cursor =
  cu_epoch :: string
  cu_seq :: int

record fetch_result =
  fr_reset :: bool
  fr_staleCursor :: bool
  fr_gap :: bool
  fr_hasOlder :: bool
  fr_hasNewer :: bool
  fr_rows :: "timeline_row list"

definition min_seq :: "timeline_row list \<Rightarrow> int" where
  "min_seq rows = (if rows = [] then 0 else tr_seq (hd rows))"

definition max_seq :: "timeline_row list \<Rightarrow> int" where
  "max_seq rows = (if rows = [] then 0 else tr_seq (last rows))"

text \<open>\<open>slice(length - limit)\<close> unless everything is selected; \<open>limit\<close> 0 selects everything.\<close>

definition tail_rows :: "nat \<Rightarrow> 'a list \<Rightarrow> 'a list" where
  "tail_rows limit rows = (if limit = 0 \<or> length rows \<le> limit then rows else drop (length rows - limit) rows)"

definition older_than_first :: "timeline_row list \<Rightarrow> timeline_row list \<Rightarrow> bool" where
  "older_than_first rows selected \<longleftrightarrow> selected \<noteq> [] \<and> min_seq rows < tr_seq (hd selected)"

definition fetchTail :: "timeline_state \<Rightarrow> nat \<Rightarrow> fetch_result" where
  "fetchTail st limit =
     (let selected = tail_rows limit (ts_rows st) in
      \<lparr>fr_reset = False, fr_staleCursor = False, fr_gap = False,
       fr_hasOlder = older_than_first (ts_rows st) selected, fr_hasNewer = False, fr_rows = selected\<rparr>)"

definition fetchAfter :: "timeline_state \<Rightarrow> nat \<Rightarrow> timeline_cursor option \<Rightarrow> fetch_result" where
  "fetchAfter st limit cursor =
     (let rows = ts_rows st; baseSeq = (case cursor of None \<Rightarrow> 0 | Some c \<Rightarrow> cu_seq c);
          rest = dropWhile (\<lambda>r. tr_seq r \<le> baseSeq) rows;
          selected = (if limit = 0 then rest else take limit rest) in
      if rest = [] then
        \<lparr>fr_reset = False, fr_staleCursor = False, fr_gap = False, fr_hasOlder = (min_seq rows \<le> baseSeq),
         fr_hasNewer = False, fr_rows = []\<rparr>
      else
        \<lparr>fr_reset = False, fr_staleCursor = False, fr_gap = False,
         fr_hasOlder = (min_seq rows < tr_seq (hd selected)),
         fr_hasNewer = (tr_seq (last selected) < max_seq rows), fr_rows = selected\<rparr>)"

definition fetchBefore :: "timeline_state \<Rightarrow> nat \<Rightarrow> timeline_cursor option \<Rightarrow> fetch_result" where
  "fetchBefore st limit cursor =
     (let rows = ts_rows st; beforeSeq = (case cursor of None \<Rightarrow> ts_nextSeq st | Some c \<Rightarrow> cu_seq c);
          bounded = takeWhile (\<lambda>r. tr_seq r < beforeSeq) rows;
          selected = tail_rows limit bounded in
      \<lparr>fr_reset = False, fr_staleCursor = False, fr_gap = False,
       fr_hasOlder = older_than_first rows selected,
       fr_hasNewer = list_ex (\<lambda>r. beforeSeq \<le> tr_seq r) rows, fr_rows = selected\<rparr>)"

definition fetchReset :: "timeline_state \<Rightarrow> nat \<Rightarrow> bool \<Rightarrow> bool \<Rightarrow> fetch_result" where
  "fetchReset st limit staleCursor gap =
     (let rows = tail_rows limit (ts_rows st) in
      \<lparr>fr_reset = True, fr_staleCursor = staleCursor, fr_gap = gap,
       fr_hasOlder = older_than_first (ts_rows st) rows, fr_hasNewer = False, fr_rows = rows\<rparr>)"

definition page_limit :: "int option \<Rightarrow> nat" where
  "page_limit requested = (case requested of None \<Rightarrow> 200 | Some n \<Rightarrow> nat n)"

definition timeline_fetch ::
    "timeline_state \<Rightarrow> direction \<Rightarrow> int option \<Rightarrow> timeline_cursor option \<Rightarrow> fetch_result" where
  "timeline_fetch st dir requested cursor =
     (let limit = page_limit requested; rows = ts_rows st in
      if (case cursor of None \<Rightarrow> False | Some c \<Rightarrow> cu_epoch c \<noteq> ts_epoch st) then fetchReset st limit True False
      else if dir = After \<and> rows \<noteq> [] \<and> (case cursor of None \<Rightarrow> False | Some c \<Rightarrow> cu_seq c < min_seq rows - 1)
        then fetchReset st limit False True
      else if rows = [] then
        \<lparr>fr_reset = False, fr_staleCursor = False, fr_gap = False, fr_hasOlder = False, fr_hasNewer = False,
         fr_rows = []\<rparr>
      else case dir of Tail \<Rightarrow> fetchTail st limit | After \<Rightarrow> fetchAfter st limit cursor
                     | Before \<Rightarrow> fetchBefore st limit cursor)"

text \<open>The agents of the store; \<open>requireState\<close> throws for an unknown one, here \<open>None\<close>.\<close>

type_synonym timeline_store = "string \<rightharpoonup> timeline_state"

definition timeline_has :: "timeline_store \<Rightarrow> string \<Rightarrow> bool" where
  "timeline_has s a \<longleftrightarrow> s a \<noteq> None"

definition store_initialize :: "string \<Rightarrow> timeline_seed \<Rightarrow> string \<Rightarrow> timeline_store \<Rightarrow> timeline_store" where
  "store_initialize uuid seed a s = s(a \<mapsto> timeline_initialize uuid seed)"

definition timeline_delete :: "string \<Rightarrow> timeline_store \<Rightarrow> timeline_store" where
  "timeline_delete a s = s(a := None)"

definition store_append ::
    "timeline_item \<Rightarrow> string \<Rightarrow> string option \<Rightarrow> string option \<Rightarrow> string \<Rightarrow> timeline_store
     \<Rightarrow> (timeline_row \<times> timeline_store) option" where
  "store_append item ts turnId providerMessageId a s =
     (case s a of
        None \<Rightarrow> None
      | Some st \<Rightarrow> (case timeline_append item ts turnId providerMessageId st of (row, st') \<Rightarrow> Some (row, s(a \<mapsto> st'))))"

end
