(* ===== verification/Timeline_Projection.thy ===== *)
theory Timeline_Projection
  imports Timeline
begin

text \<open>
  The projection of timeline rows into display entries and the windows and pages over it
  (\<open>agent/timeline-projection.ts\<close>). The code updates the last range of an entry in place; the entry
  it belonged to is replaced in the same statement, so ranges are values here.
\<close>

section \<open>Entries\<close>

datatype projection_kind = Assistant_merge | Reasoning_merge | Tool_lifecycle | Identity

type_synonym seq_range = "int \<times> int"

record entry =
  pe_item :: timeline_item
  pe_turnId :: "string option"
  pe_timestamp :: string
  pe_seqStart :: int
  pe_seqEnd :: int
  pe_ranges :: "seq_range list"
  pe_collapsed :: "projection_kind list"

definition appendSeqToRanges :: "seq_range list \<Rightarrow> int \<Rightarrow> seq_range list" where
  "appendSeqToRanges ranges seq =
     (if ranges = [] then [(seq, seq)]
      else case last ranges of (s, e) \<Rightarrow>
        if seq \<le> e + 1 then butlast ranges @ [(s, max e seq)] else ranges @ [(seq, seq)])"

function append_range :: "seq_range list \<Rightarrow> int \<Rightarrow> int \<Rightarrow> seq_range list" where
  "append_range merged seq e = (if seq \<le> e then append_range (appendSeqToRanges merged seq) (seq + 1) e else merged)"
  by pat_completeness auto
termination by (relation "measure (\<lambda>(merged, seq, e). nat (e + 1 - seq))") auto

declare append_range.simps [simp del]

definition mergeSeqRanges :: "seq_range list \<Rightarrow> seq_range list \<Rightarrow> seq_range list" where
  "mergeSeqRanges existing incoming = foldl (\<lambda>merged (s, e). append_range merged s e) existing incoming"

text \<open>\<open>{ ...a, ...b }\<close>\<close>

definition spread_props :: "(string \<times> json) list \<Rightarrow> (string \<times> json) list \<Rightarrow> (string \<times> json) list" where
  "spread_props a b = foldl (\<lambda>m (k, v). AList.update k v m) a b"

definition is_unknown :: "tool_detail \<Rightarrow> bool" where
  "is_unknown d \<longleftrightarrow> (case d of D_unknown _ _ \<Rightarrow> True | _ \<Rightarrow> False)"

definition mergeToolCallDetail :: "tool_detail \<Rightarrow> tool_detail \<Rightarrow> tool_detail" where
  "mergeToolCallDetail existing incoming =
     (if is_unknown existing \<and> \<not> is_unknown incoming then incoming
      else if is_unknown incoming \<and> \<not> is_unknown existing then existing
      else incoming)"

definition mergeToolCallItems :: "tool_call \<Rightarrow> tool_call \<Rightarrow> tool_call" where
  "mergeToolCallItems existing incoming =
     \<lparr>tc_callId = tc_callId incoming, tc_name = tc_name incoming,
      tc_detail = mergeToolCallDetail (tc_detail existing) (tc_detail incoming),
      tc_metadata =
        (case (tc_metadata existing, tc_metadata incoming) of
           (None, None) \<Rightarrow> None
         | (a, b) \<Rightarrow> Some (spread_props (case a of None \<Rightarrow> [] | Some m \<Rightarrow> m) (case b of None \<Rightarrow> [] | Some m \<Rightarrow> m))),
      tc_status = tc_status incoming,
      tc_error =
        (case tc_status incoming of
           T_failed \<Rightarrow> tc_error incoming
         | T_completed \<Rightarrow> Some JNull
         | T_canceled \<Rightarrow> Some JNull
         | T_running \<Rightarrow> (case tc_error incoming of None \<Rightarrow> tc_error existing | Some e \<Rightarrow> Some e)),
      tc_extra = spread_props (tc_extra existing) (tc_extra incoming)\<rparr>"

definition canonical_entry :: "timeline_row \<Rightarrow> entry" where
  "canonical_entry row =
     \<lparr>pe_item = tr_item row, pe_turnId = truthy_opt (tr_turnId row), pe_timestamp = tr_timestamp row,
      pe_seqStart = tr_seq row, pe_seqEnd = tr_seq row, pe_ranges = [(tr_seq row, tr_seq row)], pe_collapsed = []\<rparr>"

definition makeCanonicalEntries :: "timeline_row list \<Rightarrow> entry list" where
  "makeCanonicalEntries rows = map canonical_entry rows"

section \<open>Merging\<close>

definition with_kind :: "projection_kind \<Rightarrow> projection_kind list \<Rightarrow> projection_kind list" where
  "with_kind k ks = (if k \<in> set ks then ks else ks @ [k])"

definition mergeIdentityEntries :: "entry \<Rightarrow> entry \<Rightarrow> entry option" where
  "mergeIdentityEntries existing e =
     (case (pe_item existing, pe_item e) of
        (Tool_call t, Tool_call u) \<Rightarrow>
          if pe_turnId existing \<noteq> pe_turnId e then None
          else Some (existing\<lparr>pe_item := Tool_call (mergeToolCallItems t u), pe_timestamp := pe_timestamp e,
                      pe_seqEnd := max (pe_seqEnd existing) (pe_seqEnd e),
                      pe_ranges := mergeSeqRanges (pe_ranges existing) (pe_ranges e),
                      pe_collapsed := with_kind Tool_lifecycle (pe_collapsed existing)\<rparr>)
      | (Plugin_item p, Plugin_item q) \<Rightarrow>
          Some (e\<lparr>pe_seqStart := pe_seqStart existing,
                  pe_ranges := mergeSeqRanges (pe_ranges existing) (pe_ranges e),
                  pe_collapsed := with_kind Identity (pe_collapsed existing)\<rparr>)
      | _ \<Rightarrow> None)"

definition collapse_step :: "entry list \<times> (string \<times> nat) list \<Rightarrow> entry \<Rightarrow> entry list \<times> (string \<times> nat) list" where
  "collapse_step acc e =
     (case acc of (out, idx) \<Rightarrow>
        (case timelineItemIdentity (pe_item e) of
           None \<Rightarrow> (out @ [e], idx)
         | Some i \<Rightarrow>
             (case map_of idx i of
                None \<Rightarrow> (out @ [e], AList.update i (length out) idx)
              | Some n \<Rightarrow>
                  (case (if n < length out then mergeIdentityEntries (out ! n) e else None) of
                     None \<Rightarrow> (out @ [e], AList.update i (length out) idx)
                   | Some merged \<Rightarrow> (out[n := merged], idx)))))"

definition collapseByIdentity :: "entry list \<Rightarrow> entry list" where
  "collapseByIdentity es = fst (foldl collapse_step ([], []) es)"

text \<open>The two chunk merges share their loop: the last entry of the output absorbs the next one or not.\<close>

definition merge_step :: "(entry \<Rightarrow> entry \<Rightarrow> entry option) \<Rightarrow> entry list \<Rightarrow> entry \<Rightarrow> entry list" where
  "merge_step merge out e =
     (if out = [] then [e]
      else case merge (last out) e of None \<Rightarrow> out @ [e] | Some m \<Rightarrow> butlast out @ [m])"

definition merge_chunks :: "(entry \<Rightarrow> entry \<Rightarrow> entry option) \<Rightarrow> entry list \<Rightarrow> entry list" where
  "merge_chunks merge es = foldl (merge_step merge) [] es"

definition merged_entry :: "entry \<Rightarrow> entry \<Rightarrow> timeline_item \<Rightarrow> projection_kind \<Rightarrow> entry" where
  "merged_entry previous e item k =
     previous\<lparr>pe_item := item, pe_timestamp := pe_timestamp e, pe_seqEnd := pe_seqEnd e,
       pe_ranges := mergeSeqRanges (pe_ranges previous) (pe_ranges e),
       pe_collapsed := set_of (pe_collapsed previous @ pe_collapsed e @ [k])\<rparr>"

definition adjacent :: "entry \<Rightarrow> entry \<Rightarrow> bool" where
  "adjacent previous e \<longleftrightarrow> pe_seqEnd previous + 1 = pe_seqStart e \<and> pe_turnId previous = pe_turnId e"

definition merge_reasoning :: "entry \<Rightarrow> entry \<Rightarrow> entry option" where
  "merge_reasoning previous e =
     (case (pe_item previous, pe_item e) of
        (Reasoning a, Reasoning b) \<Rightarrow>
          if adjacent previous e then Some (merged_entry previous e (Reasoning (a @ b)) Reasoning_merge) else None
      | _ \<Rightarrow> None)"

definition mergeReasoningChunks :: "entry list \<Rightarrow> entry list" where
  "mergeReasoningChunks es = merge_chunks merge_reasoning es"

definition merge_assistant :: "entry \<Rightarrow> entry \<Rightarrow> entry option" where
  "merge_assistant previous e =
     (case (pe_item previous, pe_item e) of
        (Assistant_message a i, Assistant_message b j) \<Rightarrow>
          if \<not> adjacent previous e then None
          else if j \<noteq> None \<and> i \<noteq> j then None
          else Some (merged_entry previous e (Assistant_message (a @ b) (truthy_opt i)) Assistant_merge)
      | _ \<Rightarrow> None)"

definition mergeAssistantChunks :: "entry list \<Rightarrow> entry list" where
  "mergeAssistantChunks es = merge_chunks merge_assistant es"

definition projected :: "timeline_row list \<Rightarrow> entry list" where
  "projected rows = mergeReasoningChunks (mergeAssistantChunks (collapseByIdentity (makeCanonicalEntries rows)))"

definition projectTimelineRows :: "timeline_row list \<Rightarrow> bool \<Rightarrow> entry list" where
  "projectTimelineRows rows canonical = (if canonical then makeCanonicalEntries rows else projected rows)"

section \<open>The window of a projected limit\<close>

text \<open>\<open>None\<close> stands for the infinite bounds of an empty list.\<close>

definition computeWindowBounds :: "entry list \<Rightarrow> (int \<times> int) option" where
  "computeWindowBounds es =
     foldl (\<lambda>acc e. case acc of
              None \<Rightarrow> Some (pe_seqStart e, pe_seqEnd e)
            | Some (lo, hi) \<Rightarrow> Some (min lo (pe_seqStart e), max hi (pe_seqEnd e))) None es"

definition overlapping :: "entry list \<Rightarrow> (int \<times> int) option \<Rightarrow> entry list" where
  "overlapping es bounds =
     (case bounds of
        None \<Rightarrow> []
      | Some (lo, hi) \<Rightarrow> filter (\<lambda>e. pe_seqStart e \<le> hi \<and> lo \<le> pe_seqEnd e) es)"

fun expand_window ::
    "nat \<Rightarrow> entry list \<Rightarrow> entry list \<Rightarrow> (int \<times> int) option \<Rightarrow> entry list \<times> (int \<times> int) option" where
  "expand_window 0 es expanded bounds = (expanded, bounds)"
| "expand_window (Suc n) es expanded bounds =
     (let ov = overlapping es bounds; nb = computeWindowBounds ov in
      if length ov = length expanded \<and> nb = bounds then (ov, bounds)
      else expand_window n es ov nb)"

record window_selection =
  ws_entries :: "entry list"
  ws_rows :: "timeline_row list"
  ws_bounds :: "(int \<times> int) option"

definition limited :: "direction \<Rightarrow> nat \<Rightarrow> 'a list \<Rightarrow> 'a list" where
  "limited dir limit es =
     (if limit = 0 \<or> length es \<le> limit then es
      else if dir = After then take limit es else drop (length es - limit) es)"

definition selectTimelineWindowByProjectedLimit :: "timeline_row list \<Rightarrow> direction \<Rightarrow> int \<Rightarrow> window_selection" where
  "selectTimelineWindowByProjectedLimit rows dir requested =
     (let all = projected rows; es = limited dir (nat requested) all in
      if es = [] then \<lparr>ws_entries = [], ws_rows = [], ws_bounds = None\<rparr>
      else case expand_window (length all + 1) all es (computeWindowBounds es) of
        (expanded, bounds) \<Rightarrow>
          \<lparr>ws_entries = expanded,
           ws_rows = (case bounds of None \<Rightarrow> [] | Some (lo, hi) \<Rightarrow> filter (\<lambda>r. lo \<le> tr_seq r \<and> tr_seq r \<le> hi) rows),
           ws_bounds = bounds\<rparr>)"

section \<open>Pages of entries\<close>

definition getTimelineBounds :: "timeline_row list \<Rightarrow> (int \<times> int) option" where
  "getTimelineBounds rows = (if rows = [] then None else Some (tr_seq (hd rows), tr_seq (last rows)))"

fun first_in_ranges :: "seq_range list \<Rightarrow> int \<Rightarrow> int \<Rightarrow> int option" where
  "first_in_ranges [] startSeq endSeq = None"
| "first_in_ranges ((s, e) # rs) startSeq endSeq =
     (if max s startSeq \<le> min e endSeq then Some (max s startSeq) else first_in_ranges rs startSeq endSeq)"

definition firstSourceSeqInRange :: "entry \<Rightarrow> int \<Rightarrow> int \<Rightarrow> int option" where
  "firstSourceSeqInRange e startSeq endSeq = first_in_ranges (pe_ranges e) startSeq endSeq"

record candidate =
  cd_entry :: entry
  cd_index :: nat
  cd_first :: int

definition candidates :: "entry list \<Rightarrow> int \<Rightarrow> int \<Rightarrow> candidate list" where
  "candidates es startSeq maxSeq =
     List.map_filter (\<lambda>(i, e). map_option (\<lambda>f. \<lparr>cd_entry = e, cd_index = i, cd_first = f\<rparr>)
       (firstSourceSeqInRange e startSeq maxSeq)) (enumerate 0 es)"

definition candidate_le :: "candidate \<Rightarrow> candidate \<Rightarrow> bool" where
  "candidate_le a b \<longleftrightarrow> cd_first a < cd_first b \<or> cd_first a = cd_first b \<and> cd_index a \<le> cd_index b"

text \<open>The scan over the rows: \<open>endSeq\<close> advances while the rows follow without a gap and a range covers them.\<close>

fun covered_end :: "timeline_row list \<Rightarrow> int \<Rightarrow> int \<Rightarrow> seq_range list \<Rightarrow> int \<Rightarrow> int" where
  "covered_end [] startSeq maxSeq ranges endSeq = endSeq"
| "covered_end (r # rs) startSeq maxSeq ranges endSeq =
     (if tr_seq r < startSeq then covered_end rs startSeq maxSeq ranges endSeq
      else if maxSeq < tr_seq r \<or> tr_seq r \<noteq> endSeq + 1 then endSeq
      else case dropWhile (\<lambda>(s, e). e < tr_seq r) ranges of
             [] \<Rightarrow> endSeq
           | (s, e) # rest \<Rightarrow>
               if tr_seq r < s \<or> e < tr_seq r then endSeq
               else covered_end rs startSeq maxSeq ((s, e) # rest) (tr_seq r))"

definition range_le :: "seq_range \<Rightarrow> seq_range \<Rightarrow> bool" where
  "range_le a b \<longleftrightarrow> fst a < fst b \<or> fst a = fst b \<and> snd a \<le> snd b"

definition selectProjectedEntriesAfter ::
    "entry list \<Rightarrow> timeline_row list \<Rightarrow> int \<Rightarrow> int \<Rightarrow> nat \<Rightarrow> entry list \<times> int option" where
  "selectProjectedEntriesAfter es rows startSeq maxSeq limit =
     (let eligible = sort_by candidate_le (candidates es startSeq maxSeq);
          chosen = (if limit = 0 then eligible else take limit eligible);
          selected = map cd_entry (sort_by (\<lambda>a b. cd_index a \<le> cd_index b) chosen) in
      if selected = [] then ([], None)
      else let ranges = sort_by range_le (concat (map pe_ranges selected));
               endSeq = covered_end rows startSeq maxSeq ranges (startSeq - 1)
           in (selected, if startSeq \<le> endSeq then Some endSeq else None))"

definition selectProjectedEntriesBefore :: "entry list \<Rightarrow> int \<Rightarrow> nat \<Rightarrow> entry list \<times> int option \<times> bool" where
  "selectProjectedEntriesBefore es endSeq limit =
     (let eligible = filter (\<lambda>e. pe_seqStart e \<le> endSeq) es; selected = tail_rows limit eligible in
      (selected, if selected = [] then None else Some (pe_seqStart (hd selected)),
       length selected < length eligible))"

record page_selection =
  pg_entries :: "entry list"
  pg_startSeq :: "int option"
  pg_endSeq :: "int option"
  pg_hasOlder :: bool
  pg_hasNewer :: bool

definition empty_page :: "bool \<Rightarrow> bool \<Rightarrow> page_selection" where
  "empty_page older newer =
     \<lparr>pg_entries = [], pg_startSeq = None, pg_endSeq = None, pg_hasOlder = older, pg_hasNewer = newer\<rparr>"

definition selectProjectedTimelinePage ::
    "timeline_row list \<Rightarrow> (int \<times> int) option \<Rightarrow> direction \<Rightarrow> int option \<Rightarrow> int option \<Rightarrow> page_selection" where
  "selectProjectedTimelinePage rows given dir cursorSeq requested =
     (let limit = (case requested of None \<Rightarrow> 0 | Some n \<Rightarrow> nat n); all = projected rows in
      case (case given of Some b \<Rightarrow> Some b | None \<Rightarrow> getTimelineBounds rows) of
        None \<Rightarrow> empty_page False False
      | Some (lo, hi) \<Rightarrow>
          if all = [] then
            (case dir of
               After \<Rightarrow> (let c = (case cursorSeq of None \<Rightarrow> lo - 1 | Some c \<Rightarrow> c) in empty_page (lo \<le> c) (c < hi))
             | Before \<Rightarrow> (let c = (case cursorSeq of None \<Rightarrow> hi + 1 | Some c \<Rightarrow> c) in empty_page (lo < c) (c \<le> hi))
             | Tail \<Rightarrow> empty_page False False)
          else
            (case dir of
               Tail \<Rightarrow>
                 (let w = selectTimelineWindowByProjectedLimit rows Tail (int limit) in
                  \<lparr>pg_entries = ws_entries w, pg_startSeq = map_option fst (ws_bounds w),
                   pg_endSeq = map_option snd (ws_bounds w),
                   pg_hasOlder = (case ws_bounds w of None \<Rightarrow> False | Some (l, _) \<Rightarrow> lo < l), pg_hasNewer = False\<rparr>)
             | After \<Rightarrow>
                 (let c = (case cursorSeq of None \<Rightarrow> lo - 1 | Some c \<Rightarrow> c); startSeq = max lo (c + 1) in
                  case selectProjectedEntriesAfter all rows startSeq hi limit of
                    (es, endSeq) \<Rightarrow>
                      \<lparr>pg_entries = es, pg_startSeq = (if endSeq = None then None else Some startSeq),
                       pg_endSeq = endSeq, pg_hasOlder = (lo < startSeq),
                       pg_hasNewer = (case endSeq of None \<Rightarrow> False | Some e \<Rightarrow> e < hi)\<rparr>)
             | Before \<Rightarrow>
                 (let c = (case cursorSeq of None \<Rightarrow> hi + 1 | Some c \<Rightarrow> c); endSeq = min hi (c - 1) in
                  if endSeq < lo then empty_page False (endSeq < hi)
                  else case selectProjectedEntriesBefore all endSeq limit of
                    (es, startSeq, older) \<Rightarrow>
                      \<lparr>pg_entries = es, pg_startSeq = startSeq, pg_endSeq = Some endSeq, pg_hasOlder = older,
                       pg_hasNewer = (endSeq < hi)\<rparr>)))"

definition item_rows :: "timeline_item list \<Rightarrow> timeline_row list" where
  "item_rows items = map (\<lambda>(i, item). \<lparr>tr_seq = int i + 1, tr_timestamp = [], tr_item = item, tr_turnId = None,
     tr_providerMessageId = None\<rparr>) (enumerate 0 items)"

definition selectItemsByProjectedLimit ::
    "timeline_item list \<Rightarrow> direction \<Rightarrow> int \<Rightarrow> timeline_item list \<times> nat \<times> nat" where
  "selectItemsByProjectedLimit items dir requested =
     (let rows = item_rows items; w = selectTimelineWindowByProjectedLimit rows dir requested in
      (map tr_item (ws_rows w), length (projected rows), length (ws_entries w)))"

end
