(* ===== verification/Timeline_Spec.thy ===== *)
theory Timeline_Spec
  imports Timeline_Projection
begin

text \<open>
  Timelines with increasing sequence numbers: pages of the store split the rows where they say they
  do, the projection places every row in exactly one entry, the window expansion reaches a closed
  window within its iterations, and forward paging always advances.
\<close>

section \<open>Sequence numbers of the store\<close>

definition rows_increasing :: "timeline_row list \<Rightarrow> bool" where
  "rows_increasing rows \<longleftrightarrow> sorted_wrt (<) (map tr_seq rows)"

definition timeline_wf :: "timeline_state \<Rightarrow> bool" where
  "timeline_wf st \<longleftrightarrow> rows_increasing (ts_rows st) \<and> (\<forall>r \<in> set (ts_rows st). tr_seq r < ts_nextSeq st)"

lemma append_wf: "timeline_wf st \<Longrightarrow> timeline_wf (snd (timeline_append item ts turnId pid st))"
  by (auto simp: timeline_wf_def timeline_append_def Let_def rows_increasing_def sorted_wrt_append)

lemma enrich_wf:
  assumes "timeline_wf st"
  shows "timeline_wf (snd (enrichSubmittedUserMessage c p st))"
proof -
  let ?rows = "replace_first (submitted c) (\<lambda>r. r\<lparr>tr_providerMessageId := Some p\<rparr>) (ts_rows st)"
  have m: "map tr_seq ?rows = map tr_seq (ts_rows st)" by (rule map_replace_first) simp
  then have "tr_seq ` set ?rows = tr_seq ` set (ts_rows st)" by (metis list.set_map)
  then have "tr_seq r < ts_nextSeq st" if "r \<in> set ?rows" for r
    using that assms unfolding timeline_wf_def by (metis (no_types, lifting) imageE image_eqI)
  with m assms show ?thesis
    by (simp add: timeline_wf_def rows_increasing_def enrichSubmittedUserMessage_def Let_def)
qed

lemma build_rows_seqs: "map tr_seq (buildRowsFromItems items n ts) = map (\<lambda>i. n + int i) [0..<length items]"
proof (induction items arbitrary: n)
  case (Cons a items)
  have "map (\<lambda>i. n + 1 + int i) [0..<length items] = map (\<lambda>i. n + int i) (map Suc [0..<length items])"
    by simp
  then show ?case using Cons by (simp only: buildRowsFromItems.simps list.map length_Cons upt_conv_Cons map_Suc_upt) simp
qed simp

text \<open>The seeds of the callers: rows that increase below the next number, or items without a next number.\<close>

definition seed_ok :: "timeline_seed \<Rightarrow> bool" where
  "seed_ok s \<longleftrightarrow>
     rows_increasing (sd_rows s)
     \<and> (\<forall>n. sd_nextSeq s = Some n \<longrightarrow> (\<forall>r \<in> set (sd_rows s). tr_seq r < n) \<and> (sd_rows s = [] \<longrightarrow> sd_items s = []))"

lemma increasing_last: "rows_increasing rows \<Longrightarrow> r \<in> set rows \<Longrightarrow> tr_seq r \<le> tr_seq (last rows)"
  by (induction rows) (auto simp: rows_increasing_def less_imp_le)

lemma increasing_first: "rows_increasing rows \<Longrightarrow> r \<in> set rows \<Longrightarrow> tr_seq (hd rows) \<le> tr_seq r"
  by (cases rows) (auto simp: rows_increasing_def less_imp_le)

lemma initialize_wf:
  assumes "seed_ok s"
  shows "timeline_wf (timeline_initialize uuid s)"
proof -
  have b: "rows_increasing (buildRowsFromItems items n ts)" for items n ts
    unfolding rows_increasing_def build_rows_seqs by (simp add: sorted_wrt_map sorted_wrt_iff_nth_less)
  show ?thesis
  proof (cases "sd_rows s = []")
    case True
    then show ?thesis
      using assms b increasing_last[OF b]
      by (fastforce simp: timeline_wf_def timeline_initialize_def Let_def seed_ok_def split: option.splits)
  next
    case False
    then show ?thesis
      using assms increasing_last[of "sd_rows s"]
      by (fastforce simp: timeline_wf_def timeline_initialize_def Let_def seed_ok_def split: option.splits)
  qed
qed

section \<open>Ranges\<close>

definition range_seqs :: "seq_range list \<Rightarrow> int list" where
  "range_seqs rs = concat (map (\<lambda>(s, e). [s..e]) rs)"

definition ranges_ok :: "seq_range list \<Rightarrow> bool" where
  "ranges_ok rs \<longleftrightarrow> rs \<noteq> [] \<and> (\<forall>(s, e) \<in> set rs. s \<le> e) \<and> sorted_wrt (<) (range_seqs rs)"

lemma range_seqs_simps [simp]:
  "range_seqs [] = []" "range_seqs (r # rs) = [fst r..snd r] @ range_seqs rs"
  "range_seqs (rs @ qs) = range_seqs rs @ range_seqs qs"
  by (auto simp: range_seqs_def split: prod.splits)

lemma append_seq:
  assumes "ranges_ok rs" "\<forall>x \<in> set (range_seqs rs). x < n"
  shows "range_seqs (appendSeqToRanges rs n) = range_seqs rs @ [n] \<and> ranges_ok (appendSeqToRanges rs n)"
proof -
  obtain qs s e where rs: "rs = qs @ [(s, e)]" using assms(1) by (cases rs rule: rev_cases) (auto simp: ranges_ok_def)
  have se: "s \<le> e" "e < n" using assms rs by (auto simp: ranges_ok_def)
  have "range_seqs (appendSeqToRanges rs n) = range_seqs rs @ [n]"
  proof (cases "n = e + 1")
    case True
    then show ?thesis using se rs upto_rec2[of s n] by (simp add: appendSeqToRanges_def)
  next
    case False
    then show ?thesis using se rs by (simp add: appendSeqToRanges_def)
  qed
  moreover have "sorted_wrt (<) (range_seqs rs @ [n])" using assms by (simp add: sorted_wrt_append ranges_ok_def)
  ultimately show ?thesis
    using se rs assms(1) by (auto simp: ranges_ok_def appendSeqToRanges_def split: if_splits)
qed

lemma append_range_seqs:
  assumes "ranges_ok rs" "\<forall>x \<in> set (range_seqs rs). x < s"
  shows "range_seqs (append_range rs s e) = range_seqs rs @ [s..e] \<and> ranges_ok (append_range rs s e)"
  using assms
proof (induction rs s e rule: append_range.induct)
  case (1 rs s e)
  show ?case
  proof (cases "s \<le> e")
    case True
    note a = append_seq[OF "1.prems"]
    then have "\<forall>x \<in> set (range_seqs (appendSeqToRanges rs s)). x < s + 1" using "1.prems"(2) by auto
    then have "range_seqs (append_range (appendSeqToRanges rs s) (s + 1) e) = range_seqs (appendSeqToRanges rs s) @ [s + 1..e]
        \<and> ranges_ok (append_range (appendSeqToRanges rs s) (s + 1) e)"
      using "1.IH"[OF True] a by blast
    then show ?thesis using True a upto_rec1[OF True] by (subst (1 2) append_range.simps) simp
  next
    case False
    then show ?thesis using "1.prems" by (subst (1 2) append_range.simps) simp
  qed
qed

lemma merge_ranges:
  assumes "ranges_ok rs" "\<forall>(s, e) \<in> set qs. s \<le> e" "sorted_wrt (<) (range_seqs rs @ range_seqs qs)"
  shows "range_seqs (mergeSeqRanges rs qs) = range_seqs rs @ range_seqs qs \<and> ranges_ok (mergeSeqRanges rs qs)"
  using assms
proof (induction qs arbitrary: rs)
  case Nil
  then show ?case by (simp add: mergeSeqRanges_def)
next
  case (Cons q qs)
  obtain s e where q: "q = (s, e)" by (cases q)
  have se: "s \<le> e" using Cons.prems(2) q by simp
  have "\<forall>x \<in> set (range_seqs rs). x < s"
    using Cons.prems(3) se q by (auto simp: sorted_wrt_append)
  note a = append_range_seqs[OF Cons.prems(1) this, of e]
  have "range_seqs (mergeSeqRanges (append_range rs s e) qs) = range_seqs (append_range rs s e) @ range_seqs qs
    \<and> ranges_ok (mergeSeqRanges (append_range rs s e) qs)"
    using Cons.prems a q by (intro Cons.IH) auto
  then show ?case using a q by (simp add: mergeSeqRanges_def)
qed

section \<open>Entries\<close>

definition entry_seqs :: "entry \<Rightarrow> int list" where
  "entry_seqs e = range_seqs (pe_ranges e)"

definition entry_ok :: "entry \<Rightarrow> bool" where
  "entry_ok e \<longleftrightarrow> ranges_ok (pe_ranges e) \<and> (\<forall>x \<in> set (entry_seqs e). pe_seqStart e \<le> x \<and> x \<le> pe_seqEnd e)
     \<and> pe_seqStart e \<le> pe_seqEnd e"

definition all_seqs :: "entry list \<Rightarrow> int multiset" where
  "all_seqs es = mset (concat (map entry_seqs es))"

lemma all_seqs_simps [simp]: "all_seqs [] = {#}" "all_seqs (e # es) = mset (entry_seqs e) + all_seqs es"
  "all_seqs (es @ fs) = all_seqs es + all_seqs fs"
  by (simp_all add: all_seqs_def)

lemma all_seqs_update:
  "n < length out \<Longrightarrow> mset (entry_seqs m) = mset (entry_seqs (out ! n)) + S \<Longrightarrow> all_seqs (out[n := m]) = all_seqs out + S"
proof (induction out arbitrary: n)
  case (Cons a out)
  then show ?case by (cases n) auto
qed simp

lemma entry_ranges_nonempty: "ranges_ok rs \<Longrightarrow> range_seqs rs \<noteq> []"
  by (cases rs) (auto simp: ranges_ok_def)

text \<open>A merge of two entries keeps all sequence numbers when the second follows the first.\<close>

lemma merged_ok:
  assumes "entry_ok a" "entry_ok b" "\<forall>x \<in> set (entry_seqs a). \<forall>y \<in> set (entry_seqs b). x < y"
  shows "range_seqs (mergeSeqRanges (pe_ranges a) (pe_ranges b)) = entry_seqs a @ entry_seqs b
    \<and> ranges_ok (mergeSeqRanges (pe_ranges a) (pe_ranges b))"
  using assms merge_ranges[of "pe_ranges a" "pe_ranges b"]
  by (auto simp: entry_ok_def entry_seqs_def ranges_ok_def sorted_wrt_append)

lemma merge_identity_ok:
  assumes "mergeIdentityEntries a b = Some m" "entry_ok a" "entry_ok b"
    "\<forall>x \<in> set (entry_seqs a). \<forall>y \<in> set (entry_seqs b). x < y" "pe_seqStart a \<le> pe_seqStart b" "pe_seqEnd a \<le> pe_seqEnd b"
  shows "entry_ok m \<and> entry_seqs m = entry_seqs a @ entry_seqs b \<and> pe_seqEnd m = pe_seqEnd b"
proof -
  have m: "pe_ranges m = mergeSeqRanges (pe_ranges a) (pe_ranges b)" "pe_seqStart m = pe_seqStart a" "pe_seqEnd m = pe_seqEnd b"
    using assms(1,6) by (auto simp: mergeIdentityEntries_def split: timeline_item.splits if_splits)
  have "pe_seqStart a \<le> x \<and> x \<le> pe_seqEnd b" if "x \<in> set (entry_seqs a @ entry_seqs b)" for x
  proof -
    have "pe_seqStart a \<le> x \<and> x \<le> pe_seqEnd a \<or> pe_seqStart b \<le> x \<and> x \<le> pe_seqEnd b"
      using that assms(2,3) by (auto simp: entry_ok_def)
    then show ?thesis using assms(5,6) by linarith
  qed
  moreover have "pe_seqStart a \<le> pe_seqEnd b" using assms(2,6) by (simp add: entry_ok_def)
  ultimately show ?thesis
    using m merged_ok[OF assms(2-4)] unfolding entry_ok_def entry_seqs_def by simp
qed

lemma merged_entry_ok:
  assumes "adjacent a b" "entry_ok a" "entry_ok b"
  shows "entry_ok (merged_entry a b i k) \<and> entry_seqs (merged_entry a b i k) = entry_seqs a @ entry_seqs b"
proof -
  have "\<forall>x \<in> set (entry_seqs a). \<forall>y \<in> set (entry_seqs b). x < y"
    using assms unfolding adjacent_def entry_ok_def by force
  from merged_ok[OF assms(2,3) this] assms show ?thesis
    by (auto simp: merged_entry_def entry_ok_def entry_seqs_def adjacent_def)
qed

text \<open>The contract of a chunk merge and its loop.\<close>

locale chunk_merge =
  fixes merge :: "entry \<Rightarrow> entry \<Rightarrow> entry option"
  assumes merge_ok: "merge a b = Some m \<Longrightarrow> entry_ok a \<Longrightarrow> entry_ok b \<Longrightarrow>
    entry_ok m \<and> entry_seqs m = entry_seqs a @ entry_seqs b"
begin

lemma merge_step_ok:
  assumes "list_all entry_ok out" "entry_ok e"
  shows "list_all entry_ok (merge_step merge out e) \<and> all_seqs (merge_step merge out e) = all_seqs out + mset (entry_seqs e)"
proof (cases out rule: rev_cases)
  case (snoc bs b)
  then show ?thesis
    using assms merge_ok[of b e] by (auto simp: merge_step_def split: option.split)
qed (use assms in \<open>simp add: merge_step_def\<close>)

lemma merge_chunks_ok:
  assumes "list_all entry_ok es"
  shows "list_all entry_ok (merge_chunks merge es) \<and> all_seqs (merge_chunks merge es) = all_seqs es"
  using assms
proof (induction es rule: rev_induct)
  case (snoc e es)
  then show ?case using merge_step_ok[of "merge_chunks merge es" e] by (simp add: merge_chunks_def)
qed (simp add: merge_chunks_def)

end

interpretation reasoning: chunk_merge merge_reasoning
  by unfold_locales (auto simp: merge_reasoning_def merged_entry_ok split: timeline_item.splits if_splits)

interpretation assistant: chunk_merge merge_assistant
  by unfold_locales (auto simp: merge_assistant_def merged_entry_ok split: timeline_item.splits if_splits)

section \<open>The projection\<close>

definition ends_below :: "int \<Rightarrow> entry list \<Rightarrow> bool" where
  "ends_below n out \<longleftrightarrow> (\<forall>e \<in> set out. pe_seqEnd e < n)"

lemma canonical_ok: "entry_ok (canonical_entry r) \<and> entry_seqs (canonical_entry r) = [tr_seq r]"
  by (simp add: canonical_entry_def entry_ok_def entry_seqs_def ranges_ok_def)

lemma collapse_step_ok:
  assumes "list_all entry_ok out" "ends_below (tr_seq r) out" "collapse_step (out, idx) (canonical_entry r) = (out', idx')"
  shows "list_all entry_ok out' \<and> (\<forall>n > tr_seq r. ends_below n out') \<and> all_seqs out' = all_seqs out + {#tr_seq r#}"
proof -
  note c = canonical_ok[of r]
  have ce: "pe_seqStart (canonical_entry r) = tr_seq r" "pe_seqEnd (canonical_entry r) = tr_seq r"
    by (simp_all add: canonical_entry_def)
  consider "out' = out @ [canonical_entry r]"
    | n m where "n < length out" "mergeIdentityEntries (out ! n) (canonical_entry r) = Some m" "out' = out[n := m]"
    using assms(3) by (auto simp: collapse_step_def split: option.splits if_splits)
  then show ?thesis
  proof cases
    case 1
    then show ?thesis using assms(1,2) c ce by (auto simp: ends_below_def)
  next
    case (2 n m)
    then have o: "entry_ok (out ! n)" "pe_seqEnd (out ! n) < tr_seq r"
      using assms(1,2) by (auto simp: list_all_length ends_below_def)
    have less: "\<forall>x \<in> set (entry_seqs (out ! n)). \<forall>y \<in> set (entry_seqs (canonical_entry r)). x < y"
      using o c by (auto simp: entry_ok_def)
    have "pe_seqStart (out ! n) \<le> pe_seqStart (canonical_entry r)" "pe_seqEnd (out ! n) \<le> pe_seqEnd (canonical_entry r)"
      using o ce by (auto simp: entry_ok_def)
    note m = merge_identity_ok[OF 2(2) o(1) conjunct1[OF c] less this]
    have "all_seqs out' = all_seqs out + {#tr_seq r#}"
      unfolding 2(3) by (rule all_seqs_update[OF 2(1)]) (use m c in simp)
    moreover have "list_all entry_ok out'"
      using assms(1) m 2(1) unfolding 2(3) list_all_length by (simp add: nth_list_update)
    moreover have "pe_seqEnd e \<le> tr_seq r" if "e \<in> set out'" for e
    proof -
      have "e = m \<or> e \<in> set out" using that set_update_subset_insert[of out n m] unfolding 2(3) by blast
      then show ?thesis using m ce assms(2) by (auto simp: ends_below_def)
    qed
    ultimately show ?thesis by (fastforce simp: ends_below_def)
  qed
qed

lemma collapse_ok:
  assumes "rows_increasing rows"
  shows "let out = collapseByIdentity (makeCanonicalEntries rows) in
    list_all entry_ok out \<and> all_seqs out = mset (map tr_seq rows)
    \<and> (\<forall>n. (\<forall>r \<in> set rows. tr_seq r < n) \<longrightarrow> ends_below n out)"
  using assms
proof (induction rows rule: rev_induct)
  case Nil
  then show ?case by (simp add: collapseByIdentity_def makeCanonicalEntries_def ends_below_def)
next
  case (snoc r rows)
  have inc: "rows_increasing rows" "\<forall>x \<in> set rows. tr_seq x < tr_seq r"
    using snoc.prems by (auto simp: rows_increasing_def sorted_wrt_append)
  obtain out idx where o: "foldl collapse_step ([], []) (makeCanonicalEntries rows) = (out, idx)" by fastforce
  obtain out' idx' where o': "collapse_step (out, idx) (canonical_entry r) = (out', idx')" by fastforce
  have "list_all entry_ok out" "all_seqs out = mset (map tr_seq rows)" "ends_below (tr_seq r) out"
    using snoc.IH[OF inc(1)] inc(2) o by (auto simp: collapseByIdentity_def Let_def)
  with collapse_step_ok[OF this(1,3) o'] o o' show ?case
    by (simp add: collapseByIdentity_def makeCanonicalEntries_def)
qed

lemma projected_ok:
  assumes "rows_increasing rows"
  shows "list_all entry_ok (projected rows) \<and> all_seqs (projected rows) = mset (map tr_seq rows)"
  using collapse_ok[OF assms] assistant.merge_chunks_ok reasoning.merge_chunks_ok
  unfolding projected_def mergeReasoningChunks_def mergeAssistantChunks_def Let_def by metis

lemma entry_seqs_nonempty: "entry_ok e \<Longrightarrow> entry_seqs e \<noteq> []"
  using entry_ranges_nonempty by (auto simp: entry_ok_def entry_seqs_def)

lemma distinct_entries:
  assumes "list_all entry_ok es" "distinct (concat (map entry_seqs es))"
  shows "distinct es"
  using assms
proof (induction es)
  case (Cons e es)
  have "e \<notin> set es"
  proof
    assume "e \<in> set es"
    moreover obtain x where "x \<in> set (entry_seqs e)"
      using Cons.prems(1) entry_seqs_nonempty[of e] by (cases "entry_seqs e") auto
    ultimately show False using Cons.prems(2) by auto
  qed
  then show ?case using Cons by simp
qed simp

lemma increasing_distinct: "rows_increasing rows \<Longrightarrow> distinct (map tr_seq rows)"
  by (simp add: rows_increasing_def strict_sorted_iff[symmetric] strict_sorted_equal_Uniq)
    (metis strict_sorted_iff)

lemma projected_distinct: "rows_increasing rows \<Longrightarrow> distinct (projected rows)"
  using projected_ok[of rows] increasing_distinct[of rows] distinct_entries[of "projected rows"]
  by (metis all_seqs_def mset_eq_imp_distinct_iff)

section \<open>The window\<close>

lemma bounds_None: "computeWindowBounds es = None \<longleftrightarrow> es = []"
  by (cases es rule: rev_cases) (auto simp: computeWindowBounds_def split: option.splits)

lemma bounds_Some:
  "computeWindowBounds es = Some (lo, hi) \<Longrightarrow>
   lo = Min (pe_seqStart ` set es) \<and> hi = Max (pe_seqEnd ` set es)"
proof (induction es arbitrary: lo hi rule: rev_induct)
  case (snoc e es)
  show ?case
  proof (cases "computeWindowBounds es")
    case None
    then have "es = []" by (simp add: bounds_None)
    then show ?thesis using snoc.prems by (simp add: computeWindowBounds_def)
  next
    case (Some b)
    obtain l h where b: "b = (l, h)" by (cases b)
    then have "es \<noteq> []" using Some bounds_None[of es] by auto
    moreover have "lo = min l (pe_seqStart e)" "hi = max h (pe_seqEnd e)"
      using snoc.prems Some b by (simp_all add: computeWindowBounds_def)
    ultimately show ?thesis using snoc.IH[OF Some[unfolded b]] by (simp add: min.commute max.commute)
  qed
qed (simp add: computeWindowBounds_def)

lemma bounds_set: "es \<noteq> [] \<Longrightarrow> set es = set fs \<Longrightarrow> computeWindowBounds es = computeWindowBounds fs"
  using bounds_Some[of es] bounds_Some[of fs] bounds_None[of es] bounds_None[of fs]
  by (cases "computeWindowBounds es"; cases "computeWindowBounds fs") auto

lemma bounds_cover:
  assumes "computeWindowBounds es = Some (lo, hi)" "e \<in> set es"
  shows "lo \<le> pe_seqStart e \<and> pe_seqEnd e \<le> hi"
  using bounds_Some[OF assms(1)] assms(2) by simp

lemma overlapping_covers:
  assumes "list_all entry_ok es" "set sel \<subseteq> set es"
  shows "set sel \<subseteq> set (overlapping es (computeWindowBounds sel))"
proof
  fix e assume e: "e \<in> set sel"
  then obtain lo hi where b: "computeWindowBounds sel = Some (lo, hi)"
    using bounds_None[of sel] by (cases "computeWindowBounds sel") auto
  have "pe_seqStart e \<le> pe_seqEnd e" using assms e by (auto simp: list_all_iff entry_ok_def)
  then show "e \<in> set (overlapping es (computeWindowBounds sel))"
    using bounds_cover[OF b e] e assms(2) b by (auto simp: overlapping_def)
qed

text \<open>Every round that does not stop adds an entry, so one round more than there are entries is enough.\<close>

lemma expand_window_closed:
  assumes "list_all entry_ok es" "distinct es" "set sel \<subseteq> set es" "distinct sel" "sel \<noteq> []"
    "length es < n + length sel" "expand_window n es sel (computeWindowBounds sel) = (out, bounds)"
  shows "set sel \<subseteq> set out \<and> out = overlapping es bounds \<and> bounds = computeWindowBounds out"
  using assms(3-7)
proof (induction n arbitrary: sel)
  case 0
  then have "length sel \<le> length es" using assms(2) by (metis card_mono distinct_card List.finite_set)
  then show ?case using 0 by simp
next
  case (Suc n)
  let ?ov = "overlapping es (computeWindowBounds sel)"
  have sub: "set sel \<subseteq> set ?ov" by (rule overlapping_covers[OF assms(1) Suc.prems(1)])
  have dov: "distinct ?ov" using assms(2) by (auto simp: overlapping_def split: option.split)
  have ovs: "set ?ov \<subseteq> set es" by (auto simp: overlapping_def split: option.splits)
  have le: "length sel \<le> length ?ov"
    using sub dov Suc.prems(2) by (metis card_mono distinct_card List.finite_set)
  show ?case
  proof (cases "length ?ov = length sel \<and> computeWindowBounds ?ov = computeWindowBounds sel")
    case True
    then show ?thesis using Suc.prems(5) sub by (auto simp: Let_def)
  next
    case False
    have "length ?ov \<noteq> length sel"
    proof
      assume "length ?ov = length sel"
      then have "set sel = set ?ov" using sub dov Suc.prems(2) by (metis card_subset_eq distinct_card List.finite_set)
      from bounds_set[OF Suc.prems(3) this] have "computeWindowBounds ?ov = computeWindowBounds sel" by (rule sym)
      with False \<open>length ?ov = length sel\<close> show False by iprover
    qed
    with le have "length es < n + length ?ov" using Suc.prems(4) by simp
    moreover have "?ov \<noteq> []" using sub Suc.prems(3) by auto
    moreover have "expand_window n es ?ov (computeWindowBounds ?ov) = (out, bounds)"
      using Suc.prems(5) False by (simp add: Let_def)
    ultimately have "set ?ov \<subseteq> set out \<and> out = overlapping es bounds \<and> bounds = computeWindowBounds out"
      by (intro Suc.IH[OF ovs dov])
    then show ?thesis using sub by blast
  qed
qed

lemma limited_subset: "set (limited dir n es) \<subseteq> set es" "distinct es \<Longrightarrow> distinct (limited dir n es)"
  "es \<noteq> [] \<Longrightarrow> limited dir n es \<noteq> []" "length (limited dir n es) = (if n = 0 then length es else min n (length es))"
  by (auto simp: limited_def dest: in_set_takeD in_set_dropD)

section \<open>Forward pages\<close>

definition rows_contiguous :: "timeline_row list \<Rightarrow> bool" where
  "rows_contiguous rows \<longleftrightarrow> map tr_seq rows = (if rows = [] then [] else [tr_seq (hd rows)..tr_seq (last rows)])"

lemma first_in_ranges_Some: "x \<in> set (range_seqs rs) \<Longrightarrow> lo \<le> x \<Longrightarrow> x \<le> hi \<Longrightarrow> first_in_ranges rs lo hi \<noteq> None"
  by (induction rs) (auto simp: max_def min_def)

lemma first_in_ranges_here:
  "x \<in> set (range_seqs rs) \<Longrightarrow> x \<le> hi \<Longrightarrow> \<forall>(s, e) \<in> set rs. s \<le> e \<Longrightarrow> sorted_wrt (<) (range_seqs rs) \<Longrightarrow> first_in_ranges rs x hi = Some x"
proof (induction rs)
  case (Cons r rs)
  obtain s e where r: "r = (s, e)" by (cases r)
  show ?case
  proof (cases "x \<le> e")
    case True
    have "s \<le> x"
    proof (cases "x \<in> set [s..e]")
      case False
      then have "x \<in> set (range_seqs rs)" using Cons.prems(1) r by auto
      moreover have "s \<in> set [s..e]" using Cons.prems(3) r by auto
      ultimately have "s < x" using Cons.prems(4) r by (auto simp: sorted_wrt_append)
      then show ?thesis by simp
    qed simp
    then show ?thesis using True Cons.prems(2) r by simp
  next
    case False
    then show ?thesis using Cons r by (auto simp: sorted_wrt_append)
  qed
qed simp

lemma first_in_ranges_in: "first_in_ranges rs lo hi = Some x \<Longrightarrow> x \<in> set (range_seqs rs)"
  by (induction rs) (auto split: if_splits)

lemma first_in_ranges_ge: "first_in_ranges rs lo hi = Some x \<Longrightarrow> lo \<le> x \<and> x \<le> hi"
  by (induction rs) (auto split: if_splits)

text \<open>What the scan covers: consecutive rows, each inside one of the ranges.\<close>

lemma covered_end_range:
  "covered_end rows lo hi ranges n = m \<Longrightarrow> lo \<le> n + 1 \<Longrightarrow> n \<le> hi \<Longrightarrow>
   n \<le> m \<and> m \<le> hi \<and> (\<forall>x. n < x \<and> x \<le> m \<longrightarrow> x \<in> set (range_seqs ranges))"
proof (induction rows lo hi ranges n rule: covered_end.induct)
  case (2 r rs lo hi ranges n)
  show ?case
  proof (cases "tr_seq r < lo")
    case True
    then show ?thesis using 2 by simp
  next
    case False
    note lo = this
    show ?thesis
    proof (cases "hi < tr_seq r \<or> tr_seq r \<noteq> n + 1")
      case True
      then show ?thesis using 2 lo by auto
    next
      case False
      have step: "m = (case dropWhile (\<lambda>(s, e). e < tr_seq r) ranges of [] \<Rightarrow> n
             | (s, e) # rest \<Rightarrow>
                 if tr_seq r < s \<or> e < tr_seq r then n else covered_end rs lo hi ((s, e) # rest) (tr_seq r))"
        using "2.prems"(1) unfolding covered_end.simps if_not_P[OF lo] if_not_P[OF False] by (rule sym)
      show ?thesis
      proof (cases "dropWhile (\<lambda>(s, e). e < tr_seq r) ranges")
        case Nil
        then have "m = n" using step by (simp only: list.case)
        then show ?thesis using "2.prems"(3) by auto
      next
        case (Cons q rest)
        obtain s e where q: "q = (s, e)" by (cases q)
        have dw: "dropWhile (\<lambda>(s, e). e < tr_seq r) ranges = (s, e) # rest" using Cons q by simp
        have sub: "set ((s, e) # rest) \<subseteq> set ranges" using set_dropWhileD[of _ "\<lambda>(s, e). e < tr_seq r" ranges] unfolding dw by blast
        show ?thesis
        proof (cases "tr_seq r < s \<or> e < tr_seq r")
          case True
          then have "m = n" using step unfolding dw by (simp only: list.case prod.case if_True)
          then show ?thesis using "2.prems"(3) by auto
        next
          case c: False
          have m: "covered_end rs lo hi ((s, e) # rest) (tr_seq r) = m"
            using step unfolding dw by (simp only: list.case prod.case if_not_P[OF c])
          have "lo \<le> tr_seq r + 1" "tr_seq r \<le> hi" using lo False by linarith+
          from "2.IH"(2)[OF lo False dw refl c m this]
          have ih: "tr_seq r \<le> m \<and> m \<le> hi \<and> (\<forall>x. tr_seq r < x \<and> x \<le> m \<longrightarrow> x \<in> set (range_seqs ((s, e) # rest)))" .
          have up: "x \<in> set (range_seqs ranges)" if "x \<in> set (range_seqs ((s, e) # rest))" for x
            using that sub by (force simp: range_seqs_def)
          have r: "tr_seq r \<in> set (range_seqs ((s, e) # rest))" using c by auto
          have "x \<in> set (range_seqs ranges)" if "n < x" "x \<le> m" for x
          proof (cases "x = tr_seq r")
            case True
            then show ?thesis using up[OF r] by simp
          next
            case False
            then have "tr_seq r < x" using that(1) \<open>\<not> (hi < tr_seq r \<or> tr_seq r \<noteq> n + 1)\<close> by linarith
            then show ?thesis using ih that(2) up by blast
          qed
          then show ?thesis using ih False by auto
        qed
      qed
    qed
  qed
qed auto

lemma covered_end_skip:
  "\<forall>r \<in> set pre. tr_seq r < lo \<Longrightarrow> covered_end (pre @ rows) lo hi ranges n = covered_end rows lo hi ranges n"
  by (induction pre) auto

lemma sorted_head:
  assumes "sorted_wrt range_le ((s, e) # rest)" "(s', e') \<in> set ((s, e) # rest)"
  shows "s \<le> s'"
  using assms by (auto simp: range_le_def)

lemma covered_end_start:
  assumes "sorted_wrt range_le ranges" "n \<in> set (range_seqs ranges)" "tr_seq r = n" "n \<le> hi" "\<forall>x \<in> set pre. tr_seq x < n"
  shows "n \<le> covered_end (pre @ r # post) n hi ranges (n - 1)"
proof -
  obtain s' e' where se': "(s', e') \<in> set ranges" "s' \<le> n" "n \<le> e'"
    using assms(2) by (auto simp: range_seqs_def)
  then obtain q rest where dw: "dropWhile (\<lambda>(s, e). e < tr_seq r) ranges = q # rest"
    using assms(3) by (cases "dropWhile (\<lambda>(s, e). e < tr_seq r) ranges") (auto simp: dropWhile_eq_Nil_conv)
  obtain s e where q: "q = (s, e)" by (cases q)
  have "\<not> (case q of (s, e) \<Rightarrow> e < tr_seq r)"
    using hd_dropWhile[of "\<lambda>(s, e). e < tr_seq r" ranges] dw by (metis list.distinct(1) list.sel(1))
  then have hd: "n \<le> e" using q assms(3) by simp
  have split: "takeWhile (\<lambda>(s, e). e < tr_seq r) ranges @ (s, e) # rest = ranges"
    using dw q takeWhile_dropWhile_id[of "\<lambda>(s, e). e < tr_seq r" ranges] by simp
  have "(s', e') \<notin> set (takeWhile (\<lambda>(s, e). e < tr_seq r) ranges)"
    using se'(3) assms(3) set_takeWhileD[of "(s', e')" "\<lambda>(s, e). e < tr_seq r" ranges] by auto
  then have "(s', e') \<in> set ((s, e) # rest)" using se'(1) split by (metis Un_iff set_append)
  moreover have "sorted_wrt range_le ((s, e) # rest)" using assms(1) split by (metis sorted_wrt_append)
  ultimately have "s \<le> n" using sorted_head se'(2) by fastforce
  then have "covered_end (r # post) n hi ranges (n - 1) = covered_end post n hi ((s, e) # rest) n"
    using dw q hd assms(3,4) by simp
  moreover have "n \<le> covered_end post n hi ((s, e) # rest) n"
    using covered_end_range[of post n hi "(s, e) # rest" n] assms(4) by simp
  ultimately show ?thesis using covered_end_skip[OF assms(5)] by simp
qed

interpretation ranges: total_preorder range_le "\<lambda>_. True"
  by unfold_locales (auto simp: range_le_def)

interpretation candidate: total_preorder candidate_le "\<lambda>_. True"
  by unfold_locales (auto simp: candidate_le_def)

lemma candidates_mem:
  "c \<in> set (candidates es a b) \<longleftrightarrow>
   cd_index c < length es \<and> cd_entry c = es ! cd_index c \<and> firstSourceSeqInRange (es ! cd_index c) a b = Some (cd_first c)"
proof -
  have "c \<in> set (candidates es a b) \<longleftrightarrow> (\<exists>i e f. (i, e) \<in> set (enumerate 0 es)
      \<and> firstSourceSeqInRange e a b = Some f \<and> c = \<lparr>cd_entry = e, cd_index = i, cd_first = f\<rparr>)"
    unfolding candidates_def List.map_filter_def by (fastforce simp: image_iff)
  then show ?thesis by (cases c) (auto simp: in_set_enumerate_eq)
qed

lemma selected_after:
  assumes es: "list_all entry_ok es" and e: "e \<in> set es" "n \<in> set (entry_seqs e)" "n \<le> hi"
    and rows: "rows = pre @ r # post" "tr_seq r = n" "\<forall>x \<in> set pre. tr_seq x < n"
  shows "\<exists>sel m. selectProjectedEntriesAfter es rows n hi limit = (sel, Some m) \<and> n \<le> m \<and> m \<le> hi
    \<and> (\<forall>x. n \<le> x \<and> x \<le> m \<longrightarrow> (\<exists>e \<in> set sel. x \<in> set (entry_seqs e)))"
proof -
  let ?el = "sort_by candidate_le (candidates es n hi)"
  define chosen where "chosen = (if limit = 0 then ?el else take limit ?el)"
  define sel where "sel = map cd_entry (sort_by (\<lambda>a b. cd_index a \<le> cd_index b) chosen)"
  obtain i where i: "i < length es" "es ! i = e" using e(1) by (auto simp: in_set_conv_nth)
  have "entry_ok e" using es e(1) by (simp add: list_all_iff)
  then have f: "firstSourceSeqInRange e n hi = Some n"
    using e(2,3) by (auto simp: firstSourceSeqInRange_def entry_seqs_def entry_ok_def ranges_ok_def intro!: first_in_ranges_here)
  define c where "c = \<lparr>cd_entry = e, cd_index = i, cd_first = n\<rparr>"
  have c: "c \<in> set (candidates es n hi)" unfolding candidates_mem using i f by (simp add: c_def)
  have "?el \<noteq> []" using c by auto
  then have hd: "hd ?el \<in> set (candidates es n hi)" "hd ?el \<in> set chosen"
    using hd_in_set[of ?el] hd_in_set[of "take limit ?el"] by (auto simp: chosen_def hd_take)
  have "candidate_le (hd ?el) c" by (rule candidate.hd_sort_by_le) (auto simp: c list_all_iff)
  then have "cd_first (hd ?el) \<le> n" by (auto simp: candidate_le_def c_def)
  moreover have ff: "firstSourceSeqInRange (cd_entry (hd ?el)) n hi = Some (cd_first (hd ?el))"
    using hd(1) by (simp add: candidates_mem)
  ultimately have "firstSourceSeqInRange (cd_entry (hd ?el)) n hi = Some n"
    using first_in_ranges_ge[of _ n hi] by (force simp: firstSourceSeqInRange_def)
  then have hn: "n \<in> set (entry_seqs (cd_entry (hd ?el)))"
    unfolding firstSourceSeqInRange_def entry_seqs_def by (rule first_in_ranges_in)
  have hs: "cd_entry (hd ?el) \<in> set sel" using hd(2) by (simp add: sel_def)
  then have ne: "sel \<noteq> []" by auto
  let ?ranges = "sort_by range_le (concat (map pe_ranges sel))"
  have rs: "x \<in> set (range_seqs ?ranges) \<longleftrightarrow> (\<exists>e \<in> set sel. x \<in> set (entry_seqs e))" for x
    by (auto simp: range_seqs_def entry_seqs_def)
  have "sorted_wrt range_le ?ranges" by (rule ranges.sorted_sort_by) (simp add: list_all_iff)
  then have ge: "n \<le> covered_end rows n hi ?ranges (n - 1)"
    unfolding rows(1) using rs hn hs e(3) rows(2,3) by (intro covered_end_start) auto
  have cov: "covered_end rows n hi ?ranges (n - 1) \<le> hi
      \<and> (\<forall>x. n - 1 < x \<and> x \<le> covered_end rows n hi ?ranges (n - 1) \<longrightarrow> x \<in> set (range_seqs ?ranges))"
    using covered_end_range[OF refl, of n "n - 1" hi rows ?ranges] e(3) by simp
  have "selectProjectedEntriesAfter es rows n hi limit = (sel, Some (covered_end rows n hi ?ranges (n - 1)))"
    unfolding selectProjectedEntriesAfter_def Let_def chosen_def[symmetric] sel_def[symmetric] using ne ge by simp
  then show ?thesis using ge cov rs by auto
qed

lemma contiguous_increasing: "rows_contiguous rows \<Longrightarrow> rows_increasing rows"
  by (auto simp: rows_contiguous_def rows_increasing_def sorted_wrt01 split: if_splits)

lemma contiguous_split:
  assumes "rows_contiguous rows" "rows \<noteq> []" "tr_seq (hd rows) \<le> n" "n \<le> tr_seq (last rows)"
  obtains pre r post where "rows = pre @ r # post" "tr_seq r = n" "\<forall>x \<in> set pre. tr_seq x < n"
proof -
  have "n \<in> set (map tr_seq rows)" using assms by (simp add: rows_contiguous_def)
  then obtain r where "r \<in> set rows" "tr_seq r = n" by auto
  then obtain pre post where sp: "rows = pre @ r # post" by (meson split_list)
  have "\<forall>x \<in> set pre. tr_seq x < n"
    using contiguous_increasing[OF assms(1)] \<open>tr_seq r = n\<close> unfolding sp by (auto simp: rows_increasing_def sorted_wrt_append)
  then show thesis using that sp \<open>tr_seq r = n\<close> by blast
qed

lemma covering_entry:
  assumes "rows_increasing rows" "r \<in> set rows"
  obtains e where "e \<in> set (projected rows)" "tr_seq r \<in> set (entry_seqs e)"
proof -
  have "tr_seq r \<in># all_seqs (projected rows)" using projected_ok[OF assms(1)] assms(2) by simp
  then show thesis using that by (auto simp: all_seqs_def)
qed

section \<open>Pages of rows\<close>

lemma increasing_append:
  "rows_increasing (xs @ ys) \<longleftrightarrow> rows_increasing xs \<and> rows_increasing ys \<and> (\<forall>x \<in> set xs. \<forall>y \<in> set ys. tr_seq x < tr_seq y)"
  by (simp add: rows_increasing_def sorted_wrt_append)

lemma increasing_dropWhile:
  assumes "rows_increasing rows" "r \<in> set (dropWhile (\<lambda>r. tr_seq r \<le> n) rows)"
  shows "n < tr_seq r"
  using assms by (induction rows) (auto simp: rows_increasing_def split: if_splits)

lemma increasing_rest:
  assumes "rows_increasing rows" "r \<in> set (dropWhile (\<lambda>r. tr_seq r < n) rows)"
  shows "n \<le> tr_seq r"
  using assms by (induction rows) (auto simp: rows_increasing_def less_imp_le split: if_splits)

lemma first_of_rest:
  assumes "rows_increasing (older @ mid)" "mid \<noteq> []"
  shows "min_seq (older @ mid) < tr_seq (hd mid) \<longleftrightarrow> older \<noteq> []"
proof (cases older)
  case Nil
  then show ?thesis using assms(2) by (simp add: min_seq_def)
next
  case (Cons p ps)
  then have "p \<in> set older" "hd mid \<in> set mid" using assms(2) by simp_all
  then have "tr_seq p < tr_seq (hd mid)" using assms(1) unfolding increasing_append by blast
  then show ?thesis using Cons by (simp add: min_seq_def)
qed

lemma last_before_rest:
  assumes "rows_increasing (older @ mid @ newer)" "mid \<noteq> []"
  shows "tr_seq (last mid) < max_seq (older @ mid @ newer) \<longleftrightarrow> newer \<noteq> []"
proof (cases "newer = []")
  case True
  then show ?thesis using assms(2) by (simp add: max_seq_def)
next
  case False
  then have "tr_seq (last mid) < tr_seq (last newer)" using assms by (simp add: increasing_append)
  then show ?thesis using False by (simp add: max_seq_def)
qed

lemma fetchAfter_split:
  assumes "rows_increasing (ts_rows st)" "ts_rows st \<noteq> []"
  shows "\<exists>older newer. ts_rows st = older @ fr_rows (fetchAfter st limit (Some c)) @ newer
    \<and> (\<forall>r \<in> set older. tr_seq r \<le> cu_seq c)
    \<and> (\<forall>r \<in> set (fr_rows (fetchAfter st limit (Some c)) @ newer). cu_seq c < tr_seq r)
    \<and> fr_hasOlder (fetchAfter st limit (Some c)) = (older \<noteq> [])
    \<and> fr_hasNewer (fetchAfter st limit (Some c)) = (newer \<noteq> [])"
proof -
  let ?rest = "dropWhile (\<lambda>r. tr_seq r \<le> cu_seq c) (ts_rows st)" and ?old = "takeWhile (\<lambda>r. tr_seq r \<le> cu_seq c) (ts_rows st)"
  define old sel new where d: "old = ?old" "sel = (if limit = 0 then ?rest else take limit ?rest)"
    "new = (if limit = 0 then [] else drop limit ?rest)"
  have sp: "ts_rows st = old @ sel @ new" by (simp add: d)
  have inc: "rows_increasing (old @ sel @ new)" using assms(1) unfolding sp .
  have o: "\<forall>r \<in> set old. tr_seq r \<le> cu_seq c" by (auto simp: d dest: set_takeWhileD)
  have n: "\<forall>r \<in> set (sel @ new). cu_seq c < tr_seq r"
    using increasing_dropWhile[OF assms(1)] by (auto simp: d dest: in_set_takeD in_set_dropD)
  show ?thesis
  proof (cases "?rest = []")
    case True
    have e: "sel = []" "new = []" unfolding d(2,3) True by simp_all
    have all: "old = ts_rows st" "sel = []" "new = []" using sp unfolding e by simp_all
    have f: "fetchAfter st limit (Some c) = \<lparr>fr_reset = False, fr_staleCursor = False, fr_gap = False,
        fr_hasOlder = (min_seq (ts_rows st) \<le> cu_seq c), fr_hasNewer = False, fr_rows = []\<rparr>"
      by (simp only: fetchAfter_def Let_def option.case if_P[OF True])
    have "hd (ts_rows st) \<in> set old" unfolding all(1) using assms(2) by (rule hd_in_set)
    then have "min_seq (ts_rows st) \<le> cu_seq c" using o assms(2) unfolding min_seq_def by simp
    then show ?thesis
      unfolding f fetch_result.select_convs using o assms(2) unfolding all(1)
      by (intro exI[of _ "ts_rows st"] exI[of _ "[]"] conjI) simp_all
  next
    case False
    then have ne: "sel \<noteq> []" by (simp add: d(2))
    have f: "fetchAfter st limit (Some c) = \<lparr>fr_reset = False, fr_staleCursor = False, fr_gap = False,
        fr_hasOlder = (min_seq (ts_rows st) < tr_seq (hd sel)), fr_hasNewer = (tr_seq (last sel) < max_seq (ts_rows st)),
        fr_rows = sel\<rparr>"
      by (simp only: fetchAfter_def Let_def option.case if_not_P[OF False] d(2))
    have "min_seq (ts_rows st) < tr_seq (hd sel) \<longleftrightarrow> old \<noteq> []"
      using first_of_rest[of old "sel @ new"] inc ne unfolding sp by simp
    moreover have "tr_seq (last sel) < max_seq (ts_rows st) \<longleftrightarrow> new \<noteq> []"
      using last_before_rest[OF inc ne] unfolding sp .
    ultimately show ?thesis
      unfolding f fetch_result.select_convs using sp o n by (intro exI[of _ old] exI[of _ new] conjI) simp_all
  qed
qed

lemma tail_rows_split: "rows = take (length rows - length (tail_rows n rows)) rows @ tail_rows n rows"
  by (auto simp: tail_rows_def)

lemma tail_rows_empty: "tail_rows n rows = [] \<longleftrightarrow> rows = []"
  by (auto simp: tail_rows_def)

lemma fetchBefore_split:
  assumes "rows_increasing (ts_rows st)"
  shows "\<exists>older newer. ts_rows st = older @ fr_rows (fetchBefore st limit (Some c)) @ newer
    \<and> (\<forall>r \<in> set (older @ fr_rows (fetchBefore st limit (Some c))). tr_seq r < cu_seq c)
    \<and> (\<forall>r \<in> set newer. cu_seq c \<le> tr_seq r)
    \<and> fr_hasOlder (fetchBefore st limit (Some c)) = (older \<noteq> [])
    \<and> fr_hasNewer (fetchBefore st limit (Some c)) = (newer \<noteq> [])"
proof -
  define b new sel where d: "b = takeWhile (\<lambda>r. tr_seq r < cu_seq c) (ts_rows st)"
    "new = dropWhile (\<lambda>r. tr_seq r < cu_seq c) (ts_rows st)" "sel = tail_rows limit b"
  define old where "old = take (length b - length sel) b"
  have b: "b = old @ sel" unfolding old_def d(3) by (rule tail_rows_split)
  have sp: "ts_rows st = old @ sel @ new"
    using takeWhile_dropWhile_id[of "\<lambda>r. tr_seq r < cu_seq c" "ts_rows st"] b unfolding d(1,2) by simp
  have inc: "rows_increasing (old @ sel @ new)" using assms unfolding sp .
  have "\<forall>r \<in> set b. tr_seq r < cu_seq c" by (auto simp: d(1) dest: set_takeWhileD)
  then have low: "\<forall>r \<in> set (old @ sel). tr_seq r < cu_seq c" unfolding b .
  have high: "\<forall>r \<in> set new. cu_seq c \<le> tr_seq r" using increasing_rest[OF assms] unfolding d(2) by blast
  have f: "fetchBefore st limit (Some c) = \<lparr>fr_reset = False, fr_staleCursor = False, fr_gap = False,
      fr_hasOlder = older_than_first (ts_rows st) sel, fr_hasNewer = list_ex (\<lambda>r. cu_seq c \<le> tr_seq r) (ts_rows st),
      fr_rows = sel\<rparr>"
    by (simp only: fetchBefore_def Let_def option.case d)
  have "older_than_first (ts_rows st) sel \<longleftrightarrow> old \<noteq> []"
  proof (cases "sel = []")
    case True
    then have "b = []" by (simp add: tail_rows_empty d(3))
    then show ?thesis using True by (simp add: older_than_first_def old_def)
  next
    case False
    then show ?thesis using first_of_rest[of old "sel @ new"] inc unfolding older_than_first_def sp by simp
  qed
  moreover have "list_ex (\<lambda>r. cu_seq c \<le> tr_seq r) (ts_rows st) \<longleftrightarrow> new \<noteq> []"
    using low high unfolding sp by (cases new) (auto simp: list_ex_iff not_le)
  ultimately show ?thesis
    unfolding f fetch_result.select_convs using sp low high by (intro exI[of _ old] exI[of _ new] conjI) simp_all
qed

section \<open>Properties\<close>

text \<open>
  C28. The projection of a timeline places every row in exactly one entry: the sequence numbers that the
  entries list as their sources are those of the rows, each once, and an entry's sources lie between its
  first and its last number.
\<close>

theorem projection_partitions_rows:
  assumes "sorted_wrt (<) (map tr_seq rows)"
  shows "mset (concat (map entry_seqs (projectTimelineRows rows False))) = mset (map tr_seq rows)
    \<and> (\<forall>e \<in> set (projectTimelineRows rows False). entry_seqs e \<noteq> []
        \<and> sorted_wrt (<) (entry_seqs e) \<and> set (entry_seqs e) \<subseteq> {pe_seqStart e..pe_seqEnd e})"
  using projected_ok[of rows] assms entry_seqs_nonempty
  by (auto simp: projectTimelineRows_def rows_increasing_def all_seqs_def list_all_iff entry_ok_def ranges_ok_def entry_seqs_def)

text \<open>
  C30. The window of a projected limit is closed: the bounded loop ends with a range of sequence numbers
  such that the entries it returns are exactly those that overlap the range, none of them reaches outside
  it, and the rows are exactly those of the range; it holds at least as many entries as were asked for.
\<close>

theorem projected_window_closed:
  assumes "sorted_wrt (<) (map tr_seq rows)" "rows \<noteq> []"
  shows "\<exists>lo hi. ws_bounds (selectTimelineWindowByProjectedLimit rows dir limit) = Some (lo, hi)
    \<and> ws_entries (selectTimelineWindowByProjectedLimit rows dir limit)
        = filter (\<lambda>e. pe_seqStart e \<le> hi \<and> lo \<le> pe_seqEnd e) (projected rows)
    \<and> (\<forall>e \<in> set (ws_entries (selectTimelineWindowByProjectedLimit rows dir limit)). lo \<le> pe_seqStart e \<and> pe_seqEnd e \<le> hi)
    \<and> ws_rows (selectTimelineWindowByProjectedLimit rows dir limit) = filter (\<lambda>r. lo \<le> tr_seq r \<and> tr_seq r \<le> hi) rows
    \<and> min (nat limit) (length (projected rows)) \<le> length (ws_entries (selectTimelineWindowByProjectedLimit rows dir limit))"
proof -
  let ?all = "projected rows"
  let ?sel = "limited dir (nat limit) ?all"
  have inc: "rows_increasing rows" using assms(1) by (simp add: rows_increasing_def)
  note ok = projected_ok[OF inc] and dist = projected_distinct[OF inc]
  have "?all \<noteq> []" using ok assms(2) by auto
  then have ne: "?sel \<noteq> []" by (rule limited_subset(3))
  obtain out bounds where x: "expand_window (length ?all + 1) ?all ?sel (computeWindowBounds ?sel) = (out, bounds)" by fastforce
  have cl: "set ?sel \<subseteq> set out \<and> out = overlapping ?all bounds \<and> bounds = computeWindowBounds out"
    by (rule expand_window_closed[OF conjunct1[OF ok] dist limited_subset(1) limited_subset(2)[OF dist] ne _ x]) simp
  note sub = cl[THEN conjunct1] and ov = cl[THEN conjunct2, THEN conjunct1] and bo = cl[THEN conjunct2, THEN conjunct2]
  have "out \<noteq> []" using sub ne by auto
  then have "computeWindowBounds out \<noteq> None" by (simp add: bounds_None)
  then obtain lo hi where b: "bounds = Some (lo, hi)" unfolding bo[symmetric] by (cases bounds) auto
  have w: "selectTimelineWindowByProjectedLimit rows dir limit = \<lparr>ws_entries = out,
      ws_rows = filter (\<lambda>r. lo \<le> tr_seq r \<and> tr_seq r \<le> hi) rows, ws_bounds = Some (lo, hi)\<rparr>"
    using ne x b by (simp add: selectTimelineWindowByProjectedLimit_def Let_def)
  have out: "out = filter (\<lambda>e. pe_seqStart e \<le> hi \<and> lo \<le> pe_seqEnd e) ?all"
    using ov unfolding b overlapping_def option.case prod.case .
  have "lo \<le> pe_seqStart e \<and> pe_seqEnd e \<le> hi" if "e \<in> set out" for e
    by (rule bounds_cover[OF bo[symmetric, unfolded b] that])
  moreover have "min (nat limit) (length ?all) \<le> length out"
  proof -
    have "length ?sel = card (set ?sel)" using limited_subset(2)[OF dist] by (simp add: distinct_card)
    also have "\<dots> \<le> card (set out)" using sub by (intro card_mono) simp_all
    also have "\<dots> \<le> length out" by (rule card_length)
    finally show ?thesis using limited_subset(4)[of dir "nat limit" ?all] by (simp split: if_splits)
  qed
  ultimately show ?thesis
    unfolding w window_selection.select_convs using out by (intro exI[of _ lo] exI[of _ hi] conjI refl) simp_all
qed

text \<open>
  C29. Reading a gapless timeline forward always advances: a page after a cursor that is not at the end
  ends at a sequence number beyond the cursor, its entries contain every row up to there, and it says
  that there is more exactly when rows follow.
\<close>

theorem forward_page_advances:
  assumes "rows_contiguous rows" "rows \<noteq> []" "cursor < tr_seq (last rows)"
  shows "\<exists>e. pg_endSeq (selectProjectedTimelinePage rows None After (Some cursor) limit) = Some e
    \<and> cursor < e \<and> e \<le> tr_seq (last rows)
    \<and> (\<forall>r \<in> set rows. cursor < tr_seq r \<and> tr_seq r \<le> e \<longrightarrow>
        (\<exists>x \<in> set (pg_entries (selectProjectedTimelinePage rows None After (Some cursor) limit)). tr_seq r \<in> set (entry_seqs x)))
    \<and> pg_hasNewer (selectProjectedTimelinePage rows None After (Some cursor) limit) = (e < tr_seq (last rows))"
proof -
  let ?lo = "tr_seq (hd rows)" and ?hi = "tr_seq (last rows)" and ?lim = "case limit of None \<Rightarrow> 0 | Some n \<Rightarrow> nat n"
  let ?s = "max ?lo (cursor + 1)"
  note inc = contiguous_increasing[OF assms(1)]
  have lh: "?lo \<le> ?hi" using increasing_first[OF inc] assms(2) by simp
  obtain pre r post where sp: "rows = pre @ r # post" "tr_seq r = ?s" "\<forall>x \<in> set pre. tr_seq x < ?s"
    using contiguous_split[OF assms(1,2), of ?s] lh assms(3) by auto
  obtain e where e: "e \<in> set (projected rows)" "?s \<in> set (entry_seqs e)"
    using covering_entry[OF inc, of r] sp by auto
  obtain sel m where m: "selectProjectedEntriesAfter (projected rows) rows ?s ?hi ?lim = (sel, Some m)" "?s \<le> m" "m \<le> ?hi"
    "\<forall>x. ?s \<le> x \<and> x \<le> m \<longrightarrow> (\<exists>e \<in> set sel. x \<in> set (entry_seqs e))"
    using selected_after[OF _ e(1,2) _ sp, of ?hi ?lim] projected_ok[OF inc] lh assms(3) by auto
  have ne: "projected rows \<noteq> []" using e(1) by auto
  have pg: "selectProjectedTimelinePage rows None After (Some cursor) limit =
     \<lparr>pg_entries = sel, pg_startSeq = Some ?s, pg_endSeq = Some m, pg_hasOlder = (?lo < ?s), pg_hasNewer = (m < ?hi)\<rparr>"
    using ne m(1) assms(2) by (simp add: selectProjectedTimelinePage_def getTimelineBounds_def Let_def)
  have "\<exists>x \<in> set sel. tr_seq r \<in> set (entry_seqs x)" if "r \<in> set rows" "cursor < tr_seq r" "tr_seq r \<le> m" for r
    using m(4) increasing_first[OF inc that(1)] that(2,3) by auto
  then show ?thesis unfolding pg using m(2,3) by auto
qed

text \<open>
  A page of the timeline store before or after a cursor of the current epoch is the run of rows next
  to the cursor: the rows split into older rows, the page and newer rows around the cursor, and the page
  reports older or newer rows exactly when there are some.
\<close>

theorem fetched_page_splits_rows:
  assumes "sorted_wrt (<) (map tr_seq (ts_rows st))" "ts_rows st \<noteq> []" "cu_epoch c = ts_epoch st"
    "min_seq (ts_rows st) - 1 \<le> cu_seq c"
  shows "(\<exists>older newer. ts_rows st = older @ fr_rows (timeline_fetch st After limit (Some c)) @ newer
      \<and> (\<forall>r \<in> set older. tr_seq r \<le> cu_seq c)
      \<and> (\<forall>r \<in> set (fr_rows (timeline_fetch st After limit (Some c)) @ newer). cu_seq c < tr_seq r)
      \<and> fr_hasOlder (timeline_fetch st After limit (Some c)) = (older \<noteq> [])
      \<and> fr_hasNewer (timeline_fetch st After limit (Some c)) = (newer \<noteq> []))
    \<and> (\<exists>older newer. ts_rows st = older @ fr_rows (timeline_fetch st Before limit (Some c)) @ newer
      \<and> (\<forall>r \<in> set (older @ fr_rows (timeline_fetch st Before limit (Some c))). tr_seq r < cu_seq c)
      \<and> (\<forall>r \<in> set newer. cu_seq c \<le> tr_seq r)
      \<and> fr_hasOlder (timeline_fetch st Before limit (Some c)) = (older \<noteq> [])
      \<and> fr_hasNewer (timeline_fetch st Before limit (Some c)) = (newer \<noteq> []))"
proof -
  have inc: "rows_increasing (ts_rows st)" using assms(1) by (simp add: rows_increasing_def)
  have a: "timeline_fetch st After limit (Some c) = fetchAfter st (page_limit limit) (Some c)"
    "timeline_fetch st Before limit (Some c) = fetchBefore st (page_limit limit) (Some c)"
    using assms(2-4) by (simp_all add: timeline_fetch_def Let_def)
  show ?thesis unfolding a using fetchAfter_split[OF inc assms(2)] fetchBefore_split[OF inc] by blast
qed

text \<open>Seven rows: two chunks of an answer around a tool call that ends later.\<close>

definition demo_tool :: "tool_status \<Rightarrow> timeline_item" where
  "demo_tool st = Tool_call \<lparr>tc_callId = ''t1'', tc_name = ''sh'', tc_detail = D_shell ''ls'' None None None,
     tc_metadata = None, tc_status = st, tc_error = Some JNull, tc_extra = []\<rparr>"

definition demo_rows :: "timeline_row list" where
  "demo_rows = item_rows [User_message ''hi'' None None, Assistant_message ''a'' None, Assistant_message ''b'' None,
     demo_tool T_running, Reasoning ''r'', demo_tool T_completed, Assistant_message ''c'' None]"

lemma demo_rows_seqs: "map tr_seq demo_rows = [1..7]"
  by code_simp

lemma demo_rows_sorted: "sorted_wrt (<) (map tr_seq demo_rows)"
  unfolding demo_rows_seqs by simp

lemma projection_partitions_rows_witness:
  "map pe_ranges (projectTimelineRows demo_rows False) = [[(1, 1)], [(2, 3)], [(4, 4), (6, 6)], [(5, 5)], [(7, 7)]]
   \<and> mset (concat (map entry_seqs (projectTimelineRows demo_rows False))) = mset [1..7]"
proof -
  have "map pe_ranges (projectTimelineRows demo_rows False) = [[(1, 1)], [(2, 3)], [(4, 4), (6, 6)], [(5, 5)], [(7, 7)]]"
    by code_simp
  with projection_partitions_rows[OF demo_rows_sorted] show ?thesis by (simp only: demo_rows_seqs)
qed

lemma projected_window_closed_witness:
  "ws_bounds (selectTimelineWindowByProjectedLimit demo_rows Tail 2) = Some (4, 7)
   \<and> length (ws_rows (selectTimelineWindowByProjectedLimit demo_rows Tail 2)) = 4
   \<and> (\<exists>lo hi. ws_bounds (selectTimelineWindowByProjectedLimit demo_rows Tail 2) = Some (lo, hi)
       \<and> ws_rows (selectTimelineWindowByProjectedLimit demo_rows Tail 2) = filter (\<lambda>r. lo \<le> tr_seq r \<and> tr_seq r \<le> hi) demo_rows)"
proof -
  have v: "ws_bounds (selectTimelineWindowByProjectedLimit demo_rows Tail 2) = Some (4, 7)"
    "length (ws_rows (selectTimelineWindowByProjectedLimit demo_rows Tail 2)) = 4"
    by code_simp+
  have "demo_rows \<noteq> []" by code_simp
  from projected_window_closed[OF demo_rows_sorted this, of Tail 2] v show ?thesis by blast
qed

lemma forward_page_advances_witness:
  "\<exists>e. pg_endSeq (selectProjectedTimelinePage demo_rows None After (Some 3) (Some 1)) = Some e \<and> 3 < e \<and> e \<le> 7"
proof -
  have ne: "demo_rows \<noteq> []" and lst: "tr_seq (last demo_rows) = 7" and hd: "tr_seq (hd demo_rows) = 1" by code_simp+
  have c: "rows_contiguous demo_rows" using ne by (simp add: rows_contiguous_def lst hd demo_rows_seqs)
  from forward_page_advances[OF c ne, of 3 "Some 1"] show ?thesis by (auto simp: lst)
qed

definition demo_timeline :: timeline_state where
  "demo_timeline = \<lparr>ts_epoch = ''e'', ts_rows = demo_rows, ts_nextSeq = 8\<rparr>"

lemma fetched_page_splits_rows_witness:
  "map tr_seq (fr_rows (timeline_fetch demo_timeline Before (Some 2) (Some \<lparr>cu_epoch = ''e'', cu_seq = 5\<rparr>))) = [3, 4]
   \<and> fr_hasOlder (timeline_fetch demo_timeline Before (Some 2) (Some \<lparr>cu_epoch = ''e'', cu_seq = 5\<rparr>))
   \<and> (\<exists>older newer. demo_rows = older @ fr_rows (timeline_fetch demo_timeline Before (Some 2) (Some \<lparr>cu_epoch = ''e'', cu_seq = 5\<rparr>)) @ newer)"
proof -
  have v: "map tr_seq (fr_rows (timeline_fetch demo_timeline Before (Some 2) (Some \<lparr>cu_epoch = ''e'', cu_seq = 5\<rparr>))) = [3, 4]"
    "fr_hasOlder (timeline_fetch demo_timeline Before (Some 2) (Some \<lparr>cu_epoch = ''e'', cu_seq = 5\<rparr>))"
    by code_simp+
  have ne: "ts_rows demo_timeline \<noteq> []" and mn: "min_seq (ts_rows demo_timeline) = 1" by code_simp+
  have s: "sorted_wrt (<) (map tr_seq (ts_rows demo_timeline))" using demo_rows_sorted by (simp add: demo_timeline_def)
  from fetched_page_splits_rows[OF s ne, of "\<lparr>cu_epoch = ''e'', cu_seq = 5\<rparr>" "Some 2", THEN conjunct2] v mn
  show ?thesis by (auto simp: demo_timeline_def)
qed

end
