(* ===== verification/Workspace_Tabs.thy ===== *)
theory Workspace_Tabs
  imports Js_Json Complex_Main
begin

text \<open>
  The tabs of a workspace of the app: what a tab shows (\<open>app/src/workspace-tabs/model.ts\<close>), the
  normal form, equality and deterministic ids of targets (\<open>workspace-tabs/identity.ts\<close>,
  \<open>workspace/file-open\<close>), which side of the window supports a panel and when two targets are the
  same resource (\<open>panels/panel-manifest.ts\<close>). An optional property is an option, \<open>None\<close> being
  absence; finite numbers are rationals.
\<close>

section \<open>Targets\<close>

datatype js_real = Fin rat | Infinite bool | Not_a_number

fun real_eq :: "js_real \<Rightarrow> js_real \<Rightarrow> bool" where
  "real_eq (Fin a) (Fin b) = (a = b)"
| "real_eq (Infinite a) (Infinite b) = (a = b)"
| "real_eq _ _ = False"

fun opt_real_eq :: "js_real option \<Rightarrow> js_real option \<Rightarrow> bool" where
  "opt_real_eq None None = True"
| "opt_real_eq (Some a) (Some b) = real_eq a b"
| "opt_real_eq _ _ = False"

text \<open>The value of a feature is a primitive or a reference, which \<open>Object.is\<close> compares by address.\<close>

datatype feature_value = F_null | F_bool bool | F_num js_real | F_text string | F_ref nat

record draft_setup =
  ds_provider :: string
  ds_cwd :: string
  ds_modeId :: "string option"
  ds_model :: "string option"
  ds_thinking :: "string option"
  ds_features :: "(string \<times> feature_value) list"

text \<open>A plugin panel of the context \<open>agent\<close> names its agent, one of the context \<open>workspace\<close> does not.\<close>

datatype tab_target =
    Tab_new
  | Tab_draft string "draft_setup option"
  | Tab_agent string
  | Tab_subagent string string
  | Tab_terminal string
  | Tab_browser string
  | Tab_changes_tree
  | Tab_files
  | Tab_pull_request
  | Tab_file string "js_real option" "js_real option"
  | Tab_working_diff "string option" "js_real option"
  | Tab_plugin string string "string option"
  | Tab_setup string
  | Tab_commit_diff string

record workspace_tab =
  wt_id :: string
  wt_target :: tab_target
  wt_createdAt :: js_real
  wt_state :: "json option"

definition tab_kind :: "tab_target \<Rightarrow> string" where
  "tab_kind t =
     (case t of
        Tab_new \<Rightarrow> ''new_tab''
      | Tab_draft _ _ \<Rightarrow> ''draft''
      | Tab_agent _ \<Rightarrow> ''agent''
      | Tab_subagent _ _ \<Rightarrow> ''provider_subagent''
      | Tab_terminal _ \<Rightarrow> ''terminal''
      | Tab_browser _ \<Rightarrow> ''browser''
      | Tab_changes_tree \<Rightarrow> ''changes_tree''
      | Tab_files \<Rightarrow> ''files''
      | Tab_pull_request \<Rightarrow> ''pull_request''
      | Tab_file _ _ _ \<Rightarrow> ''file''
      | Tab_working_diff _ _ \<Rightarrow> ''working_diff''
      | Tab_plugin _ _ _ \<Rightarrow> ''plugin''
      | Tab_setup _ \<Rightarrow> ''setup''
      | Tab_commit_diff _ \<Rightarrow> ''commit_diff'')"

section \<open>Normal forms\<close>

definition trimNonEmpty :: "string option \<Rightarrow> string option" where
  "trimNonEmpty v =
     (case v of None \<Rightarrow> None | Some s \<Rightarrow> if trim s \<noteq> [] then Some (trim s) else None)"

definition slashes :: "string \<Rightarrow> string" where
  "slashes = map (\<lambda>c. if c = CHR 0x5C then CHR ''/'' else c)"

text \<open>Zero is falsy, so a positive number below one counts as absent where the result is used.\<close>

definition floor_positive :: "js_real option \<Rightarrow> rat option" where
  "floor_positive v =
     (case v of Some (Fin q) \<Rightarrow> if q > 0 then Some (of_int \<lfloor>q\<rfloor>) else None | _ \<Rightarrow> None)"

definition truthy :: "rat option \<Rightarrow> rat option" where
  "truthy v = (case v of Some q \<Rightarrow> if q \<noteq> 0 then Some q else None | None \<Rightarrow> None)"

definition normalizeWorkspaceFileLocation ::
    "string \<Rightarrow> js_real option \<Rightarrow> js_real option \<Rightarrow> (string \<times> js_real option \<times> js_real option) option" where
  "normalizeWorkspaceFileLocation path lineStart lineEnd =
     (let p = slashes (trim path) in
      if p = [] then None
      else let s = truthy (floor_positive lineStart); e = truthy (floor_positive lineEnd) in
        Some (p, map_option Fin s,
              case (s, e) of (Some a, Some b) \<Rightarrow> if b \<ge> a then Some (Fin b) else None | _ \<Rightarrow> None))"

definition normalizeWorkspaceDraftTabSetup :: "draft_setup option \<Rightarrow> draft_setup option" where
  "normalizeWorkspaceDraftTabSetup v =
     (case v of
        None \<Rightarrow> None
      | Some r \<Rightarrow>
          (case (trimNonEmpty (Some (ds_provider r)), trimNonEmpty (Some (ds_cwd r))) of
             (Some provider, Some cwd) \<Rightarrow>
               Some \<lparr>ds_provider = provider, ds_cwd = cwd,
                     ds_modeId = trimNonEmpty (ds_modeId r), ds_model = trimNonEmpty (ds_model r),
                     ds_thinking = trimNonEmpty (ds_thinking r), ds_features = ds_features r\<rparr>
           | _ \<Rightarrow> None))"

definition one_id :: "(string \<Rightarrow> tab_target) \<Rightarrow> string \<Rightarrow> tab_target option" where
  "one_id c s = map_option c (trimNonEmpty (Some s))"

definition normalizePluginTabTarget :: "string \<Rightarrow> string \<Rightarrow> string option \<Rightarrow> tab_target option" where
  "normalizePluginTabTarget pluginId panelId agentId =
     (case (trimNonEmpty (Some pluginId), trimNonEmpty (Some panelId)) of
        (Some p, Some n) \<Rightarrow>
          (case agentId of
             None \<Rightarrow> Some (Tab_plugin p n None)
           | Some a \<Rightarrow> map_option (\<lambda>b. Tab_plugin p n (Some b)) (trimNonEmpty (Some a)))
      | _ \<Rightarrow> None)"

fun normalizeWorkspaceTabTarget :: "tab_target \<Rightarrow> tab_target option" where
  "normalizeWorkspaceTabTarget (Tab_draft d setup) =
     map_option (\<lambda>i. Tab_draft i (normalizeWorkspaceDraftTabSetup setup)) (trimNonEmpty (Some d))"
| "normalizeWorkspaceTabTarget Tab_new = Some Tab_new"
| "normalizeWorkspaceTabTarget (Tab_agent a) = one_id Tab_agent a"
| "normalizeWorkspaceTabTarget (Tab_subagent p s) =
     (case (trimNonEmpty (Some p), trimNonEmpty (Some s)) of
        (Some a, Some b) \<Rightarrow> Some (Tab_subagent a b) | _ \<Rightarrow> None)"
| "normalizeWorkspaceTabTarget (Tab_file path ls le) =
     map_option (\<lambda>(p, s, e). Tab_file p s e) (normalizeWorkspaceFileLocation path ls le)"
| "normalizeWorkspaceTabTarget (Tab_working_diff focusPath reqId) =
     Some (Tab_working_diff (map_option slashes (trimNonEmpty focusPath))
             (map_option Fin (truthy (floor_positive reqId))))"
| "normalizeWorkspaceTabTarget (Tab_plugin p n a) = normalizePluginTabTarget p n a"
| "normalizeWorkspaceTabTarget (Tab_terminal t) = one_id Tab_terminal t"
| "normalizeWorkspaceTabTarget (Tab_browser b) = one_id Tab_browser b"
| "normalizeWorkspaceTabTarget Tab_changes_tree = Some Tab_changes_tree"
| "normalizeWorkspaceTabTarget Tab_files = Some Tab_files"
| "normalizeWorkspaceTabTarget Tab_pull_request = Some Tab_pull_request"
| "normalizeWorkspaceTabTarget (Tab_setup w) = one_id Tab_setup w"
| "normalizeWorkspaceTabTarget (Tab_commit_diff s) = one_id Tab_commit_diff s"

section \<open>Equality, ids and resources\<close>

definition recordsShallowEqual :: "(string \<times> feature_value) list \<Rightarrow> (string \<times> feature_value) list \<Rightarrow> bool" where
  "recordsShallowEqual l r \<longleftrightarrow>
     length l = length r \<and>
     list_all (\<lambda>k. map_of r k \<noteq> None \<and> map_of l k = map_of r k) (map fst l)"

definition workspaceDraftTabSetupsEqual :: "draft_setup option \<Rightarrow> draft_setup option \<Rightarrow> bool" where
  "workspaceDraftTabSetupsEqual a b =
     (case (a, b) of
        (Some l, Some r) \<Rightarrow>
          ds_provider l = ds_provider r \<and> ds_cwd l = ds_cwd r \<and> ds_modeId l = ds_modeId r \<and>
          ds_model l = ds_model r \<and> ds_thinking l = ds_thinking r \<and>
          recordsShallowEqual (ds_features l) (ds_features r)
      | (None, None) \<Rightarrow> True
      | _ \<Rightarrow> False)"

definition workspaceTabTargetsEqual :: "tab_target \<Rightarrow> tab_target \<Rightarrow> bool" where
  "workspaceTabTargetsEqual left right =
     (case left of
        Tab_draft i a \<Rightarrow> (case right of Tab_draft j b \<Rightarrow> i = j \<and> workspaceDraftTabSetupsEqual a b | _ \<Rightarrow> False)
      | Tab_file p s e \<Rightarrow>
          (case right of Tab_file q t f \<Rightarrow> p = q \<and> opt_real_eq s t \<and> opt_real_eq e f | _ \<Rightarrow> False)
      | Tab_working_diff p a \<Rightarrow>
          (case right of Tab_working_diff q b \<Rightarrow> p = q \<and> opt_real_eq a b | _ \<Rightarrow> False)
      | Tab_new \<Rightarrow> False
      | _ \<Rightarrow> left = right)"

datatype layout_error = Invariant_failed string | Undefined_node | No_deterministic_identity

definition counted :: "string \<Rightarrow> string" where
  "counted s = show_nat (length s) @ ''_'' @ s"

fun buildDeterministicWorkspaceTabId :: "tab_target \<Rightarrow> layout_error + string" where
  "buildDeterministicWorkspaceTabId Tab_new = Inl No_deterministic_identity"
| "buildDeterministicWorkspaceTabId (Tab_draft d _) = Inr d"
| "buildDeterministicWorkspaceTabId (Tab_agent a) = Inr (''agent_'' @ a)"
| "buildDeterministicWorkspaceTabId (Tab_subagent p s) =
     Inr (''provider_subagent_'' @ counted p @ ''_'' @ counted s)"
| "buildDeterministicWorkspaceTabId (Tab_terminal t) = Inr (''terminal_'' @ t)"
| "buildDeterministicWorkspaceTabId (Tab_browser b) = Inr (''browser_'' @ b)"
| "buildDeterministicWorkspaceTabId (Tab_setup w) = Inr (''setup_'' @ w)"
| "buildDeterministicWorkspaceTabId (Tab_commit_diff s) = Inr (''commit_diff_'' @ s)"
| "buildDeterministicWorkspaceTabId (Tab_working_diff _ _) = Inr ''working_diff''"
| "buildDeterministicWorkspaceTabId Tab_changes_tree = Inr ''changes_tree''"
| "buildDeterministicWorkspaceTabId Tab_files = Inr ''files''"
| "buildDeterministicWorkspaceTabId Tab_pull_request = Inr ''pull_request''"
| "buildDeterministicWorkspaceTabId (Tab_plugin p n None) =
     Inr (''plugin_workspace_'' @ counted p @ ''_'' @ counted n)"
| "buildDeterministicWorkspaceTabId (Tab_plugin p n (Some a)) =
     Inr (''plugin_agent_'' @ counted p @ ''_'' @ counted n @ ''_'' @ counted a)"
| "buildDeterministicWorkspaceTabId (Tab_file path _ _) = Inr (''file_'' @ path)"

datatype pane_host = Host_main | Host_explorer

definition panelSupportsHost :: "tab_target \<Rightarrow> pane_host \<Rightarrow> bool" where
  "panelSupportsHost t h =
     (case t of
        Tab_browser _ \<Rightarrow> h = Host_main
      | Tab_setup _ \<Rightarrow> h = Host_main
      | Tab_changes_tree \<Rightarrow> h = Host_explorer
      | Tab_files \<Rightarrow> h = Host_explorer
      | _ \<Rightarrow> True)"

fun resource_key :: "tab_target \<Rightarrow> string" where
  "resource_key Tab_new = ''new_tab''"
| "resource_key (Tab_draft d _) = d"
| "resource_key (Tab_agent a) = a"
| "resource_key (Tab_subagent p s) = p @ '':'' @ s"
| "resource_key (Tab_terminal t) = t"
| "resource_key (Tab_browser b) = b"
| "resource_key Tab_changes_tree = ''changes_tree''"
| "resource_key Tab_files = ''files''"
| "resource_key Tab_pull_request = ''pull_request''"
| "resource_key (Tab_file path _ _) = path"
| "resource_key (Tab_working_diff _ _) = ''working_diff''"
| "resource_key (Tab_plugin p n (Some a)) = p @ '':'' @ n @ '':agent:'' @ a"
| "resource_key (Tab_plugin p n None) = p @ '':'' @ n @ '':workspace''"
| "resource_key (Tab_setup w) = w"
| "resource_key (Tab_commit_diff s) = s"

definition panelResourceKey :: "tab_target \<Rightarrow> string" where
  "panelResourceKey t = tab_kind t @ '':'' @ resource_key t"

definition createNewWorkspaceTab :: "string \<Rightarrow> js_real \<Rightarrow> workspace_tab" where
  "createNewWorkspaceTab messageId now =
     \<lparr>wt_id = ''tab_'' @ messageId, wt_target = Tab_new, wt_createdAt = now, wt_state = None\<rparr>"

end
