(* ===== verification/Split_Tree.thy ===== *)
theory Split_Tree
  imports Workspace_Tabs
begin

text \<open>
  The split tree of a workspace (\<open>app/src/stores/workspace-layout-actions.ts\<close>): panes with tabs,
  groups of at least two children with sizes, the walks along paths and the edits of the tree. A
  violated \<open>invariant\<close> is a thrown error. Parameters: the random part of the id of a New tab (by the
  pane it is made for, at most one in a call), the clock, and the ids of new nodes. Sizes are exact.
\<close>

section \<open>Data\<close>

record split_pane =
  sp_id :: string
  sp_tabs :: "workspace_tab list"
  sp_tabIds :: "string list"
  sp_focusedTabId :: "string option"
  sp_hidden :: bool

datatype split_dir = Horizontal | Vertical

datatype split_node = Pane split_pane | Group string split_dir "split_node list" "rat list"

record layout_env =
  le_now :: js_real
  le_messageId :: "string \<Rightarrow> string"
  le_paneId :: string
  le_groupId :: string

definition new_tab :: "layout_env \<Rightarrow> string \<Rightarrow> workspace_tab" where
  "new_tab env paneId = createNewWorkspaceTab (le_messageId env paneId) (le_now env)"

section \<open>Normal forms of tabs and sizes\<close>

definition normalizeTabIds :: "string list \<Rightarrow> string list" where
  "normalizeTabIds xs = dedup_by id [] (List.map_filter (\<lambda>v. trimNonEmpty (Some v)) xs)"

text \<open>The deterministic id is asked for only when the target is not a New tab, so it is there.\<close>

definition normalizeWorkspaceTab :: "workspace_tab \<Rightarrow> workspace_tab option" where
  "normalizeWorkspaceTab tab =
     (case normalizeWorkspaceTabTarget (wt_target tab) of
        None \<Rightarrow> None
      | Some target \<Rightarrow>
          (case trimNonEmpty (Some (wt_id tab)) of
             Some i \<Rightarrow> Some (tab\<lparr>wt_id := i, wt_target := target\<rparr>)
           | None \<Rightarrow>
               (case buildDeterministicWorkspaceTabId target of
                  Inl _ \<Rightarrow> None
                | Inr i \<Rightarrow> if i = [] then None else Some (tab\<lparr>wt_id := i, wt_target := target\<rparr>))))"

definition normalizeWorkspaceTabs :: "workspace_tab list \<Rightarrow> workspace_tab list" where
  "normalizeWorkspaceTabs tabs = dedup_by wt_id [] (List.map_filter normalizeWorkspaceTab tabs)"

definition pick_focus :: "string list \<Rightarrow> string option \<Rightarrow> string option" where
  "pick_focus tabIds f =
     (if (case f of None \<Rightarrow> [] | Some i \<Rightarrow> i) \<in> set tabIds then f else last_opt tabIds)"

definition createPaneNode :: "string \<Rightarrow> workspace_tab list \<Rightarrow> string option \<Rightarrow> bool \<Rightarrow> split_node" where
  "createPaneNode i tabs focused hid =
     (let ts = normalizeWorkspaceTabs tabs; tabIds = map wt_id ts in
      Pane \<lparr>sp_id = i, sp_tabs = ts, sp_tabIds = tabIds,
            sp_focusedTabId = pick_focus tabIds focused, sp_hidden = hid\<rparr>)"

definition normalizePaneAfterTabChange :: "split_pane \<Rightarrow> split_pane" where
  "normalizePaneAfterTabChange p =
     (let ts = normalizeWorkspaceTabs (sp_tabs p); tabIds = map wt_id ts in
      \<lparr>sp_id = sp_id p, sp_tabs = ts, sp_tabIds = tabIds,
       sp_focusedTabId = pick_focus tabIds (sp_focusedTabId p), sp_hidden = sp_hidden p\<rparr>)"

definition ensureRetainedPaneHasTab :: "layout_env \<Rightarrow> split_pane \<Rightarrow> split_pane" where
  "ensureRetainedPaneHasTab env p =
     (if sp_tabs p \<noteq> [] then p
      else let t = new_tab env (sp_id p) in
        normalizePaneAfterTabChange (p\<lparr>sp_tabs := [t], sp_focusedTabId := Some (wt_id t)\<rparr>))"

definition isSoleNewTabPane :: "split_pane \<Rightarrow> bool" where
  "isSoleNewTabPane p \<longleftrightarrow> (case sp_tabs p of [t] \<Rightarrow> wt_target t = Tab_new | _ \<Rightarrow> False)"

definition sane_size :: "js_real \<Rightarrow> rat" where
  "sane_size v = (case v of Fin q \<Rightarrow> if q > 0 then q else 1 | _ \<Rightarrow> 1)"

definition normalizeSizes :: "js_real list \<Rightarrow> nat \<Rightarrow> rat list" where
  "normalizeSizes sizes n =
     (if n = 0 then []
      else let raw = take n sizes; padded = raw @ replicate (n - length raw) (Fin 1);
               sanitized = map sane_size padded; total = sum_list sanitized in
        if total \<le> 0 then replicate n (1 / of_nat n) else map (\<lambda>v. v / total) sanitized)"

definition MIN_SPLIT_SIZE :: rat where
  "MIN_SPLIT_SIZE = 1 / 10"

definition size_at :: "rat list \<Rightarrow> nat \<Rightarrow> rat" where
  "size_at xs i = (if i < length xs then xs ! i else 0)"

definition put_sizes :: "(nat \<Rightarrow> rat) \<Rightarrow> nat list \<Rightarrow> rat list \<Rightarrow> rat list" where
  "put_sizes f is next = fold (\<lambda>i ns. ns[i := f i]) is next"

function clamp_loop :: "rat list \<Rightarrow> nat list \<Rightarrow> rat \<Rightarrow> rat list \<Rightarrow> rat list" where
  "clamp_loop normalized unlocked remaining next =
     (if unlocked = [] then next
      else let weight = sum_list (map (size_at normalized) unlocked);
               share = (\<lambda>i. size_at normalized i / weight * remaining) in
        if weight \<le> 0 then put_sizes (\<lambda>_. remaining / of_nat (length unlocked)) unlocked next
        else let locked = filter (\<lambda>i. share i < MIN_SPLIT_SIZE) unlocked in
          if locked = [] then put_sizes share unlocked next
          else clamp_loop normalized (filter (\<lambda>i. i \<notin> set locked) unlocked)
                 (remaining - of_nat (length locked) * MIN_SPLIT_SIZE)
                 (put_sizes (\<lambda>_. MIN_SPLIT_SIZE) locked next))"
  by pat_completeness auto
termination
  by (relation "measure (\<lambda>(_, unlocked, _, _). length unlocked)")
    (auto simp: filter_empty_conv intro!: length_filter_less)

declare clamp_loop.simps [simp del]

definition clampNormalizedSizes :: "js_real list \<Rightarrow> rat list" where
  "clampNormalizedSizes sizes =
     (let n = length sizes; normalized = normalizeSizes sizes n in
      if n = 0 then []
      else if n = 1 then [1]
      else if of_nat n * MIN_SPLIT_SIZE > 1 then replicate n (1 / of_nat n)
      else normalizeSizes (map Fin (clamp_loop normalized [0..<n] 1 (replicate n 0))) n)"

definition createGroupNode :: "string \<Rightarrow> split_dir \<Rightarrow> split_node list \<Rightarrow> rat list \<Rightarrow> split_node" where
  "createGroupNode i d cs sizes = Group i d cs (normalizeSizes (map Fin sizes) (length cs))"

section \<open>Walks\<close>

fun findPanePath :: "(split_pane \<Rightarrow> bool) \<Rightarrow> split_node \<Rightarrow> nat list \<Rightarrow> nat list option"
  and findPanePaths :: "(split_pane \<Rightarrow> bool) \<Rightarrow> split_node list \<Rightarrow> nat \<Rightarrow> nat list \<Rightarrow> nat list option" where
  "findPanePath P (Pane p) path = (if P p then Some path else None)"
| "findPanePath P (Group i d cs ss) path = findPanePaths P cs 0 path"
| "findPanePaths P [] k path = None"
| "findPanePaths P (c # cs) k path =
     (case findPanePath P c (path @ [k]) of Some q \<Rightarrow> Some q | None \<Rightarrow> findPanePaths P cs (Suc k) path)"

definition findPanePathById :: "split_node \<Rightarrow> string \<Rightarrow> nat list option" where
  "findPanePathById tree paneId = findPanePath (\<lambda>p. sp_id p = paneId) tree []"

definition has_tab :: "string \<Rightarrow> split_pane \<Rightarrow> bool" where
  "has_tab tabId p \<longleftrightarrow> list_ex (\<lambda>t. wt_id t = tabId) (sp_tabs p)"

definition findPanePathContainingTab :: "split_node \<Rightarrow> string \<Rightarrow> nat list option" where
  "findPanePathContainingTab tree tabId = findPanePath (has_tab tabId) tree []"

fun findGroupPath :: "string \<Rightarrow> split_node \<Rightarrow> nat list \<Rightarrow> nat list option"
  and findGroupPaths :: "string \<Rightarrow> split_node list \<Rightarrow> nat \<Rightarrow> nat list \<Rightarrow> nat list option" where
  "findGroupPath g (Pane p) path = None"
| "findGroupPath g (Group i d cs ss) path = (if i = g then Some path else findGroupPaths g cs 0 path)"
| "findGroupPaths g [] k path = None"
| "findGroupPaths g (c # cs) k path =
     (case findGroupPath g c (path @ [k]) of Some q \<Rightarrow> Some q | None \<Rightarrow> findGroupPaths g cs (Suc k) path)"

definition findGroupPathById :: "split_node \<Rightarrow> string \<Rightarrow> nat list option" where
  "findGroupPathById tree groupId = findGroupPath groupId tree []"

fun getNodeAtPath :: "split_node \<Rightarrow> nat list \<Rightarrow> layout_error + split_node" where
  "getNodeAtPath n [] = Inr n"
| "getNodeAtPath (Pane p) (k # ks) = Inl (Invariant_failed ''Expected group while traversing split tree'')"
| "getNodeAtPath (Group i d cs ss) (k # ks) =
     (if k < length cs then getNodeAtPath (cs ! k) ks else Inl Undefined_node)"

fun replaceNodeAtPath ::
    "split_node \<Rightarrow> nat list \<Rightarrow> (split_node \<Rightarrow> layout_error + split_node) \<Rightarrow> layout_error + split_node" where
  "replaceNodeAtPath n [] u = u n"
| "replaceNodeAtPath (Pane p) (k # ks) u =
     Inl (Invariant_failed ''Expected group while replacing split tree node'')"
| "replaceNodeAtPath (Group i d cs ss) (k # ks) u =
     (if k < length cs
      then ebind (replaceNodeAtPath (cs ! k) ks u) (\<lambda>c. Inr (createGroupNode i d (cs[k := c]) ss))
      else Inr (createGroupNode i d cs ss))"

definition findParentGroup :: "split_node \<Rightarrow> nat list \<Rightarrow> layout_error + split_node option" where
  "findParentGroup tree path =
     (if path = [] then Inr None else ebind (getNodeAtPath tree (butlast path)) (\<lambda>n. Inr (Some n)))"

fun listPaneIds :: "split_node \<Rightarrow> string list" where
  "listPaneIds (Pane p) = (if sp_hidden p then [] else [sp_id p])"
| "listPaneIds (Group i d cs ss) = concat (map listPaneIds cs)"

fun nearest_sibling :: "split_node \<Rightarrow> nat list \<Rightarrow> nat \<Rightarrow> layout_error + string option" where
  "nearest_sibling tree path 0 = Inr None"
| "nearest_sibling tree path (Suc depth) =
     ebind (getNodeAtPath tree (take depth path)) (\<lambda>parent.
       case parent of
         Pane p \<Rightarrow> Inl (Invariant_failed ''Expected parent group for pane lookup'')
       | Group i d cs ss \<Rightarrow>
           (let k = path ! depth in
            case find (\<lambda>ids. ids \<noteq> []) (map listPaneIds (rev (take k cs))) of
              Some ids \<Rightarrow> Inr (Some (last ids))
            | None \<Rightarrow>
                (case find (\<lambda>ids. ids \<noteq> []) (map listPaneIds (drop (Suc k) cs)) of
                   Some ids \<Rightarrow> Inr (Some (hd ids))
                 | None \<Rightarrow> nearest_sibling tree path depth)))"

definition findNearestSiblingPaneId :: "split_node \<Rightarrow> string \<Rightarrow> layout_error + string option" where
  "findNearestSiblingPaneId tree paneId =
     (case findPanePathById tree paneId of
        None \<Rightarrow> Inr None
      | Some path \<Rightarrow> nearest_sibling tree path (length path))"

fun findPane :: "(split_pane \<Rightarrow> bool) \<Rightarrow> split_node \<Rightarrow> split_pane option"
  and findPanes :: "(split_pane \<Rightarrow> bool) \<Rightarrow> split_node list \<Rightarrow> split_pane option" where
  "findPane P (Pane p) = (if P p then Some p else None)"
| "findPane P (Group i d cs ss) = findPanes P cs"
| "findPanes P [] = None"
| "findPanes P (c # cs) = (case findPane P c of Some p \<Rightarrow> Some p | None \<Rightarrow> findPanes P cs)"

definition findPaneById :: "split_node \<Rightarrow> string option \<Rightarrow> split_pane option" where
  "findPaneById tree paneId =
     (case paneId of
        None \<Rightarrow> None
      | Some i \<Rightarrow> if i = [] then None else findPane (\<lambda>p. sp_id p = i) tree)"

definition findPaneContainingTab :: "split_node \<Rightarrow> string \<Rightarrow> split_pane option" where
  "findPaneContainingTab tree tabId = findPane (has_tab tabId) tree"

fun getTreeDepth :: "split_node \<Rightarrow> nat" where
  "getTreeDepth (Pane p) = 1"
| "getTreeDepth (Group i d cs ss) = 1 + fold max (map getTreeDepth cs) 0"

fun collectAllTabs :: "split_node \<Rightarrow> workspace_tab list" where
  "collectAllTabs (Pane p) = sp_tabs p"
| "collectAllTabs (Group i d cs ss) = concat (map collectAllTabs cs)"

fun collectAllPanes :: "split_node \<Rightarrow> split_pane list" where
  "collectAllPanes (Pane p) = (if sp_hidden p then [] else [p])"
| "collectAllPanes (Group i d cs ss) = concat (map collectAllPanes cs)"

section \<open>Normal form of the tree\<close>

definition normalizePaneNode :: "layout_env \<Rightarrow> split_pane \<Rightarrow> split_node option" where
  "normalizePaneNode env raw =
     (case trimNonEmpty (Some (sp_id raw)) of
        None \<Rightarrow> None
      | Some paneId \<Rightarrow>
          (let tabs = normalizeWorkspaceTabs (sp_tabs raw); tabIds = normalizeTabIds (sp_tabIds raw);
               merged = (if tabs \<noteq> [] then tabs
                         else map (\<lambda>i. \<lparr>wt_id = i, wt_target = Tab_draft i None,
                                        wt_createdAt = le_now env, wt_state = None\<rparr>) tabIds) in
           Some (createPaneNode paneId merged (trimNonEmpty (sp_focusedTabId raw)) (sp_hidden raw))))"

fun normalizeNode :: "layout_env \<Rightarrow> split_node \<Rightarrow> split_node option" where
  "normalizeNode env (Pane p) = normalizePaneNode env p"
| "normalizeNode env (Group i d cs ss) =
     (case trimNonEmpty (Some i) of
        None \<Rightarrow> None
      | Some g \<Rightarrow>
          (case List.map_filter id (map (normalizeNode env) cs) of
             [] \<Rightarrow> None
           | [c] \<Rightarrow> Some c
           | cs' \<Rightarrow> Some (createGroupNode g d cs' ss)))"

section \<open>Edits\<close>

definition reorderTabsForPane :: "split_pane \<Rightarrow> string list \<Rightarrow> split_pane" where
  "reorderTabsForPane p tabIds =
     (let byId = map_of (rev (map (\<lambda>t. (wt_id t, t)) (sp_tabs p)));
          listed = dedup_by wt_id [] (List.map_filter byId (normalizeTabIds tabIds));
          others = dedup_by wt_id (map wt_id listed) (sp_tabs p) in
      normalizePaneAfterTabChange (p\<lparr>sp_tabs := listed @ others\<rparr>))"

definition removePaneByPath :: "layout_env \<Rightarrow> split_node \<Rightarrow> nat list \<Rightarrow> layout_error + split_node" where
  "removePaneByPath env tree path =
     (if path = [] then
        (case tree of
           Pane p \<Rightarrow> Inr (createPaneNode (sp_id p) [new_tab env (sp_id p)] None False)
         | Group i d cs ss \<Rightarrow> Inl (Invariant_failed ''Expected pane at root while removing pane''))
      else
        ebind (getNodeAtPath tree (butlast path)) (\<lambda>parent.
          case parent of
            Pane p \<Rightarrow> Inl (Invariant_failed ''Expected parent group while removing pane'')
          | Group i d cs ss \<Rightarrow>
              (let k = last path; cs' = remove_nth k cs in
               if cs' = [] then Inl (Invariant_failed ''Split tree cannot remove the final pane'')
               else let next = (case cs' of [c] \<Rightarrow> c | _ \<Rightarrow> createGroupNode i d cs' (remove_nth k ss)) in
                 replaceNodeAtPath tree (butlast path) (\<lambda>_. Inr next))))"

record detached =
  de_tree :: split_node
  de_tab :: "workspace_tab option"
  de_source :: "string option"

definition detachTabFromTree ::
    "layout_env \<Rightarrow> split_node \<Rightarrow> string \<Rightarrow> string option \<Rightarrow> layout_error + detached" where
  "detachTabFromTree env tree tabId preserve =
     (case findPanePathContainingTab tree tabId of
        None \<Rightarrow> Inr \<lparr>de_tree = tree, de_tab = None, de_source = None\<rparr>
      | Some path \<Rightarrow>
          ebind (getNodeAtPath tree path) (\<lambda>node.
            case node of
              Group i d cs ss \<Rightarrow> Inl (Invariant_failed ''Expected pane while detaching tab'')
            | Pane p \<Rightarrow>
                (case find (\<lambda>t. wt_id t = tabId) (sp_tabs p) of
                   None \<Rightarrow> Inr \<lparr>de_tree = tree, de_tab = None, de_source = Some (sp_id p)\<rparr>
                 | Some tab \<Rightarrow>
                     (let next = normalizePaneAfterTabChange
                                   (p\<lparr>sp_tabs := filter (\<lambda>t. wt_id t \<noteq> tabId) (sp_tabs p)\<rparr>) in
                      ebind (replaceNodeAtPath tree path (\<lambda>_. Inr (Pane next))) (\<lambda>nextTree.
                        ebind
                          (if sp_tabs next \<noteq> [] then Inr nextTree
                           else if Some (sp_id next) = preserve then
                             replaceNodeAtPath nextTree path
                               (\<lambda>_. Inr (Pane (ensureRetainedPaneHasTab env next)))
                           else removePaneByPath env nextTree path)
                          (\<lambda>t. Inr \<lparr>de_tree = t, de_tab = Some tab, de_source = Some (sp_id p)\<rparr>))))))"

definition insertTabIntoPane ::
    "split_node \<Rightarrow> string \<Rightarrow> workspace_tab \<Rightarrow> string option \<Rightarrow> layout_error + split_node" where
  "insertTabIntoPane tree paneId tab focusTabId =
     (case findPanePathById tree paneId of
        None \<Rightarrow> Inl (Invariant_failed (''Pane not found: '' @ paneId))
      | Some path \<Rightarrow>
          replaceNodeAtPath tree path (\<lambda>node.
            case node of
              Group i d cs ss \<Rightarrow> Inl (Invariant_failed ''Expected pane while inserting tab'')
            | Pane p \<Rightarrow>
                (let tabs =
                       (if wt_target tab \<noteq> Tab_new \<and> isSoleNewTabPane p then [tab]
                        else if has_tab (wt_id tab) p
                        then replace_first (\<lambda>t. wt_id t = wt_id tab) (\<lambda>_. tab) (sp_tabs p)
                        else sp_tabs p @ [tab]);
                     focus = (case focusTabId of None \<Rightarrow> wt_id tab | Some f \<Rightarrow> f) in
                 Inr (Pane (normalizePaneAfterTabChange (p\<lparr>sp_tabs := tabs, sp_focusedTabId := Some focus\<rparr>))))))"

definition focusTabInPane :: "split_node \<Rightarrow> string \<Rightarrow> string \<Rightarrow> layout_error + split_node" where
  "focusTabInPane tree paneId tabId =
     (case findPanePathById tree paneId of
        None \<Rightarrow> Inl (Invariant_failed (''Pane not found: '' @ paneId))
      | Some path \<Rightarrow>
          replaceNodeAtPath tree path (\<lambda>node.
            case node of
              Group i d cs ss \<Rightarrow> Inl (Invariant_failed ''Expected pane while focusing tab'')
            | Pane p \<Rightarrow>
                Inr (Pane (normalizePaneAfterTabChange
                             (p\<lparr>sp_focusedTabId := Some tabId, sp_hidden := False\<rparr>)))))"

definition replaceTabInTree ::
    "split_node \<Rightarrow> string \<Rightarrow> string \<Rightarrow> tab_target \<Rightarrow> json option \<Rightarrow> layout_error + split_node" where
  "replaceTabInTree tree tabId nextTabId target state =
     (case findPanePathContainingTab tree tabId of
        None \<Rightarrow> Inl (Invariant_failed (''Tab not found: '' @ tabId))
      | Some path \<Rightarrow>
          replaceNodeAtPath tree path (\<lambda>node.
            case node of
              Group i d cs ss \<Rightarrow> Inl (Invariant_failed ''Expected pane while replacing tab'')
            | Pane p \<Rightarrow>
                Inr (Pane (normalizePaneAfterTabChange
                  (p\<lparr>sp_tabs :=
                       map (\<lambda>t. if wt_id t \<noteq> tabId then t
                                 else \<lparr>wt_id = nextTabId, wt_target = target,
                                        wt_createdAt = wt_createdAt t, wt_state = state\<rparr>) (sp_tabs p),
                     sp_focusedTabId :=
                       if sp_focusedTabId p = Some tabId then Some nextTabId else sp_focusedTabId p\<rparr>)))))"

definition updateGroupSizesInTree :: "split_node \<Rightarrow> string \<Rightarrow> js_real list \<Rightarrow> layout_error + split_node" where
  "updateGroupSizesInTree tree groupId sizes =
     (case findGroupPathById tree groupId of
        None \<Rightarrow> Inr tree
      | Some path \<Rightarrow>
          replaceNodeAtPath tree path (\<lambda>node.
            case node of
              Pane p \<Rightarrow> Inl (Invariant_failed ''Expected group while resizing split'')
            | Group i d cs ss \<Rightarrow>
                if length sizes \<noteq> length cs then Inr node
                else Inr (createGroupNode i d cs (clampNormalizedSizes sizes))))"

definition updatePaneInTree ::
    "split_node \<Rightarrow> string \<Rightarrow> (split_pane \<Rightarrow> split_pane) \<Rightarrow> layout_error + split_node" where
  "updatePaneInTree tree paneId updater =
     (case findPanePathById tree paneId of
        None \<Rightarrow> Inr tree
      | Some path \<Rightarrow>
          replaceNodeAtPath tree path (\<lambda>node.
            case node of
              Group i d cs ss \<Rightarrow> Inl (Invariant_failed ''Expected pane while updating pane'')
            | Pane p \<Rightarrow> Inr (Pane (normalizePaneAfterTabChange (updater p)))))"

section \<open>Splits\<close>

datatype split_position = At_left | At_right | At_top | At_bottom

definition split_direction :: "split_position \<Rightarrow> split_dir" where
  "split_direction pos = (if pos = At_left \<or> pos = At_right then Horizontal else Vertical)"

definition insert_after :: "split_position \<Rightarrow> bool" where
  "insert_after pos \<longleftrightarrow> pos = At_right \<or> pos = At_bottom"

definition insertChildIntoGroup :: "split_node \<Rightarrow> nat \<Rightarrow> split_node \<Rightarrow> rat list \<Rightarrow> layout_error + split_node" where
  "insertChildIntoGroup groupNode k node sizes =
     (case groupNode of
        Pane p \<Rightarrow> Inl (Invariant_failed ''Expected group for split insertion'')
      | Group i d cs ss \<Rightarrow> Inr (createGroupNode i d (insert_nth k node cs) sizes))"

text \<open>The end that \<open>insertSplitInternal\<close> and \<open>splitPaneEmptyInLayout\<close> share.\<close>

definition place_beside ::
    "layout_env \<Rightarrow> split_node \<Rightarrow> nat list \<Rightarrow> split_node \<Rightarrow> split_position \<Rightarrow> split_node \<Rightarrow>
     layout_error + split_node" where
  "place_beside env tree targetPath targetNode pos newPane =
     (let direction = split_direction pos; after = insert_after pos in
      ebind (findParentGroup tree targetPath) (\<lambda>parent.
        let targetIndex = (if targetPath = [] then 0 else last targetPath);
            wrap = replaceNodeAtPath tree targetPath (\<lambda>_. Inr
              (createGroupNode (le_groupId env) direction
                 (if after then [targetNode, newPane] else [newPane, targetNode]) [1 / 2, 1 / 2])) in
        case parent of
          Some (Group i d cs ss) \<Rightarrow>
            if d = direction then
              (let targetSize = size_at ss targetIndex;
                   insertIndex = (if after then targetIndex + 1 else targetIndex);
                   sizes = (insert_nth insertIndex (targetSize / 2) ss)
                             [targetIndex + (if after then 0 else 1) := targetSize / 2] in
               replaceNodeAtPath tree (butlast targetPath)
                 (\<lambda>_. insertChildIntoGroup (Group i d cs ss) insertIndex newPane sizes))
            else wrap
        | _ \<Rightarrow> wrap))"

definition insertSplitInternal ::
    "layout_env \<Rightarrow> split_node \<Rightarrow> string \<Rightarrow> string \<Rightarrow> split_position \<Rightarrow> layout_error + split_node \<times> string" where
  "insertSplitInternal env tree targetPaneId tabId pos =
     (case findPanePathById tree targetPaneId of
        None \<Rightarrow> Inl (Invariant_failed (''Target pane not found: '' @ targetPaneId))
      | Some _ \<Rightarrow>
          ebind (detachTabFromTree env tree tabId (Some targetPaneId)) (\<lambda>d.
            case de_tab d of
              None \<Rightarrow> Inl (Invariant_failed (''Tab not found: '' @ tabId))
            | Some tab \<Rightarrow>
                (case findPanePathById (de_tree d) targetPaneId of
                   None \<Rightarrow> Inl (Invariant_failed (''Target pane not found after detach: '' @ targetPaneId))
                 | Some path \<Rightarrow>
                     ebind (getNodeAtPath (de_tree d) path) (\<lambda>targetNode.
                       case targetNode of
                         Group i dr cs ss \<Rightarrow> Inl (Invariant_failed ''Expected target pane after detach'')
                       | Pane p \<Rightarrow>
                           ebind (place_beside env (de_tree d) path targetNode pos
                                    (createPaneNode (le_paneId env) [tab] (Some (wt_id tab)) False))
                             (\<lambda>t. Inr (t, le_paneId env))))))"

definition removePaneFromTree :: "layout_env \<Rightarrow> split_node \<Rightarrow> string \<Rightarrow> layout_error + split_node" where
  "removePaneFromTree env tree paneId =
     (case findPanePathById tree paneId of None \<Rightarrow> Inr tree | Some path \<Rightarrow> removePaneByPath env tree path)"

definition DEFAULT_PANE_ID :: string where
  "DEFAULT_PANE_ID = ''main''"

definition EXPLORER_SIDEBAR_PANE_ID :: string where
  "EXPLORER_SIDEBAR_PANE_ID = ''explorer''"

definition removeTabFromTree :: "layout_env \<Rightarrow> split_node \<Rightarrow> string \<Rightarrow> layout_error + split_node" where
  "removeTabFromTree env tree tabId =
     ebind (detachTabFromTree env tree tabId (Some DEFAULT_PANE_ID)) (\<lambda>d. Inr (de_tree d))"

section \<open>Tabs that do not survive a restart\<close>

definition isEphemeralTab :: "workspace_tab \<Rightarrow> bool" where
  "isEphemeralTab t \<longleftrightarrow> (case wt_target t of Tab_commit_diff _ \<Rightarrow> True | Tab_new \<Rightarrow> True | _ \<Rightarrow> False)"

fun stripEphemeralTabsFromNode :: "split_node \<Rightarrow> split_node" where
  "stripEphemeralTabsFromNode (Pane p) =
     (let tabs = filter (\<lambda>t. \<not> isEphemeralTab t) (sp_tabs p) in
      if length tabs = length (sp_tabs p) then Pane p
      else createPaneNode (sp_id p) tabs (sp_focusedTabId p) (sp_hidden p))"
| "stripEphemeralTabsFromNode (Group i d cs ss) =
     createGroupNode i d (map stripEphemeralTabsFromNode cs) ss"

definition explorer_tab :: "layout_env \<Rightarrow> tab_target \<Rightarrow> string \<Rightarrow> workspace_tab" where
  "explorer_tab env target i =
     \<lparr>wt_id = i, wt_target = target, wt_createdAt = le_now env, wt_state = None\<rparr>"

definition createDefaultExplorerSidebarTabs :: "layout_env \<Rightarrow> workspace_tab list" where
  "createDefaultExplorerSidebarTabs env =
     [explorer_tab env Tab_files ''files'', explorer_tab env Tab_changes_tree ''changes_tree'']"

fun restoreEmptyPanesInNode :: "layout_env \<Rightarrow> string option \<Rightarrow> split_node \<Rightarrow> split_node" where
  "restoreEmptyPanesInNode env explorer (Pane p) =
     (if sp_tabs p \<noteq> [] then Pane p
      else createPaneNode (sp_id p)
             (if Some (sp_id p) = explorer then createDefaultExplorerSidebarTabs env
              else [new_tab env (sp_id p)]) None (sp_hidden p))"
| "restoreEmptyPanesInNode env explorer (Group i d cs ss) =
     createGroupNode i d (map (restoreEmptyPanesInNode env explorer) cs) ss"

end
