(* ===== verification/Workspace_Layout.thy ===== *)
theory Workspace_Layout
  imports Split_Tree
begin

text \<open>
  The operations on a workspace layout (\<open>app/src/stores/workspace-layout-actions.ts\<close>): a split
  tree, the focused pane and the parents of tabs. A result \<open>Inr None\<close> is \<open>null\<close>, the operation does
  nothing; \<open>Inl\<close> is a thrown error.
\<close>

section \<open>Layouts\<close>

record layout =
  lo_tree :: split_node
  lo_focus :: "string option"
  lo_parents :: "(string \<times> string) list option"

definition normalizeParentTabMap ::
    "(string \<times> string) list option \<Rightarrow> string list \<Rightarrow> (string \<times> string) list option" where
  "normalizeParentTabMap raw openTabIds =
     (case raw of
        None \<Rightarrow> None
      | Some ps \<Rightarrow>
          (let keep = (\<lambda>(c, p).
                 case (trimNonEmpty (Some c), trimNonEmpty (Some p)) of
                   (Some child, Some parent) \<Rightarrow>
                     if child = parent \<or> child \<notin> set openTabIds \<or> parent \<notin> set openTabIds then None
                     else Some (child, parent)
                 | _ \<Rightarrow> None);
               next = fold (\<lambda>(c, p). AList.update c p) (List.map_filter keep ps) [] in
           if next \<noteq> [] then Some next else None))"

definition open_tab_ids :: "split_node \<Rightarrow> string list" where
  "open_tab_ids tree = map wt_id (collectAllTabs tree)"

definition withNormalizedParentTabMap :: "layout \<Rightarrow> layout" where
  "withNormalizedParentTabMap l =
     l\<lparr>lo_parents := normalizeParentTabMap (lo_parents l) (open_tab_ids (lo_tree l))\<rparr>"

definition mk_layout ::
    "split_node \<Rightarrow> string option \<Rightarrow> (string \<times> string) list option \<Rightarrow> layout" where
  "mk_layout tree focus parents =
     withNormalizedParentTabMap \<lparr>lo_tree = tree, lo_focus = focus, lo_parents = parents\<rparr>"

definition createDefaultLayout :: "layout_env \<Rightarrow> layout" where
  "createDefaultLayout env =
     \<lparr>lo_tree = createPaneNode DEFAULT_PANE_ID [new_tab env DEFAULT_PANE_ID] None False,
      lo_focus = Some DEFAULT_PANE_ID, lo_parents = None\<rparr>"

definition createWorkspaceLayoutWithExplorerSidebar :: "layout_env \<Rightarrow> layout" where
  "createWorkspaceLayoutWithExplorerSidebar env =
     \<lparr>lo_tree = createGroupNode ''workspace-root'' Horizontal
        [createPaneNode DEFAULT_PANE_ID [new_tab env DEFAULT_PANE_ID] None False,
         createPaneNode EXPLORER_SIDEBAR_PANE_ID (createDefaultExplorerSidebarTabs env) None True]
        [78 / 100, 22 / 100],
      lo_focus = Some DEFAULT_PANE_ID, lo_parents = None\<rparr>"

definition pane_id_of :: "split_pane option \<Rightarrow> string option" where
  "pane_id_of = map_option sp_id"

definition or_else :: "'a option \<Rightarrow> 'a option \<Rightarrow> 'a option" where
  "or_else a b = (case a of Some x \<Rightarrow> Some x | None \<Rightarrow> b)"

definition normalizeLayout :: "layout_env \<Rightarrow> layout option \<Rightarrow> layout" where
  "normalizeLayout env raw =
     (case raw of
        None \<Rightarrow> createDefaultLayout env
      | Some l \<Rightarrow>
          (let tree = (case normalizeNode env (lo_tree l) of
                         Some t \<Rightarrow> t | None \<Rightarrow> lo_tree (createDefaultLayout env));
               focus = trimNonEmpty (lo_focus l);
               resolved = (case focus of
                             None \<Rightarrow> None
                           | Some f \<Rightarrow>
                               or_else (pane_id_of (findPaneById tree (Some f)))
                                 (or_else (pane_id_of (head_opt (collectAllPanes tree))) (Some DEFAULT_PANE_ID))) in
           \<lparr>lo_tree = tree, lo_focus = resolved,
            lo_parents = normalizeParentTabMap (lo_parents l) (open_tab_ids tree)\<rparr>))"

definition stripEphemeralTabsFromLayout :: "layout \<Rightarrow> layout" where
  "stripEphemeralTabsFromLayout l = mk_layout (stripEphemeralTabsFromNode (lo_tree l)) (lo_focus l) (lo_parents l)"

definition restoreEmptyPanesInLayout :: "layout_env \<Rightarrow> layout \<Rightarrow> string option \<Rightarrow> layout" where
  "restoreEmptyPanesInLayout env l explorer =
     (let n = normalizeLayout env (Some l) in
      n\<lparr>lo_tree := restoreEmptyPanesInNode env explorer (lo_tree n)\<rparr>)"

definition getFocusedBrowserId :: "layout option \<Rightarrow> string option" where
  "getFocusedBrowserId lo =
     (case lo of
        None \<Rightarrow> None
      | Some l \<Rightarrow>
          (case findPaneById (lo_tree l) (lo_focus l) of
             None \<Rightarrow> None
           | Some p \<Rightarrow>
               (case sp_focusedTabId p of
                  None \<Rightarrow> None
                | Some f \<Rightarrow>
                    if f = [] \<or> sp_hidden p then None
                    else (case find (\<lambda>t. wt_id t = f) (collectAllTabs (lo_tree l)) of
                            Some t \<Rightarrow> (case wt_target t of Tab_browser b \<Rightarrow> Some b | _ \<Rightarrow> None)
                          | None \<Rightarrow> None))))"

section \<open>Focus\<close>

definition focusTabInLayout :: "layout \<Rightarrow> string \<Rightarrow> layout_error + layout option" where
  "focusTabInLayout l tabId =
     (case findPaneContainingTab (lo_tree l) tabId of
        None \<Rightarrow> Inr None
      | Some p \<Rightarrow>
          if sp_focusedTabId p = Some tabId \<and> lo_focus l = Some (sp_id p) \<and> \<not> sp_hidden p then Inr None
          else ebind (focusTabInPane (lo_tree l) (sp_id p) tabId) (\<lambda>t.
                 Inr (Some (mk_layout t (Some (sp_id p)) (lo_parents l)))))"

definition selectTabInPaneInLayout :: "layout \<Rightarrow> string \<Rightarrow> string \<Rightarrow> layout_error + layout option" where
  "selectTabInPaneInLayout l paneId tabId =
     (case findPaneById (lo_tree l) (Some paneId) of
        None \<Rightarrow> Inr None
      | Some p \<Rightarrow>
          if tabId \<notin> set (sp_tabIds p) \<or> sp_focusedTabId p = Some tabId then Inr None
          else ebind (focusTabInPane (lo_tree l) paneId tabId) (\<lambda>t.
                 Inr (Some (mk_layout t (lo_focus l) (lo_parents l)))))"

definition focusPaneInLayout :: "layout \<Rightarrow> string \<Rightarrow> layout_error + layout option" where
  "focusPaneInLayout l paneId =
     (case findPaneById (lo_tree l) (Some paneId) of
        None \<Rightarrow> Inr None
      | Some p \<Rightarrow>
          if lo_focus l = Some paneId \<and> \<not> sp_hidden p then Inr None
          else ebind (if sp_hidden p then updatePaneInTree (lo_tree l) paneId (\<lambda>q. q\<lparr>sp_hidden := False\<rparr>)
                      else Inr (lo_tree l)) (\<lambda>t.
                 Inr (Some (mk_layout t (Some paneId) (lo_parents l)))))"

definition setPaneHiddenInLayout :: "layout \<Rightarrow> string \<Rightarrow> bool \<Rightarrow> layout_error + layout option" where
  "setPaneHiddenInLayout l paneId hid =
     (case findPaneById (lo_tree l) (Some paneId) of
        None \<Rightarrow> Inr None
      | Some p \<Rightarrow>
          if sp_hidden p = hid then Inr None
          else if hid \<and> length (collectAllPanes (lo_tree l)) = 1 then Inr None
          else ebind (updatePaneInTree (lo_tree l) paneId (\<lambda>q. q\<lparr>sp_hidden := hid\<rparr>)) (\<lambda>t.
                 Inr (Some (mk_layout t
                   (if hid \<and> lo_focus l = Some paneId then pane_id_of (head_opt (collectAllPanes t))
                    else lo_focus l) (lo_parents l)))))"

definition getFocusedPaneIdAfterTabClose ::
    "split_node \<Rightarrow> string option \<Rightarrow> string option \<Rightarrow> string option \<Rightarrow> string option" where
  "getFocusedPaneIdAfterTabClose tree focus fallback excluded =
     (if focus = None then None
      else or_else (if focus \<noteq> excluded then pane_id_of (findPaneById tree focus) else None)
             (or_else (if fallback \<noteq> None \<and> fallback \<noteq> excluded
                       then pane_id_of (findPaneById tree fallback) else None)
                (or_else (pane_id_of (find (\<lambda>p. Some (sp_id p) \<noteq> excluded) (collectAllPanes tree)))
                   (Some DEFAULT_PANE_ID))))"

section \<open>Closing\<close>

fun index_of :: "'a \<Rightarrow> 'a list \<Rightarrow> nat option" where
  "index_of x [] = None"
| "index_of x (y # ys) = (if x = y then Some 0 else map_option Suc (index_of x ys))"

definition nth_opt :: "'a list \<Rightarrow> nat \<Rightarrow> 'a option" where
  "nth_opt xs k = (if k < length xs then Some (xs ! k) else None)"

text \<open>Without the tab in \<open>tabIds\<close> the index is -1, and the first tab follows it.\<close>

definition getCloseSuccessorTabId ::
    "split_pane \<Rightarrow> string \<Rightarrow> string list \<Rightarrow> (string \<times> string) list option \<Rightarrow> string option" where
  "getCloseSuccessorTabId p tabId openTabIds parents =
     (if sp_focusedTabId p \<noteq> Some tabId then None
      else
        let k = index_of tabId (sp_tabIds p);
            parent = (case parents of None \<Rightarrow> None | Some m \<Rightarrow> map_of m tabId);
            neighbour = (case k of
                None \<Rightarrow> nth_opt (sp_tabIds p) 0
              | Some i \<Rightarrow> or_else (nth_opt (sp_tabIds p) (i + 1))
                            (if i > 0 then nth_opt (sp_tabIds p) (i - 1) else None)) in
        case parent of
          Some q \<Rightarrow> if q \<noteq> [] \<and> q \<in> set openTabIds then Some q else neighbour
        | None \<Rightarrow> neighbour)"

text \<open>After a tab is closed its parents are read from the layout it was closed in.\<close>

definition closeTabInLayout ::
    "layout_env \<Rightarrow> layout \<Rightarrow> string \<Rightarrow> string option \<Rightarrow> layout_error + layout option" where
  "closeTabInLayout env l tabId preserve0 =
     (case findPaneContainingTab (lo_tree l) tabId of
        None \<Rightarrow> Inr None
      | Some p \<Rightarrow>
          (let preserve = or_else preserve0
                 (if sp_id p = DEFAULT_PANE_ID \<or> sp_id p = EXPLORER_SIDEBAR_PANE_ID then Some (sp_id p) else None);
               successor = getCloseSuccessorTabId p tabId (open_tab_ids (lo_tree l)) (lo_parents l) in
           ebind (findNearestSiblingPaneId (lo_tree l) (sp_id p)) (\<lambda>fallback.
           ebind (detachTabFromTree env (lo_tree l) tabId preserve) (\<lambda>d.
             let tree = de_tree d;
                 parents = normalizeParentTabMap (lo_parents l) (open_tab_ids tree);
                 next = \<lparr>lo_tree = tree,
                         lo_focus = getFocusedPaneIdAfterTabClose tree (lo_focus l) fallback None,
                         lo_parents = parents\<rparr> in
             case successor of
               Some s \<Rightarrow>
                 if s \<noteq> [] \<and> findPaneContainingTab tree s \<noteq> None then
                   ebind (focusTabInLayout next s) (\<lambda>focused.
                     let fl = (case focused of Some x \<Rightarrow> x | None \<Rightarrow> next) in
                     Inr (Some (case parents of Some _ \<Rightarrow> fl\<lparr>lo_parents := parents\<rparr> | None \<Rightarrow> fl)))
                 else Inr (Some next)
             | None \<Rightarrow> Inr (Some next)))))"

definition canDismissPaneInLayout :: "layout \<Rightarrow> string \<Rightarrow> string option \<Rightarrow> bool" where
  "canDismissPaneInLayout l paneId explorer =
     (case findPaneById (lo_tree l) (Some paneId) of
        None \<Rightarrow> False
      | Some p \<Rightarrow>
          if sp_hidden p then False
          else let ordinary = filter (\<lambda>c. Some (sp_id c) \<noteq> explorer) (collectAllPanes (lo_tree l)) in
            if Some paneId = explorer then length ordinary > 0 else length ordinary > 1)"

definition closePaneInLayout ::
    "layout_env \<Rightarrow> layout \<Rightarrow> string \<Rightarrow> string option \<Rightarrow> layout_error + layout option" where
  "closePaneInLayout env l paneId explorer =
     (case findPanePathById (lo_tree l) paneId of
        None \<Rightarrow> Inr None
      | Some path \<Rightarrow>
          (let ordinary = filter (\<lambda>i. Some i \<noteq> explorer) (listPaneIds (lo_tree l)) in
           if Some paneId \<noteq> explorer \<and> length ordinary \<le> 1 \<and> paneId \<in> set ordinary then Inr None
           else
             ebind (findNearestSiblingPaneId (lo_tree l) paneId) (\<lambda>fallback.
             ebind (removePaneByPath env (lo_tree l) path) (\<lambda>t.
               Inr (Some (mk_layout t (getFocusedPaneIdAfterTabClose t (lo_focus l) fallback explorer)
                            (lo_parents l)))))))"

section \<open>Moving and splitting\<close>

definition moveTabToPaneInLayout ::
    "layout_env \<Rightarrow> layout \<Rightarrow> string \<Rightarrow> string \<Rightarrow> string option \<Rightarrow> layout_error + layout option" where
  "moveTabToPaneInLayout env l tabId toPaneId explorer =
     (case (findPaneContainingTab (lo_tree l) tabId, findPaneById (lo_tree l) (Some toPaneId)) of
        (Some source, Some targetPane) \<Rightarrow>
          if sp_hidden targetPane then Inr None
          else
            let sourceTab = find (\<lambda>t. wt_id t = tabId) (collectAllTabs (lo_tree l));
                soleNew = sp_id source \<noteq> toPaneId \<and> length (sp_tabIds source) = 1 \<and>
                          map_option wt_target sourceTab = Some Tab_new in
            if soleNew \<and> Some toPaneId \<noteq> explorer then
              (if Some (sp_id source) = explorer then setPaneHiddenInLayout l (sp_id source) True
               else closePaneInLayout env l (sp_id source) explorer)
            else
              ebind (detachTabFromTree env (lo_tree l) tabId
                       (if sp_id source = toPaneId \<or> Some (sp_id source) = explorer \<or> Some toPaneId = explorer
                        then Some (sp_id source) else None)) (\<lambda>d.
                case de_tab d of
                  None \<Rightarrow> Inr None
                | Some tab \<Rightarrow>
                    ebind (insertTabIntoPane (de_tree d) toPaneId tab (Some tabId)) (\<lambda>t.
                      Inr (Some (mk_layout t (Some toPaneId) (lo_parents l)))))
      | _ \<Rightarrow> Inr None)"

definition splitPaneInLayout ::
    "layout_env \<Rightarrow> layout \<Rightarrow> string \<Rightarrow> string \<Rightarrow> split_position \<Rightarrow> nat \<Rightarrow>
     layout_error + (layout \<times> string) option" where
  "splitPaneInLayout env l tabId targetPaneId pos maxTreeDepth =
     (if findPaneById (lo_tree l) (Some targetPaneId) = None \<or> findPaneContainingTab (lo_tree l) tabId = None
      then Inr None
      else ebind (insertSplitInternal env (lo_tree l) targetPaneId tabId pos) (\<lambda>(t, newPaneId).
        if getTreeDepth t > maxTreeDepth then Inr None
        else Inr (Some (mk_layout t (Some newPaneId) (lo_parents l), newPaneId))))"

definition splitPaneEmptyInLayout ::
    "layout_env \<Rightarrow> layout \<Rightarrow> string \<Rightarrow> split_position \<Rightarrow> nat \<Rightarrow> layout_error + (layout \<times> string) option" where
  "splitPaneEmptyInLayout env l targetPaneId pos maxTreeDepth =
     (if findPaneById (lo_tree l) (Some targetPaneId) = None then Inr None
      else case findPanePathById (lo_tree l) targetPaneId of
        None \<Rightarrow> Inl (Invariant_failed (''Target pane not found: '' @ targetPaneId))
      | Some path \<Rightarrow>
          ebind (getNodeAtPath (lo_tree l) path) (\<lambda>targetNode.
            case targetNode of
              Group i d cs ss \<Rightarrow> Inl (Invariant_failed ''Expected target pane'')
            | Pane p \<Rightarrow>
                ebind (place_beside env (lo_tree l) path targetNode pos
                         (createPaneNode (le_paneId env) [new_tab env (le_paneId env)] None False)) (\<lambda>t.
                  if getTreeDepth t > maxTreeDepth then Inr None
                  else Inr (Some (mk_layout t (Some (le_paneId env)) (lo_parents l), le_paneId env)))))"

definition splitWorkspaceRootRightInLayout ::
    "layout_env \<Rightarrow> layout \<Rightarrow> nat \<Rightarrow> (layout \<times> string) option" where
  "splitWorkspaceRootRightInLayout env l maxTreeDepth =
     (let t = createGroupNode (le_groupId env) Horizontal
                [lo_tree l, createPaneNode (le_paneId env) [new_tab env (le_paneId env)] None False]
                [7 / 10, 3 / 10] in
      if getTreeDepth t > maxTreeDepth then None
      else Some (mk_layout t (Some (le_paneId env)) (lo_parents l), le_paneId env))"

definition resizeSplitInLayout :: "layout \<Rightarrow> string \<Rightarrow> js_real list \<Rightarrow> layout_error + layout" where
  "resizeSplitInLayout l groupId sizes =
     ebind (updateGroupSizesInTree (lo_tree l) groupId sizes) (\<lambda>t. Inr (mk_layout t (lo_focus l) (lo_parents l)))"

definition reorderPaneTabsInLayout :: "layout \<Rightarrow> string \<Rightarrow> string list \<Rightarrow> layout_error + layout option" where
  "reorderPaneTabsInLayout l paneId tabIds =
     (if findPaneById (lo_tree l) (Some paneId) = None then Inr None
      else ebind (updatePaneInTree (lo_tree l) paneId (\<lambda>p. reorderTabsForPane p tabIds)) (\<lambda>t.
             Inr (Some (mk_layout t (lo_focus l) (lo_parents l)))))"

definition reorderFocusedPaneTabsInLayout :: "layout \<Rightarrow> string list \<Rightarrow> layout_error + layout option" where
  "reorderFocusedPaneTabsInLayout l tabIds =
     (case lo_focus l of
        None \<Rightarrow> Inr None
      | Some f \<Rightarrow>
          if f = [] \<or> findPaneById (lo_tree l) (Some f) = None then Inr None
          else ebind (updatePaneInTree (lo_tree l) f (\<lambda>p. reorderTabsForPane p tabIds)) (\<lambda>t.
                 Inr (Some (mk_layout t (lo_focus l) (lo_parents l)))))"

section \<open>Opening\<close>

datatype placement = In_pane string | Prefer_pane string | In_focused | Ambient

definition supports_target :: "string option \<Rightarrow> tab_target \<Rightarrow> split_pane \<Rightarrow> bool" where
  "supports_target explorer target p =
     panelSupportsHost target (if Some (sp_id p) = explorer then Host_explorer else Host_main)"

definition only_if :: "('a \<Rightarrow> bool) \<Rightarrow> 'a option \<Rightarrow> 'a option" where
  "only_if P v = (case v of None \<Rightarrow> None | Some x \<Rightarrow> if P x then Some x else None)"

definition resolvePlacementPane ::
    "layout \<Rightarrow> tab_target \<Rightarrow> placement \<Rightarrow> string option \<Rightarrow> split_pane option" where
  "resolvePlacementPane l target pl explorer =
     (let supports = supports_target explorer target;
          requested = only_if supports
            (case pl of In_pane i \<Rightarrow> findPaneById (lo_tree l) (Some i)
                      | Prefer_pane i \<Rightarrow> findPaneById (lo_tree l) (Some i)
                      | _ \<Rightarrow> None);
          focused = only_if (\<lambda>p. \<not> sp_hidden p \<and> supports p) (findPaneById (lo_tree l) (lo_focus l)) in
      or_else requested
        (or_else focused
          (or_else (find supports (collectAllPanes (lo_tree l)))
            (only_if supports (findPaneById (lo_tree l) explorer)))))"

definition insertNewTabIntoPane ::
    "layout_env \<Rightarrow> layout \<Rightarrow> tab_target \<Rightarrow> placement \<Rightarrow> string option \<Rightarrow> layout_error + string \<Rightarrow>
     json option \<Rightarrow> bool \<Rightarrow> layout_error + (layout \<times> string) option" where
  "insertNewTabIntoPane env l target pl explorer createTabId state focus =
     (case resolvePlacementPane l target pl explorer of
        None \<Rightarrow> Inr None
      | Some p \<Rightarrow>
          ebind createTabId (\<lambda>tabId.
            let nextFocus = (if focus then Some (sp_id p) else lo_focus l) in
            if isSoleNewTabPane p \<and> target \<noteq> Tab_new then
              ebind (replaceTabInTree (lo_tree l) (wt_id (hd (sp_tabs p))) tabId target state) (\<lambda>t.
                Inr (Some (mk_layout t nextFocus (lo_parents l), tabId)))
            else
              ebind (insertTabIntoPane (lo_tree l) (sp_id p)
                       \<lparr>wt_id = tabId, wt_target = target, wt_createdAt = le_now env, wt_state = state\<rparr>
                       (if focus then Some tabId else or_else (sp_focusedTabId p) (Some tabId))) (\<lambda>t.
                Inr (Some (mk_layout t nextFocus (lo_parents l), tabId)))))"

definition findExistingTabForTarget :: "split_node \<Rightarrow> tab_target \<Rightarrow> workspace_tab option" where
  "findExistingTabForTarget tree target =
     (if target = Tab_new then None
      else find (\<lambda>t. panelResourceKey (wt_target t) = panelResourceKey target) (collectAllTabs tree))"

definition updateExistingTabTarget ::
    "layout \<Rightarrow> workspace_tab \<Rightarrow> tab_target \<Rightarrow> layout_error + layout" where
  "updateExistingTabTarget l tab target =
     (if workspaceTabTargetsEqual (wt_target tab) target then Inr l
      else ebind (replaceTabInTree (lo_tree l) (wt_id tab) (wt_id tab) target (wt_state tab)) (\<lambda>t.
             Inr (withNormalizedParentTabMap (l\<lparr>lo_tree := t\<rparr>))))"

definition revealExistingTab ::
    "layout_env \<Rightarrow> layout \<Rightarrow> string \<Rightarrow> placement \<Rightarrow> layout_error + layout" where
  "revealExistingTab env l tabId pl =
     (let refocus = ebind (focusTabInLayout l tabId) (\<lambda>r. Inr (case r of Some x \<Rightarrow> x | None \<Rightarrow> l)) in
      case pl of
        In_pane paneId \<Rightarrow>
          if pane_id_of (findPaneContainingTab (lo_tree l) tabId) \<noteq> Some paneId then
            ebind (moveTabToPaneInLayout env l tabId paneId None) (\<lambda>moved.
              case moved of Some x \<Rightarrow> Inr x | None \<Rightarrow> refocus)
          else refocus
      | _ \<Rightarrow> refocus)"

definition reveal_existing ::
    "layout_env \<Rightarrow> layout \<Rightarrow> workspace_tab \<Rightarrow> tab_target \<Rightarrow> placement \<Rightarrow> layout_error + (layout \<times> string) option" where
  "reveal_existing env l tab target pl =
     ebind (updateExistingTabTarget l tab target) (\<lambda>next.
     ebind (revealExistingTab env next (wt_id tab) pl) (\<lambda>r. Inr (Some (r, wt_id tab))))"

definition openTabInLayoutFocused ::
    "layout_env \<Rightarrow> layout \<Rightarrow> tab_target \<Rightarrow> placement \<Rightarrow> string option \<Rightarrow> layout_error + (layout \<times> string) option" where
  "openTabInLayoutFocused env l target pl explorer =
     (case findExistingTabForTarget (lo_tree l) target of
        Some tab \<Rightarrow> reveal_existing env l tab target pl
      | None \<Rightarrow>
          insertNewTabIntoPane env l target pl explorer (buildDeterministicWorkspaceTabId target) None True)"

definition createTabInLayout ::
    "layout_env \<Rightarrow> layout \<Rightarrow> tab_target \<Rightarrow> placement \<Rightarrow> string option \<Rightarrow> layout_error + string \<Rightarrow>
     json option \<Rightarrow> layout_error + (layout \<times> string) option" where
  "createTabInLayout env l target pl explorer createTabId state =
     insertNewTabIntoPane env l target pl explorer createTabId state True"

definition revealTargetInLayout ::
    "layout_env \<Rightarrow> layout \<Rightarrow> tab_target \<Rightarrow> placement \<Rightarrow> string option \<Rightarrow> json option \<Rightarrow>
     layout_error + (layout \<times> string) option" where
  "revealTargetInLayout env l target pl explorer state =
     (case findExistingTabForTarget (lo_tree l) target of
        Some tab \<Rightarrow> reveal_existing env l tab target pl
      | None \<Rightarrow> createTabInLayout env l target pl explorer (buildDeterministicWorkspaceTabId target) state)"

definition openTabInLayoutBackground ::
    "layout_env \<Rightarrow> layout \<Rightarrow> tab_target \<Rightarrow> placement \<Rightarrow> string option \<Rightarrow> layout_error + (layout \<times> string) option" where
  "openTabInLayoutBackground env l target pl explorer =
     (case findExistingTabForTarget (lo_tree l) target of
        Some tab \<Rightarrow>
          ebind (updateExistingTabTarget l tab target) (\<lambda>next. Inr (Some (next, wt_id tab)))
      | None \<Rightarrow>
          insertNewTabIntoPane env l target pl explorer (buildDeterministicWorkspaceTabId target) None False)"

section \<open>Changing what a tab shows\<close>

definition tab_by_id :: "split_node \<Rightarrow> string \<Rightarrow> workspace_tab option" where
  "tab_by_id tree tabId = find (\<lambda>t. wt_id t = tabId) (collectAllTabs tree)"

definition or_layout :: "layout_error + layout option \<Rightarrow> layout \<Rightarrow> layout_error + layout" where
  "or_layout r l = ebind r (\<lambda>x. Inr (case x of Some y \<Rightarrow> y | None \<Rightarrow> l))"

text \<open>Closing a tab in favour of one that is already open.\<close>

definition yield_to ::
    "layout_env \<Rightarrow> layout \<Rightarrow> string \<Rightarrow> string \<Rightarrow> layout_error + (layout \<times> string) option" where
  "yield_to env l tabId keeper =
     ebind (or_layout (closeTabInLayout env l tabId None) l) (\<lambda>next.
     ebind (or_layout (focusTabInLayout next keeper) next) (\<lambda>r. Inr (Some (r, keeper))))"

definition retargetTabInLayout ::
    "layout_env \<Rightarrow> layout \<Rightarrow> string \<Rightarrow> tab_target \<Rightarrow> layout_error + (layout \<times> string) option" where
  "retargetTabInLayout env l tabId target =
     (if findPaneContainingTab (lo_tree l) tabId = None then Inr None
      else
        let current = tab_by_id (lo_tree l) tabId in
        if (case current of Some c \<Rightarrow> workspaceTabTargetsEqual (wt_target c) target | None \<Rightarrow> False)
        then Inr (Some (l, tabId))
        else
          case find (\<lambda>t. wt_id t \<noteq> tabId \<and> workspaceTabTargetsEqual (wt_target t) target)
                 (collectAllTabs (lo_tree l)) of
            Some other \<Rightarrow> yield_to env l tabId (wt_id other)
          | None \<Rightarrow>
              ebind (if map_option (\<lambda>c. tab_kind (wt_target c)) current = Some ''draft'' then Inr tabId
                     else buildDeterministicWorkspaceTabId target) (\<lambda>nextTabId.
              ebind (replaceTabInTree (lo_tree l) tabId nextTabId target None) (\<lambda>t.
                Inr (Some (mk_layout t (lo_focus l) (lo_parents l), nextTabId)))))"

definition transferReplacedTabParent ::
    "(string \<times> string) list option \<Rightarrow> string \<Rightarrow> string \<Rightarrow> (string \<times> string) list option" where
  "transferReplacedTabParent parents replaced replacement =
     (case parents of
        None \<Rightarrow> None
      | Some m \<Rightarrow>
          (let rename = (\<lambda>p. if p = replaced then replacement else p);
               renamed = map (\<lambda>(c, p). (c, rename p)) (filter (\<lambda>(c, p). c \<noteq> replaced) m);
               next = (case map_of m replaced of
                         Some p \<Rightarrow> if p \<noteq> [] then AList.update replacement (rename p) renamed else renamed
                       | None \<Rightarrow> renamed) in
           if next \<noteq> [] then Some next else None))"

definition replaceTabTargetInLayout ::
    "layout_env \<Rightarrow> layout \<Rightarrow> string \<Rightarrow> tab_target \<Rightarrow> string \<Rightarrow> json option \<Rightarrow>
     layout_error + (layout \<times> string) option" where
  "replaceTabTargetInLayout env l tabId target freshId state =
     (if findPaneContainingTab (lo_tree l) tabId = None then Inr None
      else
        let current = tab_by_id (lo_tree l) tabId;
            kind = map_option (\<lambda>c. tab_kind (wt_target c)) current in
        if (case current of Some c \<Rightarrow> workspaceTabTargetsEqual (wt_target c) target | None \<Rightarrow> False) then
          (if state = None then Inr (Some (l, tabId))
           else ebind (replaceTabInTree (lo_tree l) tabId tabId target state) (\<lambda>t.
                  Inr (Some (mk_layout t (lo_focus l) (lo_parents l), tabId))))
        else
          ebind (if kind = Some ''new_tab'' \<or> kind = Some ''draft'' \<or> kind = Some (tab_kind target)
                 then Inr tabId
                 else if tab_kind target = ''draft'' then buildDeterministicWorkspaceTabId target
                 else Inr freshId) (\<lambda>nextId.
            let st = (if state \<noteq> None then state
                      else case current of
                        Some c \<Rightarrow> if tab_kind (wt_target c) = tab_kind target then wt_state c else None
                      | None \<Rightarrow> None) in
            ebind (replaceTabInTree (lo_tree l) tabId nextId target st) (\<lambda>t.
              Inr (Some (mk_layout t (lo_focus l)
                           (transferReplacedTabParent (lo_parents l) tabId nextId), nextId)))))"

definition setTabStateInLayout ::
    "layout \<Rightarrow> string \<Rightarrow> json option \<Rightarrow> layout_error + layout option" where
  "setTabStateInLayout l tabId state =
     (case tab_by_id (lo_tree l) tabId of
        None \<Rightarrow> Inr None
      | Some tab \<Rightarrow>
          ebind (replaceTabInTree (lo_tree l) (wt_id tab) (wt_id tab) (wt_target tab) state) (\<lambda>t.
            Inr (Some (mk_layout t (lo_focus l) (lo_parents l)))))"

definition convertDraftToAgentInLayout ::
    "layout_env \<Rightarrow> layout \<Rightarrow> string \<Rightarrow> string \<Rightarrow> layout_error + (layout \<times> string) option" where
  "convertDraftToAgentInLayout env l tabId agentId =
     (case tab_by_id (lo_tree l) tabId of
        None \<Rightarrow> Inr None
      | Some tab \<Rightarrow>
          if tab_kind (wt_target tab) \<noteq> ''draft'' then Inr None
          else
            ebind (buildDeterministicWorkspaceTabId (Tab_agent agentId)) (\<lambda>canonical.
              if tab_by_id (lo_tree l) canonical \<noteq> None \<and> canonical \<noteq> tabId then
                yield_to env l tabId canonical
              else
                ebind (replaceTabInTree (lo_tree l) tabId canonical (Tab_agent agentId) None) (\<lambda>t.
                  Inr (Some (mk_layout t (lo_focus l) (lo_parents l), canonical)))))"

end
