(* ===== verification/Workspace_Reconcile.thy ===== *)
theory Workspace_Reconcile
  imports Workspace_Layout
begin

text \<open>
  Bringing the tabs of a workspace in line with what the daemon reports
  (\<open>reconcileWorkspaceTabs\<close> and its helpers in \<open>app/src/stores/workspace-layout-actions.ts\<close>):
  several tabs for one agent or terminal become one, tabs of agents and terminals that are gone are
  closed, agents and terminals without a tab get one, and a workspace with no content gets a draft.
  Sets of ids are lists, each id once.
\<close>

section \<open>Snapshots\<close>

record tab_snapshot =
  sn_agentsHydrated :: bool
  sn_terminalsHydrated :: bool
  sn_activeAgentIds :: "string list"
  sn_autoOpenAgentIds :: "string list"
  sn_knownAgentIds :: "string list"
  sn_knownTerminalIds :: "string list option"
  sn_standaloneTerminalIds :: "string list"
  sn_pendingTerminalCreate :: bool
  sn_pendingDraftCreate :: bool

record reconcile_state =
  rs_layout :: layout
  rs_pinned :: "string list"
  rs_pending :: "string list"
  rs_hidden :: "string list"
  rs_explorer :: "string option"

definition normalizeStringSet :: "string list \<Rightarrow> string list" where
  "normalizeStringSet values = remdups (List.map_filter (\<lambda>v. trimNonEmpty (Some v)) values)"

definition applyPinnedAndHidden ::
    "string list \<Rightarrow> string list \<Rightarrow> string list \<Rightarrow> string list \<Rightarrow> string list \<Rightarrow> string list" where
  "applyPinnedAndHidden base pinned pending hid known =
     filter (\<lambda>i. i \<notin> set hid)
       (remdups (base @ filter (\<lambda>i. i \<in> set known \<or> i \<in> set pending) pinned))"

section \<open>Agents and terminals\<close>

fun isEntityTarget :: "tab_target \<Rightarrow> bool" where
  "isEntityTarget (Tab_agent i) = True"
| "isEntityTarget (Tab_terminal i) = True"
| "isEntityTarget _ = False"

fun agent_of :: "tab_target \<Rightarrow> string option" where
  "agent_of (Tab_agent i) = Some i"
| "agent_of _ = None"

fun terminal_of :: "tab_target \<Rightarrow> string option" where
  "terminal_of (Tab_terminal i) = Some i"
| "terminal_of _ = None"

definition openEntityTabWithoutFocusing ::
    "layout_env \<Rightarrow> string option \<Rightarrow> tab_target \<Rightarrow> layout \<Rightarrow> layout_error + layout" where
  "openEntityTabWithoutFocusing env explorer target l =
     ebind (insertNewTabIntoPane env l target Ambient explorer (buildDeterministicWorkspaceTabId target) None False)
       (\<lambda>r. Inr (case r of Some (m, i) \<Rightarrow> m | None \<Rightarrow> l))"

section \<open>Tabs for the same agent or terminal\<close>

type_synonym tab_groups = "(string \<times> tab_target \<times> workspace_tab list) list"

definition add_to_group :: "string \<Rightarrow> tab_target \<Rightarrow> workspace_tab \<Rightarrow> tab_groups \<Rightarrow> tab_groups" where
  "add_to_group k target tab gs =
     (if map_of gs k \<noteq> None
      then map (\<lambda>(j, t, ts). if j = k then (j, t, ts @ [tab]) else (j, t, ts)) gs
      else gs @ [(k, target, [tab])])"

fun buildEntityTabGroups :: "workspace_tab list \<Rightarrow> tab_groups \<Rightarrow> layout_error + tab_groups" where
  "buildEntityTabGroups [] gs = Inr gs"
| "buildEntityTabGroups (tab # tabs) gs =
     (if \<not> isEntityTarget (wt_target tab) then buildEntityTabGroups tabs gs
      else case normalizeWorkspaceTabTarget (wt_target tab) of
        None \<Rightarrow> buildEntityTabGroups tabs gs
      | Some canonical \<Rightarrow>
          ebind (buildDeterministicWorkspaceTabId canonical) (\<lambda>k.
            buildEntityTabGroups tabs (add_to_group k canonical tab gs)))"

fun efold :: "('a \<Rightarrow> 'b \<Rightarrow> 'e + 'b) \<Rightarrow> 'a list \<Rightarrow> 'b \<Rightarrow> 'e + 'b" where
  "efold f [] s = Inr s"
| "efold f (x # xs) s = ebind (f x s) (efold f xs)"

definition close_tab :: "layout_env \<Rightarrow> string \<Rightarrow> layout \<Rightarrow> layout_error + layout" where
  "close_tab env i l = or_layout (closeTabInLayout env l i None) l"

definition collapse_group ::
    "layout_env \<Rightarrow> string option \<Rightarrow> string \<times> tab_target \<times> workspace_tab list \<Rightarrow>
     layout \<times> string option \<Rightarrow> layout_error + layout \<times> string option" where
  "collapse_group env originalFocus g s =
     (case (g, s) of ((k, target, tabs), (l, focus)) \<Rightarrow>
        (case or_else (find (\<lambda>t. wt_id t = k) tabs) (head_opt tabs) of
           None \<Rightarrow> Inr (l, focus)
         | Some keeper \<Rightarrow>
             (let focus' = (if \<exists>t \<in> set tabs. Some (wt_id t) = originalFocus then Some (wt_id keeper) else focus) in
              ebind (if workspaceTabTargetsEqual (wt_target keeper) target then Inr l
                     else ebind (replaceTabInTree (lo_tree l) (wt_id keeper) (wt_id keeper) target None) (\<lambda>t.
                            Inr (mk_layout t (lo_focus l) (lo_parents l)))) (\<lambda>l'.
              ebind (efold (close_tab env) (map wt_id (filter (\<lambda>t. wt_id t \<noteq> wt_id keeper) tabs)) l') (\<lambda>m.
                Inr (m, focus'))))))"

section \<open>Gone, missing, empty\<close>

definition stale :: "tab_snapshot \<Rightarrow> string list \<Rightarrow> string list \<Rightarrow> tab_target \<Rightarrow> bool" where
  "stale sn visible terminals target \<longleftrightarrow>
     (case target of
        Tab_agent i \<Rightarrow> sn_agentsHydrated sn \<and> i \<notin> set visible
      | Tab_terminal i \<Rightarrow> sn_terminalsHydrated sn \<and> i \<notin> set terminals
      | _ \<Rightarrow> False)"

definition collapseStaleEntityTabs ::
    "layout_env \<Rightarrow> tab_snapshot \<Rightarrow> string list \<Rightarrow> string list \<Rightarrow> layout \<Rightarrow> layout_error + layout" where
  "collapseStaleEntityTabs env sn visible terminals l =
     efold (close_tab env)
       (map wt_id (filter (\<lambda>t. stale sn visible terminals (wt_target t)) (collectAllTabs (lo_tree l)))) l"

definition by_code_units :: "string list \<Rightarrow> string list" where
  "by_code_units ids = sort_by (\<lambda>a b. code_unit_compare a b \<le> 0) ids"

definition addMissingEntityTabs ::
    "layout_env \<Rightarrow> string list \<Rightarrow> string list \<Rightarrow> string list \<Rightarrow> bool \<Rightarrow> bool \<Rightarrow> string option \<Rightarrow>
     layout \<Rightarrow> layout_error + layout" where
  "addMissingEntityTabs env autoOpen represented terminals pendingTerminal pendingDraft explorer l =
     (let tabs = map wt_target (collectAllTabs (lo_tree l));
          agentIds = List.map_filter agent_of tabs; terminalIds = List.map_filter terminal_of tabs;
          missing = filter (\<lambda>i. i \<notin> set agentIds \<and> \<not> (pendingDraft \<and> i \<notin> set represented)) (by_code_units autoOpen);
          missingTerminals = (if pendingTerminal then []
                              else filter (\<lambda>i. i \<notin> set terminalIds) (by_code_units terminals)) in
      ebind (efold (\<lambda>i. openEntityTabWithoutFocusing env explorer (Tab_agent i)) missing l) (\<lambda>m.
        efold (\<lambda>i. openEntityTabWithoutFocusing env explorer (Tab_terminal i)) missingTerminals m))"

definition seedDraftForEmptyWorkspace ::
    "layout_env \<Rightarrow> string \<Rightarrow> tab_snapshot \<Rightarrow> string list \<Rightarrow> string list \<Rightarrow> string option \<Rightarrow> layout \<Rightarrow>
     layout_error + layout" where
  "seedDraftForEmptyWorkspace env draftId sn active terminals explorer l =
     (let explorerTabs = (case findPaneById (lo_tree l) explorer of Some p \<Rightarrow> sp_tabIds p | None \<Rightarrow> []);
          content = list_ex (\<lambda>t. wt_target t \<noteq> Tab_new \<and> wt_id t \<notin> set explorerTabs) (collectAllTabs (lo_tree l)) in
      if \<not> (sn_agentsHydrated sn \<and> sn_terminalsHydrated sn) \<or>
         sn_pendingDraftCreate sn \<or> sn_pendingTerminalCreate sn \<or>
         active \<noteq> [] \<or> terminals \<noteq> [] \<or> content
      then Inr l
      else ebind (createTabInLayout env l (Tab_draft draftId None) In_focused explorer (Inr draftId) None) (\<lambda>r.
             Inr (case r of Some (m, i) \<Rightarrow> m | None \<Rightarrow> l)))"

section \<open>Reconciliation\<close>

definition focused_tab :: "layout \<Rightarrow> string option" where
  "focused_tab l = (case findPaneById (lo_tree l) (lo_focus l) of Some p \<Rightarrow> sp_focusedTabId p | None \<Rightarrow> None)"

definition known_terminals :: "tab_snapshot \<Rightarrow> string list" where
  "known_terminals sn =
     (case sn_knownTerminalIds sn of
        Some ts \<Rightarrow> normalizeStringSet ts
      | None \<Rightarrow> normalizeStringSet (sn_standaloneTerminalIds sn))"

definition visible_agents :: "reconcile_state \<Rightarrow> tab_snapshot \<Rightarrow> string list" where
  "visible_agents st sn =
     applyPinnedAndHidden (normalizeStringSet (sn_activeAgentIds sn)) (rs_pinned st) (rs_pending st) (rs_hidden st)
       (normalizeStringSet (sn_knownAgentIds sn))"

definition auto_open_agents :: "reconcile_state \<Rightarrow> tab_snapshot \<Rightarrow> string list" where
  "auto_open_agents st sn =
     applyPinnedAndHidden (normalizeStringSet (sn_autoOpenAgentIds sn)) (rs_pinned st) (rs_pending st) (rs_hidden st)
       (normalizeStringSet (sn_knownAgentIds sn))"

definition reconcileWorkspaceTabs ::
    "layout_env \<Rightarrow> string \<Rightarrow> reconcile_state \<Rightarrow> tab_snapshot \<Rightarrow> layout_error + reconcile_state" where
  "reconcileWorkspaceTabs env draftId st sn =
     (let l0 = rs_layout st; original = focused_tab l0;
          initial = collectAllTabs (lo_tree l0);
          represented = List.map_filter agent_of (map wt_target initial) in
      ebind (buildEntityTabGroups initial []) (\<lambda>groups.
      ebind (efold (collapse_group env original) groups (l0, original)) (\<lambda>(l1, focus).
      ebind (collapseStaleEntityTabs env sn (visible_agents st sn) (known_terminals sn) l1) (\<lambda>l2.
      ebind (addMissingEntityTabs env (auto_open_agents st sn) represented
               (normalizeStringSet (sn_standaloneTerminalIds sn)) (sn_pendingTerminalCreate sn)
               (sn_pendingDraftCreate sn) (rs_explorer st) l2) (\<lambda>l3.
      ebind (seedDraftForEmptyWorkspace env draftId sn (normalizeStringSet (sn_activeAgentIds sn))
               (known_terminals sn) (rs_explorer st) l3) (\<lambda>l4.
      ebind (case focus of
               Some i \<Rightarrow> if i = [] then Inr l4 else or_layout (focusTabInLayout l4 i) l4
             | None \<Rightarrow> Inr l4) (\<lambda>l5.
      Inr (st\<lparr>rs_layout := l5\<rparr>))))))))"

end
