(* ===== verification/Split_Tree_Spec.thy ===== *)
theory Split_Tree_Spec
  imports Split_Tree
begin

text \<open>
  The split tree through its list of panes. Each walk is a search in \<open>panes tree\<close>, each edit changes
  one place of that list, and edits keep the tree well formed: groups have at least two children and
  positive sizes that sum to one, panes hold normal tabs with distinct ids.
\<close>

section \<open>Normal tabs\<close>

lemma trim_trim [simp]: "trim (trim s) = trim s"
  by (simp add: trimmed_trim)

lemma trimNonEmpty_simps [simp]:
  "trimNonEmpty (Some s) = Some t \<longleftrightarrow> t = trim s \<and> trim s \<noteq> []"
  "Some t = trimNonEmpty (Some s) \<longleftrightarrow> t = trim s \<and> trim s \<noteq> []"
  "trimNonEmpty (Some s) = None \<longleftrightarrow> trim s = []"
  "trimNonEmpty None = None"
  by (auto simp: trimNonEmpty_def)

lemma trimNonEmpty_idem [simp]: "trimNonEmpty (trimNonEmpty v) = trimNonEmpty v"
  by (auto simp: trimNonEmpty_def split: option.splits)

lemma slashes_trimmed:
  assumes "trimmed s"
  shows "trimmed (slashes s)"
proof -
  define f where "f c = (if c = CHR 0x5C then CHR ''/'' else c)" for c
  have sp: "js_space (f c) = js_space c" for c
    by (cases "c = CHR 0x5C") (simp_all add: f_def js_space_def)
  have "slashes s = map f s" by (simp add: slashes_def f_def[abs_def])
  with assms sp show ?thesis by (cases "s = []") (simp_all add: trimmed_def hd_map last_map)
qed

lemma slashes_idem [simp]: "slashes (slashes s) = slashes s"
  by (auto simp: slashes_def)

lemma slashes_Nil [simp]: "slashes s = [] \<longleftrightarrow> s = []"
  by (simp add: slashes_def)

lemma truthy_floor_Some:
  "truthy (floor_positive v) = Some q \<longleftrightarrow> (\<exists>x. v = Some (Fin x) \<and> x > 0 \<and> q = of_int \<lfloor>x\<rfloor> \<and> q \<noteq> 0)"
  by (auto simp: truthy_def floor_positive_def split: option.splits js_real.splits if_splits)

lemma truthy_floor_fix:
  assumes "truthy (floor_positive v) = Some q"
  shows "truthy (floor_positive (Some (Fin q))) = Some q"
proof -
  obtain x :: rat where x: "x > 0" "q = of_int \<lfloor>x\<rfloor>" and "q \<noteq> 0"
    using truthy_floor_Some[THEN iffD1, OF assms] by blast
  then have x3: "\<lfloor>x\<rfloor> \<noteq> 0" by simp
  have "0 \<le> \<lfloor>x\<rfloor>" using x(1) by simp
  with x3 have "0 < \<lfloor>x\<rfloor>" by linarith
  then show ?thesis using x3 by (auto simp: truthy_floor_Some x(2))
qed

lemma truthy_floor_idem:
  "truthy (floor_positive (map_option Fin (truthy (floor_positive v)))) = truthy (floor_positive v)"
proof (cases "truthy (floor_positive v)")
  case None
  then show ?thesis by (simp add: truthy_def floor_positive_def)
next
  case (Some q)
  then show ?thesis using truthy_floor_fix[OF Some] by simp
qed

lemma setup_idem:
  "normalizeWorkspaceDraftTabSetup (normalizeWorkspaceDraftTabSetup s) = normalizeWorkspaceDraftTabSetup s"
  by (auto simp: normalizeWorkspaceDraftTabSetup_def split: option.splits)

lemma location_idem:
  assumes "normalizeWorkspaceFileLocation p s e = Some (q, a, b)"
  shows "normalizeWorkspaceFileLocation q a b = Some (q, a, b)"
proof -
  let ?s = "truthy (floor_positive s)" and ?e = "truthy (floor_positive e)"
  have q: "q = slashes (trim p)" "q \<noteq> []" and a: "a = map_option Fin ?s"
    and b: "b = (case (?s, ?e) of (Some x, Some y) \<Rightarrow> if y \<ge> x then Some (Fin y) else None | _ \<Rightarrow> None)"
    using assms by (auto simp: normalizeWorkspaceFileLocation_def Let_def split: if_splits)
  have t: "trim q = q" "slashes q = q" using q(1) slashes_trimmed[OF trimmed_trim] by simp_all
  have s: "truthy (floor_positive a) = ?s" unfolding a by (rule truthy_floor_idem)
  have f: "truthy (floor_positive (Some (Fin y))) = Some y" if "?e = Some y" for y
    using truthy_floor_fix[OF that] .
  have n: "truthy (floor_positive None) = None" by (simp add: truthy_def floor_positive_def)
  show ?thesis
    using q(2) b
    by (cases ?s; cases ?e)
      (auto simp: normalizeWorkspaceFileLocation_def t s f n a Let_def truthy_floor_fix split: if_splits)
qed

lemma normalizeTarget_idem:
  assumes "normalizeWorkspaceTabTarget t = Some u"
  shows "normalizeWorkspaceTabTarget u = Some u"
proof (cases t)
  case (Tab_file p s e)
  then show ?thesis using assms by (auto dest: location_idem)
next
  case (Tab_working_diff p r)
  show ?thesis
  proof (cases "trimNonEmpty p")
    case None
    then show ?thesis using assms Tab_working_diff by (auto simp: truthy_floor_idem trimNonEmpty_def)
  next
    case (Some q)
    then have "trimmed q" "q \<noteq> []" by (auto simp: trimNonEmpty_def trimmed_trim split: option.splits if_splits)
    then have "trim (slashes q) = slashes q" "slashes q \<noteq> []" by (simp_all add: slashes_trimmed)
    then show ?thesis using assms Tab_working_diff Some by (auto simp: truthy_floor_idem)
  qed
next
  case (Tab_plugin p n a)
  then show ?thesis
    using assms by (auto simp: normalizePluginTabTarget_def split: option.splits)
next
  case (Tab_draft d s)
  then show ?thesis using assms by (auto simp: setup_idem)
qed (use assms in \<open>auto simp: one_id_def split: option.splits\<close>)

definition wf_target :: "tab_target \<Rightarrow> bool" where
  "wf_target t \<longleftrightarrow> normalizeWorkspaceTabTarget t = Some t"

definition wf_id :: "string \<Rightarrow> bool" where
  "wf_id i \<longleftrightarrow> trim i = i \<and> i \<noteq> []"

lemma wf_id_iff: "wf_id i \<longleftrightarrow> trimmed i \<and> i \<noteq> []"
  by (metis trim_trimmed trimmed_trim wf_id_def)

lemma wf_id_prefix: "x \<noteq> [] \<Longrightarrow> \<not> js_space (hd x) \<Longrightarrow> wf_id s \<Longrightarrow> wf_id (x @ s)"
  by (auto simp: wf_id_iff trimmed_def hd_append)

lemma js_space_literal [simp]:
  "\<not> js_space CHR ''a''" "\<not> js_space CHR ''p''" "\<not> js_space CHR ''t''" "\<not> js_space CHR ''b''"
  "\<not> js_space CHR ''s''" "\<not> js_space CHR ''c''" "\<not> js_space CHR ''f''" "\<not> js_space CHR ''w''"
  "\<not> js_space CHR ''e''" "\<not> js_space CHR ''g''"
  by (simp_all add: js_space_def)

lemma wf_id_counted: "wf_id s \<Longrightarrow> x \<noteq> [] \<Longrightarrow> \<not> js_space (hd x) \<Longrightarrow> wf_id (x @ counted s)"
  by (auto simp: wf_id_iff trimmed_def hd_append counted_def)

text \<open>A normal target other than a New tab has a normal deterministic id.\<close>

lemma wf_target_ids:
  "wf_target (Tab_draft s d) \<Longrightarrow> wf_id s"
  "wf_target (Tab_agent s) \<Longrightarrow> wf_id s"
  "wf_target (Tab_terminal s) \<Longrightarrow> wf_id s"
  "wf_target (Tab_browser s) \<Longrightarrow> wf_id s"
  "wf_target (Tab_setup s) \<Longrightarrow> wf_id s"
  "wf_target (Tab_commit_diff s) \<Longrightarrow> wf_id s"
  "wf_target (Tab_subagent p s) \<Longrightarrow> wf_id s"
  by (auto simp: wf_target_def one_id_def wf_id_def split: option.splits)

lemma wf_target_plugin: "wf_target (Tab_plugin p n a) \<Longrightarrow> wf_id n \<and> (\<forall>x. a = Some x \<longrightarrow> wf_id x)"
  by (auto simp: wf_target_def normalizePluginTabTarget_def wf_id_def split: option.splits)

lemma wf_target_file: "wf_target (Tab_file p s e) \<Longrightarrow> wf_id p"
  using slashes_trimmed[OF trimmed_trim, of p]
  by (auto simp: wf_target_def normalizeWorkspaceFileLocation_def Let_def wf_id_iff split: if_splits)

lemma wf_id_literal: "wf_id ''working_diff''" "wf_id ''changes_tree''" "wf_id ''files''" "wf_id ''pull_request''"
  by (simp_all add: wf_id_iff trimmed_def)

lemma deterministic_id_normal:
  assumes "wf_target t" "t \<noteq> Tab_new"
  shows "\<exists>i. buildDeterministicWorkspaceTabId t = Inr i \<and> wf_id i"
proof (cases t)
  case (Tab_plugin p n a)
  then show ?thesis
    using wf_target_plugin assms(1) wf_id_counted[of n "''plugin_workspace_'' @ counted p @ ''_''"]
      wf_id_counted[of "the a" "''plugin_agent_'' @ counted p @ ''_'' @ counted n @ ''_''"]
    by (cases a) auto
next
  case (Tab_subagent p s)
  then show ?thesis
    using assms(1) wf_target_ids(7) wf_id_counted[of s "''provider_subagent_'' @ counted p @ ''_''"] by auto
next
  case (Tab_agent s)
  then show ?thesis using assms(1) wf_target_ids(2) wf_id_prefix[of "''agent_''" s] by auto
next
  case (Tab_terminal s)
  then show ?thesis using assms(1) wf_target_ids(3) wf_id_prefix[of "''terminal_''" s] by auto
next
  case (Tab_browser s)
  then show ?thesis using assms(1) wf_target_ids(4) wf_id_prefix[of "''browser_''" s] by auto
next
  case (Tab_setup s)
  then show ?thesis using assms(1) wf_target_ids(5) wf_id_prefix[of "''setup_''" s] by auto
next
  case (Tab_commit_diff s)
  then show ?thesis using assms(1) wf_target_ids(6) wf_id_prefix[of "''commit_diff_''" s] by auto
next
  case (Tab_file s u v)
  then show ?thesis using assms(1) wf_target_file wf_id_prefix[of "''file_''" s] by auto
next
  case (Tab_draft s d)
  then show ?thesis using assms(1) wf_target_ids(1) by auto
qed (use assms(2) wf_id_literal in auto)

definition wf_tab :: "workspace_tab \<Rightarrow> bool" where
  "wf_tab t \<longleftrightarrow> wf_id (wt_id t) \<and> wf_target (wt_target t)"

lemma normalizeWorkspaceTab_wf: "wf_tab t \<Longrightarrow> normalizeWorkspaceTab t = Some t"
  by (auto simp: wf_tab_def normalizeWorkspaceTab_def wf_target_def wf_id_def split: option.splits)

lemma normalizeWorkspaceTab_result:
  assumes "normalizeWorkspaceTab t = Some u"
  shows "wf_tab u"
proof -
  obtain target where n: "normalizeWorkspaceTabTarget (wt_target t) = Some target"
    using assms by (auto simp: normalizeWorkspaceTab_def split: option.splits)
  then have w: "wf_target target" by (simp add: wf_target_def normalizeTarget_idem)
  show ?thesis
  proof (cases "trim (wt_id t) = [] \<and> target \<noteq> Tab_new")
    case True
    then show ?thesis
      using assms n w deterministic_id_normal[OF w]
      by (auto simp: normalizeWorkspaceTab_def wf_tab_def split: option.splits if_splits)
  next
    case False
    then show ?thesis
      using assms n w by (auto simp: normalizeWorkspaceTab_def wf_tab_def wf_id_def split: option.splits)
  qed
qed

section \<open>Well-formed panes\<close>

definition wf_pane :: "split_pane \<Rightarrow> bool" where
  "wf_pane p \<longleftrightarrow>
     wf_id (sp_id p) \<and> list_all wf_tab (sp_tabs p) \<and> distinct (map wt_id (sp_tabs p)) \<and>
     sp_tabIds p = map wt_id (sp_tabs p) \<and>
     (case sp_focusedTabId p of None \<Rightarrow> sp_tabs p = [] | Some f \<Rightarrow> f \<in> set (sp_tabIds p))"

lemma map_filter_wf: "list_all wf_tab ts \<Longrightarrow> List.map_filter normalizeWorkspaceTab ts = ts"
  by (induction ts) (auto simp: normalizeWorkspaceTab_wf)

lemma normalizeWorkspaceTabs_id:
  "list_all wf_tab ts \<Longrightarrow> distinct (map wt_id ts) \<Longrightarrow> normalizeWorkspaceTabs ts = ts"
  by (simp add: normalizeWorkspaceTabs_def map_filter_wf dedup_by_id)

lemma map_filter_set: "x \<in> set (List.map_filter f xs) \<Longrightarrow> \<exists>y \<in> set xs. f y = Some x"
  by (auto simp: List.map_filter_def)

lemma normalizeWorkspaceTabs_wf:
  "list_all wf_tab (normalizeWorkspaceTabs ts)" "distinct (map wt_id (normalizeWorkspaceTabs ts))"
  using dedup_by_subset[of wt_id "[]"] dedup_by_distinct[of wt_id "[]"]
  by (fastforce simp: normalizeWorkspaceTabs_def list_all_iff
      dest!: map_filter_set intro: normalizeWorkspaceTab_result)+

text \<open>With normal tabs only those whose id came before are dropped.\<close>

lemma normalizeWorkspaceTabs_ids:
  "list_all wf_tab ts \<Longrightarrow> wt_id ` set (normalizeWorkspaceTabs ts) = wt_id ` set ts"
  by (simp add: normalizeWorkspaceTabs_def map_filter_wf dedup_by_keys)

lemma normalizeWorkspaceTabs_Nil: "list_all wf_tab ts \<Longrightarrow> normalizeWorkspaceTabs ts = [] \<longleftrightarrow> ts = []"
  using normalizeWorkspaceTabs_ids[of ts] by (metis image_is_empty set_empty)

lemma pick_focus_wf:
  "list_all wf_tab ts \<Longrightarrow>
   (case pick_focus (map wt_id ts) f of None \<Rightarrow> ts = [] | Some g \<Rightarrow> g \<in> set (map wt_id ts))"
  by (cases f) (auto simp: pick_focus_def last_opt_def last_map wf_tab_def wf_id_def list_all_iff split: option.splits)

lemma pick_focus_keep: "f \<in> set ids \<Longrightarrow> pick_focus ids (Some f) = Some f"
  by (simp add: pick_focus_def)

lemma normalizePane_wf: "wf_id (sp_id p) \<Longrightarrow> wf_pane (normalizePaneAfterTabChange p)"
  using pick_focus_wf[OF normalizeWorkspaceTabs_wf(1), of "sp_tabs p" "sp_focusedTabId p"]
    normalizeWorkspaceTabs_wf[of "sp_tabs p"]
  by (cases "pick_focus (map wt_id (normalizeWorkspaceTabs (sp_tabs p))) (sp_focusedTabId p)")
    (simp_all add: wf_pane_def normalizePaneAfterTabChange_def Let_def)

lemma normalizePane_fields [simp]:
  "sp_id (normalizePaneAfterTabChange p) = sp_id p"
  "sp_tabs (normalizePaneAfterTabChange p) = normalizeWorkspaceTabs (sp_tabs p)"
  "sp_hidden (normalizePaneAfterTabChange p) = sp_hidden p"
  "sp_tabIds (normalizePaneAfterTabChange p) = map wt_id (normalizeWorkspaceTabs (sp_tabs p))"
  "sp_focusedTabId (normalizePaneAfterTabChange p) =
     pick_focus (map wt_id (normalizeWorkspaceTabs (sp_tabs p))) (sp_focusedTabId p)"
  by (simp_all add: normalizePaneAfterTabChange_def Let_def)

lemma createPaneNode_pane:
  "createPaneNode i ts f h = Pane (normalizePaneAfterTabChange
     \<lparr>sp_id = i, sp_tabs = ts, sp_tabIds = [], sp_focusedTabId = f, sp_hidden = h\<rparr>)"
  by (simp add: createPaneNode_def normalizePaneAfterTabChange_def Let_def)

lemma wf_paneD:
  assumes "wf_pane p"
  shows "wf_id (sp_id p)" "list_all wf_tab (sp_tabs p)" "distinct (map wt_id (sp_tabs p))"
    "sp_tabIds p = map wt_id (sp_tabs p)" "normalizeWorkspaceTabs (sp_tabs p) = sp_tabs p"
  using assms by (simp_all add: wf_pane_def normalizeWorkspaceTabs_id)

text \<open>A well-formed pane is in normal form.\<close>

lemma normalizePane_id: "wf_pane p \<Longrightarrow> normalizePaneAfterTabChange p = p"
  by (auto simp: normalizePaneAfterTabChange_def Let_def normalizeWorkspaceTabs_id wf_pane_def
      pick_focus_def last_opt_def split: option.splits)

section \<open>Sizes\<close>

definition wf_sizes :: "rat list \<Rightarrow> nat \<Rightarrow> bool" where
  "wf_sizes ss n \<longleftrightarrow> length ss = n \<and> list_all (\<lambda>s. s > 0) ss \<and> sum_list ss = 1"

lemma sane_size_pos: "sane_size v > 0"
  by (auto simp: sane_size_def split: js_real.splits)

lemma sum_list_pos: "list_all (\<lambda>s. s > (0 :: rat)) xs \<Longrightarrow> xs \<noteq> [] \<Longrightarrow> sum_list xs > 0"
proof (induction xs)
  case (Cons x xs)
  then show ?case by (cases xs) auto
qed simp

lemma sum_list_divide: "sum_list (map (\<lambda>v. v / (c :: rat)) xs) = sum_list xs / c"
  by (induction xs) (auto simp: add_divide_distrib)

lemma normalizeSizes_wf:
  assumes "n \<noteq> 0"
  shows "wf_sizes (normalizeSizes sizes n) n"
proof -
  define xs where "xs = map sane_size (take n sizes @ replicate (n - length (take n sizes)) (Fin 1))"
  have len: "length xs = n" by (simp add: xs_def)
  have pos: "list_all (\<lambda>s. s > 0) xs" by (auto simp: xs_def list_all_iff sane_size_pos)
  have t: "sum_list xs > 0" using sum_list_pos[OF pos] len assms by auto
  then have "normalizeSizes sizes n = map (\<lambda>v. v / sum_list xs) xs"
    using assms by (simp add: normalizeSizes_def xs_def Let_def)
  then show ?thesis
    using pos t len by (auto simp: wf_sizes_def list_all_iff sum_list_divide)
qed

lemma normalizeSizes_id: "wf_sizes ss n \<Longrightarrow> n \<noteq> 0 \<Longrightarrow> normalizeSizes (map Fin ss) n = ss"
proof -
  assume a: "wf_sizes ss n" "n \<noteq> 0"
  then have "map (sane_size \<circ> Fin) ss = ss"
    by (auto simp: wf_sizes_def list_all_iff sane_size_def intro: map_idI)
  with a show ?thesis by (simp add: normalizeSizes_def wf_sizes_def Let_def map_idI)
qed

section \<open>Well-formed trees\<close>

fun wf_node :: "split_node \<Rightarrow> bool" where
  "wf_node (Pane p) = wf_pane p"
| "wf_node (Group i d cs ss) \<longleftrightarrow>
     wf_id i \<and> length cs \<ge> 2 \<and> wf_sizes ss (length cs) \<and> list_all wf_node cs"

fun panes :: "split_node \<Rightarrow> split_pane list" where
  "panes (Pane p) = [p]"
| "panes (Group i d cs ss) = concat (map panes cs)"

lemma createGroupNode_wf:
  "wf_id i \<Longrightarrow> length cs \<ge> 2 \<Longrightarrow> list_all wf_node cs \<Longrightarrow> wf_node (createGroupNode i d cs ss)"
  by (auto simp: createGroupNode_def intro!: normalizeSizes_wf)

lemma createGroupNode_panes [simp]: "panes (createGroupNode i d cs ss) = concat (map panes cs)"
  by (simp add: createGroupNode_def)

lemma createGroupNode_id: "wf_node (Group i d cs ss) \<Longrightarrow> createGroupNode i d cs ss = Group i d cs ss"
  using normalizeSizes_id[of ss "length cs"] by (cases cs) (auto simp: createGroupNode_def)

text \<open>What stands before and after the node at a path, in the order of the panes.\<close>

fun focus_at :: "split_node \<Rightarrow> nat list \<Rightarrow> (split_pane list \<times> split_node \<times> split_pane list) option" where
  "focus_at n [] = Some ([], n, [])"
| "focus_at (Pane p) (k # ks) = None"
| "focus_at (Group i d cs ss) (k # ks) =
     (if k < length cs then
        map_option (\<lambda>(xs, n, ys). (concat (map panes (take k cs)) @ xs, n,
                                    ys @ concat (map panes (drop (Suc k) cs)))) (focus_at (cs ! k) ks)
      else None)"

lemma concat_take_nth_drop:
  "k < length cs \<Longrightarrow>
   concat (map f cs) = concat (map f (take k cs)) @ f (cs ! k) @ concat (map f (drop (Suc k) cs))"
  by (subst id_take_nth_drop[of k cs]) auto

lemma focus_panes: "focus_at t path = Some (xs, n, ys) \<Longrightarrow> panes t = xs @ panes n @ ys"
proof (induction t path arbitrary: xs ys rule: focus_at.induct)
  case (3 i d cs ss k ks)
  then obtain us vs where k: "k < length cs" "focus_at (cs ! k) ks = Some (us, n, vs)"
    "xs = concat (map panes (take k cs)) @ us" "ys = vs @ concat (map panes (drop (Suc k) cs))"
    by (auto split: if_splits)
  then show ?case using 3(1)[OF k(1,2)] by (simp add: concat_take_nth_drop[OF k(1)])
qed auto

lemma focus_get: "focus_at t path = Some (xs, n, ys) \<Longrightarrow> getNodeAtPath t path = Inr n"
  by (induction t path arbitrary: xs ys rule: focus_at.induct) (auto split: if_splits)

lemma focus_wf: "focus_at t path = Some (xs, n, ys) \<Longrightarrow> wf_node t \<Longrightarrow> wf_node n"
  by (induction t path arbitrary: xs ys rule: focus_at.induct)
    (auto split: if_splits simp: list_all_length)

lemma focus_replace:
  assumes "focus_at t path = Some (xs, n, ys)" "u n = Inr m"
  shows "\<exists>t'. replaceNodeAtPath t path u = Inr t' \<and> focus_at t' path = Some (xs, m, ys) \<and>
              (wf_node t \<longrightarrow> wf_node m \<longrightarrow> wf_node t')"
  using assms
proof (induction t path arbitrary: xs ys rule: focus_at.induct)
  case (3 i d cs ss k ks)
  then obtain us vs where k: "k < length cs" "focus_at (cs ! k) ks = Some (us, n, vs)"
    and xy: "xs = concat (map panes (take k cs)) @ us" "ys = vs @ concat (map panes (drop (Suc k) cs))"
    by (auto split: if_splits)
  obtain c where c: "replaceNodeAtPath (cs ! k) ks u = Inr c" "focus_at c ks = Some (us, m, vs)"
      "wf_node (cs ! k) \<longrightarrow> wf_node m \<longrightarrow> wf_node c"
    using 3(1)[OF k(1,2) 3(3)] by blast
  have "focus_at (createGroupNode i d (cs[k := c]) ss) (k # ks) = Some (xs, m, ys)"
    using k(1) c(2) by (simp add: createGroupNode_def xy)
  moreover have "wf_node (createGroupNode i d (cs[k := c]) ss)" if "wf_node (Group i d cs ss)" "wf_node m"
    using that k(1) c(3)
    by (intro createGroupNode_wf) (auto simp: list_all_length nth_list_update)
  ultimately show ?case using k(1) c(1) by auto
qed auto

lemma replace_panes:
  assumes "focus_at t path = Some (xs, n, ys)" "u n = Inr m" "replaceNodeAtPath t path u = Inr t'"
  shows "panes t' = xs @ panes m @ ys" "wf_node t \<Longrightarrow> wf_node m \<Longrightarrow> wf_node t'"
    "focus_at t' path = Some (xs, m, ys)"
  using focus_replace[of t path xs n ys u m] assms by (auto dest: focus_panes)

lemma focus_snoc:
  assumes "focus_at t (q @ [k]) = Some (xs, n, ys)"
  shows "\<exists>us i d cs ss vs. focus_at t q = Some (us, Group i d cs ss, vs) \<and> k < length cs \<and> cs ! k = n \<and>
           xs = us @ concat (map panes (take k cs)) \<and> ys = concat (map panes (drop (Suc k) cs)) @ vs"
  using assms
proof (induction q arbitrary: t xs ys)
  case Nil
  then show ?case by (cases t) (auto split: if_splits)
next
  case (Cons j q)
  then obtain i d cs ss where t: "t = Group i d cs ss" by (cases t) auto
  obtain us vs where j: "j < length cs" "focus_at (cs ! j) (q @ [k]) = Some (us, n, vs)"
    "xs = concat (map panes (take j cs)) @ us" "ys = vs @ concat (map panes (drop (Suc j) cs))"
    using Cons.prems t by (auto split: if_splits)
  show ?case using Cons.IH[OF j(2)] j t by fastforce
qed

section \<open>Searches are searches in the list of panes\<close>

lemma find_append:
  "find P (xs @ ys) = (case find P xs of Some x \<Rightarrow> Some x | None \<Rightarrow> find P ys)"
  by (induction xs) auto

lemma concat_map_concat: "concat (map (\<lambda>x. concat (g x)) cs) = concat (concat (map g cs))"
  by (induction cs) auto

lemma findPane_find: "findPane P t = find P (panes t)"
  and findPanes_find: "findPanes P cs = find P (concat (map panes cs))"
  by (induction P t and P cs rule: findPane_findPanes.induct) (auto simp: find_append split: option.splits)

lemma collectAllTabs_panes: "collectAllTabs t = concat (map sp_tabs (panes t))"
  by (induction t rule: collectAllTabs.induct) (auto simp: map_concat concat_map_concat cong: map_cong)

lemma collectAllPanes_panes: "collectAllPanes t = filter (\<lambda>p. \<not> sp_hidden p) (panes t)"
  by (induction t rule: collectAllPanes.induct) (auto simp: filter_concat comp_def cong: map_cong)

lemma listPaneIds_panes: "listPaneIds t = map sp_id (filter (\<lambda>p. \<not> sp_hidden p) (panes t))"
  by (induction t rule: listPaneIds.induct) (auto simp: filter_concat map_concat comp_def cong: map_cong)

lemma findPanePath_None:
  "findPanePath P t path = None \<longleftrightarrow> (\<forall>x \<in> set (panes t). \<not> P x)"
  "findPanePaths P cs k path = None \<longleftrightarrow> (\<forall>x \<in> set (concat (map panes cs)). \<not> P x)"
  by (induction P t path and P cs k path rule: findPanePath_findPanePaths.induct) (auto split: option.splits)

lemma findPanePath_focus:
  "findPanePath P t path = Some q \<Longrightarrow>
     \<exists>r xs p ys. q = path @ r \<and> focus_at t r = Some (xs, Pane p, ys) \<and> P p \<and> (\<forall>x \<in> set xs. \<not> P x)"
  "findPanePaths P cs k path = Some q \<Longrightarrow>
     \<exists>j r xs p ys. j < length cs \<and> q = path @ (k + j) # r \<and> focus_at (cs ! j) r = Some (xs, Pane p, ys) \<and>
       P p \<and> (\<forall>x \<in> set (concat (map panes (take j cs)) @ xs). \<not> P x)"
proof (induction P t path and P cs k path arbitrary: q and q rule: findPanePath_findPanePaths.induct)
  case (2 P i d cs ss path)
  then obtain j r xs p ys where "j < length cs" "q = path @ j # r" "focus_at (cs ! j) r = Some (xs, Pane p, ys)"
    "P p" "\<forall>x \<in> set (concat (map panes (take j cs)) @ xs). \<not> P x"
    by fastforce
  then show ?case
    by (intro exI[of _ "j # r"] exI[of _ "concat (map panes (take j cs)) @ xs"] exI[of _ p]
          exI[of _ "ys @ concat (map panes (drop (Suc j) cs))"]) auto
next
  case (4 P c cs k path)
  show ?case
  proof (cases "findPanePath P c (path @ [k])")
    case None
    then obtain j r xs p ys where j: "j < length cs" "q = path @ (Suc k + j) # r"
      "focus_at (cs ! j) r = Some (xs, Pane p, ys)" "P p"
      "\<forall>x \<in> set (concat (map panes (take j cs)) @ xs). \<not> P x"
      using 4(2)[OF None, of q] 4(3) by auto
    moreover have "\<forall>x \<in> set (panes c). \<not> P x" using None findPanePath_None(1) by blast
    ultimately show ?thesis
      by (intro exI[of _ "Suc j"] exI[of _ r] exI[of _ xs] exI[of _ p] exI[of _ ys]) auto
  next
    case (Some q')
    then obtain r xs p ys where "q = (path @ [k]) @ r" "focus_at c r = Some (xs, Pane p, ys)" "P p"
      "\<forall>x \<in> set xs. \<not> P x"
      using 4(1)[of q] 4(3) by auto
    then show ?thesis
      by (intro exI[of _ 0] exI[of _ r] exI[of _ xs] exI[of _ p] exI[of _ ys]) auto
  qed
qed (auto split: if_splits)

text \<open>A walk along a search finds the first pane, with what stands before and after it.\<close>

lemma findPanePath_at:
  assumes "findPanePath P t [] = Some q"
  obtains xs p ys where "focus_at t q = Some (xs, Pane p, ys)" "P p" "\<forall>x \<in> set xs. \<not> P x"
    "panes t = xs @ p # ys" "find P (panes t) = Some p"
proof -
  obtain xs p ys where f: "focus_at t q = Some (xs, Pane p, ys)" "P p" "\<forall>x \<in> set xs. \<not> P x"
    using findPanePath_focus(1)[OF assms] by auto
  moreover have "panes t = xs @ p # ys" using focus_panes[OF f(1)] by simp
  moreover from f(3) have "find P xs = None" by (simp add: find_None_iff)
  ultimately show ?thesis using that by (simp add: find_append)
qed

lemma findPanePath_iff: "findPanePath P t [] = None \<longleftrightarrow> find P (panes t) = None"
  by (auto simp: findPanePath_None find_None_iff)

lemma findGroupPath_focus:
  "findGroupPath g t path = Some q \<Longrightarrow>
     \<exists>r xs i d cs ss ys. q = path @ r \<and> focus_at t r = Some (xs, Group i d cs ss, ys) \<and> i = g"
  "findGroupPaths g cs' k path = Some q \<Longrightarrow>
     \<exists>j r xs i d cs ss ys. j < length cs' \<and> q = path @ (k + j) # r \<and>
       focus_at (cs' ! j) r = Some (xs, Group i d cs ss, ys) \<and> i = g"
proof (induction g t path and g cs' k path arbitrary: q and q rule: findGroupPath_findGroupPaths.induct)
  case (2 g i d cs ss path)
  show ?case
  proof (cases "i = g")
    case True
    with 2(2) show ?thesis by auto
  next
    case False
    then obtain j r xs i' d' cs' ss' ys where "j < length cs" "q = path @ j # r"
      "focus_at (cs ! j) r = Some (xs, Group i' d' cs' ss', ys)" "i' = g"
      using 2(1)[of q] 2(2) by fastforce
    then show ?thesis
      by (intro exI[of _ "j # r"] exI[of _ "concat (map panes (take j cs)) @ xs"] exI[of _ i']) auto
  qed
next
  case (4 g c cs k path)
  show ?case
  proof (cases "findGroupPath g c (path @ [k])")
    case None
    then obtain j r xs i d cs'' ss ys where "j < length cs" "q = path @ (Suc k + j) # r"
      "focus_at (cs ! j) r = Some (xs, Group i d cs'' ss, ys)" "i = g"
      using 4(2)[OF None, of q] 4(3) by auto
    then show ?thesis by (intro exI[of _ "Suc j"] exI[of _ r] exI[of _ xs] exI[of _ i]) auto
  next
    case (Some q')
    then obtain r xs i d cs'' ss ys where "q = (path @ [k]) @ r"
      "focus_at c r = Some (xs, Group i d cs'' ss, ys)" "i = g"
      using 4(1)[of q] 4(3) by auto
    then show ?thesis by (intro exI[of _ 0] exI[of _ r] exI[of _ xs] exI[of _ i]) auto
  qed
qed (auto split: if_splits)

section \<open>Removing and adding panes\<close>

lemma concat_remove_nth:
  "concat (map f (remove_nth k cs)) = concat (map f (take k cs)) @ concat (map f (drop (Suc k) cs))"
  by (simp add: remove_nth_def)

lemma length_remove_nth: "k < length cs \<Longrightarrow> length (remove_nth k cs) = length cs - 1"
  by (simp add: remove_nth_def)

lemma set_remove_nth: "set (remove_nth k cs) \<subseteq> set cs"
  by (auto simp: remove_nth_def dest: in_set_takeD in_set_dropD)

lemma removePaneByPath_panes:
  assumes "focus_at t path = Some (xs, Pane p, ys)" "wf_node t" "path \<noteq> []"
  shows "\<exists>t'. removePaneByPath env t path = Inr t' \<and> panes t' = xs @ ys \<and> wf_node t'"
proof -
  obtain q k where path: "path = q @ [k]" using assms(3) by (cases path rule: rev_cases) auto
  obtain us i d cs ss vs where q: "focus_at t q = Some (us, Group i d cs ss, vs)" "k < length cs" "cs ! k = Pane p"
    "xs = us @ concat (map panes (take k cs))" "ys = concat (map panes (drop (Suc k) cs)) @ vs"
    using focus_snoc assms(1) path by blast
  have g: "wf_node (Group i d cs ss)" using focus_wf[OF q(1) assms(2)] .
  define cs' where "cs' = remove_nth k cs"
  have len: "length cs' = length cs - 1" using q(2) by (simp add: cs'_def length_remove_nth)
  have wcs: "list_all wf_node cs'" using g set_remove_nth[of k cs] by (auto simp: list_all_iff cs'_def)
  have ne: "cs' \<noteq> []" using len g by (cases cs') auto
  define m where "m = (case cs' of [c] \<Rightarrow> c | _ \<Rightarrow> createGroupNode i d cs' (remove_nth k ss))"
  have pm: "panes m = concat (map panes cs')"
    using ne by (auto simp: m_def split: list.splits)
  have wm: "wf_node m"
  proof (cases "length cs' = 1")
    case True
    then show ?thesis using wcs by (auto simp: m_def length_Suc_conv)
  next
    case False
    then have l2: "length cs' \<ge> 2" using ne by (cases cs') (auto simp: Suc_le_eq)
    then have "m = createGroupNode i d cs' (remove_nth k ss)" by (auto simp: m_def split: list.splits)
    then show ?thesis using createGroupNode_wf[OF _ l2 wcs] g by simp
  qed
  obtain t' where t': "replaceNodeAtPath t q (\<lambda>_. Inr m) = Inr t'"
    using focus_replace[OF q(1), of "\<lambda>_. Inr m" m] by auto
  have "removePaneByPath env t path = Inr t'"
    using path focus_get[OF q(1)] ne[unfolded cs'_def] t'[unfolded m_def cs'_def]
    by (simp add: removePaneByPath_def Let_def)
  moreover have "panes t' = xs @ ys"
    using replace_panes(1)[OF q(1) _ t'] pm q(4,5) by (simp add: cs'_def concat_remove_nth)
  moreover have "wf_node t'" using replace_panes(2)[OF q(1) _ t' assms(2) wm] by simp
  ultimately show ?thesis by blast
qed

lemma sole_pane: "focus_at t [] = Some (xs, Pane p, ys) \<longleftrightarrow> t = Pane p \<and> xs = [] \<and> ys = []"
  by auto

lemma concat_insert_nth:
  "concat (map f (insert_nth k c cs)) = concat (map f (take k cs)) @ f c @ concat (map f (drop k cs))"
  by (simp add: insert_nth_def)

lemma length_insert_nth: "length (insert_nth k c cs) = Suc (length cs)"
  by (simp add: insert_nth_def)

lemma set_insert_nth: "set (insert_nth k c cs) = insert c (set cs)"
  by (metis append_take_drop_id insert_nth_def list.simps(15) set_append Un_insert_right)

definition beside :: "split_position \<Rightarrow> 'a \<Rightarrow> 'a \<Rightarrow> 'a list" where
  "beside pos old new = (if insert_after pos then [old, new] else [new, old])"

lemma place_beside_panes:
  assumes f: "focus_at t path = Some (xs, Pane p, ys)" and w: "wf_node t" "wf_node (Pane n)"
    and g: "wf_id (le_groupId env)"
  shows "\<exists>t'. place_beside env t path (Pane p) pos (Pane n) = Inr t' \<and>
              panes t' = xs @ beside pos p n @ ys \<and> wf_node t'"
proof -
  have wp: "wf_node (Pane p)" using focus_wf[OF f w(1)] .
  define new where "new = createGroupNode (le_groupId env) (split_direction pos)
       (if insert_after pos then [Pane p, Pane n] else [Pane n, Pane p]) [1 / 2, 1 / 2]"
  have wn: "wf_node new"
    unfolding new_def by (rule createGroupNode_wf) (use g wp w(2) in auto)
  have pn: "panes new = beside pos p n" by (simp add: new_def beside_def)
  obtain tw where tw: "replaceNodeAtPath t path (\<lambda>_. Inr new) = Inr tw"
    using focus_replace[OF f, of "\<lambda>_. Inr new" new] by auto
  have wrap: "panes tw = xs @ beside pos p n @ ys" "wf_node tw"
    using replace_panes(1,2)[OF f _ tw, of new] w(1) wn pn by auto
  show ?thesis
  proof (cases path rule: rev_cases)
    case Nil
    then show ?thesis using tw wrap by (simp add: place_beside_def findParentGroup_def Let_def new_def)
  next
    case (snoc q k)
    obtain us i d cs ss vs where q: "focus_at t q = Some (us, Group i d cs ss, vs)" "k < length cs" "cs ! k = Pane p"
      "xs = us @ concat (map panes (take k cs))" "ys = concat (map panes (drop (Suc k) cs)) @ vs"
      using focus_snoc f snoc by blast
    have parent: "findParentGroup t path = Inr (Some (Group i d cs ss))"
      using snoc focus_get[OF q(1)] by (simp add: findParentGroup_def)
    show ?thesis
    proof (cases "d = split_direction pos")
      case False
      then show ?thesis using parent tw wrap by (simp add: place_beside_def Let_def new_def)
    next
      case True
      define j where "j = (if insert_after pos then k + 1 else k)"
      define sizes where "sizes = (insert_nth j (size_at ss k / 2) ss)
                                    [k + (if insert_after pos then 0 else 1) := size_at ss k / 2]"
      define m where "m = createGroupNode i d (insert_nth j (Pane n) cs) sizes"
      have gw: "wf_node (Group i d cs ss)" using focus_wf[OF q(1) w(1)] .
      have wm: "wf_node m"
        unfolding m_def by (rule createGroupNode_wf) (use gw w(2) in \<open>auto simp: length_insert_nth list_all_iff set_insert_nth\<close>)
      have "drop k cs = Pane p # drop (Suc k) cs" using q(2,3) Cons_nth_drop_Suc by metis
      moreover have "take (Suc k) cs = take k cs @ [Pane p]" using q(2,3) take_Suc_conv_app_nth by metis
      ultimately have pm: "panes m = concat (map panes (take k cs)) @ beside pos p n @ concat (map panes (drop (Suc k) cs))"
        by (simp add: m_def concat_insert_nth j_def beside_def)
      obtain t' where t': "replaceNodeAtPath t q (\<lambda>_. Inr m) = Inr t'"
        using focus_replace[OF q(1), of "\<lambda>_. Inr m" m] by auto
      have "place_beside env t path (Pane p) pos (Pane n) = Inr t'"
        using True parent snoc t' by (simp add: place_beside_def Let_def insertChildIntoGroup_def m_def sizes_def j_def)
      moreover have "panes t' = xs @ beside pos p n @ ys"
        using replace_panes(1)[OF q(1) _ t'] pm q(4,5) by simp
      moreover have "wf_node t'" using replace_panes(2)[OF q(1) _ t' w(1) wm] by simp
      ultimately show ?thesis by blast
    qed
  qed
qed

end
