(* ===== verification/Split_Edits.thy ===== *)
theory Split_Edits
  imports Split_Tree_Spec
begin

text \<open>
  The edits of the split tree as edits of its list of panes: one pane is changed (\<open>upd\<close>), taken out,
  or gets a neighbour. On a tree whose panes have distinct ids no edit throws.
\<close>

section \<open>Trees with distinct panes\<close>

definition pane_ids :: "split_node \<Rightarrow> string list" where
  "pane_ids t = map sp_id (panes t)"

definition tree_ok :: "split_node \<Rightarrow> bool" where
  "tree_ok t \<longleftrightarrow> wf_node t \<and> distinct (pane_ids t) \<and> list_all (\<lambda>p. sp_tabs p \<noteq> []) (panes t)"

definition env_ok :: "layout_env \<Rightarrow> bool" where
  "env_ok env \<longleftrightarrow> (\<forall>i. wf_id (le_messageId env i)) \<and> wf_id (le_paneId env) \<and> wf_id (le_groupId env)"

definition upd :: "string \<Rightarrow> (split_pane \<Rightarrow> split_pane) \<Rightarrow> split_pane list \<Rightarrow> split_pane list" where
  "upd i f ps = map (\<lambda>p. if sp_id p = i then f p else p) ps"

lemma upd_ids: "(\<And>p. sp_id p = i \<Longrightarrow> sp_id (f p) = i) \<Longrightarrow> map sp_id (upd i f ps) = map sp_id ps"
  by (auto simp: upd_def)

lemma other_ids:
  assumes "distinct (map sp_id (xs @ p # ys))" "x \<in> set xs \<or> x \<in> set ys"
  shows "sp_id x \<noteq> sp_id p"
proof -
  have "sp_id p \<notin> sp_id ` (set xs \<union> set ys)" using assms(1) by auto
  with assms(2) show ?thesis by (metis Un_iff image_eqI)
qed

lemma upd_split:
  assumes "distinct (map sp_id (xs @ p # ys))"
  shows "upd (sp_id p) f (xs @ p # ys) = xs @ f p # ys"
proof -
  have "map (\<lambda>q. if sp_id q = sp_id p then f q else q) zs = zs" if "set zs \<subseteq> set xs \<union> set ys" for zs
    by (rule map_idI) (use that other_ids[OF assms] in auto)
  then show ?thesis by (simp add: upd_def)
qed

lemma filter_split:
  assumes "distinct (map sp_id (xs @ p # ys))"
  shows "filter (\<lambda>q. sp_id q \<noteq> sp_id p) (xs @ p # ys) = xs @ ys"
  using other_ids[OF assms] by (simp add: filter_id_conv)

lemma wf_node_panes: "wf_node t \<Longrightarrow> list_all wf_pane (panes t)"
  by (induction t rule: panes.induct) (auto simp: list_all_iff)

lemma panes_not_Nil: "wf_node t \<Longrightarrow> panes t \<noteq> []"
proof (induction t rule: panes.induct)
  case (2 i d cs ss)
  then obtain c cs' where "cs = c # cs'" by (cases cs) auto
  then show ?case using 2 by auto
qed simp

lemma group_panes:
  assumes "wf_node (Group i d cs ss)"
  shows "length (panes (Group i d cs ss)) \<ge> 2"
proof -
  obtain a b cs' where cs: "cs = a # b # cs'" using assms by (cases cs; cases "tl cs") auto
  then have "panes a \<noteq> []" "panes b \<noteq> []" using assms panes_not_Nil by auto
  then show ?thesis using cs by (cases "panes a"; cases "panes b") auto
qed

lemma sole_pane_iff: "wf_node t \<Longrightarrow> panes t = [p] \<longleftrightarrow> t = Pane p"
proof (cases t)
  case (Group i d cs ss)
  assume "wf_node t"
  then have "length (panes t) \<ge> 2" using group_panes Group by simp
  then show ?thesis using Group by auto
qed auto

lemma tree_okD:
  assumes "tree_ok t"
  shows "wf_node t" "distinct (map sp_id (panes t))" "\<And>p. p \<in> set (panes t) \<Longrightarrow> wf_pane p"
    "\<And>p. p \<in> set (panes t) \<Longrightarrow> sp_tabs p \<noteq> []"
  using assms wf_node_panes[of t] by (auto simp: tree_ok_def pane_ids_def list_all_iff)

lemma tree_okI:
  "wf_node t \<Longrightarrow> distinct (map sp_id (panes t)) \<Longrightarrow> (\<And>p. p \<in> set (panes t) \<Longrightarrow> sp_tabs p \<noteq> []) \<Longrightarrow> tree_ok t"
  by (auto simp: tree_ok_def pane_ids_def list_all_iff)

lemma find_by_id:
  "distinct (map sp_id ps) \<Longrightarrow> find (\<lambda>p. sp_id p = i) ps = Some p \<longleftrightarrow> p \<in> set ps \<and> sp_id p = i"
  by (induction ps) (auto simp: image_iff)

text \<open>Looking a pane up by an id that is not empty.\<close>

lemma findPaneById_iff:
  assumes "tree_ok t"
  shows "findPaneById t (Some i) = Some p \<longleftrightarrow> p \<in> set (panes t) \<and> sp_id p = i"
  using find_by_id[OF tree_okD(2)[OF assms]] tree_okD(3)[OF assms] wf_paneD(1)
  by (auto simp: findPaneById_def findPane_find wf_id_def)

lemma findPaneById_None:
  assumes "tree_ok t"
  shows "findPaneById t (Some i) = None \<longleftrightarrow> i \<notin> sp_id ` set (panes t)"
proof (cases "findPaneById t (Some i)")
  case None
  then show ?thesis using findPaneById_iff[OF assms, of i] by (auto simp: image_iff)
next
  case (Some p)
  then have "p \<in> set (panes t) \<and> sp_id p = i" using findPaneById_iff[OF assms] by blast
  then show ?thesis using Some by auto
qed

lemma findPaneContainingTab_Some:
  assumes "findPaneContainingTab t tabId = Some p"
  shows "p \<in> set (panes t)" "has_tab tabId p"
  using assms by (auto simp: findPaneContainingTab_def findPane_find find_Some_iff)

lemma findPaneContainingTab_None:
  "findPaneContainingTab t tabId = None \<longleftrightarrow> (\<forall>p \<in> set (panes t). \<not> has_tab tabId p)"
  by (auto simp: findPaneContainingTab_def findPane_find find_None_iff)

lemma has_tab_iff: "has_tab i p \<longleftrightarrow> i \<in> wt_id ` set (sp_tabs p)"
  by (auto simp: has_tab_def list_ex_iff)

section \<open>Changing one pane\<close>

definition on_pane :: "string \<Rightarrow> (split_pane \<Rightarrow> split_pane) \<Rightarrow> split_node \<Rightarrow> layout_error + split_node" where
  "on_pane message f =
     case_split_node (\<lambda>p. Inr (Pane (f p))) (\<lambda>i d cs ss. Inl (Invariant_failed message))"

definition pane_edit :: "(split_node \<Rightarrow> layout_error + split_node) \<Rightarrow> (split_pane \<Rightarrow> split_pane) \<Rightarrow> bool" where
  "pane_edit u f \<longleftrightarrow> (\<forall>p. u (Pane p) = Inr (Pane (f p)))"

lemma pane_edit_on_pane: "pane_edit (on_pane message f) f"
  by (simp add: pane_edit_def on_pane_def)

text \<open>The walk of a search and the edit at its end.\<close>

lemma edit_found:
  assumes "tree_ok t" "find P (panes t) = Some p" "pane_edit u f" "wf_pane (f p)"
  obtains path t' where "findPanePath P t [] = Some path" "getNodeAtPath t path = Inr (Pane p)"
    "replaceNodeAtPath t path u = Inr t'" "panes t' = upd (sp_id p) f (panes t)" "wf_node t'"
proof -
  obtain path where path: "findPanePath P t [] = Some path"
    using assms(2) findPanePath_iff[of P t] by (cases "findPanePath P t []") auto
  obtain xs q ys where q: "focus_at t path = Some (xs, Pane q, ys)" "panes t = xs @ q # ys"
    "find P (panes t) = Some q"
    using findPanePath_at[OF path] by metis
  then have qp: "q = p" using assms(2) by simp
  have u: "u (Pane p) = Inr (Pane (f p))" using assms(3) by (simp add: pane_edit_def)
  obtain t' where t': "replaceNodeAtPath t path u = Inr t'"
    using focus_replace[OF q(1)] u qp by blast
  show ?thesis
  proof (rule that[OF path _ t'])
    show "getNodeAtPath t path = Inr (Pane p)" using focus_get[OF q(1)] qp by simp
    show "panes t' = upd (sp_id p) f (panes t)"
      using replace_panes(1)[OF q(1) _ t'] u qp upd_split tree_okD(2)[OF assms(1)] q(2) by auto
    show "wf_node t'" using replace_panes(2)[OF q(1) _ t'] u qp tree_okD(1)[OF assms(1)] assms(4) by auto
  qed
qed

lemma edit_by_id:
  assumes "tree_ok t" "p \<in> set (panes t)" "sp_id p = i" "pane_edit u f" "wf_pane (f p)"
  obtains path t' where "findPanePathById t i = Some path" "getNodeAtPath t path = Inr (Pane p)"
    "replaceNodeAtPath t path u = Inr t'" "panes t' = upd i f (panes t)" "wf_node t'"
  using edit_found[OF assms(1) _ assms(4,5), of "\<lambda>p. sp_id p = i"]
    find_by_id[OF tree_okD(2)[OF assms(1)]] assms(2,3)
  by (auto simp: findPanePathById_def)

text \<open>A tree whose pane \<open>i\<close> is replaced by a good one with the same id stays good.\<close>

lemma upd_tree_ok:
  assumes "tree_ok t" "panes t' = upd i f (panes t)" "wf_node t'"
    "\<And>p. p \<in> set (panes t) \<Longrightarrow> sp_id p = i \<Longrightarrow> sp_id (f p) = i \<and> sp_tabs (f p) \<noteq> []"
  shows "tree_ok t'" "pane_ids t' = pane_ids t"
proof -
  show ids: "pane_ids t' = pane_ids t" using assms(2,4) by (auto simp: pane_ids_def upd_def)
  have "distinct (map sp_id (panes t'))" using ids tree_okD(2)[OF assms(1)] by (simp add: pane_ids_def)
  moreover have "sp_tabs p \<noteq> []" if "p \<in> set (panes t')" for p
    using that assms(2,4) tree_okD(4)[OF assms(1)] by (auto simp: upd_def split: if_splits)
  ultimately show "tree_ok t'" using assms(3) by (rule tree_okI[rotated])
qed

section \<open>The edits\<close>

definition focused_pane :: "string \<Rightarrow> split_pane \<Rightarrow> split_pane" where
  "focused_pane tabId p = normalizePaneAfterTabChange (p\<lparr>sp_focusedTabId := Some tabId, sp_hidden := False\<rparr>)"

lemma focusTabInPane_ok:
  assumes "tree_ok t" "p \<in> set (panes t)" "sp_id p = i"
  obtains t' where "focusTabInPane t i tabId = Inr t'" "panes t' = upd i (focused_pane tabId) (panes t)"
    "tree_ok t'" "pane_ids t' = pane_ids t"
proof -
  have w: "wf_pane (focused_pane tabId p)"
    using tree_okD(3)[OF assms(1,2)] by (simp add: focused_pane_def normalizePane_wf wf_paneD)
  obtain path t' where e: "findPanePathById t i = Some path"
    "replaceNodeAtPath t path (on_pane ''Expected pane while focusing tab'' (focused_pane tabId)) = Inr t'"
    "panes t' = upd i (focused_pane tabId) (panes t)" "wf_node t'"
    by (rule edit_by_id[where f = "focused_pane tabId", OF assms pane_edit_on_pane w]) blast
  have ok: "sp_id (focused_pane tabId q) = i \<and> sp_tabs (focused_pane tabId q) \<noteq> []"
    if "q \<in> set (panes t)" "sp_id q = i" for q
    using that tree_okD(3,4)[OF assms(1) that(1)] by (simp add: focused_pane_def wf_paneD)
  show ?thesis
    by (rule that[OF _ e(3) upd_tree_ok[OF assms(1) e(3,4) ok]])
      (use e(1,2) in \<open>simp_all add: focusTabInPane_def focused_pane_def[abs_def] on_pane_def\<close>)
qed

lemma updatePaneInTree_ok:
  assumes "tree_ok t" "p \<in> set (panes t)" "sp_id p = i"
    "\<And>q. q \<in> set (panes t) \<Longrightarrow> sp_id q = i \<Longrightarrow>
       sp_id (f q) = i \<and> normalizeWorkspaceTabs (sp_tabs (f q)) \<noteq> []"
  obtains t' where "updatePaneInTree t i f = Inr t'"
    "panes t' = upd i (\<lambda>p. normalizePaneAfterTabChange (f p)) (panes t)" "tree_ok t'" "pane_ids t' = pane_ids t"
proof -
  have w: "wf_pane (normalizePaneAfterTabChange (f p))"
    using wf_paneD(1)[OF tree_okD(3)[OF assms(1,2)]] assms(4)[OF assms(2,3)] assms(3)
    by (intro normalizePane_wf) simp
  obtain path t' where e: "findPanePathById t i = Some path"
    "replaceNodeAtPath t path (on_pane ''Expected pane while updating pane'' (\<lambda>p. normalizePaneAfterTabChange (f p))) = Inr t'"
    "panes t' = upd i (\<lambda>p. normalizePaneAfterTabChange (f p)) (panes t)" "wf_node t'"
    by (rule edit_by_id[where f = "\<lambda>p. normalizePaneAfterTabChange (f p)", OF assms(1-3) pane_edit_on_pane w]) blast
  have ok: "sp_id (normalizePaneAfterTabChange (f q)) = i \<and> sp_tabs (normalizePaneAfterTabChange (f q)) \<noteq> []"
    if "q \<in> set (panes t)" "sp_id q = i" for q
    using assms(4)[OF that] by simp
  show ?thesis
    by (rule that[OF _ e(3) upd_tree_ok[OF assms(1) e(3,4) ok]])
      (use e(1,2) in \<open>simp_all add: updatePaneInTree_def on_pane_def\<close>)
qed

definition inserted_pane :: "workspace_tab \<Rightarrow> string option \<Rightarrow> split_pane \<Rightarrow> split_pane" where
  "inserted_pane tab focus p =
     normalizePaneAfterTabChange (p\<lparr>sp_tabs :=
         (if wt_target tab \<noteq> Tab_new \<and> isSoleNewTabPane p then [tab]
          else if has_tab (wt_id tab) p then replace_first (\<lambda>t. wt_id t = wt_id tab) (\<lambda>_. tab) (sp_tabs p)
          else sp_tabs p @ [tab]),
       sp_focusedTabId := Some (case focus of None \<Rightarrow> wt_id tab | Some f \<Rightarrow> f)\<rparr>)"

lemma replace_first_wf:
  "list_all Q xs \<Longrightarrow> Q y \<Longrightarrow> list_all Q (replace_first P (\<lambda>_. y) xs)"
  by (induction xs) auto

lemma replace_first_Nil [simp]: "replace_first P f xs = [] \<longleftrightarrow> xs = []"
  by (cases xs) auto

lemma inserted_pane_ok:
  assumes "wf_pane p" "wf_tab tab" "sp_tabs p \<noteq> []"
  shows "wf_pane (inserted_pane tab focus p)" "sp_id (inserted_pane tab focus p) = sp_id p"
    "sp_tabs (inserted_pane tab focus p) \<noteq> []" "sp_hidden (inserted_pane tab focus p) = sp_hidden p"
  using assms wf_paneD[OF assms(1)]
  by (auto simp: inserted_pane_def intro!: normalizePane_wf)
    (subst (asm) normalizeWorkspaceTabs_Nil, auto simp: replace_first_wf split: if_splits)+

lemma insertTabIntoPane_ok:
  assumes "tree_ok t" "p \<in> set (panes t)" "sp_id p = i" "wf_tab tab"
  obtains t' where "insertTabIntoPane t i tab focus = Inr t'"
    "panes t' = upd i (inserted_pane tab focus) (panes t)" "tree_ok t'" "pane_ids t' = pane_ids t"
proof -
  note ins = inserted_pane_ok[OF tree_okD(3)[OF assms(1)] assms(4) tree_okD(4)[OF assms(1)]]
  obtain path t' where e: "findPanePathById t i = Some path"
    "replaceNodeAtPath t path (on_pane ''Expected pane while inserting tab'' (inserted_pane tab focus)) = Inr t'"
    "panes t' = upd i (inserted_pane tab focus) (panes t)" "wf_node t'"
    by (rule edit_by_id[where f = "inserted_pane tab focus", OF assms(1-3) pane_edit_on_pane ins(1)[OF assms(2,2)]]) blast
  show ?thesis
    by (rule that[OF _ e(3) upd_tree_ok[OF assms(1) e(3,4)]])
      (use e(1,2) ins in \<open>simp_all add: insertTabIntoPane_def inserted_pane_def[abs_def] Let_def on_pane_def\<close>)
qed

definition retabbed :: "string \<Rightarrow> string \<Rightarrow> tab_target \<Rightarrow> json option \<Rightarrow> workspace_tab \<Rightarrow> workspace_tab" where
  "retabbed tabId nextTabId target state t =
     (if wt_id t \<noteq> tabId then t
      else \<lparr>wt_id = nextTabId, wt_target = target, wt_createdAt = wt_createdAt t, wt_state = state\<rparr>)"

definition replaced_pane :: "string \<Rightarrow> string \<Rightarrow> tab_target \<Rightarrow> json option \<Rightarrow> split_pane \<Rightarrow> split_pane" where
  "replaced_pane tabId nextTabId target state p =
     normalizePaneAfterTabChange (p\<lparr>sp_tabs := map (retabbed tabId nextTabId target state) (sp_tabs p),
       sp_focusedTabId := if sp_focusedTabId p = Some tabId then Some nextTabId else sp_focusedTabId p\<rparr>)"

lemma replaced_pane_ok:
  assumes "wf_pane p" "wf_id nextTabId" "wf_target target" "sp_tabs p \<noteq> []"
  shows "wf_pane (replaced_pane tabId nextTabId target state p)"
    "sp_id (replaced_pane tabId nextTabId target state p) = sp_id p"
    "sp_tabs (replaced_pane tabId nextTabId target state p) \<noteq> []"
    "sp_hidden (replaced_pane tabId nextTabId target state p) = sp_hidden p"
proof -
  have "list_all wf_tab (map (retabbed tabId nextTabId target state) (sp_tabs p))"
    using wf_paneD(2)[OF assms(1)] assms(2,3) by (auto simp: list_all_iff retabbed_def wf_tab_def)
  then show "sp_tabs (replaced_pane tabId nextTabId target state p) \<noteq> []"
    using assms(4) by (simp add: replaced_pane_def normalizeWorkspaceTabs_Nil)
qed (use wf_paneD[OF assms(1)] in \<open>simp_all add: replaced_pane_def normalizePane_wf\<close>)

lemma replaceTabInTree_ok:
  assumes "tree_ok t" "find (has_tab tabId) (panes t) = Some p" "wf_id nextTabId" "wf_target target"
  obtains t' where "replaceTabInTree t tabId nextTabId target state = Inr t'"
    "panes t' = upd (sp_id p) (replaced_pane tabId nextTabId target state) (panes t)"
    "tree_ok t'" "pane_ids t' = pane_ids t"
proof -
  note rep = replaced_pane_ok[OF tree_okD(3)[OF assms(1)] assms(3,4) tree_okD(4)[OF assms(1)]]
  have p: "p \<in> set (panes t)" using assms(2) by (auto simp: find_Some_iff)
  obtain path t' where e: "findPanePath (has_tab tabId) t [] = Some path"
    "replaceNodeAtPath t path (on_pane ''Expected pane while replacing tab'' (replaced_pane tabId nextTabId target state)) = Inr t'"
    "panes t' = upd (sp_id p) (replaced_pane tabId nextTabId target state) (panes t)" "wf_node t'"
    by (rule edit_found[where f = "replaced_pane tabId nextTabId target state", OF assms(1,2) pane_edit_on_pane rep(1)[OF p p]]) blast
  show ?thesis
    by (rule that[OF _ e(3) upd_tree_ok[OF assms(1) e(3,4)]])
      (use e(1,2) rep in \<open>simp_all add: replaceTabInTree_def findPanePathContainingTab_def
        replaced_pane_def[abs_def] retabbed_def[abs_def] on_pane_def\<close>)
qed

definition fresh_pane :: "layout_env \<Rightarrow> string \<Rightarrow> bool \<Rightarrow> split_pane" where
  "fresh_pane env i hid =
     \<lparr>sp_id = i, sp_tabs = [new_tab env i], sp_tabIds = [wt_id (new_tab env i)],
      sp_focusedTabId = Some (wt_id (new_tab env i)), sp_hidden = hid\<rparr>"

lemma new_tab_simps [simp]:
  "wt_target (new_tab env i) = Tab_new" "wt_id (new_tab env i) = ''tab_'' @ le_messageId env i"
  by (simp_all add: new_tab_def createNewWorkspaceTab_def)

lemma new_tab_wf: "env_ok env \<Longrightarrow> wf_tab (new_tab env i)"
  using wf_id_prefix[of "''tab_''" "le_messageId env i"]
  by (simp add: wf_tab_def wf_target_def env_ok_def)

lemma fresh_pane_wf:
  "env_ok env \<Longrightarrow> wf_id i \<Longrightarrow> wf_pane (fresh_pane env i h)" "sp_id (fresh_pane env i h) = i"
  "sp_tabs (fresh_pane env i h) = [new_tab env i]" "sp_hidden (fresh_pane env i h) = h"
  using new_tab_wf[of env i] by (simp_all add: fresh_pane_def wf_pane_def)

lemma normalizeWorkspaceTabs_one: "wf_tab t \<Longrightarrow> normalizeWorkspaceTabs [t] = [t]"
  by (rule normalizeWorkspaceTabs_id) auto

lemma createPaneNode_fresh:
  "env_ok env \<Longrightarrow> createPaneNode i [new_tab env i] None h = Pane (fresh_pane env i h)"
  using normalizeWorkspaceTabs_one[OF new_tab_wf, of env i]
  by (simp add: createPaneNode_def fresh_pane_def pick_focus_def last_opt_def Let_def)

lemma createPaneNode_one:
  "wf_tab t \<Longrightarrow> createPaneNode i [t] (Some (wt_id t)) h =
     Pane \<lparr>sp_id = i, sp_tabs = [t], sp_tabIds = [wt_id t], sp_focusedTabId = Some (wt_id t), sp_hidden = h\<rparr>"
  by (simp add: createPaneNode_def normalizeWorkspaceTabs_one pick_focus_def Let_def)

text \<open>The pane without the tab, and what becomes of it when it is empty.\<close>

definition closed_pane :: "string \<Rightarrow> split_pane \<Rightarrow> split_pane" where
  "closed_pane tabId p =
     normalizePaneAfterTabChange (p\<lparr>sp_tabs := filter (\<lambda>t. wt_id t \<noteq> tabId) (sp_tabs p)\<rparr>)"

lemma closed_pane_simps:
  assumes "wf_pane p"
  shows "wf_pane (closed_pane i p)" "sp_id (closed_pane i p) = sp_id p" "sp_hidden (closed_pane i p) = sp_hidden p"
    "sp_tabs (closed_pane i p) = filter (\<lambda>t. wt_id t \<noteq> i) (sp_tabs p)"
proof -
  have "list_all wf_tab (filter (\<lambda>t. wt_id t \<noteq> i) (sp_tabs p))" "distinct (map wt_id (filter (\<lambda>t. wt_id t \<noteq> i) (sp_tabs p)))"
    using wf_paneD[OF assms] by (auto simp: list_all_iff distinct_map_filter)
  then show "sp_tabs (closed_pane i p) = filter (\<lambda>t. wt_id t \<noteq> i) (sp_tabs p)"
    by (simp add: closed_pane_def normalizeWorkspaceTabs_id)
qed (use wf_paneD[OF assms] in \<open>simp_all add: closed_pane_def normalizePane_wf\<close>)

lemma ensureRetained_fresh:
  assumes "env_ok env" "sp_tabs p = []"
  shows "ensureRetainedPaneHasTab env p = fresh_pane env (sp_id p) (sp_hidden p)"
  using assms normalizeWorkspaceTabs_one[OF new_tab_wf[OF assms(1)], of "sp_id p"]
  by (simp add: ensureRetainedPaneHasTab_def normalizePaneAfterTabChange_def fresh_pane_def Let_def pick_focus_def)

definition detach_panes :: "layout_env \<Rightarrow> string \<Rightarrow> string option \<Rightarrow> split_pane \<Rightarrow> split_pane list \<Rightarrow> split_pane list" where
  "detach_panes env tabId preserve p ps =
     (let q = closed_pane tabId p in
      if sp_tabs q \<noteq> [] then upd (sp_id p) (\<lambda>_. q) ps
      else if Some (sp_id p) = preserve then upd (sp_id p) (\<lambda>_. fresh_pane env (sp_id p) (sp_hidden p)) ps
      else if ps = [p] then [fresh_pane env (sp_id p) False]
      else filter (\<lambda>r. sp_id r \<noteq> sp_id p) ps)"

lemma removePaneByPath_ok:
  assumes "tree_ok t" "focus_at t path = Some (xs, Pane p, ys)" "env_ok env"
  shows "\<exists>t'. removePaneByPath env t path = Inr t' \<and> wf_node t' \<and>
    panes t' = (if panes t = [p] then [fresh_pane env (sp_id p) False]
                else filter (\<lambda>r. sp_id r \<noteq> sp_id p) (panes t))"
proof (cases "path = []")
  case True
  then have "t = Pane p" using assms(2) by simp
  then show ?thesis
    using True assms(3) tree_okD(3)[OF assms(1), of p] fresh_pane_wf(1)[of env "sp_id p"]
    by (auto simp: removePaneByPath_def createPaneNode_fresh wf_paneD)
next
  case False
  then have "t \<noteq> Pane p" using assms(2) by (cases path) auto
  then have "panes t \<noteq> [p]" using sole_pane_iff[OF tree_okD(1)[OF assms(1)]] by simp
  moreover have "panes t = xs @ p # ys" using focus_panes[OF assms(2)] by simp
  ultimately show ?thesis
    using removePaneByPath_panes[OF assms(2) tree_okD(1)[OF assms(1)] False, of env]
      filter_split tree_okD(2)[OF assms(1)] by metis
qed

lemma detachTabFromTree_ok:
  assumes "tree_ok t" "find (has_tab tabId) (panes t) = Some p" "env_ok env"
  obtains d tab where "detachTabFromTree env t tabId preserve = Inr d" "de_tab d = Some tab"
    "find (\<lambda>t. wt_id t = tabId) (sp_tabs p) = Some tab"
    "panes (de_tree d) = detach_panes env tabId preserve p (panes t)" "wf_node (de_tree d)"
proof -
  obtain path where path: "findPanePath (has_tab tabId) t [] = Some path"
    using assms(2) findPanePath_iff[of "has_tab tabId" t] by (cases "findPanePath (has_tab tabId) t []") auto
  obtain xs ys where q: "focus_at t path = Some (xs, Pane p, ys)" "has_tab tabId p" "panes t = xs @ p # ys"
    using findPanePath_at[OF path] assms(2) by (metis option.inject)
  have wp: "wf_pane p" using tree_okD(3)[OF assms(1)] q(3) by simp
  note cp = closed_pane_simps[OF wp, of tabId]
  obtain tab where tab: "find (\<lambda>t. wt_id t = tabId) (sp_tabs p) = Some tab"
    using q(2) by (cases "find (\<lambda>t. wt_id t = tabId) (sp_tabs p)") (auto simp: find_None_iff has_tab_iff)
  define c where "c = closed_pane tabId p"
  obtain t1 where t1: "replaceNodeAtPath t path (\<lambda>_. Inr (Pane c)) = Inr t1"
    using focus_replace[OF q(1), of "\<lambda>_. Inr (Pane c)"] by blast
  have p1: "panes t1 = xs @ c # ys" and w1: "wf_node t1" and f1: "focus_at t1 path = Some (xs, Pane c, ys)"
    using replace_panes[OF q(1) _ t1] tree_okD(1)[OF assms(1)] cp(1) by (auto simp: c_def)
  have ids: "distinct (map sp_id (xs @ p # ys))" using tree_okD(2)[OF assms(1)] q(3) by simp
  have run: "detachTabFromTree env t tabId preserve =
      ebind (if sp_tabs c \<noteq> [] then Inr t1
             else if Some (sp_id c) = preserve then
               replaceNodeAtPath t1 path (\<lambda>_. Inr (Pane (ensureRetainedPaneHasTab env c)))
             else removePaneByPath env t1 path)
        (\<lambda>r. Inr \<lparr>de_tree = r, de_tab = Some tab, de_source = Some (sp_id p)\<rparr>)"
    using path focus_get[OF q(1)] tab t1
    by (simp add: detachTabFromTree_def findPanePathContainingTab_def c_def closed_pane_def Let_def)
  consider (some) "sp_tabs c \<noteq> []" | (keep) "sp_tabs c = []" "Some (sp_id p) = preserve"
    | (remove) "sp_tabs c = []" "Some (sp_id p) \<noteq> preserve" by blast
  then show ?thesis
  proof cases
    case some
    then show ?thesis
      using that[OF _ _ tab] run p1 w1 upd_split[OF ids] q(3) by (simp add: detach_panes_def Let_def c_def)
  next
    case keep
    define k where "k = fresh_pane env (sp_id p) (sp_hidden p)"
    have e: "ensureRetainedPaneHasTab env c = k"
      using ensureRetained_fresh[OF assms(3) keep(1)] cp(2,3) by (simp add: k_def c_def)
    obtain t2 where t2: "replaceNodeAtPath t1 path (\<lambda>_. Inr (Pane k)) = Inr t2"
      using focus_replace[OF f1, of "\<lambda>_. Inr (Pane k)"] by blast
    have "panes t2 = xs @ k # ys" "wf_node t2"
      using replace_panes[OF f1 _ t2] w1 fresh_pane_wf(1)[OF assms(3) wf_paneD(1)[OF wp]] by (auto simp: k_def)
    then show ?thesis
      using that[OF _ _ tab] run t2 e keep cp(2) upd_split[OF ids] q(3)
      by (simp add: detach_panes_def Let_def c_def k_def)
  next
    case remove
    have ids1: "distinct (map sp_id (panes t1))" using ids p1 cp(2) by (simp add: c_def)
    obtain t2 where t2: "removePaneByPath env t1 path = Inr t2" "wf_node t2"
      "panes t2 = (if path = [] then [fresh_pane env (sp_id p) False] else xs @ ys)"
    proof (cases "path = []")
      case True
      then have "t1 = Pane c" using f1 by simp
      then show ?thesis
        using that True assms(3) cp(2) fresh_pane_wf(1)[OF assms(3) wf_paneD(1)[OF wp]]
        by (simp add: removePaneByPath_def createPaneNode_fresh c_def)
    next
      case False
      then show ?thesis using that removePaneByPath_panes[OF f1 w1] by auto
    qed
    have "path = [] \<longleftrightarrow> panes t = [p]"
    proof
      assume "path = []"
      then show "panes t = [p]" using q(1) by simp
    next
      assume "panes t = [p]"
      then have "t = Pane p" using sole_pane_iff[OF tree_okD(1)[OF assms(1)]] by simp
      then show "path = []" using q(1) by (cases path) auto
    qed
    then show ?thesis
      using that[OF _ _ tab] run t2 remove cp(2) filter_split[OF ids] q(3)
      by (simp add: detach_panes_def Let_def c_def)
  qed
qed

end
