(* ===== verification/Split_Sizes.thy ===== *)
theory Split_Sizes
  imports Split_Tree_Spec
begin

text \<open>
  \<open>clampNormalizedSizes\<close>: the loop that locks the sizes below the minimum ends, and the sizes it
  gives add up to one and respect the minimum.
\<close>

section \<open>Writing sizes\<close>

lemma put_sizes_length [simp]: "length (put_sizes f is ns) = length ns"
  by (induction "is" arbitrary: ns) (auto simp: put_sizes_def)

lemma put_sizes_nth:
  "k < length ns \<Longrightarrow> put_sizes f is ns ! k = (if k \<in> set is then f k else ns ! k)"
proof (induction "is" arbitrary: ns)
  case (Cons i "is")
  then show ?case using Cons.IH[of "ns[i := f i]"] by (auto simp: put_sizes_def nth_list_update)
qed (simp add: put_sizes_def)

lemma put_sizes_sum:
  assumes "distinct is" "set is \<subseteq> {..<n}" "length ns = n" "\<forall>k < n. k \<notin> set is \<longrightarrow> ns ! k = c"
  shows "sum_list (put_sizes f is ns) = sum_list (map f is) + of_nat (n - length is) * c"
proof -
  have "sum_list (put_sizes f is ns) = (\<Sum>k<n. if k \<in> set is then f k else ns ! k)"
    using assms(3) by (simp add: sum_list_sum_nth lessThan_atLeast0 put_sizes_nth)
  also have "\<dots> = (\<Sum>k<n. if k \<in> set is then f k else c)"
    using assms(4) by (intro sum.cong) auto
  also have "\<dots> = (\<Sum>k \<in> set is. f k) + (\<Sum>k \<in> {..<n} - set is. c)"
    using assms(2) by (simp add: sum.If_cases Int_absorb1 Diff_eq)
  also have "(\<Sum>k \<in> set is. f k) = sum_list (map f is)"
    using assms(1) by (simp add: sum_list_distinct_conv_sum_set)
  also have "card ({..<n} - set is) = n - length is"
    using assms(1,2) by (simp add: card_Diff_subset distinct_card)
  then have "(\<Sum>k \<in> {..<n} - set is. c) = of_nat (n - length is) * c" by simp
  finally show ?thesis .
qed

lemma sum_list_le_const:
  "\<forall>x \<in> set xs. f x < (c :: rat) \<Longrightarrow> xs \<noteq> [] \<Longrightarrow> sum_list (map f xs) < of_nat (length xs) * c"
proof (induction xs)
  case (Cons x xs)
  then show ?case by (cases "xs = []") (auto simp: algebra_simps intro: add_strict_mono)
qed simp

lemma sum_list_times: "sum_list (map (\<lambda>i. g i / w * r) xs) = sum_list (map g xs) / w * (r :: rat)"
  by (induction xs) (auto simp: add_divide_distrib algebra_simps)

section \<open>The loop\<close>

definition clamped :: "rat list \<Rightarrow> nat \<Rightarrow> bool" where
  "clamped ss n \<longleftrightarrow> length ss = n \<and> list_all (\<lambda>s. s \<ge> MIN_SPLIT_SIZE) ss \<and> sum_list ss = 1"

lemma clamp_loop_clamped:
  assumes "unlocked \<noteq> []" "distinct unlocked" "set unlocked \<subseteq> {..<n}" "length next = n"
    "\<forall>k < n. k \<notin> set unlocked \<longrightarrow> next ! k = MIN_SPLIT_SIZE" "length normalized = n"
    "list_all (\<lambda>s. s > 0) normalized" "remaining = 1 - of_nat (n - length unlocked) * MIN_SPLIT_SIZE"
    "of_nat n * MIN_SPLIT_SIZE \<le> 1"
  shows "clamped (clamp_loop normalized unlocked remaining next) n"
  using assms
proof (induction normalized unlocked remaining "next" rule: clamp_loop.induct)
  case (1 normalized unlocked remaining "next")
  let ?g = "size_at normalized"
  define weight where "weight = sum_list (map (size_at normalized) unlocked)"
  define share where "share = (\<lambda>i. size_at normalized i / weight * remaining)"
  define locked where "locked = filter (\<lambda>i. share i < MIN_SPLIT_SIZE) unlocked"
  have len: "length unlocked \<le> n"
    using "1.prems"(2,3) distinct_card[of unlocked] card_mono[of "{..<n}" "set unlocked"] by simp
  have "\<forall>i \<in> set unlocked. ?g i > 0"
    using "1.prems"(3,6,7) by (auto simp: size_at_def list_all_length)
  then have w: "weight > 0"
    using sum_list_pos[of "map ?g unlocked"] "1.prems"(1) by (simp add: weight_def list_all_iff)
  have total: "sum_list (map share unlocked) = remaining"
    using w sum_list_times[of ?g weight remaining unlocked] unfolding share_def
    by (simp only: flip: weight_def) simp
  have room: "remaining \<ge> of_nat (length unlocked) * MIN_SPLIT_SIZE"
    using "1.prems"(8,9) len by (simp add: of_nat_diff algebra_simps)
  have some: "locked \<noteq> unlocked"
  proof
    assume "locked = unlocked"
    then have "\<forall>i \<in> set unlocked. share i < MIN_SPLIT_SIZE"
      by (metis locked_def filter_id_conv)
    from sum_list_le_const[OF this "1.prems"(1)] total room show False by simp
  qed
  have step: "clamp_loop normalized unlocked remaining next =
     (if locked = [] then put_sizes share unlocked next
      else clamp_loop normalized (filter (\<lambda>i. i \<notin> set locked) unlocked)
             (remaining - of_nat (length locked) * MIN_SPLIT_SIZE)
             (put_sizes (\<lambda>_. MIN_SPLIT_SIZE) locked next))"
    using "1.prems"(1) w
    by (subst clamp_loop.simps) (simp add: Let_def locked_def share_def weight_def)
  show ?case
  proof (cases "locked = []")
    case True
    have ge: "\<forall>i \<in> set unlocked. share i \<ge> MIN_SPLIT_SIZE"
      using True by (auto simp: locked_def filter_empty_conv not_less)
    have "sum_list (put_sizes share unlocked next) = 1"
      using put_sizes_sum[OF "1.prems"(2,3,4,5), of share] total "1.prems"(8) by simp
    moreover have "list_all (\<lambda>s. s \<ge> MIN_SPLIT_SIZE) (put_sizes share unlocked next)"
      using ge "1.prems"(4,5) by (auto simp: list_all_length put_sizes_nth)
    ultimately show ?thesis using step True "1.prems"(4) by (simp add: clamped_def)
  next
    case False
    define rest where "rest = filter (\<lambda>i. i \<notin> set locked) unlocked"
    have sub: "set locked \<subseteq> set unlocked" by (auto simp: locked_def)
    have "rest = filter (\<lambda>i. \<not> share i < MIN_SPLIT_SIZE) unlocked"
      unfolding rest_def locked_def by (rule filter_cong) auto
    then have split: "length rest + length locked = length unlocked"
      using sum_length_filter_compl[of "\<lambda>i. share i < MIN_SPLIT_SIZE" unlocked] by (simp add: locked_def)
    have ne: "rest \<noteq> []"
    proof
      assume "rest = []"
      with split have "length locked = length unlocked" by simp
      then show False using some by (metis locked_def length_filter_less nat_neq_iff filter_id_conv)
    qed
    have left: "remaining - of_nat (length locked) * MIN_SPLIT_SIZE
                = 1 - of_nat (n - length rest) * MIN_SPLIT_SIZE"
      using "1.prems"(8) len split by (simp add: of_nat_diff algebra_simps flip: split)
    have "clamped (clamp_loop normalized rest (remaining - of_nat (length locked) * MIN_SPLIT_SIZE)
            (put_sizes (\<lambda>_. MIN_SPLIT_SIZE) locked next)) n"
      unfolding rest_def
    proof (rule "1.IH"[OF "1.prems"(1) weight_def share_def _ locked_def])
      show "\<forall>k<n. k \<notin> set (filter (\<lambda>i. i \<notin> set locked) unlocked) \<longrightarrow>
              put_sizes (\<lambda>_. MIN_SPLIT_SIZE) locked next ! k = MIN_SPLIT_SIZE"
        using "1.prems"(4,5) by (auto simp: put_sizes_nth)
    qed (use "1.prems" ne left w False in \<open>auto simp: rest_def locked_def share_def weight_def\<close>)
    then show ?thesis using step False by (simp add: rest_def)
  qed
qed

section \<open>Clamping\<close>

lemma replicate_clamped:
  assumes "n \<noteq> 0" "of_nat n * MIN_SPLIT_SIZE \<le> 1"
  shows "clamped (replicate n (1 / of_nat n)) n"
  using assms by (simp add: clamped_def list_all_iff sum_list_replicate field_simps)

lemma clamped_wf: "clamped ss n \<Longrightarrow> wf_sizes ss n"
  by (auto simp: clamped_def wf_sizes_def list_all_iff MIN_SPLIT_SIZE_def)

text \<open>Sizes that respect the minimum are a fixed point.\<close>

lemma clamp_loop_fixed:
  assumes "clamped ss n" "n \<noteq> 0"
  shows "clamp_loop ss [0..<n] 1 (replicate n 0) = ss"
proof -
  have at: "map (size_at ss) [0..<n] = ss"
    using assms(1) by (auto simp: clamped_def size_at_def intro: nth_equalityI)
  have one: "sum_list (map (size_at ss) [0..<n]) = 1"
    unfolding at using assms(1) by (simp add: clamped_def)
  have none: "filter (\<lambda>i. size_at ss i / 1 * 1 < MIN_SPLIT_SIZE) [0..<n] = []"
    using assms(1) by (auto simp: filter_empty_conv clamped_def size_at_def list_all_length not_less)
  have "put_sizes (\<lambda>i. size_at ss i / 1 * 1) [0..<n] (replicate n 0) = ss"
    using assms(1) by (intro nth_equalityI) (auto simp: put_sizes_nth clamped_def size_at_def)
  then show ?thesis using assms(2) one none by (subst clamp_loop.simps) (simp add: Let_def)
qed

lemma clamp_small:
  assumes "n = length sizes" "n > 1" "of_nat n * MIN_SPLIT_SIZE \<le> 1"
  shows "clamped (clampNormalizedSizes sizes) n"
proof -
  have n: "wf_sizes (normalizeSizes sizes n) n" using normalizeSizes_wf assms(2) by simp
  have "clamped (clamp_loop (normalizeSizes sizes n) [0..<n] 1 (replicate n 0)) n"
    by (rule clamp_loop_clamped) (use assms n in \<open>auto simp: wf_sizes_def\<close>)
  then show ?thesis
    using assms by (auto simp: clampNormalizedSizes_def Let_def normalizeSizes_id clamped_wf)
qed

lemma clamp_fixed:
  assumes "clamped ss n" "n > 1" "of_nat n * MIN_SPLIT_SIZE \<le> 1"
  shows "clampNormalizedSizes (map Fin ss) = ss"
proof -
  have l: "length ss = n" using assms(1) by (simp add: clamped_def)
  show ?thesis
    using assms(2,3) clamp_loop_fixed[OF assms(1)] normalizeSizes_id[OF clamped_wf[OF assms(1)]]
    by (simp add: clampNormalizedSizes_def Let_def l)
qed


end
