(* ===== verification/Workspace_Layout_Spec.thy ===== *)
theory Workspace_Layout_Spec
  imports Workspace_Layout Split_Edits Split_Sizes
begin

text \<open>
  What the operations on layouts keep: a good tree of panes with distinct ids, a focused pane that
  exists, an ordinary pane on screen, parents among the open tabs.
\<close>

section \<open>The invariant\<close>

definition visible_ordinary :: "string option \<Rightarrow> split_pane list \<Rightarrow> split_pane list" where
  "visible_ordinary ex ps = filter (\<lambda>p. \<not> sp_hidden p \<and> Some (sp_id p) \<noteq> ex) ps"

definition good_parents :: "string list \<Rightarrow> (string \<times> string) list \<Rightarrow> bool" where
  "good_parents ids m \<longleftrightarrow>
     distinct (map fst m) \<and> list_all (\<lambda>(c, p). c \<noteq> p \<and> c \<in> set ids \<and> p \<in> set ids) m"

definition parents_ok :: "layout \<Rightarrow> bool" where
  "parents_ok l \<longleftrightarrow>
     (case lo_parents l of None \<Rightarrow> True | Some m \<Rightarrow> m \<noteq> [] \<and> good_parents (open_tab_ids (lo_tree l)) m)"

definition focus_ok :: "split_node \<Rightarrow> string option \<Rightarrow> bool" where
  "focus_ok t f \<longleftrightarrow> (case f of None \<Rightarrow> True | Some i \<Rightarrow> i \<in> set (pane_ids t))"

definition layout_ok :: "string option \<Rightarrow> layout \<Rightarrow> bool" where
  "layout_ok ex l \<longleftrightarrow>
     tree_ok (lo_tree l) \<and> focus_ok (lo_tree l) (lo_focus l) \<and>
     visible_ordinary ex (panes (lo_tree l)) \<noteq> [] \<and> parents_ok l"

lemma layout_okD:
  assumes "layout_ok ex l"
  shows "tree_ok (lo_tree l)" "focus_ok (lo_tree l) (lo_focus l)" "visible_ordinary ex (panes (lo_tree l)) \<noteq> []"
    "parents_ok l"
  using assms by (simp_all add: layout_ok_def)

lemma open_tab_ids_panes: "open_tab_ids t = map wt_id (concat (map sp_tabs (panes t)))"
  by (simp add: open_tab_ids_def collectAllTabs_panes)

lemma alist_update_subset: "set (AList.update c p m) \<subseteq> insert (c, p) (set m)"
  by (induction m) auto

lemma good_parents_update:
  assumes "good_parents ids m" "c \<noteq> p" "c \<in> set ids" "p \<in> set ids"
  shows "good_parents ids (AList.update c p m)"
proof -
  have "\<forall>x \<in> set (AList.update c p m). x = (c, p) \<or> x \<in> set m" using alist_update_subset by fastforce
  with assms show ?thesis by (fastforce simp: good_parents_def list_all_iff distinct_update)
qed

lemma good_parents_fold:
  "list_all (\<lambda>(c, p). c \<noteq> p \<and> c \<in> set ids \<and> p \<in> set ids) xs \<Longrightarrow> good_parents ids m \<Longrightarrow>
   good_parents ids (fold (\<lambda>(c, p). AList.update c p) xs m)"
  by (induction xs arbitrary: m) (auto simp: good_parents_update)

lemma mk_parents_ok: "parents_ok (withNormalizedParentTabMap l)"
proof -
  let ?ids = "open_tab_ids (lo_tree l)"
  have "good_parents ?ids m" if m: "normalizeParentTabMap (lo_parents l) ?ids = Some m" for m
  proof -
    obtain ps where ps: "lo_parents l = Some ps"
      using m by (auto simp: normalizeParentTabMap_def split: option.splits)
    define keep where "keep = (\<lambda>(c, p). case (trimNonEmpty (Some c), trimNonEmpty (Some p)) of
         (Some child, Some parent) \<Rightarrow>
           if child = parent \<or> child \<notin> set ?ids \<or> parent \<notin> set ?ids then None else Some (child, parent)
       | _ \<Rightarrow> None)"
    have "list_all (\<lambda>(c, p). c \<noteq> p \<and> c \<in> set ?ids \<and> p \<in> set ?ids) (List.map_filter keep ps)"
      by (auto simp: list_all_iff keep_def dest!: map_filter_set split: option.splits if_splits)
    moreover have "m = fold (\<lambda>(c, p). AList.update c p) (List.map_filter keep ps) []"
      using m ps by (auto simp: normalizeParentTabMap_def keep_def Let_def split: if_splits)
    ultimately show ?thesis using good_parents_fold by (simp add: good_parents_def)
  qed
  moreover have "m \<noteq> []" if "normalizeParentTabMap (lo_parents l) ?ids = Some m" for m
    using that by (auto simp: normalizeParentTabMap_def Let_def split: option.splits if_splits)
  ultimately show ?thesis
    by (auto simp: parents_ok_def withNormalizedParentTabMap_def split: option.splits)
qed

lemma mk_layout_simps [simp]:
  "lo_tree (mk_layout t f ps) = t" "lo_focus (mk_layout t f ps) = f"
  by (simp_all add: mk_layout_def withNormalizedParentTabMap_def)

lemma mk_layout_ok:
  "tree_ok t \<Longrightarrow> focus_ok t f \<Longrightarrow> visible_ordinary ex (panes t) \<noteq> [] \<Longrightarrow> layout_ok ex (mk_layout t f ps)"
  using mk_parents_ok[of "\<lparr>lo_tree = t, lo_focus = f, lo_parents = ps\<rparr>"]
  by (simp add: layout_ok_def) (simp add: mk_layout_def)

definition ok_result :: "string option \<Rightarrow> layout_error + layout option \<Rightarrow> bool" where
  "ok_result ex r \<longleftrightarrow> (case r of Inl _ \<Rightarrow> False | Inr None \<Rightarrow> True | Inr (Some l) \<Rightarrow> layout_ok ex l)"

lemma ok_result_simps [simp]:
  "ok_result ex (Inr None)" "ok_result ex (Inr (Some l)) = layout_ok ex l" "\<not> ok_result ex (Inl e)"
  by (simp_all add: ok_result_def)

lemma or_layout_ok: "ok_result ex r \<Longrightarrow> layout_ok ex l \<Longrightarrow> \<exists>m. or_layout r l = Inr m \<and> layout_ok ex m"
  by (auto simp: or_layout_def ok_result_def split: sum.splits option.splits)

section \<open>Panes on screen\<close>

lemma visible_upd:
  assumes "visible_ordinary ex ps \<noteq> []"
    "\<And>p. p \<in> set ps \<Longrightarrow> sp_id p = i \<Longrightarrow> sp_id (f p) = i \<and> (sp_hidden (f p) \<longrightarrow> sp_hidden p)"
  shows "visible_ordinary ex (upd i f ps) \<noteq> []"
proof -
  obtain p where p: "p \<in> set ps" "\<not> sp_hidden p" "Some (sp_id p) \<noteq> ex"
    using assms(1) by (auto simp: visible_ordinary_def filter_empty_conv)
  define q where "q = (if sp_id p = i then f p else p)"
  have "q \<in> set (upd i f ps)" using p(1) by (auto simp: upd_def q_def)
  moreover have "\<not> sp_hidden q" "Some (sp_id q) \<noteq> ex" using assms(2)[OF p(1)] p by (auto simp: q_def)
  ultimately show ?thesis by (auto simp: visible_ordinary_def filter_empty_conv)
qed

lemma focus_ok_ids: "pane_ids t' = pane_ids t \<Longrightarrow> focus_ok t f \<Longrightarrow> focus_ok t' f"
  by (cases f) (simp_all add: focus_ok_def)

text \<open>An edit of one pane that does not hide it.\<close>

lemma upd_layout_ok:
  assumes "layout_ok ex l" "panes t' = upd i f (panes (lo_tree l))" "tree_ok t'" "pane_ids t' = pane_ids (lo_tree l)"
    "focus_ok (lo_tree l) g"
    "\<And>p. p \<in> set (panes (lo_tree l)) \<Longrightarrow> sp_id p = i \<Longrightarrow> sp_id (f p) = i \<and> (sp_hidden (f p) \<longrightarrow> sp_hidden p)"
  shows "layout_ok ex (mk_layout t' g ps)"
proof (rule mk_layout_ok[OF assms(3) focus_ok_ids[OF assms(4,5)]])
  show "visible_ordinary ex (panes t') \<noteq> []"
    unfolding assms(2) using layout_okD(3)[OF assms(1)] assms(6) by (rule visible_upd)
qed

lemma focus_ok_pane: "p \<in> set (panes t) \<Longrightarrow> focus_ok t (Some (sp_id p))"
  by (simp add: focus_ok_def pane_ids_def)

lemma find_has_tab: "findPaneContainingTab t i = find (has_tab i) (panes t)"
  by (simp add: findPaneContainingTab_def findPane_find)

lemma visible_exists:
  assumes "visible_ordinary ex (panes t) \<noteq> []" "e = ex \<or> e = None"
  shows "find (\<lambda>p. Some (sp_id p) \<noteq> e) (collectAllPanes t) \<noteq> None"
  using assms by (auto simp: visible_ordinary_def filter_empty_conv find_None_iff collectAllPanes_panes)

section \<open>Focus\<close>

lemma focused_pane_simps:
  "sp_id (focused_pane i p) = sp_id p" "\<not> sp_hidden (focused_pane i p)"
  by (simp_all add: focused_pane_def)

lemma focusTabInLayout_ok:
  assumes "layout_ok ex l"
  shows "ok_result ex (focusTabInLayout l tabId)"
proof (cases "findPaneContainingTab (lo_tree l) tabId")
  case (Some p)
  note ok = layout_okD[OF assms]
  have p: "p \<in> set (panes (lo_tree l))" using findPaneContainingTab_Some[OF Some] by simp
  obtain t' where t': "focusTabInPane (lo_tree l) (sp_id p) tabId = Inr t'"
    "panes t' = upd (sp_id p) (focused_pane tabId) (panes (lo_tree l))" "tree_ok t'" "pane_ids t' = pane_ids (lo_tree l)"
    using focusTabInPane_ok[OF ok(1) p refl] by metis
  have "layout_ok ex (mk_layout t' (Some (sp_id p)) (lo_parents l))"
    by (rule upd_layout_ok[OF assms t'(2-4) focus_ok_pane[OF p]]) (simp add: focused_pane_simps)
  then show ?thesis using Some t'(1) by (simp add: focusTabInLayout_def)
qed (simp add: focusTabInLayout_def)

lemma selectTabInPane_ok:
  assumes "layout_ok ex l"
  shows "ok_result ex (selectTabInPaneInLayout l paneId tabId)"
proof (cases "findPaneById (lo_tree l) (Some paneId)")
  case (Some p)
  note ok = layout_okD[OF assms]
  have p: "p \<in> set (panes (lo_tree l))" "sp_id p = paneId" using Some findPaneById_iff[OF ok(1)] by auto
  obtain t' where t': "focusTabInPane (lo_tree l) paneId tabId = Inr t'"
    "panes t' = upd paneId (focused_pane tabId) (panes (lo_tree l))" "tree_ok t'" "pane_ids t' = pane_ids (lo_tree l)"
    using focusTabInPane_ok[OF ok(1) p] by metis
  have "layout_ok ex (mk_layout t' (lo_focus l) (lo_parents l))"
    by (rule upd_layout_ok[OF assms t'(2-4) ok(2)]) (simp add: focused_pane_simps)
  then show ?thesis using Some t'(1) by (simp add: selectTabInPaneInLayout_def)
qed (simp add: selectTabInPaneInLayout_def)

lemma hidden_update_ok:
  assumes "tree_ok t" "p \<in> set (panes t)" "sp_id p = i"
  obtains t' where "updatePaneInTree t i (\<lambda>q. q\<lparr>sp_hidden := h\<rparr>) = Inr t'"
    "panes t' = upd i (\<lambda>q. normalizePaneAfterTabChange (q\<lparr>sp_hidden := h\<rparr>)) (panes t)"
    "tree_ok t'" "pane_ids t' = pane_ids t"
proof -
  have "sp_id (q\<lparr>sp_hidden := h\<rparr>) = i \<and> normalizeWorkspaceTabs (sp_tabs (q\<lparr>sp_hidden := h\<rparr>)) \<noteq> []"
    if "q \<in> set (panes t)" "sp_id q = i" for q
    using that tree_okD(3,4)[OF assms(1) that(1)] by (simp add: wf_paneD)
  from updatePaneInTree_ok[where f = "\<lambda>q. q\<lparr>sp_hidden := h\<rparr>", OF assms this] that show thesis by blast
qed

lemma focusPaneInLayout_ok:
  assumes "layout_ok ex l"
  shows "ok_result ex (focusPaneInLayout l paneId)"
proof (cases "findPaneById (lo_tree l) (Some paneId)")
  case (Some p)
  note ok = layout_okD[OF assms]
  have p: "p \<in> set (panes (lo_tree l))" "sp_id p = paneId" using Some findPaneById_iff[OF ok(1)] by auto
  obtain t' where t': "updatePaneInTree (lo_tree l) paneId (\<lambda>q. q\<lparr>sp_hidden := False\<rparr>) = Inr t'"
    "panes t' = upd paneId (\<lambda>q. normalizePaneAfterTabChange (q\<lparr>sp_hidden := False\<rparr>)) (panes (lo_tree l))"
    "tree_ok t'" "pane_ids t' = pane_ids (lo_tree l)"
    using hidden_update_ok[OF ok(1) p] by metis
  have "layout_ok ex (mk_layout t' (Some paneId) (lo_parents l))"
    by (rule upd_layout_ok[OF assms t'(2-4)]) (use focus_ok_pane[OF p(1)] p(2) in simp_all)
  moreover have "layout_ok ex (mk_layout (lo_tree l) (Some paneId) (lo_parents l))"
    using mk_layout_ok[OF ok(1) focus_ok_pane[OF p(1)] ok(3)] p(2) by simp
  ultimately show ?thesis using Some t'(1) by (simp add: focusPaneInLayout_def)
qed (simp add: focusPaneInLayout_def)

text \<open>Only the Explorer may be hidden: hiding it leaves an ordinary pane on screen.\<close>

lemma setPaneHidden_ok:
  assumes "layout_ok ex l" "hid \<Longrightarrow> Some paneId = ex"
  shows "ok_result ex (setPaneHiddenInLayout l paneId hid)"
proof (cases "findPaneById (lo_tree l) (Some paneId)")
  case (Some p)
  note ok = layout_okD[OF assms(1)]
  have p: "p \<in> set (panes (lo_tree l))" "sp_id p = paneId" using Some findPaneById_iff[OF ok(1)] by auto
  let ?f = "\<lambda>q. normalizePaneAfterTabChange (q\<lparr>sp_hidden := hid\<rparr>)"
  obtain t' where t': "updatePaneInTree (lo_tree l) paneId (\<lambda>q. q\<lparr>sp_hidden := hid\<rparr>) = Inr t'"
    "panes t' = upd paneId ?f (panes (lo_tree l))" "tree_ok t'" "pane_ids t' = pane_ids (lo_tree l)"
    using hidden_update_ok[OF ok(1) p] by metis
  have vis: "visible_ordinary ex (panes t') \<noteq> []"
  proof (cases hid)
    case False
    then show ?thesis unfolding t'(2) by (intro visible_upd[OF ok(3)]) simp
  next
    case True
    obtain q where q: "q \<in> set (panes (lo_tree l))" "\<not> sp_hidden q" "Some (sp_id q) \<noteq> ex"
      using ok(3) by (auto simp: visible_ordinary_def filter_empty_conv)
    then have "q \<in> set (panes t')" using assms(2)[OF True] by (auto simp: t'(2) upd_def)
    then show ?thesis using q(2,3) by (auto simp: visible_ordinary_def filter_empty_conv)
  qed
  then obtain q where "head_opt (collectAllPanes t') = Some q" "q \<in> set (panes t')"
    using visible_exists[of ex t' None] by (cases "collectAllPanes t'") (auto simp: head_opt_def collectAllPanes_panes filter_eq_Cons_iff)
  then have "focus_ok t' (if hid \<and> lo_focus l = Some paneId then pane_id_of (head_opt (collectAllPanes t')) else lo_focus l)"
    using focus_ok_ids[OF t'(4) ok(2)] focus_ok_pane by (simp add: pane_id_of_def)
  from mk_layout_ok[OF t'(3) this vis] show ?thesis
    using Some t'(1) by (simp add: setPaneHiddenInLayout_def)
qed (simp add: setPaneHiddenInLayout_def)

section \<open>Closing\<close>

lemma focus_at_prefix: "focus_at t (q @ r) = Some v \<Longrightarrow> \<exists>us n vs. focus_at t q = Some (us, n, vs)"
proof (induction q arbitrary: t v)
  case (Cons k q)
  then obtain i d cs ss where "t = Group i d cs ss" by (cases t) auto
  then show ?case using Cons by (fastforce split: if_splits)
qed simp

lemma find_SomeD: "find P xs = Some x \<Longrightarrow> x \<in> set xs \<and> P x"
  by (auto simp: find_Some_iff)

lemma nearest_sibling_total:
  assumes "focus_at t path = Some (xs, Pane p, ys)" "depth \<le> length path"
  shows "\<exists>r. nearest_sibling t path depth = Inr r \<and> (\<forall>i. r = Some i \<longrightarrow> i \<in> set (listPaneIds t))"
  using assms(2)
proof (induction depth)
  case (Suc depth)
  define q k where "q = take depth path" and "k = path ! depth"
  have "path = (q @ [k]) @ drop (Suc depth) path"
    using Suc.prems by (simp add: q_def k_def id_take_nth_drop)
  then obtain n us vs where "focus_at t (q @ [k]) = Some (us, n, vs)"
    using assms(1) focus_at_prefix by metis
  then obtain us i d cs ss vs where f: "focus_at t q = Some (us, Group i d cs ss, vs)" "k < length cs"
    using focus_snoc by blast
  have "set (panes (Group i d cs ss)) \<subseteq> set (panes t)" using focus_panes[OF f(1)] by auto
  then have sub: "set (listPaneIds c) \<subseteq> set (listPaneIds t)" if "c \<in> set cs" for c
    using that by (auto simp: listPaneIds_panes)
  have pick: "last ids \<in> set (listPaneIds t) \<and> hd ids \<in> set (listPaneIds t)"
    if found: "find (\<lambda>ids. ids \<noteq> []) (map listPaneIds cs') = Some ids" "set cs' \<subseteq> set cs" for cs' ids
  proof -
    obtain c where "c \<in> set cs'" "ids = listPaneIds c" "ids \<noteq> []"
      using find_SomeD[OF found(1)] by auto
    moreover from this have "set ids \<subseteq> set (listPaneIds t)" using sub found(2) by auto
    ultimately show ?thesis using hd_in_set last_in_set by blast
  qed
  have "set (rev (take k cs)) \<subseteq> set cs" "set (drop (Suc k) cs) \<subseteq> set cs"
    by (auto dest: in_set_takeD in_set_dropD)
  then show ?case
    using Suc.IH Suc.prems focus_get[OF f(1)] pick
    by (auto simp: q_def[symmetric] k_def[symmetric] Let_def split: option.splits)
qed simp

lemma findNearestSibling_total:
  assumes "tree_ok t"
  obtains r where "findNearestSiblingPaneId t i = Inr r"
proof (cases "findPanePathById t i")
  case (Some path)
  then obtain xs p ys where "focus_at t path = Some (xs, Pane p, ys)"
    using findPanePath_at[OF Some[unfolded findPanePathById_def]] by metis
  from nearest_sibling_total[OF this, of "length path"] show ?thesis
    using that Some by (auto simp: findNearestSiblingPaneId_def)
qed (use that in \<open>simp add: findNearestSiblingPaneId_def\<close>)

lemma pane_id_of_findPaneById:
  "pane_id_of (findPaneById t (Some f)) = Some i \<Longrightarrow> tree_ok t \<Longrightarrow> i \<in> set (pane_ids t)"
  using findPaneById_iff by (auto simp: pane_id_of_def pane_ids_def)

lemma getFocused_ok:
  assumes "tree_ok t" "visible_ordinary ex (panes t) \<noteq> []" "e = ex \<or> e = None"
  shows "focus_ok t (getFocusedPaneIdAfterTabClose t focus fallback e)"
proof -
  obtain q where q: "find (\<lambda>p. Some (sp_id p) \<noteq> e) (collectAllPanes t) = Some q"
    using visible_exists[OF assms(2,3)] by blast
  then have "q \<in> set (panes t)" by (auto simp: find_Some_iff collectAllPanes_panes dest: nth_mem)
  then have qi: "sp_id q \<in> set (pane_ids t)" by (simp add: pane_ids_def)
  show ?thesis
    using q qi pane_id_of_findPaneById[OF _ assms(1)]
    by (auto simp: getFocusedPaneIdAfterTabClose_def focus_ok_def or_else_def findPaneById_def[of t None] pane_id_of_def
        split: option.splits)
qed

lemma focused_pane_tabs: "wf_pane p \<Longrightarrow> sp_tabs (focused_pane i p) = sp_tabs p"
  by (simp add: focused_pane_def wf_paneD)

lemma upd_same_tabs:
  "(\<And>p. p \<in> set ps \<Longrightarrow> sp_id p = i \<Longrightarrow> sp_tabs (f p) = sp_tabs p) \<Longrightarrow> map sp_tabs (upd i f ps) = map sp_tabs ps"
  by (auto simp: upd_def)

lemma focus_keeps_ids:
  assumes "focusTabInLayout l i = Inr (Some x)" "tree_ok (lo_tree l)"
  shows "open_tab_ids (lo_tree x) = open_tab_ids (lo_tree l)"
proof -
  obtain p where p: "findPaneContainingTab (lo_tree l) i = Some p"
    using assms(1) by (auto simp: focusTabInLayout_def split: option.splits)
  have pp: "p \<in> set (panes (lo_tree l))" using findPaneContainingTab_Some[OF p] by simp
  obtain t' where t': "focusTabInPane (lo_tree l) (sp_id p) i = Inr t'"
    "panes t' = upd (sp_id p) (focused_pane i) (panes (lo_tree l))"
    using focusTabInPane_ok[OF assms(2) pp refl] by metis
  have "lo_tree x = t'" using assms(1) p t'(1) by (auto simp: focusTabInLayout_def split: if_splits)
  then show ?thesis
    using upd_same_tabs[of "panes (lo_tree l)" "sp_id p" "focused_pane i"] focused_pane_tabs tree_okD(3)[OF assms(2)]
    by (simp add: open_tab_ids_panes t'(2))
qed

text \<open>The tab is all that the last ordinary pane on screen holds.\<close>

definition lone_tab :: "string option \<Rightarrow> layout \<Rightarrow> string \<Rightarrow> bool" where
  "lone_tab ex l tabId \<longleftrightarrow>
     (case findPaneContainingTab (lo_tree l) tabId of
        None \<Rightarrow> False
      | Some p \<Rightarrow> visible_ordinary ex (panes (lo_tree l)) = [p] \<and> map wt_id (sp_tabs p) = [tabId])"

text \<open>The main pane and the Explorer stay when their last tab is closed.\<close>

definition closes_last_pane :: "string option \<Rightarrow> layout \<Rightarrow> string \<Rightarrow> bool" where
  "closes_last_pane ex l tabId \<longleftrightarrow>
     lone_tab ex l tabId \<and>
     pane_id_of (findPaneContainingTab (lo_tree l) tabId) \<notin> {Some DEFAULT_PANE_ID, Some EXPLORER_SIDEBAR_PANE_ID}"

lemma filter_remaining:
  assumes "distinct (map sp_id ps)" "p \<in> set ps" "visible_ordinary ex ps \<noteq> []" "visible_ordinary ex ps \<noteq> [p]"
  shows "visible_ordinary ex (filter (\<lambda>r. sp_id r \<noteq> sp_id p) ps) \<noteq> []"
proof
  assume e: "visible_ordinary ex (filter (\<lambda>r. sp_id r \<noteq> sp_id p) ps) = []"
  have "q = p" if "q \<in> set (visible_ordinary ex ps)" for q
  proof -
    have "sp_id q = sp_id p" using e that by (auto simp: visible_ordinary_def filter_empty_conv)
    moreover have "q \<in> set ps" using that by (simp add: visible_ordinary_def)
    ultimately show ?thesis using assms(1,2) by (simp add: distinct_map inj_on_def)
  qed
  moreover have "distinct (visible_ordinary ex ps)"
    using assms(1) by (simp add: visible_ordinary_def distinct_map)
  ultimately show False using assms(3,4)
    by (cases "visible_ordinary ex ps"; cases "tl (visible_ordinary ex ps)") auto
qed

lemma detach_panes_ids:
  assumes "wf_pane p" "p \<in> set ps" "distinct (map sp_id ps)" "env_ok env"
  shows "distinct (map sp_id (detach_panes env tabId pr p ps))"
    "set (map sp_id (detach_panes env tabId pr p ps)) \<subseteq> set (map sp_id ps)"
proof -
  have u: "map sp_id (upd (sp_id p) (\<lambda>_. q) ps) = map sp_id ps" if "sp_id q = sp_id p" for q
    by (rule upd_ids) (use that in simp)
  have f: "distinct (map sp_id (filter Q ps))" "set (map sp_id (filter Q ps)) \<subseteq> set (map sp_id ps)" for Q
    by (simp_all add: distinct_map_filter assms(3) image_mono)
  consider "detach_panes env tabId pr p ps = upd (sp_id p) (\<lambda>_. closed_pane tabId p) ps"
    | "detach_panes env tabId pr p ps = upd (sp_id p) (\<lambda>_. fresh_pane env (sp_id p) (sp_hidden p)) ps"
    | "detach_panes env tabId pr p ps = [fresh_pane env (sp_id p) False]"
    | "detach_panes env tabId pr p ps = filter (\<lambda>r. sp_id r \<noteq> sp_id p) ps"
  proof -
    have "detach_panes env tabId pr p ps \<in>
       {upd (sp_id p) (\<lambda>_. closed_pane tabId p) ps,
        upd (sp_id p) (\<lambda>_. fresh_pane env (sp_id p) (sp_hidden p)) ps,
        [fresh_pane env (sp_id p) False], filter (\<lambda>r. sp_id r \<noteq> sp_id p) ps}"
      by (simp add: detach_panes_def Let_def)
    then show thesis using that by blast
  qed
  note parts = this
  show "distinct (map sp_id (detach_panes env tabId pr p ps))"
    using parts by cases (simp_all add: u f assms(3) closed_pane_simps(2)[OF assms(1)] fresh_pane_wf(2) del: set_map)
  show "set (map sp_id (detach_panes env tabId pr p ps)) \<subseteq> set (map sp_id ps)"
    using parts
    by cases (simp_all only: u f closed_pane_simps(2)[OF assms(1)] fresh_pane_wf(2) list.map list.set, use assms(2) in auto)
qed

lemma detach_panes_tabs:
  assumes "r \<in> set (detach_panes env tabId pr p ps)" "wf_pane p" "\<And>r. r \<in> set ps \<Longrightarrow> sp_tabs r \<noteq> []"
  shows "sp_tabs r \<noteq> []"
  using assms by (auto simp: detach_panes_def Let_def upd_def fresh_pane_def split: if_splits)

lemma detach_visible:
  assumes "tree_ok t" "visible_ordinary ex (panes t) \<noteq> []" "find (has_tab tabId) (panes t) = Some p"
    "visible_ordinary ex (panes t) = [p] \<and> map wt_id (sp_tabs p) = [tabId] \<Longrightarrow> pr = Some (sp_id p)"
  shows "visible_ordinary ex (detach_panes env tabId pr p (panes t)) \<noteq> []"
proof -
  have p: "p \<in> set (panes t)" "has_tab tabId p" using find_SomeD[OF assms(3)] by auto
  note cp = closed_pane_simps[OF tree_okD(3)[OF assms(1) p(1)], of tabId]
  have upd: "visible_ordinary ex (upd (sp_id p) (\<lambda>_. q) (panes t)) \<noteq> []"
    if q: "sp_id q = sp_id p" "sp_hidden q = sp_hidden p" for q
  proof (rule visible_upd[OF assms(2)])
    fix r assume "r \<in> set (panes t)" "sp_id r = sp_id p"
    then have "r = p" using tree_okD(2)[OF assms(1)] p(1) by (metis distinct_map inj_onD)
    then show "sp_id q = sp_id p \<and> (sp_hidden q \<longrightarrow> sp_hidden r)" using q by simp
  qed
  show ?thesis
  proof (cases "sp_tabs (closed_pane tabId p) \<noteq> [] \<or> Some (sp_id p) = pr")
    case True
    then show ?thesis using upd cp(2,3) by (auto simp: detach_panes_def Let_def fresh_pane_wf)
  next
    case False
    then have all: "\<forall>t \<in> set (sp_tabs p). wt_id t = tabId" by (simp add: cp(4) filter_empty_conv)
    have "length (sp_tabs p) = 1"
    proof -
      have "card (set (map wt_id (sp_tabs p))) \<le> card {tabId}" using all by (intro card_mono) auto
      moreover have "card (set (map wt_id (sp_tabs p))) = length (sp_tabs p)"
        using distinct_card[OF wf_paneD(3)[OF tree_okD(3)[OF assms(1) p(1)]]] by simp
      ultimately show ?thesis using tree_okD(4)[OF assms(1) p(1)] by (cases "sp_tabs p") auto
    qed
    then have "map wt_id (sp_tabs p) = [tabId]" using all by (auto simp: length_Suc_conv)
    then have np: "visible_ordinary ex (panes t) \<noteq> [p]" using assms(4) False by auto
    have "panes t \<noteq> [p]"
    proof
      assume "panes t = [p]"
      then show False using np assms(2) by (auto simp: visible_ordinary_def split: if_splits)
    qed
    then show ?thesis
      using False filter_remaining[OF tree_okD(2)[OF assms(1)] p(1) assms(2) np]
      by (simp add: detach_panes_def Let_def)
  qed
qed

lemma detached_tree_ok:
  assumes "tree_ok t" "find (has_tab tabId) (panes t) = Some p" "env_ok env"
    "panes t' = detach_panes env tabId pr p (panes t)" "wf_node t'"
  shows "tree_ok t'"
proof (rule tree_okI[OF assms(5)])
  have p: "p \<in> set (panes t)" using find_SomeD[OF assms(2)] by simp
  show "distinct (map sp_id (panes t'))"
    unfolding assms(4)
    using detach_panes_ids(1)[OF tree_okD(3)[OF assms(1) p] p tree_okD(2)[OF assms(1)] assms(3)] .
  show "sp_tabs r \<noteq> []" if "r \<in> set (panes t')" for r
    using detach_panes_tabs[OF _ tree_okD(3)[OF assms(1) p] tree_okD(4)[OF assms(1)]] that assms(4) by auto
qed

lemma closeTabInLayout_ok:
  assumes "layout_ok ex l" "env_ok env" "\<not> closes_last_pane ex l tabId"
    "pr = None \<or> pr = pane_id_of (findPaneContainingTab (lo_tree l) tabId)"
  shows "ok_result ex (closeTabInLayout env l tabId pr)"
proof (cases "findPaneContainingTab (lo_tree l) tabId")
  case (Some p)
  note ok = layout_okD[OF assms(1)]
  have fp: "find (has_tab tabId) (panes (lo_tree l)) = Some p" using Some by (simp add: find_has_tab)
  define keep where "keep = or_else pr
     (if sp_id p = DEFAULT_PANE_ID \<or> sp_id p = EXPLORER_SIDEBAR_PANE_ID then Some (sp_id p) else None)"
  obtain fallback where fb: "findNearestSiblingPaneId (lo_tree l) (sp_id p) = Inr fallback"
    using findNearestSibling_total[OF ok(1)] by metis
  obtain d tab where d: "detachTabFromTree env (lo_tree l) tabId keep = Inr d"
    "panes (de_tree d) = detach_panes env tabId keep p (panes (lo_tree l))" "wf_node (de_tree d)"
    using detachTabFromTree_ok[OF ok(1) fp assms(2)] by metis
  have t: "tree_ok (de_tree d)" using detached_tree_ok[OF ok(1) fp assms(2) d(2,3)] .
  have v: "visible_ordinary ex (panes (de_tree d)) \<noteq> []"
    unfolding d(2)
    by (rule detach_visible[OF ok(1,3) fp])
      (use assms(3,4) Some in \<open>auto simp: closes_last_pane_def lone_tab_def keep_def or_else_def pane_id_of_def\<close>)
  define ps where "ps = normalizeParentTabMap (lo_parents l) (open_tab_ids (de_tree d))"
  define nl where "nl = \<lparr>lo_tree = de_tree d,
     lo_focus = getFocusedPaneIdAfterTabClose (de_tree d) (lo_focus l) fallback None, lo_parents = ps\<rparr>"
  have nl: "layout_ok ex nl"
    using mk_layout_ok[OF t getFocused_ok[OF t v] v, of None "lo_focus l" fallback "lo_parents l"]
    by (simp add: nl_def ps_def mk_layout_def withNormalizedParentTabMap_def)
  have foc: "\<exists>r. focusTabInLayout nl s = Inr r \<and>
      layout_ok ex (case ps of Some _ \<Rightarrow> (case r of Some x \<Rightarrow> x | None \<Rightarrow> nl)\<lparr>lo_parents := ps\<rparr>
                     | None \<Rightarrow> (case r of Some x \<Rightarrow> x | None \<Rightarrow> nl))" for s
  proof -
    obtain r where r: "focusTabInLayout nl s = Inr r" "r \<noteq> None \<Longrightarrow> layout_ok ex (the r)"
      using focusTabInLayout_ok[OF nl, of s] by (auto simp: ok_result_def split: sum.splits option.splits)
    have "layout_ok ex (x\<lparr>lo_parents := ps\<rparr>)" if "r = Some x" for x
      using r that nl focus_keeps_ids[OF _ layout_okD(1)[OF nl], of s x]
      by (cases ps) (simp_all add: layout_ok_def parents_ok_def nl_def)
    moreover have "nl\<lparr>lo_parents := ps\<rparr> = nl" by (simp add: nl_def)
    ultimately show ?thesis using r nl by (auto split: option.splits)
  qed
  have run: "closeTabInLayout env l tabId pr =
    (case getCloseSuccessorTabId p tabId (open_tab_ids (lo_tree l)) (lo_parents l) of
       Some s \<Rightarrow> if s \<noteq> [] \<and> findPaneContainingTab (de_tree d) s \<noteq> None then
                   ebind (focusTabInLayout nl s) (\<lambda>focused.
                     let fl = (case focused of Some x \<Rightarrow> x | None \<Rightarrow> nl) in
                     Inr (Some (case ps of Some _ \<Rightarrow> fl\<lparr>lo_parents := ps\<rparr> | None \<Rightarrow> fl)))
                 else Inr (Some nl)
     | None \<Rightarrow> Inr (Some nl))"
    using Some fb d(1) unfolding closeTabInLayout_def nl_def ps_def keep_def Let_def by simp
  show ?thesis
  proof (cases "getCloseSuccessorTabId p tabId (open_tab_ids (lo_tree l)) (lo_parents l)")
    case None
    then show ?thesis using run nl by simp
  next
    case (Some s)
    show ?thesis
    proof (cases "s \<noteq> [] \<and> findPaneContainingTab (de_tree d) s \<noteq> None")
      case True
      obtain r where "focusTabInLayout nl s = Inr r"
        "layout_ok ex (case ps of Some _ \<Rightarrow> (case r of Some x \<Rightarrow> x | None \<Rightarrow> nl)\<lparr>lo_parents := ps\<rparr>
                        | None \<Rightarrow> (case r of Some x \<Rightarrow> x | None \<Rightarrow> nl))"
        using foc[of s] by blast
      then show ?thesis using run Some True by (simp add: Let_def)
    next
      case False
      then have "closeTabInLayout env l tabId pr = Inr (Some nl)" using run Some by auto
      then show ?thesis using nl by simp
    qed
  qed
qed (simp add: closeTabInLayout_def)

end
