(* ===== verification/Layout_Operations.thy ===== *)
theory Layout_Operations
  imports Workspace_Layout_Spec
begin

text \<open>
  Every operation on layouts, one after the other: it returns, and its result satisfies the
  invariant. Then the operations together, as the steps of a workspace.
\<close>

section \<open>Closing and moving\<close>

lemma closePane_gen:
  assumes "layout_ok ex l" "env_ok env" "e = ex \<or> e = None"
    "visible_ordinary ex (filter (\<lambda>p. sp_id p \<noteq> paneId) (panes (lo_tree l))) \<noteq> []
     \<or> closePaneInLayout env l paneId e = Inr None"
  shows "ok_result ex (closePaneInLayout env l paneId e)"
proof (cases "findPanePathById (lo_tree l) paneId = None \<or> closePaneInLayout env l paneId e = Inr None")
  case True
  then show ?thesis by (auto simp: closePaneInLayout_def)
next
  case False
  note ok = layout_okD[OF assms(1)]
  let ?ps = "panes (lo_tree l)"
  from False obtain path where path: "findPanePathById (lo_tree l) paneId = Some path" by auto
  obtain xs p ys where p: "focus_at (lo_tree l) path = Some (xs, Pane p, ys)" "sp_id p = paneId" "?ps = xs @ p # ys"
    using findPanePath_at[OF path[unfolded findPanePathById_def]] by metis
  have v: "visible_ordinary ex (filter (\<lambda>p. sp_id p \<noteq> paneId) ?ps) \<noteq> []" using assms(4) False by blast
  then have "?ps \<noteq> [p]" using p(2) by (auto simp: visible_ordinary_def)
  then obtain t' where t': "removePaneByPath env (lo_tree l) path = Inr t'" "wf_node t'"
    "panes t' = filter (\<lambda>r. sp_id r \<noteq> paneId) ?ps"
    using removePaneByPath_ok[OF ok(1) p(1) assms(2)] p(2) by auto
  have t: "tree_ok t'"
    by (rule tree_okI[OF t'(2)])
      (use tree_okD(2,4)[OF ok(1)] in \<open>simp_all add: t'(3) distinct_map_filter\<close>)
  obtain fb where fb: "findNearestSiblingPaneId (lo_tree l) paneId = Inr fb"
    using findNearestSibling_total[OF ok(1)] by metis
  have "layout_ok ex (mk_layout t' (getFocusedPaneIdAfterTabClose t' (lo_focus l) fb e) (lo_parents l))"
    using mk_layout_ok[OF t getFocused_ok[OF t _ assms(3)]] v t'(3) by simp
  then show ?thesis
    using False path fb t'(1) by (auto simp: closePaneInLayout_def Let_def split: if_splits)
qed

lemma closePaneInLayout_ok:
  assumes "layout_ok ex l" "env_ok env" "Some paneId \<noteq> ex"
  shows "ok_result ex (closePaneInLayout env l paneId ex)"
proof (rule closePane_gen[OF assms(1,2)])
  note ok = layout_okD[OF assms(1)]
  let ?ps = "panes (lo_tree l)"
  show "visible_ordinary ex (filter (\<lambda>p. sp_id p \<noteq> paneId) ?ps) \<noteq> [] \<or>
        closePaneInLayout env l paneId ex = Inr None"
  proof (cases "findPanePathById (lo_tree l) paneId")
    case (Some path)
    obtain p where p: "p \<in> set ?ps" "sp_id p = paneId"
      using findPanePath_at[OF Some[unfolded findPanePathById_def]] by (metis in_set_conv_decomp)
    have ord: "filter (\<lambda>i. Some i \<noteq> ex) (listPaneIds (lo_tree l)) = map sp_id (visible_ordinary ex ?ps)"
      by (simp add: listPaneIds_panes visible_ordinary_def filter_map comp_def conj_commute)
    show ?thesis
    proof (cases "visible_ordinary ex ?ps = [p]")
      case True
      then show ?thesis using Some p assms(3) by (simp add: closePaneInLayout_def Let_def ord)
    next
      case False
      then show ?thesis using filter_remaining[OF tree_okD(2)[OF ok(1)] p(1) ok(3)] p(2) by simp
    qed
  qed (simp add: closePaneInLayout_def)
qed simp

lemma find_tab_id: "find (\<lambda>t. wt_id t = i) ts = Some t \<Longrightarrow> t \<in> set ts \<and> wt_id t = i"
  by (rule find_SomeD)

text \<open>Inserting into a pane of a good tree keeps the panes on screen.\<close>

lemma insert_layout_ok:
  assumes "tree_ok t" "visible_ordinary ex (panes t) \<noteq> []" "q \<in> set (panes t)" "sp_id q = i" "wf_tab tab"
    "focus_ok t g"
  obtains t' where "insertTabIntoPane t i tab foc = Inr t'" "layout_ok ex (mk_layout t' g ps)"
proof -
  obtain t' where t': "insertTabIntoPane t i tab foc = Inr t'"
    "panes t' = upd i (inserted_pane tab foc) (panes t)" "tree_ok t'" "pane_ids t' = pane_ids t"
    using insertTabIntoPane_ok[OF assms(1,3-5)] by metis
  have "visible_ordinary ex (panes t') \<noteq> []"
    unfolding t'(2)
    by (rule visible_upd[OF assms(2)])
      (use inserted_pane_ok[OF tree_okD(3)[OF assms(1)] assms(5) tree_okD(4)[OF assms(1)]] in auto)
  then show ?thesis using that[OF t'(1) mk_layout_ok[OF t'(3) focus_ok_ids[OF t'(4) assms(6)]]] by blast
qed

lemma detach_panes_other:
  assumes "q \<in> set ps" "sp_id q \<noteq> sp_id p" "p \<in> set ps"
  shows "q \<in> set (detach_panes env i pr p ps)"
  using assms by (auto simp: detach_panes_def Let_def upd_def)

lemma detach_panes_kept:
  assumes "wf_pane p"
  shows "map sp_id (detach_panes env i (Some (sp_id p)) p ps) = map sp_id ps"
  using upd_ids[of "sp_id p" "\<lambda>_. closed_pane i p" ps] closed_pane_simps(2)[OF assms]
    upd_ids[of "sp_id p" "\<lambda>_. fresh_pane env (sp_id p) (sp_hidden p)" ps]
  by (simp add: detach_panes_def Let_def fresh_pane_wf(2))

lemma moveTabToPane_ok:
  assumes "layout_ok ex l" "env_ok env" "e = ex \<or> e = None \<and> \<not> lone_tab ex l tabId"
  shows "ok_result ex (moveTabToPaneInLayout env l tabId toPaneId e)"
proof -
  note ok = layout_okD[OF assms(1)]
  let ?t = "lo_tree l"
  consider "findPaneContainingTab ?t tabId = None \<or> findPaneById ?t (Some toPaneId) = None"
    | p q where "findPaneContainingTab ?t tabId = Some p" "findPaneById ?t (Some toPaneId) = Some q"
    by (cases "findPaneContainingTab ?t tabId"; cases "findPaneById ?t (Some toPaneId)") blast+
  then show ?thesis
  proof cases
    case 1
    then show ?thesis by (auto simp: moveTabToPaneInLayout_def split: option.splits)
  next
    case (2 p q)
    have p: "p \<in> set (panes ?t)" "has_tab tabId p" using findPaneContainingTab_Some[OF 2(1)] by auto
    have fp: "find (has_tab tabId) (panes ?t) = Some p" using 2(1) by (simp add: find_has_tab)
    have q: "q \<in> set (panes ?t)" "sp_id q = toPaneId" using 2(2) findPaneById_iff[OF ok(1)] by auto
    have wp: "wf_pane p" using tree_okD(3)[OF ok(1) p(1)] .
    define sole where "sole \<longleftrightarrow> sp_id p \<noteq> toPaneId \<and> length (sp_tabIds p) = 1 \<and>
        map_option wt_target (find (\<lambda>t. wt_id t = tabId) (collectAllTabs ?t)) = Some Tab_new"
    show ?thesis
    proof (cases "sp_hidden q")
      case True
      then show ?thesis using 2 by (simp add: moveTabToPaneInLayout_def)
    next
      case visible: False
      show ?thesis
      proof (cases "sole \<and> Some toPaneId \<noteq> e")
        case True
        then have run: "moveTabToPaneInLayout env l tabId toPaneId e =
            (if Some (sp_id p) = e then setPaneHiddenInLayout l (sp_id p) True
             else closePaneInLayout env l (sp_id p) e)"
          using 2 visible by (simp add: moveTabToPaneInLayout_def sole_def Let_def)
        have "map wt_id (sp_tabs p) = [tabId]"
          using True p(2) wf_paneD(4)[OF wp] by (auto simp: sole_def length_Suc_conv has_tab_def)
        then have "visible_ordinary ex (panes ?t) \<noteq> [p]" if "e \<noteq> ex"
          using assms(3) that 2(1) by (simp add: lone_tab_def)
        then have "visible_ordinary ex (filter (\<lambda>r. sp_id r \<noteq> sp_id p) (panes ?t)) \<noteq> []" if "e \<noteq> ex"
          using filter_remaining[OF tree_okD(2)[OF ok(1)] p(1) ok(3)] that by blast
        then have "ok_result ex (closePaneInLayout env l (sp_id p) e)" if "Some (sp_id p) \<noteq> e"
          using closePaneInLayout_ok[OF assms(1,2), of "sp_id p"] closePane_gen[OF assms(1,2), of e "sp_id p"] that assms(3)
          by (cases "e = ex") auto
        then show ?thesis
          using run setPaneHidden_ok[OF assms(1), of True "sp_id p"] assms(3) by auto
      next
        case False
        define pr where "pr = (if sp_id p = toPaneId \<or> Some (sp_id p) = e \<or> Some toPaneId = e then Some (sp_id p) else None)"
        obtain d tab where d: "detachTabFromTree env ?t tabId pr = Inr d" "de_tab d = Some tab"
          "find (\<lambda>t. wt_id t = tabId) (sp_tabs p) = Some tab"
          "panes (de_tree d) = detach_panes env tabId pr p (panes ?t)" "wf_node (de_tree d)"
          using detachTabFromTree_ok[OF ok(1) fp assms(2)] by metis
        have t: "tree_ok (de_tree d)" using detached_tree_ok[OF ok(1) fp assms(2) d(4,5)] .
        have in': "toPaneId \<in> set (pane_ids (de_tree d))"
        proof (cases "sp_id p = toPaneId")
          case True
          then have "pr = Some (sp_id p)" by (simp add: pr_def)
          then show ?thesis
            using True p(1) detach_panes_kept[OF wp] unfolding pane_ids_def d(4)
            by (metis image_eqI list.set_map)
        next
          case False
          then have "q \<in> set (panes (de_tree d))"
            unfolding d(4) using detach_panes_other q p(1) by auto
          then show ?thesis using q(2) by (auto simp: pane_ids_def)
        qed
        then obtain r where r: "r \<in> set (panes (de_tree d))" "sp_id r = toPaneId" by (auto simp: pane_ids_def)
        have v: "visible_ordinary ex (panes (de_tree d)) \<noteq> []"
          unfolding d(4)
        proof (rule detach_visible[OF ok(1,3) fp])
          assume only: "visible_ordinary ex (panes ?t) = [p] \<and> map wt_id (sp_tabs p) = [tabId]"
          then have "e = ex" using assms(3) 2(1) by (auto simp: lone_tab_def)
          moreover have "q \<in> set (visible_ordinary ex (panes ?t)) \<or> Some toPaneId = ex"
            using q visible by (simp add: visible_ordinary_def)
          then have "q = p \<or> Some toPaneId = ex" using only by auto
          ultimately show "pr = Some (sp_id p)" using q(2) by (auto simp: pr_def)
        qed
        have tab: "wf_tab tab" using find_tab_id[OF d(3)] wf_paneD(2)[OF wp] by (auto simp: list_all_iff)
        obtain t' where t': "insertTabIntoPane (de_tree d) toPaneId tab (Some tabId) = Inr t'"
          "layout_ok ex (mk_layout t' (Some toPaneId) (lo_parents l))"
          by (rule insert_layout_ok[OF t v r tab]) (use focus_ok_pane[OF r(1)] r(2) in auto)
        then show ?thesis
          using 2 visible False d(1,2) by (auto simp: moveTabToPaneInLayout_def sole_def pr_def Let_def)
      qed
    qed
  qed
qed

section \<open>Splitting, resizing, reordering\<close>

text \<open>Ids for new panes that no pane has.\<close>

definition fresh_ids :: "string option \<Rightarrow> layout_env \<Rightarrow> layout \<Rightarrow> bool" where
  "fresh_ids ex env l \<longleftrightarrow> le_paneId env \<notin> set (pane_ids (lo_tree l)) \<and> Some (le_paneId env) \<noteq> ex"

lemma beside_tree_ok:
  assumes "tree_ok t" "p \<in> set (panes t)" "sp_id p = i" "wf_pane n" "sp_tabs n \<noteq> []"
    "sp_id n \<notin> set (pane_ids t)" "wf_id (le_groupId env)" "\<not> sp_hidden n" "Some (sp_id n) \<noteq> ex"
  obtains path t' where "findPanePathById t i = Some path" "getNodeAtPath t path = Inr (Pane p)"
    "place_beside env t path (Pane p) pos (Pane n) = Inr t'" "tree_ok t'"
    "visible_ordinary ex (panes t') \<noteq> []" "n \<in> set (panes t')"
    "mset (panes t') = mset (panes t) + {#n#}"
proof -
  obtain path t0 where path: "findPanePathById t i = Some path" "getNodeAtPath t path = Inr (Pane p)"
    by (rule edit_by_id[OF assms(1-3), of "\<lambda>n. Inr n" id])
      (use tree_okD(3)[OF assms(1,2)] in \<open>auto simp: pane_edit_def\<close>)
  obtain xs q ys where q: "focus_at t path = Some (xs, Pane q, ys)" "panes t = xs @ q # ys"
    using findPanePath_at[OF path(1)[unfolded findPanePathById_def]] by metis
  have "q = p" using focus_get[OF q(1)] path(2) by simp
  then obtain t' where t': "place_beside env t path (Pane p) pos (Pane n) = Inr t'"
    "panes t' = xs @ beside pos p n @ ys" "wf_node t'"
    using place_beside_panes[OF q(1) tree_okD(1)[OF assms(1)], of n env pos] assms(4,7) by auto
  have m: "mset (panes t') = mset (panes t) + {#n#}"
    using t'(2) q(2) \<open>q = p\<close> by (simp add: beside_def)
  then have set: "set (panes t') = insert n (set (panes t))" by (metis set_mset_mset set_mset_add_mset_insert union_mset_add_mset_right add.right_neutral)
  have "distinct (map sp_id (panes t'))"
  proof -
    have "mset (map sp_id (panes t')) = mset (sp_id n # map sp_id (panes t))" using m by simp
    then show ?thesis using tree_okD(2)[OF assms(1)] assms(6) by (metis distinct.simps(2) mset_eq_imp_distinct_iff pane_ids_def)
  qed
  then have "tree_ok t'"
    by (intro tree_okI[OF t'(3)]) (use set assms(5) tree_okD(4)[OF assms(1)] in auto)
  moreover have "visible_ordinary ex (panes t') \<noteq> []" "n \<in> set (panes t')"
    using set assms(8,9) by (auto simp: visible_ordinary_def filter_empty_conv)
  ultimately show ?thesis using that[OF path t'(1)] m by blast
qed

lemma split_result_ok:
  assumes "tree_ok t'" "visible_ordinary ex (panes t') \<noteq> []" "n \<in> set (panes t')" "sp_id n = i"
  shows "layout_ok ex (mk_layout t' (Some i) ps)"
  using mk_layout_ok[OF assms(1) focus_ok_pane[OF assms(3)] assms(2)] assms(4) by simp

definition ok_pair :: "string option \<Rightarrow> layout_error + (layout \<times> string) option \<Rightarrow> bool" where
  "ok_pair ex r \<longleftrightarrow> (case r of Inl _ \<Rightarrow> False | Inr None \<Rightarrow> True | Inr (Some (l, i)) \<Rightarrow> layout_ok ex l)"

lemma ok_pair_simps [simp]:
  "ok_pair ex (Inr None)" "ok_pair ex (Inr (Some (l, i))) = layout_ok ex l" "\<not> ok_pair ex (Inl e)"
  by (simp_all add: ok_pair_def)

lemma splitPaneEmpty_ok:
  assumes "layout_ok ex l" "env_ok env" "fresh_ids ex env l"
  shows "ok_pair ex (splitPaneEmptyInLayout env l target pos depth)"
proof (cases "findPaneById (lo_tree l) (Some target)")
  case (Some p)
  note ok = layout_okD[OF assms(1)]
  let ?n = "fresh_pane env (le_paneId env) False"
  have p: "p \<in> set (panes (lo_tree l))" "sp_id p = target" using Some findPaneById_iff[OF ok(1)] by auto
  obtain path t' where t': "findPanePathById (lo_tree l) target = Some path"
    "getNodeAtPath (lo_tree l) path = Inr (Pane p)"
    "place_beside env (lo_tree l) path (Pane p) pos (Pane ?n) = Inr t'" "tree_ok t'"
    "visible_ordinary ex (panes t') \<noteq> []" "?n \<in> set (panes t')"
    by (rule beside_tree_ok[OF ok(1) p, of ?n env ex pos])
      (use assms(2,3) in \<open>auto simp: fresh_pane_wf env_ok_def fresh_ids_def\<close>)
  have "layout_ok ex (mk_layout t' (Some (le_paneId env)) (lo_parents l))"
    by (rule split_result_ok[OF t'(4-6)]) (simp add: fresh_pane_wf)
  then show ?thesis
    using Some t'(1-3) by (simp add: splitPaneEmptyInLayout_def createPaneNode_fresh[OF assms(2)])
qed (simp add: splitPaneEmptyInLayout_def)

lemma splitRootRight_ok:
  assumes "layout_ok ex l" "env_ok env" "fresh_ids ex env l"
  shows "ok_pair ex (Inr (splitWorkspaceRootRightInLayout env l depth))"
proof -
  note ok = layout_okD[OF assms(1)]
  let ?n = "fresh_pane env (le_paneId env) False"
  define t' where "t' = createGroupNode (le_groupId env) Horizontal [lo_tree l, Pane ?n] [7 / 10, 3 / 10]"
  have n: "wf_pane ?n" using fresh_pane_wf(1)[OF assms(2)] assms(2) by (simp add: env_ok_def)
  have w: "wf_node t'"
    unfolding t'_def by (rule createGroupNode_wf) (use n tree_okD(1)[OF ok(1)] assms(2) in \<open>auto simp: env_ok_def\<close>)
  have ps: "panes t' = panes (lo_tree l) @ [?n]" by (simp add: t'_def)
  have "tree_ok t'"
    by (rule tree_okI[OF w])
      (use tree_okD(2,4)[OF ok(1)] assms(3) in \<open>auto simp: ps fresh_pane_wf fresh_ids_def pane_ids_def\<close>)
  then have "layout_ok ex (mk_layout t' (Some (le_paneId env)) (lo_parents l))"
    by (rule split_result_ok) (use assms(3) in \<open>auto simp: ps visible_ordinary_def fresh_pane_wf fresh_ids_def\<close>)
  then show ?thesis
    by (simp add: splitWorkspaceRootRightInLayout_def createPaneNode_fresh[OF assms(2)] t'_def Let_def)
qed

lemma splitPane_ok:
  assumes "layout_ok ex l" "env_ok env" "fresh_ids ex env l"
  shows "ok_pair ex (splitPaneInLayout env l tabId target pos depth)"
proof (cases "findPaneById (lo_tree l) (Some target) = None \<or> findPaneContainingTab (lo_tree l) tabId = None")
  case False
  note ok = layout_okD[OF assms(1)]
  obtain q p where q: "findPaneById (lo_tree l) (Some target) = Some q"
    and p: "findPaneContainingTab (lo_tree l) tabId = Some p" using False by auto
  have fp: "find (has_tab tabId) (panes (lo_tree l)) = Some p" using p by (simp add: find_has_tab)
  have pin: "p \<in> set (panes (lo_tree l))" using find_SomeD[OF fp] by simp
  have q': "q \<in> set (panes (lo_tree l))" "sp_id q = target" using q findPaneById_iff[OF ok(1)] by auto
  note wp = tree_okD(3)[OF ok(1) pin]
  obtain d tab where d: "detachTabFromTree env (lo_tree l) tabId (Some target) = Inr d" "de_tab d = Some tab"
    "find (\<lambda>t. wt_id t = tabId) (sp_tabs p) = Some tab"
    "panes (de_tree d) = detach_panes env tabId (Some target) p (panes (lo_tree l))" "wf_node (de_tree d)"
    using detachTabFromTree_ok[OF ok(1) fp assms(2)] by metis
  have t: "tree_ok (de_tree d)" using detached_tree_ok[OF ok(1) fp assms(2) d(4,5)] .
  have ids: "set (pane_ids (de_tree d)) \<subseteq> set (pane_ids (lo_tree l))"
    using detach_panes_ids(2)[OF wp pin tree_okD(2)[OF ok(1)] assms(2)] by (simp add: pane_ids_def d(4))
  have "target \<in> set (pane_ids (de_tree d))"
  proof (cases "sp_id p = target")
    case True
    then show ?thesis
      using pin detach_panes_kept[OF wp] unfolding pane_ids_def d(4) by (metis image_eqI list.set_map)
  next
    case False
    then have "q \<in> set (panes (de_tree d))" unfolding d(4) using detach_panes_other q' pin by auto
    then show ?thesis using q'(2) by (auto simp: pane_ids_def)
  qed
  then obtain r where r: "r \<in> set (panes (de_tree d))" "sp_id r = target" by (auto simp: pane_ids_def)
  have tab: "wf_tab tab" using find_tab_id[OF d(3)] wf_paneD(2)[OF wp] by (auto simp: list_all_iff)
  define n where "n = \<lparr>sp_id = le_paneId env, sp_tabs = [tab], sp_tabIds = [wt_id tab],
    sp_focusedTabId = Some (wt_id tab), sp_hidden = False\<rparr>"
  have n: "createPaneNode (le_paneId env) [tab] (Some (wt_id tab)) False = Pane n"
    by (simp add: createPaneNode_one[OF tab] n_def)
  have wn: "wf_pane n" using tab assms(2) by (simp add: n_def wf_pane_def env_ok_def)
  obtain path t' where t': "findPanePathById (de_tree d) target = Some path"
    "getNodeAtPath (de_tree d) path = Inr (Pane r)"
    "place_beside env (de_tree d) path (Pane r) pos (Pane n) = Inr t'" "tree_ok t'"
    "visible_ordinary ex (panes t') \<noteq> []" "n \<in> set (panes t')"
    by (rule beside_tree_ok[OF t r wn, of env ex pos])
      (use assms(2,3) ids in \<open>auto simp: n_def env_ok_def fresh_ids_def\<close>)
  have "layout_ok ex (mk_layout t' (Some (le_paneId env)) (lo_parents l))"
    by (rule split_result_ok[OF t'(4-6)]) (simp add: n_def)
  moreover have "findPanePathById (lo_tree l) target \<noteq> None"
    using q' by (auto simp: findPanePathById_def findPanePath_None)
  ultimately show ?thesis
    using q p d(1,2) t'(1-3) n by (auto simp: splitPaneInLayout_def insertSplitInternal_def)
qed (auto simp: splitPaneInLayout_def)

lemma resizeSplit_ok:
  assumes "layout_ok ex l"
  shows "\<exists>m. resizeSplitInLayout l groupId sizes = Inr m \<and> layout_ok ex m \<and> panes (lo_tree m) = panes (lo_tree l)"
proof -
  note ok = layout_okD[OF assms]
  have "\<exists>t'. updateGroupSizesInTree (lo_tree l) groupId sizes = Inr t' \<and> wf_node t' \<and> panes t' = panes (lo_tree l)"
  proof (cases "findGroupPathById (lo_tree l) groupId")
    case (Some path)
    obtain xs i d cs ss ys where f: "focus_at (lo_tree l) path = Some (xs, Group i d cs ss, ys)"
      using findGroupPath_focus(1)[OF Some[unfolded findGroupPathById_def]] by auto
    define m where "m = (if length sizes \<noteq> length cs then Group i d cs ss
                         else createGroupNode i d cs (clampNormalizedSizes sizes))"
    have g: "wf_node (Group i d cs ss)" using focus_wf[OF f tree_okD(1)[OF ok(1)]] .
    then have wm: "wf_node m" using createGroupNode_wf by (simp add: m_def)
    have pm: "panes m = panes (Group i d cs ss)" by (simp add: m_def)
    let ?u = "\<lambda>node. case node of
        Pane p \<Rightarrow> Inl (Invariant_failed ''Expected group while resizing split'')
      | Group i d cs ss \<Rightarrow>
          if length sizes \<noteq> length cs then Inr node
          else Inr (createGroupNode i d cs (clampNormalizedSizes sizes))"
    have u: "?u (Group i d cs ss) = Inr m" by (simp add: m_def)
    obtain t' where t': "replaceNodeAtPath (lo_tree l) path ?u = Inr t'" using focus_replace[OF f, of ?u, OF u] by blast
    then show ?thesis
      using replace_panes(1,2)[OF f u t'] tree_okD(1)[OF ok(1)] wm pm focus_panes[OF f] Some
      by (auto simp: updateGroupSizesInTree_def)
  next
    case None
    then show ?thesis using tree_okD(1)[OF ok(1)] by (simp add: updateGroupSizesInTree_def)
  qed
  then obtain t' where t': "updateGroupSizesInTree (lo_tree l) groupId sizes = Inr t'" "wf_node t'"
    "panes t' = panes (lo_tree l)" by blast
  then have t: "tree_ok t'" using ok(1) by (simp add: tree_ok_def pane_ids_def)
  have "layout_ok ex (mk_layout t' (lo_focus l) (lo_parents l))"
    by (rule mk_layout_ok[OF t focus_ok_ids[OF _ ok(2)]]) (use ok(3) t'(3) in \<open>simp_all add: pane_ids_def\<close>)
  then show ?thesis using t' by (simp add: resizeSplitInLayout_def)
qed

end
