(* ===== verification/Layout_Opening.thy ===== *)
theory Layout_Opening
  imports Layout_Operations
begin

text \<open>
  The operations that order, open and retarget tabs, and then every operation on layouts as one
  step: a step never throws and keeps the invariant.
\<close>

section \<open>Order\<close>

lemma dedup_by_filter: "distinct (map key xs) \<Longrightarrow> dedup_by key seen xs = filter (\<lambda>x. key x \<notin> set seen) xs"
proof (induction xs arbitrary: seen)
  case (Cons x xs)
  have "key y \<noteq> key x" if "y \<in> set xs" for y
    using Cons.prems imageI[OF that, of key] by auto
  then have "filter (\<lambda>y. key y \<notin> set (key x # seen)) xs = filter (\<lambda>y. key y \<notin> set seen) xs"
    by (intro filter_cong) auto
  then show ?case using Cons by (auto simp del: list.set)
qed simp

lemma mset_eq_of_set: "distinct xs \<Longrightarrow> distinct ys \<Longrightarrow> set xs = set ys \<Longrightarrow> mset xs = mset ys"
  by (simp add: set_eq_iff_mset_eq_distinct)

text \<open>Reordering a pane keeps its tabs, whatever the ids it is given.\<close>

lemma map_of_rev_tabs:
  "map_of (rev (map (\<lambda>t. (wt_id t, t)) ts)) i = Some t \<Longrightarrow> t \<in> set ts \<and> wt_id t = i"
  by (auto dest!: map_of_SomeD)

lemma reorderTabs_perm:
  assumes "wf_pane p"
  shows "mset (sp_tabs (reorderTabsForPane p ids)) = mset (sp_tabs p)"
    "sp_id (reorderTabsForPane p ids) = sp_id p" "sp_hidden (reorderTabsForPane p ids) = sp_hidden p"
    "wf_pane (reorderTabsForPane p ids)"
proof -
  define byId where "byId = map_of (rev (map (\<lambda>t. (wt_id t, t)) (sp_tabs p)))"
  define listed where "listed = dedup_by wt_id [] (List.map_filter byId (normalizeTabIds ids))"
  define others where "others = filter (\<lambda>t. wt_id t \<notin> wt_id ` set listed) (sp_tabs p)"
  note d = wf_paneD(3)[OF assms]
  have o: "dedup_by wt_id (map wt_id listed) (sp_tabs p) = others"
    using dedup_by_filter[OF d] by (simp add: others_def)
  have r: "reorderTabsForPane p ids = normalizePaneAfterTabChange (p\<lparr>sp_tabs := listed @ others\<rparr>)"
    by (simp add: reorderTabsForPane_def Let_def o byId_def[symmetric] listed_def[symmetric])
  have l: "set listed \<subseteq> set (sp_tabs p)"
    using dedup_by_subset[of wt_id "[]"] map_of_rev_tabs
    by (fastforce simp: listed_def byId_def dest!: map_filter_set)
  have inj: "inj_on wt_id (set (sp_tabs p))" using d by (simp add: distinct_map)
  have s: "set (listed @ others) = set (sp_tabs p)"
  proof
    show "set (sp_tabs p) \<subseteq> set (listed @ others)"
    proof
      fix t assume t: "t \<in> set (sp_tabs p)"
      show "t \<in> set (listed @ others)"
      proof (cases "wt_id t \<in> wt_id ` set listed")
        case True
        then show ?thesis using inj_onD[OF inj] t l by fastforce
      qed (use t in \<open>simp add: others_def\<close>)
    qed
  qed (use l in \<open>auto simp: others_def\<close>)
  have dl: "distinct (map wt_id listed)"
    using dedup_by_distinct[of wt_id "[]"] by (auto simp: listed_def)
  then have dm: "distinct (map wt_id (listed @ others))"
    using distinct_map_filter[OF d, of "\<lambda>t. wt_id t \<notin> wt_id ` set listed"]
    by (auto simp: others_def) (metis imageI)
  have w: "list_all wf_tab (listed @ others)" using s wf_paneD(2)[OF assms] by (auto simp: list_all_iff)
  have t: "sp_tabs (reorderTabsForPane p ids) = listed @ others"
    by (simp add: r normalizeWorkspaceTabs_id[OF w dm])
  have "distinct (listed @ others)" "distinct (sp_tabs p)" using dm d by (simp_all add: distinct_map del: map_append)
  then show "mset (sp_tabs (reorderTabsForPane p ids)) = mset (sp_tabs p)"
    unfolding t by (rule mset_eq_of_set[OF _ _ s])
qed (use wf_paneD(1)[OF assms] in \<open>simp_all add: reorderTabsForPane_def Let_def normalizePane_wf\<close>)

lemma reorder_update_ok:
  assumes "layout_ok ex l" "findPaneById (lo_tree l) (Some i) = Some p"
  obtains t' where "updatePaneInTree (lo_tree l) i (\<lambda>p. reorderTabsForPane p ids) = Inr t'"
    "panes t' = upd i (\<lambda>p. reorderTabsForPane p ids) (panes (lo_tree l))"
    "layout_ok ex (mk_layout t' (lo_focus l) (lo_parents l))"
proof -
  note ok = layout_okD[OF assms(1)]
  have p: "p \<in> set (panes (lo_tree l))" "sp_id p = i" using assms(2) findPaneById_iff[OF ok(1)] by auto
  let ?f = "\<lambda>p. reorderTabsForPane p ids"
  have f: "sp_id (?f q) = i \<and> normalizeWorkspaceTabs (sp_tabs (?f q)) \<noteq> []"
    if "q \<in> set (panes (lo_tree l))" "sp_id q = i" for q
    using reorderTabs_perm[OF tree_okD(3)[OF ok(1) that(1)], of ids] that tree_okD(4)[OF ok(1) that(1)]
    by (metis mset.simps(1) mset_zero_iff wf_paneD(5))
  obtain t' where t': "updatePaneInTree (lo_tree l) i ?f = Inr t'"
    "panes t' = upd i (\<lambda>p. normalizePaneAfterTabChange (?f p)) (panes (lo_tree l))" "tree_ok t'"
    "pane_ids t' = pane_ids (lo_tree l)"
    using updatePaneInTree_ok[where f = ?f, OF ok(1) p f] by metis
  have "normalizePaneAfterTabChange (?f q) = ?f q" if "q \<in> set (panes (lo_tree l))" for q
    using normalizePane_id reorderTabs_perm(4) tree_okD(3)[OF ok(1) that] by blast
  then have u: "panes t' = upd i ?f (panes (lo_tree l))" by (simp add: t'(2) upd_def)
  have "layout_ok ex (mk_layout t' (lo_focus l) (lo_parents l))"
    by (rule upd_layout_ok[OF assms(1) u t'(3,4) ok(2)])
      (use reorderTabs_perm tree_okD(3)[OF ok(1)] in simp)
  then show ?thesis using that t'(1) u by blast
qed

lemma reorderPaneTabs_ok:
  assumes "layout_ok ex l"
  shows "ok_result ex (reorderPaneTabsInLayout l i ids)"
proof (cases "findPaneById (lo_tree l) (Some i)")
  case (Some p)
  show ?thesis by (rule reorder_update_ok[OF assms Some, of ids]) (simp add: reorderPaneTabsInLayout_def Some)
qed (simp add: reorderPaneTabsInLayout_def)

lemma reorderFocused_eq:
  "reorderFocusedPaneTabsInLayout l ids =
     (case lo_focus l of Some (c # cs) \<Rightarrow> reorderPaneTabsInLayout l (c # cs) ids | _ \<Rightarrow> Inr None)"
  by (auto simp: reorderFocusedPaneTabsInLayout_def reorderPaneTabsInLayout_def split: option.split list.split)

lemma reorderFocused_ok: "layout_ok ex l \<Longrightarrow> ok_result ex (reorderFocusedPaneTabsInLayout l ids)"
  by (auto simp: reorderFocused_eq reorderPaneTabs_ok split: option.split list.split)

section \<open>Replacing a tab\<close>

lemma collect_has_tab:
  assumes "t \<in> set (collectAllTabs tree)"
  obtains p where "find (has_tab (wt_id t)) (panes tree) = Some p"
proof -
  obtain p where "p \<in> set (panes tree)" "t \<in> set (sp_tabs p)" using assms by (auto simp: collectAllTabs_panes)
  then have "find (has_tab (wt_id t)) (panes tree) \<noteq> None" by (auto simp: find_None_iff has_tab_iff)
  then show ?thesis using that by blast
qed

lemma replaceTab_layout_ok:
  assumes "layout_ok ex l" "find (has_tab i) (panes (lo_tree l)) = Some p" "wf_id j" "wf_target target"
    "focus_ok (lo_tree l) g"
  obtains t' where "replaceTabInTree (lo_tree l) i j target st = Inr t'"
    "panes t' = upd (sp_id p) (replaced_pane i j target st) (panes (lo_tree l))"
    "\<And>ps. layout_ok ex (mk_layout t' g ps)"
proof -
  note ok = layout_okD[OF assms(1)]
  obtain t' where t': "replaceTabInTree (lo_tree l) i j target st = Inr t'"
    "panes t' = upd (sp_id p) (replaced_pane i j target st) (panes (lo_tree l))" "tree_ok t'"
    "pane_ids t' = pane_ids (lo_tree l)"
    using replaceTabInTree_ok[OF ok(1) assms(2-4)] by metis
  have "layout_ok ex (mk_layout t' g ps)" for ps
    by (rule upd_layout_ok[OF assms(1) t'(2-4) assms(5)])
      (use replaced_pane_ok[OF tree_okD(3)[OF ok(1)] assms(3,4) tree_okD(4)[OF ok(1)]] in auto)
  then show ?thesis using that t'(1,2) by blast
qed

lemma tab_by_id_Some: "tab_by_id t i = Some tab \<Longrightarrow> tab \<in> set (collectAllTabs t) \<and> wt_id tab = i"
  unfolding tab_by_id_def by (rule find_SomeD)

lemma collect_wf: "tree_ok t \<Longrightarrow> tab \<in> set (collectAllTabs t) \<Longrightarrow> wf_tab tab"
  using wf_paneD(2) tree_okD(3) by (fastforce simp: collectAllTabs_panes list_all_iff)

lemma setTabState_ok:
  assumes "layout_ok ex l"
  shows "ok_result ex (setTabStateInLayout l i st)"
proof (cases "tab_by_id (lo_tree l) i")
  case (Some tab)
  note ok = layout_okD[OF assms]
  note tab = tab_by_id_Some[OF Some]
  then have w: "wf_id (wt_id tab)" "wf_target (wt_target tab)"
    using collect_wf[OF ok(1)] by (auto simp: wf_tab_def)
  obtain p where p: "find (has_tab (wt_id tab)) (panes (lo_tree l)) = Some p"
    using collect_has_tab tab by blast
  show ?thesis
    by (rule replaceTab_layout_ok[OF assms p w ok(2), of st]) (simp add: setTabStateInLayout_def Some)
qed (simp add: setTabStateInLayout_def)

section \<open>Opening\<close>

lemma only_if_Some: "only_if Q v = Some x \<longleftrightarrow> v = Some x \<and> Q x"
  by (auto simp: only_if_def split: option.splits)

lemma or_else_Some: "or_else a b = Some x \<longleftrightarrow> a = Some x \<or> a = None \<and> b = Some x"
  by (auto simp: or_else_def split: option.splits)

lemma findPaneById_in: "tree_ok t \<Longrightarrow> findPaneById t i = Some p \<Longrightarrow> p \<in> set (panes t)"
  using findPaneById_iff by (cases i) (auto simp: findPaneById_def)

text \<open>The pane a target is placed in is a pane of the tree, and one that can host it.\<close>

lemma resolvePlacement_in:
  assumes "resolvePlacementPane l target pl explorer = Some p" "tree_ok (lo_tree l)"
  shows "p \<in> set (panes (lo_tree l))" "supports_target explorer target p"
  using assms(1) findPaneById_in[OF assms(2)]
  by (auto simp: resolvePlacementPane_def or_else_Some only_if_Some collectAllPanes_panes Let_def
      split: placement.splits dest!: find_SomeD)

lemma insertNewTab_ok:
  assumes "layout_ok ex l" "wf_target target" "createTabId = Inr i" "wf_id i"
  shows "ok_pair ex (insertNewTabIntoPane env l target pl explorer createTabId st focus)"
proof (cases "resolvePlacementPane l target pl explorer")
  case (Some p)
  note ok = layout_okD[OF assms(1)]
  have p: "p \<in> set (panes (lo_tree l))" using resolvePlacement_in[OF Some ok(1)] by simp
  let ?g = "if focus then Some (sp_id p) else lo_focus l"
  have g: "focus_ok (lo_tree l) ?g" using focus_ok_pane[OF p] ok(2) by simp
  show ?thesis
  proof (cases "isSoleNewTabPane p \<and> target \<noteq> Tab_new")
    case True
    have "hd (sp_tabs p) \<in> set (sp_tabs p)" using tree_okD(4)[OF ok(1) p] by simp
    then have "hd (sp_tabs p) \<in> set (collectAllTabs (lo_tree l))" using p by (auto simp: collectAllTabs_panes)
    then obtain q where q: "find (has_tab (wt_id (hd (sp_tabs p)))) (panes (lo_tree l)) = Some q"
      by (rule collect_has_tab)
    show ?thesis
      by (rule replaceTab_layout_ok[OF assms(1) q assms(4,2) g, of st])
        (simp add: insertNewTabIntoPane_def Some assms(3) True)
  next
    case False
    have w: "wf_tab \<lparr>wt_id = i, wt_target = target, wt_createdAt = le_now env, wt_state = st\<rparr>"
      using assms(2,4) by (simp add: wf_tab_def)
    let ?foc = "if focus then Some i else or_else (sp_focusedTabId p) (Some i)"
    show ?thesis
      by (rule insert_layout_ok[OF ok(1,3) p refl w g, of ?foc "lo_parents l"])
        (use False in \<open>auto simp: insertNewTabIntoPane_def Some assms(3)\<close>)
  qed
qed (simp add: insertNewTabIntoPane_def)

lemma findExisting_in:
  assumes "findExistingTabForTarget t target = Some tab"
  shows "tab \<in> set (collectAllTabs t)" "target \<noteq> Tab_new"
    "panelResourceKey (wt_target tab) = panelResourceKey target"
  using assms by (auto simp: findExistingTabForTarget_def split: if_splits dest!: find_SomeD)

text \<open>What the choice of a pane to dissolve depends on.\<close>

definition shape :: "split_pane \<Rightarrow> string \<times> bool \<times> string list" where
  "shape p = (sp_id p, sp_hidden p, map wt_id (sp_tabs p))"

lemma find_map: "find Q (map f xs) = map_option f (find (\<lambda>x. Q (f x)) xs)"
  by (induction xs) auto

lemma visible_shape:
  "filter (\<lambda>(j, h, ids). \<not> h \<and> Some j \<noteq> ex) (map shape ps) = map shape (visible_ordinary ex ps)"
  by (simp add: visible_ordinary_def filter_map comp_def shape_def)

lemma lone_tab_shape:
  assumes "map shape (panes (lo_tree m)) = map shape (panes (lo_tree l))" "tree_ok (lo_tree l)" "lone_tab ex m i"
  shows "lone_tab ex l i"
proof -
  have find: "map_option shape (findPaneContainingTab t i) = find (\<lambda>(j, h, ids). i \<in> set ids) (map shape (panes t))" for t
    by (simp add: find_map find_has_tab shape_def has_tab_iff[abs_def])
  obtain q where q: "findPaneContainingTab (lo_tree m) i = Some q" "visible_ordinary ex (panes (lo_tree m)) = [q]"
    "map wt_id (sp_tabs q) = [i]"
    using assms(3) by (auto simp: lone_tab_def split: option.splits)
  have "map_option shape (findPaneContainingTab (lo_tree l) i) = Some (shape q)"
    using find[of "lo_tree m"] find[of "lo_tree l"] q(1) assms(1) by simp
  then obtain p where p: "findPaneContainingTab (lo_tree l) i = Some p" "shape p = shape q" by auto
  have "map shape (visible_ordinary ex (panes (lo_tree l))) = [shape q]"
    using visible_shape[of ex "panes (lo_tree l)"] visible_shape[of ex "panes (lo_tree m)"] assms(1) q(2) by simp
  then obtain r where r: "visible_ordinary ex (panes (lo_tree l)) = [r]" "shape r = shape p"
    using p(2) by (auto simp: map_eq_Cons_conv)
  have "r \<in> set (visible_ordinary ex (panes (lo_tree l)))" using r(1) by simp
  then have "r \<in> set (panes (lo_tree l))" by (simp add: visible_ordinary_def)
  moreover have "p \<in> set (panes (lo_tree l))" using findPaneContainingTab_Some[OF p(1)] by simp
  moreover have "sp_id r = sp_id p" using r(2) by (simp add: shape_def)
  ultimately have "r = p" using tree_okD(2)[OF assms(2)] by (metis distinct_map inj_onD)
  then show ?thesis using p r(1) q(3) by (simp add: lone_tab_def shape_def)
qed

lemma retabbed_ids: "map wt_id (map (retabbed i i target st) ts) = map wt_id ts"
  by (auto simp: retabbed_def)

lemma replaced_same_shape:
  assumes "wf_pane p" "wf_id i" "wf_target target"
  shows "shape (replaced_pane i i target st p) = shape p"
proof -
  have "list_all wf_tab (map (retabbed i i target st) (sp_tabs p))"
    using wf_paneD(2)[OF assms(1)] assms(2,3) by (auto simp: list_all_iff retabbed_def wf_tab_def)
  then have "sp_tabs (replaced_pane i i target st p) = map (retabbed i i target st) (sp_tabs p)"
    using wf_paneD(3)[OF assms(1)] retabbed_ids[of i target st "sp_tabs p"]
    by (simp add: replaced_pane_def normalizeWorkspaceTabs_id del: map_map)
  then show ?thesis
    using retabbed_ids[of i target st "sp_tabs p"] by (simp add: shape_def replaced_pane_def del: map_map)
qed

lemma updateExisting_ok:
  assumes "layout_ok ex l" "tab \<in> set (collectAllTabs (lo_tree l))" "wf_target target"
  obtains m where "updateExistingTabTarget l tab target = Inr m" "layout_ok ex m"
    "map shape (panes (lo_tree m)) = map shape (panes (lo_tree l))"
proof (cases "workspaceTabTargetsEqual (wt_target tab) target")
  case False
  note ok = layout_okD[OF assms(1)]
  have w: "wf_id (wt_id tab)" using collect_wf[OF ok(1) assms(2)] by (simp add: wf_tab_def)
  obtain p where p: "find (has_tab (wt_id tab)) (panes (lo_tree l)) = Some p"
    using collect_has_tab[OF assms(2)] .
  obtain t' where t': "replaceTabInTree (lo_tree l) (wt_id tab) (wt_id tab) target (wt_state tab) = Inr t'"
    "panes t' = upd (sp_id p) (replaced_pane (wt_id tab) (wt_id tab) target (wt_state tab)) (panes (lo_tree l))"
    "\<And>ps. layout_ok ex (mk_layout t' (lo_focus l) ps)"
    by (rule replaceTab_layout_ok[OF assms(1) p w assms(3) ok(2)]) blast
  have "mk_layout t' (lo_focus l) (lo_parents l) = withNormalizedParentTabMap (l\<lparr>lo_tree := t'\<rparr>)"
    by (cases l) (simp add: mk_layout_def)
  moreover have "map shape (panes t') = map shape (panes (lo_tree l))"
    using replaced_same_shape[OF tree_okD(3)[OF ok(1)] w assms(3)] by (simp add: t'(2) upd_def)
  ultimately show ?thesis
    using that[of "withNormalizedParentTabMap (l\<lparr>lo_tree := t'\<rparr>)"] t'(1) t'(3)[of "lo_parents l"] False
    by (simp add: updateExistingTabTarget_def withNormalizedParentTabMap_def)
qed (use that assms(1) in \<open>simp add: updateExistingTabTarget_def\<close>)

lemma revealExisting_ok:
  assumes "layout_ok ex l" "env_ok env" "\<And>j. pl = In_pane j \<Longrightarrow> \<not> lone_tab ex l i"
  shows "\<exists>m. revealExistingTab env l i pl = Inr m \<and> layout_ok ex m"
proof -
  have focus: "\<exists>m. ebind (focusTabInLayout l i) (\<lambda>r. Inr (case r of Some x \<Rightarrow> x | None \<Rightarrow> l)) = Inr m \<and> layout_ok ex m"
    using or_layout_ok[OF focusTabInLayout_ok[OF assms(1)] assms(1)] by (simp add: or_layout_def)
  show ?thesis
  proof (cases "\<exists>j. pl = In_pane j \<and> pane_id_of (findPaneContainingTab (lo_tree l) i) \<noteq> Some j")
    case True
    then obtain j where j: "pl = In_pane j" "pane_id_of (findPaneContainingTab (lo_tree l) i) \<noteq> Some j" by blast
    have "ok_result ex (moveTabToPaneInLayout env l i j None)"
      using moveTabToPane_ok[OF assms(1,2)] assms(3)[OF j(1)] by blast
    then show ?thesis
      using j focus
      by (cases "moveTabToPaneInLayout env l i j None"; cases "projr (moveTabToPaneInLayout env l i j None)")
        (simp_all add: revealExistingTab_def Let_def)
  next
    case False
    then show ?thesis using focus by (cases pl) (simp_all add: revealExistingTab_def Let_def)
  qed
qed

lemma reveal_existing_ok:
  assumes "layout_ok ex l" "env_ok env" "tab \<in> set (collectAllTabs (lo_tree l))" "wf_target target"
    "\<And>j. pl = In_pane j \<Longrightarrow> \<not> lone_tab ex l (wt_id tab)"
  shows "ok_pair ex (reveal_existing env l tab target pl)"
proof -
  obtain m where m: "updateExistingTabTarget l tab target = Inr m" "layout_ok ex m"
    "map shape (panes (lo_tree m)) = map shape (panes (lo_tree l))"
    using updateExisting_ok[OF assms(1,3,4)] .
  have "\<not> lone_tab ex m (wt_id tab)" if "pl = In_pane j" for j
    using lone_tab_shape[OF m(3) layout_okD(1)[OF assms(1)]] assms(5)[OF that] by blast
  then obtain r where "revealExistingTab env m (wt_id tab) pl = Inr r" "layout_ok ex r"
    using revealExisting_ok[OF m(2) assms(2)] by blast
  then show ?thesis using m(1) by (simp add: reveal_existing_def)
qed

text \<open>An explicit placement may not take the last tab off the last ordinary pane on screen.\<close>

definition keeps_a_pane :: "string option \<Rightarrow> layout \<Rightarrow> tab_target \<Rightarrow> placement \<Rightarrow> bool" where
  "keeps_a_pane ex l target pl \<longleftrightarrow>
     (case (pl, findExistingTabForTarget (lo_tree l) target) of
        (In_pane j, Some tab) \<Rightarrow> \<not> lone_tab ex l (wt_id tab)
      | _ \<Rightarrow> True)"

lemma revealTarget_ok:
  assumes "layout_ok ex l" "env_ok env" "wf_target target" "target \<noteq> Tab_new" "keeps_a_pane ex l target pl"
  shows "ok_pair ex (revealTargetInLayout env l target pl explorer st)"
    "ok_pair ex (openTabInLayoutFocused env l target pl explorer)"
    "ok_pair ex (openTabInLayoutBackground env l target pl explorer)"
proof -
  obtain i where i: "buildDeterministicWorkspaceTabId target = Inr i" "wf_id i"
    using deterministic_id_normal[OF assms(3,4)] by blast
  have new: "ok_pair ex (insertNewTabIntoPane env l target pl explorer (Inr i) s f)" for s f
    by (rule insertNewTab_ok[OF assms(1,3) refl i(2)])
  have old: "ok_pair ex (reveal_existing env l tab target pl)"
    if tab: "findExistingTabForTarget (lo_tree l) target = Some tab" for tab
    by (rule reveal_existing_ok[OF assms(1,2) findExisting_in(1)[OF tab] assms(3)])
      (use assms(5) tab in \<open>simp add: keeps_a_pane_def\<close>)
  show "ok_pair ex (revealTargetInLayout env l target pl explorer st)"
    "ok_pair ex (openTabInLayoutFocused env l target pl explorer)"
    using new old
    by (cases "findExistingTabForTarget (lo_tree l) target";
        simp add: revealTargetInLayout_def openTabInLayoutFocused_def createTabInLayout_def i(1))+
  show "ok_pair ex (openTabInLayoutBackground env l target pl explorer)"
  proof (cases "findExistingTabForTarget (lo_tree l) target")
    case (Some tab)
    show ?thesis
      by (rule updateExisting_ok[OF assms(1) findExisting_in(1)[OF Some] assms(3)])
        (simp add: openTabInLayoutBackground_def Some)
  qed (use new in \<open>simp add: openTabInLayoutBackground_def i(1)\<close>)
qed

end
