(* ===== verification/Layout_Steps.thy ===== *)
theory Layout_Steps
  imports Layout_Opening
begin

text \<open>
  The operations that change what a tab shows, and every operation on layouts as one step of a
  workspace. A workspace starts with the main pane and the hidden Explorer; the steps never throw
  and keep the invariant, so every layout that is reached satisfies it.
\<close>

section \<open>Changing what a tab shows\<close>

lemma yield_to_ok:
  assumes "layout_ok ex l" "env_ok env" "\<not> closes_last_pane ex l i"
  shows "ok_pair ex (yield_to env l i keeper)"
proof -
  obtain m where m: "or_layout (closeTabInLayout env l i None) l = Inr m" "layout_ok ex m"
    using or_layout_ok[OF closeTabInLayout_ok[OF assms, of None] assms(1)] by auto
  obtain r where "or_layout (focusTabInLayout m keeper) m = Inr r" "layout_ok ex r"
    using or_layout_ok[OF focusTabInLayout_ok[OF m(2)] m(2)] by blast
  then show ?thesis using m(1) by (simp add: yield_to_def)
qed

lemma containing_find: "findPaneContainingTab t i \<noteq> None \<Longrightarrow> \<exists>p. find (has_tab i) (panes t) = Some p"
  by (simp add: find_has_tab)

lemma open_tab_id_wf:
  assumes "find (has_tab i) (panes t) = Some p" "tree_ok t"
  shows "wf_id i"
  using find_SomeD[OF assms(1)] wf_paneD(2)[OF tree_okD(3)[OF assms(2)], of p]
  by (auto simp: has_tab_iff list_all_iff wf_tab_def)

lemma replace_step_ok:
  assumes "layout_ok ex l" "find (has_tab i) (panes (lo_tree l)) = Some p" "wf_id j" "wf_target target"
  shows "ok_pair ex (ebind (replaceTabInTree (lo_tree l) i j target st) (\<lambda>t.
           Inr (Some (mk_layout t (lo_focus l) ps, j))))"
  by (rule replaceTab_layout_ok[OF assms layout_okD(2)[OF assms(1)], of st]) simp

lemma retargetTab_ok:
  assumes "layout_ok ex l" "env_ok env" "wf_target target" "target \<noteq> Tab_new" "\<not> closes_last_pane ex l i"
  shows "ok_pair ex (retargetTabInLayout env l i target)"
proof (cases "findPaneContainingTab (lo_tree l) i")
  case (Some q)
  obtain p where p: "find (has_tab i) (panes (lo_tree l)) = Some p" using containing_find Some by blast
  have i: "wf_id i" using open_tab_id_wf[OF p layout_okD(1)[OF assms(1)]] .
  obtain j where j: "buildDeterministicWorkspaceTabId target = Inr j" "wf_id j"
    using deterministic_id_normal[OF assms(3,4)] by blast
  show ?thesis
    using Some j(1) assms(1) yield_to_ok[OF assms(1,2,5)]
      replace_step_ok[OF assms(1) p i assms(3), of None "lo_parents l"]
      replace_step_ok[OF assms(1) p j(2) assms(3), of None "lo_parents l"]
    by (simp add: retargetTabInLayout_def Let_def split: option.splits)
qed (simp add: retargetTabInLayout_def)

lemma replaceTabTarget_ok:
  assumes "layout_ok ex l" "wf_target target" "wf_id fresh"
  shows "ok_pair ex (replaceTabTargetInLayout env l i target fresh st)"
proof (cases "findPaneContainingTab (lo_tree l) i")
  case (Some q)
  obtain p where p: "find (has_tab i) (panes (lo_tree l)) = Some p" using containing_find Some by blast
  have i: "wf_id i" using open_tab_id_wf[OF p layout_okD(1)[OF assms(1)]] .
  note r = replace_step_ok[OF assms(1) p _ assms(2)]
  have d: "\<exists>j. buildDeterministicWorkspaceTabId target = Inr j \<and> wf_id j" if "tab_kind target = ''draft''"
    using deterministic_id_normal[OF assms(2)] that by (cases "target = Tab_new") (auto simp: tab_kind_def)
  show ?thesis
  proof (cases "tab_kind target = ''draft''")
    case True
    then obtain j where "buildDeterministicWorkspaceTabId target = Inr j" "wf_id j" using d by blast
    then show ?thesis
      using Some True r[OF i] r[of j] assms(1)
      by (simp add: replaceTabTargetInLayout_def Let_def split: option.splits)
  next
    case False
    then show ?thesis
      using Some r[OF i] r[OF assms(3)] assms(1)
      by (simp add: replaceTabTargetInLayout_def Let_def split: option.splits)
  qed
qed (simp add: replaceTabTargetInLayout_def)

lemma convertDraft_ok:
  assumes "layout_ok ex l" "env_ok env" "wf_target (Tab_agent agentId)" "\<not> closes_last_pane ex l i"
  shows "ok_pair ex (convertDraftToAgentInLayout env l i agentId)"
proof (cases "tab_by_id (lo_tree l) i")
  case (Some tab)
  then obtain p where p: "find (has_tab i) (panes (lo_tree l)) = Some p"
    using tab_by_id_Some[OF Some] collect_has_tab by blast
  obtain j where j: "buildDeterministicWorkspaceTabId (Tab_agent agentId) = Inr j" "wf_id j"
    using deterministic_id_normal[OF assms(3)] by auto
  show ?thesis
    using Some j(1) yield_to_ok[OF assms(1,2,4)] replace_step_ok[OF assms(1) p j(2) assms(3), of None "lo_parents l"]
    by (simp add: convertDraftToAgentInLayout_def del: buildDeterministicWorkspaceTabId.simps)
qed (simp add: convertDraftToAgentInLayout_def)

section \<open>The steps of a workspace\<close>

datatype layout_op =
    Focus_tab string
  | Select_tab string string
  | Focus_pane string
  | Set_hidden string bool
  | Close_tab string "string option"
  | Close_pane string
  | Move_tab string string
  | Split_tab string string split_position
  | Split_empty string split_position
  | Split_root_right
  | Resize string "js_real list"
  | Reorder string "string list"
  | Reorder_focused "string list"
  | Create_tab tab_target placement string "json option"
  | Reveal tab_target placement "json option"
  | Open_focused tab_target placement
  | Open_background tab_target placement
  | Retarget string tab_target
  | Replace_target string tab_target string "json option"
  | Set_state string "json option"
  | Convert_draft string string

abbreviation or_pair :: "layout_error + (layout \<times> string) option \<Rightarrow> layout \<Rightarrow> layout_error + layout" where
  "or_pair r l \<equiv> ebind r (\<lambda>x. Inr (case x of Some (m, i) \<Rightarrow> m | None \<Rightarrow> l))"

fun apply_op :: "layout_env \<Rightarrow> string option \<Rightarrow> nat \<Rightarrow> layout_op \<Rightarrow> layout \<Rightarrow> layout_error + layout" where
  "apply_op env ex depth (Focus_tab i) l = or_layout (focusTabInLayout l i) l"
| "apply_op env ex depth (Select_tab p i) l = or_layout (selectTabInPaneInLayout l p i) l"
| "apply_op env ex depth (Focus_pane p) l = or_layout (focusPaneInLayout l p) l"
| "apply_op env ex depth (Set_hidden p h) l = or_layout (setPaneHiddenInLayout l p h) l"
| "apply_op env ex depth (Close_tab i keep) l = or_layout (closeTabInLayout env l i keep) l"
| "apply_op env ex depth (Close_pane p) l = or_layout (closePaneInLayout env l p ex) l"
| "apply_op env ex depth (Move_tab i p) l = or_layout (moveTabToPaneInLayout env l i p ex) l"
| "apply_op env ex depth (Split_tab i p pos) l = or_pair (splitPaneInLayout env l i p pos depth) l"
| "apply_op env ex depth (Split_empty p pos) l = or_pair (splitPaneEmptyInLayout env l p pos depth) l"
| "apply_op env ex depth Split_root_right l = or_pair (Inr (splitWorkspaceRootRightInLayout env l depth)) l"
| "apply_op env ex depth (Resize g sizes) l = resizeSplitInLayout l g sizes"
| "apply_op env ex depth (Reorder p ids) l = or_layout (reorderPaneTabsInLayout l p ids) l"
| "apply_op env ex depth (Reorder_focused ids) l = or_layout (reorderFocusedPaneTabsInLayout l ids) l"
| "apply_op env ex depth (Create_tab target pl i st) l = or_pair (createTabInLayout env l target pl ex (Inr i) st) l"
| "apply_op env ex depth (Reveal target pl st) l = or_pair (revealTargetInLayout env l target pl ex st) l"
| "apply_op env ex depth (Open_focused target pl) l = or_pair (openTabInLayoutFocused env l target pl ex) l"
| "apply_op env ex depth (Open_background target pl) l = or_pair (openTabInLayoutBackground env l target pl ex) l"
| "apply_op env ex depth (Retarget i target) l = or_pair (retargetTabInLayout env l i target) l"
| "apply_op env ex depth (Replace_target i target fresh st) l =
     or_pair (replaceTabTargetInLayout env l i target fresh st) l"
| "apply_op env ex depth (Set_state i st) l = or_layout (setTabStateInLayout l i st) l"
| "apply_op env ex depth (Convert_draft i agentId) l = or_pair (convertDraftToAgentInLayout env l i agentId) l"

text \<open>
  What the callers establish: targets and ids are normal, only the Explorer is hidden and it is
  not closed, new ids are new. And what they do not: the last tab of the last ordinary pane on
  screen is not closed, or moved out by an explicit placement.
\<close>

fun op_ok :: "layout_env \<Rightarrow> string option \<Rightarrow> layout_op \<Rightarrow> layout \<Rightarrow> bool" where
  "op_ok env ex (Set_hidden p h) l \<longleftrightarrow> \<not> h \<or> Some p = ex"
| "op_ok env ex (Close_tab i keep) l \<longleftrightarrow>
     \<not> closes_last_pane ex l i \<and> (keep = None \<or> keep = pane_id_of (findPaneContainingTab (lo_tree l) i))"
| "op_ok env ex (Close_pane p) l \<longleftrightarrow> Some p \<noteq> ex"
| "op_ok env ex (Split_tab i p pos) l \<longleftrightarrow> fresh_ids ex env l"
| "op_ok env ex (Split_empty p pos) l \<longleftrightarrow> fresh_ids ex env l"
| "op_ok env ex Split_root_right l \<longleftrightarrow> fresh_ids ex env l"
| "op_ok env ex (Create_tab target pl i st) l \<longleftrightarrow> wf_target target \<and> wf_id i"
| "op_ok env ex (Reveal target pl st) l \<longleftrightarrow> wf_target target \<and> target \<noteq> Tab_new \<and> keeps_a_pane ex l target pl"
| "op_ok env ex (Open_focused target pl) l \<longleftrightarrow> wf_target target \<and> target \<noteq> Tab_new \<and> keeps_a_pane ex l target pl"
| "op_ok env ex (Open_background target pl) l \<longleftrightarrow> wf_target target \<and> target \<noteq> Tab_new \<and> keeps_a_pane ex l target pl"
| "op_ok env ex (Retarget i target) l \<longleftrightarrow> wf_target target \<and> target \<noteq> Tab_new \<and> \<not> closes_last_pane ex l i"
| "op_ok env ex (Replace_target i target fresh st) l \<longleftrightarrow> wf_target target \<and> wf_id fresh"
| "op_ok env ex (Convert_draft i agentId) l \<longleftrightarrow> wf_target (Tab_agent agentId) \<and> \<not> closes_last_pane ex l i"
| "op_ok env ex _ l \<longleftrightarrow> True"

lemma or_pair_ok: "ok_pair ex r \<Longrightarrow> layout_ok ex l \<Longrightarrow> \<exists>m. or_pair r l = Inr m \<and> layout_ok ex m"
  by (auto simp: ok_pair_def split: sum.splits option.splits)

lemma op_keeps_layout:
  assumes "layout_ok ex l" "env_ok env" "op_ok env ex op l"
  shows "\<exists>m. apply_op env ex depth op l = Inr m \<and> layout_ok ex m"
proof (cases op)
  case (Resize g sizes)
  then show ?thesis using resizeSplit_ok[OF assms(1), of g sizes] by auto
next
  case Split_root_right
  then have "fresh_ids ex env l" using assms(3) by simp
  from or_pair_ok[OF splitRootRight_ok[OF assms(1,2) this] assms(1)] show ?thesis
    unfolding Split_root_right apply_op.simps by blast
next
  case (Create_tab target pl i st)
  have "ok_pair ex (createTabInLayout env l target pl ex (Inr i) st)"
    unfolding createTabInLayout_def
    by (rule insertNewTab_ok[OF assms(1) _ refl]) (use assms(3) Create_tab in simp_all)
  from or_pair_ok[OF this assms(1)] show ?thesis by (simp add: Create_tab)
qed (use assms in \<open>auto intro!: or_layout_ok or_pair_ok focusTabInLayout_ok selectTabInPane_ok focusPaneInLayout_ok
       setPaneHidden_ok closeTabInLayout_ok closePaneInLayout_ok moveTabToPane_ok splitPane_ok splitPaneEmpty_ok
       splitRootRight_ok reorderPaneTabs_ok reorderFocused_ok revealTarget_ok retargetTab_ok replaceTabTarget_ok
       setTabState_ok convertDraft_ok\<close>)

section \<open>The first layout\<close>

lemma default_explorer_tabs:
  "createPaneNode EXPLORER_SIDEBAR_PANE_ID (createDefaultExplorerSidebarTabs env) None True =
     Pane (normalizePaneAfterTabChange \<lparr>sp_id = EXPLORER_SIDEBAR_PANE_ID, sp_tabs = createDefaultExplorerSidebarTabs env,
       sp_tabIds = [], sp_focusedTabId = None, sp_hidden = True\<rparr>)"
  by (rule createPaneNode_pane)

lemma explorer_pane_ids:
  "wf_id EXPLORER_SIDEBAR_PANE_ID" "wf_id DEFAULT_PANE_ID" "DEFAULT_PANE_ID \<noteq> EXPLORER_SIDEBAR_PANE_ID"
  by (simp_all add: wf_id_iff trimmed_def js_space_def EXPLORER_SIDEBAR_PANE_ID_def DEFAULT_PANE_ID_def)

lemma explorer_tabs_wf:
  "list_all wf_tab (createDefaultExplorerSidebarTabs env)" "createDefaultExplorerSidebarTabs env \<noteq> []"
  using wf_id_literal
  by (simp_all add: createDefaultExplorerSidebarTabs_def explorer_tab_def wf_tab_def wf_target_def)

lemma first_layout_ok:
  assumes "env_ok env"
  shows "layout_ok (Some EXPLORER_SIDEBAR_PANE_ID) (createWorkspaceLayoutWithExplorerSidebar env)"
proof -
  define e where "e = normalizePaneAfterTabChange \<lparr>sp_id = EXPLORER_SIDEBAR_PANE_ID,
    sp_tabs = createDefaultExplorerSidebarTabs env, sp_tabIds = [], sp_focusedTabId = None, sp_hidden = True\<rparr>"
  define m where "m = fresh_pane env DEFAULT_PANE_ID False"
  define t where "t = lo_tree (createWorkspaceLayoutWithExplorerSidebar env)"
  have t: "t = createGroupNode ''workspace-root'' Horizontal [Pane m, Pane e] [78 / 100, 22 / 100]"
    by (simp add: t_def createWorkspaceLayoutWithExplorerSidebar_def createPaneNode_fresh[OF assms]
        default_explorer_tabs m_def e_def)
  have w: "wf_pane m" "wf_pane e" "sp_tabs e \<noteq> []"
    using assms explorer_pane_ids explorer_tabs_wf
    by (simp_all add: m_def e_def fresh_pane_wf normalizePane_wf normalizeWorkspaceTabs_Nil)
  have "wf_id ''workspace-root''" by (simp add: wf_id_iff trimmed_def)
  then have "wf_node t" unfolding t by (rule createGroupNode_wf) (use w in auto)
  moreover have p: "panes t = [m, e]" by (simp add: t)
  moreover have "sp_id m = DEFAULT_PANE_ID" "sp_id e = EXPLORER_SIDEBAR_PANE_ID" "\<not> sp_hidden m" "sp_tabs m \<noteq> []"
    by (simp_all add: m_def e_def fresh_pane_wf)
  ultimately have "layout_ok (Some EXPLORER_SIDEBAR_PANE_ID)
      \<lparr>lo_tree = t, lo_focus = Some DEFAULT_PANE_ID, lo_parents = None\<rparr>"
    using explorer_pane_ids(3) w(3)
    by (simp add: layout_ok_def focus_ok_def parents_ok_def tree_ok_def pane_ids_def visible_ordinary_def)
  then show ?thesis by (simp add: t_def createWorkspaceLayoutWithExplorerSidebar_def)
qed

section \<open>Reachable layouts\<close>

text \<open>Every operation gets ids and a clock of its own.\<close>

inductive reachable :: "layout_env \<Rightarrow> nat \<Rightarrow> layout \<Rightarrow> bool" for env0 depth where
  first: "reachable env0 depth (createWorkspaceLayoutWithExplorerSidebar env0)"
| step: "reachable env0 depth l \<Longrightarrow> env_ok env \<Longrightarrow>
    op_ok env (Some EXPLORER_SIDEBAR_PANE_ID) op l \<Longrightarrow>
    apply_op env (Some EXPLORER_SIDEBAR_PANE_ID) depth op l = Inr m \<Longrightarrow> reachable env0 depth m"

lemma reachable_ok: "reachable env0 depth l \<Longrightarrow> env_ok env0 \<Longrightarrow> layout_ok (Some EXPLORER_SIDEBAR_PANE_ID) l"
proof (induction rule: reachable.induct)
  case first
  then show ?case by (rule first_layout_ok)
next
  case (step l env op m)
  then show ?case using op_keeps_layout[OF step.IH[OF step.prems] step.hyps(2,3), of depth] by auto
qed


definition example_env :: layout_env where
  "example_env = \<lparr>le_now = Fin 0, le_messageId = (\<lambda>p. p), le_paneId = ''pane_1'', le_groupId = ''group_1''\<rparr>"


end
