(* ===== verification/Layout_Content.thy ===== *)
theory Layout_Content
  imports Layout_Steps
begin

text \<open>
  What happens to the tabs: rearranging a workspace keeps them all, closing a tab takes away that
  tab and no other. New tabs are placeholders, they come and go with the panes.
\<close>

section \<open>The content of a list of panes\<close>

definition content :: "split_pane list \<Rightarrow> workspace_tab multiset" where
  "content ps = filter_mset (\<lambda>t. wt_target t \<noteq> Tab_new) (mset (concat (map sp_tabs ps)))"

lemma content_simps [simp]:
  "content [] = {#}" "content (p # ps) = filter_mset (\<lambda>t. wt_target t \<noteq> Tab_new) (mset (sp_tabs p)) + content ps"
  "content (ps @ qs) = content ps + content qs"
  by (simp_all add: content_def)

definition tab_content :: "workspace_tab \<Rightarrow> workspace_tab multiset" where
  "tab_content t = (if wt_target t = Tab_new then {#} else {#t#})"

lemma content_same_tabs: "map sp_tabs ps = map sp_tabs qs \<Longrightarrow> content ps = content qs"
  by (simp add: content_def)

lemma content_upd:
  assumes "distinct (map sp_id ps)" "p \<in> set ps" "sp_id p = i"
  shows "content (upd i f ps) + content [p] = content ps + content [f p]"
proof -
  obtain xs ys where ps: "ps = xs @ p # ys" using assms(2) by (meson split_list)
  then have "upd i f ps = xs @ f p # ys" using upd_split[of xs p ys f] assms(1,3) by simp
  then show ?thesis by (simp add: ps)
qed

lemma content_remove:
  assumes "distinct (map sp_id ps)" "p \<in> set ps" "sp_id p = i"
  shows "content (filter (\<lambda>r. sp_id r \<noteq> i) ps) + content [p] = content ps"
proof -
  obtain xs ys where ps: "ps = xs @ p # ys" using assms(2) by (meson split_list)
  then have "filter (\<lambda>r. sp_id r \<noteq> i) ps = xs @ ys" using filter_split[of xs p ys] assms(1,3) by simp
  then show ?thesis by (simp add: ps)
qed

lemma content_fresh [simp]: "content [fresh_pane env i h] = {#}" "\<forall>t \<in> set (sp_tabs (fresh_pane env i h)). wt_target t = Tab_new"
  by (simp_all add: fresh_pane_def)

text \<open>A list of tabs with distinct ids loses one tab when one id is filtered out.\<close>

lemma mset_filter_id:
  assumes "distinct (map wt_id ts)" "find (\<lambda>t. wt_id t = i) ts = Some t"
  shows "mset (filter (\<lambda>t. wt_id t \<noteq> i) ts) + {#t#} = mset ts"
  using assms
proof (induction ts)
  case (Cons x xs)
  show ?case
  proof (cases "wt_id x = i")
    case True
    then have "filter (\<lambda>t. wt_id t \<noteq> i) xs = xs" using Cons.prems(1) by (auto simp: filter_id_conv) (metis imageI)
    then show ?thesis using True Cons.prems(2) by simp
  qed (use Cons in simp)
qed simp

lemma content_closed:
  assumes "wf_pane p" "find (\<lambda>t. wt_id t = i) (sp_tabs p) = Some t"
  shows "content [closed_pane i p] + tab_content t = content [p]"
proof -
  have "filter_mset (\<lambda>t. wt_target t \<noteq> Tab_new) (mset (filter (\<lambda>t. wt_id t \<noteq> i) (sp_tabs p)) + {#t#})
      = filter_mset (\<lambda>t. wt_target t \<noteq> Tab_new) (mset (sp_tabs p))"
    using mset_filter_id[OF wf_paneD(3)[OF assms(1)] assms(2)] by simp
  then show ?thesis
    by (cases "wt_target t = Tab_new") (simp_all add: closed_pane_simps[OF assms(1)] tab_content_def)
qed

text \<open>Detaching a tab takes it, and nothing else, from the content.\<close>

lemma content_detach:
  assumes "tree_ok t" "find (has_tab i) (panes t) = Some p" "find (\<lambda>t. wt_id t = i) (sp_tabs p) = Some tab"
  shows "content (detach_panes env i pr p (panes t)) + tab_content tab = content (panes t)"
proof -
  note d = tree_okD(2)[OF assms(1)]
  have p: "p \<in> set (panes t)" using find_SomeD[OF assms(2)] by simp
  have c: "content [closed_pane i p] + tab_content tab = content [p]"
    using content_closed[OF tree_okD(3)[OF assms(1) p] assms(3)] .
  have u: "content (upd (sp_id p) (\<lambda>_. q) (panes t)) + tab_content tab = content (panes t)"
    if q: "content [q] + tab_content tab = content [p]" for q
  proof -
    have "content (upd (sp_id p) (\<lambda>_. q) (panes t)) + tab_content tab + content [q]
        = content (upd (sp_id p) (\<lambda>_. q) (panes t)) + content [p]"
      using q by (simp add: ac_simps)
    also have "\<dots> = content (panes t) + content [q]" by (rule content_upd[OF d p refl])
    finally show ?thesis by simp
  qed
  show ?thesis
  proof (cases "sp_tabs (closed_pane i p) = []")
    case True
    then have e: "content [p] = tab_content tab" using c by simp
    then have "content (upd (sp_id p) (\<lambda>_. fresh_pane env (sp_id p) (sp_hidden p)) (panes t)) + tab_content tab = content (panes t)"
      using u[of "fresh_pane env (sp_id p) (sp_hidden p)"] by (simp del: content_simps(2))
    moreover have "content (filter (\<lambda>r. sp_id r \<noteq> sp_id p) (panes t)) + tab_content tab = content (panes t)"
      using content_remove[OF d p refl] e by simp
    moreover have "content [fresh_pane env (sp_id p) False] + tab_content tab = content (panes t)" if "panes t = [p]"
      using e that by simp
    ultimately show ?thesis using True by (simp add: detach_panes_def Let_def)
  next
    case False
    then show ?thesis using u[OF c] by (simp add: detach_panes_def Let_def)
  qed
qed

section \<open>What each operation does to the content\<close>

definition layout_content :: "layout \<Rightarrow> workspace_tab multiset" where
  "layout_content l = content (panes (lo_tree l))"

lemma content_edit:
  assumes "tree_ok t" "panes t' = upd i f (panes t)"
    "\<And>p. p \<in> set (panes t) \<Longrightarrow> sp_id p = i \<Longrightarrow> content [f p] = content [p]"
  shows "content (panes t') = content (panes t)"
proof (cases "\<exists>p \<in> set (panes t). sp_id p = i")
  case True
  then obtain p where p: "p \<in> set (panes t)" "sp_id p = i" by blast
  then show ?thesis
    using content_upd[OF tree_okD(2)[OF assms(1)] p, of f] assms(2) assms(3)[OF p] by simp
next
  case False
  then have "upd i f (panes t) = panes t" unfolding upd_def by (intro map_idI) auto
  then show ?thesis using assms(2) by simp
qed

lemma focusTab_content:
  assumes "layout_ok ex l" "focusTabInLayout l i = Inr (Some m)"
  shows "layout_content m = layout_content l"
proof -
  note ok = layout_okD[OF assms(1)]
  obtain p where p: "findPaneContainingTab (lo_tree l) i = Some p"
    using assms(2) by (auto simp: focusTabInLayout_def split: option.splits)
  have pp: "p \<in> set (panes (lo_tree l))" using findPaneContainingTab_Some[OF p] by simp
  obtain t' where t': "focusTabInPane (lo_tree l) (sp_id p) i = Inr t'"
    "panes t' = upd (sp_id p) (focused_pane i) (panes (lo_tree l))"
    using focusTabInPane_ok[OF ok(1) pp refl] by metis
  have "lo_tree m = t'" using assms(2) p t'(1) by (auto simp: focusTabInLayout_def split: if_splits)
  then show ?thesis
    using content_edit[OF ok(1) t'(2)] focused_pane_tabs[OF tree_okD(3)[OF ok(1)]] by (simp add: layout_content_def)
qed

lemma selectTab_content:
  assumes "layout_ok ex l" "selectTabInPaneInLayout l i j = Inr (Some m)"
  shows "layout_content m = layout_content l"
proof -
  note ok = layout_okD[OF assms(1)]
  obtain p where p: "findPaneById (lo_tree l) (Some i) = Some p"
    using assms(2) by (auto simp: selectTabInPaneInLayout_def split: option.splits)
  then have pp: "p \<in> set (panes (lo_tree l))" "sp_id p = i" using findPaneById_iff[OF ok(1)] by auto
  obtain t' where t': "focusTabInPane (lo_tree l) i j = Inr t'"
    "panes t' = upd i (focused_pane j) (panes (lo_tree l))"
    using focusTabInPane_ok[OF ok(1) pp] by metis
  have "lo_tree m = t'" using assms(2) p t'(1) by (auto simp: selectTabInPaneInLayout_def split: if_splits)
  then show ?thesis
    using content_edit[OF ok(1) t'(2)] focused_pane_tabs[OF tree_okD(3)[OF ok(1)]] by (simp add: layout_content_def)
qed

lemma hidden_content:
  assumes "tree_ok t" "p \<in> set (panes t)" "sp_id p = i" "updatePaneInTree t i (\<lambda>q. q\<lparr>sp_hidden := h\<rparr>) = Inr t'"
  shows "content (panes t') = content (panes t)"
proof -
  have "panes t' = upd i (\<lambda>q. normalizePaneAfterTabChange (q\<lparr>sp_hidden := h\<rparr>)) (panes t)"
    by (rule hidden_update_ok[OF assms(1-3), of h]) (use assms(4) in simp)
  then show ?thesis
    using content_edit[OF assms(1)] wf_paneD(5)[OF tree_okD(3)[OF assms(1)]] by simp
qed

lemma focusPane_content:
  assumes "layout_ok ex l" "focusPaneInLayout l i = Inr (Some m)"
  shows "layout_content m = layout_content l"
proof -
  note ok = layout_okD[OF assms(1)]
  obtain p where p: "findPaneById (lo_tree l) (Some i) = Some p"
    using assms(2) by (auto simp: focusPaneInLayout_def split: option.splits)
  then have pp: "p \<in> set (panes (lo_tree l))" "sp_id p = i" using findPaneById_iff[OF ok(1)] by auto
  show ?thesis
    using assms(2) p hidden_content[OF ok(1) pp, of False]
    by (auto simp: focusPaneInLayout_def layout_content_def ebind_def split: if_splits sum.splits)
qed

lemma setHidden_content:
  assumes "layout_ok ex l" "setPaneHiddenInLayout l i h = Inr (Some m)"
  shows "layout_content m = layout_content l"
proof -
  note ok = layout_okD[OF assms(1)]
  obtain p where p: "findPaneById (lo_tree l) (Some i) = Some p"
    using assms(2) by (auto simp: setPaneHiddenInLayout_def split: option.splits)
  then have pp: "p \<in> set (panes (lo_tree l))" "sp_id p = i" using findPaneById_iff[OF ok(1)] by auto
  show ?thesis
    using assms(2) p hidden_content[OF ok(1) pp, of h]
    by (auto simp: setPaneHiddenInLayout_def layout_content_def ebind_def split: if_splits sum.splits)
qed

lemma reorder_content:
  assumes "layout_ok ex l" "reorderPaneTabsInLayout l i ids = Inr (Some m)"
  shows "layout_content m = layout_content l"
proof -
  note ok = layout_okD[OF assms(1)]
  obtain p where p: "findPaneById (lo_tree l) (Some i) = Some p"
    using assms(2) by (auto simp: reorderPaneTabsInLayout_def split: if_splits)
  obtain t' where t': "updatePaneInTree (lo_tree l) i (\<lambda>p. reorderTabsForPane p ids) = Inr t'"
    "panes t' = upd i (\<lambda>p. reorderTabsForPane p ids) (panes (lo_tree l))"
    by (rule reorder_update_ok[OF assms(1) p]) blast
  have "lo_tree m = t'" using assms(2) p t'(1) by (auto simp: reorderPaneTabsInLayout_def)
  then show ?thesis
    using content_edit[OF ok(1) t'(2)] reorderTabs_perm(1)[OF tree_okD(3)[OF ok(1)]] by (simp add: layout_content_def)
qed

lemma closePane_content:
  assumes "layout_ok ex l" "env_ok env" "p \<in> set (panes (lo_tree l))" "sp_id p = i"
    "closePaneInLayout env l i e = Inr (Some m)"
  shows "layout_content m + content [p] = layout_content l"
proof -
  note ok = layout_okD[OF assms(1)]
  obtain path where path: "findPanePathById (lo_tree l) i = Some path"
    using assms(5) by (auto simp: closePaneInLayout_def split: option.splits)
  obtain xs q ys where q: "focus_at (lo_tree l) path = Some (xs, Pane q, ys)" "sp_id q = i"
    "panes (lo_tree l) = xs @ q # ys"
    using findPanePath_at[OF path[unfolded findPanePathById_def]] by metis
  have "q = p" using q(2,3) assms(3,4) tree_okD(2)[OF ok(1)] by (metis distinct_map inj_onD in_set_conv_decomp)
  then obtain t' where t': "removePaneByPath env (lo_tree l) path = Inr t'"
    "panes t' = (if panes (lo_tree l) = [p] then [fresh_pane env i False]
                 else filter (\<lambda>r. sp_id r \<noteq> i) (panes (lo_tree l)))"
    using removePaneByPath_ok[OF ok(1) q(1) assms(2)] assms(4) by auto
  have "lo_tree m = t'"
    using assms(5) path t'(1) by (auto simp: closePaneInLayout_def Let_def ebind_def split: if_splits sum.splits)
  then show ?thesis
    using t'(2) content_remove[OF tree_okD(2)[OF ok(1)] assms(3,4)]
    by (auto simp: layout_content_def simp del: content_simps(2))
qed

section \<open>Moving, splitting, closing\<close>

lemma open_ids_apart:
  assumes "distinct (open_tab_ids t)" "panes t = xs @ p # ys"
  shows "set (map wt_id (sp_tabs p)) \<inter> set (map wt_id (concat (map sp_tabs (xs @ ys)))) = {}"
  using assms(1) by (simp add: open_tab_ids_panes assms(2)) blast

text \<open>Where the ids of tabs are distinct, a detached tab is in no other pane.\<close>

lemma detach_without:
  assumes "tree_ok t" "distinct (open_tab_ids t)" "find (has_tab i) (panes t) = Some p"
    "r \<in> set (detach_panes env i pr p (panes t))"
  shows "i \<notin> wt_id ` set (sp_tabs r) \<or> isSoleNewTabPane r"
proof -
  have p: "p \<in> set (panes t)" "has_tab i p" using find_SomeD[OF assms(3)] by auto
  have c: "i \<notin> wt_id ` set (sp_tabs (closed_pane i p))"
    by (auto simp: closed_pane_simps(4)[OF tree_okD(3)[OF assms(1) p(1)]])
  have f: "isSoleNewTabPane (fresh_pane env j h)" for j h by (simp add: isSoleNewTabPane_def fresh_pane_def)
  have o: "i \<notin> wt_id ` set (sp_tabs q)" if q: "q \<in> set (panes t)" "sp_id q \<noteq> sp_id p" for q
  proof -
    obtain xs ys where ps: "panes t = xs @ p # ys" using p(1) by (meson split_list)
    note open_ids_apart[OF assms(2) ps]
    moreover have "q \<in> set (xs @ ys)" using q ps by auto
    then have "wt_id ` set (sp_tabs q) \<subseteq> set (map wt_id (concat (map sp_tabs (xs @ ys))))" by auto
    ultimately show ?thesis using p(2) unfolding has_tab_iff set_map by blast
  qed
  show ?thesis
    using assms(4) c f o by (auto simp: detach_panes_def Let_def upd_def split: if_splits) (metis imageI)+
qed

lemma content_inserted:
  assumes "wf_pane q" "wf_tab tab" "wt_id tab \<notin> wt_id ` set (sp_tabs q) \<or> isSoleNewTabPane q"
  shows "content [inserted_pane tab foc q] = content [q] + tab_content tab"
proof (cases "isSoleNewTabPane q")
  case True
  then obtain n where n: "sp_tabs q = [n]" "wt_target n = Tab_new"
    by (auto simp: isSoleNewTabPane_def split: list.splits)
  note w = wf_paneD(2)[OF assms(1)]
  have "normalizeWorkspaceTabs [tab] = [tab]" "normalizeWorkspaceTabs [n, tab] = [n, tab]" if "wt_id tab \<noteq> wt_id n"
    using w assms(2) n that by (auto intro!: normalizeWorkspaceTabs_id)
  moreover have "normalizeWorkspaceTabs [tab] = [tab]" using assms(2) by (intro normalizeWorkspaceTabs_id) auto
  ultimately show ?thesis
    using n True by (auto simp: inserted_pane_def has_tab_iff tab_content_def)
next
  case False
  then have "wt_id tab \<notin> wt_id ` set (sp_tabs q)" using assms(3) by blast
  then have "normalizeWorkspaceTabs (sp_tabs q @ [tab]) = sp_tabs q @ [tab]"
    using wf_paneD(2,3)[OF assms(1)] assms(2) by (intro normalizeWorkspaceTabs_id) auto
  then show ?thesis
    using False \<open>wt_id tab \<notin> _\<close> by (simp add: inserted_pane_def has_tab_iff tab_content_def)
qed

lemma moveTab_content:
  assumes "layout_ok ex l" "env_ok env" "distinct (open_tab_ids (lo_tree l))"
    "moveTabToPaneInLayout env l i j e = Inr (Some m)"
  shows "layout_content m = layout_content l"
proof -
  note ok = layout_okD[OF assms(1)]
  let ?t = "lo_tree l"
  obtain p q where pq: "findPaneContainingTab ?t i = Some p" "findPaneById ?t (Some j) = Some q" "\<not> sp_hidden q"
    using assms(4) by (auto simp: moveTabToPaneInLayout_def split: option.splits if_splits)
  have p: "p \<in> set (panes ?t)" "has_tab i p" using findPaneContainingTab_Some[OF pq(1)] by auto
  have fp: "find (has_tab i) (panes ?t) = Some p" using pq(1) by (simp add: find_has_tab)
  define tab0 where "tab0 = find (\<lambda>t. wt_id t = i) (collectAllTabs ?t)"
  show ?thesis
  proof (cases "sp_id p \<noteq> j \<and> length (sp_tabIds p) = 1 \<and> map_option wt_target tab0 = Some Tab_new \<and> Some j \<noteq> e")
    case True
    then have run: "(if Some (sp_id p) = e then setPaneHiddenInLayout l (sp_id p) True
        else closePaneInLayout env l (sp_id p) e) = Inr (Some m)"
      using assms(4) pq by (simp add: moveTabToPaneInLayout_def tab0_def Let_def)
    obtain t0 where t0: "sp_tabs p = [t0]"
      using True wf_paneD(4)[OF tree_okD(3)[OF ok(1) p(1)]] by (auto simp: length_Suc_conv)
    then have "wt_id t0 = i" using p(2) by (simp add: has_tab_iff)
    moreover obtain t1 where t1: "tab0 = Some t1" "wt_target t1 = Tab_new" using True by auto
    then have "t1 \<in> set (collectAllTabs ?t)" "wt_id t1 = i" using find_SomeD[of _ _ t1] by (auto simp: tab0_def)
    moreover have "t0 \<in> set (collectAllTabs ?t)" using p(1) t0 by (force simp: collectAllTabs_panes)
    ultimately have "t0 = t1" using assms(3) by (metis distinct_map inj_onD open_tab_ids_def)
    then have "content [p] = {#}" using t0 t1(2) by simp
    then show ?thesis
      using run setHidden_content[OF assms(1)] closePane_content[OF assms(1,2) p(1) refl]
      by (auto simp del: content_simps(2) split: if_splits)
  next
    case False
    define pr where "pr = (if sp_id p = j \<or> Some (sp_id p) = e \<or> Some j = e then Some (sp_id p) else None)"
    obtain d tab where d: "detachTabFromTree env ?t i pr = Inr d" "de_tab d = Some tab"
      "find (\<lambda>t. wt_id t = i) (sp_tabs p) = Some tab"
      "panes (de_tree d) = detach_panes env i pr p (panes ?t)" "wf_node (de_tree d)"
      using detachTabFromTree_ok[OF ok(1) fp assms(2)] by metis
    have t: "tree_ok (de_tree d)" using detached_tree_ok[OF ok(1) fp assms(2) d(4,5)] .
    have "\<exists>t'. insertTabIntoPane (de_tree d) j tab (Some i) = Inr t' \<and> lo_tree m = t'"
      using assms(4) pq False d(1,2)
      by (auto simp: moveTabToPaneInLayout_def tab0_def pr_def Let_def ebind_Inr_iff split: if_splits)
    then obtain t' where t': "insertTabIntoPane (de_tree d) j tab (Some i) = Inr t'" "lo_tree m = t'" by blast
    have tab: "wf_tab tab" "wt_id tab = i"
      using find_tab_id[OF d(3)] wf_paneD(2)[OF tree_okD(3)[OF ok(1) p(1)]] by (auto simp: list_all_iff)
    have "findPanePathById (de_tree d) j \<noteq> None" using t'(1) by (auto simp: insertTabIntoPane_def split: option.splits)
    then obtain r where r: "r \<in> set (panes (de_tree d))" "sp_id r = j"
      by (auto simp: findPanePathById_def findPanePath_None)
    have pt: "panes t' = upd j (inserted_pane tab (Some i)) (panes (de_tree d))"
      using insertTabIntoPane_ok[OF t r tab(1), of "Some i"] t'(1) by (metis Inr_inject)
    have "content (panes t') + content [r] = content (panes (de_tree d)) + (content [r] + tab_content tab)"
      unfolding pt content_upd[OF tree_okD(2)[OF t] r]
      using content_inserted[OF tree_okD(3)[OF t r(1)] tab(1)] detach_without[OF ok(1) assms(3) fp] r(1) tab(2) d(4)
      by (simp del: content_simps(2))
    then show ?thesis
      using content_detach[OF ok(1) fp d(3), of env pr] t'(2) d(4)
      by (simp add: layout_content_def add.left_commute del: content_simps(2))
  qed
qed

lemma findPathById_pane: "findPanePathById t i = Some path \<Longrightarrow> \<exists>p \<in> set (panes t). sp_id p = i"
  using findPanePath_None(1)[of "\<lambda>p. sp_id p = i" t "[]"] by (auto simp: findPanePathById_def)

lemma case_pane_Inr:
  "case_split_node f (\<lambda>i d cs ss. Inl e) x = Inr y \<longleftrightarrow> (\<exists>p. x = Pane p \<and> f p = Inr y)"
  by (cases x) auto

lemma beside_content:
  assumes "tree_ok t" "p \<in> set (panes t)" "sp_id p = i" "wf_pane n" "wf_id (le_groupId env)"
    "findPanePathById t i = Some path" "getNodeAtPath t path = Inr tn" "place_beside env t path tn pos (Pane n) = Inr t'"
  shows "content (panes t') = content (panes t) + content [n]"
proof -
  obtain xs q ys where q: "focus_at t path = Some (xs, Pane q, ys)" "panes t = xs @ q # ys"
    using findPanePath_at[OF assms(6)[unfolded findPanePathById_def]] by metis
  then have "tn = Pane q" using focus_get[OF q(1)] assms(7) by simp
  then have "panes t' = xs @ beside pos q n @ ys"
    using place_beside_panes[OF q(1) tree_okD(1)[OF assms(1)] _ assms(5), of n pos] assms(4,8) by auto
  then show ?thesis using q(2) by (simp add: beside_def ac_simps)
qed

lemma splitPane_content:
  assumes "layout_ok ex l" "env_ok env" "splitPaneInLayout env l i j pos depth = Inr (Some (m, k))"
  shows "layout_content m = layout_content l"
proof -
  note ok = layout_okD[OF assms(1)]
  let ?t = "lo_tree l"
  obtain p where p: "findPaneContainingTab ?t i = Some p"
    using assms(3) by (auto simp: splitPaneInLayout_def split: if_splits)
  have fp: "find (has_tab i) (panes ?t) = Some p" using p by (simp add: find_has_tab)
  have pin: "p \<in> set (panes ?t)" using find_SomeD[OF fp] by simp
  obtain d tab where d: "detachTabFromTree env ?t i (Some j) = Inr d" "de_tab d = Some tab"
    "find (\<lambda>t. wt_id t = i) (sp_tabs p) = Some tab"
    "panes (de_tree d) = detach_panes env i (Some j) p (panes ?t)" "wf_node (de_tree d)"
    using detachTabFromTree_ok[OF ok(1) fp assms(2)] by metis
  have t: "tree_ok (de_tree d)" using detached_tree_ok[OF ok(1) fp assms(2) d(4,5)] .
  have tab: "wf_tab tab" using find_tab_id[OF d(3)] wf_paneD(2)[OF tree_okD(3)[OF ok(1) pin]] by (auto simp: list_all_iff)
  define n where "n = \<lparr>sp_id = le_paneId env, sp_tabs = [tab], sp_tabIds = [wt_id tab],
    sp_focusedTabId = Some (wt_id tab), sp_hidden = False\<rparr>"
  have n: "createPaneNode (le_paneId env) [tab] (Some (wt_id tab)) False = Pane n"
    by (simp add: createPaneNode_one[OF tab] n_def)
  have wn: "wf_pane n" using tab assms(2) by (simp add: n_def wf_pane_def env_ok_def)
  obtain t' where t0: "insertSplitInternal env ?t j i pos = Inr (t', k)" "lo_tree m = t'"
    using assms(3) by (auto simp: splitPaneInLayout_def ebind_Inr_iff split: if_splits)
  then obtain path tn where t': "findPanePathById (de_tree d) j = Some path" "getNodeAtPath (de_tree d) path = Inr tn"
    "place_beside env (de_tree d) path tn pos (Pane n) = Inr t'"
    unfolding insertSplitInternal_def
    by (simp add: d(1,2) n case_pane_Inr ebind_Inr_iff split: option.splits) blast
  then obtain r where r: "r \<in> set (panes (de_tree d))" "sp_id r = j"
    using findPathById_pane by blast
  have "content (panes t') = content (panes (de_tree d)) + content [n]"
    by (rule beside_content[OF t r wn _ t'(1-3)]) (use assms(2) in \<open>simp add: env_ok_def\<close>)
  moreover have "content [n] = tab_content tab" by (simp add: n_def tab_content_def)
  ultimately show ?thesis
    using content_detach[OF ok(1) fp d(3), of env "Some j"] t0(2) d(4) by (simp add: layout_content_def)
qed

lemma splitEmpty_content:
  assumes "layout_ok ex l" "env_ok env" "splitPaneEmptyInLayout env l j pos depth = Inr (Some (m, k))"
  shows "layout_content m = layout_content l"
proof -
  note ok = layout_okD[OF assms(1)]
  let ?n = "fresh_pane env (le_paneId env) False"
  obtain path tn t' where t': "findPanePathById (lo_tree l) j = Some path" "getNodeAtPath (lo_tree l) path = Inr tn"
    "place_beside env (lo_tree l) path tn pos (Pane ?n) = Inr t'" "lo_tree m = t'"
    using assms(3) unfolding splitPaneEmptyInLayout_def createPaneNode_fresh[OF assms(2)]
    by (fastforce simp: ebind_Inr_iff case_pane_Inr split: if_split_asm option.split_asm)
  then obtain r where r: "r \<in> set (panes (lo_tree l))" "sp_id r = j"
    using findPathById_pane by blast
  have "content (panes t') = content (panes (lo_tree l)) + content [?n]"
    by (rule beside_content[OF ok(1) r _ _ t'(1-3)]) (use assms(2) in \<open>simp_all add: env_ok_def fresh_pane_wf\<close>)
  then show ?thesis using t'(4) by (simp add: layout_content_def del: content_simps(2))
qed

lemma splitRoot_content:
  assumes "env_ok env" "splitWorkspaceRootRightInLayout env l depth = Some (m, k)"
  shows "layout_content m = layout_content l"
  using assms(2) createPaneNode_fresh[OF assms(1)]
  by (auto simp: splitWorkspaceRootRightInLayout_def Let_def layout_content_def fresh_pane_def split: if_splits)

lemma resize_content:
  assumes "layout_ok ex l" "resizeSplitInLayout l g sizes = Inr m"
  shows "layout_content m = layout_content l"
  using resizeSplit_ok[OF assms(1), of g sizes] assms(2) by (auto simp: layout_content_def)

section \<open>Rearranging\<close>

fun rearranges :: "layout_op \<Rightarrow> bool" where
  "rearranges (Focus_tab i) = True"
| "rearranges (Select_tab p i) = True"
| "rearranges (Focus_pane p) = True"
| "rearranges (Set_hidden p h) = True"
| "rearranges (Move_tab i p) = True"
| "rearranges (Split_tab i p pos) = True"
| "rearranges (Split_empty p pos) = True"
| "rearranges Split_root_right = True"
| "rearranges (Resize g sizes) = True"
| "rearranges (Reorder p ids) = True"
| "rearranges (Reorder_focused ids) = True"
| "rearranges _ = False"

lemma reorderFocused_content:
  assumes "layout_ok ex l" "reorderFocusedPaneTabsInLayout l ids = Inr (Some m)"
  shows "layout_content m = layout_content l"
  using assms(2) reorder_content[OF assms(1)] by (auto simp: reorderFocused_eq split: option.splits list.splits)


section \<open>Closing\<close>

lemma closeTab_run:
  assumes "layout_ok ex l" "env_ok env" "closeTabInLayout env l i keep = Inr (Some m)"
  obtains p and d :: detached and tab k where "find (has_tab i) (panes (lo_tree l)) = Some p"
    "k = or_else keep (if sp_id p = DEFAULT_PANE_ID \<or> sp_id p = EXPLORER_SIDEBAR_PANE_ID then Some (sp_id p) else None)"
    "find (\<lambda>t. wt_id t = i) (sp_tabs p) = Some tab"
    "panes (de_tree d) = detach_panes env i k p (panes (lo_tree l))"
    "wf_node (de_tree d)"
    "lo_tree m = de_tree d \<or> (\<exists>n s x. lo_tree n = de_tree d \<and> focusTabInLayout n s = Inr (Some x) \<and> lo_tree m = lo_tree x)"
proof -
  note ok = layout_okD[OF assms(1)]
  obtain p where p: "findPaneContainingTab (lo_tree l) i = Some p"
    using assms(3) by (auto simp: closeTabInLayout_def split: option.splits)
  then have fp: "find (has_tab i) (panes (lo_tree l)) = Some p" by (simp add: find_has_tab)
  define k where "k = or_else keep
     (if sp_id p = DEFAULT_PANE_ID \<or> sp_id p = EXPLORER_SIDEBAR_PANE_ID then Some (sp_id p) else None)"
  obtain d tab where d: "detachTabFromTree env (lo_tree l) i k = Inr d"
    "find (\<lambda>t. wt_id t = i) (sp_tabs p) = Some tab"
    "panes (de_tree d) = detach_panes env i k p (panes (lo_tree l))" "wf_node (de_tree d)"
    using detachTabFromTree_ok[OF ok(1) fp assms(2)] by metis
  obtain fb where fb: "findNearestSiblingPaneId (lo_tree l) (sp_id p) = Inr fb"
    using findNearestSibling_total[OF ok(1)] by metis
  define ps where "ps = normalizeParentTabMap (lo_parents l) (open_tab_ids (de_tree d))"
  define nl where "nl = \<lparr>lo_tree = de_tree d,
     lo_focus = getFocusedPaneIdAfterTabClose (de_tree d) (lo_focus l) fb None, lo_parents = ps\<rparr>"
  have run: "closeTabInLayout env l i keep =
    (case getCloseSuccessorTabId p i (open_tab_ids (lo_tree l)) (lo_parents l) of
       Some s \<Rightarrow> if s \<noteq> [] \<and> findPaneContainingTab (de_tree d) s \<noteq> None then
                   ebind (focusTabInLayout nl s) (\<lambda>focused.
                     let fl = (case focused of Some x \<Rightarrow> x | None \<Rightarrow> nl) in
                     Inr (Some (case ps of Some _ \<Rightarrow> fl\<lparr>lo_parents := ps\<rparr> | None \<Rightarrow> fl)))
                 else Inr (Some nl)
     | None \<Rightarrow> Inr (Some nl))"
    using p fb d(1) unfolding closeTabInLayout_def nl_def ps_def k_def Let_def by simp
  have n: "lo_tree nl = de_tree d" by (simp add: nl_def)
  have "lo_tree m = de_tree d \<or> (\<exists>n s x. lo_tree n = de_tree d \<and> focusTabInLayout n s = Inr (Some x) \<and> lo_tree m = lo_tree x)"
  proof (cases "getCloseSuccessorTabId p i (open_tab_ids (lo_tree l)) (lo_parents l)")
    case None
    then show ?thesis using run n assms(3) by simp
  next
    case (Some s)
    show ?thesis
    proof (cases "s \<noteq> [] \<and> findPaneContainingTab (de_tree d) s \<noteq> None")
      case True
      then have "closeTabInLayout env l i keep = ebind (focusTabInLayout nl s) (\<lambda>focused.
          let fl = (case focused of Some x \<Rightarrow> x | None \<Rightarrow> nl) in
          Inr (Some (case ps of Some _ \<Rightarrow> fl\<lparr>lo_parents := ps\<rparr> | None \<Rightarrow> fl)))"
        using run Some by simp
      note e = assms(3)[unfolded this ebind_Inr_iff]
      obtain f where f: "focusTabInLayout nl s = Inr f"
        "m = (let fl = (case f of Some x \<Rightarrow> x | None \<Rightarrow> nl) in
              case ps of Some _ \<Rightarrow> fl\<lparr>lo_parents := ps\<rparr> | None \<Rightarrow> fl)"
        using e by (auto simp: Let_def)
      then have "lo_tree m = lo_tree (case f of Some x \<Rightarrow> x | None \<Rightarrow> nl)"
        by (simp add: Let_def split: option.split)
      then show ?thesis using f(1) n by (cases f) auto
    next
      case False
      then have "m = nl" using run Some assms(3) by auto
      then show ?thesis using n by simp
    qed
  qed
  then show ?thesis using that[OF fp k_def d(2-4)] by blast
qed

lemma closeTab_content:
  assumes "layout_ok ex l" "env_ok env" "closeTabInLayout env l i keep = Inr (Some m)"
  shows "\<exists>tab \<in> set (collectAllTabs (lo_tree l)). wt_id tab = i \<and> layout_content m + tab_content tab = layout_content l"
proof -
  note ok = layout_okD[OF assms(1)]
  obtain p and d :: detached and tab k where c: "find (has_tab i) (panes (lo_tree l)) = Some p"
    "find (\<lambda>t. wt_id t = i) (sp_tabs p) = Some tab"
    "panes (de_tree d) = detach_panes env i k p (panes (lo_tree l))" "wf_node (de_tree d)"
    "lo_tree m = de_tree d \<or> (\<exists>n s x. lo_tree n = de_tree d \<and> focusTabInLayout n s = Inr (Some x) \<and> lo_tree m = lo_tree x)"
    by (rule closeTab_run[OF assms]) blast
  have t: "tree_ok (de_tree d)" using detached_tree_ok[OF ok(1) c(1) assms(2) c(3,4)] .
  have "content (panes (lo_tree x)) = content (panes (de_tree d))"
    if n: "lo_tree n = de_tree d" "focusTabInLayout n s = Inr (Some x)" for n s x
  proof -
    obtain q where q: "findPaneContainingTab (lo_tree n) s = Some q"
      using n(2) by (auto simp: focusTabInLayout_def split: option.splits)
    have qq: "q \<in> set (panes (de_tree d))" using findPaneContainingTab_Some[OF q] n(1) by simp
    obtain t' where t': "focusTabInPane (de_tree d) (sp_id q) s = Inr t'"
      "panes t' = upd (sp_id q) (focused_pane s) (panes (de_tree d))"
      using focusTabInPane_ok[OF t qq refl] by metis
    have "lo_tree x = t'" using n q t'(1) by (auto simp: focusTabInLayout_def split: if_splits)
    then show ?thesis using content_edit[OF t t'(2)] focused_pane_tabs[OF tree_okD(3)[OF t]] by simp
  qed
  then have "layout_content m = content (panes (de_tree d))" using c(5) by (auto simp: layout_content_def)
  moreover have "tab \<in> set (collectAllTabs (lo_tree l))"
    using find_SomeD[OF c(1)] find_tab_id[OF c(2)] by (auto simp: collectAllTabs_panes)
  ultimately show ?thesis
    using content_detach[OF ok(1) c(1,2), of env k] c(3) find_tab_id[OF c(2)] by (auto simp: layout_content_def)
qed

text \<open>C21. Closing takes away what is closed and nothing else. Closing a tab removes one tab with that
  id from the layout, closing a pane the tabs of that pane; every other tab stays with its target,
  creation time and state, New tabs apart.\<close>

theorem closing_takes_only_what_is_closed:
  assumes "layout_ok ex l" "env_ok env"
  shows "(\<forall>m. closeTabInLayout env l i keep = Inr (Some m) \<longrightarrow>
            (\<exists>tab \<in> set (collectAllTabs (lo_tree l)). wt_id tab = i \<and> layout_content m + tab_content tab = layout_content l)) \<and>
         (\<forall>m. \<forall>p \<in> set (panes (lo_tree l)). closePaneInLayout env l (sp_id p) e = Inr (Some m) \<longrightarrow>
            layout_content m + content [p] = layout_content l)"
  using closeTab_content[OF assms] closePane_content[OF assms _ refl] by blast

end
