(* ===== verification/Layout_Changes.thy ===== *)
theory Layout_Changes
  imports Layout_Content
begin

text \<open>
  Opening a tab adds that tab, changing what a tab shows changes that tab; the others stay as they
  are. And the two ways in which a workspace can lose more than it was asked to.
\<close>

section \<open>Changing one tab\<close>

lemma mset_retabbed:
  assumes "distinct (map wt_id ts)" "find (\<lambda>t. wt_id t = i) ts = Some tab"
  shows "mset (map (retabbed i j target st) ts) + {#tab#} = mset ts + {#retabbed i j target st tab#}"
  using assms
proof (induction ts)
  case (Cons x xs)
  show ?case
  proof (cases "wt_id x = i")
    case True
    have "wt_id y \<noteq> i" if "y \<in> set xs" for y using True Cons.prems(1) imageI[OF that, of wt_id] by auto
    then have "map (retabbed i j target st) xs = xs" by (intro map_idI) (simp add: retabbed_def)
    then show ?thesis using True Cons.prems(2) by simp
  next
    case False
    then have "retabbed i j target st x = x" by (simp add: retabbed_def)
    then show ?thesis using False Cons by simp
  qed
qed simp

lemma retabbed_distinct:
  assumes "distinct (map wt_id ts)" "j = i \<or> j \<notin> wt_id ` set ts"
  shows "distinct (map wt_id (map (retabbed i j target st) ts))"
proof -
  have m: "map wt_id (map (retabbed i j target st) ts) = map (\<lambda>k. if k = i then j else k) (map wt_id ts)"
    by (simp add: retabbed_def)
  have "inj_on (\<lambda>k. if k = i then j else k) (set (map wt_id ts))"
    using assms(2) by (auto simp: inj_on_def)
  then show ?thesis
    using assms(1) by (simp only: m distinct_map[of "\<lambda>k. if k = i then j else k" "map wt_id ts"] simp_thms)
qed

lemma content_replaced:
  assumes "wf_pane p" "find (\<lambda>t. wt_id t = i) (sp_tabs p) = Some tab" "wf_id j" "wf_target target"
    "j = i \<or> j \<notin> wt_id ` set (sp_tabs p)"
  shows "content [replaced_pane i j target st p] + tab_content tab
       = content [p] + tab_content (retabbed i j target st tab)"
proof -
  have w: "list_all wf_tab (map (retabbed i j target st) (sp_tabs p))"
    using wf_paneD(2)[OF assms(1)] assms(3,4) by (auto simp: list_all_iff retabbed_def wf_tab_def)
  have "normalizeWorkspaceTabs (map (retabbed i j target st) (sp_tabs p)) = map (retabbed i j target st) (sp_tabs p)"
    by (rule normalizeWorkspaceTabs_id[OF w retabbed_distinct[OF wf_paneD(3)[OF assms(1)] assms(5)]])
  then have c: "content [replaced_pane i j target st p] =
      filter_mset (\<lambda>t. wt_target t \<noteq> Tab_new) (mset (map (retabbed i j target st) (sp_tabs p)))"
    by (simp add: replaced_pane_def)
  have t: "tab_content t = filter_mset (\<lambda>t. wt_target t \<noteq> Tab_new) {#t#}" for t
    by (simp add: tab_content_def)
  have p: "content [p] = filter_mset (\<lambda>t. wt_target t \<noteq> Tab_new) (mset (sp_tabs p))" by simp
  show ?thesis
    unfolding c p t filter_union_mset[symmetric]
    using arg_cong[OF mset_retabbed[OF wf_paneD(3)[OF assms(1)] assms(2), of j target st]] by blast
qed

lemma content_upd_plus:
  assumes "distinct (map sp_id ps)" "p \<in> set ps" "sp_id p = i" "content [f p] + a = content [p] + b"
  shows "content (upd i f ps) + a = content ps + b"
proof -
  have "content (upd i f ps) + a + content [f p] = content (upd i f ps) + content [p] + b"
    using assms(4) by (simp add: ac_simps)
  also have "\<dots> = content ps + b + content [f p]"
    using content_upd[OF assms(1-3), of f] by (simp add: ac_simps)
  finally show ?thesis by simp
qed

lemma replaceTab_content:
  assumes "tree_ok t" "find (has_tab i) (panes t) = Some p" "find (\<lambda>t. wt_id t = i) (sp_tabs p) = Some tab"
    "wf_id j" "wf_target target" "j = i \<or> j \<notin> set (open_tab_ids t)" "replaceTabInTree t i j target st = Inr t'"
  shows "content (panes t') + tab_content tab = content (panes t) + tab_content (retabbed i j target st tab)"
proof -
  have p: "p \<in> set (panes t)" using find_SomeD[OF assms(2)] by simp
  have "panes t' = upd (sp_id p) (replaced_pane i j target st) (panes t)"
    using replaceTabInTree_ok[OF assms(1,2,4,5), of st] assms(7) by (metis Inr_inject)
  moreover have "j = i \<or> j \<notin> wt_id ` set (sp_tabs p)" using assms(6) p by (auto simp: open_tab_ids_panes)
  ultimately show ?thesis
    using content_upd_plus[where f = "replaced_pane i j target st", OF tree_okD(2)[OF assms(1)] p refl]
      content_replaced[OF tree_okD(3)[OF assms(1) p] assms(3-5), of st] by simp
qed

section \<open>Opening\<close>

lemma find_key: "distinct (map f xs) \<Longrightarrow> x \<in> set xs \<Longrightarrow> find (\<lambda>y. f y = f x) xs = Some x"
  by (induction xs) (auto simp: image_iff)

lemma tab_in_pane_unique:
  assumes "distinct (open_tab_ids t)" "p \<in> set (panes t)" "tab \<in> set (sp_tabs p)"
  shows "find (has_tab (wt_id tab)) (panes t) = Some p" "find (\<lambda>x. wt_id x = wt_id tab) (sp_tabs p) = Some tab"
proof -
  obtain xs ys where ps: "panes t = xs @ p # ys" using assms(2) by (meson split_list)
  note d1 = open_ids_apart[OF assms(1) ps]
  have d2: "distinct (map wt_id (sp_tabs p))" using assms(1) by (simp add: open_tab_ids_panes ps)
  have "\<not> has_tab (wt_id tab) q" if "q \<in> set xs" for q
  proof -
    have "wt_id ` set (sp_tabs q) \<subseteq> set (map wt_id (concat (map sp_tabs (xs @ ys))))" using that by auto
    then show ?thesis using d1 assms(3) unfolding has_tab_iff set_map by blast
  qed
  then have "find (has_tab (wt_id tab)) xs = None" by (simp add: find_None_iff)
  then show "find (has_tab (wt_id tab)) (panes t) = Some p"
    using assms(3) by (simp add: ps find_append has_tab_iff)
  show "find (\<lambda>x. wt_id x = wt_id tab) (sp_tabs p) = Some tab"
    using find_key[OF d2 assms(3)] .
qed

lemma insertNewTab_content:
  assumes "layout_ok ex l" "distinct (open_tab_ids (lo_tree l))" "wf_target target" "target \<noteq> Tab_new"
    "wf_id i" "i \<notin> set (open_tab_ids (lo_tree l))"
    "insertNewTabIntoPane env l target pl explorer (Inr i) st foc = Inr (Some (m, j))"
  shows "j = i \<and> (\<exists>now. layout_content m = layout_content l +
           {#\<lparr>wt_id = i, wt_target = target, wt_createdAt = now, wt_state = st\<rparr>#})"
proof -
  note ok = layout_okD[OF assms(1)]
  obtain p where pl: "resolvePlacementPane l target pl explorer = Some p"
    using assms(7) by (auto simp: insertNewTabIntoPane_def split: option.splits)
  have p: "p \<in> set (panes (lo_tree l))" using resolvePlacement_in[OF pl ok(1)] by simp
  show ?thesis
  proof (cases "isSoleNewTabPane p")
    case True
    then obtain n where n: "sp_tabs p = [n]" "wt_target n = Tab_new"
      by (auto simp: isSoleNewTabPane_def split: list.splits)
    obtain t' where t': "replaceTabInTree (lo_tree l) (wt_id n) i target st = Inr t'" "lo_tree m = t'" "j = i"
      using assms(4,7) pl True n by (auto simp: insertNewTabIntoPane_def ebind_Inr_iff)
    note u = tab_in_pane_unique[OF assms(2) p, of n]
    have "content (panes t') + tab_content n = content (panes (lo_tree l)) + tab_content (retabbed (wt_id n) i target st n)"
      by (rule replaceTab_content[OF ok(1) _ _ assms(5,3) _ t'(1)]) (use u n assms(6) in auto)
    then show ?thesis
      using t'(2,3) n(2) assms(4) by (auto simp: layout_content_def tab_content_def retabbed_def)
  next
    case False
    define tab where "tab = \<lparr>wt_id = i, wt_target = target, wt_createdAt = le_now env, wt_state = st\<rparr>"
    define f where "f = (if foc then Some i else or_else (sp_focusedTabId p) (Some i))"
    obtain t' where t': "insertTabIntoPane (lo_tree l) (sp_id p) tab f = Inr t'" "lo_tree m = t'" "j = i"
      using assms(7) pl False by (auto simp: insertNewTabIntoPane_def ebind_Inr_iff tab_def f_def)
    have w: "wf_tab tab" using assms(3,5) by (simp add: tab_def wf_tab_def)
    have "panes t' = upd (sp_id p) (inserted_pane tab f) (panes (lo_tree l))"
      using insertTabIntoPane_ok[OF ok(1) p refl w, of f] t'(1) by (metis Inr_inject)
    moreover have "wt_id tab \<notin> wt_id ` set (sp_tabs p)"
      using assms(6) p by (auto simp: tab_def open_tab_ids_panes)
    then have "content [inserted_pane tab f p] + {#} = content [p] + tab_content tab"
      using content_inserted[OF tree_okD(3)[OF ok(1) p] w, of f] by simp
    ultimately have "content (panes t') = content (panes (lo_tree l)) + tab_content tab"
      using content_upd_plus[OF tree_okD(2)[OF ok(1)] p refl] by fastforce
    then show ?thesis
      using t'(2,3) assms(4) by (auto simp: layout_content_def tab_content_def tab_def)
  qed
qed

lemma open_ids_shape:
  "map shape (panes t) = map shape (panes u) \<Longrightarrow> open_tab_ids t = open_tab_ids u"
proof -
  have "map (map wt_id) (map sp_tabs (panes v)) = map (snd \<circ> snd) (map shape (panes v))" for v by (simp add: shape_def)
  moreover have "open_tab_ids v = concat (map (map wt_id) (map sp_tabs (panes v)))" for v
    by (simp add: open_tab_ids_panes map_concat)
  ultimately show "map shape (panes t) = map shape (panes u) \<Longrightarrow> open_tab_ids t = open_tab_ids u" by metis
qed

lemma updateExisting_content:
  assumes "layout_ok ex l" "distinct (open_tab_ids (lo_tree l))" "tab \<in> set (collectAllTabs (lo_tree l))"
    "wf_target target" "updateExistingTabTarget l tab target = Inr m"
  shows "layout_content m + tab_content tab = layout_content l +
    tab_content (if workspaceTabTargetsEqual (wt_target tab) target then tab else tab\<lparr>wt_target := target\<rparr>)"
proof (cases "workspaceTabTargetsEqual (wt_target tab) target")
  case False
  note ok = layout_okD[OF assms(1)]
  obtain p where p: "p \<in> set (panes (lo_tree l))" "tab \<in> set (sp_tabs p)"
    using assms(3) by (auto simp: collectAllTabs_panes)
  have w: "wf_id (wt_id tab)" using collect_wf[OF ok(1) assms(3)] by (simp add: wf_tab_def)
  obtain t' where t': "replaceTabInTree (lo_tree l) (wt_id tab) (wt_id tab) target (wt_state tab) = Inr t'" "lo_tree m = t'"
    using assms(5) False by (auto simp: updateExistingTabTarget_def ebind_Inr_iff withNormalizedParentTabMap_def)
  have "retabbed (wt_id tab) (wt_id tab) target (wt_state tab) tab = tab\<lparr>wt_target := target\<rparr>"
    by (cases tab) (simp add: retabbed_def)
  then show ?thesis
    using replaceTab_content[OF ok(1) tab_in_pane_unique[OF assms(2) p] w assms(4) _ t'(1)] t'(2) False
    by (simp add: layout_content_def)
qed (use assms(5) in \<open>simp add: updateExistingTabTarget_def\<close>)

lemma or_layout_content:
  assumes "or_layout r l = Inr m" "\<And>x. r = Inr (Some x) \<Longrightarrow> layout_content x = layout_content l"
  shows "layout_content m = layout_content l"
  using assms by (auto simp: or_layout_def ebind_Inr_iff split: option.splits)

lemma revealExisting_content:
  assumes "layout_ok ex l" "env_ok env" "distinct (open_tab_ids (lo_tree l))" "revealExistingTab env l i pl = Inr m"
  shows "layout_content m = layout_content l"
proof -
  have f: "layout_content m = layout_content l" if "or_layout (focusTabInLayout l i) l = Inr m"
    by (rule or_layout_content[OF that]) (rule focusTab_content[OF assms(1)])
  show ?thesis
  proof (cases "\<exists>j. pl = In_pane j \<and> pane_id_of (findPaneContainingTab (lo_tree l) i) \<noteq> Some j")
    case True
    then obtain j where j: "pl = In_pane j" "pane_id_of (findPaneContainingTab (lo_tree l) i) \<noteq> Some j" by blast
    then obtain r where r: "moveTabToPaneInLayout env l i j None = Inr r"
      using assms(4) by (auto simp: revealExistingTab_def ebind_Inr_iff)
    show ?thesis
    proof (cases r)
      case None
      then show ?thesis using assms(4) j r f by (simp add: revealExistingTab_def or_layout_def)
    next
      case (Some x)
      then show ?thesis using assms(4) j r moveTab_content[OF assms(1-3), of i j None x] by (simp add: revealExistingTab_def)
    qed
  next
    case False
    then show ?thesis
      using assms(4) f by (auto simp: revealExistingTab_def Let_def or_layout_def split: placement.splits if_splits)
  qed
qed


section \<open>A workspace with nothing to look at\<close>

text \<open>A run of operations, and one from the first layout that leaves a single ordinary pane that is
  not the main one, with one tab in it, beside the hidden Explorer.\<close>

definition run_ops :: "layout_env \<Rightarrow> layout_op list \<Rightarrow> layout_error + layout" where
  "run_ops env ops =
     foldl (\<lambda>r op. ebind r (apply_op env (Some EXPLORER_SIDEBAR_PANE_ID) 5 op))
       (Inr (createWorkspaceLayoutWithExplorerSidebar env)) ops"

definition demo_env :: layout_env where
  "demo_env = example_env\<lparr>le_messageId := (\<lambda>p. if p = DEFAULT_PANE_ID then ''1'' else ''2'')\<rparr>"

definition to_one_pane :: "layout_op list" where
  "to_one_pane =
     [Split_empty DEFAULT_PANE_ID At_right, Reveal (Tab_agent ''a'') In_focused None, Close_pane DEFAULT_PANE_ID]"

definition one_pane :: layout where
  "one_pane =
     (let pane = createPaneNode ''pane_1''
            [\<lparr>wt_id = ''agent_a'', wt_target = Tab_agent ''a'', wt_createdAt = Fin 0, wt_state = None\<rparr>] None False;
          explorer = createPaneNode EXPLORER_SIDEBAR_PANE_ID (createDefaultExplorerSidebarTabs demo_env) None True in
      \<lparr>lo_tree = createGroupNode ''workspace-root'' Horizontal [pane, explorer] [39 / 61, 22 / 61],
       lo_focus = Some ''pane_1'', lo_parents = None\<rparr>)"

lemma one_pane_run: "run_ops demo_env to_one_pane = Inr one_pane"
  by code_simp

lemma filter_only: "filter Q xs = [x] \<Longrightarrow> y \<in> set xs \<Longrightarrow> Q y \<Longrightarrow> y = x"
  by (drule arg_cong[of _ _ set]) auto

text \<open>C31. Closing the last tab of the last ordinary pane closes the pane too. When the only ordinary
  pane is not the main pane, the Explorer is there beside it and the pane holds just this tab,
  closing the tab leaves no ordinary pane in the tree, and so nothing on screen while the Explorer
  is hidden, although a workspace is to have always somewhere to look.\<close>

theorem closing_the_last_tab_leaves_no_pane:
  assumes "layout_ok ex l" "env_ok env" "closes_last_pane ex l i"
    "q \<in> set (panes (lo_tree l))" "Some (sp_id q) = ex"
    "\<forall>r \<in> set (panes (lo_tree l)). Some (sp_id r) = ex \<or> \<not> sp_hidden r"
    "closeTabInLayout env l i None = Inr (Some m)"
  shows "\<forall>r \<in> set (panes (lo_tree m)). Some (sp_id r) = ex"
proof -
  note ok = layout_okD[OF assms(1)]
  obtain p and d :: detached and tab k where c: "find (has_tab i) (panes (lo_tree l)) = Some p"
    "k = or_else None (if sp_id p = DEFAULT_PANE_ID \<or> sp_id p = EXPLORER_SIDEBAR_PANE_ID then Some (sp_id p) else None)"
    "panes (de_tree d) = detach_panes env i k p (panes (lo_tree l))" "wf_node (de_tree d)"
    "lo_tree m = de_tree d \<or> (\<exists>n s x. lo_tree n = de_tree d \<and> focusTabInLayout n s = Inr (Some x) \<and> lo_tree m = lo_tree x)"
    by (rule closeTab_run[OF assms(1,2,7)]) blast
  have p: "p \<in> set (panes (lo_tree l))" using find_SomeD[OF c(1)] by simp
  have lone: "visible_ordinary ex (panes (lo_tree l)) = [p]" "map wt_id (sp_tabs p) = [i]" "k = None"
    using assms(3) c(1,2) by (auto simp: closes_last_pane_def lone_tab_def find_has_tab pane_id_of_def or_else_def)
  have "p \<in> set (visible_ordinary ex (panes (lo_tree l)))" using lone(1) by simp
  then have "q \<noteq> p" using assms(5) by (auto simp: visible_ordinary_def)
  then have "panes (lo_tree l) \<noteq> [p]" using assms(4) by auto
  moreover have "sp_tabs (closed_pane i p) = []"
    using lone(2) by (auto simp: closed_pane_simps(4)[OF tree_okD(3)[OF ok(1) p]] filter_empty_conv map_eq_Cons_conv)
  ultimately have pd: "panes (de_tree d) = filter (\<lambda>r. sp_id r \<noteq> sp_id p) (panes (lo_tree l))"
    using c(3) lone(3) by (simp add: detach_panes_def Let_def)
  have only: "r = p" if "r \<in> set (panes (lo_tree l))" "Some (sp_id r) \<noteq> ex" for r
    using filter_only[OF lone(1)[unfolded visible_ordinary_def] that(1)] that(2) assms(6) that(1) by auto
  then have left: "\<forall>r \<in> set (panes (de_tree d)). Some (sp_id r) = ex" using pd by auto
  have t: "tree_ok (de_tree d)" using detached_tree_ok[OF ok(1) c(1) assms(2) c(3,4)] .
  have "pane_ids (lo_tree x) = pane_ids (de_tree d)"
    if n: "lo_tree n = de_tree d" "focusTabInLayout n s = Inr (Some x)" for n s x
  proof -
    obtain q where q: "findPaneContainingTab (lo_tree n) s = Some q"
      using n(2) by (auto simp: focusTabInLayout_def split: option.splits)
    have qq: "q \<in> set (panes (de_tree d))" using findPaneContainingTab_Some[OF q] n(1) by simp
    obtain t' where t': "focusTabInPane (de_tree d) (sp_id q) s = Inr t'" "pane_ids t' = pane_ids (de_tree d)"
      using focusTabInPane_ok[OF t qq refl] by metis
    then show ?thesis using n q by (auto simp: focusTabInLayout_def split: if_splits)
  qed
  then have "pane_ids (lo_tree m) = pane_ids (de_tree d)" using c(5) by auto
  then have "sp_id ` set (panes (lo_tree m)) = sp_id ` set (panes (de_tree d))"
    by (metis list.set_map pane_ids_def)
  then show ?thesis using left by (metis (no_types, lifting) imageE imageI)
qed

text \<open>From the first layout: a split, an agent's tab in the new pane, the main pane closed. Closing the
  tab leaves the hidden Explorer alone, with the focus on the main pane that is gone.\<close>

definition blank :: layout where
  "blank =
     \<lparr>lo_tree = createPaneNode EXPLORER_SIDEBAR_PANE_ID (createDefaultExplorerSidebarTabs demo_env) None True,
      lo_focus = Some DEFAULT_PANE_ID, lo_parents = None\<rparr>"

lemma demo_env_ok: "env_ok demo_env"
  by (simp add: env_ok_def demo_env_def example_env_def wf_id_iff trimmed_def js_space_def)

lemma one_pane_closed:
  "closeTabInLayout demo_env one_pane ''agent_a'' None = Inr (Some blank)"
  "closes_last_pane (Some EXPLORER_SIDEBAR_PANE_ID) one_pane ''agent_a''"
  "map sp_id (panes (lo_tree one_pane)) = [''pane_1'', EXPLORER_SIDEBAR_PANE_ID]"
  "map sp_hidden (panes (lo_tree one_pane)) = [False, True]"
  by code_simp+

lemma one_pane_ok: "layout_ok (Some EXPLORER_SIDEBAR_PANE_ID) one_pane"
proof -
  have i: "wf_target (Tab_agent ''a'')"
    by (simp add: wf_target_def one_id_def trimmed_def js_space_def)
  have m: "\<exists>m. apply_op demo_env (Some EXPLORER_SIDEBAR_PANE_ID) 5 op l = Inr m \<and>
      layout_ok (Some EXPLORER_SIDEBAR_PANE_ID) m"
    if "layout_ok (Some EXPLORER_SIDEBAR_PANE_ID) l" "op_ok demo_env (Some EXPLORER_SIDEBAR_PANE_ID) op l" for op l
    by (rule op_keeps_layout[OF that(1) demo_env_ok that(2)])
  have "fresh_ids (Some EXPLORER_SIDEBAR_PANE_ID) demo_env (createWorkspaceLayoutWithExplorerSidebar demo_env)"
    by code_simp
  then obtain a where a: "apply_op demo_env (Some EXPLORER_SIDEBAR_PANE_ID) 5 (Split_empty DEFAULT_PANE_ID At_right)
      (createWorkspaceLayoutWithExplorerSidebar demo_env) = Inr a" "layout_ok (Some EXPLORER_SIDEBAR_PANE_ID) a"
    using m[OF first_layout_ok[OF demo_env_ok], of "Split_empty DEFAULT_PANE_ID At_right"] by (auto simp del: apply_op.simps)
  obtain b where b: "apply_op demo_env (Some EXPLORER_SIDEBAR_PANE_ID) 5 (Reveal (Tab_agent ''a'') In_focused None) a = Inr b"
    "layout_ok (Some EXPLORER_SIDEBAR_PANE_ID) b"
    using m[OF a(2), of "Reveal (Tab_agent ''a'') In_focused None"] i by (auto simp: keeps_a_pane_def)
  obtain c where c: "apply_op demo_env (Some EXPLORER_SIDEBAR_PANE_ID) 5 (Close_pane DEFAULT_PANE_ID) b = Inr c"
    "layout_ok (Some EXPLORER_SIDEBAR_PANE_ID) c"
    using m[OF b(2), of "Close_pane DEFAULT_PANE_ID"] explorer_pane_ids(3) by auto
  have "run_ops demo_env to_one_pane = Inr c" using a(1) b(1) c(1) by (simp add: run_ops_def to_one_pane_def)
  then show ?thesis using one_pane_run c(2) by simp
qed

theorem closing_the_last_tab_leaves_no_pane_witness:
  "closeTabInLayout demo_env one_pane ''agent_a'' None = Inr (Some blank) \<and> lo_focus blank = Some DEFAULT_PANE_ID \<and>
   pane_ids (lo_tree blank) = [EXPLORER_SIDEBAR_PANE_ID] \<and> Some EXPLORER_SIDEBAR_PANE_ID \<noteq> Some DEFAULT_PANE_ID"
proof -
  obtain p q where pq: "panes (lo_tree one_pane) = [p, q]" "sp_id q = EXPLORER_SIDEBAR_PANE_ID" "\<not> sp_hidden p"
    using one_pane_closed(3,4) by (auto simp: map_eq_Cons_conv)
  have "\<forall>r \<in> set (panes (lo_tree blank)). Some (sp_id r) = Some EXPLORER_SIDEBAR_PANE_ID"
    by (rule closing_the_last_tab_leaves_no_pane[OF one_pane_ok demo_env_ok one_pane_closed(2) _ _ _ one_pane_closed(1), of q])
      (use pq in auto)
  moreover have "length (panes (lo_tree blank)) = 1" by (simp add: blank_def createPaneNode_pane)
  ultimately have "pane_ids (lo_tree blank) = [EXPLORER_SIDEBAR_PANE_ID]"
    by (cases "panes (lo_tree blank)") (auto simp: pane_ids_def)
  then show ?thesis using one_pane_closed(1) explorer_pane_ids(3) by (simp add: blank_def)
qed

section \<open>Examples\<close>

abbreviation first_layout :: layout where
  "first_layout \<equiv> createWorkspaceLayoutWithExplorerSidebar demo_env"

lemma first_layout_facts:
  "distinct (open_tab_ids (lo_tree first_layout))"
  "fresh_ids (Some EXPLORER_SIDEBAR_PANE_ID) demo_env first_layout"
  "findExistingTabForTarget (lo_tree first_layout) (Tab_agent ''a'') = None"
  "''agent_a'' \<notin> set (open_tab_ids (lo_tree first_layout))"
  "case revealTargetInLayout demo_env first_layout (Tab_agent ''a'') Ambient (Some EXPLORER_SIDEBAR_PANE_ID) None of
     Inr (Some r) \<Rightarrow> True | _ \<Rightarrow> False"
  by code_simp+

lemma agent_a: "wf_target (Tab_agent ''a'')" "buildDeterministicWorkspaceTabId (Tab_agent ''a'') = Inr ''agent_a''"
  by (simp_all add: wf_target_def one_id_def trimmed_def js_space_def)


theorem closing_takes_only_what_is_closed_witness:
  "\<exists>tab. wt_id tab = ''agent_a'' \<and> layout_content blank + tab_content tab = layout_content one_pane"
  using closing_takes_only_what_is_closed[OF one_pane_ok demo_env_ok, of "''agent_a''" None None] one_pane_closed(1)
  by blast


section \<open>An id that outlives its target\<close>

text \<open>Replacing the target of a tab by one of the same kind keeps the tab's id, which was made from
  the old target. Revealing the old target then builds that id again, and the new tab takes the
  place of the tab that has it: the file \<open>b\<close> that the tab showed is gone, with the only tab for it.\<close>

theorem revealing_a_replaced_target_drops_a_tab:
  "case run_ops demo_env [Reveal (Tab_file ''a'' None None) Ambient None,
       Replace_target ''file_a'' (Tab_file ''b'' None None) ''tab_x'' None] of
     Inl e \<Rightarrow> False
   | Inr m \<Rightarrow>
       (case revealTargetInLayout demo_env m (Tab_file ''a'' None None) Ambient (Some EXPLORER_SIDEBAR_PANE_ID) None of
          Inr (Some (n, i)) \<Rightarrow>
            i = ''file_a'' \<and> Tab_file ''b'' None None \<in> wt_target ` set (collectAllTabs (lo_tree m)) \<and>
            Tab_file ''b'' None None \<notin> wt_target ` set (collectAllTabs (lo_tree n))
        | _ \<Rightarrow> False)"
  by code_simp

end
