(* ===== verification/Reconcile_Spec.thy ===== *)
theory Reconcile_Spec
  imports Workspace_Reconcile Layout_Changes
begin

text \<open>
  After a reconciliation a workspace shows exactly the agents and terminals it should, each in one
  tab, and every other tab is still there.
\<close>

section \<open>Layouts with tabs that can be told apart\<close>

definition ids_of :: "split_pane list \<Rightarrow> string list" where
  "ids_of ps = map wt_id (concat (map sp_tabs ps))"

lemma ids_of_simps [simp]:
  "ids_of [] = []" "ids_of (p # ps) = map wt_id (sp_tabs p) @ ids_of ps" "ids_of (ps @ qs) = ids_of ps @ ids_of qs"
  by (simp_all add: ids_of_def)

definition id_matches :: "string \<Rightarrow> tab_target \<Rightarrow> bool" where
  "id_matches i target \<longleftrightarrow>
     (\<forall>a. (i = ''agent_'' @ a \<longrightarrow> target = Tab_agent a) \<and> (i = ''terminal_'' @ a \<longrightarrow> target = Tab_terminal a))"

definition good_tab :: "string \<Rightarrow> layout_env \<Rightarrow> string \<Rightarrow> workspace_tab \<Rightarrow> bool" where
  "good_tab res env j t \<longleftrightarrow>
     id_matches (wt_id t) (wt_target t) \<and> wt_id t \<noteq> res \<and> (\<forall>k. wt_id t = wt_id (new_tab env k) \<longrightarrow> k = j)"

text \<open>Tab ids are distinct, an id made for an agent or a terminal is on a tab that shows it, and an
  id that a pane would give to a New tab is on no tab of another pane, and one id is kept free.\<close>

definition tabs_ok :: "string \<Rightarrow> layout_env \<Rightarrow> split_pane list \<Rightarrow> bool" where
  "tabs_ok res env ps \<longleftrightarrow> distinct (ids_of ps) \<and> (\<forall>p \<in> set ps. \<forall>t \<in> set (sp_tabs p). good_tab res env (sp_id p) t)"

definition main_shown :: "split_pane list \<Rightarrow> bool" where
  "main_shown ps \<longleftrightarrow> (\<exists>p \<in> set ps. sp_id p = DEFAULT_PANE_ID \<and> \<not> sp_hidden p)"

definition rec_ok :: "string \<Rightarrow> string option \<Rightarrow> layout_env \<Rightarrow> layout \<Rightarrow> bool" where
  "rec_ok res ex env l \<longleftrightarrow> layout_ok ex l \<and> main_shown (panes (lo_tree l)) \<and> tabs_ok res env (panes (lo_tree l))"

definition fresh_env :: "string \<Rightarrow> string option \<Rightarrow> layout_env \<Rightarrow> bool" where
  "fresh_env res ex env \<longleftrightarrow>
     env_ok env \<and> inj (le_messageId env) \<and> ex \<noteq> Some DEFAULT_PANE_ID \<and> wf_id res \<and>
     (\<forall>a. res \<noteq> ''tab_'' @ a \<and> res \<noteq> ''agent_'' @ a \<and> res \<noteq> ''terminal_'' @ a)"

lemma upd_const:
  "distinct (map sp_id ps) \<Longrightarrow> p \<in> set ps \<Longrightarrow> sp_id p = i \<Longrightarrow> upd i f ps = upd i (\<lambda>_. f p) ps"
  by (auto simp: upd_def distinct_map inj_on_def)

lemma upd_mem: "p \<in> set ps \<Longrightarrow> sp_id p = i \<Longrightarrow> f p \<in> set (upd i f ps)"
  by (auto simp: upd_def image_iff intro!: bexI[of _ p])

lemma tabs_ok_upd:
  assumes "tabs_ok res env ps" "distinct (map sp_id ps)" "p \<in> set ps" "sp_id p = i" "sp_id q = i"
    "distinct (map wt_id (sp_tabs q))"
    "\<And>t. t \<in> set (sp_tabs q) \<Longrightarrow> wt_id t \<in> wt_id ` set (sp_tabs p) \<or> wt_id t \<notin> set (ids_of ps)"
    "\<And>t. t \<in> set (sp_tabs q) \<Longrightarrow> good_tab res env i t"
  shows "tabs_ok res env (upd i (\<lambda>_. q) ps)"
proof -
  obtain xs ys where ps: "ps = xs @ p # ys" using assms(3) by (meson split_list)
  have u: "upd i (\<lambda>_. q) (xs @ p # ys) = xs @ q # ys" using upd_split[of xs p ys "\<lambda>_. q"] assms(2,4) ps by simp
  have d: "distinct (ids_of xs)" "distinct (ids_of ys)" "set (ids_of xs) \<inter> set (ids_of ys) = {}"
    "wt_id ` set (sp_tabs p) \<inter> (set (ids_of xs) \<union> set (ids_of ys)) = {}"
    using assms(1) by (auto simp: tabs_ok_def ps)
  have "wt_id ` set (sp_tabs q) \<inter> (set (ids_of xs) \<union> set (ids_of ys)) = {}"
    using assms(7) d(4) by (fastforce simp: ps)
  then have "distinct (ids_of (xs @ q # ys))" using d(1-3) assms(6) by auto
  then show ?thesis using assms(1,5,8) unfolding tabs_ok_def ps u by auto
qed

lemma tabs_ok_filter: "tabs_ok res env ps \<Longrightarrow> tabs_ok res env (filter Q ps)"
proof -
  assume a: "tabs_ok res env ps"
  have "distinct (ids_of (filter Q xs)) \<and> set (ids_of (filter Q xs)) \<subseteq> set (ids_of xs)"
    if "distinct (ids_of xs)" for xs
    using that by (induction xs) auto
  then show ?thesis using a by (auto simp: tabs_ok_def)
qed

lemma good_new_tab:
  assumes "inj (le_messageId env)" "\<forall>k. res \<noteq> wt_id (new_tab env k)"
  shows "good_tab res env j (new_tab env j)"
  using assms by (auto simp: good_tab_def id_matches_def inj_def)

lemma rec_okD:
  assumes "rec_ok res ex env l"
  shows "layout_ok ex l" "main_shown (panes (lo_tree l))" "tabs_ok res env (panes (lo_tree l))"
    "distinct (open_tab_ids (lo_tree l))" "tree_ok (lo_tree l)"
  using assms layout_okD(1) by (auto simp: rec_ok_def tabs_ok_def open_tab_ids_panes ids_of_def)

section \<open>Closing a tab\<close>

lemma main_not_last:
  assumes "main_shown (panes (lo_tree l))" "ex \<noteq> Some DEFAULT_PANE_ID"
  shows "\<not> closes_last_pane ex l i"
proof
  assume c: "closes_last_pane ex l i"
  then obtain p where p: "findPaneContainingTab (lo_tree l) i = Some p" "visible_ordinary ex (panes (lo_tree l)) = [p]"
    by (auto simp: closes_last_pane_def lone_tab_def split: option.splits)
  obtain q where "q \<in> set (panes (lo_tree l))" "sp_id q = DEFAULT_PANE_ID" "\<not> sp_hidden q"
    using assms(1) by (auto simp: main_shown_def)
  then have "q \<in> set (visible_ordinary ex (panes (lo_tree l)))" using assms(2) by (auto simp: visible_ordinary_def)
  then have "sp_id p = DEFAULT_PANE_ID" using p(2) \<open>sp_id q = _\<close> by simp
  then show False using c p(1) by (simp add: closes_last_pane_def pane_id_of_def)
qed

lemma detach_rec:
  assumes "tree_ok t" "tabs_ok res env (panes t)" "main_shown (panes t)" "inj (le_messageId env)"
    "find (has_tab i) (panes t) = Some p" "sp_id p = DEFAULT_PANE_ID \<Longrightarrow> pr = Some (sp_id p)"
    "\<forall>k. res \<noteq> wt_id (new_tab env k)"
  shows "tabs_ok res env (detach_panes env i pr p (panes t))" "main_shown (detach_panes env i pr p (panes t))"
proof -
  note d = tree_okD(2)[OF assms(1)]
  have p: "p \<in> set (panes t)" using find_SomeD[OF assms(5)] by simp
  note cp = closed_pane_simps[OF tree_okD(3)[OF assms(1) p], of i]
  have gp: "good_tab res env (sp_id p) u" if "u \<in> set (sp_tabs p)" for u
    using assms(2) p that by (auto simp: tabs_ok_def)
  have c: "tabs_ok res env (upd (sp_id p) (\<lambda>_. closed_pane i p) (panes t))"
    by (rule tabs_ok_upd[OF assms(2) d p refl cp(2)])
      (use gp wf_paneD(3)[OF tree_okD(3)[OF assms(1) p]] in \<open>auto simp: cp(4) distinct_map_filter\<close>)
  have n: "wt_id (new_tab env (sp_id p)) \<in> wt_id ` set (sp_tabs p) \<or> wt_id (new_tab env (sp_id p)) \<notin> set (ids_of (panes t))"
  proof (cases "wt_id (new_tab env (sp_id p)) \<in> set (ids_of (panes t))")
    case True
    then obtain r u where r: "r \<in> set (panes t)" "u \<in> set (sp_tabs r)" "wt_id u = wt_id (new_tab env (sp_id p))"
      unfolding ids_of_def set_map set_concat by (auto simp del: new_tab_simps)
    then have "sp_id p = sp_id r" using assms(2) by (auto simp: tabs_ok_def good_tab_def simp del: new_tab_simps)
    then have "r = p" using d r(1) p by (metis distinct_map inj_onD)
    then show ?thesis using r by (metis imageI)
  qed simp
  have f: "tabs_ok res env (upd (sp_id p) (\<lambda>_. fresh_pane env (sp_id p) h) (panes t))" for h
    by (rule tabs_ok_upd[OF assms(2) d p refl])
      (use n good_new_tab[OF assms(4,7)] in \<open>auto simp: fresh_pane_wf simp del: new_tab_simps\<close>)
  have s: "tabs_ok res env [fresh_pane env j h]" for j h
    using good_new_tab[OF assms(4,7)] by (simp add: tabs_ok_def fresh_pane_wf)
  show "tabs_ok res env (detach_panes env i pr p (panes t))"
    using c f s tabs_ok_filter[OF assms(2)] by (simp add: detach_panes_def Let_def)
  obtain q where q: "q \<in> set (panes t)" "sp_id q = DEFAULT_PANE_ID" "\<not> sp_hidden q"
    using assms(3) by (auto simp: main_shown_def)
  show "main_shown (detach_panes env i pr p (panes t))"
  proof (cases "sp_id p = DEFAULT_PANE_ID")
    case True
    have "q = p" using True q p d by (metis distinct_map inj_onD)
    have u: "main_shown (upd (sp_id p) (\<lambda>_. r) (panes t))" if "sp_id r = sp_id p" "\<not> sp_hidden r" for r
      using upd_mem[OF p refl, of "\<lambda>_. r"] that True by (auto simp: main_shown_def)
    show ?thesis
      using u assms(6)[OF True] q(3) \<open>q = p\<close> cp(2,3) by (auto simp: detach_panes_def Let_def fresh_pane_wf)
  next
    case False
    then have "q \<in> set (detach_panes env i pr p (panes t))" using detach_panes_other[OF q(1) _ p] q(2) by simp
    then show ?thesis using q by (auto simp: main_shown_def)
  qed
qed

lemma focusTab_panes:
  assumes "focusTabInLayout n s = Inr (Some x)" "tree_ok (lo_tree n)"
  obtains q where "q \<in> set (panes (lo_tree n))" "panes (lo_tree x) = upd (sp_id q) (\<lambda>_. focused_pane s q) (panes (lo_tree n))"
proof -
  obtain q where q: "findPaneContainingTab (lo_tree n) s = Some q"
    using assms(1) by (auto simp: focusTabInLayout_def split: option.splits)
  have qq: "q \<in> set (panes (lo_tree n))" using findPaneContainingTab_Some[OF q] by simp
  obtain t' where t': "focusTabInPane (lo_tree n) (sp_id q) s = Inr t'"
    "panes t' = upd (sp_id q) (focused_pane s) (panes (lo_tree n))"
    using focusTabInPane_ok[OF assms(2) qq refl] by metis
  have "lo_tree x = t'" using assms(1) q t'(1) by (auto simp: focusTabInLayout_def split: if_splits)
  then show ?thesis using that[OF qq] t'(2) upd_const[OF tree_okD(2)[OF assms(2)] qq refl] by simp
qed

lemma good_pane_tab: "tabs_ok res env ps \<Longrightarrow> p \<in> set ps \<Longrightarrow> t \<in> set (sp_tabs p) \<Longrightarrow> good_tab res env (sp_id p) t"
  by (simp add: tabs_ok_def)

lemma main_shown_upd:
  assumes "main_shown ps" "sp_id q = i" "sp_hidden q \<Longrightarrow> sp_hidden p" "p \<in> set ps" "sp_id p = i" "distinct (map sp_id ps)"
  shows "main_shown (upd i (\<lambda>_. q) ps)"
proof -
  obtain r where r: "r \<in> set ps" "sp_id r = DEFAULT_PANE_ID" "\<not> sp_hidden r" using assms(1) by (auto simp: main_shown_def)
  show ?thesis
  proof (cases "sp_id r = i")
    case True
    then have "r = p" using r(1) assms(4-6) by (metis distinct_map inj_onD)
    then show ?thesis using upd_mem[OF assms(4,5), of "\<lambda>_. q"] assms(2,3,5) r by (auto simp: main_shown_def)
  next
    case False
    then have "r \<in> set (upd i (\<lambda>_. q) ps)" using r(1) by (auto simp: upd_def)
    then show ?thesis using r by (auto simp: main_shown_def)
  qed
qed

lemma focus_rec:
  assumes "focusTabInLayout n s = Inr (Some x)" "tree_ok (lo_tree n)" "tabs_ok res env (panes (lo_tree n))"
    "main_shown (panes (lo_tree n))"
  shows "tabs_ok res env (panes (lo_tree x))" "main_shown (panes (lo_tree x))"
proof -
  obtain q where q: "q \<in> set (panes (lo_tree n))"
    "panes (lo_tree x) = upd (sp_id q) (\<lambda>_. focused_pane s q) (panes (lo_tree n))"
    by (rule focusTab_panes[OF assms(1,2)])
  note w = tree_okD(3)[OF assms(2) q(1)]
  show "tabs_ok res env (panes (lo_tree x))"
    unfolding q(2)
    by (rule tabs_ok_upd[OF assms(3) tree_okD(2)[OF assms(2)] q(1) refl])
      (use good_pane_tab[OF assms(3) q(1)] wf_paneD(3)[OF w] in \<open>simp_all add: focused_pane_tabs[OF w] focused_pane_simps\<close>)
  show "main_shown (panes (lo_tree x))"
    unfolding q(2)
    by (rule main_shown_upd[OF assms(4) _ _ q(1) refl tree_okD(2)[OF assms(2)]]) (simp_all add: focused_pane_simps)
qed

lemma close_some:
  "findPaneContainingTab (lo_tree l) i = Some p \<Longrightarrow> closeTabInLayout env l i keep \<noteq> Inr None"
  by (auto simp: closeTabInLayout_def Let_def ebind_Inr_iff split: option.splits if_splits)

lemma content_tab:
  "t \<in># layout_content l \<longleftrightarrow> t \<in> set (collectAllTabs (lo_tree l)) \<and> wt_target t \<noteq> Tab_new"
  by (auto simp: layout_content_def content_def collectAllTabs_panes)

lemma close_step:
  assumes "rec_ok res ex env l" "fresh_env res ex env" "t \<in># layout_content l"
  obtains m where "close_tab env (wt_id t) l = Inr m" "rec_ok res ex env m" "layout_content m + {#t#} = layout_content l"
proof -
  note r = rec_okD[OF assms(1)]
  have e: "env_ok env" "inj (le_messageId env)" "ex \<noteq> Some DEFAULT_PANE_ID" "\<forall>k. res \<noteq> wt_id (new_tab env k)"
    using assms(2) by (auto simp: fresh_env_def)
  have t: "t \<in> set (collectAllTabs (lo_tree l))" "wt_target t \<noteq> Tab_new" using assms(3) by (simp_all add: content_tab)
  obtain p where p: "find (has_tab (wt_id t)) (panes (lo_tree l)) = Some p" using collect_has_tab[OF t(1)] .
  have "ok_result ex (closeTabInLayout env l (wt_id t) None)"
    by (rule closeTabInLayout_ok[OF r(1) e(1) main_not_last[OF r(2) e(3)]]) simp
  then obtain m where m: "closeTabInLayout env l (wt_id t) None = Inr (Some m)" "layout_ok ex m"
    using close_some p find_has_tab by (auto simp: ok_result_def split: sum.splits option.splits)
  obtain q and d :: detached and tab k where c: "find (has_tab (wt_id t)) (panes (lo_tree l)) = Some q"
    "k = or_else None (if sp_id q = DEFAULT_PANE_ID \<or> sp_id q = EXPLORER_SIDEBAR_PANE_ID then Some (sp_id q) else None)"
    "panes (de_tree d) = detach_panes env (wt_id t) k q (panes (lo_tree l))" "wf_node (de_tree d)"
    "lo_tree m = de_tree d \<or> (\<exists>n s x. lo_tree n = de_tree d \<and> focusTabInLayout n s = Inr (Some x) \<and> lo_tree m = lo_tree x)"
    by (rule closeTab_run[OF r(1) e(1) m(1)]) blast
  have d: "tabs_ok res env (panes (de_tree d))" "main_shown (panes (de_tree d))"
    unfolding c(3) using detach_rec[OF r(5,3,2) e(2) c(1) _ e(4), of k] c(2) by (auto simp: or_else_def)
  have dt: "tree_ok (de_tree d)" using detached_tree_ok[OF r(5) c(1) e(1) c(3,4)] .
  have "rec_ok res ex env m"
    using c(5) d m(2) dt focus_rec by (metis rec_ok_def)
  moreover obtain u where "u \<in> set (collectAllTabs (lo_tree l))" "wt_id u = wt_id t"
    "layout_content m + tab_content u = layout_content l"
    using closeTab_content[OF r(1) e(1) m(1)] by blast
  then have "layout_content m + {#t#} = layout_content l"
    using r(4) t by (metis distinct_map inj_onD open_tab_ids_def tab_content_def)
  ultimately show ?thesis using that m(1) by (simp add: close_tab_def or_layout_def)
qed

lemma close_all:
  assumes "fresh_env res ex env"
  shows "rec_ok res ex env l \<Longrightarrow> mset ts \<subseteq># layout_content l \<Longrightarrow>
    \<exists>m. efold (close_tab env) (map wt_id ts) l = Inr m \<and> rec_ok res ex env m \<and> layout_content m + mset ts = layout_content l"
proof (induction ts arbitrary: l)
  case (Cons t ts)
  have "t \<in># layout_content l" using Cons.prems(2) by (metis insert_subset_eq_iff mset.simps(2))
  then obtain m where m: "close_tab env (wt_id t) l = Inr m" "rec_ok res ex env m" "layout_content m + {#t#} = layout_content l"
    using close_step[OF Cons.prems(1) assms] by metis
  have "mset ts \<subseteq># layout_content m" using Cons.prems(2) m(3) by (metis add_mset_add_single mset.simps(2) mset_subset_eq_add_mset_cancel)
  then show ?case using Cons.IH[OF m(2)] m by auto
qed simp

section \<open>Opening a tab\<close>

lemma resolve_some:
  assumes "\<And>h. panelSupportsHost target h" "visible_ordinary ex (panes (lo_tree l)) \<noteq> []"
  shows "resolvePlacementPane l target pl explorer \<noteq> None"
proof -
  have "find (supports_target explorer target) (collectAllPanes (lo_tree l)) \<noteq> None"
    using assms by (auto simp: find_None_iff supports_target_def visible_ordinary_def filter_empty_conv collectAllPanes_panes)
  then show ?thesis by (auto simp: resolvePlacementPane_def Let_def or_else_def split: option.splits)
qed

text \<open>The pane a new tab goes to, before and after.\<close>

lemma insertNewTab_pane:
  assumes "layout_ok ex l" "distinct (open_tab_ids (lo_tree l))" "wf_target target" "target \<noteq> Tab_new"
    "wf_id i" "i \<notin> set (open_tab_ids (lo_tree l))"
    "insertNewTabIntoPane env l target pl explorer (Inr i) st foc = Inr (Some (m, j))"
  obtains p q where "p \<in> set (panes (lo_tree l))" "panes (lo_tree m) = upd (sp_id p) (\<lambda>_. q) (panes (lo_tree l))"
    "sp_id q = sp_id p" "sp_hidden q = sp_hidden p" "distinct (map wt_id (sp_tabs q))"
    "\<And>t. t \<in> set (sp_tabs q) \<Longrightarrow> t \<in> set (sp_tabs p) \<or> wt_id t = i \<and> wt_target t = target"
proof -
  note ok = layout_okD[OF assms(1)]
  obtain p where pl: "resolvePlacementPane l target pl explorer = Some p"
    using assms(7) by (auto simp: insertNewTabIntoPane_def split: option.splits)
  have p: "p \<in> set (panes (lo_tree l))" using resolvePlacement_in[OF pl ok(1)] by simp
  note wp = tree_okD(3)[OF ok(1) p]
  note const = upd_const[OF tree_okD(2)[OF ok(1)] p refl]
  show ?thesis
  proof (cases "isSoleNewTabPane p")
    case True
    then obtain n where n: "sp_tabs p = [n]" "wt_target n = Tab_new"
      by (auto simp: isSoleNewTabPane_def split: list.splits)
    obtain t' where t': "replaceTabInTree (lo_tree l) (wt_id n) i target st = Inr t'" "lo_tree m = t'"
      using assms(4,7) pl True n by (auto simp: insertNewTabIntoPane_def ebind_Inr_iff)
    let ?q = "replaced_pane (wt_id n) i target st p"
    have "find (has_tab (wt_id n)) (panes (lo_tree l)) = Some p"
      using tab_in_pane_unique(1)[OF assms(2) p, of n] n(1) by simp
    then have "panes t' = upd (sp_id p) (replaced_pane (wt_id n) i target st) (panes (lo_tree l))"
      using replaceTabInTree_ok[OF ok(1) _ assms(5,3), of "wt_id n" p st] t'(1) by (metis Inr_inject)
    note u = this[unfolded const[of "replaced_pane (wt_id n) i target st"]]
    note rp = replaced_pane_ok[OF wp assms(5,3), of "wt_id n" st]
    have "sp_tabs ?q = normalizeWorkspaceTabs [retabbed (wt_id n) i target st n]" by (simp add: replaced_pane_def n(1))
    also have "\<dots> = [retabbed (wt_id n) i target st n]"
      using assms(3,5) by (intro normalizeWorkspaceTabs_id) (simp_all add: retabbed_def wf_tab_def)
    finally have t: "sp_tabs ?q = [retabbed (wt_id n) i target st n]" .
    show ?thesis
      by (rule that[OF p u[folded t'(2)]]) (use rp n(1) t in \<open>auto simp: retabbed_def\<close>)
  next
    case False
    define tab where "tab = \<lparr>wt_id = i, wt_target = target, wt_createdAt = le_now env, wt_state = st\<rparr>"
    define f where "f = (if foc then Some i else or_else (sp_focusedTabId p) (Some i))"
    obtain t' where t': "insertTabIntoPane (lo_tree l) (sp_id p) tab f = Inr t'" "lo_tree m = t'"
      using assms(7) pl False by (auto simp: insertNewTabIntoPane_def ebind_Inr_iff tab_def f_def)
    have w: "wf_tab tab" using assms(3,5) by (simp add: tab_def wf_tab_def)
    let ?q = "inserted_pane tab f p"
    have "panes t' = upd (sp_id p) (inserted_pane tab f) (panes (lo_tree l))"
      using insertTabIntoPane_ok[OF ok(1) p refl w, of f] t'(1) by (metis Inr_inject)
    note u = this[unfolded const[of "inserted_pane tab f"]]
    have fr: "i \<notin> wt_id ` set (sp_tabs p)" using assms(6) p by (auto simp: open_tab_ids_panes)
    then have "normalizeWorkspaceTabs (sp_tabs p @ [tab]) = sp_tabs p @ [tab]"
      using wf_paneD(2,3)[OF wp] w by (intro normalizeWorkspaceTabs_id) (auto simp: tab_def)
    then have t: "sp_tabs ?q = sp_tabs p @ [tab]"
      using False fr by (simp add: inserted_pane_def has_tab_iff tab_def)
    show ?thesis
      by (rule that[OF p u[folded t'(2)]])
        (use inserted_pane_ok[OF wp w tree_okD(4)[OF ok(1) p]] wf_paneD(3)[OF wp] fr t in \<open>auto simp: tab_def\<close>)
  qed
qed

lemma insert_step:
  assumes "rec_ok res ex env l" "wf_target target" "target \<noteq> Tab_new" "wf_id i" "i \<notin> set (open_tab_ids (lo_tree l))"
    "id_matches i target" "\<And>k. i \<noteq> wt_id (new_tab env k)" "\<And>h. panelSupportsHost target h" "i \<noteq> res"
  obtains m now where "insertNewTabIntoPane env l target pl explorer (Inr i) st foc = Inr (Some (m, i))" "rec_ok res ex env m"
    "layout_content m = layout_content l + {#\<lparr>wt_id = i, wt_target = target, wt_createdAt = now, wt_state = st\<rparr>#}"
proof -
  note r = rec_okD[OF assms(1)]
  have "ok_pair ex (insertNewTabIntoPane env l target pl explorer (Inr i) st foc)"
    by (rule insertNewTab_ok[OF r(1) assms(2) refl assms(4)])
  moreover have "insertNewTabIntoPane env l target pl explorer (Inr i) st foc \<noteq> Inr None"
    using resolve_some[OF assms(8) layout_okD(3)[OF r(1)], where pl = pl and explorer = explorer]
    by (auto simp: insertNewTabIntoPane_def Let_def ebind_Inr_iff split: option.splits if_splits)
  ultimately obtain m j where m: "insertNewTabIntoPane env l target pl explorer (Inr i) st foc = Inr (Some (m, j))"
    "layout_ok ex m"
    by (auto simp: ok_pair_def split: sum.splits option.splits)
  note c = insertNewTab_content[OF r(1,4) assms(2-5) m(1)]
  obtain p q where q: "p \<in> set (panes (lo_tree l))" "panes (lo_tree m) = upd (sp_id p) (\<lambda>_. q) (panes (lo_tree l))"
    "sp_id q = sp_id p" "sp_hidden q = sp_hidden p" "distinct (map wt_id (sp_tabs q))"
    "\<And>t. t \<in> set (sp_tabs q) \<Longrightarrow> t \<in> set (sp_tabs p) \<or> wt_id t = i \<and> wt_target t = target"
    by (rule insertNewTab_pane[OF r(1,4) assms(2-5) m(1)]) blast
  have "tabs_ok res env (panes (lo_tree m))"
    unfolding q(2)
  proof (rule tabs_ok_upd[OF r(3) tree_okD(2)[OF r(5)] q(1) refl q(3,5)])
    fix t assume t: "t \<in> set (sp_tabs q)"
    show "wt_id t \<in> wt_id ` set (sp_tabs p) \<or> wt_id t \<notin> set (ids_of (panes (lo_tree l)))"
      using q(6)[OF t] assms(5) by (auto simp: open_tab_ids_panes ids_of_def)
    show "good_tab res env (sp_id p) t"
      using q(6)[OF t] good_pane_tab[OF r(3) q(1)] assms(6,7,9) by (auto simp: good_tab_def simp del: new_tab_simps)
  qed
  moreover have "main_shown (panes (lo_tree m))"
    unfolding q(2) using main_shown_upd[OF r(2) q(3) _ q(1) refl tree_okD(2)[OF r(5)]] q(4) by simp
  ultimately show ?thesis using that m c by (auto simp: rec_ok_def)
qed

section \<open>Entities\<close>

text \<open>The targets of the tabs for agents and terminals, and the tabs for anything else.\<close>

definition entities :: "layout \<Rightarrow> tab_target multiset" where
  "entities l = image_mset wt_target (filter_mset (\<lambda>t. isEntityTarget (wt_target t)) (layout_content l))"

definition others :: "layout \<Rightarrow> workspace_tab multiset" where
  "others l = filter_mset (\<lambda>t. \<not> isEntityTarget (wt_target t)) (layout_content l)"

fun entity_key :: "tab_target \<Rightarrow> string" where
  "entity_key (Tab_agent a) = ''agent_'' @ a"
| "entity_key (Tab_terminal a) = ''terminal_'' @ a"
| "entity_key _ = []"

lemma entity_cases: "isEntityTarget t \<Longrightarrow> (\<And>a. t = Tab_agent a \<Longrightarrow> P) \<Longrightarrow> (\<And>a. t = Tab_terminal a \<Longrightarrow> P) \<Longrightarrow> P"
  by (cases t) auto

lemma entity_key_inj: "isEntityTarget t \<Longrightarrow> isEntityTarget u \<Longrightarrow> entity_key t = entity_key u \<longleftrightarrow> t = u"
  by (elim entity_cases) auto

lemma entity_facts:
  assumes "isEntityTarget t"
  shows "buildDeterministicWorkspaceTabId t = Inr (entity_key t)" "t \<noteq> Tab_new" "panelSupportsHost t h"
    "entity_key t \<noteq> wt_id (new_tab env k)" "id_matches (entity_key t) t" "workspaceTabTargetsEqual t t"
  using assms by (elim entity_cases; simp add: panelSupportsHost_def id_matches_def workspaceTabTargetsEqual_def)+

lemma good_entity_id:
  assumes "tabs_ok res env (panes (lo_tree l))" "isEntityTarget u" "entity_key u \<in> set (open_tab_ids (lo_tree l))"
  shows "u \<in># entities l"
proof -
  obtain p t where t: "p \<in> set (panes (lo_tree l))" "t \<in> set (sp_tabs p)" "wt_id t = entity_key u"
    using assms(3) by (auto simp: open_tab_ids_panes)
  have "good_tab res env (sp_id p) t" using good_pane_tab[OF assms(1) t(1,2)] .
  then have "wt_target t = u" using t(3) assms(2) by (auto simp: good_tab_def id_matches_def elim!: entity_cases)
  moreover have "t \<in> set (collectAllTabs (lo_tree l))" using t(1,2) by (auto simp: collectAllTabs_panes)
  ultimately show ?thesis
    using assms(2) entity_facts(2)[OF assms(2)] content_tab[of t l] by (auto simp: entities_def)
qed

lemma open_entity:
  assumes "rec_ok res ex env l" "isEntityTarget u" "wf_target u" "u \<notin># entities l" "fresh_env res ex env"
  obtains m where "openEntityTabWithoutFocusing env explorer u l = Inr m" "rec_ok res ex env m"
    "entities m = entities l + {#u#}" "others m = others l"
proof -
  note f = entity_facts[OF assms(2)]
  have w: "wf_id (entity_key u)" using deterministic_id_normal[OF assms(3) f(2)] f(1) by simp
  have n: "entity_key u \<notin> set (open_tab_ids (lo_tree l))"
    using good_entity_id[OF rec_okD(3)[OF assms(1)] assms(2)] assms(4) by blast
  have nr: "entity_key u \<noteq> res" using assms(2,5) by (auto simp: fresh_env_def elim!: entity_cases)
  obtain m now where m: "insertNewTabIntoPane env l u Ambient explorer (Inr (entity_key u)) None False = Inr (Some (m, entity_key u))"
    "rec_ok res ex env m"
    "layout_content m = layout_content l + {#\<lparr>wt_id = entity_key u, wt_target = u, wt_createdAt = now, wt_state = None\<rparr>#}"
    by (rule insert_step[OF assms(1,3) f(2) w n f(5) f(4) f(3) nr, where pl = Ambient and explorer = explorer and st = None and foc = False])
  show ?thesis
    by (rule that[of m])
      (use m assms(2) f(1) in \<open>simp_all add: openEntityTabWithoutFocusing_def entities_def others_def\<close>)
qed

lemma open_entities:
  assumes "\<And>a. isEntityTarget (f a)" "inj f" "fresh_env res ex env"
  shows "rec_ok res ex env l \<Longrightarrow> distinct is \<Longrightarrow> (\<And>a. a \<in> set is \<Longrightarrow> wf_target (f a) \<and> f a \<notin># entities l) \<Longrightarrow>
    \<exists>m. efold (\<lambda>i. openEntityTabWithoutFocusing env explorer (f i)) is l = Inr m \<and> rec_ok res ex env m \<and>
        entities m = entities l + mset (map f is) \<and> others m = others l"
proof (induction "is" arbitrary: l)
  case (Cons a as)
  obtain m where m: "openEntityTabWithoutFocusing env explorer (f a) l = Inr m" "rec_ok res ex env m"
    "entities m = entities l + {#f a#}" "others m = others l"
    by (rule open_entity[OF Cons.prems(1) assms(1) _ _ assms(3), of a explorer]) (use Cons.prems(3) in auto)
  have "wf_target (f b) \<and> f b \<notin># entities m" if "b \<in> set as" for b
    using Cons.prems(2,3) that m(3) assms(2) by (auto simp: inj_eq)
  then show ?case using Cons.IH[OF m(2)] Cons.prems(2) m by auto
qed simp

section \<open>Groups\<close>

text \<open>A group holds the tabs of one agent or terminal, in their order.\<close>

definition good_groups :: "tab_groups \<Rightarrow> bool" where
  "good_groups gs \<longleftrightarrow> distinct (map fst gs) \<and>
     (\<forall>(k, u, ts) \<in> set gs. ts \<noteq> [] \<and> isEntityTarget u \<and> k = entity_key u \<and> (\<forall>t \<in> set ts. wt_target t = u))"

definition grouped :: "tab_groups \<Rightarrow> workspace_tab list" where
  "grouped gs = concat (map (\<lambda>(k, u, ts). ts) gs)"

lemma add_to_group_good:
  assumes "good_groups gs" "isEntityTarget (wt_target tab)"
  shows "good_groups (add_to_group (entity_key (wt_target tab)) (wt_target tab) tab gs)"
    "mset (grouped (add_to_group (entity_key (wt_target tab)) (wt_target tab) tab gs)) = mset (grouped gs) + {#tab#}"
proof -
  define k where "k = entity_key (wt_target tab)"
  have d: "distinct (map fst gs)" using assms(1) by (simp add: good_groups_def)
  show "good_groups (add_to_group (entity_key (wt_target tab)) (wt_target tab) tab gs)"
  proof (cases "map_of gs k")
    case None
    then show ?thesis
      using assms by (auto simp: add_to_group_def good_groups_def k_def map_of_eq_None_iff)
  next
    case (Some v)
    have f: "map fst (map (\<lambda>(j, t, ts). if j = k then (j, t, ts @ [tab]) else (j, t, ts)) gs) = map fst gs" by auto
    have "u = wt_target tab" if "(k, u, ts) \<in> set gs" for u ts
      using that assms entity_key_inj by (fastforce simp: good_groups_def k_def)
    then have "ts @ [tab] \<noteq> [] \<and> isEntityTarget u \<and> j = entity_key u \<and> (\<forall>t \<in> set (ts @ [tab]). wt_target t = u)"
      if "(j, u, ts) \<in> set gs" "j = k" for j u ts
      using that assms by (fastforce simp: good_groups_def)
    then have "case (if j = k then (j, u, ts @ [tab]) else (j, u, ts)) of (k, u, ts) \<Rightarrow>
        ts \<noteq> [] \<and> isEntityTarget u \<and> k = entity_key u \<and> (\<forall>t \<in> set ts. wt_target t = u)"
      if "(j, u, ts) \<in> set gs" for j u ts
      using that assms(1) by (auto simp: good_groups_def split: if_splits)
    note each = this
    have "\<forall>g \<in> set (map (\<lambda>(j, t, ts). if j = k then (j, t, ts @ [tab]) else (j, t, ts)) gs).
        case g of (k, u, ts) \<Rightarrow> ts \<noteq> [] \<and> isEntityTarget u \<and> k = entity_key u \<and> (\<forall>t \<in> set ts. wt_target t = u)"
    proof
      fix g assume "g \<in> set (map (\<lambda>(j, t, ts). if j = k then (j, t, ts @ [tab]) else (j, t, ts)) gs)"
      then obtain j u ts where "(j, u, ts) \<in> set gs" "g = (if j = k then (j, u, ts @ [tab]) else (j, u, ts))" by auto
      then show "case g of (k, u, ts) \<Rightarrow> ts \<noteq> [] \<and> isEntityTarget u \<and> k = entity_key u \<and> (\<forall>t \<in> set ts. wt_target t = u)"
        using each[of j u ts] by simp
    qed
    then have "good_groups (map (\<lambda>(j, t, ts). if j = k then (j, t, ts @ [tab]) else (j, t, ts)) gs)"
      unfolding good_groups_def f using d by blast
    then show ?thesis by (simp add: add_to_group_def k_def[symmetric] Some)
  qed
  have "mset (grouped (map (\<lambda>(j, t, ts). if j = k then (j, t, ts @ [tab]) else (j, t, ts)) gs)) = mset (grouped gs) + {#tab#}"
    if "k \<in> fst ` set gs"
    using that d
  proof (induction gs)
    case (Cons g gs)
    obtain j u ts where g: "g = (j, u, ts)" by (cases g)
    show ?case
    proof (cases "j = k")
      case True
      then have "map (\<lambda>(j, t, ts). if j = k then (j, t, ts @ [tab]) else (j, t, ts)) gs = gs"
        using Cons.prems(2) g by (intro map_idI) force
      then show ?thesis using True g by (simp add: grouped_def)
    next
      case False
      then show ?thesis using Cons g by (auto simp: grouped_def)
    qed
  qed simp
  then show "mset (grouped (add_to_group (entity_key (wt_target tab)) (wt_target tab) tab gs)) = mset (grouped gs) + {#tab#}"
    by (auto simp: add_to_group_def k_def[symmetric] map_of_eq_None_iff grouped_def)
qed

lemma buildGroups_ok:
  "good_groups gs \<Longrightarrow> list_all wf_tab tabs \<Longrightarrow>
   \<exists>hs. buildEntityTabGroups tabs gs = Inr hs \<and> good_groups hs \<and>
        mset (grouped hs) = mset (grouped gs) + mset (filter (\<lambda>t. isEntityTarget (wt_target t)) tabs)"
proof (induction tabs arbitrary: gs)
  case (Cons tab tabs)
  show ?case
  proof (cases "isEntityTarget (wt_target tab)")
    case True
    then have "normalizeWorkspaceTabTarget (wt_target tab) = Some (wt_target tab)"
      using Cons.prems(2) by (simp add: wf_tab_def wf_target_def)
    then show ?thesis
      using Cons.IH[OF add_to_group_good(1)[OF Cons.prems(1) True]] Cons.prems(2) True entity_facts(1)[OF True]
        add_to_group_good(2)[OF Cons.prems(1) True] by auto
  qed (use Cons in auto)
qed simp

section \<open>One tab for each agent and terminal\<close>

definition group_keeper :: "string \<Rightarrow> workspace_tab list \<Rightarrow> workspace_tab option" where
  "group_keeper k ts = or_else (find (\<lambda>t. wt_id t = k) ts) (head_opt ts)"

definition spare :: "string \<Rightarrow> workspace_tab list \<Rightarrow> workspace_tab list" where
  "spare k ts = (case group_keeper k ts of None \<Rightarrow> [] | Some keep \<Rightarrow> filter (\<lambda>t. wt_id t \<noteq> wt_id keep) ts)"

lemma group_keeper_Some:
  assumes "ts \<noteq> []"
  obtains keep where "group_keeper k ts = Some keep" "keep \<in> set ts"
proof (cases "find (\<lambda>t. wt_id t = k) ts")
  case None
  then show ?thesis using that[of "hd ts"] assms by (cases ts) (auto simp: group_keeper_def or_else_def head_opt_def)
next
  case (Some t)
  then show ?thesis using that[of t] find_SomeD[OF Some] by (simp add: group_keeper_def or_else_def)
qed

text \<open>A group without its spare tabs is its keeper.\<close>

lemma spare_rest:
  assumes "ts \<noteq> []" "distinct (map wt_id ts)"
  obtains keep where "group_keeper k ts = Some keep" "keep \<in> set ts" "mset ts = mset (spare k ts) + {#keep#}"
proof -
  obtain keep where k: "group_keeper k ts = Some keep" "keep \<in> set ts" by (rule group_keeper_Some[OF assms(1)])
  have "mset (spare k ts) + {#keep#} = mset ts"
    using mset_filter_id[OF assms(2) find_key[OF assms(2) k(2)]] k(1) by (simp add: spare_def)
  then show ?thesis using that k by simp
qed

lemma collapse_group_ok:
  assumes "fresh_env res ex env" "rec_ok res ex env l" "ts \<noteq> []" "isEntityTarget u" "\<forall>t \<in> set ts. wt_target t = u"
    "mset (spare k ts) \<subseteq># layout_content l"
  shows "\<exists>m f. collapse_group env orig (k, u, ts) (l, focus) = Inr (m, f) \<and> rec_ok res ex env m \<and>
    layout_content m + mset (spare k ts) = layout_content l"
proof -
  obtain keep where keep: "group_keeper k ts = Some keep" "keep \<in> set ts" by (rule group_keeper_Some[OF assms(3)])
  have e: "workspaceTabTargetsEqual (wt_target keep) u" using assms(4,5) keep(2) entity_facts(6) by simp
  obtain m where "efold (close_tab env) (map wt_id (spare k ts)) l = Inr m" "rec_ok res ex env m"
    "layout_content m + mset (spare k ts) = layout_content l"
    using close_all[OF assms(1,2,6)] by blast
  then show ?thesis
    using e keep(1) by (simp add: collapse_group_def group_keeper_def[symmetric] spare_def Let_def)
qed

lemma collapse_groups_ok:
  assumes "fresh_env res ex env"
  shows "rec_ok res ex env l \<Longrightarrow> \<forall>(k, u, ts) \<in> set gs. ts \<noteq> [] \<and> isEntityTarget u \<and> (\<forall>t \<in> set ts. wt_target t = u) \<Longrightarrow>
    mset (concat (map (\<lambda>(k, u, ts). spare k ts) gs)) \<subseteq># layout_content l \<Longrightarrow>
    \<exists>m f. efold (collapse_group env orig) gs (l, focus) = Inr (m, f) \<and> rec_ok res ex env m \<and>
      layout_content m + mset (concat (map (\<lambda>(k, u, ts). spare k ts) gs)) = layout_content l"
proof (induction gs arbitrary: l focus)
  case (Cons g gs)
  obtain k u ts where g: "g = (k, u, ts)" by (cases g)
  let ?rest = "mset (concat (map (\<lambda>(k, u, ts). spare k ts) gs))"
  have s: "mset (spare k ts) + ?rest \<subseteq># layout_content l" using Cons.prems(3) by (simp add: g)
  have t: "ts \<noteq> []" "isEntityTarget u" "\<forall>t \<in> set ts. wt_target t = u" using Cons.prems(2) g by auto
  from s have "mset (spare k ts) \<subseteq># layout_content l" by (metis mset_subset_eq_add_left subset_mset.order_trans)
  then obtain m f where m: "collapse_group env orig (k, u, ts) (l, focus) = Inr (m, f)" "rec_ok res ex env m"
    "layout_content m + mset (spare k ts) = layout_content l"
    using collapse_group_ok[OF assms Cons.prems(1)] t by blast
  have "?rest \<subseteq># layout_content m" using s m(3)[symmetric] by (simp add: add.commute)
  then obtain n h where n: "efold (collapse_group env orig) gs (m, f) = Inr (n, h)" "rec_ok res ex env n"
    "layout_content n + ?rest = layout_content m"
    using Cons.IH[OF m(2), of f] Cons.prems(2) by auto
  have "layout_content n + (mset (spare k ts) + ?rest) = layout_content l"
    by (simp add: m(3)[symmetric] n(3)[symmetric] ac_simps)
  then show ?case using m(1) n(1,2) g by simp
qed simp

lemma groups_content:
  assumes "good_groups gs" "distinct (map wt_id (grouped gs))"
  shows "\<exists>keepers. mset (grouped gs) = mset (concat (map (\<lambda>(k, u, ts). spare k ts) gs)) + mset keepers \<and>
    map wt_target keepers = map (\<lambda>(k, u, ts). u) gs"
  using assms
proof (induction gs)
  case (Cons g gs)
  obtain k u ts where g: "g = (k, u, ts)" by (cases g)
  have gs: "good_groups gs" "distinct (map wt_id (grouped gs))" "distinct (map wt_id ts)" "ts \<noteq> []"
    "\<forall>t \<in> set ts. wt_target t = u"
    using Cons.prems by (auto simp: good_groups_def grouped_def g)
  obtain keepers where k: "mset (grouped gs) = mset (concat (map (\<lambda>(k, u, ts). spare k ts) gs)) + mset keepers"
    "map wt_target keepers = map (\<lambda>(k, u, ts). u) gs"
    using Cons.IH[OF gs(1,2)] by blast
  obtain keep where keep: "keep \<in> set ts" "mset ts = mset (spare k ts) + {#keep#}"
    by (rule spare_rest[OF gs(4,3)])
  have "mset (grouped (g # gs)) = mset ts + mset (grouped gs)" by (simp add: grouped_def g)
  then show ?case
    using k keep gs(5) g by (intro exI[of _ "keep # keepers"]) (simp add: ac_simps)
qed (simp add: grouped_def)

lemma good_groups_targets: "good_groups gs \<Longrightarrow> distinct (map (\<lambda>(k, u, ts). u) gs)"
proof (induction gs)
  case (Cons g gs)
  obtain k u ts where g: "g = (k, u, ts)" by (cases g)
  have "k = entity_key u" using Cons.prems by (simp add: good_groups_def g)
  moreover have "k \<notin> fst ` set gs" using Cons.prems by (auto simp: good_groups_def g)
  moreover have "j = entity_key v" if "(j, v, vs) \<in> set gs" for j v vs
    using Cons.prems that by (auto simp: good_groups_def)
  ultimately have "v \<noteq> u" if "(j, v, vs) \<in> set gs" for j v vs using that by (metis fst_conv imageI)
  then have "u \<notin> set (map (\<lambda>(k, u, ts). u) gs)" by auto
  then show ?case using Cons g by (auto simp: good_groups_def)
qed simp

end
