(* ===== verification/Reconcile_Result.thy ===== *)
theory Reconcile_Result
  imports Reconcile_Spec
begin

text \<open>
  The stages of a reconciliation one after the other, and what they make of a workspace together.
\<close>

section \<open>The stages\<close>

lemma filter_mset_all: "(\<And>x. x \<in># M \<Longrightarrow> Q x) \<Longrightarrow> filter_mset Q M = M"
  by (induction M) auto

lemma filter_mset_none: "(\<And>x. x \<in># M \<Longrightarrow> \<not> Q x) \<Longrightarrow> filter_mset Q M = {#}"
  by (induction M) auto

lemma image_filter_mset: "image_mset f (filter_mset (\<lambda>x. Q (f x)) M) = filter_mset Q (image_mset f M)"
  by (induction M) auto

lemma filter_mset_twice: "filter_mset Q (filter_mset R M) = filter_mset R (filter_mset Q M)"
  by (induction M) auto

lemma filter_mset_sub: "(\<And>x. Q x \<Longrightarrow> R x) \<Longrightarrow> filter_mset Q (filter_mset R M) = filter_mset Q M"
  by (induction M) auto

lemma entities_collect:
  "filter_mset (\<lambda>t. isEntityTarget (wt_target t)) (layout_content l) =
     mset (filter (\<lambda>t. isEntityTarget (wt_target t)) (collectAllTabs (lo_tree l)))"
proof -
  have "filter (\<lambda>t. isEntityTarget (wt_target t)) (filter (\<lambda>t. wt_target t \<noteq> Tab_new) ts) =
      filter (\<lambda>t. isEntityTarget (wt_target t)) ts" for ts
    by (induction ts) auto
  note all = this
  show ?thesis unfolding layout_content_def content_def collectAllTabs_panes mset_filter[symmetric] all ..
qed

lemma in_entities: "u \<in># entities l \<longleftrightarrow> isEntityTarget u \<and> u \<in> wt_target ` set (collectAllTabs (lo_tree l))"
  by (auto simp: entities_def entities_collect)

lemma collect_wf_all: "tree_ok t \<Longrightarrow> list_all wf_tab (collectAllTabs t)"
  by (simp add: list_all_iff collect_wf)

lemma good_groups_set:
  assumes "good_groups gs"
  shows "set (map (\<lambda>(k, u, ts). u) gs) = wt_target ` set (grouped gs)"
  using assms
proof (induction gs)
  case (Cons g gs)
  obtain k u ts where g: "g = (k, u, ts)" by (cases g)
  have "ts \<noteq> []" "\<forall>t \<in> set ts. wt_target t = u" "good_groups gs" using Cons.prems by (auto simp: good_groups_def g)
  then have "wt_target ` set ts = {u}" by (cases ts) auto
  then show ?case using Cons.IH[OF \<open>good_groups gs\<close>] by (simp add: g grouped_def image_Un)
qed (simp add: grouped_def)

lemma groups_stage:
  assumes "fresh_env res ex env" "rec_ok res ex env l"
  obtains gs m f where "buildEntityTabGroups (collectAllTabs (lo_tree l)) [] = Inr gs"
    "efold (collapse_group env orig) gs (l, focus) = Inr (m, f)" "rec_ok res ex env m"
    "entities m = mset_set (set_mset (entities l))" "others m = others l"
proof -
  let ?E = "filter (\<lambda>t. isEntityTarget (wt_target t)) (collectAllTabs (lo_tree l))"
  note r = rec_okD[OF assms(2)]
  obtain gs where gs: "buildEntityTabGroups (collectAllTabs (lo_tree l)) [] = Inr gs" "good_groups gs"
    "mset (grouped gs) = mset ?E"
    using buildGroups_ok[of "[]" "collectAllTabs (lo_tree l)"] collect_wf_all[OF r(5)]
    by (auto simp: good_groups_def grouped_def)
  let ?S = "concat (map (\<lambda>(k, u, ts). spare k ts) gs)"
  have "distinct (map wt_id ?E)" using r(4) by (simp add: open_tab_ids_def distinct_map_filter)
  then have dg: "distinct (map wt_id (grouped gs))" using gs(3) by (metis mset_eq_imp_distinct_iff mset_map)
  obtain keepers where k: "mset ?E = mset ?S + mset keepers" "map wt_target keepers = map (\<lambda>(k, u, ts). u) gs"
    using groups_content[OF gs(2) dg] gs(3) by auto
  have sE: "mset ?S \<subseteq># mset ?E" using k(1) by simp
  have "mset ?E \<subseteq># layout_content l" using entities_collect[of l] by (metis multiset_filter_subset)
  then have "mset ?S \<subseteq># layout_content l" using sE subset_mset.order_trans by blast
  moreover have "\<forall>(k, u, ts) \<in> set gs. ts \<noteq> [] \<and> isEntityTarget u \<and> (\<forall>t \<in> set ts. wt_target t = u)"
    using gs(2) by (auto simp: good_groups_def)
  ultimately obtain m f where m: "efold (collapse_group env orig) gs (l, focus) = Inr (m, f)" "rec_ok res ex env m"
    "layout_content m + mset ?S = layout_content l"
    using collapse_groups_ok[OF assms(1,2), of gs orig focus] by blast
  have entS: "isEntityTarget (wt_target t)" if "t \<in># mset ?S" for t
    using set_mset_mono[OF sE] that by fastforce
  have S: "filter_mset (\<lambda>t. isEntityTarget (wt_target t)) (mset ?S) = mset ?S"
    by (rule filter_mset_all) (rule entS)
  have S': "filter_mset (\<lambda>t. \<not> isEntityTarget (wt_target t)) (mset ?S) = {#}"
    by (rule filter_mset_none) (use entS in blast)
  have "filter_mset (\<lambda>t. isEntityTarget (wt_target t)) (layout_content m) + mset ?S = mset keepers + mset ?S"
    using k(1)[folded entities_collect[of l], unfolded m(3)[symmetric] filter_union_mset S] by (simp only: add.commute)
  then have "entities m = mset (map wt_target keepers)" by (simp add: entities_def)
  also have "\<dots> = mset_set (set (map (\<lambda>(k, u, ts). u) gs))"
    unfolding k(2) using mset_set_set[OF good_groups_targets[OF gs(2)]] by simp
  also have "set (map (\<lambda>(k, u, ts). u) gs) = set_mset (entities l)"
    using good_groups_set[OF gs(2)] gs(3) entities_collect[of l] by (metis entities_def set_image_mset set_mset_mset)
  finally have "entities m = mset_set (set_mset (entities l))" .
  moreover have "others m = others l"
    unfolding others_def m(3)[symmetric] using S' by simp
  ultimately show ?thesis using that gs(1) m(1,2) by blast
qed

lemma stale_stage:
  assumes "fresh_env res ex env" "rec_ok res ex env l"
  obtains m where "collapseStaleEntityTabs env sn visible terminals l = Inr m" "rec_ok res ex env m"
    "entities m = filter_mset (\<lambda>u. \<not> stale sn visible terminals u) (entities l)" "others m = others l"
proof -
  let ?stale = "\<lambda>t. stale sn visible terminals (wt_target t)"
  let ?ts = "filter ?stale (collectAllTabs (lo_tree l))"
  have e: "isEntityTarget u" if "stale sn visible terminals u" for u
    using that by (cases u) (auto simp: stale_def)
  have "filter ?stale (filter (\<lambda>t. isEntityTarget (wt_target t)) us) = filter ?stale us" for us
    using e by (induction us) auto
  note sub = this
  have "mset ?ts = filter_mset ?stale (filter_mset (\<lambda>t. isEntityTarget (wt_target t)) (layout_content l))"
    unfolding entities_collect mset_filter[symmetric] sub ..
  then have ts: "mset ?ts = filter_mset ?stale (layout_content l)"
    using filter_mset_sub[of ?stale "\<lambda>t. isEntityTarget (wt_target t)" "layout_content l"] e by simp
  then have "mset ?ts \<subseteq># layout_content l" by simp
  from close_all[OF assms(1,2) this] obtain m where m: "efold (close_tab env) (map wt_id ?ts) l = Inr m" "rec_ok res ex env m"
    "layout_content m + mset ?ts = layout_content l" by blast
  have "layout_content l = filter_mset (\<lambda>t. \<not> ?stale t) (layout_content l) + filter_mset ?stale (layout_content l)"
    by (metis add.commute multiset_partition)
  then have c: "layout_content m = filter_mset (\<lambda>t. \<not> ?stale t) (layout_content l)"
    using m(3) ts by (metis add_right_imp_eq)
  have "entities m = filter_mset (\<lambda>u. \<not> stale sn visible terminals u) (entities l)"
    unfolding entities_def c filter_mset_twice[of "\<lambda>t. isEntityTarget (wt_target t)"]
    using image_filter_mset[of wt_target "\<lambda>u. \<not> stale sn visible terminals u"] by blast
  moreover have "others m = others l"
    unfolding others_def c filter_mset_twice[of "\<lambda>t. \<not> isEntityTarget (wt_target t)"]
    using e by (auto intro!: filter_mset_all)
  ultimately show ?thesis using that m(1,2) by (simp add: collapseStaleEntityTabs_def)
qed

lemma norm_set: "distinct (normalizeStringSet xs)" "i \<in> set (normalizeStringSet xs) \<Longrightarrow> wf_id i"
proof -
  show "distinct (normalizeStringSet xs)" by (simp add: normalizeStringSet_def)
  assume "i \<in> set (normalizeStringSet xs)"
  then show "wf_id i"
    by (auto simp: normalizeStringSet_def List.map_filter_def trimNonEmpty_def wf_id_iff trimmed_trim Let_def split: if_splits)
qed

lemma wf_entity: "wf_id a \<Longrightarrow> wf_target (Tab_agent a)" "wf_id a \<Longrightarrow> wf_target (Tab_terminal a)"
  by (auto simp: wf_target_def one_id_def wf_id_def trimNonEmpty_def)

lemma shown_agents:
  "i \<in> set (List.map_filter agent_of (map wt_target (collectAllTabs (lo_tree l)))) \<longleftrightarrow> Tab_agent i \<in># entities l"
  "i \<in> set (List.map_filter terminal_of (map wt_target (collectAllTabs (lo_tree l)))) \<longleftrightarrow> Tab_terminal i \<in># entities l"
proof -
  have a: "agent_of u = Some i \<longleftrightarrow> u = Tab_agent i" "terminal_of u = Some i \<longleftrightarrow> u = Tab_terminal i" for u
    by (cases u; auto)+
  have "i \<in> set (List.map_filter f (map wt_target ts)) \<longleftrightarrow> (\<exists>t \<in> set ts. f (wt_target t) = Some i)" for f ts
    by (induction ts) (auto simp: map_filter_simps split: option.split)
  note f = this
  show "i \<in> set (List.map_filter agent_of (map wt_target (collectAllTabs (lo_tree l)))) \<longleftrightarrow> Tab_agent i \<in># entities l"
    "i \<in> set (List.map_filter terminal_of (map wt_target (collectAllTabs (lo_tree l)))) \<longleftrightarrow> Tab_terminal i \<in># entities l"
    unfolding in_entities f a by (auto simp: image_iff) metis+
qed

lemma missing_stage:
  assumes "fresh_env res ex env" "rec_ok res ex env l" "distinct autoOpen" "\<forall>a \<in> set autoOpen. wf_id a"
    "distinct terminals" "\<forall>a \<in> set terminals. wf_id a"
  obtains m where "addMissingEntityTabs env autoOpen represented terminals pendingTerminal pendingDraft explorer l = Inr m"
    "rec_ok res ex env m" "others m = others l"
    "entities m = entities l +
       mset (map Tab_agent (filter (\<lambda>i. Tab_agent i \<notin># entities l \<and> \<not> (pendingDraft \<and> i \<notin> set represented)) (by_code_units autoOpen))) +
       mset (map Tab_terminal (filter (\<lambda>i. \<not> pendingTerminal \<and> Tab_terminal i \<notin># entities l) (by_code_units terminals)))"
proof -
  let ?A = "filter (\<lambda>i. Tab_agent i \<notin># entities l \<and> \<not> (pendingDraft \<and> i \<notin> set represented)) (by_code_units autoOpen)"
  let ?T = "filter (\<lambda>i. \<not> pendingTerminal \<and> Tab_terminal i \<notin># entities l) (by_code_units terminals)"
  have A: "distinct ?A" "\<And>a. a \<in> set ?A \<Longrightarrow> wf_target (Tab_agent a) \<and> Tab_agent a \<notin># entities l"
    using assms(3,4) wf_entity by (auto simp: by_code_units_def)
  obtain n where n: "efold (\<lambda>i. openEntityTabWithoutFocusing env explorer (Tab_agent i)) ?A l = Inr n" "rec_ok res ex env n"
    "entities n = entities l + mset (map Tab_agent ?A)" "others n = others l"
    using open_entities[of Tab_agent, OF _ _ assms(1,2) A, where explorer = explorer] by (auto simp: inj_def)
  have T: "distinct ?T" "\<And>a. a \<in> set ?T \<Longrightarrow> wf_target (Tab_terminal a) \<and> Tab_terminal a \<notin># entities n"
    using assms(5,6) wf_entity n(3) by (auto simp: by_code_units_def)
  obtain m where m: "efold (\<lambda>i. openEntityTabWithoutFocusing env explorer (Tab_terminal i)) ?T n = Inr m" "rec_ok res ex env m"
    "entities m = entities n + mset (map Tab_terminal ?T)" "others m = others n"
    using open_entities[of Tab_terminal, OF _ _ assms(1) n(2) T, where explorer = explorer] by (auto simp: inj_def)
  have t: "(if pendingTerminal then [] else filter (\<lambda>i. Tab_terminal i \<notin># entities l) (by_code_units terminals)) = ?T"
    by simp
  have "addMissingEntityTabs env autoOpen represented terminals pendingTerminal pendingDraft explorer l = Inr m"
    unfolding addMissingEntityTabs_def Let_def shown_agents t using n(1) m(1) by simp
  then show ?thesis using that m n by simp
qed

lemma seed_stage:
  assumes "fresh_env res ex env" "rec_ok res ex env l"
  obtains m where "seedDraftForEmptyWorkspace env res sn active terminals explorer l = Inr m" "layout_ok ex m"
    "entities m = entities l"
    "others m = others l \<or>
       (sn_agentsHydrated sn \<and> sn_terminalsHydrated sn \<and> active = [] \<and> terminals = [] \<and>
        \<not> sn_pendingDraftCreate sn \<and> \<not> sn_pendingTerminalCreate sn \<and>
        (\<exists>now. others m = others l +
           {#\<lparr>wt_id = res, wt_target = Tab_draft res None, wt_createdAt = now, wt_state = None\<rparr>#}))"
proof (cases "seedDraftForEmptyWorkspace env res sn active terminals explorer l = Inr l")
  case True
  then show ?thesis using that assms(2) by (simp add: rec_ok_def)
next
  case False
  note r = rec_okD[OF assms(2)]
  have w: "wf_id res" using assms(1) by (simp add: fresh_env_def)
  then have t: "wf_target (Tab_draft res None)"
    by (simp add: wf_target_def wf_id_def trimNonEmpty_def normalizeWorkspaceDraftTabSetup_def)
  have n: "res \<notin> set (open_tab_ids (lo_tree l))"
    using r(3) by (auto simp: tabs_ok_def good_tab_def open_tab_ids_panes)
  let ?run = "insertNewTabIntoPane env l (Tab_draft res None) In_focused explorer (Inr res) None True"
  have s: "seedDraftForEmptyWorkspace env res sn active terminals explorer l =
      ebind ?run (\<lambda>r. Inr (case r of Some (m, i) \<Rightarrow> m | None \<Rightarrow> l))"
    "sn_agentsHydrated sn \<and> sn_terminalsHydrated sn \<and> active = [] \<and> terminals = [] \<and>
     \<not> sn_pendingDraftCreate sn \<and> \<not> sn_pendingTerminalCreate sn"
    using False by (auto simp: seedDraftForEmptyWorkspace_def createTabInLayout_def Let_def split: if_splits)
  have "ok_pair ex ?run" by (rule insertNewTab_ok[OF r(1) t refl w])
  then consider "?run = Inr None" | m j where "?run = Inr (Some (m, j))" "layout_ok ex m"
    by (auto simp: ok_pair_def split: sum.splits option.splits)
  then show ?thesis
  proof cases
    case 1
    then show ?thesis using s(1) False by simp
  next
    case 2
    have "Tab_draft res None \<noteq> Tab_new" by simp
    then obtain now where c: "layout_content m = layout_content l +
        {#\<lparr>wt_id = res, wt_target = Tab_draft res None, wt_createdAt = now, wt_state = None\<rparr>#}"
      using insertNewTab_content[OF r(1,4) t _ w n 2(1)] by blast
    show ?thesis
      by (rule that[of m]) (use s 2 c in \<open>simp_all add: entities_def others_def\<close>)
  qed
qed

lemma focus_stage:
  assumes "layout_ok ex l"
  obtains m where "(case focus of Some i \<Rightarrow> if i = [] then Inr l else or_layout (focusTabInLayout l i) l | None \<Rightarrow> Inr l) = Inr m"
    "layout_ok ex m" "layout_content m = layout_content l"
proof (cases "\<exists>i. focus = Some i \<and> i \<noteq> []")
  case True
  then obtain i where i: "focus = Some i" "i \<noteq> []" by blast
  obtain m where m: "or_layout (focusTabInLayout l i) l = Inr m" "layout_ok ex m"
    using or_layout_ok[OF focusTabInLayout_ok[OF assms] assms] by blast
  then have "layout_content m = layout_content l"
    using or_layout_content[OF m(1)] focusTab_content[OF assms] by blast
  then show ?thesis using that m i by simp
next
  case False
  then show ?thesis using that[of l] assms by (cases focus) auto
qed

section \<open>The result\<close>

lemma auto_open_ids:
  assumes "list_all wf_id (rs_pinned st)"
  shows "distinct (auto_open_agents st sn)" "\<forall>a \<in> set (auto_open_agents st sn). wf_id a"
proof -
  show "distinct (auto_open_agents st sn)" by (simp add: auto_open_agents_def applyPinnedAndHidden_def)
  show "\<forall>a \<in> set (auto_open_agents st sn). wf_id a"
    using assms norm_set(2) by (auto simp: auto_open_agents_def applyPinnedAndHidden_def list_all_iff)
qed

text \<open>An agent belongs to a workspace when it is not hidden there and it is among those reported, or
  pinned and known or about to be.\<close>

definition belongs :: "reconcile_state \<Rightarrow> tab_snapshot \<Rightarrow> string list \<Rightarrow> string \<Rightarrow> bool" where
  "belongs st sn reported a \<longleftrightarrow>
     a \<notin> set (rs_hidden st) \<and>
     (a \<in> set (normalizeStringSet reported) \<or>
      a \<in> set (rs_pinned st) \<and> (a \<in> set (normalizeStringSet (sn_knownAgentIds sn)) \<or> a \<in> set (rs_pending st)))"

lemma belongs_iff:
  "a \<in> set (visible_agents st sn) \<longleftrightarrow> belongs st sn (sn_activeAgentIds sn) a"
  "a \<in> set (auto_open_agents st sn) \<longleftrightarrow> belongs st sn (sn_autoOpenAgentIds sn) a"
  by (auto simp: visible_agents_def auto_open_agents_def applyPinnedAndHidden_def belongs_def)

text \<open>The agents and terminals that a workspace shows after a reconciliation: those it showed that
  still are there as far as the reports are complete, the agents to open unless a draft is about to
  become one, and the terminals of the workspace unless one is being created.\<close>

definition wanted :: "reconcile_state \<Rightarrow> tab_snapshot \<Rightarrow> tab_target set" where
  "wanted st sn =
     {Tab_agent a |a. Tab_agent a \<in># entities (rs_layout st) \<and>
        (sn_agentsHydrated sn \<longrightarrow> belongs st sn (sn_activeAgentIds sn) a)} \<union>
     {Tab_terminal a |a. Tab_terminal a \<in># entities (rs_layout st) \<and>
        (sn_terminalsHydrated sn \<longrightarrow> a \<in> set (known_terminals sn))} \<union>
     {Tab_agent a |a. belongs st sn (sn_autoOpenAgentIds sn) a \<and>
        (sn_pendingDraftCreate sn \<longrightarrow> Tab_agent a \<in># entities (rs_layout st))} \<union>
     {Tab_terminal a |a. a \<in> set (normalizeStringSet (sn_standaloneTerminalIds sn)) \<and> \<not> sn_pendingTerminalCreate sn}"

lemma not_stale:
  "{u \<in> set_mset (entities l). \<not> stale sn (visible_agents st sn) (known_terminals sn) u} =
     {Tab_agent a |a. Tab_agent a \<in># entities l \<and> (sn_agentsHydrated sn \<longrightarrow> belongs st sn (sn_activeAgentIds sn) a)} \<union>
     {Tab_terminal a |a. Tab_terminal a \<in># entities l \<and> (sn_terminalsHydrated sn \<longrightarrow> a \<in> set (known_terminals sn))}"
proof -
  have e: "isEntityTarget u" if "u \<in># entities l" for u using that by (simp add: in_entities)
  show ?thesis
  proof (rule set_eqI)
    fix u
    show "u \<in> {u \<in> set_mset (entities l). \<not> stale sn (visible_agents st sn) (known_terminals sn) u} \<longleftrightarrow>
      u \<in> {Tab_agent a |a. Tab_agent a \<in># entities l \<and> (sn_agentsHydrated sn \<longrightarrow> belongs st sn (sn_activeAgentIds sn) a)} \<union>
        {Tab_terminal a |a. Tab_terminal a \<in># entities l \<and> (sn_terminalsHydrated sn \<longrightarrow> a \<in> set (known_terminals sn))}"
      using e[of u] by (cases u) (simp_all add: stale_def belongs_iff, blast+)
  qed
qed

lemma mset_as_set: "inj f \<Longrightarrow> distinct xs \<Longrightarrow> mset (map f xs) = mset_set (f ` set xs)"
  using mset_set_set[of "map f xs"] by (simp add: distinct_map inj_on_subset)

lemma wanted_parts:
  assumes "e = filter_mset (\<lambda>u. \<not> stale sn (visible_agents st sn) (known_terminals sn) u)
      (mset_set (set_mset (entities (rs_layout st))))"
    "list_all wf_id (rs_pinned st)"
  shows "e +
     mset (map Tab_agent (filter (\<lambda>i. Tab_agent i \<notin># e \<and> \<not> (sn_pendingDraftCreate sn \<and>
       i \<notin> set (List.map_filter agent_of (map wt_target (collectAllTabs (lo_tree (rs_layout st)))))))
       (by_code_units (auto_open_agents st sn)))) +
     mset (map Tab_terminal (filter (\<lambda>i. \<not> sn_pendingTerminalCreate sn \<and> Tab_terminal i \<notin># e)
       (by_code_units (normalizeStringSet (sn_standaloneTerminalIds sn))))) = mset_set (wanted st sn)"
    (is "e + mset (map Tab_agent ?A) + mset (map Tab_terminal ?T) = _")
proof -
  define S where "S = {u \<in> set_mset (entities (rs_layout st)). \<not> stale sn (visible_agents st sn) (known_terminals sn) u}"
  have e: "e = mset_set S" unfolding assms(1) S_def by simp
  have f: "finite S" by (simp add: S_def)
  have d: "distinct ?A" "distinct ?T"
    using auto_open_ids(1)[OF assms(2)] norm_set(1) by (simp_all add: by_code_units_def)
  have i: "inj Tab_agent" "inj Tab_terminal" by (simp_all add: inj_def)
  note m = mset_as_set[OF i(1) d(1)] mset_as_set[OF i(2) d(2)]
  have "S \<inter> Tab_agent ` set ?A = {}" "(S \<union> Tab_agent ` set ?A) \<inter> Tab_terminal ` set ?T = {}"
    using f by (auto simp: e)
  then have u: "mset_set (S \<union> Tab_agent ` set ?A \<union> Tab_terminal ` set ?T) =
      mset_set S + mset_set (Tab_agent ` set ?A) + mset_set (Tab_terminal ` set ?T)"
    using f by (simp add: mset_set_Union)
  have "e + mset (map Tab_agent ?A) + mset (map Tab_terminal ?T) = mset_set (S \<union> Tab_agent ` set ?A \<union> Tab_terminal ` set ?T)"
    unfolding u by (intro arg_cong2[of _ _ _ _ "(+)"] e m)
  also have "S \<union> Tab_agent ` set ?A \<union> Tab_terminal ` set ?T = wanted st sn"
    unfolding wanted_def not_stale[symmetric] S_def[symmetric] shown_agents using f
    by (auto simp: e by_code_units_def belongs_iff)
  finally show ?thesis .
qed

text \<open>C6. Reconciling a workspace with what the daemon reports never throws and keeps the layout well
  formed. Afterwards the agents and terminals shown are exactly the wanted ones, each in one tab:
  those shown before that are not gone, the agents to open and the terminals of the workspace.
  Every other tab is still there as it was, and a draft is added at most when the reports are
  complete and there is no agent and no terminal.\<close>

theorem reconcile_brings_tabs_in_line:
  assumes "rec_ok draftId (rs_explorer st) env (rs_layout st)" "fresh_env draftId (rs_explorer st) env"
    "list_all wf_id (rs_pinned st)"
  shows "\<exists>l. reconcileWorkspaceTabs env draftId st sn = Inr (st\<lparr>rs_layout := l\<rparr>) \<and>
    layout_ok (rs_explorer st) l \<and> entities l = mset_set (wanted st sn) \<and>
    (others l = others (rs_layout st) \<or>
     (sn_agentsHydrated sn \<and> sn_terminalsHydrated sn \<and> normalizeStringSet (sn_activeAgentIds sn) = [] \<and>
      known_terminals sn = [] \<and> \<not> sn_pendingDraftCreate sn \<and> \<not> sn_pendingTerminalCreate sn \<and>
      (\<exists>now. others l = others (rs_layout st) +
         {#\<lparr>wt_id = draftId, wt_target = Tab_draft draftId None, wt_createdAt = now, wt_state = None\<rparr>#})))"
proof -
  let ?focus = "focused_tab (rs_layout st)"
  let ?shown = "List.map_filter agent_of (map wt_target (collectAllTabs (lo_tree (rs_layout st))))"
  obtain gs l1 f where 1: "buildEntityTabGroups (collectAllTabs (lo_tree (rs_layout st))) [] = Inr gs"
    "efold (collapse_group env ?focus) gs (rs_layout st, ?focus) = Inr (l1, f)"
    "rec_ok draftId (rs_explorer st) env l1"
    "entities l1 = mset_set (set_mset (entities (rs_layout st)))" "others l1 = others (rs_layout st)"
    by (rule groups_stage[OF assms(2,1)])
  obtain l2 where 2: "collapseStaleEntityTabs env sn (visible_agents st sn) (known_terminals sn) l1 = Inr l2"
    "rec_ok draftId (rs_explorer st) env l2" "others l2 = others l1"
    "entities l2 = filter_mset (\<lambda>u. \<not> stale sn (visible_agents st sn) (known_terminals sn) u) (entities l1)"
    by (rule stale_stage[OF assms(2) 1(3)])
  have w: "\<forall>a \<in> set (normalizeStringSet (sn_standaloneTerminalIds sn)). wf_id a" using norm_set(2) by blast
  obtain l3 where 3: "addMissingEntityTabs env (auto_open_agents st sn) ?shown
      (normalizeStringSet (sn_standaloneTerminalIds sn)) (sn_pendingTerminalCreate sn) (sn_pendingDraftCreate sn)
      (rs_explorer st) l2 = Inr l3"
    "rec_ok draftId (rs_explorer st) env l3" "others l3 = others l2" "entities l3 = mset_set (wanted st sn)"
    unfolding wanted_parts[OF 2(4)[unfolded 1(4)] assms(3), symmetric]
    by (rule missing_stage[OF assms(2) 2(2) auto_open_ids[OF assms(3)] norm_set(1) w])
  obtain l4 where 4: "seedDraftForEmptyWorkspace env draftId sn (normalizeStringSet (sn_activeAgentIds sn))
      (known_terminals sn) (rs_explorer st) l3 = Inr l4"
    "layout_ok (rs_explorer st) l4" "entities l4 = entities l3"
    "others l4 = others l3 \<or>
     (sn_agentsHydrated sn \<and> sn_terminalsHydrated sn \<and> normalizeStringSet (sn_activeAgentIds sn) = [] \<and>
      known_terminals sn = [] \<and> \<not> sn_pendingDraftCreate sn \<and> \<not> sn_pendingTerminalCreate sn \<and>
      (\<exists>now. others l4 = others l3 +
         {#\<lparr>wt_id = draftId, wt_target = Tab_draft draftId None, wt_createdAt = now, wt_state = None\<rparr>#}))"
    by (rule seed_stage[OF assms(2) 3(2)])
  obtain l5 where 5: "(case f of Some i \<Rightarrow> if i = [] then Inr l4 else or_layout (focusTabInLayout l4 i) l4 | None \<Rightarrow> Inr l4) = Inr l5"
    "layout_ok (rs_explorer st) l5" "layout_content l5 = layout_content l4"
    by (rule focus_stage[OF 4(2)])
  have "reconcileWorkspaceTabs env draftId st sn = Inr (st\<lparr>rs_layout := l5\<rparr>)"
    using 1(1,2) 2(1) 3(1) 4(1) 5(1) by (simp add: reconcileWorkspaceTabs_def Let_def)
  moreover have "entities l5 = entities l4" "others l5 = others l4"
    using 5(3) by (simp_all add: entities_def others_def)
  ultimately show ?thesis using 1(5) 2(3) 3(3,4) 4(3,4) 5(2) by metis
qed

section \<open>An example\<close>

text \<open>A workspace with a tab for the agent \<open>a\<close>; then the daemon reports the agent \<open>b\<close> and a terminal \<open>t\<close>
  only, and the tab for \<open>a\<close> makes room for theirs.\<close>

definition rec_env :: layout_env where
  "rec_env = example_env\<lparr>le_messageId := (\<lambda>p. ''m'' @ p @ ''x'')\<rparr>"

definition rec_snapshot :: tab_snapshot where
  "rec_snapshot =
     \<lparr>sn_agentsHydrated = True, sn_terminalsHydrated = True, sn_activeAgentIds = [''b''], sn_autoOpenAgentIds = [''b''],
      sn_knownAgentIds = [''b''], sn_knownTerminalIds = None, sn_standaloneTerminalIds = [''t''],
      sn_pendingTerminalCreate = False, sn_pendingDraftCreate = False\<rparr>"

lemma rec_env_fresh: "fresh_env ''draft'' (Some EXPLORER_SIDEBAR_PANE_ID) rec_env"
  by (simp add: fresh_env_def env_ok_def rec_env_def example_env_def wf_id_iff trimmed_def js_space_def inj_def
      DEFAULT_PANE_ID_def EXPLORER_SIDEBAR_PANE_ID_def)

lemma rec_first_shape:
  "map (\<lambda>p. (sp_id p, sp_hidden p, sp_tabs p)) (panes (lo_tree (createWorkspaceLayoutWithExplorerSidebar rec_env))) =
     [(DEFAULT_PANE_ID, False, [new_tab rec_env DEFAULT_PANE_ID]),
      (EXPLORER_SIDEBAR_PANE_ID, True, createDefaultExplorerSidebarTabs rec_env)]"
  "ids_of (panes (lo_tree (createWorkspaceLayoutWithExplorerSidebar rec_env))) = [''tab_mmainx'', ''files'', ''changes_tree'']"
  "map wt_id (createDefaultExplorerSidebarTabs rec_env) = [''files'', ''changes_tree'']"
  by code_simp+

lemma rec_first: "rec_ok ''draft'' (Some EXPLORER_SIDEBAR_PANE_ID) rec_env (createWorkspaceLayoutWithExplorerSidebar rec_env)"
proof -
  note f = rec_env_fresh[unfolded fresh_env_def]
  obtain m e where p: "panes (lo_tree (createWorkspaceLayoutWithExplorerSidebar rec_env)) = [m, e]"
    "sp_id m = DEFAULT_PANE_ID" "\<not> sp_hidden m" "sp_tabs m = [new_tab rec_env DEFAULT_PANE_ID]"
    "sp_tabs e = createDefaultExplorerSidebarTabs rec_env"
    using rec_first_shape(1) by (auto simp: map_eq_Cons_conv)
  have "good_tab ''draft'' rec_env DEFAULT_PANE_ID (new_tab rec_env DEFAULT_PANE_ID)"
    using good_new_tab f by auto
  moreover have "wt_id t = ''files'' \<or> wt_id t = ''changes_tree''" if "t \<in> set (sp_tabs e)" for t
    using that rec_first_shape(3)[folded p(5)] by (auto simp: map_eq_Cons_conv)
  then have "good_tab ''draft'' rec_env (sp_id e) t" if "t \<in> set (sp_tabs e)" for t
    using that by (fastforce simp: good_tab_def id_matches_def)
  ultimately have "tabs_ok ''draft'' rec_env [m, e]"
    using rec_first_shape(2) by (simp add: tabs_ok_def p)
  then show ?thesis
    using first_layout_ok f p by (simp add: rec_ok_def main_shown_def)
qed

theorem reconcile_brings_tabs_in_line_witness:
  "\<exists>st r. entities (rs_layout st) = {#Tab_agent ''a''#} \<and>
     reconcileWorkspaceTabs rec_env ''draft'' st rec_snapshot = Inr r \<and>
     entities (rs_layout r) = {#Tab_agent ''b'', Tab_terminal ''t''#}"
proof -
  let ?ex = "Some EXPLORER_SIDEBAR_PANE_ID"
  let ?l = "createWorkspaceLayoutWithExplorerSidebar rec_env"
  have n: "entities ?l = {#}" unfolding entities_def entities_collect by code_simp
  obtain m where m: "rec_ok ''draft'' ?ex rec_env m" "entities m = {#Tab_agent ''a''#}"
    by (rule open_entity[OF rec_first _ agent_a(1) _ rec_env_fresh, of ?ex]) (use n in auto)
  define st where "st = \<lparr>rs_layout = m, rs_pinned = [], rs_pending = [], rs_hidden = [], rs_explorer = ?ex\<rparr>"
  have norm: "normalizeStringSet [''b''] = [''b'']" "normalizeStringSet [''t''] = [''t'']" by code_simp+
  have "wanted st rec_snapshot = {Tab_agent ''b'', Tab_terminal ''t''}"
    using m(2) norm
    by (auto simp: wanted_def st_def rec_snapshot_def belongs_def)
  then have "mset_set (wanted st rec_snapshot) = {#Tab_agent ''b'', Tab_terminal ''t''#}" by simp
  moreover have "list_all wf_id (rs_pinned st)" "rec_ok ''draft'' (rs_explorer st) rec_env (rs_layout st)"
    "fresh_env ''draft'' (rs_explorer st) rec_env"
    using m rec_env_fresh by (simp_all add: st_def)
  ultimately obtain l where "reconcileWorkspaceTabs rec_env ''draft'' st rec_snapshot = Inr (st\<lparr>rs_layout := l\<rparr>)"
    "entities l = {#Tab_agent ''b'', Tab_terminal ''t''#}"
    using reconcile_brings_tabs_in_line[of "''draft''" st rec_env rec_snapshot] by auto
  then show ?thesis using m(2) by (intro exI[of _ st] exI[of _ "st\<lparr>rs_layout := l\<rparr>"]) (simp add: st_def)
qed

end
