(* ===== verification/Workspace_Store.thy ===== *)
theory Workspace_Store
  imports Workspace_Reconcile "HOL-Library.Sublist"
begin

text \<open>
  The store of the layouts of all workspaces (\<open>app/src/stores/workspace-layout-store.ts\<close>): one
  definition per action, over a record of the maps the store keeps by workspace. A key that is
  absent from a map is None; the sets of agent ids are lists. Actions return the new state and what
  the action returns; \<open>Inl\<close> is a thrown error, after which the state is the old one. The clock,
  new ids and the plugins that are installed are parameters.
\<close>

section \<open>Plugins\<close>

record plugin_panel =
  pp_id :: string
  pp_agent :: bool
  pp_locations :: "pane_host list option"

record installed_plugin =
  ip_serverId :: string
  ip_id :: string
  ip_panels :: "plugin_panel list"

definition resolvePluginWorkspacePanel :: "installed_plugin option \<Rightarrow> string \<Rightarrow> bool \<Rightarrow> plugin_panel option" where
  "resolvePluginWorkspacePanel plugin panelId agent =
     (case plugin of
        None \<Rightarrow> None
      | Some p \<Rightarrow> find (\<lambda>q. pp_id q = panelId \<and> pp_agent q = agent) (ip_panels p))"

definition pluginPanelSupportsLocation :: "plugin_panel \<Rightarrow> pane_host \<Rightarrow> bool" where
  "pluginPanelSupportsLocation p host =
     (host \<in> set (case pp_locations p of Some ls \<Rightarrow> ls | None \<Rightarrow> [Host_main]))"

definition panelTargetSupportsHost :: "installed_plugin list \<Rightarrow> string \<Rightarrow> tab_target \<Rightarrow> pane_host \<Rightarrow> bool" where
  "panelTargetSupportsHost plugins serverId target host =
     (case target of
        Tab_plugin pluginId panelId agent \<Rightarrow>
          (case resolvePluginWorkspacePanel
                  (find (\<lambda>p. ip_serverId p = serverId \<and> ip_id p = pluginId) plugins) panelId (agent \<noteq> None) of
             None \<Rightarrow> True
           | Some p \<Rightarrow> pluginPanelSupportsLocation p host)
      | _ \<Rightarrow> panelSupportsHost target host)"

definition panelTargetSupportsHostForWorkspaceKey ::
    "installed_plugin list \<Rightarrow> string \<Rightarrow> tab_target \<Rightarrow> pane_host \<Rightarrow> bool" where
  "panelTargetSupportsHostForWorkspaceKey plugins key target host =
     (case target of
        Tab_plugin pluginId panelId agent \<Rightarrow>
          (let servers = sort_by (\<lambda>a b. length b \<le> length a)
                 (map ip_serverId (filter (\<lambda>p. ip_id p = pluginId) plugins));
               serverId = (case find (\<lambda>s. prefix (s @ '':'') key) servers of Some s \<Rightarrow> s | None \<Rightarrow> []) in
           panelTargetSupportsHost plugins serverId target host)
      | _ \<Rightarrow> panelSupportsHost target host)"

section \<open>State\<close>

record focus_restoration =
  fr_pane :: "string option"
  fr_tokens :: "string list"

record layout_store =
  st_layouts :: "string \<rightharpoonup> layout"
  st_sizes :: "string \<rightharpoonup> (string \<rightharpoonup> rat list)"
  st_widths :: "string \<rightharpoonup> rat"
  st_pinned :: "string \<rightharpoonup> string list"
  st_pending :: "string \<rightharpoonup> string list"
  st_hidden :: "string \<rightharpoonup> string list"
  st_restore :: "string \<rightharpoonup> focus_restoration"
  st_explorer :: "string \<rightharpoonup> string option"
  st_side :: "string \<rightharpoonup> string option"

record store_env =
  se_layout :: layout_env
  se_tabId :: string
  se_token :: string
  se_draftId :: string
  se_plugins :: "installed_plugin list"

definition MAX_TREE_DEPTH :: nat where
  "MAX_TREE_DEPTH = 5"

definition empty_store :: layout_store where
  "empty_store =
     \<lparr>st_layouts = Map.empty, st_sizes = Map.empty, st_widths = Map.empty, st_pinned = Map.empty,
      st_pending = Map.empty, st_hidden = Map.empty, st_restore = Map.empty, st_explorer = Map.empty,
      st_side = Map.empty\<rparr>"

definition addAgentIdToWorkspaceSet :: "(string \<rightharpoonup> string list) \<Rightarrow> string \<Rightarrow> string \<Rightarrow> (string \<rightharpoonup> string list)" where
  "addAgentIdToWorkspaceSet m k a =
     (case m k of
        None \<Rightarrow> m(k \<mapsto> [a])
      | Some ids \<Rightarrow> if a \<in> set ids then m else m(k \<mapsto> ids @ [a]))"

definition removeAgentIdFromWorkspaceSet :: "(string \<rightharpoonup> string list) \<Rightarrow> string \<Rightarrow> string \<Rightarrow> (string \<rightharpoonup> string list)" where
  "removeAgentIdFromWorkspaceSet m k a =
     (case m k of
        None \<Rightarrow> m
      | Some ids \<Rightarrow>
          if a \<notin> set ids then m
          else if length ids = 1 then m(k := None)
          else m(k \<mapsto> filter (\<lambda>i. i \<noteq> a) ids))"

definition getWorkspaceLayout :: "layout_env \<Rightarrow> (string \<rightharpoonup> layout) \<Rightarrow> string \<Rightarrow> layout" where
  "getWorkspaceLayout env m k =
     normalizeLayout env (Some (case m k of Some l \<Rightarrow> l | None \<Rightarrow> createWorkspaceLayoutWithExplorerSidebar env))"

definition keepWorkspaceFocusOutOfExplorerSidebar :: "layout \<Rightarrow> string option \<Rightarrow> string option \<Rightarrow> layout" where
  "keepWorkspaceFocusOutOfExplorerSidebar l explorer preferred =
     (if explorer = None \<or> explorer = Some [] \<or> lo_focus l \<noteq> explorer then l
      else let ps = collectAllPanes (lo_tree l); ordinary = (\<lambda>p. Some (sp_id p) \<noteq> explorer) in
        l\<lparr>lo_focus := pane_id_of
            (or_else (find (\<lambda>p. Some (sp_id p) = preferred \<and> ordinary p) ps)
               (or_else (find (\<lambda>p. sp_id p = DEFAULT_PANE_ID \<and> ordinary p) ps) (find ordinary ps)))\<rparr>)"

definition resolveExplorerSidebarPaneId :: "layout \<Rightarrow> string option \<Rightarrow> string option" where
  "resolveExplorerSidebarPaneId l registered =
     or_else (pane_id_of (findPaneById (lo_tree l) registered))
       (pane_id_of (findPaneById (lo_tree l) (Some EXPLORER_SIDEBAR_PANE_ID)))"

definition registered :: "(string \<rightharpoonup> string option) \<Rightarrow> string \<Rightarrow> string option" where
  "registered m k = (case m k of Some v \<Rightarrow> v | None \<Rightarrow> None)"

definition selectExplorerSidebarPaneId :: "layout_env \<Rightarrow> layout_store \<Rightarrow> string \<Rightarrow> string option" where
  "selectExplorerSidebarPaneId env st k =
     resolveExplorerSidebarPaneId (getWorkspaceLayout env (st_layouts st) k) (registered (st_explorer st) k)"

definition selectIsExplorerSidebarVisible :: "layout_env \<Rightarrow> layout_store \<Rightarrow> string \<Rightarrow> bool" where
  "selectIsExplorerSidebarVisible env st k =
     (case st_layouts st k of
        None \<Rightarrow> False
      | Some l \<Rightarrow>
          (case findPaneById (lo_tree l) (selectExplorerSidebarPaneId env st k) of
             None \<Rightarrow> False
           | Some p \<Rightarrow> \<not> sp_hidden p))"

definition put_layout :: "string \<Rightarrow> layout \<Rightarrow> layout_store \<Rightarrow> layout_store" where
  "put_layout k l st = st\<lparr>st_layouts := (st_layouts st)(k \<mapsto> l)\<rparr>"

definition withoutFocusRestoration :: "string \<Rightarrow> layout_store \<Rightarrow> layout_store" where
  "withoutFocusRestoration k st = st\<lparr>st_restore := (st_restore st)(k := None)\<rparr>"

text \<open>A remembered side pane that is gone is forgotten.\<close>

definition reconcileRememberedSidePane :: "string \<Rightarrow> layout \<Rightarrow> layout_store \<Rightarrow> layout_store" where
  "reconcileRememberedSidePane k l st =
     (case registered (st_side st) k of
        None \<Rightarrow> st
      | Some p \<Rightarrow>
          if p \<noteq> [] \<and> findPaneById (lo_tree l) (Some p) = None
          then st\<lparr>st_side := (st_side st)(k \<mapsto> None)\<rparr> else st)"

definition attachParentTab :: "layout_env \<Rightarrow> layout \<Rightarrow> string option \<Rightarrow> string option \<Rightarrow> layout" where
  "attachParentTab env l child parent =
     (case (trimNonEmpty child, trimNonEmpty parent) of
        (Some c, Some p) \<Rightarrow>
          if c = p \<or> c \<notin> set (open_tab_ids (lo_tree l)) \<or> p \<notin> set (open_tab_ids (lo_tree l))
          then normalizeLayout env (Some l)
          else normalizeLayout env (Some (l\<lparr>lo_parents :=
                 Some (AList.update c p (case lo_parents l of Some m \<Rightarrow> m | None \<Rightarrow> []))\<rparr>))
      | _ \<Rightarrow> normalizeLayout env (Some l))"

end
