(* ===== verification/Workspace_Actions.thy ===== *)
theory Workspace_Actions
  imports Workspace_Store
begin

text \<open>
  The actions of the workspace layout store. Each one first trims its ids and does nothing when one
  of them is empty.
\<close>

section \<open>Helpers\<close>

type_synonym 'r action = "layout_store \<Rightarrow> layout_error + layout_store \<times> 'r"

definition with_id :: "string \<Rightarrow> 'r \<Rightarrow> (string \<Rightarrow> 'r action) \<Rightarrow> 'r action" where
  "with_id i r f st = (case trimNonEmpty (Some i) of None \<Rightarrow> Inr (st, r) | Some j \<Rightarrow> f j st)"

text \<open>The explorer pane and the layout that an action starts from.\<close>

definition layout_of :: "store_env \<Rightarrow> layout_store \<Rightarrow> string \<Rightarrow> layout" where
  "layout_of env st k = getWorkspaceLayout (se_layout env) (st_layouts st) k"

definition explorer_of :: "store_env \<Rightarrow> layout_store \<Rightarrow> string \<Rightarrow> string option" where
  "explorer_of env st k = resolveExplorerSidebarPaneId (layout_of env st k) (registered (st_explorer st) k)"

definition supports_host :: "store_env \<Rightarrow> string \<Rightarrow> tab_target \<Rightarrow> bool \<Rightarrow> bool" where
  "supports_host env k target explorer =
     panelTargetSupportsHostForWorkspaceKey (se_plugins env) k target (if explorer then Host_explorer else Host_main)"

section \<open>Opening\<close>

datatype open_intent = Intent_new | Intent_reveal | Intent_background

definition getOpenTabPlacement :: "store_env \<Rightarrow> layout_store \<Rightarrow> string \<Rightarrow> tab_target \<Rightarrow> placement option \<Rightarrow> placement" where
  "getOpenTabPlacement env st k target requested0 =
     (let l = layout_of env st k; explorer = explorer_of env st k;
          requested = (case requested0 of Some p \<Rightarrow> p | None \<Rightarrow> Ambient);
          supports = (\<lambda>p. supports_host env k target (Some (sp_id p) = explorer));
          requestedPane = findPaneById (lo_tree l)
            (case requested of In_pane i \<Rightarrow> Some i | Prefer_pane i \<Rightarrow> Some i | _ \<Rightarrow> lo_focus l);
          fallback = find supports (collectAllPanes (lo_tree l)) in
      if only_if supports requestedPane \<noteq> None then requested
      else case fallback of
        None \<Rightarrow> requested
      | Some p \<Rightarrow> (case requested of In_pane i \<Rightarrow> In_pane (sp_id p) | _ \<Rightarrow> Prefer_pane (sp_id p)))"

definition openTab ::
    "store_env \<Rightarrow> string \<Rightarrow> tab_target \<Rightarrow> open_intent \<Rightarrow> bool \<Rightarrow> placement option \<Rightarrow> string option \<Rightarrow> json option \<Rightarrow>
     string option action" where
  "openTab env workspaceKey rawTarget intent pin requested parentTabId state st =
     (case (trimNonEmpty (Some workspaceKey), normalizeWorkspaceTabTarget rawTarget) of
        (Some k, Some target) \<Rightarrow>
          (let l = layout_of env st k; explorer = explorer_of env st k; le = se_layout env;
               pl = getOpenTabPlacement env st k target requested in
           ebind (case intent of
                    Intent_new \<Rightarrow> createTabInLayout le l target pl explorer (Inr (se_tabId env)) state
                  | Intent_background \<Rightarrow> openTabInLayoutBackground le l target pl explorer
                  | Intent_reveal \<Rightarrow> revealTargetInLayout le l target pl explorer None) (\<lambda>r.
             case r of
               None \<Rightarrow> Inr (st, None)
             | Some (m, tabId) \<Rightarrow>
                 (let next = keepWorkspaceFocusOutOfExplorerSidebar m explorer (lo_focus l);
                      placed = (case parentTabId of
                                  Some p \<Rightarrow> if p \<noteq> [] then attachParentTab le next (Some tabId) (Some p) else next
                                | None \<Rightarrow> next);
                      st1 = put_layout k placed (withoutFocusRestoration k st) in
                  case target of
                    Tab_agent a \<Rightarrow>
                      Inr (st1\<lparr>st_hidden := removeAgentIdFromWorkspaceSet (st_hidden st) k a,
                               st_pinned := (if pin then addAgentIdToWorkspaceSet (st_pinned st) k a else st_pinned st),
                               st_pending := (if pin then addAgentIdToWorkspaceSet (st_pending st) k a else st_pending st)\<rparr>,
                           Some tabId)
                  | _ \<Rightarrow> Inr (st1, Some tabId))))
      | _ \<Rightarrow> Inr (st, None))"

section \<open>Splitting\<close>

definition splitPane :: "store_env \<Rightarrow> string \<Rightarrow> string \<Rightarrow> string \<Rightarrow> split_position \<Rightarrow> string option action" where
  "splitPane env workspaceKey tabId0 target0 pos =
     with_id workspaceKey None (\<lambda>k. with_id tabId0 None (\<lambda>tabId. with_id target0 None (\<lambda>target st.
       let l = layout_of env st k in
       if Some target = explorer_of env st k then Inr (st, None)
       else case tab_by_id (lo_tree l) tabId of
         None \<Rightarrow> Inr (st, None)
       | Some tab \<Rightarrow>
           if \<not> supports_host env k (wt_target tab) False then Inr (st, None)
           else ebind (splitPaneInLayout (se_layout env) l tabId target pos MAX_TREE_DEPTH) (\<lambda>r.
             case r of
               None \<Rightarrow> Inr (st, None)
             | Some (m, paneId) \<Rightarrow> Inr (put_layout k m (withoutFocusRestoration k st), Some paneId)))))"

definition splitPaneEmpty :: "store_env \<Rightarrow> string \<Rightarrow> string \<Rightarrow> split_position \<Rightarrow> string option action" where
  "splitPaneEmpty env workspaceKey target0 pos =
     with_id workspaceKey None (\<lambda>k. with_id target0 None (\<lambda>target st.
       if Some target = explorer_of env st k then Inr (st, None)
       else ebind (splitPaneEmptyInLayout (se_layout env) (layout_of env st k) target pos MAX_TREE_DEPTH) (\<lambda>r.
         case r of
           None \<Rightarrow> Inr (st, None)
         | Some (m, paneId) \<Rightarrow> Inr (put_layout k m (withoutFocusRestoration k st), Some paneId))))"

definition ensureSidePane :: "store_env \<Rightarrow> string \<Rightarrow> string option action" where
  "ensureSidePane env workspaceKey =
     with_id workspaceKey None (\<lambda>k st.
       let l = layout_of env st k in
       case only_if (\<lambda>p. Some (sp_id p) \<noteq> explorer_of env st k)
              (findPaneById (lo_tree l) (trimNonEmpty (registered (st_side st) k))) of
         Some p \<Rightarrow> Inr (st, Some (sp_id p))
       | None \<Rightarrow>
           (case splitWorkspaceRootRightInLayout (se_layout env) l MAX_TREE_DEPTH of
              None \<Rightarrow> Inr (st, None)
            | Some (m, paneId) \<Rightarrow>
                Inr ((put_layout k m (withoutFocusRestoration k st))\<lparr>st_side := (st_side st)(k \<mapsto> Some paneId)\<rparr>,
                     Some paneId)))"

section \<open>The Explorer\<close>

definition createExplorerSidebarPane :: "store_env \<Rightarrow> string \<Rightarrow> layout \<Rightarrow> string option action" where
  "createExplorerSidebarPane env k l st =
     (case or_else (pane_id_of (findPaneById (lo_tree l) (lo_focus l))) (pane_id_of (head_opt (collectAllPanes (lo_tree l)))) of
        None \<Rightarrow> Inr (st, None)
      | Some target \<Rightarrow> if target = [] then Inr (st, None) else splitPaneEmpty env k target At_right st)"

definition showExplorerSidebar :: "store_env \<Rightarrow> string \<Rightarrow> string option action" where
  "showExplorerSidebar env workspaceKey =
     with_id workspaceKey None (\<lambda>k st.
       ebind (case explorer_of env st k of
                Some p \<Rightarrow> Inr (st, Some p)
              | None \<Rightarrow> createExplorerSidebarPane env k (layout_of env st k) st) (\<lambda>(st1, paneId).
         case paneId of
           None \<Rightarrow> Inr (st1, None)
         | Some p \<Rightarrow>
             (let l = layout_of env st1 k in
              ebind (or_layout (setPaneHiddenInLayout l p False) l) (\<lambda>revealed.
                Inr ((put_layout k (keepWorkspaceFocusOutOfExplorerSidebar revealed (Some p) (lo_focus l)) st1)
                       \<lparr>st_explorer := (st_explorer st1)(k \<mapsto> Some p)\<rparr>, Some p)))))"

definition hideExplorerSidebar :: "store_env \<Rightarrow> string \<Rightarrow> unit action" where
  "hideExplorerSidebar env workspaceKey =
     with_id workspaceKey () (\<lambda>k st.
       case explorer_of env st k of
         None \<Rightarrow> Inr (st, ())
       | Some p \<Rightarrow>
           ebind (setPaneHiddenInLayout (layout_of env st k) p True) (\<lambda>r.
             Inr (case r of Some m \<Rightarrow> put_layout k m st | None \<Rightarrow> st, ())))"

section \<open>Closing and moving\<close>

definition closeTab :: "store_env \<Rightarrow> string \<Rightarrow> string \<Rightarrow> unit action" where
  "closeTab env workspaceKey tabId0 =
     with_id workspaceKey () (\<lambda>k. with_id tabId0 () (\<lambda>tabId st.
       let le = se_layout env; l = layout_of env st k; explorer = explorer_of env st k;
           finish = (\<lambda>m. Inr (put_layout k m (reconcileRememberedSidePane k m (withoutFocusRestoration k st)), ())) in
       case findPaneContainingTab (lo_tree l) tabId of
         None \<Rightarrow> Inr (st, ())
       | Some p \<Rightarrow>
           if length (sp_tabIds p) = 1 \<and> map_option wt_target (tab_by_id (lo_tree l) tabId) = Some Tab_new then
             ebind (if Some (sp_id p) = explorer then setPaneHiddenInLayout l (sp_id p) True
                    else closePaneInLayout le l (sp_id p) explorer) (\<lambda>r.
               case r of None \<Rightarrow> Inr (st, ()) | Some m \<Rightarrow> finish m)
           else
             ebind (closeTabInLayout le l tabId
                      (if sp_id p = ''main'' \<or> Some (sp_id p) = explorer then Some (sp_id p) else None)) (\<lambda>closed.
               case closed of
                 None \<Rightarrow> Inr (st, ())
               | Some c \<Rightarrow>
                   ebind (if Some (sp_id p) = explorer \<and> length (sp_tabIds p) = 1
                          then or_layout (setPaneHiddenInLayout c (sp_id p) True) c else Inr c) (\<lambda>m.
                     finish (keepWorkspaceFocusOutOfExplorerSidebar m explorer (lo_focus l))))))"

definition closePane :: "store_env \<Rightarrow> string \<Rightarrow> string \<Rightarrow> unit action" where
  "closePane env workspaceKey paneId0 =
     with_id workspaceKey () (\<lambda>k. with_id paneId0 () (\<lambda>paneId st.
       let l = layout_of env st k; explorer = explorer_of env st k in
       ebind (if explorer = Some paneId then setPaneHiddenInLayout l paneId True
              else closePaneInLayout (se_layout env) l paneId explorer) (\<lambda>r.
         case r of
           None \<Rightarrow> Inr (st, ())
         | Some m \<Rightarrow>
             (let st1 = put_layout k m (withoutFocusRestoration k st) in
              Inr (if registered (st_side st) k = Some paneId
                   then st1\<lparr>st_side := (st_side st)(k \<mapsto> None)\<rparr> else st1, ())))))"

definition moveTabToPane :: "store_env \<Rightarrow> string \<Rightarrow> string \<Rightarrow> string \<Rightarrow> unit action" where
  "moveTabToPane env workspaceKey tabId0 toPaneId0 =
     with_id workspaceKey () (\<lambda>k. with_id tabId0 () (\<lambda>tabId. with_id toPaneId0 () (\<lambda>toPaneId st.
       let le = se_layout env; l = layout_of env st k; explorer = explorer_of env st k in
       case tab_by_id (lo_tree l) tabId of
         None \<Rightarrow> Inr (st, ())
       | Some tab \<Rightarrow>
           if \<not> supports_host env k (wt_target tab) (Some toPaneId = explorer) then Inr (st, ())
           else ebind (moveTabToPaneInLayout le l tabId toPaneId explorer) (\<lambda>r.
             case r of
               None \<Rightarrow> Inr (st, ())
             | Some m \<Rightarrow>
                 (let restored = (if Some toPaneId = explorer then restoreEmptyPanesInLayout le m explorer else m);
                      next = keepWorkspaceFocusOutOfExplorerSidebar restored explorer (lo_focus l) in
                  Inr (reconcileRememberedSidePane k next (put_layout k next (withoutFocusRestoration k st)), ()))))))"

section \<open>Focus\<close>

definition focusTab :: "store_env \<Rightarrow> string \<Rightarrow> string \<Rightarrow> unit action" where
  "focusTab env workspaceKey tabId0 =
     with_id workspaceKey () (\<lambda>k. with_id tabId0 () (\<lambda>tabId st.
       let l = layout_of env st k;
           keep = (\<lambda>r. Inr (case r of Some m \<Rightarrow> put_layout k m (withoutFocusRestoration k st) | None \<Rightarrow> st, ())) in
       case only_if (\<lambda>p. Some (sp_id p) = explorer_of env st k) (findPaneContainingTab (lo_tree l) tabId) of
         Some p \<Rightarrow>
           ebind (or_layout (setPaneHiddenInLayout l (sp_id p) False) l) (\<lambda>revealed.
           ebind (or_layout (selectTabInPaneInLayout revealed (sp_id p) tabId) revealed) (\<lambda>m. keep (Some m)))
       | None \<Rightarrow> ebind (focusTabInLayout l tabId) keep))"

definition selectTabInPane :: "store_env \<Rightarrow> string \<Rightarrow> string \<Rightarrow> string \<Rightarrow> unit action" where
  "selectTabInPane env workspaceKey paneId0 tabId0 =
     with_id workspaceKey () (\<lambda>k. with_id paneId0 () (\<lambda>paneId. with_id tabId0 () (\<lambda>tabId st.
       ebind (selectTabInPaneInLayout (layout_of env st k) paneId tabId) (\<lambda>r.
         Inr (case r of Some m \<Rightarrow> put_layout k m st | None \<Rightarrow> st, ())))))"

definition focusPane :: "store_env \<Rightarrow> string \<Rightarrow> string \<Rightarrow> unit action" where
  "focusPane env workspaceKey paneId0 =
     with_id workspaceKey () (\<lambda>k. with_id paneId0 () (\<lambda>paneId st.
       if Some paneId = explorer_of env st k then Inr (st, ())
       else ebind (focusPaneInLayout (layout_of env st k) paneId) (\<lambda>r.
         Inr (case r of Some m \<Rightarrow> put_layout k m (withoutFocusRestoration k st) | None \<Rightarrow> st, ()))))"

definition unfocusPane :: "store_env \<Rightarrow> string \<Rightarrow> string option action" where
  "unfocusPane env workspaceKey =
     with_id workspaceKey None (\<lambda>k st.
       let l = layout_of env st k;
           restore = (case st_restore st k of
               Some r \<Rightarrow> \<lparr>fr_pane = or_else (fr_pane r) (lo_focus l), fr_tokens = fr_tokens r @ [se_token env]\<rparr>
             | None \<Rightarrow> \<lparr>fr_pane = lo_focus l, fr_tokens = [se_token env]\<rparr>) in
       Inr ((put_layout k (l\<lparr>lo_focus := None\<rparr>) st)\<lparr>st_restore := (st_restore st)(k \<mapsto> restore)\<rparr>, Some (se_token env)))"

definition restorePaneFocus :: "store_env \<Rightarrow> string \<Rightarrow> string \<Rightarrow> unit action" where
  "restorePaneFocus env workspaceKey token0 =
     with_id workspaceKey () (\<lambda>k. with_id token0 () (\<lambda>token st.
       case st_restore st k of
         None \<Rightarrow> Inr (st, ())
       | Some r \<Rightarrow>
           if token \<notin> set (fr_tokens r) then Inr (st, ())
           else
             (let tokens = filter (\<lambda>t. t \<noteq> token) (fr_tokens r); l = layout_of env st k;
                  st1 = withoutFocusRestoration k st in
              if lo_focus l \<noteq> None then Inr (st1, ())
              else if tokens \<noteq> [] then
                Inr (st1\<lparr>st_restore := (st_restore st)(k \<mapsto> \<lparr>fr_pane = fr_pane r, fr_tokens = tokens\<rparr>)\<rparr>, ())
              else case only_if (\<lambda>p. \<not> sp_hidden p \<and> sp_id p \<noteq> []) (findPaneById (lo_tree l) (fr_pane r)) of
                None \<Rightarrow> Inr (st1, ())
              | Some p \<Rightarrow> Inr (put_layout k (l\<lparr>lo_focus := Some (sp_id p)\<rparr>) st1, ()))))"

section \<open>What tabs show\<close>

definition replaceTab ::
    "store_env \<Rightarrow> string \<Rightarrow> string \<Rightarrow> tab_target \<Rightarrow> json option \<Rightarrow> string option action" where
  "replaceTab env workspaceKey tabId0 rawTarget state =
     with_id workspaceKey None (\<lambda>k. with_id tabId0 None (\<lambda>tabId st.
       case normalizeWorkspaceTabTarget rawTarget of
         None \<Rightarrow> Inr (st, None)
       | Some target \<Rightarrow>
           ebind (replaceTabTargetInLayout (se_layout env) (layout_of env st k) tabId target (se_tabId env) state) (\<lambda>r.
             case r of
               None \<Rightarrow> Inr (st, None)
             | Some (m, i) \<Rightarrow>
                 (let st1 = put_layout k m (withoutFocusRestoration k st) in
                  Inr (case target of
                         Tab_agent a \<Rightarrow> st1\<lparr>st_hidden := removeAgentIdFromWorkspaceSet (st_hidden st) k a\<rparr>
                       | _ \<Rightarrow> st1, Some i)))))"

definition setTabState :: "store_env \<Rightarrow> string \<Rightarrow> string \<Rightarrow> json option \<Rightarrow> unit action" where
  "setTabState env workspaceKey tabId0 state =
     with_id workspaceKey () (\<lambda>k. with_id tabId0 () (\<lambda>tabId st.
       ebind (setTabStateInLayout (layout_of env st k) tabId state) (\<lambda>r.
         Inr (case r of Some m \<Rightarrow> put_layout k m st | None \<Rightarrow> st, ()))))"

definition convertDraftToAgent :: "store_env \<Rightarrow> string \<Rightarrow> string \<Rightarrow> string \<Rightarrow> string option action" where
  "convertDraftToAgent env workspaceKey tabId0 agentId0 =
     with_id workspaceKey None (\<lambda>k. with_id tabId0 None (\<lambda>tabId. with_id agentId0 None (\<lambda>agentId st.
       ebind (convertDraftToAgentInLayout (se_layout env) (layout_of env st k) tabId agentId) (\<lambda>r.
         case r of
           None \<Rightarrow> Inr (st, None)
         | Some (m, i) \<Rightarrow>
             (let st1 = (if lo_focus m \<noteq> None then withoutFocusRestoration k st else st) in
              Inr ((put_layout k m st1)\<lparr>st_hidden := removeAgentIdFromWorkspaceSet (st_hidden st) k agentId\<rparr>, Some i))))))"

definition reorderTabs :: "store_env \<Rightarrow> string \<Rightarrow> string list \<Rightarrow> unit action" where
  "reorderTabs env workspaceKey tabIds =
     with_id workspaceKey () (\<lambda>k st.
       ebind (reorderFocusedPaneTabsInLayout (layout_of env st k) tabIds) (\<lambda>r.
         Inr (case r of Some m \<Rightarrow> put_layout k m st | None \<Rightarrow> st, ())))"

definition reorderTabsInPane :: "store_env \<Rightarrow> string \<Rightarrow> string \<Rightarrow> string list \<Rightarrow> unit action" where
  "reorderTabsInPane env workspaceKey paneId0 tabIds =
     with_id workspaceKey () (\<lambda>k. with_id paneId0 () (\<lambda>paneId st.
       ebind (reorderPaneTabsInLayout (layout_of env st k) paneId tabIds) (\<lambda>r.
         Inr (case r of Some m \<Rightarrow> put_layout k m (withoutFocusRestoration k st) | None \<Rightarrow> st, ()))))"

definition getWorkspaceTabs :: "store_env \<Rightarrow> layout_store \<Rightarrow> string \<Rightarrow> workspace_tab list" where
  "getWorkspaceTabs env st workspaceKey =
     (case trimNonEmpty (Some workspaceKey) of
        None \<Rightarrow> []
      | Some k \<Rightarrow> collectAllTabs (lo_tree (layout_of env st k)))"

section \<open>Reconciling\<close>

definition ids_at :: "(string \<rightharpoonup> string list) \<Rightarrow> string \<Rightarrow> string list" where
  "ids_at m k = (case m k of Some ids \<Rightarrow> ids | None \<Rightarrow> [])"

definition reconcileTabs :: "store_env \<Rightarrow> string \<Rightarrow> tab_snapshot \<Rightarrow> unit action" where
  "reconcileTabs env workspaceKey sn =
     with_id workspaceKey () (\<lambda>k st.
       let raw = layout_of env st k; explorer = explorer_of env st k;
           current = keepWorkspaceFocusOutOfExplorerSidebar raw explorer (lo_focus raw) in
       ebind (reconcileWorkspaceTabs (se_layout env) (se_draftId env)
                \<lparr>rs_layout = current, rs_pinned = ids_at (st_pinned st) k, rs_pending = ids_at (st_pending st) k,
                 rs_hidden = ids_at (st_hidden st) k, rs_explorer = explorer\<rparr> sn) (\<lambda>r.
         let next = keepWorkspaceFocusOutOfExplorerSidebar (rs_layout r) explorer (lo_focus current) in
         Inr (if next = raw then st else put_layout k next st, ())))"

section \<open>Agents\<close>

definition resolvePendingAgent :: "string \<Rightarrow> string \<Rightarrow> unit action" where
  "resolvePendingAgent workspaceKey agentId0 =
     with_id workspaceKey () (\<lambda>k. with_id agentId0 () (\<lambda>a st.
       Inr (st\<lparr>st_pending := removeAgentIdFromWorkspaceSet (st_pending st) k a\<rparr>, ())))"

definition unpinAgent :: "string \<Rightarrow> string \<Rightarrow> unit action" where
  "unpinAgent workspaceKey agentId0 =
     with_id workspaceKey () (\<lambda>k. with_id agentId0 () (\<lambda>a st.
       if a \<notin> set (ids_at (st_pinned st) k) then Inr (st, ())
       else Inr (st\<lparr>st_pinned := removeAgentIdFromWorkspaceSet (st_pinned st) k a,
                    st_pending := removeAgentIdFromWorkspaceSet (st_pending st) k a\<rparr>, ())))"

definition hideAgent :: "string \<Rightarrow> string \<Rightarrow> unit action" where
  "hideAgent workspaceKey agentId0 =
     with_id workspaceKey () (\<lambda>k. with_id agentId0 () (\<lambda>a st.
       Inr (st\<lparr>st_hidden := addAgentIdToWorkspaceSet (st_hidden st) k a\<rparr>, ())))"

definition unhideAgent :: "string \<Rightarrow> string \<Rightarrow> unit action" where
  "unhideAgent workspaceKey agentId0 =
     with_id workspaceKey () (\<lambda>k. with_id agentId0 () (\<lambda>a st.
       Inr (st\<lparr>st_hidden := removeAgentIdFromWorkspaceSet (st_hidden st) k a\<rparr>, ())))"

section \<open>Sizes\<close>

definition resizeSplit :: "string \<Rightarrow> string \<Rightarrow> js_real list \<Rightarrow> unit action" where
  "resizeSplit workspaceKey groupId0 sizes =
     with_id workspaceKey () (\<lambda>k. with_id groupId0 () (\<lambda>g st.
       let m = (case st_sizes st k of Some m \<Rightarrow> m | None \<Rightarrow> Map.empty) in
       Inr (st\<lparr>st_sizes := (st_sizes st)(k \<mapsto> m(g \<mapsto> clampNormalizedSizes sizes))\<rparr>, ())))"

definition resizeExplorerSidebar :: "string \<Rightarrow> js_real \<Rightarrow> unit action" where
  "resizeExplorerSidebar workspaceKey width =
     with_id workspaceKey () (\<lambda>k st.
       case width of
         Fin w \<Rightarrow> if w \<le> 0 then Inr (st, ()) else Inr (st\<lparr>st_widths := (st_widths st)(k \<mapsto> w)\<rparr>, ())
       | _ \<Rightarrow> Inr (st, ()))"

definition purgeWorkspace :: "string \<Rightarrow> unit action" where
  "purgeWorkspace workspaceKey =
     with_id workspaceKey () (\<lambda>k st.
       Inr (\<lparr>st_layouts = (st_layouts st)(k := None), st_sizes = (st_sizes st)(k := None),
             st_widths = (st_widths st)(k := None), st_pinned = (st_pinned st)(k := None),
             st_pending = (st_pending st)(k := None), st_hidden = (st_hidden st)(k := None),
             st_restore = (st_restore st)(k := None), st_explorer = (st_explorer st)(k := None),
             st_side = (st_side st)(k := None)\<rparr>, ()))"

end
