(* ===== verification/Workspace_Persistence.thy ===== *)
theory Workspace_Persistence
  imports Workspace_Actions
begin

text \<open>
  What the layout store writes and reads back: tabs of commits are left out, each layout gets an
  Explorer pane, and layouts of the first version are migrated. The validation of the stored JSON
  against its schema comes before and is not modelled.
\<close>

section \<open>Writing\<close>

record persisted_state =
  ps_layouts :: "string \<rightharpoonup> layout"
  ps_sizes :: "string \<rightharpoonup> (string \<rightharpoonup> rat list)"
  ps_widths :: "string \<rightharpoonup> rat"
  ps_explorer :: "string \<rightharpoonup> string option"
  ps_side :: "string \<rightharpoonup> string option"

definition partialize :: "layout_env \<Rightarrow> layout_store \<Rightarrow> persisted_state" where
  "partialize env st =
     \<lparr>ps_layouts = (\<lambda>k. map_option (\<lambda>l. stripEphemeralTabsFromLayout (normalizeLayout env (Some l))) (st_layouts st k)),
      ps_sizes = st_sizes st, ps_widths = st_widths st, ps_explorer = st_explorer st, ps_side = st_side st\<rparr>"

section \<open>Reading\<close>

definition ensurePersistedExplorerSidebarPane ::
    "layout_env \<Rightarrow> layout \<Rightarrow> string option \<Rightarrow> layout_error + (layout \<times> string) option" where
  "ensurePersistedExplorerSidebarPane env l reg =
     (case only_if (\<lambda>i. i \<noteq> []) (resolveExplorerSidebarPaneId l reg) of
        Some i \<Rightarrow> Inr (Some (keepWorkspaceFocusOutOfExplorerSidebar l (Some i) (lo_focus l), i))
      | None \<Rightarrow>
          (case only_if (\<lambda>i. i \<noteq> []) (or_else (pane_id_of (findPaneById (lo_tree l) (lo_focus l)))
                  (pane_id_of (head_opt (collectAllPanes (lo_tree l))))) of
             None \<Rightarrow> Inr None
           | Some target \<Rightarrow>
               ebind (splitPaneEmptyInLayout env l target At_right MAX_TREE_DEPTH) (\<lambda>r.
                 case r of
                   None \<Rightarrow> Inr None
                 | Some (m, i) \<Rightarrow>
                     ebind (or_layout (setPaneHiddenInLayout m i True) m) (\<lambda>h.
                       Inr (Some (restoreEmptyPanesInLayout env (stripEphemeralTabsFromLayout h) (Some i), i))))))"

text \<open>One workspace of \<open>merge\<close>: its layout and the Explorer pane that is registered for it.\<close>

definition merge_workspace ::
    "layout_env \<Rightarrow> layout \<Rightarrow> string option option \<Rightarrow> layout_error + layout \<times> string option option" where
  "merge_workspace env l reg =
     (let stripped = stripEphemeralTabsFromLayout l in
      ebind (ensurePersistedExplorerSidebarPane env stripped (case reg of Some v \<Rightarrow> v | None \<Rightarrow> None)) (\<lambda>r.
        Inr (case r of
               None \<Rightarrow> (restoreEmptyPanesInLayout env stripped None, reg)
             | Some (m, i) \<Rightarrow> (restoreEmptyPanesInLayout env m (Some i), Some (Some i)))))"

section \<open>Migration\<close>

definition convertLegacyExplorerSidebarRatios :: "(string \<rightharpoonup> rat) \<Rightarrow> (string \<rightharpoonup> rat)" where
  "convertLegacyExplorerSidebarRatios m = (\<lambda>k. map_option (\<lambda>ratio. ratio * 1440) (m k))"

fun replacePaneInNode :: "string \<Rightarrow> split_pane \<Rightarrow> split_node \<Rightarrow> split_node" where
  "replacePaneInNode i p (Pane q) = (if sp_id q = i then Pane p else Pane q)"
| "replacePaneInNode i p (Group g d cs ss) = Group g d (map (replacePaneInNode i p) cs) ss"

definition visiblePane :: "split_pane \<Rightarrow> split_pane" where
  "visiblePane p = p\<lparr>sp_hidden := False\<rparr>"

definition createExplorerSidebarNode :: "layout_env \<Rightarrow> layout_error + split_node" where
  "createExplorerSidebarNode env =
     (case findPaneById (lo_tree (createWorkspaceLayoutWithExplorerSidebar env)) (Some EXPLORER_SIDEBAR_PANE_ID) of
        None \<Rightarrow> Inl (Invariant_failed ''Default Explorer pane is missing'')
      | Some p \<Rightarrow> Inr (Pane p))"

definition preserveVersionOneSideTabs ::
    "layout_env \<Rightarrow> layout \<Rightarrow> split_pane \<Rightarrow> split_pane option \<Rightarrow> workspace_tab list \<Rightarrow>
     layout_error + split_node \<times> string option" where
  "preserveVersionOneSideTabs env l legacy remembered tabs =
     ebind (removePaneFromTree env (lo_tree l) (sp_id legacy)) (\<lambda>without.
       if tabs = [] then
         Inr (if findPaneById without (Some (sp_id legacy)) \<noteq> None then lo_tree (createDefaultLayout env) else without,
              pane_id_of remembered)
       else case remembered of
         Some r \<Rightarrow>
           (let rememberedTabs = filter (\<lambda>t. wt_id t \<in> set (sp_tabIds r)) (collectAllTabs (lo_tree l)) in
            Inr (replacePaneInNode (sp_id r)
                   (visiblePane (r\<lparr>sp_tabIds := sp_tabIds r @ map wt_id tabs, sp_tabs := rememberedTabs @ tabs,
                      sp_focusedTabId := or_else (sp_focusedTabId r) (map_option wt_id (head_opt tabs))\<rparr>)) without,
                 Some (sp_id r)))
       | None \<Rightarrow>
           (let sideId = le_paneId env in
            Inr (replacePaneInNode (sp_id legacy)
                   (visiblePane (legacy\<lparr>sp_id := sideId, sp_tabIds := map wt_id tabs, sp_tabs := tabs,
                      sp_focusedTabId := or_else (map_option wt_id (find (\<lambda>t. Some (wt_id t) = sp_focusedTabId legacy) tabs))
                        (map_option wt_id (head_opt tabs))\<rparr>)) (lo_tree l),
                 Some sideId)))"

definition migrateVersionOneWorkspaceLayout ::
    "layout_env \<Rightarrow> layout \<Rightarrow> string option \<Rightarrow> string option \<Rightarrow> layout_error + layout \<times> string \<times> string option" where
  "migrateVersionOneWorkspaceLayout env l legacyId rememberedId =
     (let stripped = stripEphemeralTabsFromLayout l in
      case findPaneById (lo_tree stripped) (resolveExplorerSidebarPaneId stripped legacyId) of
        None \<Rightarrow>
          ebind (ensurePersistedExplorerSidebarPane env stripped None) (\<lambda>r.
            Inr (case r of
                   Some (m, i) \<Rightarrow> (m, i, rememberedId)
                 | None \<Rightarrow> (stripped, EXPLORER_SIDEBAR_PANE_ID, rememberedId)))
      | Some legacy \<Rightarrow>
          (let preserved = filter (\<lambda>t. wt_id t \<in> set (sp_tabIds legacy) \<and> wt_target t \<noteq> Tab_files \<and>
                   wt_target t \<noteq> Tab_changes_tree) (collectAllTabs (lo_tree stripped)) in
           ebind (preserveVersionOneSideTabs env stripped legacy (findPaneById (lo_tree stripped) rememberedId) preserved)
             (\<lambda>(tree, side).
           ebind (createExplorerSidebarNode env) (\<lambda>explorer.
             let focus = (if lo_focus stripped = Some (sp_id legacy)
                          then or_else side (or_else (pane_id_of (head_opt (collectAllPanes tree))) (Some DEFAULT_PANE_ID))
                          else lo_focus stripped) in
             Inr (normalizeLayout env (Some \<lparr>lo_tree = Group (le_groupId env) Horizontal [tree, explorer] [78 / 100, 22 / 100],
                    lo_focus = focus, lo_parents = lo_parents stripped\<rparr>),
                  EXPLORER_SIDEBAR_PANE_ID, side)))))"

end
