(* ===== verification/Pid_Lock.thy ===== *)
theory Pid_Lock
  imports Orqara_Prelude
begin

text \<open>
  The lock file that keeps a second daemon from starting on the same data
  (\<open>server/src/server/pid-lock.ts\<close>). A file is an inode that the name of the lock file may point to:
  an open handle stays with its inode when the file is unlinked or replaced. Every system call is
  one step, so that calls of several processes can come between the awaits of each other; the time
  of a step is given with it. The text of a lock file is the lock it parses to, None for a text that
  is no lock (the file is empty between its creation and the first write).
\<close>

section \<open>Locks and files\<close>

record pid_lock =
  pl_pid :: int
  pl_startedAt :: int
  pl_hostname :: string
  pl_uid :: int
  pl_listen :: "string option"
  pl_desktopManaged :: "bool option"
  pl_heartbeat :: "bool option"

record lock_disk =
  ld_home :: bool
  ld_name :: "nat option"
  ld_inodes :: "(pid_lock option \<times> int) list"
  ld_running :: "int list"

text \<open>What a process passes to \<open>acquirePidLock\<close>, and what it reads from its environment.\<close>

record lock_proc =
  lp_pid :: int
  lp_ownerPid :: "js_num option"
  lp_reclaim :: "bool option"
  lp_listen :: "string option"
  lp_hostname :: string
  lp_uid :: int
  lp_desktop :: bool

definition PID_LOCK_STALE_MS :: int where
  "PID_LOCK_STALE_MS = 5 * 60000"

definition PID_LOCK_READ_RETRY_ATTEMPTS :: nat where
  "PID_LOCK_READ_RETRY_ATTEMPTS = 10"

definition isPidRunning :: "lock_disk \<Rightarrow> int \<Rightarrow> bool" where
  "isPidRunning d pid = (pid \<in> set (ld_running d))"

definition isPidLockFresh :: "lock_disk \<Rightarrow> int \<Rightarrow> bool" where
  "isPidLockFresh d now =
     (case ld_name d of
        None \<Rightarrow> False
      | Some i \<Rightarrow> now - PID_LOCK_STALE_MS \<le> snd (ld_inodes d ! i))"

definition set_mtime :: "nat \<Rightarrow> int \<Rightarrow> lock_disk \<Rightarrow> lock_disk" where
  "set_mtime i now d = d\<lparr>ld_inodes := (ld_inodes d)[i := (fst (ld_inodes d ! i), now)]\<rparr>"

definition write_inode :: "nat \<Rightarrow> pid_lock option \<Rightarrow> int \<Rightarrow> lock_disk \<Rightarrow> lock_disk" where
  "write_inode i l now d = d\<lparr>ld_inodes := (ld_inodes d)[i := (l, now)]\<rparr>"

definition readPidLock :: "lock_disk \<Rightarrow> pid_lock option" where
  "readPidLock d = (case ld_name d of None \<Rightarrow> None | Some i \<Rightarrow> fst (ld_inodes d ! i))"

definition readPidLockFromHandle :: "lock_disk \<Rightarrow> nat \<Rightarrow> pid_lock option" where
  "readPidLockFromHandle d i = fst (ld_inodes d ! i)"

definition resolveOwnerPid :: "lock_proc \<Rightarrow> int" where
  "resolveOwnerPid p =
     (case lp_ownerPid p of Some (Num n) \<Rightarrow> if n > 0 then n else lp_pid p | _ \<Rightarrow> lp_pid p)"

definition canReclaimLiveLock :: "pid_lock \<Rightarrow> lock_proc \<Rightarrow> bool" where
  "canReclaimLiveLock l p = (lp_reclaim p = Some True \<and> pl_desktopManaged l = Some True)"

definition isSamePidLock :: "pid_lock \<Rightarrow> pid_lock \<Rightarrow> bool" where
  "isSamePidLock a b = (pl_pid a = pl_pid b \<and> pl_startedAt a = pl_startedAt b)"

definition lock_info :: "lock_proc \<Rightarrow> int \<Rightarrow> pid_lock" where
  "lock_info p now =
     \<lparr>pl_pid = resolveOwnerPid p, pl_startedAt = now, pl_hostname = lp_hostname p, pl_uid = lp_uid p,
      pl_listen = lp_listen p, pl_desktopManaged = (if lp_desktop p then Some True else None),
      pl_heartbeat = Some True\<rparr>"

section \<open>Acquiring and releasing\<close>

datatype lock_error =
    Lock_held pid_lock
  | Lock_changed
  | Lock_race "pid_lock option"
  | Lock_missing
  | Lock_invalid
  | Lock_other_owner pid_lock
  | Lock_io

text \<open>Where a process is: the name of a state is what it does next.\<close>

datatype lock_main =
    Idle
  | Acquire
  | Read_existing
  | Touch_own
  | Check_fresh pid_lock
  | Confirm pid_lock
  | Confirm_fresh
  | Unlink_old
  | Open_new pid_lock
  | Write_new nat pid_lock
  | Read_race
  | Held
  | Failed lock_error
  | Release
  | Unlink_own
  | Ended

text \<open>\<open>clearExistingPidLock\<close> up to its first await, and its later steps.\<close>

definition clear_existing :: "lock_proc \<Rightarrow> lock_disk \<Rightarrow> pid_lock \<Rightarrow> lock_main" where
  "clear_existing p d l =
     (if pl_pid l = resolveOwnerPid p \<and> isPidRunning d (pl_pid l) then Touch_own
      else if isPidRunning d (pl_pid l)
      then if \<not> canReclaimLiveLock l p then Failed (Lock_held l) else Check_fresh l
      else Unlink_old)"

fun clearExistingPidLock :: "lock_proc \<Rightarrow> int \<Rightarrow> lock_disk \<Rightarrow> lock_main \<Rightarrow> lock_disk \<times> lock_main" where
  "clearExistingPidLock p now d Touch_own =
     (case ld_name d of
        None \<Rightarrow> (d, Failed Lock_io)
      | Some i \<Rightarrow> (set_mtime i now d, Held))"
| "clearExistingPidLock p now d (Check_fresh l) =
     (if isPidLockFresh d now then (d, Failed (Lock_held l)) else (d, Confirm l))"
| "clearExistingPidLock p now d (Confirm l) =
     (case readPidLock d of
        None \<Rightarrow> (d, Failed Lock_changed)
      | Some c \<Rightarrow> if \<not> isSamePidLock l c then (d, Failed Lock_changed) else (d, Confirm_fresh))"
| "clearExistingPidLock p now d Confirm_fresh =
     (if isPidLockFresh d now then (d, Failed Lock_changed) else (d, Unlink_old))"
| "clearExistingPidLock p now d Unlink_old = (d\<lparr>ld_name := None\<rparr>, Open_new (lock_info p now))"
| "clearExistingPidLock p now d pc = (d, pc)"

fun writeNewPidLock :: "int \<Rightarrow> lock_disk \<Rightarrow> lock_main \<Rightarrow> lock_disk \<times> lock_main" where
  "writeNewPidLock now d (Open_new info) =
     (if \<not> ld_home d then (d, Failed Lock_io)
      else if ld_name d \<noteq> None then (d, Read_race)
      else (d\<lparr>ld_name := Some (length (ld_inodes d)), ld_inodes := ld_inodes d @ [(None, now)]\<rparr>,
            Write_new (length (ld_inodes d)) info))"
| "writeNewPidLock now d (Write_new i info) = (write_inode i (Some info) now d, Held)"
| "writeNewPidLock now d Read_race = (d, Failed (Lock_race (readPidLock d)))"
| "writeNewPidLock now d pc = (d, pc)"

fun releasePidLock :: "lock_proc \<Rightarrow> lock_disk \<Rightarrow> lock_main \<Rightarrow> lock_disk \<times> lock_main" where
  "releasePidLock p d Release =
     (case readPidLock d of
        None \<Rightarrow> (d, Idle)
      | Some l \<Rightarrow> if pl_pid l = resolveOwnerPid p then (d, Unlink_own) else (d, Idle))"
| "releasePidLock p d Unlink_own = (d\<lparr>ld_name := None\<rparr>, Idle)"
| "releasePidLock p d pc = (d, pc)"

fun acquirePidLock :: "lock_proc \<Rightarrow> int \<Rightarrow> lock_disk \<Rightarrow> lock_main \<Rightarrow> lock_disk \<times> lock_main" where
  "acquirePidLock p now d Acquire = (d\<lparr>ld_home := True\<rparr>, Read_existing)"
| "acquirePidLock p now d Read_existing =
     (case readPidLock d of
        None \<Rightarrow> (d, Open_new (lock_info p now))
      | Some l \<Rightarrow> (d, clear_existing p d l))"
| "acquirePidLock p now d (Open_new info) = writeNewPidLock now d (Open_new info)"
| "acquirePidLock p now d (Write_new i info) = writeNewPidLock now d (Write_new i info)"
| "acquirePidLock p now d Read_race = writeNewPidLock now d Read_race"
| "acquirePidLock p now d Release = releasePidLock p d Release"
| "acquirePidLock p now d Unlink_own = releasePidLock p d Unlink_own"
| "acquirePidLock p now d pc = clearExistingPidLock p now d pc"

section \<open>Heartbeats and updates\<close>

datatype lock_side =
    Beat_open
  | Beat_read nat nat
  | Beat_touch nat
  | Update_open "string option"
  | Update_read nat nat "string option"
  | Update_truncate nat pid_lock
  | Update_write nat pid_lock
  | Side_done "lock_error option"

text \<open>A read through a handle is tried ten times, \<open>again\<close> being the next attempt.\<close>

definition readPidLockFromHandleWithRetry ::
    "lock_disk \<Rightarrow> nat \<Rightarrow> nat \<Rightarrow> lock_side \<Rightarrow> (pid_lock \<Rightarrow> lock_side) \<Rightarrow> lock_side" where
  "readPidLockFromHandleWithRetry d i attempt again found =
     (case readPidLockFromHandle d i of
        Some l \<Rightarrow> found l
      | None \<Rightarrow> if attempt < PID_LOCK_READ_RETRY_ATTEMPTS - 1 then again else Side_done (Some Lock_invalid))"

fun refreshPidLock :: "lock_proc \<Rightarrow> int \<Rightarrow> lock_disk \<Rightarrow> lock_side \<Rightarrow> lock_disk \<times> lock_side" where
  "refreshPidLock p now d Beat_open =
     (case ld_name d of None \<Rightarrow> (d, Side_done (Some Lock_missing)) | Some i \<Rightarrow> (d, Beat_read i 0))"
| "refreshPidLock p now d (Beat_read i n) =
     (d, readPidLockFromHandleWithRetry d i n (Beat_read i (Suc n)) (\<lambda>l.
           if pl_pid l \<noteq> resolveOwnerPid p then Side_done (Some (Lock_other_owner l)) else Beat_touch i))"
| "refreshPidLock p now d (Beat_touch i) = (set_mtime i now d, Side_done None)"
| "refreshPidLock p now d pc = (d, pc)"

fun updatePidLock :: "lock_proc \<Rightarrow> int \<Rightarrow> lock_disk \<Rightarrow> lock_side \<Rightarrow> lock_disk \<times> lock_side" where
  "updatePidLock p now d (Update_open listen) =
     (case ld_name d of None \<Rightarrow> (d, Side_done (Some Lock_io)) | Some i \<Rightarrow> (d, Update_read i 0 listen))"
| "updatePidLock p now d (Update_read i n listen) =
     (d, readPidLockFromHandleWithRetry d i n (Update_read i (Suc n) listen) (\<lambda>l.
           if pl_pid l \<noteq> resolveOwnerPid p then Side_done (Some (Lock_other_owner l))
           else Update_truncate i (l\<lparr>pl_listen := listen\<rparr>)))"
| "updatePidLock p now d (Update_truncate i l) = (write_inode i None now d, Update_write i l)"
| "updatePidLock p now d (Update_write i l) = (write_inode i (Some l) now d, Side_done None)"
| "updatePidLock p now d pc = refreshPidLock p now d pc"

definition getPidLockInfo :: "lock_disk \<Rightarrow> pid_lock option" where
  "getPidLockInfo d = readPidLock d"

definition isLocked :: "lock_disk \<Rightarrow> bool \<times> pid_lock option" where
  "isLocked d =
     (case getPidLockInfo d of
        None \<Rightarrow> (False, None)
      | Some l \<Rightarrow> (isPidRunning d (pl_pid l), Some l))"

section \<open>Several processes\<close>

text \<open>The processes of one machine, each with the state of its main task, and the heartbeats and
  updates that are under way with the process they belong to. An event names whose turn it is.\<close>

record lock_sys =
  ls_disk :: lock_disk
  ls_main :: "lock_main list"
  ls_sides :: "(nat \<times> lock_side) list"

datatype lock_event =
    Call_acquire nat
  | Call_release nat
  | Main nat int
  | Tick nat
  | Call_update nat string
  | Side nat int
  | Exit int

fun is_beat :: "lock_side \<Rightarrow> bool" where
  "is_beat Beat_open = True"
| "is_beat (Beat_read i n) = True"
| "is_beat (Beat_touch i) = True"
| "is_beat _ = False"

text \<open>The tick of \<open>startPidLockHeartbeat\<close>: one refresh at a time.\<close>

definition heartbeat_tick :: "nat \<Rightarrow> (nat \<times> lock_side) list \<Rightarrow> (nat \<times> lock_side) list" where
  "heartbeat_tick k sides =
     (if list_ex (\<lambda>(j, pc). j = k \<and> is_beat pc) sides then sides else sides @ [(k, Beat_open)])"

fun lock_step :: "lock_proc list \<Rightarrow> lock_event \<Rightarrow> lock_sys \<Rightarrow> lock_sys" where
  "lock_step procs (Call_acquire k) s =
     (case ls_main s ! k of
        Idle \<Rightarrow> s\<lparr>ls_main := (ls_main s)[k := Acquire]\<rparr>
      | Failed e \<Rightarrow> s\<lparr>ls_main := (ls_main s)[k := Acquire]\<rparr>
      | _ \<Rightarrow> s)"
| "lock_step procs (Call_release k) s =
     (case ls_main s ! k of
        Held \<Rightarrow> s\<lparr>ls_main := (ls_main s)[k := Release]\<rparr>
      | Failed e \<Rightarrow> s\<lparr>ls_main := (ls_main s)[k := Release]\<rparr>
      | _ \<Rightarrow> s)"
| "lock_step procs (Main k now) s =
     (if k < length (ls_main s)
      then let (d, pc) = acquirePidLock (procs ! k) now (ls_disk s) (ls_main s ! k)
           in s\<lparr>ls_disk := d, ls_main := (ls_main s)[k := pc]\<rparr>
      else s)"
| "lock_step procs (Tick k) s =
     (if k < length (ls_main s) \<and> ls_main s ! k = Held
      then s\<lparr>ls_sides := heartbeat_tick k (ls_sides s)\<rparr> else s)"
| "lock_step procs (Call_update k listen) s =
     (if k < length (ls_main s) \<and> ls_main s ! k = Held
      then s\<lparr>ls_sides := ls_sides s @ [(k, Update_open (Some listen))]\<rparr> else s)"
| "lock_step procs (Side n now) s =
     (if n < length (ls_sides s)
      then let (k, pc) = ls_sides s ! n; (d, pc') = updatePidLock (procs ! k) now (ls_disk s) pc
           in s\<lparr>ls_disk := d, ls_sides := (ls_sides s)[n := (k, pc')]\<rparr>
      else s)"
| "lock_step procs (Exit pid) s =
     s\<lparr>ls_disk := (ls_disk s)\<lparr>ld_running := removeAll pid (ld_running (ls_disk s))\<rparr>,
       ls_main := map (\<lambda>(p, pc). if lp_pid p = pid then Ended else pc) (zip procs (ls_main s)),
       ls_sides := filter (\<lambda>(k, pc). lp_pid (procs ! k) \<noteq> pid) (ls_sides s)\<rparr>"

text \<open>No lock file at first.\<close>

definition lock_start :: "lock_proc list \<Rightarrow> int list \<Rightarrow> lock_sys" where
  "lock_start procs running =
     \<lparr>ls_disk = \<lparr>ld_home = False, ld_name = None, ld_inodes = [], ld_running = running\<rparr>,
      ls_main = map (\<lambda>p. Idle) procs, ls_sides = []\<rparr>"

definition run_lock :: "lock_proc list \<Rightarrow> lock_event list \<Rightarrow> lock_sys \<Rightarrow> lock_sys" where
  "run_lock procs es s = fold (lock_step procs) es s"

end
