(* ===== verification/Pid_Lock_Spec.thy ===== *)
theory Pid_Lock_Spec
  imports Pid_Lock
begin

text \<open>
  Who holds the lock: one process at most as long as every owner of a lock stays alive, and what goes
  wrong when an owner dies.
\<close>

section \<open>The invariant\<close>

text \<open>A process in one of these states owns the file that the name points to.\<close>

fun owns_file :: "lock_main \<Rightarrow> bool" where
  "owns_file Touch_own = True"
| "owns_file (Write_new i l) = True"
| "owns_file Held = True"
| "owns_file Unlink_own = True"
| "owns_file _ = False"

text \<open>The states of a process that takes over a lock of another one.\<close>

fun takes_over :: "lock_main \<Rightarrow> bool" where
  "takes_over (Check_fresh l) = True"
| "takes_over (Confirm l) = True"
| "takes_over Confirm_fresh = True"
| "takes_over Unlink_old = True"
| "takes_over _ = False"

definition main_ok :: "lock_proc \<Rightarrow> lock_main \<Rightarrow> bool" where
  "main_ok p pc \<longleftrightarrow> \<not> takes_over pc \<and>
     (\<forall>l. pc = Open_new l \<longrightarrow> pl_pid l = resolveOwnerPid p) \<and> (\<forall>i l. pc = Write_new i l \<longrightarrow> pl_pid l = resolveOwnerPid p)"

fun side_inode :: "lock_side \<Rightarrow> nat option" where
  "side_inode (Beat_read i n) = Some i"
| "side_inode (Beat_touch i) = Some i"
| "side_inode (Update_read i n x) = Some i"
| "side_inode (Update_truncate i l) = Some i"
| "side_inode (Update_write i l) = Some i"
| "side_inode _ = None"

fun side_lock :: "lock_side \<Rightarrow> pid_lock option" where
  "side_lock (Update_truncate i l) = Some l"
| "side_lock (Update_write i l) = Some l"
| "side_lock _ = None"

text \<open>The file belongs to process \<open>c\<close>: no other owns it, and what is in it, or about to be, names \<open>c\<close>.\<close>

definition file_of :: "lock_proc list \<Rightarrow> (pid_lock option \<times> int) list \<Rightarrow> lock_main list \<Rightarrow> (nat \<times> lock_side) list \<Rightarrow> nat \<Rightarrow> nat \<Rightarrow> bool" where
  "file_of procs inodes mains sides i c \<longleftrightarrow>
     i < length inodes \<and> c < length procs \<and>
     (\<forall>k < length procs. owns_file (mains ! k) \<longrightarrow> k = c) \<and>
     (\<forall>j l. mains ! c = Write_new j l \<longrightarrow> j = i) \<and>
     (\<forall>l. fst (inodes ! i) = Some l \<longrightarrow> pl_pid l = resolveOwnerPid (procs ! c)) \<and>
     (\<forall>(k, pc) \<in> set sides. \<forall>l. side_inode pc = Some i \<and> side_lock pc = Some l \<longrightarrow> pl_pid l = resolveOwnerPid (procs ! c))"

definition lock_inv :: "lock_proc list \<Rightarrow> lock_sys \<Rightarrow> bool" where
  "lock_inv procs s \<longleftrightarrow>
     length (ls_main s) = length procs \<and>
     (\<forall>k < length procs. main_ok (procs ! k) (ls_main s ! k)) \<and>
     (\<forall>(k, pc) \<in> set (ls_sides s). k < length procs \<and> (\<forall>i. side_inode pc = Some i \<longrightarrow> i < length (ld_inodes (ls_disk s)))) \<and>
     (case ld_name (ls_disk s) of
        None \<Rightarrow> \<forall>k < length procs. \<not> owns_file (ls_main s ! k)
      | Some i \<Rightarrow> \<exists>c. file_of procs (ld_inodes (ls_disk s)) (ls_main s) (ls_sides s) i c)"

definition owners_alive :: "lock_proc list \<Rightarrow> lock_sys \<Rightarrow> bool" where
  "owners_alive procs s \<longleftrightarrow> (\<forall>p \<in> set procs. resolveOwnerPid p \<in> set (ld_running (ls_disk s)))"

definition apart :: "lock_proc list \<Rightarrow> bool" where
  "apart procs \<longleftrightarrow> distinct (map resolveOwnerPid procs) \<and> (\<forall>p \<in> set procs. lp_reclaim p \<noteq> Some True)"

lemma file_ofI:
  assumes "i < length inodes" "c < length procs" "\<And>k. k < length procs \<Longrightarrow> owns_file (mains ! k) \<Longrightarrow> k = c"
    "\<And>j l. mains ! c = Write_new j l \<Longrightarrow> j = i"
    "\<And>l. fst (inodes ! i) = Some l \<Longrightarrow> pl_pid l = resolveOwnerPid (procs ! c)"
    "\<And>k pc l. (k, pc) \<in> set sides \<Longrightarrow> side_inode pc = Some i \<Longrightarrow> side_lock pc = Some l \<Longrightarrow> pl_pid l = resolveOwnerPid (procs ! c)"
  shows "file_of procs inodes mains sides i c"
  unfolding file_of_def using assms by blast

lemma lock_invI:
  assumes "length (ls_main s) = length procs" "\<And>k. k < length procs \<Longrightarrow> main_ok (procs ! k) (ls_main s ! k)"
    "\<And>k pc. (k, pc) \<in> set (ls_sides s) \<Longrightarrow> k < length procs"
    "\<And>k pc i. (k, pc) \<in> set (ls_sides s) \<Longrightarrow> side_inode pc = Some i \<Longrightarrow> i < length (ld_inodes (ls_disk s))"
    "\<And>k. ld_name (ls_disk s) = None \<Longrightarrow> k < length procs \<Longrightarrow> \<not> owns_file (ls_main s ! k)"
    "\<And>i. ld_name (ls_disk s) = Some i \<Longrightarrow> \<exists>c. file_of procs (ld_inodes (ls_disk s)) (ls_main s) (ls_sides s) i c"
  shows "lock_inv procs s"
  using assms by (auto simp: lock_inv_def split: option.split)

lemma lock_invD:
  assumes "lock_inv procs s"
  shows "length (ls_main s) = length procs" "\<And>k. k < length procs \<Longrightarrow> main_ok (procs ! k) (ls_main s ! k)"
    "\<And>k pc. (k, pc) \<in> set (ls_sides s) \<Longrightarrow> k < length procs"
    "\<And>k pc i. (k, pc) \<in> set (ls_sides s) \<Longrightarrow> side_inode pc = Some i \<Longrightarrow> i < length (ld_inodes (ls_disk s))"
    "\<And>k. ld_name (ls_disk s) = None \<Longrightarrow> k < length procs \<Longrightarrow> \<not> owns_file (ls_main s ! k)"
    "\<And>i. ld_name (ls_disk s) = Some i \<Longrightarrow> \<exists>c. file_of procs (ld_inodes (ls_disk s)) (ls_main s) (ls_sides s) i c"
  using assms by (auto simp: lock_inv_def split: option.splits)

text \<open>A process that neither owns the file nor comes to own it may change its state.\<close>

lemma main_move:
  assumes "lock_inv procs s" "k < length procs" "main_ok (procs ! k) pc" "owns_file pc \<Longrightarrow> owns_file (ls_main s ! k)"
    "\<And>i l. pc \<noteq> Write_new i l"
  shows "lock_inv procs (s\<lparr>ls_main := (ls_main s)[k := pc]\<rparr>)"
proof (rule lock_invI)
  note d = lock_invD[OF assms(1)]
  show "length (ls_main (s\<lparr>ls_main := (ls_main s)[k := pc]\<rparr>)) = length procs" by (simp add: d(1))
  show "main_ok (procs ! j) (ls_main (s\<lparr>ls_main := (ls_main s)[k := pc]\<rparr>) ! j)" if "j < length procs" for j
    using d(1,2) assms(2,3) that by (cases "j = k") simp_all
  show "\<not> owns_file (ls_main (s\<lparr>ls_main := (ls_main s)[k := pc]\<rparr>) ! j)"
    if "ld_name (ls_disk (s\<lparr>ls_main := (ls_main s)[k := pc]\<rparr>)) = None" "j < length procs" for j
    using d(1) d(5)[of j] d(5)[of k] assms(2,4) that by (auto simp: nth_list_update)
  show "\<exists>c. file_of procs (ld_inodes (ls_disk (s\<lparr>ls_main := (ls_main s)[k := pc]\<rparr>)))
      (ls_main (s\<lparr>ls_main := (ls_main s)[k := pc]\<rparr>)) (ls_sides (s\<lparr>ls_main := (ls_main s)[k := pc]\<rparr>)) i c"
    if "ld_name (ls_disk (s\<lparr>ls_main := (ls_main s)[k := pc]\<rparr>)) = Some i" for i
  proof -
    have "ld_name (ls_disk s) = Some i" using that by simp
    then obtain c where c: "file_of procs (ld_inodes (ls_disk s)) (ls_main s) (ls_sides s) i c" using d(6) by blast
    have "file_of procs (ld_inodes (ls_disk s)) ((ls_main s)[k := pc]) (ls_sides s) i c"
      using c assms(2,4,5) d(1) by (auto simp: file_of_def nth_list_update)
    then show ?thesis by auto
  qed
qed (use lock_invD[OF assms(1)] in auto)

text \<open>So may the process whose file it is.\<close>

lemma own_move:
  assumes "lock_inv procs s" "ld_name (ls_disk s) = Some i" "file_of procs (ld_inodes (ls_disk s)) (ls_main s) (ls_sides s) i k"
    "main_ok (procs ! k) pc" "\<And>j l. pc \<noteq> Write_new j l"
  shows "lock_inv procs (s\<lparr>ls_main := (ls_main s)[k := pc]\<rparr>)"
proof (rule lock_invI)
  note d = lock_invD[OF assms(1)]
  show "length (ls_main (s\<lparr>ls_main := (ls_main s)[k := pc]\<rparr>)) = length procs" by (simp add: d(1))
  show "main_ok (procs ! j) (ls_main (s\<lparr>ls_main := (ls_main s)[k := pc]\<rparr>) ! j)" if "j < length procs" for j
    using d(1,2) assms(4) that by (cases "j = k") simp_all
  have "file_of procs (ld_inodes (ls_disk s)) ((ls_main s)[k := pc]) (ls_sides s) i k"
    using assms(3,5) d(1) by (auto simp: file_of_def nth_list_update)
  then show "\<exists>c. file_of procs (ld_inodes (ls_disk (s\<lparr>ls_main := (ls_main s)[k := pc]\<rparr>)))
      (ls_main (s\<lparr>ls_main := (ls_main s)[k := pc]\<rparr>)) (ls_sides (s\<lparr>ls_main := (ls_main s)[k := pc]\<rparr>)) h c"
    if "ld_name (ls_disk (s\<lparr>ls_main := (ls_main s)[k := pc]\<rparr>)) = Some h" for h
    using assms(2) that by auto
qed (use lock_invD[OF assms(1)] assms(2) in auto)

text \<open>What matters of the disk is the name and the texts.\<close>

lemma lock_inv_disk:
  assumes "lock_inv procs s" "ld_name d = ld_name (ls_disk s)" "map fst (ld_inodes d) = map fst (ld_inodes (ls_disk s))"
  shows "lock_inv procs (s\<lparr>ls_disk := d\<rparr>)"
proof -
  have l: "length (ld_inodes d) = length (ld_inodes (ls_disk s))" using assms(3) by (metis length_map)
  have "fst (ld_inodes d ! i) = fst (ld_inodes (ls_disk s) ! i)" if "i < length (ld_inodes (ls_disk s))" for i
    using assms(3) that l by (metis nth_map)
  then have "file_of procs (ld_inodes d) mains sides i c = file_of procs (ld_inodes (ls_disk s)) mains sides i c" for mains sides i c
    using l by (auto simp: file_of_def)
  then show ?thesis using assms(1,2) l by (auto simp: lock_inv_def split: option.splits)
qed

lemma touched: "map fst (ld_inodes (set_mtime i now d)) = map fst (ld_inodes d)" "ld_name (set_mtime i now d) = ld_name d"
proof -
  show "ld_name (set_mtime i now d) = ld_name d" by (simp add: set_mtime_def)
  have "map fst ((ld_inodes d)[i := (fst (ld_inodes d ! i), now)]) = (map fst (ld_inodes d))[i := map fst (ld_inodes d) ! i]"
    by (cases "i < length (ld_inodes d)") (simp_all add: map_update list_update_beyond)
  then show "map fst (ld_inodes (set_mtime i now d)) = map fst (ld_inodes d)" by (simp add: set_mtime_def)
qed

lemma named_lock:
  assumes "lock_inv procs s" "readPidLock (ls_disk s) = Some l"
  obtains i c where "ld_name (ls_disk s) = Some i" "c < length procs" "pl_pid l = resolveOwnerPid (procs ! c)"
    "file_of procs (ld_inodes (ls_disk s)) (ls_main s) (ls_sides s) i c"
proof -
  obtain i where i: "ld_name (ls_disk s) = Some i" "fst (ld_inodes (ls_disk s) ! i) = Some l"
    using assms(2) by (auto simp: readPidLock_def split: option.splits)
  obtain c where "file_of procs (ld_inodes (ls_disk s)) (ls_main s) (ls_sides s) i c" using lock_invD(6)[OF assms(1) i(1)] by blast
  then show ?thesis using that[OF i(1), of c] i(2) by (auto simp: file_of_def)
qed

lemma owner_is:
  assumes "apart procs" "c < length procs" "k < length procs" "resolveOwnerPid (procs ! c) = resolveOwnerPid (procs ! k)"
  shows "c = k"
  using assms by (auto simp: apart_def distinct_conv_nth)

lemma owning_file:
  assumes "lock_inv procs s" "k < length procs" "owns_file (ls_main s ! k)"
  obtains i where "ld_name (ls_disk s) = Some i" "file_of procs (ld_inodes (ls_disk s)) (ls_main s) (ls_sides s) i k"
proof -
  obtain i where i: "ld_name (ls_disk s) = Some i" using lock_invD(5)[OF assms(1) _ assms(2)] assms(3) by blast
  obtain c where c: "file_of procs (ld_inodes (ls_disk s)) (ls_main s) (ls_sides s) i c" using lock_invD(6)[OF assms(1) i] by blast
  then have "k = c" using assms(2,3) by (simp add: file_of_def)
  then show ?thesis using that i c by blast
qed

section \<open>Every step keeps it\<close>

text \<open>A state of a step that does not concern the file: idle, failed, or before the creation.\<close>

lemma main_ok_simps [simp]:
  "main_ok p Idle" "main_ok p Acquire" "main_ok p Read_existing" "main_ok p Touch_own" "main_ok p Read_race" "main_ok p Held"
  "main_ok p (Failed e)" "main_ok p Release" "main_ok p Unlink_own" "main_ok p Ended" "main_ok p (Open_new (lock_info p now))"
  by (simp_all add: main_ok_def lock_info_def)

lemma read_existing_inv:
  assumes "lock_inv procs s" "apart procs" "owners_alive procs s" "k < length procs"
    "acquirePidLock (procs ! k) now (ls_disk s) Read_existing = (d, pc)"
  shows "lock_inv procs (s\<lparr>ls_disk := d, ls_main := (ls_main s)[k := pc]\<rparr>)"
proof (cases "readPidLock (ls_disk s)")
  case None
  then show ?thesis using assms(5) main_move[OF assms(1,4), of "Open_new (lock_info (procs ! k) now)"] by auto
next
  case (Some l)
  obtain i c where c: "ld_name (ls_disk s) = Some i" "c < length procs" "pl_pid l = resolveOwnerPid (procs ! c)"
    "file_of procs (ld_inodes (ls_disk s)) (ls_main s) (ls_sides s) i c"
    by (rule named_lock[OF assms(1) Some])
  have r: "isPidRunning (ls_disk s) (pl_pid l)" "\<not> canReclaimLiveLock l (procs ! k)"
    using assms(2-4) c(2,3) by (auto simp: isPidRunning_def owners_alive_def canReclaimLiveLock_def apart_def)
  have e: "d = ls_disk s" "pc = clear_existing (procs ! k) (ls_disk s) l" using assms(5) Some by auto
  show ?thesis
  proof (cases "pl_pid l = resolveOwnerPid (procs ! k)")
    case True
    then have "c = k" using owner_is[OF assms(2) c(2) assms(4)] c(3) by simp
    moreover have "pc = Touch_own" using e(2) True r(1) by (simp add: clear_existing_def)
    ultimately show ?thesis using own_move[OF assms(1) c(1), of k Touch_own] c(4) e(1) by simp
  next
    case False
    then have "pc = Failed (Lock_held l)" using e(2) r by (simp add: clear_existing_def)
    then show ?thesis using main_move[OF assms(1,4), of "Failed (Lock_held l)"] e(1) by simp
  qed
qed

lemma open_new_inv:
  assumes "lock_inv procs s" "k < length procs" "ls_main s ! k = Open_new l" "ld_name (ls_disk s) = None" "ld_home (ls_disk s)"
    "acquirePidLock (procs ! k) now (ls_disk s) (Open_new l) = (d, pc)"
  shows "lock_inv procs (s\<lparr>ls_disk := d, ls_main := (ls_main s)[k := pc]\<rparr>)"
proof -
  note v = lock_invD[OF assms(1)]
  let ?i = "length (ld_inodes (ls_disk s))"
  have d: "d = (ls_disk s)\<lparr>ld_name := Some ?i, ld_inodes := ld_inodes (ls_disk s) @ [(None, now)]\<rparr>" "pc = Write_new ?i l"
    using assms(4-6) by auto
  have l: "pl_pid l = resolveOwnerPid (procs ! k)" using v(2)[OF assms(2)] assms(3) by (simp add: main_ok_def)
  have o: "\<not> owns_file (ls_main s ! j)" if "j < length procs" for j using v(5)[OF assms(4) that] .
  have f: "side_inode x \<noteq> Some ?i" if "(j, x) \<in> set (ls_sides s)" for j x using v(4)[OF that] by blast
  show ?thesis
  proof (rule lock_invI)
    fix j assume j: "j < length procs"
    show "main_ok (procs ! j) (ls_main (s\<lparr>ls_disk := d, ls_main := (ls_main s)[k := pc]\<rparr>) ! j)"
      using v(1,2) j l d(2) by (cases "j = k") (simp_all add: main_ok_def)
  next
    fix j x i assume "(j, x) \<in> set (ls_sides (s\<lparr>ls_disk := d, ls_main := (ls_main s)[k := pc]\<rparr>))" "side_inode x = Some i"
    then show "i < length (ld_inodes (ls_disk (s\<lparr>ls_disk := d, ls_main := (ls_main s)[k := pc]\<rparr>)))"
      using v(4)[of j x i] d(1) by simp
  next
    fix i assume "ld_name (ls_disk (s\<lparr>ls_disk := d, ls_main := (ls_main s)[k := pc]\<rparr>)) = Some i"
    then have "i = ?i" using d(1) by simp
    then have "file_of procs (ld_inodes d) ((ls_main s)[k := pc]) (ls_sides s) i k"
      using assms(2) v(1) o f d by (auto simp: file_of_def nth_list_update)
    then show "\<exists>c. file_of procs (ld_inodes (ls_disk (s\<lparr>ls_disk := d, ls_main := (ls_main s)[k := pc]\<rparr>)))
        (ls_main (s\<lparr>ls_disk := d, ls_main := (ls_main s)[k := pc]\<rparr>)) (ls_sides (s\<lparr>ls_disk := d, ls_main := (ls_main s)[k := pc]\<rparr>)) i c"
      by auto
  qed (use v d in auto)
qed

lemma write_new_inv:
  assumes "lock_inv procs s" "k < length procs" "ls_main s ! k = Write_new i l"
  shows "lock_inv procs (s\<lparr>ls_disk := write_inode i (Some l) now (ls_disk s), ls_main := (ls_main s)[k := Held]\<rparr>)"
proof -
  note v = lock_invD[OF assms(1)]
  obtain h where h: "ld_name (ls_disk s) = Some h" "file_of procs (ld_inodes (ls_disk s)) (ls_main s) (ls_sides s) h k"
    by (rule owning_file[OF assms(1,2)]) (use assms(3) in auto)
  have "i = h" using h(2) assms(3) by (simp add: file_of_def)
  have l: "pl_pid l = resolveOwnerPid (procs ! k)" using v(2)[OF assms(2)] assms(3) by (simp add: main_ok_def)
  have "file_of procs ((ld_inodes (ls_disk s))[h := (Some l, now)]) ((ls_main s)[k := Held]) (ls_sides s) h k"
    using h(2) assms(2) v(1) l by (auto simp: file_of_def nth_list_update)
  then have f: "\<exists>c. file_of procs ((ld_inodes (ls_disk s))[h := (Some l, now)]) ((ls_main s)[k := Held]) (ls_sides s) h c" by blast
  have m: "main_ok (procs ! j) ((ls_main s)[k := Held] ! j)" if "j < length procs" for j
    using v(1,2) that by (cases "j = k") simp_all
  show ?thesis
    by (rule lock_invI) (use v(1,3,4) f m h(1) \<open>i = h\<close> in \<open>auto simp: write_inode_def\<close>)
qed

lemma unlink_own_inv:
  assumes "lock_inv procs s" "k < length procs" "ls_main s ! k = Unlink_own"
  shows "lock_inv procs (s\<lparr>ls_disk := (ls_disk s)\<lparr>ld_name := None\<rparr>, ls_main := (ls_main s)[k := Idle]\<rparr>)"
proof -
  note v = lock_invD[OF assms(1)]
  obtain h where h: "file_of procs (ld_inodes (ls_disk s)) (ls_main s) (ls_sides s) h k"
    by (rule owning_file[OF assms(1,2)]) (use assms(3) in auto)
  have o: "\<not> owns_file ((ls_main s)[k := Idle] ! j)" if "j < length procs" for j
    using h that v(1) by (auto simp: file_of_def nth_list_update)
  have m: "main_ok (procs ! j) ((ls_main s)[k := Idle] ! j)" if "j < length procs" for j
    using v(1,2) that by (cases "j = k") simp_all
  show ?thesis by (rule lock_invI) (use v(1,3,4) o m in auto)
qed

lemma disk_main: "s\<lparr>ls_main := m, ls_disk := d\<rparr> = s\<lparr>ls_disk := d, ls_main := m\<rparr>"
  by simp

lemma main_inv:
  assumes "lock_inv procs s" "apart procs" "owners_alive procs s" "k < length procs"
    "acquirePidLock (procs ! k) now (ls_disk s) (ls_main s ! k) = (d, pc)"
  shows "lock_inv procs (s\<lparr>ls_disk := d, ls_main := (ls_main s)[k := pc]\<rparr>)"
proof -
  have ok: "main_ok (procs ! k) (ls_main s ! k)" using lock_invD(2)[OF assms(1,4)] .
  have same: ?thesis if "d = ls_disk s" "pc = ls_main s ! k" using that assms(1) by simp
  show ?thesis
  proof (cases "ls_main s ! k")
    case Acquire
    then have "d = (ls_disk s)\<lparr>ld_home := True\<rparr>" "pc = Read_existing" using assms(5) by auto
    then show ?thesis
      using main_move[OF lock_inv_disk[OF assms(1), of d] assms(4), of Read_existing] by simp
  next
    case Read_existing
    then show ?thesis using read_existing_inv[OF assms(1-4)] assms(5) by simp
  next
    case Touch_own
    obtain i where i: "ld_name (ls_disk s) = Some i" "file_of procs (ld_inodes (ls_disk s)) (ls_main s) (ls_sides s) i k"
      by (rule owning_file[OF assms(1,4)]) (use Touch_own in auto)
    have "d = set_mtime i now (ls_disk s)" "pc = Held" using assms(5) Touch_own i(1) by auto
    then show ?thesis
      using lock_inv_disk[OF own_move[OF assms(1) i, of Held], of d] touched[of i now "ls_disk s"]
      by (simp add: disk_main)
  next
    case (Open_new l)
    then consider "pc = Failed Lock_io" "d = ls_disk s" | "pc = Read_race" "d = ls_disk s"
      | "ld_home (ls_disk s)" "ld_name (ls_disk s) = None"
      using assms(5) by (auto split: if_splits)
    then show ?thesis
    proof cases
      case 3
      show ?thesis by (rule open_new_inv[OF assms(1,4) Open_new 3(2,1)]) (use assms(5) Open_new in simp)
    qed (use main_move[OF assms(1,4), of pc] in auto)
  next
    case (Write_new i l)
    then show ?thesis using write_new_inv[OF assms(1,4) Write_new, of now] assms(5) by auto
  next
    case Read_race
    then show ?thesis using main_move[OF assms(1,4), of pc] assms(5) by auto
  next
    case Release
    show ?thesis
    proof (cases "\<exists>l. readPidLock (ls_disk s) = Some l \<and> pl_pid l = resolveOwnerPid (procs ! k)")
      case True
      then obtain l where l: "readPidLock (ls_disk s) = Some l" "pl_pid l = resolveOwnerPid (procs ! k)" by blast
      obtain i c where c: "ld_name (ls_disk s) = Some i" "c < length procs" "pl_pid l = resolveOwnerPid (procs ! c)"
        "file_of procs (ld_inodes (ls_disk s)) (ls_main s) (ls_sides s) i c"
        by (rule named_lock[OF assms(1) l(1)])
      have "c = k" using owner_is[OF assms(2) c(2) assms(4)] c(3) l(2) by simp
      moreover have "d = ls_disk s" "pc = Unlink_own" using assms(5) Release l by auto
      ultimately show ?thesis using own_move[OF assms(1) c(1), of k Unlink_own] c(4) by simp
    next
      case False
      then have "d = ls_disk s" "pc = Idle" using assms(5) Release by (auto split: option.splits if_splits)
      then show ?thesis using main_move[OF assms(1,4), of Idle] by simp
    qed
  next
    case Unlink_own
    then show ?thesis using unlink_own_inv[OF assms(1,4) Unlink_own] assms(5) by auto
  qed (use ok same assms(5) in \<open>auto simp: main_ok_def\<close>)
qed

text \<open>A heartbeat or an update changes the text of a file only to a lock with the same owner.\<close>

lemma side_change:
  assumes "lock_inv procs s" "n < length (ls_sides s)" "ls_sides s ! n = (k, pc)"
    "ld_name d = ld_name (ls_disk s)" "length (ld_inodes d) = length (ld_inodes (ls_disk s))"
    "\<And>j l. fst (ld_inodes d ! j) = Some l \<Longrightarrow> j < length (ld_inodes d) \<Longrightarrow>
       fst (ld_inodes (ls_disk s) ! j) = Some l \<or> side_inode pc = Some j \<and> side_lock pc = Some l"
    "\<And>i. side_inode pc' = Some i \<Longrightarrow> side_inode pc = Some i \<or> ld_name (ls_disk s) = Some i"
    "\<And>i l. side_lock pc' = Some l \<Longrightarrow> side_inode pc' = Some i \<Longrightarrow>
       side_lock pc = Some l \<and> side_inode pc = Some i \<or> (\<exists>m. fst (ld_inodes (ls_disk s) ! i) = Some m \<and> pl_pid l = pl_pid m)"
  shows "lock_inv procs (s\<lparr>ls_disk := d, ls_sides := (ls_sides s)[n := (k, pc')]\<rparr>)"
proof -
  note v = lock_invD[OF assms(1)]
  have mem: "(k, pc) \<in> set (ls_sides s)" using assms(2,3) by (metis nth_mem)
  have sub: "x \<in> set (ls_sides s) \<or> x = (k, pc')" if "x \<in> set ((ls_sides s)[n := (k, pc')])" for x
    using that set_update_subset_insert by fastforce
  have name: "i < length (ld_inodes (ls_disk s))" if "ld_name (ls_disk s) = Some i" for i
    using v(6)[OF that] by (auto simp: file_of_def)
  have f: "\<exists>c. file_of procs (ld_inodes d) (ls_main s) ((ls_sides s)[n := (k, pc')]) i c" if i: "ld_name (ls_disk s) = Some i" for i
  proof -
    obtain c where c: "file_of procs (ld_inodes (ls_disk s)) (ls_main s) (ls_sides s) i c" using v(6)[OF i] by blast
    have side: "pl_pid l = resolveOwnerPid (procs ! c)"
      if "(j, x) \<in> set (ls_sides s)" "side_inode x = Some i" "side_lock x = Some l" for j x l
      using c that by (auto simp: file_of_def)
    have inside: "pl_pid l = resolveOwnerPid (procs ! c)" if "fst (ld_inodes (ls_disk s) ! i) = Some l" for l
      using c that by (simp add: file_of_def)
    have "pl_pid l = resolveOwnerPid (procs ! c)" if "fst (ld_inodes d ! i) = Some l" for l
      using assms(6)[OF that] inside side[OF mem] name[OF i] assms(5) by auto
    moreover have "pl_pid l = resolveOwnerPid (procs ! c)"
      if "(j, x) \<in> set ((ls_sides s)[n := (k, pc')])" "side_inode x = Some i" "side_lock x = Some l" for j x l
      using sub[OF that(1)] side[of j x l] that(2,3) assms(8)[of l i] side[OF mem] inside by auto
    moreover have "i < length (ld_inodes d)" "c < length procs" "\<And>j. j < length procs \<Longrightarrow> owns_file (ls_main s ! j) \<Longrightarrow> j = c"
      "\<And>j l. ls_main s ! c = Write_new j l \<Longrightarrow> j = i"
      using c assms(5) by (auto simp: file_of_def)
    ultimately have "file_of procs (ld_inodes d) (ls_main s) ((ls_sides s)[n := (k, pc')]) i c"
      by (intro file_ofI)
    then show ?thesis by blast
  qed
  show ?thesis
  proof (rule lock_invI)
    fix j x assume "(j, x) \<in> set (ls_sides (s\<lparr>ls_disk := d, ls_sides := (ls_sides s)[n := (k, pc')]\<rparr>))"
    then have "(j, x) \<in> set ((ls_sides s)[n := (k, pc')])" by simp
    note x = sub[OF this]
    then show "j < length procs" using v(3) mem by blast
    fix i assume "side_inode x = Some i"
    then have "(\<exists>j y. (j, y) \<in> set (ls_sides s) \<and> side_inode y = Some i) \<or> ld_name (ls_disk s) = Some i"
      using x assms(7)[of i] mem by auto
    then show "i < length (ld_inodes (ls_disk (s\<lparr>ls_disk := d, ls_sides := (ls_sides s)[n := (k, pc')]\<rparr>)))"
      using v(4) name assms(5) by auto
  qed (use v f assms(4) in auto)
qed

lemma side_inv:
  assumes "lock_inv procs s" "n < length (ls_sides s)" "ls_sides s ! n = (k, pc)"
    "updatePidLock (procs ! k) now (ls_disk s) pc = (d, pc')"
  shows "lock_inv procs (s\<lparr>ls_disk := d, ls_sides := (ls_sides s)[n := (k, pc')]\<rparr>)"
proof -
  note c = side_change[OF assms(1-3)]
  note retry = readPidLockFromHandleWithRetry_def readPidLockFromHandle_def
  have touch: "fst (ld_inodes (set_mtime i now (ls_disk s)) ! j) = fst (ld_inodes (ls_disk s) ! j)"
    if "j < length (ld_inodes (ls_disk s))" for i j
    using that touched(1)[of i now "ls_disk s"] by (metis length_map nth_map)
  have len: "length (ld_inodes (set_mtime i now (ls_disk s))) = length (ld_inodes (ls_disk s))" for i
    by (simp add: set_mtime_def)
  have b: "i < length (ld_inodes (ls_disk s))" if "side_inode pc = Some i" for i
    using lock_invD(4)[OF assms(1) _ that, of k] assms(2,3) by (metis nth_mem)
  show ?thesis
  proof (cases pc)
    case (Beat_touch i)
    then have "d = set_mtime i now (ls_disk s)" "pc' = Side_done None" using assms(4) by auto
    then show ?thesis by (intro c) (use touch[of _ i] len[of i] touched(2)[of i now "ls_disk s"] in auto)
  next
    case (Update_truncate i l)
    then have "d = write_inode i None now (ls_disk s)" "pc' = Update_write i l" using assms(4) by auto
    then show ?thesis
      using b[of i] by (intro c) (auto simp: write_inode_def Update_truncate nth_list_update split: if_splits)
  next
    case (Update_write i l)
    then have "d = write_inode i (Some l) now (ls_disk s)" "pc' = Side_done None" using assms(4) by auto
    then show ?thesis
      using b[of i] by (intro c) (auto simp: write_inode_def Update_write nth_list_update split: if_splits)
  next
    case (Update_read i m listen)
    then have "d = ls_disk s" using assms(4) by auto
    moreover have "pc' = Update_read i (Suc m) listen \<or> (\<exists>e. pc' = Side_done e) \<or>
        (\<exists>l. fst (ld_inodes (ls_disk s) ! i) = Some l \<and> pc' = Update_truncate i (l\<lparr>pl_listen := listen\<rparr>))"
      using assms(4) Update_read by (auto simp: retry split: option.splits if_splits)
    ultimately show ?thesis by (intro c) (auto simp: Update_read)
  next
    case (Beat_read i m)
    then have "d = ls_disk s" "pc' = Beat_read i (Suc m) \<or> (\<exists>e. pc' = Side_done e) \<or> pc' = Beat_touch i"
      using assms(4) by (auto simp: retry split: option.splits if_splits)
    then show ?thesis by (intro c) (auto simp: Beat_read)
  qed (use assms(4) in \<open>intro c; auto split: option.splits\<close>)+
qed

lemma sides_move:
  assumes "lock_inv procs s" "\<And>k pc. (k, pc) \<in> set sides \<Longrightarrow> (k, pc) \<in> set (ls_sides s) \<or> k < length procs \<and> side_inode pc = None"
  shows "lock_inv procs (s\<lparr>ls_sides := sides\<rparr>)"
proof -
  note v = lock_invD[OF assms(1)]
  have "file_of procs (ld_inodes (ls_disk s)) (ls_main s) sides i c" if "file_of procs (ld_inodes (ls_disk s)) (ls_main s) (ls_sides s) i c" for i c
    using that assms(2) unfolding file_of_def by fastforce
  then have f: "\<exists>c. file_of procs (ld_inodes (ls_disk s)) (ls_main s) sides i c" if "ld_name (ls_disk s) = Some i" for i
    using v(6)[OF that] by blast
  have p: "k < length procs" "side_inode pc = Some i \<Longrightarrow> i < length (ld_inodes (ls_disk s))" if "(k, pc) \<in> set sides" for k pc i
    using assms(2)[OF that] v(3)[of k pc] v(4)[of k pc i] by auto
  show ?thesis by (rule lock_invI) (use v f p in auto)
qed

lemma exit_inv:
  assumes "lock_inv procs s"
  shows "lock_inv procs (lock_step procs (Exit pid) s)"
proof -
  note v = lock_invD[OF assms]
  let ?m = "map (\<lambda>(p, pc). if lp_pid p = pid then Ended else pc) (zip procs (ls_main s))"
  let ?d = "(ls_disk s)\<lparr>ld_running := removeAll pid (ld_running (ls_disk s))\<rparr>"
  have m: "?m ! k = Ended \<or> ?m ! k = ls_main s ! k" if "k < length procs" for k using that v(1) by simp
  have i: "lock_inv procs (s\<lparr>ls_main := ?m\<rparr>)"
  proof (rule lock_invI)
    fix k assume k: "k < length procs"
    show "main_ok (procs ! k) (ls_main (s\<lparr>ls_main := ?m\<rparr>) ! k)" using m[OF k] v(2)[OF k] by auto
  next
    fix k assume k: "k < length procs" "ld_name (ls_disk (s\<lparr>ls_main := ?m\<rparr>)) = None"
    then show "\<not> owns_file (ls_main (s\<lparr>ls_main := ?m\<rparr>) ! k)" using m[OF k(1)] v(5)[of k] by auto
  next
    fix i assume i: "ld_name (ls_disk (s\<lparr>ls_main := ?m\<rparr>)) = Some i"
    then obtain c where c: "file_of procs (ld_inodes (ls_disk s)) (ls_main s) (ls_sides s) i c" using v(6)[of i] by auto
    have "k = c" if "k < length procs" "owns_file (?m ! k)" for k
      using c m[OF that(1)] that by (auto simp: file_of_def)
    moreover have "j = i" if "?m ! c = Write_new j l" for j l
    proof -
      have "ls_main s ! c = Write_new j l" using m[of c] c that by (auto simp: file_of_def)
      then show ?thesis using c by (simp add: file_of_def)
    qed
    ultimately have "file_of procs (ld_inodes (ls_disk s)) ?m (ls_sides s) i c" using c unfolding file_of_def by blast
    then show "\<exists>c. file_of procs (ld_inodes (ls_disk (s\<lparr>ls_main := ?m\<rparr>))) (ls_main (s\<lparr>ls_main := ?m\<rparr>)) (ls_sides (s\<lparr>ls_main := ?m\<rparr>)) i c"
      by auto
  qed (use v in auto)
  have "lock_inv procs (s\<lparr>ls_main := ?m, ls_disk := ?d\<rparr>)"
    using lock_inv_disk[OF i, of ?d] by simp
  then have "lock_inv procs (s\<lparr>ls_main := ?m, ls_disk := ?d, ls_sides := filter (\<lambda>(k, pc). lp_pid (procs ! k) \<noteq> pid) (ls_sides s)\<rparr>)"
    by (rule sides_move) auto
  then show ?thesis by (simp add: disk_main)
qed

lemma step_inv:
  assumes "lock_inv procs s" "apart procs" "owners_alive procs s"
  shows "lock_inv procs (lock_step procs e s)"
proof (cases e)
  case (Call_acquire k)
  then show ?thesis
    using main_move[OF assms(1), of k Acquire] lock_invD(1)[OF assms(1)] assms(1)
    by (cases "k < length procs") (auto split: lock_main.split simp: list_update_beyond)
next
  case (Call_release k)
  then show ?thesis
    using main_move[OF assms(1), of k Release] lock_invD(1)[OF assms(1)] assms(1)
    by (cases "k < length procs") (auto split: lock_main.split simp: list_update_beyond)
next
  case (Main k now)
  then show ?thesis
    using main_inv[OF assms, of k now] lock_invD(1)[OF assms(1)] assms(1) by (simp split: prod.split)
next
  case (Tick k)
  then show ?thesis
    using lock_invD(1)[OF assms(1)] assms(1) by (auto simp: heartbeat_tick_def intro!: sides_move)
next
  case (Call_update k listen)
  then show ?thesis
    using lock_invD(1)[OF assms(1)] assms(1) by (auto intro!: sides_move)
next
  case (Side n now)
  then show ?thesis
    using side_inv[OF assms(1)] assms(1) by (simp split: prod.split)
next
  case (Exit pid)
  then show ?thesis using exit_inv[OF assms(1)] by simp
qed

lemma disk_running: "ld_running (fst (acquirePidLock p now d pc)) = ld_running d" "ld_running (fst (updatePidLock p now d x)) = ld_running d"
  by (cases pc; auto simp: set_mtime_def write_inode_def split: option.split)
    (cases x; auto simp: set_mtime_def write_inode_def split: option.split)

lemma owners_were_alive: "owners_alive procs (lock_step procs e s) \<Longrightarrow> owners_alive procs s"
  using disk_running[of _ _ "ls_disk s"]
  by (cases e) (auto simp: owners_alive_def split: prod.splits if_splits lock_main.splits dest!: arg_cong[of _ _ fst])

section \<open>Who holds the lock\<close>

lemma run_inv:
  assumes "apart procs" "owners_alive procs (run_lock procs es (lock_start procs running))"
  shows "lock_inv procs (run_lock procs es (lock_start procs running))"
  using assms(2)
proof (induction es rule: rev_induct)
  case Nil
  then show ?case by (simp add: run_lock_def lock_start_def lock_inv_def)
next
  case (snoc e es)
  let ?s = "run_lock procs es (lock_start procs running)"
  have e: "run_lock procs (es @ [e]) (lock_start procs running) = lock_step procs e ?s" by (simp add: run_lock_def)
  have "owners_alive procs ?s" using snoc.prems owners_were_alive unfolding e by blast
  then show ?case unfolding e using step_inv snoc.IH assms(1) by blast
qed


section \<open>After a crash\<close>

definition demo_proc :: "int \<Rightarrow> lock_proc" where
  "demo_proc pid =
     \<lparr>lp_pid = pid, lp_ownerPid = None, lp_reclaim = None, lp_listen = None, lp_hostname = ''host'', lp_uid = 0,
      lp_desktop = False\<rparr>"

definition three_daemons :: "lock_proc list" where
  "three_daemons = [demo_proc 1, demo_proc 2, demo_proc 3]"

text \<open>The first daemon takes the lock, beats once and renames its address; the second is refused.\<close>

definition orderly :: "lock_event list" where
  "orderly =
     [Call_acquire 0, Main 0 0, Main 0 0, Main 0 0, Call_acquire 1, Main 1 0, Main 1 0, Main 0 0,
      Tick 0, Side 0 1, Side 0 1, Side 0 1, Call_update 0 ''tcp'', Side 1 2, Side 1 2, Side 1 2, Main 1 2, Main 1 2, Side 1 2]"



text \<open>A daemon that dies between creating the lock file and writing it leaves an empty file, and no daemon
  can start any more: an empty file is no lock that could be found stale, so nobody removes it, and
  it cannot be created again.\<close>

theorem empty_lock_file_blocks_every_start:
  assumes "ld_name d = Some i" "readPidLock d = None"
  shows "((\<lambda>(d, pc). acquirePidLock p now d pc) ^^ 4) (d, Acquire) = (d\<lparr>ld_home := True\<rparr>, Failed (Lock_race None)) \<and>
    ld_name (d\<lparr>ld_home := True\<rparr>) = Some i \<and> readPidLock (d\<lparr>ld_home := True\<rparr>) = None"
proof -
  have "readPidLock (d\<lparr>ld_home := True\<rparr>) = None" using assms(2) by (simp add: readPidLock_def split: option.splits)
  then show ?thesis using assms(1) by (simp add: eval_nat_numeral)
qed

theorem empty_lock_file_blocks_every_start_witness:
  "\<exists>d. d = ls_disk (run_lock three_daemons [Call_acquire 0, Main 0 0, Main 0 0, Main 0 0, Exit 1] (lock_start three_daemons [1, 2, 3])) \<and>
     ((\<lambda>(d, pc). acquirePidLock (demo_proc 2) 5 d pc) ^^ 4) (d, Acquire) = (d\<lparr>ld_home := True\<rparr>, Failed (Lock_race None))"
proof -
  let ?d = "ls_disk (run_lock three_daemons [Call_acquire 0, Main 0 0, Main 0 0, Main 0 0, Exit 1] (lock_start three_daemons [1, 2, 3]))"
  have "ld_name ?d = Some 0" "readPidLock ?d = None" by code_simp+
  from empty_lock_file_blocks_every_start[OF this, of "demo_proc 2" 5] show ?thesis by blast
qed

end
