(* ===== verification/Git_Scheduler.thy ===== *)
theory Git_Scheduler
  imports Orqara_Prelude
begin

text \<open>
  The scheduler of git processes (\<open>server/src/utils/git-process-scheduler.ts\<close>): requests wait in two
  queues, are admitted one at a time up to a limit, pass a throttle and run. The throttle is a
  library: it starts what it was given at some later time, or fails. A request is a number;
  \<open>gs_throttled\<close>, \<open>gs_executing\<close> and \<open>gs_finished\<close> are the requests whose closures the throttle
  holds, whose process runs, and whose promise is settled.
\<close>

section \<open>Policy\<close>

record git_policy =
  gp_perSecond :: int
  gp_concurrency :: int

definition DEFAULT_GIT_PROCESS_POLICY :: git_policy where
  "DEFAULT_GIT_PROCESS_POLICY = \<lparr>gp_perSecond = 64, gp_concurrency = 8\<rparr>"

text \<open>\<open>Number(value)\<close> of a variable that is set; a number that is no integer is as good as \<open>NaN\<close>.\<close>

definition parsePositiveInteger :: "js_num option \<Rightarrow> int option" where
  "parsePositiveInteger v = (case v of Some (Num n) \<Rightarrow> if n > 0 then Some n else None | _ \<Rightarrow> None)"

record git_env =
  ge_maxPerSecond :: "js_num option"
  ge_maxConcurrency :: "js_num option"
  ge_concurrency :: "js_num option"

fun first_of :: "'a option list \<Rightarrow> 'a \<Rightarrow> 'a" where
  "first_of [] d = d"
| "first_of (Some x # vs) d = x"
| "first_of (None # vs) d = first_of vs d"

definition resolveGitProcessPolicy :: "git_env \<Rightarrow> int option \<Rightarrow> int option \<Rightarrow> git_policy" where
  "resolveGitProcessPolicy env perSecond concurrency =
     \<lparr>gp_perSecond =
        first_of [parsePositiveInteger (ge_maxPerSecond env), perSecond] (gp_perSecond DEFAULT_GIT_PROCESS_POLICY),
      gp_concurrency =
        first_of [parsePositiveInteger (ge_maxConcurrency env), parsePositiveInteger (ge_concurrency env), concurrency]
          (gp_concurrency DEFAULT_GIT_PROCESS_POLICY)\<rparr>"

section \<open>The scheduler\<close>

text \<open>The counters are never negative: \<open>Math.max(0, n - 1)\<close> is subtraction of natural numbers.\<close>

record git_sched =
  gs_high :: "nat list"
  gs_normal :: "nat list"
  gs_admitted :: nat
  gs_running :: nat
  gs_waiting :: nat
  gs_drainScheduled :: bool
  gs_throttled :: "nat list"
  gs_executing :: "nat list"
  gs_finished :: "nat list"

definition git_start :: git_sched where
  "git_start =
     \<lparr>gs_high = [], gs_normal = [], gs_admitted = 0, gs_running = 0, gs_waiting = 0, gs_drainScheduled = False,
      gs_throttled = [], gs_executing = [], gs_finished = []\<rparr>"

definition scheduleDrain :: "git_policy \<Rightarrow> git_sched \<Rightarrow> git_sched" where
  "scheduleDrain policy s =
     (if gs_drainScheduled s \<or> int (gs_admitted s) \<ge> gp_concurrency policy then s
      else if gs_high s = [] \<and> gs_normal s = [] then s
      else s\<lparr>gs_drainScheduled := True\<rparr>)"

text \<open>\<open>admit\<close> gives the start of the request to the throttle.\<close>

definition admit :: "nat \<Rightarrow> git_sched \<Rightarrow> git_sched" where
  "admit i s = s\<lparr>gs_throttled := gs_throttled s @ [i]\<rparr>"

definition drainOne :: "git_policy \<Rightarrow> git_sched \<Rightarrow> git_sched" where
  "drainOne policy s0 =
     (let s = s0\<lparr>gs_drainScheduled := False\<rparr> in
      if int (gs_admitted s) \<ge> gp_concurrency policy then s
      else case gs_high s of
        i # rest \<Rightarrow> scheduleDrain policy (admit i (s\<lparr>gs_high := rest, gs_admitted := gs_admitted s + 1\<rparr>))
      | [] \<Rightarrow>
          (case gs_normal s of
             i # rest \<Rightarrow> scheduleDrain policy (admit i (s\<lparr>gs_normal := rest, gs_admitted := gs_admitted s + 1\<rparr>))
           | [] \<Rightarrow> s))"

definition run_git :: "git_policy \<Rightarrow> nat \<Rightarrow> bool \<Rightarrow> git_sched \<Rightarrow> git_sched" where
  "run_git policy i high s0 =
     (let s = s0\<lparr>gs_waiting := gs_waiting s0 + 1\<rparr>;
          t = (if high then s\<lparr>gs_high := gs_high s @ [i]\<rparr> else s\<lparr>gs_normal := gs_normal s @ [i]\<rparr>) in
      if gs_admitted t = 0 \<and> \<not> gs_drainScheduled t then drainOne policy t else scheduleDrain policy t)"

text \<open>\<open>execute\<close> up to the await, when \<open>start\<close> returns a process.\<close>

definition execute_start :: "nat \<Rightarrow> git_sched \<Rightarrow> git_sched" where
  "execute_start i s =
     s\<lparr>gs_throttled := remove1 i (gs_throttled s), gs_waiting := gs_waiting s - 1, gs_running := gs_running s + 1,
       gs_executing := gs_executing s @ [i]\<rparr>"

text \<open>Its \<open>finally\<close>, after the process exited or \<open>start\<close> threw.\<close>

definition execute_end :: "git_policy \<Rightarrow> nat \<Rightarrow> git_sched \<Rightarrow> git_sched" where
  "execute_end policy i s =
     scheduleDrain policy
       (s\<lparr>gs_running := gs_running s - 1, gs_admitted := gs_admitted s - 1,
          gs_executing := remove1 i (gs_executing s), gs_finished := gs_finished s @ [i]\<rparr>)"

text \<open>The handler for a throttle that rejects.\<close>

definition throttle_failed :: "git_policy \<Rightarrow> nat \<Rightarrow> git_sched \<Rightarrow> git_sched" where
  "throttle_failed policy i s =
     scheduleDrain policy
       (s\<lparr>gs_waiting := gs_waiting s - 1, gs_admitted := gs_admitted s - 1,
          gs_throttled := remove1 i (gs_throttled s), gs_finished := gs_finished s @ [i]\<rparr>)"

definition activeCount :: "git_sched \<Rightarrow> nat" where
  "activeCount s = gs_running s"

definition pendingCount :: "git_sched \<Rightarrow> nat" where
  "pendingCount s = gs_waiting s"

section \<open>Steps\<close>

text \<open>What happens in the scheduler by itself: the scheduled drain, a start by the throttle that succeeds
  or throws, a throttle that fails, and a process that exits.\<close>

inductive git_step :: "git_policy \<Rightarrow> git_sched \<Rightarrow> git_sched \<Rightarrow> bool" for policy where
  drain: "gs_drainScheduled s \<Longrightarrow> git_step policy s (drainOne policy s)"
| start: "i \<in> set (gs_throttled s) \<Longrightarrow> git_step policy s (execute_start i s)"
| start_throws: "i \<in> set (gs_throttled s) \<Longrightarrow> git_step policy s (execute_end policy i (execute_start i s))"
| throttle: "i \<in> set (gs_throttled s) \<Longrightarrow> git_step policy s (throttle_failed policy i s)"
| exit: "i \<in> set (gs_executing s) \<Longrightarrow> git_step policy s (execute_end policy i s)"

text \<open>The requests made so far, and the states they can lead to.\<close>

inductive git_reach :: "git_policy \<Rightarrow> nat list \<Rightarrow> git_sched \<Rightarrow> bool" for policy where
  init: "git_reach policy [] git_start"
| request: "git_reach policy is s \<Longrightarrow> i \<notin> set is \<Longrightarrow> git_reach policy (is @ [i]) (run_git policy i high s)"
| inner: "git_reach policy is s \<Longrightarrow> git_step policy s t \<Longrightarrow> git_reach policy is t"

inductive_cases git_stepE: "git_step policy s t"

section \<open>Invariant\<close>

definition git_inv :: "git_policy \<Rightarrow> nat list \<Rightarrow> git_sched \<Rightarrow> bool" where
  "git_inv policy is s \<longleftrightarrow>
     mset is = mset (gs_high s) + mset (gs_normal s) + mset (gs_throttled s) + mset (gs_executing s) + mset (gs_finished s) \<and>
     gs_admitted s = length (gs_throttled s) + length (gs_executing s) \<and>
     gs_running s = length (gs_executing s) \<and>
     gs_waiting s = length (gs_high s) + length (gs_normal s) + length (gs_throttled s) \<and>
     int (gs_admitted s) \<le> gp_concurrency policy"

text \<open>A request that waits is not forgotten: a drain is scheduled, or the limit is reached.\<close>

definition git_awake :: "git_policy \<Rightarrow> git_sched \<Rightarrow> bool" where
  "git_awake policy s \<longleftrightarrow>
     gs_high s = [] \<and> gs_normal s = [] \<or> gs_drainScheduled s \<or> int (gs_admitted s) = gp_concurrency policy"

lemma scheduleDrain_inv: "git_inv policy is s \<Longrightarrow> git_inv policy is (scheduleDrain policy s)"
  by (simp add: git_inv_def scheduleDrain_def)

lemma scheduleDrain_awake: "git_inv policy is s \<Longrightarrow> git_awake policy (scheduleDrain policy s)"
  by (auto simp: git_awake_def scheduleDrain_def git_inv_def)

lemma drainOne_ok:
  assumes "git_inv policy is s"
  shows "git_inv policy is (drainOne policy s)" "git_awake policy (drainOne policy s)"
proof -
  let ?s = "s\<lparr>gs_drainScheduled := False\<rparr>"
  have full: "git_inv policy is ?s" using assms by (simp add: git_inv_def)
  have "git_inv policy is (drainOne policy s) \<and> git_awake policy (drainOne policy s)"
  proof (cases "int (gs_admitted s) \<ge> gp_concurrency policy")
    case True
    then show ?thesis using full assms by (auto simp: drainOne_def git_awake_def git_inv_def)
  next
    case False
    have h: "git_inv policy is (admit i (?s\<lparr>gs_high := rest, gs_admitted := gs_admitted s + 1\<rparr>))" if "gs_high s = i # rest" for i rest
      using assms that False by (simp add: git_inv_def admit_def)
    have n: "git_inv policy is (admit i (?s\<lparr>gs_normal := rest, gs_admitted := gs_admitted s + 1\<rparr>))" if "gs_normal s = i # rest" for i rest
      using assms that False by (simp add: git_inv_def admit_def)
    note ok = scheduleDrain_inv scheduleDrain_awake
    show ?thesis
    proof (cases "gs_high s")
      case (Cons i rest)
      then show ?thesis using False ok[OF h[OF Cons]] by (simp add: drainOne_def Let_def)
    next
      case Nil
      show ?thesis
      proof (cases "gs_normal s")
        case (Cons i rest)
        then show ?thesis using False Nil ok[OF n[OF Cons]] by (simp add: drainOne_def Let_def)
      next
        case Nil
        then show ?thesis using False \<open>gs_high s = []\<close> full by (simp add: drainOne_def git_awake_def)
      qed
    qed
  qed
  then show "git_inv policy is (drainOne policy s)" "git_awake policy (drainOne policy s)" by simp_all
qed

lemma request_ok:
  assumes "git_inv policy is s"
  shows "git_inv policy (is @ [i]) (run_git policy i high s)" "git_awake policy (run_git policy i high s)"
proof -
  let ?s = "s\<lparr>gs_waiting := gs_waiting s + 1\<rparr>"
  let ?t = "if high then ?s\<lparr>gs_high := gs_high s @ [i]\<rparr> else ?s\<lparr>gs_normal := gs_normal s @ [i]\<rparr>"
  have t: "git_inv policy (is @ [i]) ?t" using assms by (auto simp: git_inv_def)
  then show "git_inv policy (is @ [i]) (run_git policy i high s)" "git_awake policy (run_git policy i high s)"
    using drainOne_ok[OF t] scheduleDrain_inv[OF t] scheduleDrain_awake[OF t] by (auto simp: run_git_def Let_def)
qed

lemma length_member: "i \<in> set xs \<Longrightarrow> \<exists>n. length xs = Suc n"
  by (cases xs) auto

lemma execute_start_inv:
  assumes "git_inv policy is s" "i \<in> set (gs_throttled s)"
  shows "git_inv policy is (execute_start i s)"
proof -
  obtain n where "length (gs_throttled s) = Suc n" using length_member[OF assms(2)] by blast
  then show ?thesis using assms by (simp add: git_inv_def execute_start_def length_remove1)
qed

lemma execute_end_ok:
  assumes "git_inv policy is s" "i \<in> set (gs_executing s)"
  shows "git_inv policy is (execute_end policy i s)" "git_awake policy (execute_end policy i s)"
proof -
  have "git_inv policy is (s\<lparr>gs_running := gs_running s - 1, gs_admitted := gs_admitted s - 1,
      gs_executing := remove1 i (gs_executing s), gs_finished := gs_finished s @ [i]\<rparr>)"
    using assms length_member[OF assms(2)] by (auto simp: git_inv_def length_remove1)
  then show "git_inv policy is (execute_end policy i s)" "git_awake policy (execute_end policy i s)"
    using scheduleDrain_inv scheduleDrain_awake unfolding execute_end_def by blast+
qed

lemma throttle_failed_ok:
  assumes "git_inv policy is s" "i \<in> set (gs_throttled s)"
  shows "git_inv policy is (throttle_failed policy i s)" "git_awake policy (throttle_failed policy i s)"
proof -
  have "git_inv policy is (s\<lparr>gs_waiting := gs_waiting s - 1, gs_admitted := gs_admitted s - 1,
      gs_throttled := remove1 i (gs_throttled s), gs_finished := gs_finished s @ [i]\<rparr>)"
    using assms length_member[OF assms(2)] by (auto simp: git_inv_def length_remove1)
  then show "git_inv policy is (throttle_failed policy i s)" "git_awake policy (throttle_failed policy i s)"
    using scheduleDrain_inv scheduleDrain_awake unfolding throttle_failed_def by blast+
qed

lemma execute_start_awake: "git_awake policy s \<Longrightarrow> git_awake policy (execute_start i s)"
  by (auto simp: git_awake_def execute_start_def)

lemma git_step_ok:
  assumes "git_step policy s t" "git_inv policy is s" "git_awake policy s"
  shows "git_inv policy is t \<and> git_awake policy t"
  using assms(1)
proof (cases rule: git_step.cases)
  case drain
  then show ?thesis using drainOne_ok[OF assms(2)] by simp
next
  case (start i)
  then show ?thesis using execute_start_inv execute_start_awake assms(2,3) by simp
next
  case (start_throws i)
  have "i \<in> set (gs_executing (execute_start i s))" by (simp add: execute_start_def)
  then show ?thesis using execute_end_ok[OF execute_start_inv[OF assms(2) start_throws(2)]] start_throws(1) by simp
next
  case (throttle i)
  then show ?thesis using throttle_failed_ok[OF assms(2)] by simp
next
  case (exit i)
  then show ?thesis using execute_end_ok[OF assms(2)] by simp
qed

lemma git_reach_inv:
  assumes "git_reach policy is s" "gp_concurrency policy > 0"
  shows "git_inv policy is s \<and> git_awake policy s"
  using assms(1)
proof (induction rule: git_reach.induct)
  case init
  then show ?case using assms(2) by (simp add: git_inv_def git_awake_def git_start_def)
next
  case (request "is" s i high)
  then show ?case using request_ok by blast
next
  case (inner "is" s t)
  then show ?case using git_step_ok by blast
qed

section \<open>Work\<close>

text \<open>Every step of the scheduler by itself lowers this number.\<close>

definition git_work :: "git_sched \<Rightarrow> nat" where
  "git_work s =
     5 * (length (gs_high s) + length (gs_normal s)) + 4 * length (gs_throttled s) + 2 * length (gs_executing s) +
     (if gs_drainScheduled s then 1 else 0)"

lemma scheduleDrain_work: "git_work (scheduleDrain policy s) \<le> git_work s + 1"
  by (simp add: git_work_def scheduleDrain_def)

lemma scheduleDrain_work_less: "git_work s + 1 < n \<Longrightarrow> git_work (scheduleDrain policy s) < n"
  using scheduleDrain_work[of policy s] by simp

lemma execute_end_work:
  assumes "i \<in> set (gs_executing s)" "git_work s < n"
  shows "git_work (execute_end policy i s) < n"
proof -
  obtain m where "length (gs_executing s) = Suc m" using length_member[OF assms(1)] by blast
  then show ?thesis
    unfolding execute_end_def using assms
    by (intro scheduleDrain_work_less) (simp add: git_work_def length_remove1)
qed

lemma execute_end_step: "i \<in> set (gs_executing s) \<Longrightarrow> git_work (execute_end policy i s) < git_work s"
proof -
  assume i: "i \<in> set (gs_executing s)"
  obtain m where "length (gs_executing s) = Suc m" using length_member[OF i] by blast
  then show ?thesis
    unfolding execute_end_def using i
    by (cases "gs_drainScheduled s")
      (auto simp: git_work_def length_remove1 scheduleDrain_def)
qed

lemma git_step_work: "git_step policy s t \<Longrightarrow> git_work t < git_work s"
proof (induction rule: git_step.induct)
  case (drain s)
  show ?case
    using drain unfolding drainOne_def Let_def
    by (auto simp: admit_def git_work_def scheduleDrain_def split: list.split)
next
  case (start i s)
  obtain m where "length (gs_throttled s) = Suc m" using length_member[OF start] by blast
  then show ?case using start by (simp add: execute_start_def git_work_def length_remove1)
next
  case (start_throws i s)
  obtain m where "length (gs_throttled s) = Suc m" using length_member[OF start_throws] by blast
  then have "git_work (execute_start i s) < git_work s"
    using start_throws by (simp add: execute_start_def git_work_def length_remove1)
  moreover have "i \<in> set (gs_executing (execute_start i s))" by (simp add: execute_start_def)
  ultimately show ?case using execute_end_step order_less_trans by blast
next
  case (throttle i s)
  obtain m where "length (gs_throttled s) = Suc m" using length_member[OF throttle] by blast
  then show ?case
    using throttle unfolding throttle_failed_def
    by (intro scheduleDrain_work_less) (simp add: git_work_def length_remove1)
next
  case (exit i s)
  then show ?case by (rule execute_end_step)
qed

lemma git_steps_work: "(git_step policy ^^ n) s t \<Longrightarrow> n + git_work t \<le> git_work s"
proof (induction n arbitrary: t)
  case (Suc n)
  obtain u where u: "(git_step policy ^^ n) s u" "git_step policy u t" using Suc.prems by auto
  then show ?case using Suc.IH[OF u(1)] git_step_work[OF u(2)] by simp
qed simp

lemma git_steps_reach: "(git_step policy ^^ n) s t \<Longrightarrow> git_reach policy is s \<Longrightarrow> git_reach policy is t"
  by (induction n arbitrary: t) (auto intro: git_reach.inner)

text \<open>Where nothing can happen, nothing is left to do.\<close>

lemma git_stuck:
  assumes "git_inv policy is s" "git_awake policy s" "gp_concurrency policy > 0" "\<nexists>t. git_step policy s t"
  shows "mset (gs_finished s) = mset is"
proof -
  have "gs_throttled s = []" "gs_executing s = []" "\<not> gs_drainScheduled s"
    using assms(4) by (metis git_step.drain git_step.start git_step.exit list.set_intros(1) neq_Nil_conv)+
  then show ?thesis using assms(1-3) by (auto simp: git_inv_def git_awake_def)
qed

section \<open>What the scheduler promises\<close>

text \<open>C15. The scheduler never admits more processes than the policy allows, its counters are the numbers of
  processes that run and of requests that do not run yet, every request is in exactly one place, and
  a request that waits has not been forgotten: a drain is scheduled, or as many processes as allowed
  are admitted, each of which will schedule one when it ends.\<close>

theorem git_processes_limited:
  assumes "git_reach policy is s" "gp_concurrency policy > 0"
  shows "int (length (gs_throttled s @ gs_executing s)) \<le> gp_concurrency policy \<and>
    activeCount s = length (gs_executing s) \<and>
    pendingCount s = length (gs_high s @ gs_normal s @ gs_throttled s) \<and>
    mset (gs_high s @ gs_normal s @ gs_throttled s @ gs_executing s @ gs_finished s) = mset is \<and>
    (gs_high s @ gs_normal s \<noteq> [] \<longrightarrow>
       gs_drainScheduled s \<or> int (length (gs_throttled s @ gs_executing s)) = gp_concurrency policy)"
  using git_reach_inv[OF assms] by (auto simp: git_inv_def git_awake_def activeCount_def pendingCount_def)


text \<open>One process at a time: two requests, the second of high priority.\<close>

definition one_at_a_time :: git_policy where
  "one_at_a_time = \<lparr>gp_perSecond = 64, gp_concurrency = 1\<rparr>"

definition two_requests :: git_sched where
  "two_requests = run_git one_at_a_time 8 True (run_git one_at_a_time 7 False git_start)"

lemma two_requests_reach: "git_reach one_at_a_time [7, 8] two_requests"
  using git_reach.request[OF git_reach.request[OF git_reach.init, of 7 _ False], of 8 _ True]
  by (simp add: two_requests_def)

theorem git_processes_limited_witness:
  "gs_throttled two_requests = [7] \<and> pendingCount two_requests = 2 \<and> gs_high two_requests = [8] \<and>
   int (length (gs_throttled two_requests @ gs_executing two_requests)) \<le> 1"
proof -
  have "0 < gp_concurrency one_at_a_time" by (simp add: one_at_a_time_def)
  from git_processes_limited[OF two_requests_reach this]
  have "int (length (gs_throttled two_requests @ gs_executing two_requests)) \<le> 1" by (simp add: one_at_a_time_def)
  moreover have "gs_throttled two_requests = [7]" "pendingCount two_requests = 2" "gs_high two_requests = [8]" by code_simp+
  ultimately show ?thesis by blast
qed


end
