(* ===== verification/Stream_Coalescer.thy ===== *)
theory Stream_Coalescer
  imports Timeline
begin

text \<open>
  Coalescing what agents and terminals emit: the events of an agent's stream
  (\<open>agent/agent-stream-coalescer.ts\<close>) and the output of a terminal
  (\<open>terminal/terminal-output-coalescer.ts\<close>) are delivered at once after a pause and gathered for a
  short time otherwise. Delivered payloads are appended to a log. Timers are events of their own;
  a buffer has a number, so that a timer can tell its buffer from a later one for the same agent.
  A receiver that calls back into the coalescer while it delivers is not modelled.
\<close>

section \<open>Events and entries\<close>

record stream_event =
  se_item :: timeline_item
  se_provider :: string
  se_turnId :: "string option"

datatype pending_entry =
    Text_entry timeline_item string string "string option"
  | Tool_entry tool_call string "string option"

record agent_flush =
  fl_agentId :: string
  fl_item :: timeline_item
  fl_provider :: string
  fl_turnId :: "string option"

record stream_buffer =
  sb_id :: nat
  sb_entries :: "pending_entry list"
  sb_indexes :: "(string \<times> nat) list"
  sb_timer :: bool
  sb_flushing :: bool
  sb_lastFlushAt :: "int option"

record stream_coalescer =
  sc_buffers :: "(string \<times> stream_buffer) list"
  sc_next :: nat
  sc_flushed :: "agent_flush list"

fun text_of :: "timeline_item \<Rightarrow> string option" where
  "text_of (Assistant_message s m) = Some s"
| "text_of (Reasoning s) = Some s"
| "text_of _ = None"

fun with_text :: "timeline_item \<Rightarrow> string \<Rightarrow> timeline_item" where
  "with_text (Assistant_message s m) t = Assistant_message t m"
| "with_text (Reasoning s) t = Reasoning t"
| "with_text item t = item"

definition isCoalescableTimelineEvent :: "stream_event \<Rightarrow> bool" where
  "isCoalescableTimelineEvent e \<longleftrightarrow>
     text_of (se_item e) \<noteq> None \<or> (case se_item e of Tool_call c \<Rightarrow> True | _ \<Rightarrow> False)"

definition isTerminalToolCall :: "timeline_item \<Rightarrow> bool" where
  "isTerminalToolCall item \<longleftrightarrow>
     (case item of Tool_call c \<Rightarrow> tc_status c = T_completed \<or> tc_status c = T_failed \<or> tc_status c = T_canceled | _ \<Rightarrow> False)"

fun isSameTextStream :: "timeline_item \<Rightarrow> timeline_item \<Rightarrow> bool" where
  "isSameTextStream (Assistant_message s m) (Assistant_message t n) = (m = n)"
| "isSameTextStream (Reasoning s) (Reasoning t) = True"
| "isSameTextStream _ _ = False"

text \<open>\<open>appendToBuffer\<close>: a later event of a tool call takes the place of the earlier one.\<close>

definition appendToBuffer :: "stream_event \<Rightarrow> stream_buffer \<Rightarrow> stream_buffer" where
  "appendToBuffer e b =
     (case se_item e of
        Tool_call c \<Rightarrow>
          (case map_of (sb_indexes b) (tc_callId c) of
             Some n \<Rightarrow> b\<lparr>sb_entries := (sb_entries b)[n := Tool_entry c (se_provider e) (se_turnId e)]\<rparr>
           | None \<Rightarrow>
               b\<lparr>sb_indexes := AList.update (tc_callId c) (length (sb_entries b)) (sb_indexes b),
                 sb_entries := sb_entries b @ [Tool_entry c (se_provider e) (se_turnId e)]\<rparr>)
      | item \<Rightarrow>
          (case text_of item of
             Some s \<Rightarrow> b\<lparr>sb_entries := sb_entries b @ [Text_entry item s (se_provider e) (se_turnId e)]\<rparr>
           | None \<Rightarrow> b))"

fun joins :: "pending_entry \<Rightarrow> pending_entry \<Rightarrow> bool" where
  "joins (Text_entry i s p t) (Text_entry j u q w) = (isSameTextStream i j \<and> p = q \<and> t = w)"
| "joins _ _ = False"

fun joined :: "pending_entry \<Rightarrow> pending_entry \<Rightarrow> pending_entry" where
  "joined (Text_entry i s p t) (Text_entry j u q w) = Text_entry i (s @ u) p t"
| "joined a b = a"

definition collapse_entry :: "pending_entry list \<Rightarrow> pending_entry \<Rightarrow> pending_entry list" where
  "collapse_entry collapsed e =
     (if collapsed \<noteq> [] \<and> joins (last collapsed) e then butlast collapsed @ [joined (last collapsed) e]
      else collapsed @ [e])"

definition collapseEntries :: "pending_entry list \<Rightarrow> pending_entry list" where
  "collapseEntries es = foldl collapse_entry [] es"

fun flush_payload :: "string \<Rightarrow> pending_entry \<Rightarrow> agent_flush" where
  "flush_payload a (Text_entry i s p t) = \<lparr>fl_agentId = a, fl_item = with_text i s, fl_provider = p, fl_turnId = t\<rparr>"
| "flush_payload a (Tool_entry c p t) = \<lparr>fl_agentId = a, fl_item = Tool_call c, fl_provider = p, fl_turnId = t\<rparr>"

section \<open>The coalescer of an agent's stream\<close>

definition AGENT_STREAM_COALESCE_DEFAULT_WINDOW_MS :: int where
  "AGENT_STREAM_COALESCE_DEFAULT_WINDOW_MS = 60"

definition empty_coalescer :: stream_coalescer where
  "empty_coalescer = \<lparr>sc_buffers = [], sc_next = 0, sc_flushed = []\<rparr>"

definition put_buffer :: "string \<Rightarrow> stream_buffer \<Rightarrow> stream_coalescer \<Rightarrow> stream_coalescer" where
  "put_buffer a b s = s\<lparr>sc_buffers := AList.update a b (sc_buffers s)\<rparr>"

text \<open>\<open>flushBuffer\<close>, with the number of the buffer that is expected, if any. The flag is up only while
  the payloads are delivered.\<close>

definition flushBuffer :: "int \<Rightarrow> string \<Rightarrow> nat option \<Rightarrow> stream_coalescer \<Rightarrow> stream_coalescer" where
  "flushBuffer now a expected s =
     (case map_of (sc_buffers s) a of
        None \<Rightarrow> s
      | Some b \<Rightarrow>
          if expected \<noteq> None \<and> expected \<noteq> Some (sb_id b) then s
          else if sb_flushing b then s
          else if sb_entries b = [] then put_buffer a (b\<lparr>sb_timer := False\<rparr>) s
          else (put_buffer a (b\<lparr>sb_timer := False, sb_entries := [], sb_indexes := [], sb_lastFlushAt := Some now\<rparr>) s)
                 \<lparr>sc_flushed := sc_flushed s @ map (flush_payload a) (collapseEntries (sb_entries b))\<rparr>)"

definition getOrCreateBuffer :: "string \<Rightarrow> stream_coalescer \<Rightarrow> stream_buffer \<times> stream_coalescer" where
  "getOrCreateBuffer a s =
     (case map_of (sc_buffers s) a of
        Some b \<Rightarrow> (b, s)
      | None \<Rightarrow>
          (let b = \<lparr>sb_id = sc_next s, sb_entries = [], sb_indexes = [], sb_timer = False, sb_flushing = False,
                    sb_lastFlushAt = None\<rparr>
           in (b, (put_buffer a b s)\<lparr>sc_next := sc_next s + 1\<rparr>)))"

definition handle_stream :: "int \<Rightarrow> int \<Rightarrow> string \<Rightarrow> stream_event \<Rightarrow> stream_coalescer \<Rightarrow> bool \<times> stream_coalescer" where
  "handle_stream windowMs now a e s =
     (if \<not> isCoalescableTimelineEvent e then (False, s)
      else if text_of (se_item e) = Some [] then (True, s)
      else
        (let (b0, s1) = getOrCreateBuffer a s; b = appendToBuffer e b0; s2 = put_buffer a b s1 in
         if isTerminalToolCall (se_item e) then (True, flushBuffer now a None s2)
         else if sb_timer b then (True, s2)
         else if (case sb_lastFlushAt b of None \<Rightarrow> True | Some t \<Rightarrow> now - t \<ge> windowMs)
         then (True, flushBuffer now a None s2)
         else (True, put_buffer a (b\<lparr>sb_timer := True\<rparr>) s2)))"

definition flushAll :: "int \<Rightarrow> stream_coalescer \<Rightarrow> stream_coalescer" where
  "flushAll now s = foldl (\<lambda>s a. flushBuffer now a None s) s (map fst (sc_buffers s))"

definition flushAndDiscard :: "int \<Rightarrow> string \<Rightarrow> stream_coalescer \<Rightarrow> stream_coalescer" where
  "flushAndDiscard now a s0 =
     (let s = flushBuffer now a None s0 in
      if map_of (sc_buffers s) a = None then s else s\<lparr>sc_buffers := AList.delete a (sc_buffers s)\<rparr>)"

section \<open>The coalescer of a terminal's output\<close>

text \<open>A chunk is the text it encodes: the encoding of a sequence of texts is that of the text they
  make up.\<close>

record terminal_flush =
  tf_payload :: string
  tf_bytes :: nat
  tf_chars :: nat

record terminal_coalescer =
  tm_chunks :: "string list"
  tm_bytes :: nat
  tm_chars :: nat
  tm_timer :: bool
  tm_lastFlushAt :: "int option"
  tm_flushed :: "terminal_flush list"

definition DEFAULT_FLUSH_DELAY_MS :: int where
  "DEFAULT_FLUSH_DELAY_MS = 5"

definition empty_terminal :: terminal_coalescer where
  "empty_terminal = \<lparr>tm_chunks = [], tm_bytes = 0, tm_chars = 0, tm_timer = False, tm_lastFlushAt = None, tm_flushed = []\<rparr>"

definition clearPending :: "terminal_coalescer \<Rightarrow> terminal_coalescer" where
  "clearPending s = s\<lparr>tm_chunks := [], tm_bytes := 0, tm_chars := 0\<rparr>"

definition flush_terminal :: "int \<Rightarrow> terminal_coalescer \<Rightarrow> terminal_coalescer" where
  "flush_terminal now s0 =
     (let s = s0\<lparr>tm_timer := False\<rparr> in
      if tm_chunks s = [] then s
      else (clearPending s)\<lparr>tm_lastFlushAt := Some now,
             tm_flushed := tm_flushed s @ [\<lparr>tf_payload = concat (tm_chunks s), tf_bytes = tm_bytes s, tf_chars = tm_chars s\<rparr>]\<rparr>)"

definition handle_terminal :: "int \<Rightarrow> int \<Rightarrow> string \<Rightarrow> terminal_coalescer \<Rightarrow> terminal_coalescer" where
  "handle_terminal flushDelayMs now data s0 =
     (if data = [] then s0
      else
        (let s = s0\<lparr>tm_chunks := tm_chunks s0 @ [data], tm_bytes := tm_bytes s0 + utf8_length data,
                    tm_chars := tm_chars s0 + length data\<rparr> in
         if tm_timer s then s
         else if (case tm_lastFlushAt s of None \<Rightarrow> True | Some t \<Rightarrow> now - t \<ge> flushDelayMs)
         then flush_terminal now s
         else s\<lparr>tm_timer := True\<rparr>))"

definition markFlushed :: "int \<Rightarrow> terminal_coalescer \<Rightarrow> terminal_coalescer" where
  "markFlushed now s = s\<lparr>tm_lastFlushAt := Some now\<rparr>"

definition dispose :: "terminal_coalescer \<Rightarrow> terminal_coalescer" where
  "dispose s = clearPending (s\<lparr>tm_timer := False\<rparr>)"

section \<open>Runs\<close>

datatype stream_op =
    Handle_event string stream_event int
  | Timer_fires string nat int
  | Flush_for string int
  | Flush_all int
  | Flush_discard string int

fun stream_step :: "int \<Rightarrow> stream_op \<Rightarrow> stream_coalescer \<Rightarrow> stream_coalescer" where
  "stream_step w (Handle_event a e now) s = snd (handle_stream w now a e s)"
| "stream_step w (Timer_fires a i now) s = flushBuffer now a (Some i) s"
| "stream_step w (Flush_for a now) s = flushBuffer now a None s"
| "stream_step w (Flush_all now) s = flushAll now s"
| "stream_step w (Flush_discard a now) s = flushAndDiscard now a s"

definition stream_run :: "int \<Rightarrow> stream_op list \<Rightarrow> stream_coalescer" where
  "stream_run w ops = fold (stream_step w) ops empty_coalescer"

datatype terminal_op = Handle_output string int | Terminal_timer int | Flush_terminal int | Mark_flushed int

fun terminal_step :: "int \<Rightarrow> terminal_op \<Rightarrow> terminal_coalescer \<Rightarrow> terminal_coalescer" where
  "terminal_step w (Handle_output data now) s = handle_terminal w now data s"
| "terminal_step w (Terminal_timer now) s = (if tm_timer s then flush_terminal now s else s)"
| "terminal_step w (Flush_terminal now) s = flush_terminal now s"
| "terminal_step w (Mark_flushed now) s = markFlushed now s"

definition terminal_run :: "int \<Rightarrow> terminal_op list \<Rightarrow> terminal_coalescer" where
  "terminal_run w ops = fold (terminal_step w) ops empty_terminal"

end
