(* ===== verification/Stream_Coalescer_Spec.thy ===== *)
theory Stream_Coalescer_Spec
  imports Stream_Coalescer
begin

text \<open>
  What coalescing keeps. A text is read as the sequence of its characters, each with the stream it
  belongs to: the kind of item, its message, the provider and the turn. Tool calls are read by the
  last event of each call.
\<close>

section \<open>What is told\<close>

type_synonym text_stream = "string option option \<times> string \<times> string option"

fun item_key :: "timeline_item \<Rightarrow> string option option" where
  "item_key (Assistant_message s m) = Some m"
| "item_key _ = None"

definition event_chars :: "stream_event \<Rightarrow> (text_stream \<times> char) list" where
  "event_chars e =
     (case text_of (se_item e) of
        Some s \<Rightarrow> map (Pair (item_key (se_item e), se_provider e, se_turnId e)) s
      | None \<Rightarrow> [])"

definition event_calls :: "stream_event \<Rightarrow> (string \<times> tool_call \<times> string \<times> string option) list" where
  "event_calls e = (case se_item e of Tool_call c \<Rightarrow> [(tc_callId c, c, se_provider e, se_turnId e)] | _ \<Rightarrow> [])"

definition flush_event :: "agent_flush \<Rightarrow> stream_event" where
  "flush_event f = \<lparr>se_item = fl_item f, se_provider = fl_provider f, se_turnId = fl_turnId f\<rparr>"

fun entry_chars :: "pending_entry \<Rightarrow> (text_stream \<times> char) list" where
  "entry_chars (Text_entry i s p t) = map (Pair (item_key i, p, t)) s"
| "entry_chars (Tool_entry c p t) = []"

fun entry_calls :: "pending_entry \<Rightarrow> (string \<times> tool_call \<times> string \<times> string option) list" where
  "entry_calls (Text_entry i s p t) = []"
| "entry_calls (Tool_entry c p t) = [(tc_callId c, c, p, t)]"

definition all_of :: "('a \<Rightarrow> 'b list) \<Rightarrow> 'a list \<Rightarrow> 'b list" where
  "all_of f xs = concat (map f xs)"

lemma all_of_simps [simp]: "all_of f [] = []" "all_of f (x # xs) = f x @ all_of f xs" "all_of f (xs @ ys) = all_of f xs @ all_of f ys"
  by (simp_all add: all_of_def)

text \<open>The delivered payloads of an agent, and its entries that wait.\<close>

definition sent :: "string \<Rightarrow> stream_coalescer \<Rightarrow> stream_event list" where
  "sent a s = map flush_event (filter (\<lambda>f. fl_agentId f = a) (sc_flushed s))"

definition pend :: "string \<Rightarrow> stream_coalescer \<Rightarrow> pending_entry list" where
  "pend a s = (case map_of (sc_buffers s) a of None \<Rightarrow> [] | Some b \<Rightarrow> sb_entries b)"

definition told :: "string \<Rightarrow> stream_event list \<Rightarrow> stream_coalescer \<Rightarrow> bool" where
  "told a es s \<longleftrightarrow>
     all_of event_chars (sent a s) @ all_of entry_chars (pend a s) = all_of event_chars es \<and>
     map_of (rev (all_of event_calls (sent a s) @ all_of entry_calls (pend a s))) = map_of (rev (all_of event_calls es))"

section \<open>Buffers\<close>

fun is_text_entry :: "pending_entry \<Rightarrow> bool" where
  "is_text_entry (Text_entry i s p t) = (text_of i \<noteq> None)"
| "is_text_entry (Tool_entry c p t) = True"

text \<open>The index of a buffer knows exactly where its tool calls are.\<close>

definition buffer_ok :: "stream_buffer \<Rightarrow> bool" where
  "buffer_ok b \<longleftrightarrow>
     \<not> sb_flushing b \<and> list_all is_text_entry (sb_entries b) \<and>
     (\<forall>n < length (sb_entries b). \<forall>c p t. sb_entries b ! n = Tool_entry c p t \<longrightarrow> map_of (sb_indexes b) (tc_callId c) = Some n) \<and>
     (\<forall>i n. map_of (sb_indexes b) i = Some n \<longrightarrow> n < length (sb_entries b) \<and> (\<exists>c p t. sb_entries b ! n = Tool_entry c p t \<and> tc_callId c = i))"

definition timed :: "stream_buffer \<Rightarrow> bool" where
  "timed b \<longleftrightarrow> sb_entries b \<noteq> [] \<longrightarrow> sb_timer b"

definition buffers_ok :: "stream_coalescer \<Rightarrow> bool" where
  "buffers_ok s \<longleftrightarrow> (\<forall>a b. map_of (sc_buffers s) a = Some b \<longrightarrow> buffer_ok b \<and> timed b)"

lemma joins_key: "joins x y \<Longrightarrow> is_text_entry x \<Longrightarrow> is_text_entry y \<Longrightarrow> entry_chars (joined x y) = entry_chars x @ entry_chars y"
  by (cases "(x, y)" rule: joins.cases; auto elim!: isSameTextStream.elims)

lemma joins_calls: "joins x y \<Longrightarrow> entry_calls (joined x y) = entry_calls x @ entry_calls y"
  "joins x y \<Longrightarrow> is_text_entry x \<Longrightarrow> is_text_entry (joined x y)"
  by (cases "(x, y)" rule: joins.cases; simp)+

lemma collapse_entry_tells:
  assumes "list_all is_text_entry acc" "is_text_entry e"
  shows "list_all is_text_entry (collapse_entry acc e)"
    "all_of entry_chars (collapse_entry acc e) = all_of entry_chars acc @ entry_chars e"
    "all_of entry_calls (collapse_entry acc e) = all_of entry_calls acc @ entry_calls e"
proof -
  have "list_all is_text_entry (collapse_entry acc e) \<and>
    all_of entry_chars (collapse_entry acc e) = all_of entry_chars acc @ entry_chars e \<and>
    all_of entry_calls (collapse_entry acc e) = all_of entry_calls acc @ entry_calls e"
  proof (cases "acc \<noteq> [] \<and> joins (last acc) e")
    case True
    then obtain ys y where y: "acc = ys @ [y]" "joins y e" by (metis append_butlast_last_id)
    then show ?thesis using assms joins_key[OF y(2)] joins_calls[OF y(2)] by (simp add: collapse_entry_def)
  next
    case False
    then have "collapse_entry acc e = acc @ [e]" by (auto simp: collapse_entry_def)
    then show ?thesis using assms by simp
  qed
  then show "list_all is_text_entry (collapse_entry acc e)"
    "all_of entry_chars (collapse_entry acc e) = all_of entry_chars acc @ entry_chars e"
    "all_of entry_calls (collapse_entry acc e) = all_of entry_calls acc @ entry_calls e" by simp_all
qed

lemma collapse_tells:
  assumes "list_all is_text_entry es"
  shows "list_all is_text_entry (collapseEntries es)" "all_of entry_chars (collapseEntries es) = all_of entry_chars es"
    "all_of entry_calls (collapseEntries es) = all_of entry_calls es"
proof -
  have "list_all is_text_entry (foldl collapse_entry acc es) \<and>
    all_of entry_chars (foldl collapse_entry acc es) = all_of entry_chars acc @ all_of entry_chars es \<and>
    all_of entry_calls (foldl collapse_entry acc es) = all_of entry_calls acc @ all_of entry_calls es"
    if "list_all is_text_entry acc" for acc
    using assms that
  proof (induction es arbitrary: acc)
    case (Cons e es)
    note c = collapse_entry_tells[OF Cons.prems(2), of e]
    show ?case using Cons.IH[OF _ c(1)] Cons.prems(1) c(2,3) by simp
  qed simp
  from this[of "[]"] show "list_all is_text_entry (collapseEntries es)"
    "all_of entry_chars (collapseEntries es) = all_of entry_chars es"
    "all_of entry_calls (collapseEntries es) = all_of entry_calls es" by (simp_all add: collapseEntries_def)
qed

lemma payload_tells:
  assumes "list_all is_text_entry es"
  shows "all_of event_chars (map (flush_event \<circ> flush_payload a) es) = all_of entry_chars es"
    "all_of event_calls (map (flush_event \<circ> flush_payload a) es) = all_of entry_calls es"
proof -
  have "event_chars (flush_event (flush_payload a e)) = entry_chars e \<and> event_calls (flush_event (flush_payload a e)) = entry_calls e"
    if "is_text_entry e" for e
    using that by (cases e) (auto simp: flush_event_def event_chars_def event_calls_def elim!: text_of.elims with_text.elims)
  then show "all_of event_chars (map (flush_event \<circ> flush_payload a) es) = all_of entry_chars es"
    "all_of event_calls (map (flush_event \<circ> flush_payload a) es) = all_of entry_calls es"
    using assms by (induction es) auto
qed

section \<open>Flushing\<close>

lemma sent_simps [simp]:
  "sent a (put_buffer c b s) = sent a s" "sent a (s\<lparr>sc_next := n\<rparr>) = sent a s" "sent a (s\<lparr>sc_buffers := bs\<rparr>) = sent a s"
  by (simp_all add: sent_def put_buffer_def)

lemma buffer_simps [simp]:
  "map_of (sc_buffers (put_buffer c b s)) = (map_of (sc_buffers s))(c \<mapsto> b)" "sc_flushed (put_buffer c b s) = sc_flushed s"
  by (simp_all add: put_buffer_def map_of_update)

lemma flush_agent: "fl_agentId (flush_payload a e) = a"
  by (cases e) simp_all

text \<open>A flush delivers what waits, in a form that tells the same, and leaves the other agents alone.\<close>

lemma flushBuffer_ok:
  assumes "\<And>c b. map_of (sc_buffers s) c = Some b \<Longrightarrow> buffer_ok b \<and> (c \<noteq> a \<longrightarrow> timed b)"
    "x = None \<or> (\<forall>b. map_of (sc_buffers s) a = Some b \<longrightarrow> timed b)"
  shows "buffers_ok (flushBuffer now a x s)" "told c es s \<Longrightarrow> told c es (flushBuffer now a x s)"
    "x = None \<Longrightarrow> pend a (flushBuffer now a x s) = []" "c \<noteq> a \<Longrightarrow> pend c (flushBuffer now a x s) = pend c s"
proof -
  let ?t = "flushBuffer now a x s"
  have "buffers_ok ?t \<and> (told c es s \<longrightarrow> told c es ?t) \<and> (x = None \<longrightarrow> pend a ?t = []) \<and> (c \<noteq> a \<longrightarrow> pend c ?t = pend c s)"
  proof (cases "map_of (sc_buffers s) a")
    case None
    then have "?t = s" by (simp add: flushBuffer_def)
    then show ?thesis using assms(1) None by (force simp: buffers_ok_def pend_def)
  next
    case (Some b)
    note b = assms(1)[OF Some]
    have fl: "\<not> sb_flushing b" "list_all is_text_entry (sb_entries b)" using b by (simp_all add: buffer_ok_def)
    show ?thesis
    proof (cases "x \<noteq> None \<and> x \<noteq> Some (sb_id b)")
      case True
      then have "?t = s" using Some by (simp add: flushBuffer_def)
      then show ?thesis using assms True by (auto simp: buffers_ok_def)
    next
      case False
      let ?b = "b\<lparr>sb_timer := False, sb_entries := [], sb_indexes := (if sb_entries b = [] then sb_indexes b else []),
          sb_lastFlushAt := (if sb_entries b = [] then sb_lastFlushAt b else Some now)\<rparr>"
      have e: "b\<lparr>sb_timer := False, sb_entries := []\<rparr> = b\<lparr>sb_timer := False\<rparr>" if "sb_entries b = []"
        using that by (cases b) simp
      have t: "?t = (put_buffer a ?b s)
          \<lparr>sc_flushed := sc_flushed s @ map (flush_payload a) (collapseEntries (sb_entries b))\<rparr>"
        using Some False fl(1) by (auto simp: e flushBuffer_def put_buffer_def collapseEntries_def)
      have "map_of (sb_indexes b) = Map.empty" if "sb_entries b = []"
        using b that by (auto simp: buffer_ok_def fun_eq_iff)
      then have nb: "buffer_ok ?b" "timed ?b" using fl(1) by (auto simp: buffer_ok_def timed_def)
      have bs: "map_of (sc_buffers ?t) = (map_of (sc_buffers s))(a \<mapsto> ?b)" by (simp add: t)
      have p: "pend a ?t = []" "c \<noteq> a \<Longrightarrow> pend c ?t = pend c s" by (simp_all add: pend_def bs)
      have "buffers_ok ?t" using assms(1) nb by (auto simp: buffers_ok_def bs split: if_splits)
      moreover have "told c es ?t" if "told c es s"
      proof (cases "c = a")
        case True
        have "sent a ?t = sent a s @ map (flush_event \<circ> flush_payload a) (collapseEntries (sb_entries b))"
          by (simp add: t sent_def filter_map comp_def flush_agent)
        moreover have "pend a s = sb_entries b" by (simp add: pend_def Some)
        ultimately show ?thesis
          using that True p(1) payload_tells[OF collapse_tells(1)[OF fl(2)], of a] collapse_tells(2,3)[OF fl(2)]
          by (simp add: told_def)
      next
        case False
        have "sent c ?t = sent c s" using False by (simp add: t sent_def filter_map comp_def flush_agent)
        then show ?thesis using that p(2)[OF False] by (simp add: told_def)
      qed
      ultimately show ?thesis using p by blast
    qed
  qed
  then show "buffers_ok ?t" "told c es s \<Longrightarrow> told c es ?t" "x = None \<Longrightarrow> pend a ?t = []" "c \<noteq> a \<Longrightarrow> pend c ?t = pend c s"
    by auto
qed

section \<open>Handling\<close>

lemma map_of_rev_again: "k \<notin> fst ` set zs \<Longrightarrow> map_of (rev (xs @ ys @ (k, v) # zs)) = map_of (rev (xs @ ys @ (k, w) # zs @ [(k, v)]))"
proof -
  assume "k \<notin> fst ` set zs"
  then have d: "map_of (rev zs) k = None" by (simp add: map_of_eq_None_iff)
  show ?thesis by (rule ext) (simp add: map_add_def d split: option.split)
qed

text \<open>Appending an event tells that event after what the buffer told.\<close>

lemma append_tells:
  assumes "buffer_ok b" "isCoalescableTimelineEvent e"
  shows "all_of entry_chars (sb_entries (appendToBuffer e b)) = all_of entry_chars (sb_entries b) @ event_chars e"
    "buffer_ok (appendToBuffer e b)"
    "map_of (rev (xs @ all_of entry_calls (sb_entries (appendToBuffer e b)))) =
       map_of (rev (xs @ all_of entry_calls (sb_entries b) @ event_calls e))"
    "sb_timer (appendToBuffer e b) = sb_timer b"
proof -
  let ?b = "appendToBuffer e b" and ?es = "sb_entries b"
  have "all_of entry_chars (sb_entries ?b) = all_of entry_chars ?es @ event_chars e \<and> buffer_ok ?b \<and>
    map_of (rev (xs @ all_of entry_calls (sb_entries ?b))) = map_of (rev (xs @ all_of entry_calls ?es @ event_calls e)) \<and>
    sb_timer ?b = sb_timer b"
  proof (cases "\<exists>c. se_item e = Tool_call c")
    case False
    then obtain s where s: "text_of (se_item e) = Some s" using assms(2) by (auto simp: isCoalescableTimelineEvent_def split: timeline_item.splits)
    have n: "?b = b\<lparr>sb_entries := ?es @ [Text_entry (se_item e) s (se_provider e) (se_turnId e)]\<rparr>"
      using False s by (auto simp: appendToBuffer_def split: timeline_item.split)
    have "buffer_ok ?b" using assms(1) s unfolding n by (auto simp: buffer_ok_def nth_append less_Suc_eq)
    then show ?thesis using s False unfolding n by (auto simp: event_chars_def event_calls_def split: timeline_item.split)
  next
    case True
    then obtain c where c: "se_item e = Tool_call c" by blast
    let ?k = "tc_callId c" and ?new = "Tool_entry c (se_provider e) (se_turnId e)"
    show ?thesis
    proof (cases "map_of (sb_indexes b) ?k")
      case None
      have n: "?b = b\<lparr>sb_indexes := AList.update ?k (length ?es) (sb_indexes b), sb_entries := ?es @ [?new]\<rparr>"
        using c None by (simp add: appendToBuffer_def)
      have "buffer_ok ?b"
        using assms(1) None unfolding n by (auto simp: buffer_ok_def nth_append less_Suc_eq map_of_update)
      then show ?thesis using c unfolding n by (simp add: event_chars_def event_calls_def)
    next
      case (Some n)
      have b: "?b = b\<lparr>sb_entries := ?es[n := ?new]\<rparr>" using c Some by (simp add: appendToBuffer_def)
      obtain d p t where d: "n < length ?es" "?es ! n = Tool_entry d p t" "tc_callId d = ?k"
        using assms(1) Some unfolding buffer_ok_def by blast
      have o: "?k \<notin> fst ` set (entry_calls (?es ! m))" if "m < length ?es" "m \<noteq> n" for m
        using assms(1) Some that by (cases "?es ! m") (auto simp: buffer_ok_def)
      define ys where "ys = take n ?es"
      define zs where "zs = drop (Suc n) ?es"
      have e: "?es = ys @ Tool_entry d p t # zs" "?es[n := ?new] = ys @ ?new # zs"
        using d(1,2) id_take_nth_drop[OF d(1)] by (simp_all add: ys_def zs_def upd_conv_take_nth_drop)
      have "?k \<notin> fst ` set (entry_calls z)" if z: "z \<in> set zs" for z
      proof -
        obtain m where "m < length zs" "z = zs ! m" using z by (auto simp: in_set_conv_nth)
        then show ?thesis using o[of "Suc (n + m)"] d(1) by (simp add: zs_def)
      qed
      then have k: "?k \<notin> fst ` set (all_of entry_calls zs)" by (auto simp: all_of_def)
      have "all_of entry_chars (sb_entries ?b) = all_of entry_chars ?es @ event_chars e"
        using c unfolding b by (simp add: e(2)) (simp add: e(1) event_chars_def)
      moreover have "map_of (rev (xs @ all_of entry_calls (sb_entries ?b))) = map_of (rev (xs @ all_of entry_calls ?es @ event_calls e))"
        using map_of_rev_again[OF k, of xs "all_of entry_calls ys" "(c, se_provider e, se_turnId e)" "(d, p, t)"] c d(3)
        unfolding b by (simp add: e(2)) (simp add: e(1) event_calls_def)
      moreover have "buffer_ok ?b"
      proof -
        have t: "list_all is_text_entry (?es[n := ?new])" using assms(1) d(1) by (auto simp: buffer_ok_def list_all_length nth_list_update)
        have i: "map_of (sb_indexes b) (tc_callId c') = Some m"
          if "m < length ?es" "?es[n := ?new] ! m = Tool_entry c' p' t'" for m c' p' t'
          using assms(1) Some d(1) that by (cases "m = n") (auto simp: buffer_ok_def)
        have j: "m < length ?es \<and> (\<exists>c' p' t'. ?es[n := ?new] ! m = Tool_entry c' p' t' \<and> tc_callId c' = i)"
          if "map_of (sb_indexes b) i = Some m" for i m
        proof -
          obtain c' p' t' where c': "m < length ?es" "?es ! m = Tool_entry c' p' t'" "tc_callId c' = i"
            using assms(1) \<open>map_of (sb_indexes b) i = Some m\<close> unfolding buffer_ok_def by blast
          then show ?thesis using d by (cases "m = n") auto
        qed
        show ?thesis using assms(1) t i j unfolding b by (simp add: buffer_ok_def)
      qed
      ultimately show ?thesis unfolding b by simp
    qed
  qed
  then show "all_of entry_chars (sb_entries ?b) = all_of entry_chars ?es @ event_chars e" "buffer_ok ?b"
    "map_of (rev (xs @ all_of entry_calls (sb_entries ?b))) = map_of (rev (xs @ all_of entry_calls ?es @ event_calls e))"
    "sb_timer ?b = sb_timer b" by simp_all
qed

lemma later_calls: "map_of (rev xs) = map_of (rev ys) \<Longrightarrow> map_of (rev (xs @ zs)) = map_of (rev (ys @ zs))"
  by simp

text \<open>The buffers once an event is in, before it is decided when to flush.\<close>

lemma told_put:
  assumes "told a es s" "b0 = fst (getOrCreateBuffer a s)" "buffers_ok s" "isCoalescableTimelineEvent e"
  defines "t \<equiv> put_buffer a (appendToBuffer e b0) (snd (getOrCreateBuffer a s))"
  shows "told a (es @ [e]) t" "c \<noteq> a \<Longrightarrow> told c fs s \<Longrightarrow> told c fs t" "map_of (sc_buffers t) = (map_of (sc_buffers s))(a \<mapsto> appendToBuffer e b0)"
    "buffer_ok (appendToBuffer e b0)" "sc_flushed t = sc_flushed s" "sb_timer (appendToBuffer e b0) = sb_timer b0"
proof -
  have b: "sb_entries b0 = pend a s" "buffer_ok b0"
    using assms(2,3) by (auto simp: getOrCreateBuffer_def Let_def pend_def buffers_ok_def buffer_ok_def split: option.splits)
  show m: "map_of (sc_buffers t) = (map_of (sc_buffers s))(a \<mapsto> appendToBuffer e b0)" "sc_flushed t = sc_flushed s"
    by (auto simp: t_def getOrCreateBuffer_def Let_def split: option.split)
  show "buffer_ok (appendToBuffer e b0)" "sb_timer (appendToBuffer e b0) = sb_timer b0"
    using append_tells(2,4)[OF b(2) assms(4)] by simp_all
  have st: "sent d t = sent d s" for d using m(2) by (simp add: sent_def)
  have p: "pend a t = sb_entries (appendToBuffer e b0)" "d \<noteq> a \<Longrightarrow> pend d t = pend d s" for d by (simp_all add: pend_def m(1))
  show "told c fs t" if "c \<noteq> a" "told c fs s" using that st p(2)[of c] by (simp add: told_def)
  have tell: "all_of event_chars (sent a s) @ all_of entry_chars (pend a s) = all_of event_chars es"
    "map_of (rev (all_of event_calls (sent a s) @ all_of entry_calls (pend a s))) = map_of (rev (all_of event_calls es))"
    using assms(1) by (simp_all add: told_def)
  have "map_of (rev (all_of event_calls (sent a s) @ all_of entry_calls (pend a t))) =
      map_of (rev (all_of event_calls (sent a s) @ all_of entry_calls (pend a s) @ event_calls e))"
    unfolding p(1) using append_tells(3)[OF b(2) assms(4)] b(1) by simp
  also have "\<dots> = map_of (rev (all_of event_calls es @ event_calls e))"
    using later_calls[OF tell(2), of "event_calls e"] by simp
  finally have "map_of (rev (all_of event_calls (sent a s) @ all_of entry_calls (pend a t))) =
      map_of (rev (all_of event_calls (es @ [e])))" by simp
  then show "told a (es @ [e]) t"
    using tell(1) append_tells(1)[OF b(2) assms(4)] b(1) by (simp add: told_def st p(1) append.assoc[symmetric] del: append.assoc)
qed

lemma handle_ok:
  assumes "buffers_ok s" "\<And>c. told c (ins c) s"
  shows "buffers_ok (snd (handle_stream w now a e s))"
    "told c (if c = a \<and> isCoalescableTimelineEvent e then ins c @ [e] else ins c) (snd (handle_stream w now a e s))"
proof -
  let ?t = "snd (handle_stream w now a e s)"
  have "buffers_ok ?t \<and> (\<forall>c. told c (if c = a \<and> isCoalescableTimelineEvent e then ins c @ [e] else ins c) ?t)"
  proof (cases "isCoalescableTimelineEvent e")
    case False
    then show ?thesis using assms by (simp add: handle_stream_def)
  next
    case co: True
    show ?thesis
    proof (cases "text_of (se_item e) = Some []")
      case True
      then have "event_chars e = []" "event_calls e = []" by (auto simp: event_chars_def event_calls_def split: timeline_item.split)
      then have "told c (ins c @ [e]) s \<longleftrightarrow> told c (ins c) s" for c by (simp add: told_def)
      then show ?thesis using True co assms by (simp add: handle_stream_def)
    next
      case False
      obtain b0 s1 where g: "getOrCreateBuffer a s = (b0, s1)" by (cases "getOrCreateBuffer a s")
      define b where "b = appendToBuffer e b0"
      define t where "t = put_buffer a b s1"
      have gt: "put_buffer a (appendToBuffer e (fst (getOrCreateBuffer a s))) (snd (getOrCreateBuffer a s)) = t"
        by (simp add: t_def b_def g)
      note p = told_put[OF assms(2)[of a] refl assms(1) co, unfolded gt] 
      have told: "told c (if c = a then ins c @ [e] else ins c) t" for c
        using p(1) p(2)[OF _ assms(2)[of c]] by auto
      have m: "map_of (sc_buffers t) = (map_of (sc_buffers s))(a \<mapsto> b)" using p(3) by (simp add: b_def g)
      have ok: "buffer_ok d \<and> (c \<noteq> a \<longrightarrow> timed d)" if "map_of (sc_buffers t) c = Some d" for c d
        using that assms(1) p(4) by (auto simp: m buffers_ok_def b_def g split: if_splits)
      have f: "buffers_ok (flushBuffer now a None t)" "told c es t \<Longrightarrow> told c es (flushBuffer now a None t)" for c es
        using flushBuffer_ok(1,2)[of t a None] ok by blast+
      have flush: ?thesis if "?t = flushBuffer now a None t"
        unfolding that using f(1) f(2)[OF told] co by auto
      show ?thesis
      proof (cases "isTerminalToolCall (se_item e) \<or>
          \<not> sb_timer b \<and> (case sb_lastFlushAt b of None \<Rightarrow> True | Some v \<Rightarrow> now - v \<ge> w)")
        case True
        then have "?t = flushBuffer now a None t"
          using co False g by (auto simp: handle_stream_def Let_def t_def b_def)
        then show ?thesis by (rule flush)
      next
        case tr: False
        define b' where "b' = b\<lparr>sb_timer := True\<rparr>"
        have t': "?t = (if sb_timer b then t else put_buffer a b' t)"
          using co False g tr by (auto simp: handle_stream_def Let_def t_def b_def b'_def)
        have b': "buffer_ok b'" "timed b'" "sb_entries b' = sb_entries b" "sb_timer b \<Longrightarrow> timed b"
          using p(4) by (auto simp: b'_def b_def g buffer_ok_def timed_def)
        have m': "map_of (sc_buffers ?t) = (map_of (sc_buffers s))(a \<mapsto> (if sb_timer b then b else b'))" by (simp add: t' m)
        have "buffers_ok ?t"
          using assms(1) ok[of a b] b' unfolding buffers_ok_def m' by (auto simp: m split: if_splits)
        moreover have "sent c ?t = sent c t" "pend c ?t = pend c t" for c
          using b'(3) by (simp_all add: t' pend_def m)
        then have "told c es ?t = told c es t" for c es by (simp add: told_def)
        ultimately show ?thesis using told co by simp
      qed
    qed
  qed
  then show "buffers_ok ?t" "told c (if c = a \<and> isCoalescableTimelineEvent e then ins c @ [e] else ins c) ?t" by auto
qed

section \<open>Every operation\<close>

lemma flush_ok:
  assumes "buffers_ok s"
  shows "buffers_ok (flushBuffer now a x s)" "told c es s \<Longrightarrow> told c es (flushBuffer now a x s)"
    "pend a (flushBuffer now a None s) = []" "c \<noteq> a \<Longrightarrow> pend c (flushBuffer now a x s) = pend c s"
proof -
  have b: "map_of (sc_buffers s) c = Some b \<Longrightarrow> buffer_ok b \<and> (c \<noteq> a \<longrightarrow> timed b)" for c b
    using assms by (auto simp: buffers_ok_def)
  have x: "x = None \<or> (\<forall>b. map_of (sc_buffers s) a = Some b \<longrightarrow> timed b)"
    using assms by (auto simp: buffers_ok_def)
  show "buffers_ok (flushBuffer now a x s)" by (rule flushBuffer_ok(1)) (use b x in blast)+
  show "told c es s \<Longrightarrow> told c es (flushBuffer now a x s)" by (rule flushBuffer_ok(2)) (use b x in blast)+
  show "pend a (flushBuffer now a None s) = []" by (rule flushBuffer_ok(3)) (use b in blast)+
  show "c \<noteq> a \<Longrightarrow> pend c (flushBuffer now a x s) = pend c s" by (rule flushBuffer_ok(4)) (use b x in blast)+
qed

lemma flushAll_ok:
  assumes "buffers_ok s"
  shows "buffers_ok (flushAll now s)" "told c es s \<Longrightarrow> told c es (flushAll now s)" "pend c (flushAll now s) = []"
proof -
  have "buffers_ok (foldl (\<lambda>s a. flushBuffer now a None s) s as) \<and>
      (told c es s \<longrightarrow> told c es (foldl (\<lambda>s a. flushBuffer now a None s) s as)) \<and>
      (c \<in> set as \<or> pend c s = [] \<longrightarrow> pend c (foldl (\<lambda>s a. flushBuffer now a None s) s as) = [])" for as
    using assms
  proof (induction as arbitrary: s)
    case (Cons a as)
    note f = flush_ok(1,2)[OF Cons.prems, where now = now and a = a and x = None] flush_ok(3)[OF Cons.prems, where now = now and a = a]
      flush_ok(4)[OF Cons.prems, where now = now and a = a and x = None]
    have "c = a \<or> pend c s = [] \<Longrightarrow> pend c (flushBuffer now a None s) = []" using f(3) f(4)[of c] by (cases "c = a") auto
    then show ?case using Cons.IH[OF f(1)] f(2) by auto
  qed simp
  from this[of "map fst (sc_buffers s)"]
  have a: "buffers_ok (flushAll now s)" "told c es s \<longrightarrow> told c es (flushAll now s)"
    "c \<in> fst ` set (sc_buffers s) \<or> pend c s = [] \<longrightarrow> pend c (flushAll now s) = []"
    by (simp_all add: flushAll_def)
  then show "buffers_ok (flushAll now s)" "told c es s \<Longrightarrow> told c es (flushAll now s)" by simp_all
  have "c \<in> fst ` set (sc_buffers s) \<or> pend c s = []"
    using map_of_eq_None_iff[of "sc_buffers s" c] by (cases "map_of (sc_buffers s) c") (simp_all add: pend_def)
  then show "pend c (flushAll now s) = []" using a(3) by blast
qed

lemma discard_ok:
  assumes "buffers_ok s"
  shows "buffers_ok (flushAndDiscard now a s)" "told c es s \<Longrightarrow> told c es (flushAndDiscard now a s)"
proof -
  let ?f = "flushBuffer now a None s"
  note f = flush_ok(1,2)[OF assms, where now = now and a = a and x = None] flush_ok(3)[OF assms, where now = now and a = a]
      flush_ok(4)[OF assms, where now = now and a = a and x = None]
  show "buffers_ok (flushAndDiscard now a s)"
    using f(1) by (auto simp: flushAndDiscard_def Let_def buffers_ok_def map_of_delete split: if_splits)
  have "sent c (flushAndDiscard now a s) = sent c ?f" "pend c (flushAndDiscard now a s) = pend c ?f"
    using f(3) by (auto simp: flushAndDiscard_def Let_def sent_def pend_def map_of_delete)
  then show "told c es s \<Longrightarrow> told c es (flushAndDiscard now a s)" using f(2)[of c es] by (simp add: told_def)
qed

text \<open>The events of an agent among the operations.\<close>

fun handled :: "string \<Rightarrow> stream_op list \<Rightarrow> stream_event list" where
  "handled c [] = []"
| "handled c (Handle_event a e now # ops) =
     (if c = a \<and> isCoalescableTimelineEvent e then e # handled c ops else handled c ops)"
| "handled c (_ # ops) = handled c ops"

lemma handled_snoc: "handled c (ops @ [x]) = handled c ops @ handled c [x]"
  by (induction c ops rule: handled.induct) auto

lemma stream_run_ok: "buffers_ok (stream_run w ops) \<and> (\<forall>c. told c (handled c ops) (stream_run w ops))"
proof (induction ops rule: rev_induct)
  case Nil
  then show ?case by (simp add: stream_run_def empty_coalescer_def buffers_ok_def told_def sent_def pend_def)
next
  case (snoc x ops)
  let ?s = "stream_run w ops"
  have r: "stream_run w (ops @ [y]) = stream_step w y ?s" for y by (simp add: stream_run_def)
  have s: "buffers_ok ?s" "\<And>c. told c (handled c ops) ?s" using snoc.IH by auto
  have h: "handled c (ops @ [y]) = handled c ops @ handled c [y]" for c y by (rule handled_snoc)
  show ?case
  proof (cases x)
    case (Handle_event a e now)
    have "handled c (ops @ [x]) = (if c = a \<and> isCoalescableTimelineEvent e then handled c ops @ [e] else handled c ops)" for c
      by (simp add: h Handle_event)
    then show ?thesis using handle_ok[where ins = "\<lambda>c. handled c ops", OF s, where w = w and now = now and a = a and e = e] by (simp add: r Handle_event)
  qed (use s flush_ok[OF s(1)] flushAll_ok[OF s(1)] discard_ok[OF s(1)] in \<open>simp_all add: r h\<close>)
qed

text \<open>C8. Coalescing loses nothing and invents nothing. After any operations, at any times, for each agent:
  the characters of the delivered texts followed by those that wait are the characters handled, in
  the same order and each in the stream (kind, message, provider, turn) it came in; the last event
  of each tool call among the delivered and waiting ones is the last one handled; whatever waits
  has a timer; and after a flush of all nothing waits.\<close>

theorem coalescing_loses_nothing:
  "let s = stream_run w ops in
   all_of event_chars (sent a s) @ all_of entry_chars (pend a s) = all_of event_chars (handled a ops) \<and>
   map_of (rev (all_of event_calls (sent a s) @ all_of entry_calls (pend a s))) = map_of (rev (all_of event_calls (handled a ops))) \<and>
   (case map_of (sc_buffers s) a of None \<Rightarrow> True | Some b \<Rightarrow> sb_entries b = [] \<or> sb_timer b) \<and>
   pend a (flushAll now s) = []"
  using stream_run_ok[of w ops] flushAll_ok(3)[of "stream_run w ops"]
  by (auto simp: Let_def told_def buffers_ok_def timed_def split: option.split)

section \<open>Terminals\<close>

fun terminal_input :: "terminal_op list \<Rightarrow> string" where
  "terminal_input [] = []"
| "terminal_input (Handle_output data now # ops) = data @ terminal_input ops"
| "terminal_input (_ # ops) = terminal_input ops"

lemma terminal_input_snoc: "terminal_input (ops @ [x]) = terminal_input ops @ terminal_input [x]"
  by (induction ops rule: terminal_input.induct) auto

definition terminal_ok :: "string \<Rightarrow> terminal_coalescer \<Rightarrow> bool" where
  "terminal_ok inp s \<longleftrightarrow>
     concat (map tf_payload (tm_flushed s)) @ concat (tm_chunks s) = inp \<and>
     tm_bytes s = utf8_length (concat (tm_chunks s)) \<and> tm_chars s = length (concat (tm_chunks s)) \<and>
     (\<forall>f \<in> set (tm_flushed s). tf_payload f \<noteq> [] \<and> tf_bytes f = utf8_length (tf_payload f) \<and> tf_chars f = length (tf_payload f)) \<and>
     (\<forall>c \<in> set (tm_chunks s). c \<noteq> [])"

lemma utf8_append: "utf8_length (a @ b) = utf8_length a + utf8_length b"
  by (simp add: utf8_length_def)

lemma flush_terminal_ok:
  "terminal_ok inp s \<Longrightarrow> terminal_ok inp (flush_terminal now s) \<and> tm_chunks (flush_terminal now s) = []"
  by (auto simp: terminal_ok_def flush_terminal_def clearPending_def Let_def utf8_length_def)

lemma handle_terminal_ok:
  assumes "terminal_ok inp s" "tm_chunks s = [] \<or> tm_timer s"
  shows "terminal_ok (inp @ data) (handle_terminal w now data s) \<and>
    (tm_chunks (handle_terminal w now data s) = [] \<or> tm_timer (handle_terminal w now data s))"
proof (cases "data = []")
  case True
  then show ?thesis using assms by (simp add: handle_terminal_def)
next
  case False
  define t where "t = s\<lparr>tm_chunks := tm_chunks s @ [data], tm_bytes := tm_bytes s + utf8_length data, tm_chars := tm_chars s + length data\<rparr>"
  have t: "terminal_ok (inp @ data) t" using assms(1) False by (auto simp: terminal_ok_def utf8_append t_def)
  have "terminal_ok (inp @ data) (t\<lparr>tm_timer := True\<rparr>)" using t by (simp add: terminal_ok_def)
  moreover have "handle_terminal w now data s = t \<and> tm_timer t \<or> handle_terminal w now data s = flush_terminal now t \<or>
      handle_terminal w now data s = t\<lparr>tm_timer := True\<rparr>"
    using False unfolding handle_terminal_def Let_def t_def[symmetric] by simp
  ultimately show ?thesis using t flush_terminal_ok[OF t, of now] by auto
qed

lemma terminal_run_ok: "terminal_ok (terminal_input ops) (terminal_run w ops) \<and> (tm_chunks (terminal_run w ops) = [] \<or> tm_timer (terminal_run w ops))"
proof (induction ops rule: rev_induct)
  case Nil
  then show ?case by (simp add: terminal_run_def empty_terminal_def terminal_ok_def utf8_length_def)
next
  case (snoc x ops)
  let ?s = "terminal_run w ops"
  have r: "terminal_run w (ops @ [y]) = terminal_step w y ?s" for y by (simp add: terminal_run_def)
  show ?case
  proof (cases x)
    case (Handle_output data now)
    then show ?thesis
      using handle_terminal_ok[OF conjunct1[OF snoc.IH] conjunct2[OF snoc.IH], where w = w and now = now and data = data] unfolding r terminal_input_snoc by simp
  next
    case (Mark_flushed now)
    then show ?thesis using snoc.IH unfolding r terminal_input_snoc by (simp add: markFlushed_def terminal_ok_def)
  qed (use snoc.IH flush_terminal_ok in \<open>auto simp: r terminal_input_snoc\<close>)
qed

text \<open>The frames of a terminal are its output: their payloads followed by the chunks that wait are the
  data handled, no frame is empty, each carries the bytes and characters of its payload, and chunks
  that wait have a timer.\<close>

theorem terminal_frames_are_the_output:
  "let s = terminal_run w ops in
   concat (map tf_payload (tm_flushed s)) @ concat (tm_chunks s) = terminal_input ops \<and>
   list_all (\<lambda>f. tf_payload f \<noteq> [] \<and> tf_bytes f = utf8_length (tf_payload f) \<and> tf_chars f = length (tf_payload f)) (tm_flushed s) \<and>
   (tm_chunks s = [] \<or> tm_timer s)"
  using terminal_run_ok[of ops w] by (auto simp: Let_def terminal_ok_def list_all_iff)

end
