(* ===== verification/Service_Ports.thy ===== *)
theory Service_Ports
  imports Orqara_Prelude
begin

text \<open>
  The ports of the services of workspaces (\<open>server/src/server/workspace-service-port-registry.ts\<close>): a
  plan per workspace from script names to ports, kept apart between workspaces by the owners of the
  ports that were allocated. Allocation waits, so other calls come in between: a call is a job whose
  state says what it waits for. Plans are objects that jobs hold references to, so they live in a
  heap. A port is an integer; which one an allocation gives is up to the environment.
\<close>

section \<open>State\<close>

record port_service =
  sv_name :: string
  sv_port :: "int option"

type_synonym port_plan = "(string \<times> int) list"

record port_registry =
  pr_plans :: "(string \<times> nat) list"
  pr_heap :: "port_plan list"
  pr_pending :: "(string \<times> nat) list"
  pr_released :: "nat list"
  pr_owners :: "(int \<times> string) list"
  pr_byWorkspace :: "(string \<times> port_plan) list"

datatype port_error =
    Duplicate_port string int
  | Ports_exhausted string
  | Plan_released string
  | Service_missing string
  | Allocation_failed

definition empty_registry :: port_registry where
  "empty_registry =
     \<lparr>pr_plans = [], pr_heap = [], pr_pending = [], pr_released = [], pr_owners = [], pr_byWorkspace = []\<rparr>"

definition MAX_DYNAMIC_PORT_ALLOCATION_ATTEMPTS :: nat where
  "MAX_DYNAMIC_PORT_ALLOCATION_ATTEMPTS = 10"

definition toServiceOwner :: "string \<Rightarrow> string \<Rightarrow> string" where
  "toServiceOwner ws script = ws @ [CHR 0x00] @ script"

definition requirePlannedWorkspaceServicePort :: "port_plan \<Rightarrow> string \<Rightarrow> port_error + int" where
  "requirePlannedWorkspaceServicePort plan script =
     (case map_of plan script of Some port \<Rightarrow> Inr port | None \<Rightarrow> Inl (Service_missing script))"

section \<open>Dynamic ports\<close>

definition ports_at :: "port_registry \<Rightarrow> string \<Rightarrow> port_plan" where
  "ports_at r ws = (case map_of (pr_byWorkspace r) ws of Some ports \<Rightarrow> ports | None \<Rightarrow> [])"

definition reserveDynamicPort :: "string \<Rightarrow> string \<Rightarrow> int \<Rightarrow> port_registry \<Rightarrow> port_registry" where
  "reserveDynamicPort ws script port r =
     r\<lparr>pr_owners := AList.update port (toServiceOwner ws script) (pr_owners r),
       pr_byWorkspace := AList.update ws (AList.update script port (ports_at r ws)) (pr_byWorkspace r)\<rparr>"

definition releaseDynamicPort :: "string \<Rightarrow> string \<Rightarrow> int \<Rightarrow> port_registry \<Rightarrow> port_registry" where
  "releaseDynamicPort ws script port r0 =
     (let r = (if map_of (pr_owners r0) port = Some (toServiceOwner ws script)
               then r0\<lparr>pr_owners := AList.delete port (pr_owners r0)\<rparr> else r0) in
      case map_of (pr_byWorkspace r) ws of
        None \<Rightarrow> r
      | Some ports \<Rightarrow>
          if map_of ports script = Some port
          then (let ports' = AList.delete script ports in
                r\<lparr>pr_byWorkspace := (if ports' = [] then AList.delete ws (pr_byWorkspace r)
                                     else AList.update ws ports' (pr_byWorkspace r))\<rparr>)
          else r)"

definition releaseWorkspaceServicePortPlan :: "string \<Rightarrow> port_registry \<Rightarrow> port_registry" where
  "releaseWorkspaceServicePortPlan ws r0 =
     (let r1 = (case map_of (pr_pending r0) ws of
                  Some token \<Rightarrow> r0\<lparr>pr_released := token # pr_released r0\<rparr> | None \<Rightarrow> r0);
          r = r1\<lparr>pr_plans := AList.delete ws (pr_plans r1)\<rparr> in
      case map_of (pr_byWorkspace r) ws of
        None \<Rightarrow> r
      | Some ports \<Rightarrow>
          (let r' = foldl (\<lambda>q (script, port). releaseDynamicPort ws script port q) r ports in
           r'\<lparr>pr_byWorkspace := AList.delete ws (pr_byWorkspace r')\<rparr>))"

section \<open>Resolving the port of a service\<close>

text \<open>An allocation under way: the attempt, the ports reserved by the plan, and the ports the allocator
  is told to avoid.\<close>

datatype port_stage =
    Allocating nat "int list" "int list"
  | Resolved int
  | Rejected port_error

definition unavailable_ports :: "string \<Rightarrow> port_service \<Rightarrow> int list \<Rightarrow> port_registry \<Rightarrow> int list" where
  "unavailable_ports ws svc reserved r =
     reserved @ map fst (filter (\<lambda>(port, owner). owner \<noteq> toServiceOwner ws (sv_name svc)) (pr_owners r))"

definition attempt_port :: "string \<Rightarrow> port_service \<Rightarrow> int list \<Rightarrow> nat \<Rightarrow> port_registry \<Rightarrow> port_stage" where
  "attempt_port ws svc reserved attempt r =
     (if attempt < MAX_DYNAMIC_PORT_ALLOCATION_ATTEMPTS
      then Allocating attempt reserved (unavailable_ports ws svc reserved r)
      else Rejected (Ports_exhausted (sv_name svc)))"

definition resolveServicePort :: "string \<Rightarrow> port_service \<Rightarrow> int list \<Rightarrow> port_registry \<Rightarrow> port_stage" where
  "resolveServicePort ws svc reserved r =
     (case sv_port svc of
        Some port \<Rightarrow> if port \<in> set reserved then Rejected (Duplicate_port (sv_name svc) port) else Resolved port
      | None \<Rightarrow> attempt_port ws svc reserved 0 r)"

text \<open>The allocator gives a port, or throws.\<close>

definition port_allocated ::
    "string \<Rightarrow> port_service \<Rightarrow> port_error + int \<Rightarrow> port_stage \<Rightarrow> port_registry \<Rightarrow> port_stage \<times> port_registry" where
  "port_allocated ws svc result stage r =
     (case stage of
        Allocating attempt reserved avoid \<Rightarrow>
          (case result of
             Inl e \<Rightarrow> (Rejected e, r)
           | Inr port \<Rightarrow>
               if port \<in> set reserved then (attempt_port ws svc reserved (Suc attempt) r, r)
               else if map_of (pr_owners r) port \<noteq> None \<and> map_of (pr_owners r) port \<noteq> Some (toServiceOwner ws (sv_name svc))
               then (attempt_port ws svc reserved (Suc attempt) r, r)
               else (Resolved port, reserveDynamicPort ws (sv_name svc) port r))
      | _ \<Rightarrow> (stage, r))"

section \<open>Plans\<close>

datatype port_result = Plan_result port_plan | Port_result int

datatype port_job =
    Building string nat "port_service list" "int list" port_plan port_service port_stage
  | Built string nat "port_error + port_plan"
  | Refreshing string port_service nat "int option" port_stage
  | Job_done "port_error + port_result"

text \<open>The first loop of \<open>buildWorkspaceServicePortPlan\<close>: the explicit ports, each of one service.\<close>

fun explicit_ports :: "port_service list \<Rightarrow> int list \<Rightarrow> port_error + int list" where
  "explicit_ports [] ports = Inr ports"
| "explicit_ports (svc # rest) ports =
     (case sv_port svc of
        None \<Rightarrow> explicit_ports rest ports
      | Some port \<Rightarrow>
          if port \<in> set ports then Inl (Duplicate_port (sv_name svc) port)
          else explicit_ports rest (ports @ [port]))"

text \<open>The second loop, up to the next allocation.\<close>

fun build_on :: "string \<Rightarrow> nat \<Rightarrow> port_service list \<Rightarrow> int list \<Rightarrow> port_plan \<Rightarrow> port_registry \<Rightarrow> port_job" where
  "build_on ws token [] explicit plan r = Built ws token (Inr plan)"
| "build_on ws token (svc # rest) explicit plan r =
     (case sv_port svc of
        Some port \<Rightarrow> build_on ws token rest explicit (AList.update (sv_name svc) port plan) r
      | None \<Rightarrow>
          Building ws token rest explicit plan svc (resolveServicePort ws svc (explicit @ map snd plan) r))"

definition buildWorkspaceServicePortPlan :: "string \<Rightarrow> nat \<Rightarrow> port_service list \<Rightarrow> port_registry \<Rightarrow> port_job" where
  "buildWorkspaceServicePortPlan ws token services r =
     (case explicit_ports services [] of
        Inl e \<Rightarrow> Built ws token (Inl e)
      | Inr explicit \<Rightarrow> build_on ws token services explicit [] r)"

text \<open>The end of \<open>createPendingWorkspaceServicePortPlan\<close>, with its \<open>catch\<close> and \<open>finally\<close>.\<close>

definition createPendingWorkspaceServicePortPlan ::
    "string \<Rightarrow> nat \<Rightarrow> port_error + port_plan \<Rightarrow> port_registry \<Rightarrow> port_job \<times> port_registry" where
  "createPendingWorkspaceServicePortPlan ws token result r0 =
     (let (outcome, r) =
        (case result of
           Inl e \<Rightarrow> (Inl e, releaseWorkspaceServicePortPlan ws r0)
         | Inr plan \<Rightarrow>
             if token \<in> set (pr_released r0)
             then (Inl (Plan_released ws), releaseWorkspaceServicePortPlan ws r0)
             else (Inr (Plan_result plan),
                   r0\<lparr>pr_heap := pr_heap r0 @ [plan], pr_plans := AList.update ws (length (pr_heap r0)) (pr_plans r0)\<rparr>))
      in (Job_done outcome, r\<lparr>pr_pending := AList.delete ws (pr_pending r)\<rparr>))"

text \<open>A refresh up to its first await, and its end. It holds on to the plan it found, or to a new one
  that is no workspace's plan yet.\<close>

definition refreshWorkspaceServicePort :: "string \<Rightarrow> port_service \<Rightarrow> port_registry \<Rightarrow> port_job \<times> port_registry" where
  "refreshWorkspaceServicePort ws svc r0 =
     (let (ref, r) = (case map_of (pr_plans r0) ws of
                        Some ref \<Rightarrow> (ref, r0)
                      | None \<Rightarrow> (length (pr_heap r0), r0\<lparr>pr_heap := pr_heap r0 @ [[]]\<rparr>));
          plan = pr_heap r ! ref;
          reserved = (case map_of plan (sv_name svc) of
                        Some p \<Rightarrow> filter (\<lambda>q. q \<noteq> p) (map snd plan) | None \<Rightarrow> map snd plan);
          old = map_of (ports_at r ws) (sv_name svc)
      in (Refreshing ws svc ref old (resolveServicePort ws svc reserved r), r))"

definition finish_refresh :: "string \<Rightarrow> port_service \<Rightarrow> nat \<Rightarrow> int option \<Rightarrow> int \<Rightarrow> port_registry \<Rightarrow> port_job \<times> port_registry" where
  "finish_refresh ws svc ref old port r0 =
     (let r = (case old of
                 Some p \<Rightarrow> if p \<noteq> port then releaseDynamicPort ws (sv_name svc) p r0 else r0
               | None \<Rightarrow> r0)
      in (Job_done (Inr (Port_result port)),
          r\<lparr>pr_heap := (pr_heap r)[ref := AList.update (sv_name svc) port (pr_heap r ! ref)],
            pr_plans := AList.update ws ref (pr_plans r)\<rparr>))"

text \<open>A job goes on after its await; \<open>result\<close> is what an allocation gave.\<close>

fun resume_job :: "port_error + int \<Rightarrow> port_job \<Rightarrow> port_registry \<Rightarrow> port_job \<times> port_registry" where
  "resume_job result (Building ws token rest explicit plan svc stage) r =
     (case stage of
        Allocating n reserved avoid \<Rightarrow>
          (let (stage', r') = port_allocated ws svc result stage r in
           (Building ws token rest explicit plan svc stage', r'))
      | Resolved port \<Rightarrow> (build_on ws token rest explicit (AList.update (sv_name svc) port plan) r, r)
      | Rejected e \<Rightarrow> (Built ws token (Inl e), r))"
| "resume_job result (Built ws token outcome) r = createPendingWorkspaceServicePortPlan ws token outcome r"
| "resume_job result (Refreshing ws svc ref old stage) r =
     (case stage of
        Allocating n reserved avoid \<Rightarrow>
          (let (stage', r') = port_allocated ws svc result stage r in (Refreshing ws svc ref old stage', r'))
      | Resolved port \<Rightarrow> finish_refresh ws svc ref old port r
      | Rejected e \<Rightarrow> (Job_done (Inl e), r))"
| "resume_job result (Job_done x) r = (Job_done x, r)"

section \<open>Calls\<close>

record port_system =
  ps_registry :: port_registry
  ps_jobs :: "port_job list"

datatype port_event =
    Ensure_plan string "port_service list"
  | Refresh_port string port_service
  | Release_plan string
  | Resume nat "port_error + int"

text \<open>\<open>ensureWorkspaceServicePortPlan\<close>: a plan that is there is returned, one that is being built is
  waited for, and otherwise a job builds it. The token of a job is its number.\<close>

fun port_step :: "port_event \<Rightarrow> port_system \<Rightarrow> port_system" where
  "port_step (Ensure_plan ws services) s =
     (if map_of (pr_plans (ps_registry s)) ws \<noteq> None \<or> map_of (pr_pending (ps_registry s)) ws \<noteq> None then s
      else (let token = length (ps_jobs s) in
            s\<lparr>ps_registry := (ps_registry s)\<lparr>pr_pending := AList.update ws token (pr_pending (ps_registry s))\<rparr>,
              ps_jobs := ps_jobs s @ [buildWorkspaceServicePortPlan ws token services (ps_registry s)]\<rparr>))"
| "port_step (Refresh_port ws svc) s =
     (let (job, r) = refreshWorkspaceServicePort ws svc (ps_registry s) in
      s\<lparr>ps_registry := r, ps_jobs := ps_jobs s @ [job]\<rparr>)"
| "port_step (Release_plan ws) s = s\<lparr>ps_registry := releaseWorkspaceServicePortPlan ws (ps_registry s)\<rparr>"
| "port_step (Resume n result) s =
     (if n < length (ps_jobs s)
      then (let (job, r) = resume_job result (ps_jobs s ! n) (ps_registry s) in
            s\<lparr>ps_registry := r, ps_jobs := (ps_jobs s)[n := job]\<rparr>)
      else s)"

definition port_run :: "port_event list \<Rightarrow> port_system" where
  "port_run es = fold port_step es \<lparr>ps_registry = empty_registry, ps_jobs = []\<rparr>"

text \<open>The plan of a workspace.\<close>

definition plan_of :: "port_registry \<Rightarrow> string \<Rightarrow> port_plan option" where
  "plan_of r ws = map_option (\<lambda>ref. pr_heap r ! ref) (map_of (pr_plans r) ws)"

end
