(* ===== verification/Service_Ports_Spec.thy ===== *)
theory Service_Ports_Spec
  imports Service_Ports
begin

text \<open>
  What holds of the ports of services under every interleaving of calls, and what a release during a
  refresh breaks.
\<close>

section \<open>One service for each port\<close>

definition no_nul :: "string \<Rightarrow> bool" where
  "no_nul s \<longleftrightarrow> CHR 0x00 \<notin> set s"

lemma owner_inj:
  assumes "toServiceOwner a s = toServiceOwner b t" "no_nul a" "no_nul b"
  shows "a = b \<and> s = t"
  using append_Cons_first[of "CHR 0x00" a b s t] assms by (simp add: toServiceOwner_def no_nul_def)

text \<open>The dynamic port a service holds.\<close>

definition held :: "port_registry \<Rightarrow> string \<Rightarrow> string \<Rightarrow> int option" where
  "held r ws script = map_of (ports_at r ws) script"

definition ports_owned :: "port_registry \<Rightarrow> bool" where
  "ports_owned r \<longleftrightarrow>
     (\<forall>ws script port. held r ws script = Some port \<longrightarrow>
        no_nul ws \<and> map_of (pr_owners r) port = Some (toServiceOwner ws script))"

lemma ports_ownedD: "ports_owned r \<Longrightarrow> held r ws script = Some port \<Longrightarrow> no_nul ws \<and> map_of (pr_owners r) port = Some (toServiceOwner ws script)"
  by (simp add: ports_owned_def)

lemma reserve_owned:
  assumes "ports_owned r" "no_nul ws" "map_of (pr_owners r) port = None \<or> map_of (pr_owners r) port = Some (toServiceOwner ws script)"
  shows "ports_owned (reserveDynamicPort ws script port r)"
  unfolding ports_owned_def
proof (intro allI impI)
  fix w s p assume h: "held (reserveDynamicPort ws script port r) w s = Some p"
  have "held (reserveDynamicPort ws script port r) w s = (if w = ws \<and> s = script then Some port else held r w s)"
    by (simp add: held_def ports_at_def reserveDynamicPort_def map_of_update)
  then show "no_nul w \<and> map_of (pr_owners (reserveDynamicPort ws script port r)) p = Some (toServiceOwner w s)"
    using h ports_ownedD[OF assms(1), of w s p] assms(2,3)
    by (auto simp: reserveDynamicPort_def map_of_update split: if_splits)
qed

lemma release_held:
  "held (releaseDynamicPort ws script port r) w s =
     (if w = ws \<and> s = script \<and> held r w s = Some port then None else held r w s)"
proof -
  have e: "ports_at (releaseDynamicPort ws script port r) w =
      (if w = ws \<and> map_of (ports_at r ws) script = Some port then AList.delete script (ports_at r ws) else ports_at r w)"
    by (auto simp: releaseDynamicPort_def ports_at_def Let_def map_of_update map_of_delete split: option.split)
  show ?thesis by (auto simp: held_def e map_of_delete)
qed

lemma release_owners:
  "map_of (pr_owners (releaseDynamicPort ws script port r)) p =
     (if p = port \<and> map_of (pr_owners r) port = Some (toServiceOwner ws script) then None else map_of (pr_owners r) p)"
  by (auto simp: releaseDynamicPort_def Let_def map_of_delete split: option.split)

lemma release_owned:
  assumes "ports_owned r" "no_nul ws"
  shows "ports_owned (releaseDynamicPort ws script port r)"
  unfolding ports_owned_def
proof (intro allI impI)
  fix w s p assume h: "held (releaseDynamicPort ws script port r) w s = Some p"
  then have r: "held r w s = Some p" by (auto simp: release_held split: if_splits)
  note o = ports_ownedD[OF assms(1) r]
  have "\<not> (p = port \<and> map_of (pr_owners r) port = Some (toServiceOwner ws script))"
  proof
    assume p: "p = port \<and> map_of (pr_owners r) port = Some (toServiceOwner ws script)"
    then have "toServiceOwner w s = toServiceOwner ws script" using o by simp
    from owner_inj[OF this] have "w = ws \<and> s = script" using o assms(2) by blast
    then show False using h r p by (simp add: release_held)
  qed
  then show "no_nul w \<and> map_of (pr_owners (releaseDynamicPort ws script port r)) p = Some (toServiceOwner w s)"
    using o by (auto simp: release_owners)
qed

lemma release_fold_owned:
  "ports_owned r \<Longrightarrow> no_nul ws \<Longrightarrow> ports_owned (foldl (\<lambda>q (script, port). releaseDynamicPort ws script port q) r ports)"
  by (induction ports arbitrary: r) (auto intro: release_owned)

lemma ports_owned_same:
  "ports_owned r \<Longrightarrow> pr_owners q = pr_owners r \<Longrightarrow> (\<And>ws s p. held q ws s = Some p \<Longrightarrow> held r ws s = Some p) \<Longrightarrow> ports_owned q"
  unfolding ports_owned_def by metis

lemma releasePlan_owned:
  assumes "ports_owned r" "no_nul ws"
  shows "ports_owned (releaseWorkspaceServicePortPlan ws r)"
proof -
  define r1 where "r1 = (case map_of (pr_pending r) ws of Some token \<Rightarrow> r\<lparr>pr_released := token # pr_released r\<rparr> | None \<Rightarrow> r)"
  define r2 where "r2 = r1\<lparr>pr_plans := AList.delete ws (pr_plans r1)\<rparr>"
  have o: "ports_owned r2"
    by (rule ports_owned_same[OF assms(1)]) (auto simp: r2_def r1_def held_def ports_at_def split: option.splits)
  show ?thesis
  proof (cases "map_of (pr_byWorkspace r2) ws")
    case None
    then have "releaseWorkspaceServicePortPlan ws r = r2"
      unfolding releaseWorkspaceServicePortPlan_def Let_def r1_def[symmetric] r2_def[symmetric] by simp
    then show ?thesis using o by simp
  next
    case (Some ports)
    define r3 where "r3 = foldl (\<lambda>q (script, port). releaseDynamicPort ws script port q) r2 ports"
    have "releaseWorkspaceServicePortPlan ws r = r3\<lparr>pr_byWorkspace := AList.delete ws (pr_byWorkspace r3)\<rparr>"
      using Some unfolding releaseWorkspaceServicePortPlan_def Let_def r1_def[symmetric] r2_def[symmetric] r3_def by simp
    moreover have "ports_owned r3" unfolding r3_def by (rule release_fold_owned[OF o assms(2)])
    then have "ports_owned (r3\<lparr>pr_byWorkspace := AList.delete ws (pr_byWorkspace r3)\<rparr>)"
      by (rule ports_owned_same) (auto simp: held_def ports_at_def map_of_delete split: if_splits)
    ultimately show ?thesis by simp
  qed
qed

section \<open>Every call keeps it\<close>

fun job_ws :: "port_job \<Rightarrow> string option" where
  "job_ws (Building ws token rest explicit plan svc stage) = Some ws"
| "job_ws (Built ws token outcome) = Some ws"
| "job_ws (Refreshing ws svc ref old stage) = Some ws"
| "job_ws (Job_done x) = None"

fun event_ws :: "port_event \<Rightarrow> string option" where
  "event_ws (Ensure_plan ws services) = Some ws"
| "event_ws (Refresh_port ws svc) = Some ws"
| "event_ws (Release_plan ws) = Some ws"
| "event_ws (Resume n result) = None"

definition job_named :: "port_job \<Rightarrow> bool" where
  "job_named j \<longleftrightarrow> (\<forall>ws. job_ws j = Some ws \<longrightarrow> no_nul ws)"

lemma held_simps [simp]:
  "held (r\<lparr>pr_plans := x\<rparr>) ws s = held r ws s" "held (r\<lparr>pr_heap := y\<rparr>) ws s = held r ws s" "held (r\<lparr>pr_pending := z\<rparr>) ws s = held r ws s"
  by (simp_all add: held_def ports_at_def)

lemma owned_simps [simp]:
  "ports_owned (r\<lparr>pr_plans := x\<rparr>) = ports_owned r" "ports_owned (r\<lparr>pr_heap := y\<rparr>) = ports_owned r"
  "ports_owned (r\<lparr>pr_pending := z\<rparr>) = ports_owned r"
  by (simp_all add: ports_owned_def)

lemma allocated_owned:
  assumes "ports_owned r" "no_nul ws" "port_allocated ws svc result stage r = (stage', r')"
  shows "ports_owned r'"
proof -
  have "r' = r \<or> (\<exists>port. (map_of (pr_owners r) port = None \<or> map_of (pr_owners r) port = Some (toServiceOwner ws (sv_name svc))) \<and>
      r' = reserveDynamicPort ws (sv_name svc) port r)"
    using assms(3) by (auto simp: port_allocated_def split: port_stage.splits sum.splits if_splits)
  then show ?thesis using assms(1) reserve_owned[OF assms(1,2)] by auto
qed

lemma build_on_ws: "job_ws (build_on ws token rest explicit plan r) = Some ws"
  by (induction ws token rest explicit plan r rule: build_on.induct) (auto split: option.split)

lemma pending_owned:
  assumes "ports_owned r" "no_nul ws" "createPendingWorkspaceServicePortPlan ws token outcome r = (j', r')"
  shows "ports_owned r' \<and> job_named j'"
  using assms releasePlan_owned[OF assms(1,2)]
  by (auto simp: createPendingWorkspaceServicePortPlan_def job_named_def Let_def split: sum.splits if_splits)

lemma finish_owned:
  assumes "ports_owned r" "no_nul ws" "finish_refresh ws svc ref old port r = (j', r')"
  shows "ports_owned r' \<and> job_named j'"
  using assms release_owned[OF assms(1,2)]
  by (auto simp: finish_refresh_def job_named_def Let_def split: option.splits if_splits)

lemma resume_owned:
  assumes "ports_owned r" "job_named j" "resume_job result j r = (j', r')"
  shows "ports_owned r' \<and> job_named j'"
proof (cases j)
  case (Building ws token rest explicit plan svc stage)
  have ws: "no_nul ws" using assms(2) by (simp add: job_named_def Building)
  show ?thesis
  proof (cases stage)
    case (Allocating n reserved avoid)
    obtain st q where q: "port_allocated ws svc result stage r = (st, q)" by (cases "port_allocated ws svc result stage r")
    then have "j' = Building ws token rest explicit plan svc st" "r' = q" using assms(3) by (simp_all add: Building Allocating)
    then show ?thesis using allocated_owned[OF assms(1) ws q] ws by (simp add: job_named_def)
  qed (use assms ws in \<open>auto simp: Building job_named_def build_on_ws\<close>)
next
  case (Built ws token outcome)
  then show ?thesis using pending_owned[OF assms(1)] assms(2,3) by (simp add: job_named_def)
next
  case (Refreshing ws svc ref old stage)
  have ws: "no_nul ws" using assms(2) by (simp add: job_named_def Refreshing)
  show ?thesis
  proof (cases stage)
    case (Allocating n reserved avoid)
    obtain st q where q: "port_allocated ws svc result stage r = (st, q)" by (cases "port_allocated ws svc result stage r")
    then have "j' = Refreshing ws svc ref old st" "r' = q" using assms(3) by (simp_all add: Refreshing Allocating)
    then show ?thesis using allocated_owned[OF assms(1) ws q] ws by (simp add: job_named_def)
  next
    case (Resolved port)
    then show ?thesis using finish_owned[OF assms(1) ws] assms(3) by (simp add: Refreshing)
  qed (use assms ws in \<open>auto simp: Refreshing job_named_def\<close>)
qed (use assms in \<open>auto simp: job_named_def\<close>)

lemma step_owned:
  assumes "ports_owned (ps_registry s)" "list_all job_named (ps_jobs s)" "\<And>ws. event_ws e = Some ws \<Longrightarrow> no_nul ws"
  shows "ports_owned (ps_registry (port_step e s)) \<and> list_all job_named (ps_jobs (port_step e s))"
proof (cases e)
  case (Ensure_plan ws services)
  have "job_named (buildWorkspaceServicePortPlan ws token services r)" for token r
    using assms(3) by (auto simp: Ensure_plan buildWorkspaceServicePortPlan_def job_named_def build_on_ws split: sum.split)
  then show ?thesis using assms(1,2) by (simp add: Ensure_plan Let_def)
next
  case (Refresh_port ws svc)
  obtain j r where j: "refreshWorkspaceServicePort ws svc (ps_registry s) = (j, r)" by (cases "refreshWorkspaceServicePort ws svc (ps_registry s)")
  then have "ports_owned r" "job_ws j = Some ws"
    using assms(1) by (auto simp: refreshWorkspaceServicePort_def Let_def split: option.splits)
  then show ?thesis using assms(2,3) j by (simp add: Refresh_port job_named_def)
next
  case (Release_plan ws)
  then show ?thesis using assms releasePlan_owned by simp
next
  case (Resume n result)
  show ?thesis
  proof (cases "n < length (ps_jobs s)")
    case True
    obtain j r where j: "resume_job result (ps_jobs s ! n) (ps_registry s) = (j, r)"
      by (cases "resume_job result (ps_jobs s ! n) (ps_registry s)")
    have "job_named (ps_jobs s ! n)" using assms(2) True by (simp add: list_all_length)
    from resume_owned[OF assms(1) this j] show ?thesis
      using assms(2) True j by (auto simp: Resume list_all_length nth_list_update)
  qed (use assms Resume in simp)
qed

lemma run_owned:
  "(\<And>e ws. e \<in> set es \<Longrightarrow> event_ws e = Some ws \<Longrightarrow> no_nul ws) \<Longrightarrow>
   ports_owned (ps_registry (port_run es)) \<and> list_all job_named (ps_jobs (port_run es))"
proof (induction es rule: rev_induct)
  case Nil
  then show ?case by (simp add: port_run_def ports_owned_def held_def ports_at_def empty_registry_def)
next
  case (snoc e es)
  have "port_run (es @ [e]) = port_step e (port_run es)" by (simp add: port_run_def)
  then show ?case using step_owned[of "port_run es" e] snoc by fastforce
qed

text \<open>C11. No two services ever hold the same dynamic port, whatever their workspaces, and whatever calls
  come between the awaits of others and whatever ports the allocator gives: each port that a service
  holds is registered with that service as its owner. Workspace ids have no NUL characters.\<close>

theorem ports_have_one_service:
  assumes "\<forall>e \<in> set es. \<forall>ws. event_ws e = Some ws \<longrightarrow> no_nul ws"
    "map_of (ports_at (ps_registry (port_run es)) ws) script = Some port"
  shows "map_of (pr_owners (ps_registry (port_run es))) port = Some (toServiceOwner ws script) \<and>
    (\<forall>ws' script'. map_of (ports_at (ps_registry (port_run es)) ws') script' = Some port \<longrightarrow> ws' = ws \<and> script' = script)"
proof -
  have o: "ports_owned (ps_registry (port_run es))" using run_owned[of es] assms(1) by blast
  note d = ports_ownedD[OF o, unfolded held_def]
  show ?thesis using d[OF assms(2)] d owner_inj by (metis option.inject)
qed

theorem ports_have_one_service_witness:
  "\<exists>s. s = ps_registry (port_run [Ensure_plan ''w'' [\<lparr>sv_name = ''a'', sv_port = None\<rparr>], Ensure_plan ''v'' [\<lparr>sv_name = ''a'', sv_port = None\<rparr>],
       Resume 0 (Inr 7), Resume 1 (Inr 7), Resume 1 (Inr 8)]) \<and>
     map_of (pr_owners s) 7 = Some (toServiceOwner ''w'' ''a'') \<and> map_of (ports_at s ''v'') ''a'' = Some 8"
proof -
  let ?es = "[Ensure_plan ''w'' [\<lparr>sv_name = ''a'', sv_port = None\<rparr>], Ensure_plan ''v'' [\<lparr>sv_name = ''a'', sv_port = None\<rparr>],
       Resume 0 (Inr 7), Resume 1 (Inr 7), Resume 1 (Inr 8)]"
  have "\<forall>e \<in> set ?es. \<forall>ws. event_ws e = Some ws \<longrightarrow> no_nul ws" by (simp add: no_nul_def)
  moreover have "map_of (ports_at (ps_registry (port_run ?es)) ''w'') ''a'' = Some 7" by code_simp
  ultimately have "map_of (pr_owners (ps_registry (port_run ?es))) 7 = Some (toServiceOwner ''w'' ''a'')"
    using ports_have_one_service[of ?es "''w''" "''a''" 7] by blast
  moreover have "map_of (ports_at (ps_registry (port_run ?es)) ''v'') ''a'' = Some 8" by code_simp
  ultimately show ?thesis by blast
qed

section \<open>What a plan says\<close>

lemma update_new: "k \<notin> fst ` set xs \<Longrightarrow> AList.update k v xs = xs @ [(k, v)]"
  by (induction xs) auto

text \<open>A plan for some of the services, where the explicit ports of all are known.\<close>

definition planned :: "port_service list \<Rightarrow> int list \<Rightarrow> port_plan \<Rightarrow> bool" where
  "planned pre explicit plan \<longleftrightarrow>
     map fst plan = map sv_name pre \<and> distinct (map snd plan) \<and>
     (\<forall>svc \<in> set pre. \<forall>p. sv_port svc = Some p \<longrightarrow> (sv_name svc, p) \<in> set plan) \<and>
     (\<forall>(n, p) \<in> set plan. p \<in> set explicit \<longrightarrow> (\<exists>svc \<in> set pre. sv_port svc = Some p))"

definition explicit_of :: "port_service list \<Rightarrow> int list" where
  "explicit_of services = List.map_filter sv_port services"

lemma explicit_of_simps [simp]:
  "explicit_of [] = []" "explicit_of (svc # rest) = (case sv_port svc of None \<Rightarrow> explicit_of rest | Some p \<Rightarrow> p # explicit_of rest)"
  "explicit_of (xs @ ys) = explicit_of xs @ explicit_of ys"
proof -
  show "explicit_of (xs @ ys) = explicit_of xs @ explicit_of ys" by (simp add: explicit_of_def List.map_filter_def)
qed (auto simp: explicit_of_def map_filter_simps split: option.split)

lemma in_explicit_of: "p \<in> set (explicit_of services) \<longleftrightarrow> (\<exists>svc \<in> set services. sv_port svc = Some p)"
  by (induction services) (auto split: option.split)

lemma explicit_ports_ok:
  "explicit_ports services ports = Inr explicit \<Longrightarrow> distinct ports \<Longrightarrow> explicit = ports @ explicit_of services \<and> distinct explicit"
  by (induction services ports rule: explicit_ports.induct) (auto split: option.splits if_splits)

definition building_ok :: "port_service list \<Rightarrow> port_job \<Rightarrow> bool" where
  "building_ok services j \<longleftrightarrow>
     (case j of
        Building ws token rest explicit plan svc stage \<Rightarrow>
          (\<exists>pre. services = pre @ svc # rest \<and> planned pre explicit plan) \<and>
          explicit = explicit_of services \<and> distinct explicit \<and> sv_port svc = None \<and>
          (case stage of
             Allocating n reserved avoid \<Rightarrow> set reserved = set explicit \<union> snd ` set plan
           | Resolved p \<Rightarrow> p \<notin> set explicit \<and> p \<notin> snd ` set plan
           | Rejected e \<Rightarrow> True)
      | Built ws token (Inr plan) \<Rightarrow> planned services (explicit_of services) plan
      | Job_done (Inr (Plan_result plan)) \<Rightarrow> planned services (explicit_of services) plan
      | Refreshing ws svc ref old stage \<Rightarrow> False
      | _ \<Rightarrow> True)"

lemma planned_snoc:
  assumes "planned pre explicit plan" "distinct (map sv_name (pre @ [svc]))" "p \<notin> snd ` set plan"
    "\<And>q. sv_port svc = Some q \<Longrightarrow> q = p" "p \<in> set explicit \<Longrightarrow> sv_port svc = Some p"
  shows "planned (pre @ [svc]) explicit (AList.update (sv_name svc) p plan)"
proof -
  have "fst ` set plan = sv_name ` set pre" using assms(1) by (metis list.set_map planned_def)
  then have u: "AList.update (sv_name svc) p plan = plan @ [(sv_name svc, p)]"
    using assms(2) by (intro update_new) auto
  have "map fst (plan @ [(sv_name svc, p)]) = map sv_name (pre @ [svc])" "distinct (map snd (plan @ [(sv_name svc, p)]))"
    using assms(1,3) by (simp_all add: planned_def)
  moreover have "(sv_name x, q) \<in> set (plan @ [(sv_name svc, p)])" if "x \<in> set (pre @ [svc])" "sv_port x = Some q" for x q
    using that assms(1,4) by (auto simp: planned_def)
  moreover have "\<exists>x \<in> set (pre @ [svc]). sv_port x = Some q"
    if "(n, q) \<in> set (plan @ [(sv_name svc, p)])" "q \<in> set explicit" for n q
  proof (cases "(n, q) \<in> set plan")
    case True
    then have "\<exists>x \<in> set pre. sv_port x = Some q" using assms(1) that(2) unfolding planned_def by blast
    then show ?thesis by auto
  next
    case False
    then show ?thesis using that assms(5) by auto
  qed
  ultimately show ?thesis unfolding planned_def u by blast
qed

lemma build_on_ok:
  assumes "distinct (map sv_name services)" "explicit = explicit_of services" "distinct explicit"
  shows "services = pre @ rest \<Longrightarrow> planned pre explicit plan \<Longrightarrow> building_ok services (build_on ws token rest explicit plan r)"
proof (induction rest arbitrary: pre plan)
  case Nil
  then show ?case using assms(2) by (simp add: building_ok_def)
next
  case (Cons svc rest)
  show ?case
  proof (cases "sv_port svc")
    case None
    have "building_ok services (Building ws token rest explicit plan svc (attempt_port ws svc (explicit @ map snd plan) 0 r))"
      using Cons.prems None assms(2,3)
      by (auto simp: building_ok_def attempt_port_def MAX_DYNAMIC_PORT_ALLOCATION_ATTEMPTS_def)
    then show ?thesis using None by (simp add: resolveServicePort_def)
  next
    case (Some p)
    have d: "distinct (explicit_of (pre @ svc # rest))" using assms(2,3) Cons.prems(1) by simp
    have "p \<in> set explicit" using assms(2) Cons.prems(1) Some by (simp add: in_explicit_of)
    then have "p \<notin> snd ` set plan"
      using Cons.prems(2) d Some in_explicit_of[of p pre] by (fastforce simp: planned_def)
    then have "planned (pre @ [svc]) explicit (AList.update (sv_name svc) p plan)"
      by (intro planned_snoc[OF Cons.prems(2)]) (use assms(1) Cons.prems(1) Some in auto)
    then show ?thesis using Cons.IH[of "pre @ [svc]"] Cons.prems(1) Some by simp
  qed
qed

lemma attempt_ok:
  "set reserved = set explicit \<union> snd ` set plan \<Longrightarrow>
   (case attempt_port ws svc reserved n r of
      Allocating m res avoid \<Rightarrow> set res = set explicit \<union> snd ` set plan
    | Resolved p \<Rightarrow> p \<notin> set explicit \<and> p \<notin> snd ` set plan
    | Rejected e \<Rightarrow> True)"
  by (simp add: attempt_port_def)

lemma resume_ok:
  assumes "distinct (map sv_name services)" "building_ok services j"
  shows "building_ok services (fst (resume_job result j r))"
proof (cases j)
  case (Building ws token rest explicit plan svc stage)
  note b = assms(2)[unfolded Building building_ok_def, simplified]
  show ?thesis
  proof (cases stage)
    case (Allocating n reserved avoid)
    obtain st q where q: "port_allocated ws svc result stage r = (st, q)" by (cases "port_allocated ws svc result stage r")
    have res: "set reserved = set explicit \<union> snd ` set plan" using b Allocating by simp
    have "case st of Allocating m res avoid \<Rightarrow> set res = set explicit \<union> snd ` set plan
        | Resolved p \<Rightarrow> p \<notin> set explicit \<and> p \<notin> snd ` set plan | Rejected e \<Rightarrow> True"
      using q attempt_ok[OF res] res
      by (auto simp: port_allocated_def Allocating split: sum.splits if_splits)
    then show ?thesis using b q Allocating by (cases st) (auto simp: Building building_ok_def)
  next
    case (Resolved p)
    obtain pre where pre: "services = pre @ svc # rest" "planned pre explicit plan" using b by blast
    have "planned (pre @ [svc]) explicit (AList.update (sv_name svc) p plan)"
      by (intro planned_snoc[OF pre(2)]) (use assms(1) pre(1) b Resolved in auto)
    then have "building_ok services (build_on ws token rest explicit (AList.update (sv_name svc) p plan) r)"
      by (intro build_on_ok[OF assms(1), of _ "pre @ [svc]"]) (use pre(1) b in auto)
    then show ?thesis by (simp add: Building Resolved)
  qed (simp add: Building building_ok_def)
next
  case (Built ws token outcome)
  then show ?thesis
    using assms(2)
    by (auto simp: building_ok_def createPendingWorkspaceServicePortPlan_def Let_def split: sum.splits if_splits)
qed (use assms(2) in \<open>auto simp: building_ok_def split: sum.splits port_result.splits\<close>)




end
