(* ===== verification/Agent_Runs.thy ===== *)
theory Agent_Runs
  imports Orqara_Prelude
begin

text \<open>
  The runs of agents and the events of their turns (\<open>agent/agent-run-state.ts\<close>). A run is an object
  with a promise that is resolved when the run settles; the state maps agents to runs, which live in
  a heap. A waiter is an object too; its turn stream gathers events and hands them to one reader,
  which waits when there are none.
\<close>

section \<open>Runs\<close>

datatype run_start = Start_pending | Start_started string | Start_failed string

datatype run_kind = Foreground run_start | Autonomous "string option"

record tracked_run =
  tr_token :: string
  tr_kind :: run_kind
  tr_settled :: bool

record run_state =
  rs_runs :: "(string \<times> nat) list"
  rs_objects :: "tracked_run list"

definition empty_runs :: run_state where
  "empty_runs = \<lparr>rs_runs = [], rs_objects = []\<rparr>"

definition run_of :: "run_state \<Rightarrow> string \<Rightarrow> tracked_run option" where
  "run_of s a = map_option (\<lambda>i. rs_objects s ! i) (map_of (rs_runs s) a)"

definition add_run :: "string \<Rightarrow> tracked_run \<Rightarrow> run_state \<Rightarrow> run_state" where
  "add_run a run s =
     s\<lparr>rs_objects := rs_objects s @ [run], rs_runs := AList.update a (length (rs_objects s)) (rs_runs s)\<rparr>"

definition createPendingForegroundRun :: "string \<Rightarrow> tracked_run" where
  "createPendingForegroundRun token = \<lparr>tr_token = token, tr_kind = Foreground Start_pending, tr_settled = False\<rparr>"

definition createPendingRun :: "string \<Rightarrow> string \<Rightarrow> run_state \<Rightarrow> run_state" where
  "createPendingRun token a s = add_run a (createPendingForegroundRun token) s"

definition getPendingRun :: "run_state \<Rightarrow> string \<Rightarrow> tracked_run option" where
  "getPendingRun s a =
     (case run_of s a of
        Some run \<Rightarrow> (case tr_kind run of Foreground st \<Rightarrow> Some run | Autonomous t \<Rightarrow> None)
      | None \<Rightarrow> None)"

definition hasPendingRun :: "run_state \<Rightarrow> string \<Rightarrow> bool" where
  "hasPendingRun s a = (getPendingRun s a \<noteq> None)"

definition getTurnId :: "run_state \<Rightarrow> string \<Rightarrow> string option" where
  "getTurnId s a =
     (case run_of s a of
        None \<Rightarrow> None
      | Some run \<Rightarrow>
          (case tr_kind run of
             Autonomous t \<Rightarrow> t
           | Foreground (Start_started t) \<Rightarrow> Some t
           | Foreground _ \<Rightarrow> None))"

definition trackAutonomousRun :: "string \<Rightarrow> string \<Rightarrow> string option \<Rightarrow> run_state \<Rightarrow> run_state" where
  "trackAutonomousRun token a turnId s =
     (if run_of s a \<noteq> None then s
      else add_run a \<lparr>tr_token = token, tr_kind = Autonomous turnId, tr_settled = False\<rparr> s)"

definition settleTrackedRun :: "nat \<Rightarrow> run_state \<Rightarrow> run_state" where
  "settleTrackedRun i s = s\<lparr>rs_objects := (rs_objects s)[i := (rs_objects s ! i)\<lparr>tr_settled := True\<rparr>]\<rparr>"

definition clearRun :: "string \<Rightarrow> nat \<Rightarrow> run_state \<Rightarrow> run_state" where
  "clearRun a i s = settleTrackedRun i (s\<lparr>rs_runs := AList.delete a (rs_runs s)\<rparr>)"

text \<open>Whether the end of a turn ends the run: a foreground run only its own turn, an autonomous run any
  turn unless both are known and differ.\<close>

definition ends_run :: "tracked_run \<Rightarrow> string option \<Rightarrow> bool" where
  "ends_run run turnId =
     (case tr_kind run of
        Foreground (Start_started t) \<Rightarrow> turnId = Some t
      | Foreground _ \<Rightarrow> False
      | Autonomous None \<Rightarrow> True
      | Autonomous (Some t) \<Rightarrow> turnId = None \<or> turnId = Some t)"

definition settleTerminalRun :: "string \<Rightarrow> string option \<Rightarrow> run_state \<Rightarrow> run_state" where
  "settleTerminalRun a turnId s =
     (case map_of (rs_runs s) a of
        None \<Rightarrow> s
      | Some i \<Rightarrow> if ends_run (rs_objects s ! i) turnId then clearRun a i s else s)"

definition settleForegroundRun :: "string \<Rightarrow> string \<Rightarrow> run_state \<Rightarrow> run_state" where
  "settleForegroundRun a token s =
     (case map_of (rs_runs s) a of
        None \<Rightarrow> s
      | Some i \<Rightarrow>
          (case tr_kind (rs_objects s ! i) of
             Foreground st \<Rightarrow> if tr_token (rs_objects s ! i) \<noteq> token then s else clearRun a i s
           | Autonomous t \<Rightarrow> s))"

definition clearAgentRun :: "string \<Rightarrow> run_state \<Rightarrow> run_state" where
  "clearAgentRun a s = (case map_of (rs_runs s) a of None \<Rightarrow> s | Some i \<Rightarrow> clearRun a i s)"

text \<open>The agent manager sets the start of a pending run it holds.\<close>

definition set_start :: "nat \<Rightarrow> run_start \<Rightarrow> run_state \<Rightarrow> run_state" where
  "set_start i st s = s\<lparr>rs_objects := (rs_objects s)[i := (rs_objects s ! i)\<lparr>tr_kind := Foreground st\<rparr>]\<rparr>"

section \<open>Turns that are over\<close>

definition rememberFinalizedTurn :: "string \<Rightarrow> string list \<Rightarrow> string list" where
  "rememberFinalizedTurn turnId ids0 =
     (let ids = set_add turnId ids0 in
      if length ids \<le> 50 then ids
      else case ids of
        oldest # rest \<Rightarrow> if oldest = [] then ids else set_del oldest ids
      | [] \<Rightarrow> ids)"

definition hasFinalizedTurn :: "string list \<Rightarrow> string \<Rightarrow> bool" where
  "hasFinalizedTurn ids turnId = (turnId \<in> set ids)"

section \<open>Waiters and turn streams\<close>

text \<open>A stream with its waiter: the queue, whether the reader waits with \<open>queueResolve\<close> set, whether its
  wait has been resolved, what it has been handed, and whether it is done.\<close>

datatype reader = Reading | Waiting | Woken | Finished

record 'e turn_stream =
  ts_turnId :: string
  ts_settled :: bool
  ts_queue :: "'e list"
  ts_reader :: reader
  ts_yielded :: "'e list"

definition createTurnStream :: "string \<Rightarrow> 'e turn_stream" where
  "createTurnStream turnId = \<lparr>ts_turnId = turnId, ts_settled = False, ts_queue = [], ts_reader = Reading, ts_yielded = []\<rparr>"

definition wake :: "'e turn_stream \<Rightarrow> 'e turn_stream" where
  "wake t = (if ts_reader t = Waiting then t\<lparr>ts_reader := Woken\<rparr> else t)"

definition stream_callback :: "'e \<Rightarrow> 'e turn_stream \<Rightarrow> 'e turn_stream" where
  "stream_callback e t = wake (t\<lparr>ts_queue := ts_queue t @ [e]\<rparr>)"

definition settleWaiter :: "'e turn_stream \<Rightarrow> 'e turn_stream" where
  "settleWaiter t = t\<lparr>ts_settled := True\<rparr>"

text \<open>The reader goes on: it is handed the next event, finds that there is none and the waiter settled,
  or waits.\<close>

definition read_stream :: "('e \<Rightarrow> bool) \<Rightarrow> 'e turn_stream \<Rightarrow> 'e turn_stream" where
  "read_stream isTerminal t =
     (if ts_reader t = Waiting \<or> ts_reader t = Finished then t
      else case ts_queue t of
        e # rest \<Rightarrow>
          t\<lparr>ts_queue := rest, ts_yielded := ts_yielded t @ [e], ts_reader := (if isTerminal e then Finished else Reading)\<rparr>
      | [] \<Rightarrow> if ts_settled t then t\<lparr>ts_reader := Finished\<rparr> else t\<lparr>ts_reader := Waiting\<rparr>)"

definition matches :: "string option \<Rightarrow> 'e turn_stream \<Rightarrow> bool" where
  "matches turnId t = (turnId = Some (ts_turnId t) \<and> \<not> ts_settled t)"

text \<open>The waiters of an agent, each with its stream: an event goes to those that match.\<close>

definition notify_waiter :: "'e \<Rightarrow> bool \<Rightarrow> 'e turn_stream \<Rightarrow> 'e turn_stream" where
  "notify_waiter e terminal t = (if terminal then settleWaiter (stream_callback e t) else stream_callback e t)"

definition notifyAgentWaiters :: "'e \<Rightarrow> string option \<Rightarrow> bool \<Rightarrow> 'e turn_stream list \<Rightarrow> 'e turn_stream list" where
  "notifyAgentWaiters e turnId terminal ts =
     map (\<lambda>t. if matches turnId t then notify_waiter e terminal t else t) ts"

definition cancelWaiters :: "(string \<Rightarrow> 'e) \<Rightarrow> 'e turn_stream list \<Rightarrow> 'e turn_stream list" where
  "cancelWaiters createEvent ts = map (\<lambda>t. settleWaiter (stream_callback (createEvent (ts_turnId t)) t)) ts"

section \<open>Runs of runs\<close>

datatype agent_run_op =
    Create_pending string string
  | Track_autonomous string string "string option"
  | Settle_terminal string "string option"
  | Settle_foreground string string
  | Clear_agent string
  | Set_start nat run_start

fun run_step :: "agent_run_op \<Rightarrow> run_state \<Rightarrow> run_state" where
  "run_step (Create_pending token a) s = createPendingRun token a s"
| "run_step (Track_autonomous token a t) s = trackAutonomousRun token a t s"
| "run_step (Settle_terminal a t) s = settleTerminalRun a t s"
| "run_step (Settle_foreground a token) s = settleForegroundRun a token s"
| "run_step (Clear_agent a) s = clearAgentRun a s"
| "run_step (Set_start i st) s = set_start i st s"

datatype 'e turn_op = Notify 'e bool | Settle | Read

fun turn_step :: "('e \<Rightarrow> bool) \<Rightarrow> 'e turn_op \<Rightarrow> 'e turn_stream \<Rightarrow> 'e turn_stream" where
  "turn_step isTerminal (Notify e terminal) t = (if ts_settled t then t else notify_waiter e terminal t)"
| "turn_step isTerminal Settle t = settleWaiter t"
| "turn_step isTerminal Read t = read_stream isTerminal t"

section \<open>A run settles when it is no longer tracked\<close>

text \<open>What the agent manager checks before it creates a pending run.\<close>

fun run_allowed :: "agent_run_op \<Rightarrow> run_state \<Rightarrow> bool" where
  "run_allowed (Create_pending token a) s = (map_of (rs_runs s) a = None)"
| "run_allowed _ s = True"

inductive runs_reach :: "run_state \<Rightarrow> bool" where
  start: "runs_reach empty_runs"
| step: "runs_reach s \<Longrightarrow> run_allowed op s \<Longrightarrow> runs_reach (run_step op s)"

definition runs_ok :: "run_state \<Rightarrow> bool" where
  "runs_ok s \<longleftrightarrow>
     (\<forall>a i. map_of (rs_runs s) a = Some i \<longrightarrow> i < length (rs_objects s)) \<and>
     (\<forall>a b i. map_of (rs_runs s) a = Some i \<longrightarrow> map_of (rs_runs s) b = Some i \<longrightarrow> a = b) \<and>
     (\<forall>i < length (rs_objects s). tr_settled (rs_objects s ! i) \<longleftrightarrow> (\<forall>a. map_of (rs_runs s) a \<noteq> Some i))"

lemma add_run_ok: "runs_ok s \<Longrightarrow> map_of (rs_runs s) a = None \<Longrightarrow> \<not> tr_settled run \<Longrightarrow> runs_ok (add_run a run s)"
  by (auto simp: runs_ok_def add_run_def map_of_update nth_append less_Suc_eq) (metis option.distinct(1))

lemma clearRun_ok:
  assumes "runs_ok s" "map_of (rs_runs s) a = Some i"
  shows "runs_ok (clearRun a i s)"
proof -
  have i: "i < length (rs_objects s)" using assms by (simp add: runs_ok_def)
  have only: "b = a" if "map_of (rs_runs s) b = Some i" for b using assms that unfolding runs_ok_def by blast
  show ?thesis
    using assms i only
    by (auto simp: runs_ok_def clearRun_def settleTrackedRun_def map_of_delete nth_list_update) (metis option.inject)
qed

lemma set_start_ok: "runs_ok s \<Longrightarrow> runs_ok (set_start i st s)"
  by (cases "i < length (rs_objects s)") (auto simp: runs_ok_def set_start_def nth_list_update list_update_beyond)

lemma run_step_ok:
  assumes "runs_ok s" "run_allowed op s"
  shows "runs_ok (run_step op s)"
proof (cases op)
  case (Create_pending token a)
  then show ?thesis using add_run_ok[OF assms(1)] assms(2) by (simp add: createPendingRun_def createPendingForegroundRun_def)
next
  case (Track_autonomous token a t)
  then show ?thesis using add_run_ok[OF assms(1)] assms(1) by (simp add: trackAutonomousRun_def run_of_def)
next
  case (Settle_terminal a t)
  then show ?thesis using clearRun_ok[OF assms(1)] assms(1) by (simp add: settleTerminalRun_def split: option.split)
next
  case (Settle_foreground a token)
  then show ?thesis using clearRun_ok[OF assms(1)] assms(1) by (simp add: settleForegroundRun_def split: option.split run_kind.split)
next
  case (Clear_agent a)
  then show ?thesis using clearRun_ok[OF assms(1)] assms(1) by (simp add: clearAgentRun_def split: option.split)
qed (use set_start_ok assms(1) in simp)

lemma runs_reach_ok: "runs_reach s \<Longrightarrow> runs_ok s"
proof (induction rule: runs_reach.induct)
  case start
  then show ?case by (simp add: runs_ok_def empty_runs_def)
next
  case (step s op)
  then show ?case by (intro run_step_ok)
qed

text \<open>C18. Whoever waits for a run to settle is not left waiting, and is not told too early: in every state
  that is reached by the operations, pending runs being created only for agents without a run, the
  promise of a run has been resolved exactly when no agent has that run any more, and no two agents
  share one.\<close>

theorem run_settled_iff_untracked:
  assumes "runs_reach s" "i < length (rs_objects s)"
  shows "(tr_settled (rs_objects s ! i) \<longleftrightarrow> i \<notin> ran (map_of (rs_runs s))) \<and>
    (\<forall>a b. map_of (rs_runs s) a = Some i \<longrightarrow> map_of (rs_runs s) b = Some i \<longrightarrow> a = b)"
  using runs_reach_ok[OF assms(1)] assms(2) by (auto simp: runs_ok_def ran_def)

theorem run_settled_iff_untracked_witness:
  "\<exists>s. runs_reach s \<and> rs_runs s = [(''b'', 1)] \<and> tr_settled (rs_objects s ! 0) \<and> 0 \<notin> ran (map_of (rs_runs s)) \<and>
     \<not> tr_settled (rs_objects s ! 1)"
proof -
  define s1 where "s1 = run_step (Create_pending ''x'' ''a'') empty_runs"
  define s2 where "s2 = run_step (Track_autonomous ''y'' ''b'' None) s1"
  define s3 where "s3 = run_step (Settle_foreground ''a'' ''x'') s2"
  have "runs_reach s1" unfolding s1_def by (rule runs_reach.step[OF runs_reach.start]) (simp add: empty_runs_def)
  then have "runs_reach s2" unfolding s2_def by (rule runs_reach.step) simp
  then have r: "runs_reach s3" unfolding s3_def by (rule runs_reach.step) simp
  have e: "rs_runs s3 = [(''b'', 1)]" "length (rs_objects s3) = 2" unfolding s3_def s2_def s1_def by code_simp+
  have "0 \<notin> ran (map_of (rs_runs s3))" "1 \<in> ran (map_of (rs_runs s3))" using e(1) by (auto simp: ran_def)
  moreover have "0 < length (rs_objects s3)" "1 < length (rs_objects s3)" using e(2) by simp_all
  ultimately have "tr_settled (rs_objects s3 ! 0)" "\<not> tr_settled (rs_objects s3 ! 1)"
    using run_settled_iff_untracked[OF r] by blast+
  then show ?thesis using e(1) r \<open>0 \<notin> ran (map_of (rs_runs s3))\<close> by blast
qed

section \<open>The last fifty turns\<close>

lemma remember_new:
  assumes "distinct (ids @ [t])" "[] \<notin> set (ids @ [t])" "length ids \<le> 50"
  shows "rememberFinalizedTurn t ids = drop (length ids + 1 - 50) (ids @ [t])"
proof (cases "length ids = 50")
  case True
  then obtain x xs where x: "ids = x # xs" by (cases ids) auto
  then have "set_del x (ids @ [t]) = xs @ [t]" using assms(1) by (auto simp: set_del_def filter_id_conv)
  moreover have "x \<noteq> []" "t \<notin> set (x # xs)" using assms(1,2) x by auto
  ultimately show ?thesis using True x by (simp add: rememberFinalizedTurn_def set_add_def Let_def)
qed (use assms in \<open>simp add: rememberFinalizedTurn_def set_add_def Let_def\<close>)

text \<open>Of the turns that were finalized, whose ids differ and are not empty, exactly the last fifty are
  remembered, in their order.\<close>

theorem last_fifty_turns_remembered:
  assumes "distinct turns" "[] \<notin> set turns"
  shows "fold rememberFinalizedTurn turns [] = drop (length turns - 50) turns"
  using assms
proof (induction turns rule: rev_induct)
  case (snoc t ts)
  let ?ids = "drop (length ts - 50) ts"
  have ids: "fold rememberFinalizedTurn ts [] = ?ids" using snoc by simp
  have "distinct (?ids @ [t])" "[] \<notin> set (?ids @ [t])"
    using snoc.prems set_drop_subset[of "length ts - 50" ts] by auto
  then have "rememberFinalizedTurn t ?ids = drop (length ?ids + 1 - 50) (?ids @ [t])" by (intro remember_new) auto
  also have "\<dots> = drop (length (ts @ [t]) - 50) (ts @ [t])"
  proof (cases "length ts < 50")
    case False
    then obtain n where "length ts = 50 + n" using le_Suc_ex by (metis not_less)
    then show ?thesis by (simp add: drop_append)
  qed simp
  finally show ?case using ids by simp
qed simp

theorem last_fifty_turns_remembered_witness:
  "fold rememberFinalizedTurn [''a'', ''b''] [] = [''a'', ''b'']"
  using last_fifty_turns_remembered[of "[''a'', ''b'']"] by simp

section \<open>A turn's events\<close>

text \<open>The events that were sent to a stream whose waiter had not been settled.\<close>

fun told_events :: "bool \<Rightarrow> 'e turn_op list \<Rightarrow> 'e list" where
  "told_events settled [] = []"
| "told_events settled (Notify e terminal # ops) =
     (if settled then told_events settled ops else e # told_events terminal ops)"
| "told_events settled (Settle # ops) = told_events True ops"
| "told_events settled (Read # ops) = told_events settled ops"

definition turn_ok :: "('e \<Rightarrow> bool) \<Rightarrow> 'e turn_stream \<Rightarrow> bool" where
  "turn_ok isTerminal t \<longleftrightarrow>
     (ts_reader t = Waiting \<longrightarrow> ts_queue t = []) \<and>
     (ts_reader t = Finished \<longrightarrow> (ts_queue t = [] \<and> ts_settled t) \<or> (ts_yielded t \<noteq> [] \<and> isTerminal (last (ts_yielded t)))) \<and>
     (\<forall>e \<in> set (if ts_reader t = Finished then butlast (ts_yielded t) else ts_yielded t). \<not> isTerminal e)"

lemma turn_step_ok: "turn_ok isTerminal t \<Longrightarrow> turn_ok isTerminal (turn_step isTerminal op t)"
proof (cases op)
  case (Notify e terminal)
  assume "turn_ok isTerminal t"
  then show ?thesis
    by (cases "ts_reader t") (auto simp: Notify turn_ok_def notify_waiter_def settleWaiter_def stream_callback_def wake_def)
next
  case Settle
  assume "turn_ok isTerminal t"
  then show ?thesis by (auto simp: Settle turn_ok_def settleWaiter_def)
next
  case Read
  assume "turn_ok isTerminal t"
  then show ?thesis
    by (cases "ts_reader t"; cases "ts_queue t") (auto simp: Read turn_ok_def read_stream_def dest: in_set_butlastD)
qed

lemma turn_events:
  "ts_yielded (fold (turn_step isTerminal) ops t) @ ts_queue (fold (turn_step isTerminal) ops t) =
     ts_yielded t @ ts_queue t @ told_events (ts_settled t) ops"
proof (induction ops arbitrary: t)
  case (Cons x ops)
  have r: "ts_yielded (read_stream isTerminal t) @ ts_queue (read_stream isTerminal t) = ts_yielded t @ ts_queue t"
    "ts_settled (read_stream isTerminal t) = ts_settled t"
    by (auto simp: read_stream_def split: list.split)
  have rs: "ts_yielded (read_stream isTerminal t) @ ts_queue (read_stream isTerminal t) @ xs = ts_yielded t @ ts_queue t @ xs" for xs
    using arg_cong[OF r(1), of "\<lambda>ys. ys @ xs"] by simp
  have n: "ts_yielded (notify_waiter e b t) = ts_yielded t" "ts_queue (notify_waiter e b t) = ts_queue t @ [e]"
    "ts_settled (notify_waiter e b t) = (b \<or> ts_settled t)" for e b
    by (auto simp: notify_waiter_def settleWaiter_def stream_callback_def wake_def)
  show ?case
  proof (cases x)
    case (Notify e b)
    then show ?thesis using Cons.IH[of "notify_waiter e b t"] Cons.IH[of t] n by (cases "ts_settled t") auto
  next
    case Settle
    then show ?thesis using Cons.IH[of "settleWaiter t"] by (simp add: settleWaiter_def)
  next
    case Read
    then show ?thesis using Cons.IH[of "read_stream isTerminal t"] r(2) rs by simp
  qed
qed simp

text \<open>C17. The reader of a turn gets the events of the turn, all of them and in order, until one is terminal:
  what it was handed and what is queued is what was sent before the waiter was settled; it stops
  only after a terminal event, or when the waiter is settled and nothing is queued; it is handed
  nothing after a terminal event; and it does not wait while there is an event for it.\<close>

theorem turn_reader_gets_all_events:
  "let t = fold (turn_step isTerminal) ops (createTurnStream turnId) in
   ts_yielded t @ ts_queue t = told_events False ops \<and>
   (case ts_reader t of
      Waiting \<Rightarrow> ts_queue t = []
    | Finished \<Rightarrow> (ts_queue t = [] \<and> ts_settled t) \<or> (ts_yielded t \<noteq> [] \<and> isTerminal (last (ts_yielded t)))
    | _ \<Rightarrow> list_all (\<lambda>e. isTerminal e = False) (ts_yielded t)) \<and>
   list_all (\<lambda>e. isTerminal e = False) (butlast (ts_yielded t))"
proof -
  let ?t = "fold (turn_step isTerminal) ops (createTurnStream turnId)"
  have "turn_ok isTerminal (createTurnStream turnId)" by (simp add: turn_ok_def createTurnStream_def)
  then have "turn_ok isTerminal ?t"
  proof (induction ops rule: rev_induct)
    case (snoc x ops)
    then show ?case using turn_step_ok[of isTerminal _ x] by simp
  qed simp
  then have k: "(case ts_reader ?t of
      Waiting \<Rightarrow> ts_queue ?t = []
    | Finished \<Rightarrow> (ts_queue ?t = [] \<and> ts_settled ?t) \<or> (ts_yielded ?t \<noteq> [] \<and> isTerminal (last (ts_yielded ?t)))
    | _ \<Rightarrow> list_all (\<lambda>e. isTerminal e = False) (ts_yielded ?t))"
    "list_all (\<lambda>e. isTerminal e = False) (butlast (ts_yielded ?t))"
    by (auto simp: turn_ok_def list_all_iff dest: in_set_butlastD split: reader.split if_splits)
  have e: "ts_yielded ?t @ ts_queue ?t = told_events False ops"
    using turn_events[of isTerminal ops "createTurnStream turnId"] by (simp add: createTurnStream_def)
  show ?thesis unfolding Let_def using k e by (intro conjI)
qed

end
