(* ===== verification/Port_Allocator.thy ===== *)
theory Port_Allocator
  imports Js_String
begin

text \<open>
  Allocating a port for a service (\<open>server/src/server/workspace-service-port-allocator.ts\<close>): from the
  output of a script, from a range, or any free port. The script, the probe whether a port is
  available, the free port the system finds and the start of the search, which is random, are
  parameters.
\<close>

datatype allocator_error =
    Script_failed
  | Script_output
  | Script_invalid string
  | Script_reserved int
  | Range_invalid
  | Range_exhausted int int

definition TCP_PORT_MIN :: int where
  "TCP_PORT_MIN = 1"

definition TCP_PORT_MAX :: int where
  "TCP_PORT_MAX = 65535"

definition isValidTcpPort :: "js_num \<Rightarrow> bool" where
  "isValidTcpPort n \<longleftrightarrow> (case n of Num p \<Rightarrow> TCP_PORT_MIN \<le> p \<and> p \<le> TCP_PORT_MAX | NaN \<Rightarrow> False)"

text \<open>The parts of the text between the dashes, as \<open>Number\<close> reads them; a part that is missing is no
  number.\<close>

definition parsePortRange :: "js_num list \<Rightarrow> allocator_error + int \<times> int" where
  "parsePortRange parts =
     (case parts of
        Num s # Num e # _ \<Rightarrow>
          if \<not> isValidTcpPort (Num s) \<or> \<not> isValidTcpPort (Num e) \<or> s > e then Inl Range_invalid else Inr (s, e)
      | _ \<Rightarrow> Inl Range_invalid)"

text \<open>The loop over the offsets from \<open>offset\<close> on.\<close>

function scan_range :: "(int \<Rightarrow> bool) \<Rightarrow> int set \<Rightarrow> int \<Rightarrow> int \<Rightarrow> int \<Rightarrow> int \<Rightarrow> int option" where
  "scan_range available reserved start ports startOffset offset =
     (if offset < ports
      then (let port = start + (startOffset + offset) mod ports in
            if port \<in> reserved then scan_range available reserved start ports startOffset (offset + 1)
            else if available port then Some port
            else scan_range available reserved start ports startOffset (offset + 1))
      else None)"
  by pat_completeness auto
termination by (relation "measure (\<lambda>(available, reserved, start, ports, startOffset, offset). nat (ports - offset))") auto

declare scan_range.simps [simp del]

definition allocatePortFromRange :: "(int \<Rightarrow> bool) \<Rightarrow> int \<Rightarrow> int \<times> int \<Rightarrow> int set \<Rightarrow> allocator_error + int" where
  "allocatePortFromRange available startOffset bounds reserved =
     (case bounds of (s, e) \<Rightarrow>
        (case scan_range available reserved s (e - s + 1) startOffset 0 of
           Some port \<Rightarrow> Inr port
         | None \<Rightarrow> Inl (Range_exhausted s e)))"

text \<open>The output of the script, None when it failed.\<close>

definition allocatePortFromScript :: "string option \<Rightarrow> int set option \<Rightarrow> allocator_error + int" where
  "allocatePortFromScript stdout reserved =
     (case stdout of
        None \<Rightarrow> Inl Script_failed
      | Some text \<Rightarrow>
          (let shown = trim text in
           if shown = [] \<or> \<not> list_all is_digit shown then Inl Script_output
           else (let port = int (digits_val shown) in
                 if \<not> isValidTcpPort (Num port) then Inl (Script_invalid shown)
                 else if (case reserved of Some r \<Rightarrow> port \<in> r | None \<Rightarrow> False) then Inl (Script_reserved port)
                 else Inr port)))"

record port_allocation =
  pa_portScript :: "string option"
  pa_range :: "js_num list option"

definition allocateWorkspaceServicePort ::
    "(string \<Rightarrow> string option) \<Rightarrow> (int \<Rightarrow> bool) \<Rightarrow> int \<Rightarrow> int \<Rightarrow> port_allocation option \<Rightarrow> int set option \<Rightarrow> allocator_error + int" where
  "allocateWorkspaceServicePort run_script available startOffset free allocation reserved =
     (case allocation of
        Some a \<Rightarrow>
          (case (pa_portScript a, pa_range a) of
             (Some (c # command), _) \<Rightarrow> allocatePortFromScript (run_script (c # command)) reserved
           | (_, Some parts) \<Rightarrow>
               ebind (parsePortRange parts) (\<lambda>bounds.
                 allocatePortFromRange available startOffset bounds (case reserved of Some r \<Rightarrow> r | None \<Rightarrow> {}))
           | _ \<Rightarrow> Inr free)
      | None \<Rightarrow> Inr free)"

section \<open>The range is searched completely\<close>

lemma scan_range_Some:
  "scan_range available reserved start ports startOffset offset = Some port \<Longrightarrow> 0 \<le> offset \<Longrightarrow>
   start \<le> port \<and> port < start + ports \<and> port \<notin> reserved \<and> available port"
proof (induction available reserved start ports startOffset offset rule: scan_range.induct)
  case (1 available reserved start ports startOffset offset)
  let ?p = "start + (startOffset + offset) mod ports"
  have "offset < ports" using "1.prems"(1) by (subst (asm) scan_range.simps) (auto split: if_splits)
  then have "0 \<le> (startOffset + offset) mod ports" "(startOffset + offset) mod ports < ports" using "1.prems"(2) by auto
  then show ?case
    using 1 \<open>offset < ports\<close> by (subst (asm) (3) scan_range.simps) (auto simp: Let_def split: if_splits)
qed

lemma scan_range_None:
  "scan_range available reserved start ports startOffset offset = None \<Longrightarrow> offset \<le> k \<Longrightarrow> k < ports \<Longrightarrow>
   start + (startOffset + k) mod ports \<in> reserved \<or> \<not> available (start + (startOffset + k) mod ports)"
proof (induction available reserved start ports startOffset offset rule: scan_range.induct)
  case (1 available reserved start ports startOffset offset)
  show ?case
  proof (cases "k = offset")
    case True
    then show ?thesis using "1.prems" by (subst (asm) scan_range.simps) (auto simp: Let_def split: if_splits)
  next
    case False
    then have "offset + 1 \<le> k" "offset < ports" using "1.prems" by auto
    then show ?thesis
      using 1 by (subst (asm) (3) scan_range.simps) (auto simp: Let_def split: if_splits)
  qed
qed

text \<open>Every port of the range is some offset away from the start of the search.\<close>

lemma offset_of_port:
  assumes "s \<le> port" "port \<le> (e :: int)"
  obtains k where "0 \<le> k" "k < e - s + 1" "s + (startOffset + k) mod (e - s + 1) = port"
proof -
  let ?n = "e - s + 1"
  have "(startOffset + (port - s - startOffset) mod ?n) mod ?n = (port - s) mod ?n" by (simp add: mod_add_right_eq)
  also have "\<dots> = port - s" using assms by simp
  finally show ?thesis
    using that[of "(port - s - startOffset) mod ?n"] assms pos_mod_bound[of ?n "port - s - startOffset"] by simp
qed

text \<open>A range is searched completely, wherever the search starts: a port is found exactly when the
  range has one that is not reserved and available, and the port found is such a port.\<close>

theorem range_searched_completely:
  "case allocatePortFromRange available startOffset (s, e) reserved of
     Inr port \<Rightarrow> s \<le> port \<and> port \<le> e \<and> port \<notin> reserved \<and> available port
   | Inl err \<Rightarrow> err = Range_exhausted s e \<and> {p. s \<le> p \<and> p \<le> e \<and> p \<notin> reserved \<and> available p} = {}"
proof (cases "scan_range available reserved s (e - s + 1) startOffset 0")
  case None
  have "p \<in> reserved \<or> \<not> available p" if p: "s \<le> p" "p \<le> e" for p
  proof -
    obtain k where k: "0 \<le> k" "k < e - s + 1" "s + (startOffset + k) mod (e - s + 1) = p"
      by (rule offset_of_port[OF p])
    then show ?thesis using scan_range_None[OF None k(1,2)] by simp
  qed
  then show ?thesis using None by (auto simp: allocatePortFromRange_def)
next
  case (Some port)
  then show ?thesis using scan_range_Some[OF Some] by (simp add: allocatePortFromRange_def)
qed

end
