(* ===== verification/Timeline_Sync.thy ===== *)
theory Timeline_Sync
  imports Timeline Js_String
begin

text \<open>
  Keeping the timelines a client shows in step with the daemon: \<open>createViewedTimelineSync\<close> of
  \<open>app/src/timeline/viewed-timeline-sync.ts\<close> and the plans of \<open>timeline-sync-plan.ts\<close>. The client
  subscribes to the agents it shows, loads what it has cached of them, and catches each up, page by
  page, once the daemon has acknowledged the subscription. What is under way (a call of a port that
  has not settled) is a job; a job settles at any later time, in any order. A timer is there until it
  fires or is cancelled. Listeners, who only read the status, and the reports of errors are left out.
\<close>

section \<open>Plans of fetches\<close>

record fetch_plan =
  fp_direction :: direction
  fp_cursor :: "timeline_cursor option"
  fp_limit :: int
  fp_mergeWindow :: bool

definition TIMELINE_FETCH_PAGE_SIZE :: int where
  "TIMELINE_FETCH_PAGE_SIZE = 40"

definition planTimelineCatchUpAfter :: "timeline_cursor \<Rightarrow> fetch_plan" where
  "planTimelineCatchUpAfter c =
     \<lparr>fp_direction = After, fp_cursor = Some c, fp_limit = TIMELINE_FETCH_PAGE_SIZE, fp_mergeWindow = False\<rparr>"

definition planTimelineTailFetch :: fetch_plan where
  "planTimelineTailFetch =
     \<lparr>fp_direction = Tail, fp_cursor = None, fp_limit = TIMELINE_FETCH_PAGE_SIZE, fp_mergeWindow = False\<rparr>"

text \<open>A range is its epoch and last sequence number, that is a cursor.\<close>

definition planTimelineResumeFetch :: "timeline_cursor option \<Rightarrow> fetch_plan" where
  "planTimelineResumeFetch r = (case r of Some c \<Rightarrow> planTimelineCatchUpAfter c | None \<Rightarrow> planTimelineTailFetch)"

definition planTimelineOlderFetch :: "timeline_cursor \<Rightarrow> fetch_plan" where
  "planTimelineOlderFetch c =
     \<lparr>fp_direction = Before, fp_cursor = Some c, fp_limit = TIMELINE_FETCH_PAGE_SIZE, fp_mergeWindow = False\<rparr>"

definition planTimelinePromptJump :: "timeline_cursor \<Rightarrow> fetch_plan" where
  "planTimelinePromptJump c =
     (let newerRows = TIMELINE_FETCH_PAGE_SIZE div 2 in
      \<lparr>fp_direction = Before, fp_cursor = Some \<lparr>cu_epoch = cu_epoch c, cu_seq = cu_seq c + newerRows + 1\<rparr>,
       fp_limit = TIMELINE_FETCH_PAGE_SIZE, fp_mergeWindow = True\<rparr>)"

definition isTimelineCatchUpComplete :: "direction \<Rightarrow> bool \<Rightarrow> string option \<Rightarrow> bool" where
  "isTimelineCatchUpComplete dir hasNewer err =
     (case err of Some (c # cs) \<Rightarrow> False | _ \<Rightarrow> dir \<noteq> After \<or> \<not> hasNewer)"

definition isTimelineResumeSnapshotAuthoritative :: "direction \<Rightarrow> bool \<Rightarrow> string option \<Rightarrow> bool" where
  "isTimelineResumeSnapshotAuthoritative dir hasNewer err =
     (case err of Some (c # cs) \<Rightarrow> False | _ \<Rightarrow> if dir = Before then False else dir = Tail \<or> \<not> hasNewer)"

section \<open>The state\<close>

datatype catch_status = Running | Complete | Failed_catch

record catch_up =
  ca_generation :: nat
  ca_status :: catch_status
  ca_request :: "fetch_plan option"
  ca_cancelRetry :: "nat option"
  ca_retryDelay :: "int option"

text \<open>What is under way: a page of a catch-up (with its agent, generation, request, and whether to fall
  back to the latest tail), the tail, the load of a cache, a subscription (with the generation of the
  membership and the agents), and the end of a reconciliation of the membership.\<close>

datatype sync_job =
    Page_fetch string nat fetch_plan bool
  | Tail_fetch string nat fetch_plan
  | Cache_load string
  | Subscription nat "string list"
  | Reconcile_end

datatype sync_timer =
    Catch_timer string nat
  | Membership_timer nat "string list"

record sync_state =
  vs_sources :: "(string \<times> string list) list"
  vs_catchUps :: "string \<Rightarrow> catch_up option"
  vs_generations :: "string \<Rightarrow> nat"
  vs_parked :: "string \<Rightarrow> fetch_plan option"
  vs_pending :: "string set"
  vs_errors :: "string \<Rightarrow> string option"
  vs_retries :: "string set"
  vs_loaded :: "string set"
  vs_loads :: "string set"
  vs_active :: bool
  vs_connected :: bool
  vs_selective :: bool
  vs_disposed :: bool
  vs_desired :: "string list"
  vs_acknowledged :: "string list"
  vs_membership :: nat
  vs_reconciling :: bool
  vs_requested :: bool
  vs_needsRetry :: bool
  vs_retryDelay :: "int option"
  vs_cancelRetry :: "nat option"
  vs_recent :: "string list"
  vs_jobs :: "sync_job list"
  vs_timers :: "(nat \<times> sync_timer) list"
  vs_nextTimer :: nat

definition sync_start :: "bool \<Rightarrow> sync_state" where
  "sync_start selective =
     \<lparr>vs_sources = [], vs_catchUps = (\<lambda>a. None), vs_generations = (\<lambda>a. 0), vs_parked = (\<lambda>a. None), vs_pending = {},
      vs_errors = (\<lambda>a. None), vs_retries = {}, vs_loaded = {}, vs_loads = {}, vs_active = True, vs_connected = False,
      vs_selective = selective, vs_disposed = False, vs_desired = [], vs_acknowledged = [], vs_membership = 0,
      vs_reconciling = False, vs_requested = False, vs_needsRetry = False, vs_retryDelay = None, vs_cancelRetry = None,
      vs_recent = [], vs_jobs = [], vs_timers = [], vs_nextTimer = 0\<rparr>"

definition RETRY_DELAY_MS :: int where
  "RETRY_DELAY_MS = 1000"

definition MAX_RETRY_DELAY_MS :: int where
  "MAX_RETRY_DELAY_MS = 30000"

definition VIEWED_TIMELINE_HOT_AGENT_LIMIT :: nat where
  "VIEWED_TIMELINE_HOT_AGENT_LIMIT = 5"

definition getNextRetryDelayMs :: "int option \<Rightarrow> int" where
  "getNextRetryDelayMs d = (case d of None \<Rightarrow> RETRY_DELAY_MS | Some ms \<Rightarrow> min (ms * 2) MAX_RETRY_DELAY_MS)"

definition isSameCatchUpRequest :: "fetch_plan option \<Rightarrow> fetch_plan option \<Rightarrow> bool" where
  "isSameCatchUpRequest l r =
     (case (l, r) of
        (Some p, Some q) \<Rightarrow>
          if fp_direction p \<noteq> fp_direction q then False
          else if fp_direction p \<noteq> After then True
          else fp_cursor p = fp_cursor q
      | _ \<Rightarrow> False)"

datatype catch_decision = Keep | Keep_and_park | Replace

definition decideCatchUp :: "catch_up option \<Rightarrow> fetch_plan \<Rightarrow> bool \<Rightarrow> catch_decision" where
  "decideCatchUp current request supersede =
     (case current of
        None \<Rightarrow> Replace
      | Some c \<Rightarrow>
          if supersede
          then if ca_status c = Running \<and> isSameCatchUpRequest (ca_request c) (Some request) then Keep
               else if ca_status c = Running \<and> map_option fp_direction (ca_request c) = Some Tail then Keep_and_park
               else Replace
          else if ca_status c = Running \<or> ca_status c = Complete then Keep else Replace)"

text \<open>Ids without duplicates and without the empty one, in order; a \<open>Set\<close> keeps what it met first.\<close>

definition normalizeAgentIds :: "string list \<Rightarrow> string list" where
  "normalizeAgentIds ids = sort_by (\<lambda>a b. code_unit_compare a b \<le> 0) (filter (\<lambda>i. i \<noteq> []) (set_of ids))"

definition sameAgentIds :: "string list \<Rightarrow> string list \<Rightarrow> bool" where
  "sameAgentIds l r = (length l = length r \<and> list_all2 (=) l r)"

definition visibleAgentIds :: "sync_state \<Rightarrow> string list" where
  "visibleAgentIds s = normalizeAgentIds (concat (map snd (vs_sources s)))"

definition selectHotAgentIds :: "string list \<Rightarrow> string list \<Rightarrow> string list \<times> string list" where
  "selectHotAgentIds visible recent =
     (let viewed = visible @ filter (\<lambda>a. a \<notin> set visible) recent;
          hiddenBudget = VIEWED_TIMELINE_HOT_AGENT_LIMIT - length visible;
          hot = normalizeAgentIds (visible @ take hiddenBudget (filter (\<lambda>a. a \<notin> set visible) viewed))
      in (hot, filter (\<lambda>a. a \<in> set hot) viewed))"

section \<open>Timers, errors and cancelling\<close>

definition add_timer :: "sync_timer \<Rightarrow> sync_state \<Rightarrow> sync_state" where
  "add_timer t s = s\<lparr>vs_timers := (vs_nextTimer s, t) # vs_timers s, vs_nextTimer := Suc (vs_nextTimer s)\<rparr>"

definition cancel_timer :: "nat option \<Rightarrow> sync_state \<Rightarrow> sync_state" where
  "cancel_timer i s = (case i of None \<Rightarrow> s | Some n \<Rightarrow> s\<lparr>vs_timers := filter (\<lambda>t. fst t \<noteq> n) (vs_timers s)\<rparr>)"

definition start_job :: "sync_job \<Rightarrow> sync_state \<Rightarrow> sync_state" where
  "start_job j s = s\<lparr>vs_jobs := vs_jobs s @ [j]\<rparr>"

definition setVisibilityCatchUpReady :: "string \<Rightarrow> sync_state \<Rightarrow> sync_state" where
  "setVisibilityCatchUpReady a s =
     s\<lparr>vs_pending := vs_pending s - {a}, vs_errors := (vs_errors s)(a := None), vs_retries := vs_retries s - {a}\<rparr>"

definition setVisibilityCatchUpError :: "string list \<Rightarrow> string \<Rightarrow> sync_state \<Rightarrow> sync_state" where
  "setVisibilityCatchUpError ids message s =
     s\<lparr>vs_retries := vs_retries s - set ids, vs_pending := vs_pending s - set ids,
       vs_errors := (\<lambda>a. if a \<in> set ids then Some message else vs_errors s a)\<rparr>"

definition cancelCatchUp :: "string \<Rightarrow> sync_state \<Rightarrow> sync_state" where
  "cancelCatchUp a s0 =
     (let s = s0\<lparr>vs_generations := (vs_generations s0)(a := vs_generations s0 a + 1)\<rparr>;
          t = (case vs_catchUps s a of None \<Rightarrow> s | Some c \<Rightarrow> cancel_timer (ca_cancelRetry c) s)
      in t\<lparr>vs_catchUps := (vs_catchUps t)(a := None), vs_parked := (vs_parked t)(a := None)\<rparr>)"

definition cancel_membership :: "sync_state \<Rightarrow> sync_state" where
  "cancel_membership s = (cancel_timer (vs_cancelRetry s) s)\<lparr>vs_cancelRetry := None\<rparr>"

definition ownsCatchUp :: "string \<Rightarrow> nat \<Rightarrow> sync_state \<Rightarrow> bool" where
  "ownsCatchUp a g s \<longleftrightarrow>
     \<not> vs_disposed s \<and> vs_connected s \<and> a \<in> set (vs_desired s) \<and> a \<in> set (vs_acknowledged s) \<and>
     map_option ca_generation (vs_catchUps s a) = Some g"

section \<open>Catching up\<close>

definition ensureCacheLoaded :: "string \<Rightarrow> sync_state \<Rightarrow> sync_state" where
  "ensureCacheLoaded a s =
     (if a \<in> vs_loaded s \<or> a \<in> vs_loads s then s else (start_job (Cache_load a) s)\<lparr>vs_loads := insert a (vs_loads s)\<rparr>)"

text \<open>\<open>fetchUntilCurrent\<close> up to its first await; \<open>cursor\<close> is what \<open>readCursor\<close> gives at the time.\<close>

definition fetch_page :: "string \<Rightarrow> nat \<Rightarrow> fetch_plan \<Rightarrow> bool \<Rightarrow> sync_state \<Rightarrow> sync_state" where
  "fetch_page a g request fallback s =
     (if \<not> ownsCatchUp a g s then s else start_job (Page_fetch a g request fallback) s)"

definition park :: "string \<Rightarrow> fetch_plan option \<Rightarrow> sync_state \<Rightarrow> sync_state" where
  "park a request s = (case request of None \<Rightarrow> s | Some p \<Rightarrow> s\<lparr>vs_parked := (vs_parked s)(a := Some p)\<rparr>)"

definition startCatchUp ::
    "(string \<Rightarrow> timeline_cursor option) \<Rightarrow> string \<Rightarrow> fetch_plan option \<Rightarrow> bool \<Rightarrow> sync_state \<Rightarrow> sync_state" where
  "startCatchUp cursor a request supersede s =
     (if \<not> vs_connected s \<or> a \<notin> set (vs_desired s) \<or> a \<notin> set (vs_acknowledged s) then park a request s
      else if a \<notin> vs_loaded s then ensureCacheLoaded a (park a request s)
      else
        (let nextRequest = (case request of Some p \<Rightarrow> p | None \<Rightarrow> planTimelineResumeFetch (cursor a));
             current = vs_catchUps s a in
         case decideCatchUp current nextRequest supersede of
           Keep_and_park \<Rightarrow> s\<lparr>vs_parked := (vs_parked s)(a := Some nextRequest)\<rparr>
         | Keep \<Rightarrow> s
         | Replace \<Rightarrow>
             (let t = (case current of None \<Rightarrow> s | Some c \<Rightarrow> cancel_timer (ca_cancelRetry c) s);
                  g = vs_generations s a + 1;
                  delay = (case current of
                             Some c \<Rightarrow> if supersede \<or> ca_status c \<noteq> Failed_catch then None else ca_retryDelay c
                           | None \<Rightarrow> None);
                  c' = \<lparr>ca_generation = g, ca_status = Running, ca_request = Some nextRequest, ca_cancelRetry = None,
                        ca_retryDelay = delay\<rparr>
              in fetch_page a g nextRequest (request = None \<and> fp_direction nextRequest = After)
                   (t\<lparr>vs_generations := (vs_generations t)(a := g), vs_catchUps := (vs_catchUps t)(a := Some c'),
                      vs_parked := (vs_parked t)(a := None)\<rparr>))))"

definition startAcknowledgedCatchUps :: "(string \<Rightarrow> timeline_cursor option) \<Rightarrow> sync_state \<Rightarrow> sync_state" where
  "startAcknowledgedCatchUps cursor s =
     fold (\<lambda>a s. startCatchUp cursor a (vs_parked s a) (vs_parked s a \<noteq> None) s) (vs_acknowledged s) s"

text \<open>The \<open>catch\<close> of \<open>fetchUntilCurrent\<close>.\<close>

definition catch_failed :: "string \<Rightarrow> nat \<Rightarrow> fetch_plan \<Rightarrow> string \<Rightarrow> sync_state \<Rightarrow> sync_state" where
  "catch_failed a g request message s =
     (case vs_catchUps s a of
        None \<Rightarrow> s
      | Some c \<Rightarrow>
          if ca_generation c = g
          then (let delay = getNextRetryDelayMs (ca_retryDelay c);
                    t = add_timer (Catch_timer a g) s;
                    c' = \<lparr>ca_generation = g, ca_status = Failed_catch, ca_request = Some request,
                          ca_cancelRetry = Some (vs_nextTimer s), ca_retryDelay = Some delay\<rparr>
                in setVisibilityCatchUpError [a] message (t\<lparr>vs_catchUps := (vs_catchUps t)(a := Some c')\<rparr>))
          else s)"

definition catch_complete :: "string \<Rightarrow> nat \<Rightarrow> sync_state \<Rightarrow> sync_state" where
  "catch_complete a g s =
     s\<lparr>vs_catchUps := (vs_catchUps s)(a :=
         Some \<lparr>ca_generation = g, ca_status = Complete, ca_request = None, ca_cancelRetry = None, ca_retryDelay = None\<rparr>)\<rparr>"

text \<open>A page is whether newer rows follow and the cursor of its end; an error is its message.\<close>

type_synonym page_result = "string + bool \<times> timeline_cursor option"

definition fetchUntilCurrent ::
    "(string \<Rightarrow> timeline_cursor option) \<Rightarrow> string \<Rightarrow> nat \<Rightarrow> fetch_plan \<Rightarrow> bool \<Rightarrow> page_result \<Rightarrow> sync_state \<Rightarrow> sync_state" where
  "fetchUntilCurrent cursor a g request fallback result s =
     (case result of
        Inl message \<Rightarrow> catch_failed a g request message s
      | Inr (hasNewer, endCursor) \<Rightarrow>
          if \<not> ownsCatchUp a g s then s
          else if hasNewer
          then (case endCursor of
                  Some c \<Rightarrow>
                    if fallback then start_job (Tail_fetch a g request) s
                    else fetch_page a g (planTimelineCatchUpAfter c) False s
                | None \<Rightarrow> catch_failed a g request (''Timeline page for '' @ a @ '' hasNewer without an end cursor'') s)
          else (let t = catch_complete a g s in
                case vs_parked t a of
                  Some p \<Rightarrow> startCatchUp cursor a (Some p) True t
                | None \<Rightarrow> setVisibilityCatchUpReady a t))"

text \<open>The rest of it after \<open>fetchLatestTail\<close>, and the end of the load of a cache, whether it failed or not.\<close>

definition tail_fetched :: "string \<Rightarrow> nat \<Rightarrow> fetch_plan \<Rightarrow> page_result \<Rightarrow> sync_state \<Rightarrow> sync_state" where
  "tail_fetched a g request result s =
     (case result of
        Inl message \<Rightarrow> catch_failed a g request message s
      | Inr page \<Rightarrow> setVisibilityCatchUpReady a (catch_complete a g s))"

definition cache_loaded :: "(string \<Rightarrow> timeline_cursor option) \<Rightarrow> string \<Rightarrow> sync_state \<Rightarrow> sync_state" where
  "cache_loaded cursor a s0 =
     (let s = s0\<lparr>vs_loads := vs_loads s0 - {a}, vs_loaded := insert a (vs_loaded s0)\<rparr> in
      startCatchUp cursor a (vs_parked s a) (vs_parked s a \<noteq> None) s)"

section \<open>Membership\<close>

text \<open>\<open>reconcileLatestMembership\<close> up to its await; a reconciliation that returns has its end as a job.\<close>

definition reconcileLatestMembership :: "sync_state \<Rightarrow> sync_state" where
  "reconcileLatestMembership s =
     (if vs_disposed s \<or> \<not> vs_connected s \<or> \<not> vs_selective s then start_job Reconcile_end s
      else if \<not> vs_needsRetry s \<and> sameAgentIds (vs_desired s) (vs_acknowledged s) then start_job Reconcile_end s
      else start_job (Subscription (vs_membership s) (vs_desired s)) (s\<lparr>vs_needsRetry := False\<rparr>))"

definition subscription_settled ::
    "(string \<Rightarrow> timeline_cursor option) \<Rightarrow> nat \<Rightarrow> string list \<Rightarrow> string option \<Rightarrow> sync_state \<Rightarrow> sync_state" where
  "subscription_settled cursor g ids failure s0 =
     (case failure of
        Some message \<Rightarrow>
          (let s = setVisibilityCatchUpError ids message (s0\<lparr>vs_needsRetry := True\<rparr>);
               t = cancel_timer (vs_cancelRetry s) s;
               u = (add_timer (Membership_timer g ids) t)\<lparr>vs_cancelRetry := Some (vs_nextTimer t)\<rparr>
           in start_job Reconcile_end (u\<lparr>vs_retryDelay := Some (getNextRetryDelayMs (vs_retryDelay u))\<rparr>))
      | None \<Rightarrow>
          (let s = (cancel_membership s0)\<lparr>vs_retryDelay := None\<rparr> in
           if vs_disposed s \<or> \<not> vs_connected s \<or> \<not> vs_selective s then start_job Reconcile_end s
           else (let t = s\<lparr>vs_acknowledged := ids\<rparr> in
                 if g \<noteq> vs_membership t then reconcileLatestMembership t
                 else (let u = startAcknowledgedCatchUps cursor t in
                       if \<not> sameAgentIds (vs_desired u) (vs_acknowledged u)
                       then reconcileLatestMembership u else start_job Reconcile_end u))))"

definition reconcileMembership :: "sync_state \<Rightarrow> sync_state" where
  "reconcileMembership s =
     (if vs_reconciling s then s\<lparr>vs_requested := True\<rparr>
      else if vs_disposed s \<or> \<not> vs_connected s then s
      else reconcileLatestMembership (s\<lparr>vs_reconciling := True\<rparr>))"

text \<open>Its \<open>finally\<close>.\<close>

definition reconcile_end :: "sync_state \<Rightarrow> sync_state" where
  "reconcile_end s0 =
     (let s = s0\<lparr>vs_reconciling := False\<rparr> in
      if vs_requested s \<and> \<not> vs_disposed s \<and> vs_connected s \<and> vs_selective s
      then reconcileMembership (s\<lparr>vs_requested := False\<rparr>)
      else if \<not> vs_disposed s \<and> vs_connected s \<and> vs_selective s \<and> \<not> vs_needsRetry s \<and>
        \<not> sameAgentIds (vs_desired s) (vs_acknowledged s)
      then reconcileMembership s
      else s)"

definition retryVisibleAgentTimeline :: "(string \<Rightarrow> timeline_cursor option) \<Rightarrow> string \<Rightarrow> sync_state \<Rightarrow> sync_state" where
  "retryVisibleAgentTimeline cursor a s =
     (if a \<notin> set (vs_desired s) \<or> a \<in> vs_retries s then s
      else
        (let failed = (case vs_catchUps s a of Some c \<Rightarrow> ca_status c = Failed_catch | None \<Rightarrow> False);
             membershipRetryable = (vs_selective s \<and> vs_needsRetry s \<and> vs_connected s);
             t = s\<lparr>vs_retries := insert a (vs_retries s)\<rparr> in
         if \<not> failed \<and> \<not> membershipRetryable then s
         else case (vs_catchUps s a, failed) of
           (Some c, True) \<Rightarrow> startCatchUp cursor a (ca_request c) True (cancel_timer (ca_cancelRetry c) t)
         | _ \<Rightarrow> reconcileMembership ((cancel_membership t)\<lparr>vs_retryDelay := None, vs_needsRetry := False\<rparr>)))"

definition reset_status :: "string list \<Rightarrow> sync_state \<Rightarrow> sync_state" where
  "reset_status ids s =
     s\<lparr>vs_pending := vs_pending s \<union> set ids, vs_errors := (\<lambda>a. if a \<in> set ids then None else vs_errors s a),
       vs_retries := vs_retries s - set ids\<rparr>"

definition leave_agent :: "string \<Rightarrow> sync_state \<Rightarrow> sync_state" where
  "leave_agent a s = setVisibilityCatchUpReady a (cancelCatchUp a s)"

definition enter_agent :: "string \<Rightarrow> sync_state \<Rightarrow> sync_state" where
  "enter_agent a s = ensureCacheLoaded a (reset_status [a] s)"

definition commitDesiredMembership ::
    "(string \<Rightarrow> timeline_cursor option) \<Rightarrow> string list \<Rightarrow> bool \<Rightarrow> sync_state \<Rightarrow> sync_state" where
  "commitDesiredMembership cursor next reset s0 =
     (let s = (if reset then reset_status next s0 else s0) in
      if sameAgentIds next (vs_desired s) then s
      else
        (let left = fold leave_agent (filter (\<lambda>a. a \<notin> set next) (vs_desired s)) s;
             entered = fold enter_agent (filter (\<lambda>a. a \<notin> set (vs_desired s)) next) left;
             t = (cancel_membership entered)\<lparr>vs_desired := next, vs_membership := vs_membership s + 1\<rparr> in
         if \<not> vs_selective t
         then (let u = t\<lparr>vs_acknowledged := (if vs_connected t then next else [])\<rparr> in
               if vs_connected u then startAcknowledgedCatchUps cursor u else u)
         else reconcileMembership t))"

definition publishVisibleMembership :: "(string \<Rightarrow> timeline_cursor option) \<Rightarrow> sync_state \<Rightarrow> sync_state" where
  "publishVisibleMembership cursor s =
     (let visible = visibleAgentIds s in
      if \<not> vs_connected s \<or> \<not> vs_selective s
      then (let activeVisible = (if vs_active s then visible else []) in
            commitDesiredMembership cursor activeVisible False (s\<lparr>vs_recent := activeVisible\<rparr>))
      else if \<not> vs_active s then s
      else (let (hot, recent) = selectHotAgentIds visible (vs_recent s) in
            commitDesiredMembership cursor hot False (s\<lparr>vs_recent := recent\<rparr>)))"

section \<open>What the client calls\<close>

datatype sync_status = S_ready | S_pending | S_error | S_retrying

definition getAgentTimelineStatus :: "sync_state \<Rightarrow> string \<Rightarrow> sync_status" where
  "getAgentTimelineStatus s a =
     (if a \<in> vs_retries s then S_retrying
      else if vs_errors s a \<noteq> None then S_error
      else if a \<notin> set (vs_desired s) \<or> a \<in> vs_pending s then S_pending
      else S_ready)"

definition getAgentTimelineError :: "sync_state \<Rightarrow> string \<Rightarrow> string option" where
  "getAgentTimelineError s a = vs_errors s a"

definition replaceVisibleAgentIds ::
    "(string \<Rightarrow> timeline_cursor option) \<Rightarrow> string \<Rightarrow> string list \<Rightarrow> sync_state \<Rightarrow> sync_state" where
  "replaceVisibleAgentIds cursor source ids s =
     (let normalized = normalizeAgentIds ids in
      publishVisibleMembership cursor
        (s\<lparr>vs_sources := (if normalized = [] then AList.delete source (vs_sources s)
                          else AList.update source normalized (vs_sources s))\<rparr>))"

definition setActive :: "(string \<Rightarrow> timeline_cursor option) \<Rightarrow> bool \<Rightarrow> sync_state \<Rightarrow> sync_state" where
  "setActive cursor active s =
     (if vs_active s = active then s else publishVisibleMembership cursor (s\<lparr>vs_active := active\<rparr>))"

definition setConnected :: "(string \<Rightarrow> timeline_cursor option) \<Rightarrow> bool \<Rightarrow> sync_state \<Rightarrow> sync_state" where
  "setConnected cursor connected s0 =
     (if vs_connected s0 = connected then s0
      else let s = s0\<lparr>vs_connected := connected\<rparr> in
      if \<not> connected
      then (let visible = (if vs_active s then visibleAgentIds s else []);
                t = cancel_membership (commitDesiredMembership cursor visible True (s\<lparr>vs_recent := visible\<rparr>))
            in fold cancelCatchUp (vs_desired t)
                 (t\<lparr>vs_retryDelay := None, vs_acknowledged := [], vs_membership := vs_membership t + 1\<rparr>))
      else (let t = s\<lparr>vs_membership := vs_membership s + 1\<rparr> in
            if \<not> vs_selective t then startAcknowledgedCatchUps cursor (t\<lparr>vs_acknowledged := vs_desired t\<rparr>)
            else reconcileMembership t))"

definition setDeliveryMode :: "(string \<Rightarrow> timeline_cursor option) \<Rightarrow> bool \<Rightarrow> sync_state \<Rightarrow> sync_state" where
  "setDeliveryMode cursor selective s0 =
     (if vs_selective s0 = selective then s0
      else
        (let s = (cancel_membership (s0\<lparr>vs_selective := selective\<rparr>))
                   \<lparr>vs_retryDelay := None, vs_needsRetry := False, vs_membership := vs_membership s0 + 1\<rparr>;
             t = fold cancelCatchUp (vs_desired s) s;
             visible = (if vs_active t then visibleAgentIds t else []);
             u = t\<lparr>vs_recent := visible, vs_desired := visible, vs_pending := set visible, vs_errors := (\<lambda>a. None),
                   vs_retries := {}, vs_acknowledged := (if \<not> selective \<and> vs_connected t then visible else [])\<rparr> in
         if selective \<and> vs_connected u then reconcileMembership u
         else if vs_connected u then startAcknowledgedCatchUps cursor u
         else u))"

definition recoverGap :: "(string \<Rightarrow> timeline_cursor option) \<Rightarrow> string \<Rightarrow> timeline_cursor \<Rightarrow> sync_state \<Rightarrow> sync_state" where
  "recoverGap cursor a c s =
     (if a \<notin> set (vs_desired s) then s else startCatchUp cursor a (Some (planTimelineCatchUpAfter c)) True s)"

definition dispose_sync :: "sync_state \<Rightarrow> sync_state" where
  "dispose_sync s0 =
     (let s = (cancel_membership (s0\<lparr>vs_disposed := True\<rparr>))
                \<lparr>vs_needsRetry := False, vs_retryDelay := None, vs_sources := [], vs_membership := vs_membership s0 + 1\<rparr>;
          t = fold cancelCatchUp (vs_desired s) s
      in t\<lparr>vs_desired := [], vs_acknowledged := [], vs_recent := [], vs_loaded := {}, vs_loads := {}, vs_pending := {},
           vs_errors := (\<lambda>a. None), vs_retries := {}\<rparr>)"

section \<open>Events\<close>

text \<open>A call of the client, a job that settles, or a timer that fires.\<close>

datatype sync_event =
    Visible_ids string "string list"
  | Set_active bool
  | Set_connected bool
  | Set_mode bool
  | Gap string timeline_cursor
  | Retry string
  | Dispose
  | Page_settles nat page_result
  | Job_settles nat "string option"
  | Timer_fires nat

fun settle_job :: "(string \<Rightarrow> timeline_cursor option) \<Rightarrow> sync_job \<Rightarrow> page_result \<Rightarrow> string option \<Rightarrow> sync_state \<Rightarrow> sync_state" where
  "settle_job cursor (Page_fetch a g request fallback) page failure s = fetchUntilCurrent cursor a g request fallback page s"
| "settle_job cursor (Tail_fetch a g request) page failure s = tail_fetched a g request page s"
| "settle_job cursor (Cache_load a) page failure s = cache_loaded cursor a s"
| "settle_job cursor (Subscription g ids) page failure s = subscription_settled cursor g ids failure s"
| "settle_job cursor Reconcile_end page failure s = reconcile_end s"

fun is_fetch :: "sync_job \<Rightarrow> bool" where
  "is_fetch (Page_fetch a g request fallback) = True"
| "is_fetch (Tail_fetch a g request) = True"
| "is_fetch _ = False"

text \<open>The callbacks of the timers.\<close>

fun fire_timer :: "(string \<Rightarrow> timeline_cursor option) \<Rightarrow> sync_timer \<Rightarrow> sync_state \<Rightarrow> sync_state" where
  "fire_timer cursor (Catch_timer a g) s =
     (case vs_catchUps s a of
        Some c \<Rightarrow>
          if ca_generation c \<noteq> g \<or> ca_status c \<noteq> Failed_catch then s else startCatchUp cursor a None False s
      | None \<Rightarrow> s)"
| "fire_timer cursor (Membership_timer g ids) s0 =
     (let s = s0\<lparr>vs_cancelRetry := None\<rparr> in
      if vs_disposed s \<or> \<not> vs_connected s \<or> vs_membership s \<noteq> g \<or> \<not> sameAgentIds (vs_desired s) ids then s
      else reconcileMembership s)"

fun sync_step :: "(string \<Rightarrow> timeline_cursor option) \<Rightarrow> sync_event \<Rightarrow> sync_state \<Rightarrow> sync_state" where
  "sync_step cursor (Visible_ids source ids) s = replaceVisibleAgentIds cursor source ids s"
| "sync_step cursor (Set_active b) s = setActive cursor b s"
| "sync_step cursor (Set_connected b) s = setConnected cursor b s"
| "sync_step cursor (Set_mode b) s = setDeliveryMode cursor b s"
| "sync_step cursor (Gap a c) s = recoverGap cursor a c s"
| "sync_step cursor (Retry a) s = retryVisibleAgentTimeline cursor a s"
| "sync_step cursor Dispose s = dispose_sync s"
| "sync_step cursor (Page_settles n page) s =
     (if n < length (vs_jobs s) \<and> is_fetch (vs_jobs s ! n)
      then settle_job cursor (vs_jobs s ! n) page None (s\<lparr>vs_jobs := remove_nth n (vs_jobs s)\<rparr>) else s)"
| "sync_step cursor (Job_settles n failure) s =
     (if n < length (vs_jobs s) \<and> \<not> is_fetch (vs_jobs s ! n)
      then settle_job cursor (vs_jobs s ! n) (Inl []) failure (s\<lparr>vs_jobs := remove_nth n (vs_jobs s)\<rparr>) else s)"
| "sync_step cursor (Timer_fires n) s =
     (case map_of (vs_timers s) n of
        None \<Rightarrow> s
      | Some t \<Rightarrow> fire_timer cursor t (s\<lparr>vs_timers := filter (\<lambda>x. fst x \<noteq> n) (vs_timers s)\<rparr>))"

definition sync_run :: "bool \<Rightarrow> ((string \<Rightarrow> timeline_cursor option) \<times> sync_event) list \<Rightarrow> sync_state" where
  "sync_run selective es = fold (\<lambda>(cursor, e) s. sync_step cursor e s) es (sync_start selective)"

end
