(* ===== verification/Timeline_Sync_Spec.thy ===== *)
theory Timeline_Sync_Spec
  imports Timeline_Sync
begin

text \<open>
  What is owed to a viewed timeline: while the client is connected, an agent that it shows and whose
  timeline is not ready is being worked on. The invariant has four parts: the jobs and timers that
  are there for the catch-ups, those for the caches, those for the membership, and what each agent
  that is not ready waits for.
\<close>

section \<open>What is under way\<close>

fun fetches :: "string \<Rightarrow> nat \<Rightarrow> sync_job \<Rightarrow> bool" where
  "fetches a g (Page_fetch b h request fallback) = (a = b \<and> g = h)"
| "fetches a g (Tail_fetch b h request) = (a = b \<and> g = h)"
| "fetches a g _ = False"

fun member_job :: "sync_job \<Rightarrow> bool" where
  "member_job (Subscription g ids) = True"
| "member_job Reconcile_end = True"
| "member_job _ = False"

text \<open>The membership is on its way to what is desired.\<close>

definition member_moves :: "sync_state \<Rightarrow> bool" where
  "member_moves s \<longleftrightarrow> vs_selective s \<and>
     (list_ex (\<lambda>j. member_job j \<and> j \<noteq> Reconcile_end) (vs_jobs s) \<or>
      Reconcile_end \<in> set (vs_jobs s) \<and> (if vs_needsRetry s then vs_requested s else vs_desired s \<noteq> vs_acknowledged s) \<or>
      vs_needsRetry s \<and> Membership_timer (vs_membership s) (vs_desired s) \<in> snd ` set (vs_timers s))"

text \<open>A catch-up that runs has a fetch, one that failed a timer.\<close>

definition catch_live :: "sync_state \<Rightarrow> string \<Rightarrow> bool" where
  "catch_live s a \<longleftrightarrow>
     (case vs_catchUps s a of
        None \<Rightarrow> True
      | Some c \<Rightarrow>
          (case ca_status c of
             Running \<Rightarrow> list_ex (fetches a (ca_generation c)) (vs_jobs s)
           | Failed_catch \<Rightarrow> \<exists>i. ca_cancelRetry c = Some i \<and> (i, Catch_timer a (ca_generation c)) \<in> set (vs_timers s)
           | Complete \<Rightarrow> a \<notin> vs_pending s \<and> a \<notin> vs_retries s))"

definition catch_here :: "sync_state \<Rightarrow> string \<Rightarrow> bool" where
  "catch_here s a \<longleftrightarrow>
     (vs_catchUps s a \<noteq> None \<longrightarrow>
      vs_connected s \<and> a \<in> set (vs_desired s) \<and> a \<in> set (vs_acknowledged s) \<and> a \<in> vs_loaded s)"

definition timers_ok :: "sync_state \<Rightarrow> bool" where
  "timers_ok s \<longleftrightarrow>
     distinct (map fst (vs_timers s)) \<and> (\<forall>i \<in> fst ` set (vs_timers s). i < vs_nextTimer s) \<and>
     (\<forall>i g ids. (i, Membership_timer g ids) \<in> set (vs_timers s) \<longrightarrow> vs_cancelRetry s = Some i) \<and>
     (\<forall>i. vs_cancelRetry s = Some i \<longrightarrow> i < vs_nextTimer s \<and> (\<forall>a g. (i, Catch_timer a g) \<notin> set (vs_timers s))) \<and>
     (\<forall>a c i. vs_catchUps s a = Some c \<longrightarrow> ca_cancelRetry c = Some i \<longrightarrow>
        i < vs_nextTimer s \<and> (\<forall>t. (i, t) \<in> set (vs_timers s) \<longrightarrow> (\<exists>g. t = Catch_timer a g)))"

definition caches_ok :: "sync_state \<Rightarrow> bool" where
  "caches_ok s \<longleftrightarrow> (\<forall>a. count_list (vs_jobs s) (Cache_load a) = (if a \<in> vs_loads s then 1 else 0))"

definition member_ok :: "sync_state \<Rightarrow> bool" where
  "member_ok s \<longleftrightarrow>
     length (filter member_job (vs_jobs s)) = (if vs_reconciling s then 1 else 0) \<and>
     (\<forall>g ids. Subscription g ids \<in> set (vs_jobs s) \<longrightarrow>
        \<not> vs_needsRetry s \<and> g \<le> vs_membership s \<and> (g = vs_membership s \<longrightarrow> ids = vs_desired s) \<and>
        (vs_connected s \<longrightarrow> vs_selective s \<longrightarrow> g \<noteq> vs_membership s \<longrightarrow> vs_requested s)) \<and>
     (vs_connected s \<longrightarrow> vs_selective s \<longrightarrow> vs_desired s \<noteq> vs_acknowledged s \<or> vs_needsRetry s \<longrightarrow> member_moves s) \<and>
     (vs_connected s \<longrightarrow> \<not> vs_selective s \<longrightarrow> vs_acknowledged s = vs_desired s) \<and>
     (\<not> vs_connected s \<longrightarrow> vs_acknowledged s = [])"

definition attended :: "sync_state \<Rightarrow> string \<Rightarrow> bool" where
  "attended s a \<longleftrightarrow>
     member_moves s \<or> a \<in> set (vs_acknowledged s) \<and> (a \<in> vs_loads s \<or> vs_catchUps s a \<noteq> None)"

definition sync_ok :: "sync_state \<Rightarrow> bool" where
  "sync_ok s \<longleftrightarrow>
     \<not> vs_disposed s \<and> timers_ok s \<and> caches_ok s \<and> member_ok s \<and> (\<forall>a. catch_live s a \<and> catch_here s a) \<and>
     vs_pending s \<subseteq> set (vs_desired s) \<and> vs_retries s \<subseteq> set (vs_desired s) \<and>
     (vs_connected s \<longrightarrow> (\<forall>a \<in> set (vs_desired s). a \<in> vs_pending s \<or> a \<in> vs_retries s \<longrightarrow> attended s a))"

section \<open>Steps that leave the membership alone\<close>

definition same_member :: "sync_state \<Rightarrow> sync_state \<Rightarrow> bool" where
  "same_member s t \<longleftrightarrow>
     filter member_job (vs_jobs t) = filter member_job (vs_jobs s) \<and>
     (\<forall>i g ids. (i, Membership_timer g ids) \<in> set (vs_timers t) \<longleftrightarrow> (i, Membership_timer g ids) \<in> set (vs_timers s)) \<and>
     vs_connected t = vs_connected s \<and> vs_selective t = vs_selective s \<and> vs_disposed t = vs_disposed s \<and>
     vs_desired t = vs_desired s \<and> vs_acknowledged t = vs_acknowledged s \<and> vs_membership t = vs_membership s \<and>
     vs_reconciling t = vs_reconciling s \<and> vs_requested t = vs_requested s \<and> vs_needsRetry t = vs_needsRetry s \<and>
     vs_cancelRetry t = vs_cancelRetry s"

lemma same_member_refl [simp]: "same_member s s"
  by (simp add: same_member_def)

lemma same_member_trans: "same_member s t \<Longrightarrow> same_member t u \<Longrightarrow> same_member s u"
  by (simp add: same_member_def)

lemma member_job_iff: "member_job j \<longleftrightarrow> (\<exists>g ids. j = Subscription g ids) \<or> j = Reconcile_end"
  by (cases j) auto

lemma same_member_jobs:
  assumes "same_member s t" "member_job j"
  shows "j \<in> set (vs_jobs t) \<longleftrightarrow> j \<in> set (vs_jobs s)"
proof -
  have "set (filter member_job (vs_jobs t)) = set (filter member_job (vs_jobs s))" using assms(1) by (simp add: same_member_def)
  then show ?thesis using assms(2) by auto
qed

lemma member_moves_alt:
  "member_moves s \<longleftrightarrow> vs_selective s \<and>
     ((\<exists>g ids. Subscription g ids \<in> set (vs_jobs s)) \<or>
      Reconcile_end \<in> set (vs_jobs s) \<and> (if vs_needsRetry s then vs_requested s else vs_desired s \<noteq> vs_acknowledged s) \<or>
      vs_needsRetry s \<and> (\<exists>i. (i, Membership_timer (vs_membership s) (vs_desired s)) \<in> set (vs_timers s)))"
proof -
  have "list_ex (\<lambda>j. member_job j \<and> j \<noteq> Reconcile_end) (vs_jobs s) \<longleftrightarrow> (\<exists>g ids. Subscription g ids \<in> set (vs_jobs s))"
    by (auto simp: list_ex_iff member_job_iff)
  moreover have "Membership_timer (vs_membership s) (vs_desired s) \<in> snd ` set (vs_timers s) \<longleftrightarrow>
      (\<exists>i. (i, Membership_timer (vs_membership s) (vs_desired s)) \<in> set (vs_timers s))"
    by force
  ultimately show ?thesis by (simp add: member_moves_def)
qed

lemma same_member_moves: "same_member s t \<Longrightarrow> member_moves t = member_moves s"
  using same_member_jobs[of s t "Reconcile_end"] same_member_jobs[of s t "Subscription g ids" for g ids]
  by (simp add: member_moves_alt same_member_def)

lemma same_member_ok: "same_member s t \<Longrightarrow> member_ok s \<Longrightarrow> member_ok t"
  using same_member_jobs[of s t "Subscription g ids" for g ids] same_member_moves[of s t]
  by (simp add: member_ok_def same_member_def)

text \<open>What the steps of a catch-up keep; only \<open>a\<close> is touched.\<close>

definition calm :: "string \<Rightarrow> sync_state \<Rightarrow> sync_state \<Rightarrow> bool" where
  "calm a s t \<longleftrightarrow>
     same_member s t \<and> (timers_ok s \<longrightarrow> timers_ok t) \<and> (caches_ok s \<longrightarrow> caches_ok t) \<and>
     vs_loaded t = vs_loaded s \<and> vs_loads s \<subseteq> vs_loads t \<and> vs_pending t \<subseteq> vs_pending s \<and> vs_retries t \<subseteq> vs_retries s \<and>
     (\<forall>b. b \<noteq> a \<longrightarrow> vs_catchUps t b = vs_catchUps s b \<and> (timers_ok s \<longrightarrow> catch_live s b \<longrightarrow> catch_live t b))"

lemma calm_refl [simp]: "calm a s s"
  by (simp add: calm_def)

lemma calm_trans: "calm a s t \<Longrightarrow> calm a t u \<Longrightarrow> calm a s u"
  by (auto simp: calm_def intro: same_member_trans)

lemma calm_cancel:
  assumes "timers_ok s" "vs_catchUps s a = Some c"
  shows "calm a s (cancel_timer (ca_cancelRetry c) s)"
proof (cases "ca_cancelRetry c")
  case (Some i)
  have own: "\<exists>g. t = Catch_timer a g" if "(i, t) \<in> set (vs_timers s)" for t
    using assms Some that by (auto simp: timers_ok_def)
  have m: "(j, Membership_timer g ids) \<in> set (filter (\<lambda>x. fst x \<noteq> i) (vs_timers s)) \<longleftrightarrow> (j, Membership_timer g ids) \<in> set (vs_timers s)" for j g ids
    using own[of "Membership_timer g ids"] by auto
  have "distinct (map fst (filter (\<lambda>x. fst x \<noteq> i) (vs_timers s)))"
    using assms(1) by (simp add: timers_ok_def distinct_map_filter)
  moreover have "j \<noteq> i" if "(j, Catch_timer b g) \<in> set (vs_timers s)" "b \<noteq> a" for j b g using own that by auto
  ultimately show ?thesis
    using Some m assms(1)
    by (auto simp: calm_def cancel_timer_def same_member_def timers_ok_def caches_ok_def catch_live_def split: option.splits catch_status.splits)
qed (simp add: cancel_timer_def)

lemma calm_set:
  assumes "ca_cancelRetry c = None"
  shows "calm a s (s\<lparr>vs_generations := gs, vs_catchUps := (vs_catchUps s)(a := Some c), vs_parked := ps\<rparr>)"
  using assms by (auto simp: calm_def same_member_def timers_ok_def caches_ok_def catch_live_def split: option.splits catch_status.splits)

lemma calm_parked: "calm a s (s\<lparr>vs_parked := ps\<rparr>)"
  by (auto simp: calm_def same_member_def timers_ok_def caches_ok_def catch_live_def split: option.splits catch_status.splits)

lemma calm_park: "calm a s (park a request s)"
  by (cases request) (simp_all add: park_def calm_parked)

lemma calm_fetch: "is_fetch j \<Longrightarrow> calm a s (start_job j s)"
  by (cases j) (auto simp: calm_def start_job_def same_member_def timers_ok_def caches_ok_def catch_live_def split: option.splits catch_status.splits)

lemma calm_cache: "calm a s (ensureCacheLoaded a s)"
  by (auto simp: calm_def ensureCacheLoaded_def start_job_def same_member_def timers_ok_def caches_ok_def catch_live_def split: option.splits catch_status.splits)

lemma calm_member:
  assumes "calm a s t"
  shows "vs_connected t = vs_connected s" "vs_selective t = vs_selective s" "vs_disposed t = vs_disposed s"
    "vs_desired t = vs_desired s" "vs_acknowledged t = vs_acknowledged s" "vs_loaded t = vs_loaded s"
  using assms by (simp_all add: calm_def same_member_def)

text \<open>A catch-up that is replaced.\<close>

lemma calm_replace:
  assumes "timers_ok s" "ca_cancelRetry c' = None"
    and t: "t = (case vs_catchUps s a of None \<Rightarrow> s | Some c \<Rightarrow> cancel_timer (ca_cancelRetry c) s)"
  shows "calm a s (start_job (Page_fetch a g p f)
    (t\<lparr>vs_generations := (vs_generations t)(a := g), vs_catchUps := (vs_catchUps t)(a := Some c'), vs_parked := (vs_parked t)(a := None)\<rparr>))"
proof -
  have "calm a s t" using assms(1) t calm_cancel by (auto split: option.splits)
  then show ?thesis by (rule calm_trans[OF calm_trans[OF _ calm_set[OF assms(2)]] calm_fetch]) simp
qed

lemma start_replaces:
  assumes "timers_ok s" "\<not> vs_disposed s"
    and here: "vs_connected s" "a \<in> set (vs_desired s)" "a \<in> set (vs_acknowledged s)" "a \<in> vs_loaded s"
    and replace: "decideCatchUp (vs_catchUps s a) (case request of Some p \<Rightarrow> p | None \<Rightarrow> planTimelineResumeFetch (cursor a)) supersede = Replace"
  shows "calm a s (startCatchUp cursor a request supersede s)" "catch_live (startCatchUp cursor a request supersede s) a"
    "vs_catchUps (startCatchUp cursor a request supersede s) a \<noteq> None"
proof -
  let ?t = "startCatchUp cursor a request supersede s"
  define p where "p = (case request of Some p \<Rightarrow> p | None \<Rightarrow> planTimelineResumeFetch (cursor a))"
  define d where "d = (case vs_catchUps s a of Some c \<Rightarrow> if supersede \<or> ca_status c \<noteq> Failed_catch then None else ca_retryDelay c | None \<Rightarrow> None)"
  define g where "g = vs_generations s a + 1"
  define c' where "c' = \<lparr>ca_generation = g, ca_status = Running, ca_request = Some p, ca_cancelRetry = None, ca_retryDelay = d\<rparr>"
  define u where "u = (case vs_catchUps s a of None \<Rightarrow> s | Some c \<Rightarrow> cancel_timer (ca_cancelRetry c) s)"
  let ?v = "u\<lparr>vs_generations := (vs_generations u)(a := g), vs_catchUps := (vs_catchUps u)(a := Some c'), vs_parked := (vs_parked u)(a := None)\<rparr>"
  have e: "?t = fetch_page a g p (request = None \<and> fp_direction p = After) ?v"
    using here replace unfolding c'_def g_def
    by (simp add: startCatchUp_def p_def[symmetric] u_def[symmetric] d_def[symmetric] Let_def)
  have "calm a s u" using assms(1) calm_cancel by (auto simp: u_def split: option.splits)
  then have "ownsCatchUp a g ?v" using here assms(2) by (simp add: ownsCatchUp_def c'_def calm_member)
  then have t: "?t = start_job (Page_fetch a g p (request = None \<and> fp_direction p = After)) ?v" using e by (simp add: fetch_page_def)
  show "calm a s ?t" unfolding t by (rule calm_replace[OF assms(1) _ u_def]) (simp add: c'_def)
  show "vs_catchUps ?t a \<noteq> None" "catch_live ?t a" unfolding t by (simp_all add: start_job_def catch_live_def c'_def)
qed

lemma start_catch:
  assumes s: "timers_ok s" "\<not> vs_disposed s" "catch_here s a"
    and live: "catch_live s a \<or> supersede \<and> (\<exists>c. vs_catchUps s a = Some c \<and> ca_status c = Complete)"
  shows "calm a s (startCatchUp cursor a request supersede s)" "catch_live (startCatchUp cursor a request supersede s) a"
    "catch_here (startCatchUp cursor a request supersede s) a"
    "vs_connected s \<Longrightarrow> a \<in> set (vs_desired s) \<Longrightarrow> a \<in> set (vs_acknowledged s) \<Longrightarrow>
       a \<in> vs_loads (startCatchUp cursor a request supersede s) \<or> vs_catchUps (startCatchUp cursor a request supersede s) a \<noteq> None"
proof -
  let ?t = "startCatchUp cursor a request supersede s"
  have "calm a s ?t \<and> catch_live ?t a \<and> catch_here ?t a \<and>
    (vs_connected s \<longrightarrow> a \<in> set (vs_desired s) \<longrightarrow> a \<in> set (vs_acknowledged s) \<longrightarrow> a \<in> vs_loads ?t \<or> vs_catchUps ?t a \<noteq> None)"
  proof (cases "vs_connected s \<and> a \<in> set (vs_desired s) \<and> a \<in> set (vs_acknowledged s)")
    case False
    then have t: "?t = park a request s" by (auto simp: startCatchUp_def)
    have "vs_catchUps s a = None" using s(3) False by (auto simp: catch_here_def)
    then show ?thesis using False unfolding t by (cases request) (auto simp: calm_parked park_def catch_live_def catch_here_def)
  next
    case here: True
    show ?thesis
    proof (cases "a \<in> vs_loaded s")
      case False
      then have t: "?t = ensureCacheLoaded a (park a request s)" using here by (simp add: startCatchUp_def)
      have "vs_catchUps s a = None" using s(3) False by (auto simp: catch_here_def)
      then have "vs_catchUps ?t a = None" "a \<in> vs_loads ?t" using False
        unfolding t by (cases request; simp add: ensureCacheLoaded_def park_def start_job_def)+
      then show ?thesis using calm_trans[OF calm_park calm_cache] unfolding t by (simp add: catch_live_def catch_here_def)
    next
      case True
      define p where "p = (case request of Some p \<Rightarrow> p | None \<Rightarrow> planTimelineResumeFetch (cursor a))"
      show ?thesis
      proof (cases "decideCatchUp (vs_catchUps s a) p supersede")
        case Keep
        then have "?t = s" using here True by (simp add: startCatchUp_def p_def[symmetric])
        moreover obtain c where "vs_catchUps s a = Some c" "\<not> (supersede \<and> ca_status c = Complete)"
          using Keep by (auto simp: decideCatchUp_def split: option.splits if_splits)
        ultimately show ?thesis using live s(3) by auto
      next
        case Keep_and_park
        then have "?t = s\<lparr>vs_parked := (vs_parked s)(a := Some p)\<rparr>" using here True by (simp add: startCatchUp_def p_def[symmetric])
        moreover obtain c where "vs_catchUps s a = Some c" "ca_status c = Running"
          using Keep_and_park by (auto simp: decideCatchUp_def split: option.splits if_splits)
        ultimately show ?thesis using live s(3) by (auto simp: calm_parked catch_live_def catch_here_def)
      next
        case Replace
        have h: "vs_connected s" "a \<in> set (vs_desired s)" "a \<in> set (vs_acknowledged s)" using here by auto
        note r = start_replaces[where cursor = cursor, OF s(1,2) h True Replace[unfolded p_def]]
        have c: "calm a s ?t" by (rule r(1))
        then show ?thesis using r(2,3) here True by (simp add: catch_here_def calm_member[OF c])
      qed
    qed
  qed
  then show "calm a s ?t" "catch_live ?t a" "catch_here ?t a"
    "vs_connected s \<Longrightarrow> a \<in> set (vs_desired s) \<Longrightarrow> a \<in> set (vs_acknowledged s) \<Longrightarrow> a \<in> vs_loads ?t \<or> vs_catchUps ?t a \<noteq> None"
    by auto
qed

text \<open>The part of the invariant that catching up rests on, and what it brings about.\<close>

definition sync_core :: "sync_state \<Rightarrow> bool" where
  "sync_core s \<longleftrightarrow> \<not> vs_disposed s \<and> timers_ok s \<and> caches_ok s \<and> (\<forall>a. catch_live s a \<and> catch_here s a)"

definition started :: "sync_state \<Rightarrow> string \<Rightarrow> bool" where
  "started s a \<longleftrightarrow> a \<in> vs_loads s \<or> vs_catchUps s a \<noteq> None"

definition progress :: "sync_state \<Rightarrow> sync_state \<Rightarrow> bool" where
  "progress s t \<longleftrightarrow>
     same_member s t \<and> vs_pending t \<subseteq> vs_pending s \<and> vs_retries t \<subseteq> vs_retries s \<and>
     (\<forall>a. vs_connected s \<longrightarrow> a \<in> set (vs_desired s) \<longrightarrow> a \<in> set (vs_acknowledged s) \<longrightarrow> started s a \<longrightarrow> started t a)"

lemma progress_refl [simp]: "progress s s"
  by (simp add: progress_def)

lemma progress_trans:
  assumes "progress s t" "progress t u"
  shows "progress s u"
proof -
  have m: "same_member s t" "same_member t u" using assms by (simp_all add: progress_def)
  have e: "vs_connected t = vs_connected s" "vs_desired t = vs_desired s" "vs_acknowledged t = vs_acknowledged s"
    using m(1) by (simp_all add: same_member_def)
  have "vs_pending u \<subseteq> vs_pending s" "vs_retries u \<subseteq> vs_retries s"
    using assms subset_trans by (simp_all only: progress_def) blast+
  moreover have "\<forall>a. vs_connected s \<longrightarrow> a \<in> set (vs_desired s) \<longrightarrow> a \<in> set (vs_acknowledged s) \<longrightarrow> started s a \<longrightarrow> started u a"
    using assms e by (simp add: progress_def)
  ultimately show ?thesis using same_member_trans[OF m] by (simp add: progress_def)
qed

lemma calm_core:
  assumes "sync_core s" "calm a s t" "catch_live t a" "catch_here t a"
  shows "sync_core t"
proof -
  have s: "timers_ok s" "caches_ok s" "\<not> vs_disposed s" "catch_live s b" "catch_here s b" for b
    using assms(1) by (simp_all add: sync_core_def)
  have t: "timers_ok t" "caches_ok t" using assms(2) s by (simp_all add: calm_def)
  have c: "vs_catchUps t b = vs_catchUps s b" "catch_live t b" if "b \<noteq> a" for b
    using assms(2) s that by (simp_all add: calm_def)
  have "catch_live t b \<and> catch_here t b" for b
    using assms(3,4) c s(5)[of b] calm_member[OF assms(2)] by (cases "b = a") (simp_all add: catch_here_def)
  then show ?thesis using t s(3) calm_member(3)[OF assms(2)] by (simp add: sync_core_def)
qed

lemma calm_progress:
  assumes "calm a s t"
    and "vs_connected s \<Longrightarrow> a \<in> set (vs_desired s) \<Longrightarrow> a \<in> set (vs_acknowledged s) \<Longrightarrow> started s a \<Longrightarrow> started t a"
  shows "progress s t"
proof -
  have l: "vs_loads s \<subseteq> vs_loads t" and c: "\<And>b. b \<noteq> a \<Longrightarrow> vs_catchUps t b = vs_catchUps s b"
    using assms(1) by (simp_all add: calm_def)
  have b: "started t b" if "b \<noteq> a" "started s b" for b using l c[OF that(1)] that(2) by (auto simp: started_def)
  have a: "started t b" if "vs_connected s" "b \<in> set (vs_desired s)" "b \<in> set (vs_acknowledged s)" "started s b" for b
    using assms(2) b that by (cases "b = a") simp_all
  have "same_member s t" "vs_pending t \<subseteq> vs_pending s" "vs_retries t \<subseteq> vs_retries s"
    using assms(1) by (simp_all add: calm_def)
  then show ?thesis using a by (simp add: progress_def)
qed

lemma start_core:
  assumes "sync_core s"
  shows "sync_core (startCatchUp cursor a request supersede s)" "progress s (startCatchUp cursor a request supersede s)"
    "vs_connected s \<Longrightarrow> a \<in> set (vs_desired s) \<Longrightarrow> a \<in> set (vs_acknowledged s) \<Longrightarrow> started (startCatchUp cursor a request supersede s) a"
proof -
  let ?t = "startCatchUp cursor a request supersede s"
  have s: "timers_ok s" "\<not> vs_disposed s" "catch_here s a" "catch_live s a" using assms by (simp_all add: sync_core_def)
  note r = start_catch[OF s(1-3) disjI1[OF s(4)], where cursor = cursor and request = request and supersede = supersede]
  show "sync_core ?t" by (rule calm_core[OF assms r(1-3)])
  show st: "started ?t a" if "vs_connected s" "a \<in> set (vs_desired s)" "a \<in> set (vs_acknowledged s)"
    using r(4)[OF that] by (simp add: started_def)
  show "progress s ?t" by (rule calm_progress[OF r(1) st])
qed

lemma acknowledged_core:
  assumes "sync_core s"
  shows "sync_core (startAcknowledgedCatchUps cursor s)" "progress s (startAcknowledgedCatchUps cursor s)"
    "vs_connected s \<Longrightarrow> a \<in> set (vs_desired s) \<Longrightarrow> a \<in> set (vs_acknowledged s) \<Longrightarrow> started (startAcknowledgedCatchUps cursor s) a"
proof -
  define f where "f = (\<lambda>a s. startCatchUp cursor a (vs_parked s a) (vs_parked s a \<noteq> None) s)"
  have f: "sync_core (f x u)" "progress u (f x u)"
    "vs_connected u \<Longrightarrow> x \<in> set (vs_desired u) \<Longrightarrow> x \<in> set (vs_acknowledged u) \<Longrightarrow> started (f x u) x" if "sync_core u" for x u
    unfolding f_def using start_core[OF that] by blast+
  have "sync_core (fold f as s) \<and> progress s (fold f as s) \<and>
      (\<forall>a \<in> set as. vs_connected s \<longrightarrow> a \<in> set (vs_desired s) \<longrightarrow> a \<in> set (vs_acknowledged s) \<longrightarrow> started (fold f as s) a)" for as
  proof (induction as rule: rev_induct)
    case (snoc x xs)
    let ?u = "fold f xs s"
    have u: "sync_core ?u" "progress s ?u" using snoc by auto
    have st: "sync_core (f x ?u)" "progress ?u (f x ?u)" using f(1,2)[OF u(1)] by blast+
    have m: "vs_connected ?u = vs_connected s" "vs_desired ?u = vs_desired s" "vs_acknowledged ?u = vs_acknowledged s"
      using u(2) by (simp_all add: progress_def same_member_def)
    have x: "started (f x ?u) x" if "vs_connected s" "x \<in> set (vs_desired s)" "x \<in> set (vs_acknowledged s)"
      using f(3)[OF u(1)] that m by simp
    have "started (f x ?u) b" if "b \<in> set xs" "vs_connected s" "b \<in> set (vs_desired s)" "b \<in> set (vs_acknowledged s)" for b
    proof -
      have "started ?u b" using snoc that by blast
      then show ?thesis using st(2) that m by (simp add: progress_def)
    qed
    then show ?case using x st progress_trans[OF u(2) st(2)] by auto
  qed (use assms in simp)
  note r = this[of "vs_acknowledged s"]
  show "sync_core (startAcknowledgedCatchUps cursor s)" "progress s (startAcknowledgedCatchUps cursor s)"
    "vs_connected s \<Longrightarrow> a \<in> set (vs_desired s) \<Longrightarrow> a \<in> set (vs_acknowledged s) \<Longrightarrow> started (startAcknowledgedCatchUps cursor s) a"
    using r by (auto simp: startAcknowledgedCatchUps_def f_def)
qed

lemma sync_ok_iff:
  "sync_ok s \<longleftrightarrow> sync_core s \<and> member_ok s \<and> vs_pending s \<subseteq> set (vs_desired s) \<and> vs_retries s \<subseteq> set (vs_desired s) \<and>
     (vs_connected s \<longrightarrow> (\<forall>a \<in> set (vs_desired s). a \<in> vs_pending s \<or> a \<in> vs_retries s \<longrightarrow>
        member_moves s \<or> a \<in> set (vs_acknowledged s) \<and> started s a))"
  by (auto simp: sync_ok_def sync_core_def attended_def started_def)

lemma progress_ok:
  assumes "sync_ok s" "sync_core t" "progress s t"
  shows "sync_ok t"
proof -
  have m: "same_member s t" and p: "vs_pending t \<subseteq> vs_pending s" "vs_retries t \<subseteq> vs_retries s"
    and st: "\<And>a. vs_connected s \<Longrightarrow> a \<in> set (vs_desired s) \<Longrightarrow> a \<in> set (vs_acknowledged s) \<Longrightarrow> started s a \<Longrightarrow> started t a"
    using assms(3) by (simp_all add: progress_def)
  have e: "vs_connected t = vs_connected s" "vs_desired t = vs_desired s" "vs_acknowledged t = vs_acknowledged s"
    using m by (simp_all add: same_member_def)
  have "member_ok t" using same_member_ok[OF m] assms(1) by (simp add: sync_ok_iff)
  then show ?thesis using assms(1,2) st using p unfolding sync_ok_iff e same_member_moves[OF m] by blast
qed

lemma start_ok: "sync_ok s \<Longrightarrow> sync_ok (startCatchUp cursor a request supersede s)"
  using progress_ok[OF _ start_core(1,2)] by (simp add: sync_ok_iff)

section \<open>Fetches and caches settle\<close>

lemma remove_nth_split: "n < length xs \<Longrightarrow> \<exists>ys zs. xs = ys @ xs ! n # zs \<and> remove_nth n xs = ys @ zs"
  using id_take_nth_drop[of n xs] unfolding remove_nth_def by blast

text \<open>The states after a job of \<open>a\<close> has been taken from those under way.\<close>

lemma fetch_removed:
  assumes "n < length (vs_jobs s)" "is_fetch (vs_jobs s ! n)" "\<And>b h. b \<noteq> a \<or> h \<noteq> g \<Longrightarrow> \<not> fetches b h (vs_jobs s ! n)"
  shows "calm a s (s\<lparr>vs_jobs := remove_nth n (vs_jobs s)\<rparr>)"
    "list_ex (fetches a h) (vs_jobs s) \<Longrightarrow> h \<noteq> g \<Longrightarrow> list_ex (fetches a h) (remove_nth n (vs_jobs s))"
proof -
  obtain ys zs where js: "vs_jobs s = ys @ vs_jobs s ! n # zs" "remove_nth n (vs_jobs s) = ys @ zs"
    using remove_nth_split[OF assms(1)] by blast
  define j where "j = vs_jobs s ! n"
  have j: "is_fetch j" "\<not> member_job j" "\<And>b. j \<noteq> Cache_load b" "\<And>b h. b \<noteq> a \<or> h \<noteq> g \<Longrightarrow> \<not> fetches b h j"
    using assms(2,3) unfolding j_def by (cases "vs_jobs s ! n"; simp)+
  have e: "vs_jobs s = ys @ j # zs" "remove_nth n (vs_jobs s) = ys @ zs" using js by (simp_all add: j_def)
  have "calm a s (s\<lparr>vs_jobs := ys @ zs\<rparr>)"
    using j by (auto simp: e(1) calm_def same_member_def timers_ok_def caches_ok_def catch_live_def split: option.splits catch_status.splits)
  then show "calm a s (s\<lparr>vs_jobs := remove_nth n (vs_jobs s)\<rparr>)" unfolding e(2) .
  show "list_ex (fetches a h) (remove_nth n (vs_jobs s))" if "list_ex (fetches a h) (vs_jobs s)" "h \<noteq> g"
    using that j(4)[of a h] unfolding e(2) by (simp add: e(1))
qed

lemma calm_failed:
  assumes "timers_ok s" "vs_catchUps s a = Some c" "ca_generation c = g"
  shows "calm a s (catch_failed a g request message s)" "catch_live (catch_failed a g request message s) a"
    "vs_catchUps (catch_failed a g request message s) a \<noteq> None"
proof -
  let ?n = "vs_nextTimer s"
  have n: "?n \<notin> fst ` set (vs_timers s)" using assms(1) by (auto simp: timers_ok_def)
  have n': "(?n, t) \<notin> set (vs_timers s)" for t using n by force
  have "ca_cancelRetry d \<noteq> Some ?n" if "vs_catchUps s b = Some d" for b d
    using assms(1) that unfolding timers_ok_def by (metis less_irrefl)
  then show "calm a s (catch_failed a g request message s)"
    using assms n n'
    by (auto simp: catch_failed_def Let_def add_timer_def setVisibilityCatchUpError_def calm_def same_member_def timers_ok_def caches_ok_def
      catch_live_def less_Suc_eq split: option.splits catch_status.splits)
  show "catch_live (catch_failed a g request message s) a" "vs_catchUps (catch_failed a g request message s) a \<noteq> None"
    using assms by (simp_all add: catch_failed_def Let_def add_timer_def setVisibilityCatchUpError_def catch_live_def)
qed

lemma calm_complete:
  "calm a s (catch_complete a g s)" "calm a s (setVisibilityCatchUpReady a s)"
  by (auto simp: catch_complete_def setVisibilityCatchUpReady_def calm_def same_member_def timers_ok_def caches_ok_def catch_live_def
      split: option.splits catch_status.splits)

lemma ready_complete:
  "catch_live (setVisibilityCatchUpReady a (catch_complete a g s)) a" "vs_catchUps (setVisibilityCatchUpReady a (catch_complete a g s)) a \<noteq> None"
  by (simp_all add: catch_complete_def setVisibilityCatchUpReady_def catch_live_def)

lemma calm_ok:
  assumes "sync_ok s" "calm a s t" "catch_live t a" "started t a \<or> vs_catchUps t a = vs_catchUps s a"
    and "vs_catchUps t a \<noteq> None \<Longrightarrow> vs_catchUps s a \<noteq> None"
  shows "sync_ok t"
proof (rule progress_ok[OF assms(1)])
  have s: "sync_core s" "catch_here s a" using assms(1) by (simp_all add: sync_ok_iff sync_core_def)
  have "catch_here t a" using s(2) assms(5) calm_member[OF assms(2)] by (auto simp: catch_here_def)
  then show "sync_core t" by (rule calm_core[OF s(1) assms(2,3)])
  have "vs_loads s \<subseteq> vs_loads t" using assms(2) by (simp add: calm_def)
  then have "started s a \<Longrightarrow> started t a" using assms(4) by (auto simp: started_def)
  then show "progress s t" by (rule calm_progress[OF assms(2)])
qed

text \<open>A fetch that nobody waits for any more changes nothing.\<close>

lemma foreign_fetch_ok:
  assumes "sync_ok s" "n < length (vs_jobs s)" "is_fetch (vs_jobs s ! n)" "\<And>b h. b \<noteq> a \<or> h \<noteq> g \<Longrightarrow> \<not> fetches b h (vs_jobs s ! n)"
    and "map_option ca_generation (vs_catchUps s a) \<noteq> Some g"
  shows "sync_ok (s\<lparr>vs_jobs := remove_nth n (vs_jobs s)\<rparr>)"
proof (rule calm_ok[OF assms(1)])
  note r = fetch_removed[OF assms(2-4)]
  show "calm a s (s\<lparr>vs_jobs := remove_nth n (vs_jobs s)\<rparr>)" by (rule r(1))
  have "catch_live s a" using assms(1) by (simp add: sync_ok_iff sync_core_def)
  then show "catch_live (s\<lparr>vs_jobs := remove_nth n (vs_jobs s)\<rparr>) a"
    using r(2) assms(5) by (auto simp: catch_live_def split: option.splits catch_status.splits)
qed simp_all

lemma own_fetch:
  assumes "sync_ok s" "calm a s t" "vs_catchUps t a = vs_catchUps s a" "vs_catchUps s a = Some c" "ca_generation c = g"
  shows "timers_ok t" "\<not> vs_disposed t" "ownsCatchUp a g t" "catch_here t a"
    "vs_connected t" "a \<in> set (vs_desired t)" "a \<in> set (vs_acknowledged t)" "a \<in> vs_loaded t"
proof -
  have s: "timers_ok s" "\<not> vs_disposed s" "catch_here s a" using assms(1) by (simp_all add: sync_ok_iff sync_core_def)
  show t: "timers_ok t" "\<not> vs_disposed t" "catch_here t a" using s assms calm_member[OF assms(2)] by (simp_all add: calm_def catch_here_def)
  show "vs_connected t" "a \<in> set (vs_desired t)" "a \<in> set (vs_acknowledged t)" "a \<in> vs_loaded t"
    using t(3) assms(3,4) by (simp_all add: catch_here_def)
  then show "ownsCatchUp a g t" using t assms by (simp add: ownsCatchUp_def)
qed

lemma page_ok:
  assumes "sync_ok s" "n < length (vs_jobs s)" "vs_jobs s ! n = Page_fetch a g request fallback"
  shows "sync_ok (fetchUntilCurrent cursor a g request fallback result (s\<lparr>vs_jobs := remove_nth n (vs_jobs s)\<rparr>))"
proof -
  let ?t = "s\<lparr>vs_jobs := remove_nth n (vs_jobs s)\<rparr>"
  have j: "is_fetch (vs_jobs s ! n)" "\<And>b h. b \<noteq> a \<or> h \<noteq> g \<Longrightarrow> \<not> fetches b h (vs_jobs s ! n)" using assms(3) by auto
  have calm: "calm a s ?t" by (rule fetch_removed(1)[OF assms(2) j])
  show ?thesis
  proof (cases "map_option ca_generation (vs_catchUps s a) = Some g")
    case False
    then have "fetchUntilCurrent cursor a g request fallback result ?t = ?t"
      by (auto simp: fetchUntilCurrent_def catch_failed_def ownsCatchUp_def split: sum.splits option.splits)
    then show ?thesis using foreign_fetch_ok[OF assms(1,2) j False] by simp
  next
    case True
    then obtain c where c: "vs_catchUps s a = Some c" "ca_generation c = g" by auto
    have tc: "vs_catchUps ?t a = Some c" using c by simp
    note o = own_fetch[OF assms(1) calm _ c, simplified]
    have finish: "sync_ok u" if "calm a ?t u" "catch_live u a" "started u a" for u
      using calm_ok[OF assms(1) calm_trans[OF calm that(1)] that(2)] that(3) c by simp
    have failed: "sync_ok (catch_failed a g request message ?t)" for message
      using finish calm_failed[OF o(1) tc c(2)] by (simp add: started_def)
    have "catch_live s a" using assms(1) by (simp add: sync_ok_iff sync_core_def)
    then have running: "sync_ok (start_job k ?t)" if "is_fetch k" "fetches a g k" for k
      by (intro finish[OF calm_fetch[OF that(1)]])
        (use that c in \<open>auto simp: start_job_def catch_live_def started_def split: catch_status.splits\<close>)
    let ?u = "catch_complete a g ?t"
    have u: "calm a ?t ?u" by (rule calm_complete)
    have "timers_ok ?u" "\<not> vs_disposed ?u" "catch_here ?u a" "vs_connected ?u" "a \<in> set (vs_desired ?u)" "a \<in> set (vs_acknowledged ?u)"
      using u o by (simp_all add: calm_def same_member_def catch_here_def)
    moreover have "\<exists>d. vs_catchUps ?u a = Some d \<and> ca_status d = Complete" by (simp add: catch_complete_def)
    ultimately have again: "sync_ok (startCatchUp cursor a (Some p) True ?u)" for p
      using start_catch[of ?u a True cursor "Some p"] finish calm_trans[OF u] by (simp add: started_def)
    have ready: "sync_ok (setVisibilityCatchUpReady a ?u)"
      using finish[OF calm_trans[OF u calm_complete(2)]] ready_complete by (simp add: started_def)
    show ?thesis
      using o(3) failed running again ready
      by (auto simp: fetchUntilCurrent_def fetch_page_def Let_def split: sum.split option.split)
  qed
qed

lemma tail_ok:
  assumes "sync_ok s" "n < length (vs_jobs s)" "vs_jobs s ! n = Tail_fetch a g request"
    and "\<And>page. result = Inr page \<Longrightarrow> map_option ca_generation (vs_catchUps s a) = Some g"
  shows "sync_ok (tail_fetched a g request result (s\<lparr>vs_jobs := remove_nth n (vs_jobs s)\<rparr>))"
proof -
  let ?t = "s\<lparr>vs_jobs := remove_nth n (vs_jobs s)\<rparr>"
  have j: "is_fetch (vs_jobs s ! n)" "\<And>b h. b \<noteq> a \<or> h \<noteq> g \<Longrightarrow> \<not> fetches b h (vs_jobs s ! n)" using assms(3) by auto
  have calm: "calm a s ?t" by (rule fetch_removed(1)[OF assms(2) j])
  show ?thesis
  proof (cases "map_option ca_generation (vs_catchUps s a) = Some g")
    case False
    then have "tail_fetched a g request result ?t = ?t"
      using assms(4) by (auto simp: tail_fetched_def catch_failed_def split: sum.splits option.splits)
    then show ?thesis using foreign_fetch_ok[OF assms(1,2) j False] by simp
  next
    case True
    then obtain c where c: "vs_catchUps s a = Some c" "ca_generation c = g" by auto
    have tc: "vs_catchUps ?t a = Some c" using c by simp
    note o = own_fetch[OF assms(1) calm _ c, simplified]
    have finish: "sync_ok u" if "calm a ?t u" "catch_live u a" "started u a" for u
      using calm_ok[OF assms(1) calm_trans[OF calm that(1)] that(2)] that(3) c by simp
    have "sync_ok (catch_failed a g request message ?t)" for message
      using finish calm_failed[OF o(1) tc c(2)] by (simp add: started_def)
    moreover have "sync_ok (setVisibilityCatchUpReady a (catch_complete a g ?t))"
      using finish[OF calm_trans[OF calm_complete]] ready_complete by (simp add: started_def)
    ultimately show ?thesis by (simp add: tail_fetched_def split: sum.split)
  qed
qed

text \<open>From a state in which some agents may have lost what attends them, they are started again.\<close>

lemma restarted_ok:
  assumes "sync_ok s" "same_member s u" "vs_pending u \<subseteq> vs_pending s" "vs_retries u \<subseteq> vs_retries s" "sync_core t" "progress u t"
    and "\<And>b. vs_connected u \<Longrightarrow> b \<in> set (vs_desired u) \<Longrightarrow> b \<in> set (vs_acknowledged u) \<Longrightarrow> started s b \<Longrightarrow> started t b"
  shows "sync_ok t"
proof (rule progress_ok[OF assms(1,5)])
  have "same_member s t" using assms(2,6) same_member_trans by (simp add: progress_def)
  moreover have "vs_pending t \<subseteq> vs_pending s" "vs_retries t \<subseteq> vs_retries s"
    using order_trans[OF _ assms(3)] order_trans[OF _ assms(4)] assms(6) by (simp_all add: progress_def)
  moreover have "vs_connected u = vs_connected s" "vs_desired u = vs_desired s" "vs_acknowledged u = vs_acknowledged s"
    using assms(2) by (simp_all add: same_member_def)
  ultimately show "progress s t" using assms(7) by (simp add: progress_def)
qed

lemma cache_ok:
  assumes "sync_ok s" "n < length (vs_jobs s)" "vs_jobs s ! n = Cache_load a"
  shows "sync_ok (cache_loaded cursor a (s\<lparr>vs_jobs := remove_nth n (vs_jobs s)\<rparr>))"
proof -
  obtain ys zs where js: "vs_jobs s = ys @ Cache_load a # zs" "remove_nth n (vs_jobs s) = ys @ zs"
    using remove_nth_split[OF assms(2)] assms(3) by metis
  define u where "u = s\<lparr>vs_jobs := ys @ zs, vs_loads := vs_loads s - {a}, vs_loaded := insert a (vs_loaded s)\<rparr>"
  have s: "sync_core s" using assms(1) by (simp add: sync_ok_iff)
  have c: "count_list (vs_jobs s) (Cache_load b) = (if b \<in> vs_loads s then 1 else 0)" for b using s by (simp add: sync_core_def caches_ok_def)
  have "count_list (ys @ zs) (Cache_load b) = (if b \<in> vs_loads s - {a} then 1 else 0)" for b
    using c[of b] by (auto simp: js(1) split: if_splits)
  then have u: "sync_core u"
    using s by (auto simp: u_def js(1) sync_core_def caches_ok_def timers_ok_def catch_live_def catch_here_def split: option.splits catch_status.splits)
  have m: "same_member s u" by (simp add: u_def same_member_def js(1))
  let ?t = "startCatchUp cursor a (vs_parked u a) (vs_parked u a \<noteq> None) u"
  note r = start_core[OF u, where cursor = cursor and a = a and request = "vs_parked u a" and supersede = "vs_parked u a \<noteq> None"]
  have "sync_ok ?t"
  proof (rule restarted_ok[OF assms(1) m _ _ r(1,2)])
    show "vs_pending u \<subseteq> vs_pending s" "vs_retries u \<subseteq> vs_retries s" by (simp_all add: u_def)
    show "started ?t b" if h: "vs_connected u" "b \<in> set (vs_desired u)" "b \<in> set (vs_acknowledged u)" "started s b" for b
    proof (cases "b = a")
      case False
      then have "started u b" using h(4) by (simp add: started_def u_def)
      then show ?thesis using r(2) h by (simp add: progress_def)
    qed (use r(3) h in simp)
  qed
  then show ?thesis by (simp add: cache_loaded_def Let_def u_def js(2))
qed

end
