(* ===== verification/Timeline_Membership.thy ===== *)
theory Timeline_Membership
  imports Timeline_Sync_Spec
begin

text \<open>
  The membership of the subscription: a reconciliation, agents that come and go, and what the client
  calls, all keep the invariant of \<open>Timeline_Sync_Spec\<close>.
\<close>

section \<open>Reconciling\<close>

lemma same_lists [simp]: "sameAgentIds l r \<longleftrightarrow> l = r"
  by (auto simp: sameAgentIds_def list.rel_eq)

text \<open>What holds of the membership before a reconciliation has been asked for.\<close>

definition member_pre :: "sync_state \<Rightarrow> bool" where
  "member_pre s \<longleftrightarrow>
     length (filter member_job (vs_jobs s)) = (if vs_reconciling s then 1 else 0) \<and>
     (\<forall>g ids. Subscription g ids \<in> set (vs_jobs s) \<longrightarrow>
        \<not> vs_needsRetry s \<and> g \<le> vs_membership s \<and> (g = vs_membership s \<longrightarrow> ids = vs_desired s)) \<and>
     (vs_connected s \<longrightarrow> \<not> vs_selective s \<longrightarrow> vs_acknowledged s = vs_desired s) \<and>
     (\<not> vs_connected s \<longrightarrow> vs_acknowledged s = [])"

lemma member_ok_pre: "member_ok s \<Longrightarrow> member_pre s"
  by (simp add: member_ok_def member_pre_def)

text \<open>The steps of a reconciliation add a job of the membership and change nothing else of a catch-up.\<close>

definition quiet :: "sync_state \<Rightarrow> sync_state \<Rightarrow> bool" where
  "quiet s t \<longleftrightarrow>
     (sync_core s \<longrightarrow> sync_core t) \<and> vs_connected t = vs_connected s \<and> vs_selective t = vs_selective s \<and>
     vs_desired t = vs_desired s \<and> vs_acknowledged t = vs_acknowledged s \<and>
     vs_pending t = vs_pending s \<and> vs_retries t = vs_retries s \<and> vs_loads t = vs_loads s \<and> vs_catchUps t = vs_catchUps s \<and>
     vs_cancelRetry t = vs_cancelRetry s \<and> vs_timers t = vs_timers s \<and> vs_nextTimer t = vs_nextTimer s \<and>
     vs_membership t = vs_membership s \<and>
     vs_disposed t = vs_disposed s \<and> vs_loaded t = vs_loaded s"

lemma quiet_job: "member_job j \<Longrightarrow> quiet s (start_job j s)"
  by (cases j) (auto simp: quiet_def start_job_def sync_core_def timers_ok_def caches_ok_def catch_live_def catch_here_def
      split: option.splits catch_status.splits)

lemma quiet_flags:
  "quiet s (s\<lparr>vs_needsRetry := b\<rparr>)" "quiet s (s\<lparr>vs_requested := b\<rparr>)" "quiet s (s\<lparr>vs_reconciling := b\<rparr>)"
  by (auto simp: quiet_def sync_core_def timers_ok_def caches_ok_def catch_live_def catch_here_def split: option.splits catch_status.splits)

lemma quiet_refl [simp]: "quiet s s"
  by (simp add: quiet_def)

lemma quiet_trans: "quiet s t \<Longrightarrow> quiet t u \<Longrightarrow> quiet s u"
  by (simp add: quiet_def)

lemma quiet_latest: "quiet s (reconcileLatestMembership s)"
  using quiet_job[of Reconcile_end s] quiet_trans[OF quiet_flags(1) quiet_job[of "Subscription (vs_membership s) (vs_desired s)"]]
  unfolding reconcileLatestMembership_def by (simp only: member_job.simps if_split) blast

lemma quiet_reconcile: "quiet s (reconcileMembership s)"
  using quiet_flags(2)[of s True] quiet_trans[OF quiet_flags(3)[of s True] quiet_latest]
  by (simp add: reconcileMembership_def)

lemma latest_member:
  assumes "filter member_job (vs_jobs s) = []" "vs_reconciling s" "\<not> vs_disposed s"
    "vs_connected s \<longrightarrow> \<not> vs_selective s \<longrightarrow> vs_acknowledged s = vs_desired s" "\<not> vs_connected s \<longrightarrow> vs_acknowledged s = []"
  shows "member_ok (reconcileLatestMembership s) \<and>
    (vs_connected s \<longrightarrow> vs_selective s \<longrightarrow> vs_desired s \<noteq> vs_acknowledged s \<or> vs_needsRetry s \<longrightarrow> member_moves (reconcileLatestMembership s))"
proof -
  have none: "Subscription g ids \<notin> set (vs_jobs s)" for g ids using assms(1) by (auto simp: filter_empty_conv)
  show ?thesis
  proof (cases "vs_connected s \<and> vs_selective s \<and> (vs_desired s \<noteq> vs_acknowledged s \<or> vs_needsRetry s)")
    case True
    then have "reconcileLatestMembership s = start_job (Subscription (vs_membership s) (vs_desired s)) (s\<lparr>vs_needsRetry := False\<rparr>)"
      using assms(3) by (auto simp: reconcileLatestMembership_def)
    then show ?thesis using True assms none by (simp add: start_job_def member_ok_def member_moves_alt)
  next
    case False
    then have "reconcileLatestMembership s = start_job Reconcile_end s" by (auto simp: reconcileLatestMembership_def)
    then show ?thesis using False assms none by (auto simp: start_job_def member_ok_def)
  qed
qed

lemma reconcile_member:
  assumes "member_pre s" "\<not> vs_disposed s"
  shows "member_ok (reconcileMembership s)"
    "vs_connected s \<Longrightarrow> vs_selective s \<Longrightarrow>
       vs_desired s \<noteq> vs_acknowledged s \<or> vs_needsRetry s \<or> (\<exists>g ids. Subscription g ids \<in> set (vs_jobs s)) \<Longrightarrow>
       member_moves (reconcileMembership s)"
proof -
  have "member_ok (reconcileMembership s) \<and>
    (vs_connected s \<longrightarrow> vs_selective s \<longrightarrow>
       vs_desired s \<noteq> vs_acknowledged s \<or> vs_needsRetry s \<or> (\<exists>g ids. Subscription g ids \<in> set (vs_jobs s)) \<longrightarrow>
       member_moves (reconcileMembership s))"
  proof (cases "vs_reconciling s")
    case True
    then have "length (filter member_job (vs_jobs s)) = 1" using assms(1) by (simp add: member_pre_def)
    then obtain j where "filter member_job (vs_jobs s) = [j]" by (auto simp: length_Suc_conv)
    then have "j \<in> set (filter member_job (vs_jobs s))" by simp
    then have j: "j \<in> set (vs_jobs s)" "member_job j" by simp_all
    show ?thesis
      using j True assms(1) by (auto simp: reconcileMembership_def member_ok_def member_pre_def member_moves_alt member_job_iff)
  next
    case False
    then have f: "filter member_job (vs_jobs s) = []" using assms(1) by (simp add: member_pre_def)
    then have none: "Subscription g ids \<notin> set (vs_jobs s)" for g ids by (auto simp: filter_empty_conv)
    show ?thesis
    proof (cases "vs_connected s")
      case True
      let ?s = "s\<lparr>vs_reconciling := True\<rparr>"
      have "filter member_job (vs_jobs ?s) = []" "vs_reconciling ?s" "\<not> vs_disposed ?s"
        "vs_connected ?s \<longrightarrow> \<not> vs_selective ?s \<longrightarrow> vs_acknowledged ?s = vs_desired ?s" "\<not> vs_connected ?s \<longrightarrow> vs_acknowledged ?s = []"
        using f assms True by (simp_all add: member_pre_def)
      note l = latest_member[OF this]
      show ?thesis using l none False True assms(2) by (simp add: reconcileMembership_def)
    next
      case off: False
      then show ?thesis using False f none assms by (auto simp: reconcileMembership_def member_ok_def member_pre_def)
    qed
  qed
  then show "member_ok (reconcileMembership s)"
    "vs_connected s \<Longrightarrow> vs_selective s \<Longrightarrow>
       vs_desired s \<noteq> vs_acknowledged s \<or> vs_needsRetry s \<or> (\<exists>g ids. Subscription g ids \<in> set (vs_jobs s)) \<Longrightarrow>
       member_moves (reconcileMembership s)"
    by auto
qed

lemma reconciled_ok:
  assumes "sync_core s" "member_pre s" "vs_pending s \<subseteq> set (vs_desired s)" "vs_retries s \<subseteq> set (vs_desired s)"
    and "vs_connected s \<Longrightarrow> \<not> (vs_selective s \<and> (vs_desired s \<noteq> vs_acknowledged s \<or> vs_needsRetry s \<or> (\<exists>g ids. Subscription g ids \<in> set (vs_jobs s)))) \<Longrightarrow>
      \<forall>a \<in> vs_pending s \<union> vs_retries s. a \<in> set (vs_acknowledged s) \<and> started s a"
  shows "sync_ok (reconcileMembership s)"
proof -
  let ?t = "reconcileMembership s"
  have d: "\<not> vs_disposed s" using assms(1) by (simp add: sync_core_def)
  note q = quiet_reconcile[of s] and r = reconcile_member[OF assms(2) d]
  have "started ?t a = started s a" for a using q by (simp add: quiet_def started_def)
  then show ?thesis
    using assms q r unfolding sync_ok_iff quiet_def by auto
qed

section \<open>Agents come and go\<close>

text \<open>What is kept while agents are cancelled, left or entered: no catch-up is added, and the rest of the
  state is as it was.\<close>

definition moved :: "sync_state \<Rightarrow> sync_state \<Rightarrow> bool" where
  "moved s t \<longleftrightarrow>
     same_member s t \<and> (timers_ok s \<longrightarrow> timers_ok t) \<and> (caches_ok s \<longrightarrow> caches_ok t) \<and>
     vs_loaded t = vs_loaded s \<and> vs_loads s \<subseteq> vs_loads t"

lemma moved_refl [simp]: "moved s s"
  by (simp add: moved_def)

lemma moved_trans: "moved s t \<Longrightarrow> moved t u \<Longrightarrow> moved s u"
  unfolding moved_def using same_member_trans[of s t u] order_trans[of "vs_loads s" "vs_loads t" "vs_loads u"] by simp

lemma calm_cancelCatchUp:
  assumes "timers_ok s"
  shows "calm a s (cancelCatchUp a s)" "vs_catchUps (cancelCatchUp a s) = (vs_catchUps s)(a := None)"
    "vs_pending (cancelCatchUp a s) = vs_pending s" "vs_retries (cancelCatchUp a s) = vs_retries s" "vs_loads (cancelCatchUp a s) = vs_loads s"
proof -
  define u where "u = (case vs_catchUps s a of None \<Rightarrow> s | Some c \<Rightarrow> cancel_timer (ca_cancelRetry c) s)"
  have g: "calm a s (s\<lparr>vs_generations := gs\<rparr>)" for gs
    by (auto simp: calm_def same_member_def timers_ok_def caches_ok_def catch_live_def split: option.splits catch_status.splits)
  have c: "cancelCatchUp a s = u\<lparr>vs_generations := (vs_generations s)(a := vs_generations s a + 1), vs_catchUps := (vs_catchUps u)(a := None), vs_parked := (vs_parked u)(a := None)\<rparr>"
    by (simp add: cancelCatchUp_def u_def cancel_timer_def Let_def split: option.split)
  have u: "calm a s u" using assms calm_cancel by (auto simp: u_def split: option.splits)
  have "calm a u (u\<lparr>vs_generations := gs, vs_catchUps := (vs_catchUps u)(a := None), vs_parked := ps\<rparr>)" for gs ps
    by (auto simp: calm_def same_member_def timers_ok_def caches_ok_def catch_live_def split: option.splits catch_status.splits)
  then show "calm a s (cancelCatchUp a s)" using calm_trans[OF u] c by simp
  show "vs_catchUps (cancelCatchUp a s) = (vs_catchUps s)(a := None)" "vs_pending (cancelCatchUp a s) = vs_pending s"
    "vs_retries (cancelCatchUp a s) = vs_retries s" "vs_loads (cancelCatchUp a s) = vs_loads s"
    by (auto simp: c u_def cancel_timer_def split: option.split)
qed

lemma cancel_all:
  assumes "timers_ok s"
  shows "moved s (fold cancelCatchUp ids s) \<and> vs_catchUps (fold cancelCatchUp ids s) = (\<lambda>a. if a \<in> set ids then None else vs_catchUps s a) \<and>
    vs_pending (fold cancelCatchUp ids s) = vs_pending s \<and> vs_retries (fold cancelCatchUp ids s) = vs_retries s"
proof (induction ids rule: rev_induct)
  case (snoc a ids)
  let ?t = "fold cancelCatchUp ids s"
  have t: "timers_ok ?t" using snoc assms by (simp add: moved_def)
  note c = calm_cancelCatchUp[OF t]
  have "moved ?t (cancelCatchUp a ?t)" using c(1)[of a] by (simp add: moved_def calm_def)
  then show ?case using snoc moved_trans c by auto
qed simp

lemma leave_all:
  assumes "timers_ok s"
  shows "moved s (fold leave_agent ids s) \<and> ((\<forall>a. catch_live s a) \<longrightarrow> (\<forall>a. catch_live (fold leave_agent ids s) a)) \<and>
    vs_catchUps (fold leave_agent ids s) = (\<lambda>a. if a \<in> set ids then None else vs_catchUps s a) \<and>
    vs_pending (fold leave_agent ids s) = vs_pending s - set ids \<and> vs_retries (fold leave_agent ids s) = vs_retries s - set ids"
proof (induction ids rule: rev_induct)
  case (snoc a ids)
  let ?t = "fold leave_agent ids s"
  have t: "timers_ok ?t" using snoc assms by (simp add: moved_def)
  note c = calm_cancelCatchUp[OF t]
  have calm: "calm a u (leave_agent a u)" if "timers_ok u" for u
    unfolding leave_agent_def by (rule calm_trans[OF calm_cancelCatchUp(1)[OF that] calm_complete(2)])
  have n: "vs_catchUps (leave_agent a ?t) = (vs_catchUps ?t)(a := None)" "vs_pending (leave_agent a ?t) = vs_pending ?t - {a}"
    "vs_retries (leave_agent a ?t) = vs_retries ?t - {a}"
    using c by (simp_all add: leave_agent_def setVisibilityCatchUpReady_def)
  have "catch_live (leave_agent a ?t) b" if "\<forall>a. catch_live ?t a" for b
    using calm[OF t] t that n(1) by (cases "b = a") (simp_all add: calm_def, simp add: catch_live_def)
  moreover have "moved ?t (leave_agent a ?t)" using calm[OF t] by (simp add: moved_def calm_def)
  ultimately show ?case using snoc moved_trans n by auto
qed simp

lemma enter_all:
  assumes "\<forall>a \<in> set ids. vs_catchUps s a = None"
  shows "moved s (fold enter_agent ids s) \<and> ((\<forall>a. catch_live s a) \<longrightarrow> (\<forall>a. catch_live (fold enter_agent ids s) a)) \<and>
    vs_catchUps (fold enter_agent ids s) = vs_catchUps s \<and>
    vs_pending (fold enter_agent ids s) = vs_pending s \<union> set ids \<and> vs_retries (fold enter_agent ids s) \<subseteq> vs_retries s"
  using assms
proof (induction ids rule: rev_induct)
  case (snoc a ids)
  let ?t = "fold enter_agent ids s"
  have t: "vs_catchUps ?t a = None" using snoc by auto
  have n: "vs_catchUps (enter_agent a ?t) = vs_catchUps ?t" "vs_pending (enter_agent a ?t) = insert a (vs_pending ?t)"
    "vs_retries (enter_agent a ?t) \<subseteq> vs_retries ?t"
    by (auto simp: enter_agent_def reset_status_def ensureCacheLoaded_def start_job_def)
  have "moved ?t (enter_agent a ?t)"
    by (auto simp: moved_def enter_agent_def reset_status_def ensureCacheLoaded_def start_job_def same_member_def timers_ok_def caches_ok_def)
  moreover have "catch_live (enter_agent a ?t) b" if "\<forall>a. catch_live ?t a" for b
    using that[rule_format, of b] t
    by (cases "b = a") (auto simp: catch_live_def enter_agent_def reset_status_def ensureCacheLoaded_def start_job_def split: option.splits catch_status.splits)
  ultimately show ?case using snoc moved_trans n by auto
qed simp

text \<open>The timer of the membership is the only one of its kind, and no catch-up has it.\<close>

lemma cancel_membership_facts:
  assumes "timers_ok s"
  shows "timers_ok (cancel_membership s)" "(i, Membership_timer g ids) \<notin> set (vs_timers (cancel_membership s))"
    "catch_live s a \<Longrightarrow> catch_live (cancel_membership s) a"
    "caches_ok s \<Longrightarrow> caches_ok (cancel_membership s)"
proof -
  have n: "j \<noteq> n" if "vs_cancelRetry s = Some n" "(j, Catch_timer b h) \<in> set (vs_timers s)" for n j b h
    using assms that by (auto simp: timers_ok_def)
  have d: "distinct (map fst (filter (\<lambda>x. fst x \<noteq> n) (vs_timers s)))" for n
    using assms by (simp add: timers_ok_def distinct_map_filter)
  show "timers_ok (cancel_membership s)"
    using assms d by (cases "vs_cancelRetry s") (auto simp: cancel_membership_def cancel_timer_def timers_ok_def)
  show "(i, Membership_timer g ids) \<notin> set (vs_timers (cancel_membership s))"
    using assms by (cases "vs_cancelRetry s") (auto simp: cancel_membership_def cancel_timer_def timers_ok_def)
  show "catch_live s a \<Longrightarrow> catch_live (cancel_membership s) a"
    using n by (auto simp: cancel_membership_def cancel_timer_def catch_live_def split: option.splits catch_status.splits)
  show "caches_ok s \<Longrightarrow> caches_ok (cancel_membership s)"
    by (simp add: cancel_membership_def cancel_timer_def caches_ok_def split: option.split)
qed

lemma cancel_membership_same [simp]:
  "vs_catchUps (cancel_membership s) = vs_catchUps s" "vs_jobs (cancel_membership s) = vs_jobs s"
  "vs_pending (cancel_membership s) = vs_pending s" "vs_retries (cancel_membership s) = vs_retries s"
  "vs_loads (cancel_membership s) = vs_loads s" "vs_loaded (cancel_membership s) = vs_loaded s"
  "vs_desired (cancel_membership s) = vs_desired s" "vs_acknowledged (cancel_membership s) = vs_acknowledged s"
  "vs_connected (cancel_membership s) = vs_connected s" "vs_selective (cancel_membership s) = vs_selective s"
  "vs_membership (cancel_membership s) = vs_membership s" "vs_needsRetry (cancel_membership s) = vs_needsRetry s"
  "vs_requested (cancel_membership s) = vs_requested s" "vs_reconciling (cancel_membership s) = vs_reconciling s"
  "vs_disposed (cancel_membership s) = vs_disposed s" "vs_cancelRetry (cancel_membership s) = None"
  by (simp_all add: cancel_membership_def cancel_timer_def split: option.split)

text \<open>The state in which new agents are desired, before the daemon is told.\<close>

definition commit_mid :: "string list \<Rightarrow> sync_state \<Rightarrow> sync_state" where
  "commit_mid nx s =
     (cancel_membership (fold enter_agent (filter (\<lambda>a. a \<notin> set (vs_desired s)) nx)
        (fold leave_agent (filter (\<lambda>a. a \<notin> set nx) (vs_desired s)) s)))
       \<lparr>vs_desired := nx, vs_membership := vs_membership s + 1\<rparr>"

lemma commit_mid:
  assumes "timers_ok s" "caches_ok s" "\<forall>a. vs_catchUps s a \<noteq> None \<longrightarrow> a \<in> set (vs_desired s)"
  shows "timers_ok (commit_mid nx s)" "caches_ok (commit_mid nx s)"
    "\<forall>a. catch_live s a \<Longrightarrow> catch_live (commit_mid nx s) b"
    "vs_catchUps (commit_mid nx s) b = (if b \<in> set nx then vs_catchUps s b else None)"
    "vs_pending (commit_mid nx s) \<subseteq> vs_pending s - (set (vs_desired s) - set nx) \<union> set nx"
    "vs_retries (commit_mid nx s) \<subseteq> vs_retries s - (set (vs_desired s) - set nx)"
    "started s b \<Longrightarrow> b \<in> set nx \<Longrightarrow> started (commit_mid nx s) b"
    "b \<in> vs_pending (commit_mid nx s) \<Longrightarrow> b \<in> vs_pending s \<or> b \<in> set nx - set (vs_desired s)"
proof -
  let ?ls = "filter (\<lambda>a. a \<notin> set nx) (vs_desired s)" and ?es = "filter (\<lambda>a. a \<notin> set (vs_desired s)) nx"
  let ?l = "fold leave_agent ?ls s" and ?e = "fold enter_agent ?es (fold leave_agent ?ls s)"
  note l = leave_all[OF assms(1), of ?ls]
  have "\<forall>a \<in> set ?es. vs_catchUps ?l a = None" using l assms(3) by auto
  note e = enter_all[OF this]
  have t: "timers_ok ?e" "caches_ok ?e" "vs_loads s \<subseteq> vs_loads ?e" using l e assms(1,2) by (auto simp: moved_def)
  note c = cancel_membership_facts[OF t(1)]
  have live: "catch_live (u\<lparr>vs_desired := d, vs_membership := m\<rparr>) b = catch_live u b"
    "timers_ok (u\<lparr>vs_desired := d, vs_membership := m\<rparr>) = timers_ok u" "caches_ok (u\<lparr>vs_desired := d, vs_membership := m\<rparr>) = caches_ok u" for u d m b
    by (simp_all add: catch_live_def timers_ok_def caches_ok_def split: option.split catch_status.split)
  show "timers_ok (commit_mid nx s)" "caches_ok (commit_mid nx s)" using t c by (simp_all add: commit_mid_def live)
  show "catch_live (commit_mid nx s) b" if "\<forall>a. catch_live s a" using that l e c(3) by (simp add: commit_mid_def live)
  show cu: "vs_catchUps (commit_mid nx s) b = (if b \<in> set nx then vs_catchUps s b else None)" for b
    using l e assms(3) by (auto simp: commit_mid_def)
  show "vs_pending (commit_mid nx s) \<subseteq> vs_pending s - (set (vs_desired s) - set nx) \<union> set nx"
    "vs_retries (commit_mid nx s) \<subseteq> vs_retries s - (set (vs_desired s) - set nx)"
    "b \<in> vs_pending (commit_mid nx s) \<Longrightarrow> b \<in> vs_pending s \<or> b \<in> set nx - set (vs_desired s)"
    using l e by (auto simp: commit_mid_def)
  have "vs_loads (commit_mid nx s) = vs_loads ?e" by (simp add: commit_mid_def)
  then show "started s b \<Longrightarrow> b \<in> set nx \<Longrightarrow> started (commit_mid nx s) b" using t(3) cu[of b] by (auto simp: started_def)
qed

lemma commit_mid_same:
  assumes "timers_ok s" "\<forall>a. vs_catchUps s a \<noteq> None \<longrightarrow> a \<in> set (vs_desired s)"
  shows "filter member_job (vs_jobs (commit_mid nx s)) = filter member_job (vs_jobs s)" "vs_connected (commit_mid nx s) = vs_connected s"
  "vs_selective (commit_mid nx s) = vs_selective s" "vs_acknowledged (commit_mid nx s) = vs_acknowledged s"
  "vs_membership (commit_mid nx s) = vs_membership s + 1" "vs_desired (commit_mid nx s) = nx"
  "vs_needsRetry (commit_mid nx s) = vs_needsRetry s" "vs_requested (commit_mid nx s) = vs_requested s"
  "vs_reconciling (commit_mid nx s) = vs_reconciling s" "vs_disposed (commit_mid nx s) = vs_disposed s"
  "vs_loaded (commit_mid nx s) = vs_loaded s"
proof -
  let ?ls = "filter (\<lambda>a. a \<notin> set nx) (vs_desired s)" and ?es = "filter (\<lambda>a. a \<notin> set (vs_desired s)) nx"
  let ?e = "fold enter_agent ?es (fold leave_agent ?ls s)"
  note l = leave_all[OF assms(1), of ?ls]
  have "\<forall>a \<in> set ?es. vs_catchUps (fold leave_agent ?ls s) a = None" using l assms(2) by auto
  then have "moved s ?e" using l enter_all moved_trans by blast
  then show "filter member_job (vs_jobs (commit_mid nx s)) = filter member_job (vs_jobs s)" "vs_connected (commit_mid nx s) = vs_connected s"
    "vs_selective (commit_mid nx s) = vs_selective s" "vs_acknowledged (commit_mid nx s) = vs_acknowledged s"
    "vs_membership (commit_mid nx s) = vs_membership s + 1" "vs_desired (commit_mid nx s) = nx"
    "vs_needsRetry (commit_mid nx s) = vs_needsRetry s" "vs_requested (commit_mid nx s) = vs_requested s"
    "vs_reconciling (commit_mid nx s) = vs_reconciling s" "vs_disposed (commit_mid nx s) = vs_disposed s"
    "vs_loaded (commit_mid nx s) = vs_loaded s"
    by (simp_all add: commit_mid_def moved_def same_member_def)
qed

lemma commit_changed:
  assumes "nx \<noteq> vs_desired s"
  shows "commitDesiredMembership cursor nx False s =
    (if \<not> vs_selective (commit_mid nx s)
     then let u = (commit_mid nx s)\<lparr>vs_acknowledged := (if vs_connected (commit_mid nx s) then nx else [])\<rparr> in
       if vs_connected u then startAcknowledgedCatchUps cursor u else u
     else reconcileMembership (commit_mid nx s))"
  using assms by (simp add: commitDesiredMembership_def commit_mid_def Let_def)

lemma commit_reset: "commitDesiredMembership cursor nx True s = commitDesiredMembership cursor nx False (reset_status nx s)"
  by (simp add: commitDesiredMembership_def)

lemma member_jobs_eq: "filter member_job js = filter member_job ks \<Longrightarrow> Subscription g ids \<in> set js \<longleftrightarrow> Subscription g ids \<in> set ks"
proof -
  have "Subscription g ids \<in> set xs \<longleftrightarrow> Subscription g ids \<in> set (filter member_job xs)" for xs by simp
  then show "filter member_job js = filter member_job ks \<Longrightarrow> ?thesis" by metis
qed

lemma all_acknowledged_ok:
  assumes "sync_core s" "member_ok s" "vs_pending s \<subseteq> set (vs_desired s)" "vs_retries s \<subseteq> set (vs_desired s)"
    "vs_connected s" "vs_acknowledged s = vs_desired s"
  shows "sync_ok (startAcknowledgedCatchUps cursor s)"
proof -
  note r = acknowledged_core[OF assms(1), where cursor = cursor]
  have m: "same_member s (startAcknowledgedCatchUps cursor s)" using r(2) by (simp add: progress_def)
  have e: "vs_connected (startAcknowledgedCatchUps cursor s) = vs_connected s" "vs_desired (startAcknowledgedCatchUps cursor s) = vs_desired s"
    "vs_acknowledged (startAcknowledgedCatchUps cursor s) = vs_acknowledged s"
    using m by (simp_all add: same_member_def)
  have "vs_pending (startAcknowledgedCatchUps cursor s) \<subseteq> set (vs_desired s)" "vs_retries (startAcknowledgedCatchUps cursor s) \<subseteq> set (vs_desired s)"
    using r(2) order_trans[OF _ assms(3)] order_trans[OF _ assms(4)] by (simp_all add: progress_def)
  then show ?thesis using r(1,3) same_member_ok[OF m assms(2)] assms(5,6) e by (simp add: sync_ok_iff)
qed

lemma commit_ok:
  assumes "sync_ok s" "vs_connected s \<Longrightarrow> vs_selective s \<Longrightarrow> Reconcile_end \<notin> set (vs_jobs s)"
  shows "sync_ok (commitDesiredMembership cursor nx False s)"
proof (cases "nx = vs_desired s")
  case True
  then show ?thesis using assms(1) by (simp add: commitDesiredMembership_def)
next
  case False
  let ?t = "commit_mid nx s"
  have s: "sync_core s" "member_ok s" "vs_pending s \<subseteq> set (vs_desired s)" "vs_retries s \<subseteq> set (vs_desired s)"
    using assms(1) by (simp_all add: sync_ok_iff)
  have here: "\<forall>a. vs_catchUps s a \<noteq> None \<longrightarrow> a \<in> set (vs_desired s)" and b: "timers_ok s" "caches_ok s" "\<forall>a. catch_live s a" "\<not> vs_disposed s"
    using s(1) by (auto simp: sync_core_def catch_here_def)
  note mid = commit_mid[OF b(1,2) here, where nx = nx] and same = commit_mid_same[OF b(1) here, where nx = nx]
  have "catch_here ?t a" for a
    using s(1) mid(4)[of a] same by (auto simp: sync_core_def catch_here_def split: if_splits)
  then have core: "sync_core ?t" using mid(1-3) b same by (simp add: sync_core_def)
  have pend: "vs_pending ?t \<subseteq> set (vs_desired ?t)" "vs_retries ?t \<subseteq> set (vs_desired ?t)"
    using mid(5,6) s(3,4) unfolding same(6) by blast+
  note subs = member_jobs_eq[OF same(1)]
  show ?thesis
  proof (cases "vs_selective s")
    case True
    have old: "\<not> vs_needsRetry s \<and> g \<le> vs_membership s" if "Subscription g ids \<in> set (vs_jobs s)" for g ids
      using s(2) that unfolding member_ok_def by blast
    have pre: "member_pre ?t"
      using s(2) True old unfolding member_pre_def same subs by (auto simp: member_ok_def dest: old)
    have "vs_desired ?t \<noteq> vs_acknowledged ?t \<or> vs_needsRetry ?t \<or> (\<exists>g ids. Subscription g ids \<in> set (vs_jobs ?t))" if "vs_connected s"
    proof (cases "nx = vs_acknowledged s \<and> \<not> vs_needsRetry s")
      case at: True
      then have "member_moves s" using s(2) True that False by (simp add: member_ok_def)
      then have "\<exists>g ids. Subscription g ids \<in> set (vs_jobs s)" using at assms(2)[OF that True] by (simp add: member_moves_alt)
      then show ?thesis using subs by blast
    qed (simp add: same)
    then have "sync_ok (reconcileMembership ?t)"
      using reconciled_ok[OF core pre pend] True same by simp
    then show ?thesis using commit_changed[OF False] True same by simp
  next
    case legacy: False
    let ?u = "?t\<lparr>vs_acknowledged := (if vs_connected ?t then nx else [])\<rparr>"
    have u: "sync_core ?u" "vs_pending ?u \<subseteq> set (vs_desired ?u)" "vs_retries ?u \<subseteq> set (vs_desired ?u)"
      using core pend same(6)
      by (auto simp: sync_core_def timers_ok_def caches_ok_def catch_live_def catch_here_def split: option.splits catch_status.splits)
    have old: "\<not> vs_needsRetry s \<and> g \<le> vs_membership s" if "Subscription g ids \<in> set (vs_jobs s)" for g ids
      using s(2) that unfolding member_ok_def by blast
    have m: "member_ok ?u"
      using s(2) legacy unfolding member_ok_def by (simp add: same subs) (fastforce dest: old)
    have "sync_ok (startAcknowledgedCatchUps cursor ?u)" if "vs_connected ?u"
      using all_acknowledged_ok[OF u(1) m u(2,3) that] same(6) that by simp
    moreover have "sync_ok ?u" if "\<not> vs_connected ?u" using u m that by (simp add: sync_ok_iff)
    ultimately show ?thesis using commit_changed[OF False] legacy same by (simp add: Let_def)
  qed
qed

section \<open>What the client calls\<close>

lemma sync_ok_view [simp]:
  "sync_ok (s\<lparr>vs_recent := r\<rparr>) = sync_ok s" "sync_ok (s\<lparr>vs_sources := ss\<rparr>) = sync_ok s" "sync_ok (s\<lparr>vs_active := v\<rparr>) = sync_ok s"
  by (auto simp: sync_ok_iff sync_core_def timers_ok_def caches_ok_def catch_live_def catch_here_def member_ok_def member_moves_def started_def
      split: option.splits catch_status.splits)

lemma publish_ok:
  assumes "sync_ok s" "vs_connected s \<Longrightarrow> vs_selective s \<Longrightarrow> Reconcile_end \<notin> set (vs_jobs s)"
  shows "sync_ok (publishVisibleMembership cursor s)"
  using assms commit_ok[where s = "s\<lparr>vs_recent := r\<rparr>" for r] by (auto simp: publishVisibleMembership_def Let_def split: prod.split)

lemma off_no_catch: "sync_core s \<Longrightarrow> \<not> vs_connected s \<Longrightarrow> vs_catchUps s a = None"
  by (auto simp: sync_core_def catch_here_def)

lemma connect_ok:
  assumes "sync_ok s" "\<not> vs_connected s"
  shows "sync_ok (setConnected cursor True s)"
proof -
  let ?t = "s\<lparr>vs_connected := True, vs_membership := vs_membership s + 1\<rparr>"
  have s: "sync_core s" "member_ok s" "vs_pending s \<subseteq> set (vs_desired s)" "vs_retries s \<subseteq> set (vs_desired s)"
    using assms(1) by (simp_all add: sync_ok_iff)
  have core: "sync_core (?t\<lparr>vs_acknowledged := d\<rparr>)" for d
    using s(1) off_no_catch[OF s(1) assms(2)] by (simp add: sync_core_def timers_ok_def caches_ok_def catch_live_def catch_here_def)
  have c: "sync_core ?t" using core[of "vs_acknowledged ?t"] by simp
  have old: "\<not> vs_needsRetry s \<and> g \<le> vs_membership s" if "Subscription g ids \<in> set (vs_jobs s)" for g ids
    using s(2) that unfolding member_ok_def by blast
  show ?thesis
  proof (cases "vs_selective s")
    case True
    have pre: "member_pre ?t" using s(2) True old by (auto simp: member_pre_def member_ok_def dest: old)
    have none: "vs_acknowledged s = []" using s(2) assms(2) by (simp add: member_ok_def)
    have "sync_ok (reconcileMembership ?t)"
    proof (rule reconciled_ok[OF c pre])
      show "\<forall>a \<in> vs_pending ?t \<union> vs_retries ?t. a \<in> set (vs_acknowledged ?t) \<and> started ?t a"
        if "\<not> (vs_selective ?t \<and> (vs_desired ?t \<noteq> vs_acknowledged ?t \<or> vs_needsRetry ?t \<or> (\<exists>g ids. Subscription g ids \<in> set (vs_jobs ?t))))"
      proof -
        have "vs_desired s = []" using that True none by simp
        then show ?thesis using s(3,4) by simp
      qed
    qed (use s in simp_all)
    then show ?thesis using True assms(2) by (simp add: setConnected_def Let_def)
  next
    case False
    let ?u = "?t\<lparr>vs_acknowledged := vs_desired s\<rparr>"
    have "member_ok ?u" using s(2) False old by (auto simp: member_ok_def dest: old)
    then have "sync_ok (startAcknowledgedCatchUps cursor ?u)" using all_acknowledged_ok[OF core, of "vs_desired s" cursor] s(3,4) by simp
    then show ?thesis using False assms(2) by (simp add: setConnected_def Let_def)
  qed
qed

text \<open>When the connection is lost every catch-up is cancelled.\<close>

lemma disconnected_ok:
  assumes "timers_ok t" "caches_ok t" "\<not> vs_disposed t" "\<not> vs_connected t" "\<forall>a. vs_catchUps t a \<noteq> None \<longrightarrow> a \<in> set (vs_desired t)"
    and "length (filter member_job (vs_jobs t)) = (if vs_reconciling t then 1 else 0)"
    and "\<And>g ids. Subscription g ids \<in> set (vs_jobs t) \<Longrightarrow> \<not> vs_needsRetry t \<and> g < m"
    and "vs_pending t \<subseteq> set (vs_desired t)" "vs_retries t \<subseteq> set (vs_desired t)"
  shows "sync_ok (fold cancelCatchUp (vs_desired t) ((cancel_membership t)\<lparr>vs_retryDelay := None, vs_acknowledged := [], vs_membership := m\<rparr>))"
proof -
  let ?u = "(cancel_membership t)\<lparr>vs_retryDelay := None, vs_acknowledged := [], vs_membership := m\<rparr>"
  let ?v = "fold cancelCatchUp (vs_desired t) ?u"
  have u: "timers_ok ?u" "caches_ok ?u" using cancel_membership_facts[OF assms(1)] assms(2) by (simp_all add: timers_ok_def caches_ok_def)
  note v = cancel_all[OF u(1), of "vs_desired t"]
  have same: "same_member ?u ?v" using v by (simp add: moved_def)
  have e: "vs_connected ?v = False" "vs_desired ?v = vs_desired t" "vs_disposed ?v = False"
    using same assms(3,4) by (simp_all add: same_member_def)
  have "vs_catchUps ?v a = None" for a using v assms(5) by auto
  then have "sync_core ?v" using v u e by (simp add: sync_core_def moved_def catch_live_def catch_here_def)
  moreover have "member_ok ?u" using assms(4,6) assms(7) less_imp_le by (fastforce simp: member_ok_def)
  ultimately show ?thesis using same_member_ok[OF same] v e assms(8,9) by (simp add: sync_ok_iff)
qed

lemma disconnect_ok:
  assumes "sync_ok s" "vs_connected s"
  shows "sync_ok (setConnected cursor False s)"
proof -
  define ids where "ids = (if vs_active s then visibleAgentIds s else [])"
  define r where "r = reset_status ids (s\<lparr>vs_connected := False, vs_recent := ids\<rparr>)"
  define t where "t = commitDesiredMembership cursor ids True (s\<lparr>vs_connected := False, vs_recent := ids\<rparr>)"
  have s: "sync_core s" "member_ok s" "vs_pending s \<subseteq> set (vs_desired s)" "vs_retries s \<subseteq> set (vs_desired s)"
    using assms(1) by (simp_all add: sync_ok_iff)
  have rf: "timers_ok r" "caches_ok r" "\<not> vs_disposed r" "\<not> vs_connected r" "vs_jobs r = vs_jobs s" "vs_reconciling r = vs_reconciling s"
    "vs_needsRetry r = vs_needsRetry s" "vs_membership r = vs_membership s" "vs_desired r = vs_desired s"
    "vs_pending r = vs_pending s \<union> set ids" "vs_retries r = vs_retries s - set ids" "vs_catchUps r = vs_catchUps s"
    using s(1) by (simp_all add: r_def reset_status_def sync_core_def timers_ok_def caches_ok_def)
  have in_d: "\<forall>a. vs_catchUps r a \<noteq> None \<longrightarrow> a \<in> set (vs_desired r)" using s(1) rf(9,12) by (auto simp: sync_core_def catch_here_def)
  have old: "\<not> vs_needsRetry s \<and> g \<le> vs_membership s" if "Subscription g ids \<in> set (vs_jobs s)" for g ids
    using s(2) that unfolding member_ok_def by blast
  have tr: "t = commitDesiredMembership cursor ids False r" by (simp only: t_def commit_reset r_def)
  have tf: "timers_ok t \<and> caches_ok t \<and> \<not> vs_disposed t \<and> \<not> vs_connected t \<and> (\<forall>a. vs_catchUps t a \<noteq> None \<longrightarrow> a \<in> set (vs_desired t)) \<and>
    filter member_job (vs_jobs t) = filter member_job (vs_jobs s) \<and> vs_reconciling t = vs_reconciling s \<and>
    vs_needsRetry t = vs_needsRetry s \<and> vs_membership s \<le> vs_membership t \<and>
    vs_pending t \<subseteq> set (vs_desired t) \<and> vs_retries t \<subseteq> set (vs_desired t)"
  proof (cases "ids = vs_desired r")
    case True
    then have "t = r" unfolding tr by (simp add: commitDesiredMembership_def)
    then show ?thesis using rf in_d s(3,4) True by auto
  next
    case False
    note mid = commit_mid[OF rf(1,2) in_d, where nx = ids] and same = commit_mid_same[OF rf(1) in_d, where nx = ids]
    let ?m = "commit_mid ids r"
    have t: "t = (if \<not> vs_selective ?m then ?m\<lparr>vs_acknowledged := []\<rparr> else if vs_reconciling ?m then ?m\<lparr>vs_requested := True\<rparr> else ?m)"
      using commit_changed[OF False, of cursor] rf(4) same(2) unfolding tr by (simp add: reconcileMembership_def)
    have "vs_pending ?m \<subseteq> set ids" "vs_retries ?m \<subseteq> set ids" using mid(5,6) s(3,4) rf(9-11) by auto
    then show ?thesis
      using mid(1,2,4) same rf by (auto simp: t timers_ok_def caches_ok_def split: if_splits)
  qed
  let ?m = "vs_membership t + 1"
  have "sync_ok (fold cancelCatchUp (vs_desired t) ((cancel_membership t)\<lparr>vs_retryDelay := None, vs_acknowledged := [], vs_membership := ?m\<rparr>))"
  proof (rule disconnected_ok)
    show "\<not> vs_needsRetry t \<and> g < ?m" if "Subscription g ids \<in> set (vs_jobs t)" for g ids
      using that tf old member_jobs_eq[of "vs_jobs t" "vs_jobs s" g ids] by fastforce
    show "length (filter member_job (vs_jobs t)) = (if vs_reconciling t then 1 else 0)" using tf s(2) by (simp add: member_ok_def)
  qed (use tf in auto)
  moreover have "visibleAgentIds (s\<lparr>vs_connected := False\<rparr>) = visibleAgentIds s" by (simp add: visibleAgentIds_def)
  then have "setConnected cursor False s =
      fold cancelCatchUp (vs_desired t) ((cancel_membership t)\<lparr>vs_retryDelay := None, vs_acknowledged := [], vs_membership := ?m\<rparr>)"
    using assms(2) unfolding t_def ids_def setConnected_def Let_def by simp
  ultimately show ?thesis by simp
qed

lemma mode_ok:
  assumes "sync_ok s"
  shows "sync_ok (setDeliveryMode cursor selective s)"
proof (cases "vs_selective s = selective")
  case False
  define w where "w = (cancel_membership (s\<lparr>vs_selective := selective\<rparr>))\<lparr>vs_retryDelay := None, vs_needsRetry := False, vs_membership := vs_membership s + 1\<rparr>"
  define t where "t = fold cancelCatchUp (vs_desired w) w"
  define ids where "ids = (if vs_active t then visibleAgentIds t else [])"
  define u where "u = t\<lparr>vs_recent := ids, vs_desired := ids, vs_pending := set ids, vs_errors := (\<lambda>a. None),
                   vs_retries := {}, vs_acknowledged := (if \<not> selective \<and> vs_connected t then ids else [])\<rparr>"
  have s: "sync_core s" "member_ok s" using assms by (simp_all add: sync_ok_iff)
  let ?s = "s\<lparr>vs_selective := selective\<rparr>"
  have p: "timers_ok ?s" "caches_ok ?s" using s(1) by (simp_all add: sync_core_def timers_ok_def caches_ok_def)
  have "timers_ok w = timers_ok (cancel_membership ?s)" "caches_ok w = caches_ok (cancel_membership ?s)"
    by (simp_all add: w_def timers_ok_def caches_ok_def)
  then have w: "timers_ok w" "caches_ok w" using cancel_membership_facts[OF p(1)] p(2) by simp_all
  note c = cancel_all[OF w(1), of "vs_desired w"]
  have m: "same_member w t" using c by (simp add: moved_def t_def)
  have wd: "vs_desired w = vs_desired s" "vs_catchUps w = vs_catchUps s" by (simp_all add: w_def)
  have "vs_catchUps t a = None" for a using c s(1) wd by (auto simp: t_def sync_core_def catch_here_def)
  moreover have "timers_ok t" "caches_ok t" using c w by (simp_all add: moved_def t_def)
  moreover have e: "vs_connected t = vs_connected s" "vs_selective t = selective" "vs_disposed t = vs_disposed s" "vs_membership t = vs_membership s + 1"
    "vs_needsRetry t = False" "vs_reconciling t = vs_reconciling s" "filter member_job (vs_jobs t) = filter member_job (vs_jobs s)"
    using m by (simp_all add: same_member_def w_def)
  ultimately have core: "sync_core u" using s(1) by (simp add: u_def sync_core_def timers_ok_def caches_ok_def catch_live_def catch_here_def)
  have old: "\<not> vs_needsRetry s \<and> g \<le> vs_membership s" if "Subscription g is \<in> set (vs_jobs s)" for g "is"
    using s(2) that unfolding member_ok_def by blast
  note subs = member_jobs_eq[OF e(7)]
  have ud: "vs_desired u = ids" "vs_pending u = set ids" "vs_retries u = {}" "vs_connected u = vs_connected s" "vs_selective u = selective"
    "vs_acknowledged u = (if \<not> selective \<and> vs_connected s then ids else [])" "vs_jobs u = vs_jobs t" "vs_needsRetry u = False"
    by (simp_all add: u_def e)
  have r: "setDeliveryMode cursor selective s =
      (if selective \<and> vs_connected u then reconcileMembership u else if vs_connected u then startAcknowledgedCatchUps cursor u else u)"
    unfolding setDeliveryMode_def if_not_P[OF False] Let_def u_def ids_def t_def w_def by (rule refl)
  have um: "vs_membership u = vs_membership s + 1" "vs_reconciling u = vs_reconciling s" by (simp_all add: u_def e)
  have new: "g \<le> vs_membership u \<and> g \<noteq> vs_membership u" if "Subscription g is \<in> set (vs_jobs u)" for g "is"
  proof -
    have "Subscription g is \<in> set (vs_jobs s)" using that subs unfolding ud(7) by blast
    from old[OF this] show ?thesis unfolding um by simp
  qed
  have "length (filter member_job (vs_jobs u)) = (if vs_reconciling u then 1 else 0)"
    using s(2) unfolding ud(7) um e(7) by (simp add: member_ok_def)
  then have pre: "member_pre u" using new ud(1,4-6,8) unfolding member_pre_def by (simp; blast)
  show ?thesis
  proof (cases "vs_connected s \<and> selective")
    case True
    have "sync_ok (reconcileMembership u)" by (rule reconciled_ok[OF core pre]) (use True ud in auto)
    then show ?thesis using True ud r by simp
  next
    case off: False
    then have mu: "member_ok u" using pre ud by (auto simp: member_ok_def member_pre_def)
    have "sync_ok (startAcknowledgedCatchUps cursor u)" if "vs_connected s"
      by (rule all_acknowledged_ok[OF core mu]) (use that off ud in auto)
    moreover have "sync_ok u" if "\<not> vs_connected s" using core mu ud that by (simp add: sync_ok_iff)
    ultimately show ?thesis using off ud r by auto
  qed
qed (use assms in \<open>simp add: setDeliveryMode_def\<close>)

end
