(* ===== verification/Timeline_Attended.thy ===== *)
theory Timeline_Attended
  imports Timeline_Membership
begin

text \<open>
  The steps of the membership that settle, the timers that fire, and the theorem: while the client is
  connected every viewed agent whose timeline is not ready is attended. What the theorem leaves out
  are runs in which the code forgets an agent; three are shown.
\<close>

section \<open>The membership settles\<close>

text \<open>The jobs of a reconciliation are one at a time.\<close>

lemma member_removed:
  assumes "member_ok s" "n < length (vs_jobs s)" "member_job (vs_jobs s ! n)"
  shows "vs_reconciling s" "filter member_job (remove_nth n (vs_jobs s)) = []" "member_job j \<Longrightarrow> j \<in> set (vs_jobs s) \<Longrightarrow> j = vs_jobs s ! n"
proof -
  obtain ys zs where js: "vs_jobs s = ys @ vs_jobs s ! n # zs" "remove_nth n (vs_jobs s) = ys @ zs"
    using remove_nth_split[OF assms(2)] by blast
  have l: "length (filter member_job (vs_jobs s)) \<le> 1" "vs_reconciling s \<or> filter member_job (vs_jobs s) = []"
    using assms(1) by (auto simp: member_ok_def split: if_splits)
  have m: "vs_jobs s ! n \<in> set (filter member_job (vs_jobs s))" using assms(2,3) by simp
  then have "filter member_job (vs_jobs s) \<noteq> []" by (metis empty_iff empty_set)
  then show "vs_reconciling s" using l(2) by blast
  have "filter member_job (vs_jobs s) = filter member_job ys @ vs_jobs s ! n # filter member_job zs"
    using assms(3) by (subst js(1)) simp
  then have f: "filter member_job ys = []" "filter member_job zs = []" using l(1) by auto
  then show "filter member_job (remove_nth n (vs_jobs s)) = []" unfolding js(2) by simp
  have "set (filter member_job (vs_jobs s)) = {vs_jobs s ! n}"
    using f assms(3) by (subst js(1)) simp
  then show "member_job j \<Longrightarrow> j \<in> set (vs_jobs s) \<Longrightarrow> j = vs_jobs s ! n" by auto
qed

lemma core_removed:
  assumes "sync_core s" "n < length (vs_jobs s)" "member_job (vs_jobs s ! n)"
  shows "sync_core (s\<lparr>vs_jobs := remove_nth n (vs_jobs s)\<rparr>)"
proof -
  obtain ys zs where js: "vs_jobs s = ys @ vs_jobs s ! n # zs" "remove_nth n (vs_jobs s) = ys @ zs"
    using remove_nth_split[OF assms(2)] by blast
  define j where "j = vs_jobs s ! n"
  have e: "vs_jobs s = ys @ j # zs" using js(1) by (simp add: j_def)
  have j: "\<not> fetches a g j" "j \<noteq> Cache_load a" for a g using assms(3) unfolding j_def by (cases "vs_jobs s ! n"; simp)+
  have "sync_core (s\<lparr>vs_jobs := ys @ zs\<rparr>)"
    using assms(1) j by (auto simp: e sync_core_def timers_ok_def caches_ok_def catch_live_def catch_here_def split: option.splits catch_status.splits)
  then show ?thesis unfolding js(2) .
qed

text \<open>Without a subscription that is under way and with nothing to do, what attends an agent is its own.\<close>

lemma attended_alone:
  assumes "sync_ok s" "vs_connected s" "\<not> member_moves s" "a \<in> vs_pending s \<union> vs_retries s"
  shows "a \<in> set (vs_acknowledged s)" "started s a"
  using assms unfolding sync_ok_iff by blast+

lemma end_ok:
  assumes "sync_ok s" "n < length (vs_jobs s)" "vs_jobs s ! n = Reconcile_end"
  shows "sync_ok (reconcile_end (s\<lparr>vs_jobs := remove_nth n (vs_jobs s)\<rparr>))"
proof -
  let ?t = "s\<lparr>vs_jobs := remove_nth n (vs_jobs s), vs_reconciling := False\<rparr>"
  have s: "sync_core s" "member_ok s" "vs_pending s \<subseteq> set (vs_desired s)" "vs_retries s \<subseteq> set (vs_desired s)"
    using assms(1) by (simp_all add: sync_ok_iff)
  have j: "member_job (vs_jobs s ! n)" using assms(3) by simp
  note r = member_removed[OF s(2) assms(2) j]
  have no_sub: "Subscription g ids \<notin> set (vs_jobs s)" for g ids using r(3)[of "Subscription g ids"] assms(3) by auto
  have no_sub': "Subscription g ids \<notin> set (remove_nth n (vs_jobs s))" for g ids
    using r(2) by (metis filter_empty_conv member_job.simps(1))
  have core: "sync_core (?t\<lparr>vs_requested := b\<rparr>)" for b
    using core_removed[OF s(1) assms(2) j] quiet_flags quiet_def by metis
  have pre: "member_pre (?t\<lparr>vs_requested := b\<rparr>)" for b
    using s(2) r(2) no_sub' by (simp add: member_pre_def member_ok_def)
  have again: "sync_ok (reconcileMembership (?t\<lparr>vs_requested := b\<rparr>))" if "vs_connected s" "vs_selective s" for b
  proof (rule reconciled_ok[OF core pre])
    assume "\<not> (vs_selective (?t\<lparr>vs_requested := b\<rparr>) \<and> (vs_desired (?t\<lparr>vs_requested := b\<rparr>) \<noteq> vs_acknowledged (?t\<lparr>vs_requested := b\<rparr>) \<or>
        vs_needsRetry (?t\<lparr>vs_requested := b\<rparr>) \<or> (\<exists>g ids. Subscription g ids \<in> set (vs_jobs (?t\<lparr>vs_requested := b\<rparr>)))))"
    then have "\<not> member_moves s" using that no_sub by (auto simp: member_moves_alt)
    then show "\<forall>a \<in> vs_pending (?t\<lparr>vs_requested := b\<rparr>) \<union> vs_retries (?t\<lparr>vs_requested := b\<rparr>).
        a \<in> set (vs_acknowledged (?t\<lparr>vs_requested := b\<rparr>)) \<and> started (?t\<lparr>vs_requested := b\<rparr>) a"
      using attended_alone[OF assms(1) that(1)] by (auto simp: started_def)
  qed (use s in simp_all)
  have still: "sync_ok ?t" if stay: "\<not> (vs_connected s \<and> vs_selective s \<and> (vs_requested s \<or> \<not> vs_needsRetry s \<and> vs_desired s \<noteq> vs_acknowledged s))"
  proof -
    have "Reconcile_end \<in> set (vs_jobs s)" using assms(2,3) by (metis nth_mem)
    then have mm: "member_moves ?t = member_moves s" if "vs_connected s"
      using stay that no_sub no_sub' r(2) by (auto simp: member_moves_alt filter_empty_conv split: if_splits)
    have "member_ok ?t" using pre[of "vs_requested s"] mm s(2) no_sub' by (auto simp: member_pre_def member_ok_def)
    then show ?thesis
      using core[of "vs_requested s"] mm assms(1) by (auto simp: sync_ok_iff started_def)
  qed
  show ?thesis
    using again[of False] again[of "vs_requested s"] still s(1)
    by (auto simp: reconcile_end_def Let_def sync_core_def)
qed

lemma cancel_timer_next [simp]: "vs_nextTimer (cancel_timer i s) = vs_nextTimer s"
  by (cases i) (simp_all add: cancel_timer_def)

lemma failed_subscription_core:
  assumes "sync_core s"
  shows "sync_core (start_job Reconcile_end (((add_timer (Membership_timer g ids) (cancel_timer (vs_cancelRetry s) s))
    \<lparr>vs_cancelRetry := Some (vs_nextTimer s)\<rparr>)\<lparr>vs_retryDelay := d\<rparr>))"
proof -
  let ?c = "cancel_membership s"
  have s: "timers_ok s" "caches_ok s" "\<not> vs_disposed s" "\<And>a. catch_live s a" "\<And>a. catch_here s a" using assms by (simp_all add: sync_core_def)
  note c = cancel_membership_facts[OF s(1)]
  have n: "vs_nextTimer ?c = vs_nextTimer s" "vs_timers ?c = vs_timers (cancel_timer (vs_cancelRetry s) s)"
    by (simp_all add: cancel_membership_def cancel_timer_def split: option.split)
  have u: "start_job Reconcile_end (((add_timer (Membership_timer g ids) (cancel_timer (vs_cancelRetry s) s))
    \<lparr>vs_cancelRetry := Some (vs_nextTimer s)\<rparr>)\<lparr>vs_retryDelay := d\<rparr>) =
    ?c\<lparr>vs_timers := (vs_nextTimer s, Membership_timer g ids) # vs_timers ?c, vs_nextTimer := Suc (vs_nextTimer s),
      vs_cancelRetry := Some (vs_nextTimer s), vs_retryDelay := d, vs_jobs := vs_jobs ?c @ [Reconcile_end]\<rparr>" (is "_ = ?u")
    by (cases "vs_cancelRetry s") (simp_all add: start_job_def add_timer_def cancel_membership_def cancel_timer_def)
  have fresh: "vs_nextTimer s \<notin> fst ` set (vs_timers ?c)" "\<forall>i \<in> fst ` set (vs_timers ?c). i < vs_nextTimer s" "distinct (map fst (vs_timers ?c))"
    using c(1) n(1) by (auto simp: timers_ok_def)
  have "timers_ok ?u"
    using c(1,2) n(1) fresh unfolding timers_ok_def by (fastforce simp: less_Suc_eq)
  moreover have "catch_live ?u a" for a
    using c(3)[OF s(4)[of a]] by (auto simp: catch_live_def split: option.splits catch_status.splits)
  moreover have "caches_ok ?u" "catch_here ?u a" for a using c(4)[OF s(2)] s(5)[of a] by (auto simp: caches_ok_def catch_here_def)
  ultimately have "sync_core ?u" using s(3) by (simp add: sync_core_def)
  then show ?thesis unfolding u .
qed

lemma failed_ok:
  assumes "sync_ok s" "n < length (vs_jobs s)" "vs_jobs s ! n = Subscription g ids"
  shows "sync_ok (subscription_settled cursor g ids (Some message) (s\<lparr>vs_jobs := remove_nth n (vs_jobs s)\<rparr>))"
proof -
  let ?r = "s\<lparr>vs_jobs := remove_nth n (vs_jobs s)\<rparr>"
  let ?p = "setVisibilityCatchUpError ids message (?r\<lparr>vs_needsRetry := True\<rparr>)"
  define f where "f = subscription_settled cursor g ids (Some message) ?r"
  have s: "sync_core s" "member_ok s" "vs_pending s \<subseteq> set (vs_desired s)" "vs_retries s \<subseteq> set (vs_desired s)"
    using assms(1) by (simp_all add: sync_ok_iff)
  have j: "member_job (vs_jobs s ! n)" using assms(3) by simp
  note r = member_removed[OF s(2) assms(2) j]
  have no_sub: "Subscription h is \<notin> set (remove_nth n (vs_jobs s))" for h "is"
    using r(2) by (metis filter_empty_conv member_job.simps(1))
  have sub: "Subscription g ids \<in> set (vs_jobs s)" using assms(2,3) by (metis nth_mem)
  have "sync_core ?p"
    using core_removed[OF s(1) assms(2) j]
    by (auto simp: setVisibilityCatchUpError_def sync_core_def timers_ok_def caches_ok_def catch_live_def catch_here_def split: option.splits catch_status.splits)
  then have core: "sync_core f"
    unfolding f_def subscription_settled_def Let_def option.case cancel_timer_next by (rule failed_subscription_core)
  have ff: "vs_connected f = vs_connected s" "vs_selective f = vs_selective s" "vs_desired f = vs_desired s" "vs_acknowledged f = vs_acknowledged s"
    "vs_membership f = vs_membership s" "vs_requested f = vs_requested s" "vs_needsRetry f" "vs_reconciling f = vs_reconciling s"
    "vs_jobs f = remove_nth n (vs_jobs s) @ [Reconcile_end]" "vs_pending f = vs_pending s - set ids" "vs_retries f = vs_retries s - set ids"
    "vs_loads f = vs_loads s" "vs_catchUps f = vs_catchUps s" "Membership_timer g ids \<in> snd ` set (vs_timers f)"
    by (simp_all add: f_def subscription_settled_def Let_def start_job_def add_timer_def cancel_timer_def setVisibilityCatchUpError_def split: option.split)
  have "vs_requested s \<or> g = vs_membership s \<and> ids = vs_desired s" if "vs_connected s" "vs_selective s"
    using s(2) sub that unfolding member_ok_def by blast
  then have moves: "member_moves f" if "vs_connected s" "vs_selective s"
    using that ff(7,14) unfolding member_moves_def ff by auto
  have "member_ok f" using s(2) r(1,2) no_sub moves unfolding member_ok_def ff by auto
  moreover have "a \<in> set (vs_acknowledged s) \<and> started f a" if "vs_connected s" "\<not> vs_selective s" "a \<in> vs_pending s \<union> vs_retries s" for a
    using attended_alone[OF assms(1) that(1) _ that(3)] that(2) by (simp add: member_moves_def started_def ff)
  ultimately show ?thesis
    using core s(3,4) moves unfolding f_def[symmetric] sync_ok_iff ff by blast
qed

lemma settled_ok:
  assumes "sync_ok s" "n < length (vs_jobs s)" "vs_jobs s ! n = Subscription g ids"
    and guard: "vs_connected s \<Longrightarrow> vs_selective s \<Longrightarrow> g \<noteq> vs_membership s \<Longrightarrow>
      ids \<noteq> vs_desired s \<and> (\<forall>a \<in> set (vs_desired s). vs_catchUps s a \<noteq> None \<longrightarrow> a \<in> set ids)"
  shows "sync_ok (subscription_settled cursor g ids None (s\<lparr>vs_jobs := remove_nth n (vs_jobs s)\<rparr>))"
proof -
  let ?r = "s\<lparr>vs_jobs := remove_nth n (vs_jobs s)\<rparr>"
  define p where "p = (cancel_membership ?r)\<lparr>vs_retryDelay := None\<rparr>"
  have s: "sync_core s" "member_ok s" "vs_pending s \<subseteq> set (vs_desired s)" "vs_retries s \<subseteq> set (vs_desired s)"
    using assms(1) by (simp_all add: sync_ok_iff)
  have j: "member_job (vs_jobs s ! n)" using assms(3) by simp
  note r = member_removed[OF s(2) assms(2) j]
  have no_sub: "Subscription h is \<notin> set (remove_nth n (vs_jobs s))" for h "is"
    using r(2) by (metis filter_empty_conv member_job.simps(1))
  have sub: "Subscription g ids \<in> set (vs_jobs s)" using assms(2,3) by (metis nth_mem)
  then have sf: "\<not> vs_needsRetry s" "g = vs_membership s \<longrightarrow> ids = vs_desired s" using s(2) unfolding member_ok_def by blast+
  have rc: "sync_core ?r" by (rule core_removed[OF s(1) assms(2) j])
  have "sync_core (cancel_membership ?r)"
    using rc cancel_membership_facts[of ?r] by (simp add: sync_core_def catch_here_def)
  then have core: "sync_core p"
    by (auto simp: p_def sync_core_def timers_ok_def caches_ok_def catch_live_def catch_here_def split: option.splits catch_status.splits)
  have pf: "vs_connected p = vs_connected s" "vs_selective p = vs_selective s" "vs_desired p = vs_desired s" "vs_acknowledged p = vs_acknowledged s"
    "vs_membership p = vs_membership s" "vs_requested p = vs_requested s" "\<not> vs_needsRetry p" "vs_reconciling p"
    "vs_jobs p = remove_nth n (vs_jobs s)" "vs_pending p = vs_pending s" "vs_retries p = vs_retries s" "vs_disposed p = vs_disposed s"
    "vs_loads p = vs_loads s" "vs_catchUps p = vs_catchUps s" "vs_loaded p = vs_loaded s"
    using r(1) sf(1) by (simp_all add: p_def)
  have off: "sync_ok (start_job Reconcile_end p)" if "\<not> (vs_connected s \<and> vs_selective s)"
  proof -
    let ?f = "start_job Reconcile_end p"
    have q: "quiet p ?f" by (rule quiet_job) simp
    have m: "member_ok ?f" using s(2) that r(2) no_sub pf by (auto simp: member_ok_def start_job_def)
    have "a \<in> set (vs_acknowledged s) \<and> started s a" if "vs_connected s" "a \<in> vs_pending s \<union> vs_retries s" for a
      using attended_alone[OF assms(1) that(1) _ that(2)] \<open>\<not> (vs_connected s \<and> vs_selective s)\<close> that(1) by (simp add: member_moves_def)
    then show ?thesis using q m core s(3,4) unfolding sync_ok_iff quiet_def pf by (auto simp: started_def pf)
  qed
  let ?t = "p\<lparr>vs_acknowledged := ids\<rparr>"
  have stale: "sync_ok (reconcileLatestMembership ?t)" if on: "vs_connected s" "vs_selective s" "g \<noteq> vs_membership s"
  proof -
    have "sync_core ?t" using core guard[OF on] pf
      by (auto simp: sync_core_def timers_ok_def caches_ok_def catch_live_def catch_here_def split: option.splits catch_status.splits)
    moreover note q = quiet_latest[of ?t]
    moreover have "member_ok (reconcileLatestMembership ?t) \<and> member_moves (reconcileLatestMembership ?t)"
      using latest_member[of ?t] pf r(2) core guard[OF on] on by (auto simp: sync_core_def)
    ultimately show ?thesis using s(3,4) unfolding sync_ok_iff quiet_def by (simp add: pf)
  qed
  have now: "sync_ok (start_job Reconcile_end (startAcknowledgedCatchUps cursor ?t)) \<and>
      vs_desired (startAcknowledgedCatchUps cursor ?t) = vs_acknowledged (startAcknowledgedCatchUps cursor ?t)"
    if on: "vs_connected s" "vs_selective s" "g = vs_membership s"
  proof -
    have "sync_core ?t" using core pf sf(2) on(3)
      by (auto simp: sync_core_def timers_ok_def caches_ok_def catch_live_def catch_here_def split: option.splits catch_status.splits)
    note a = acknowledged_core[OF this, where cursor = cursor]
    let ?u = "startAcknowledgedCatchUps cursor ?t" and ?f = "start_job Reconcile_end (startAcknowledgedCatchUps cursor ?t)"
    have same: "same_member ?t ?u" using a(2) by (simp add: progress_def)
    have uf: "vs_connected ?u" "vs_selective ?u" "vs_desired ?u = vs_desired s" "vs_acknowledged ?u = vs_desired s" "\<not> vs_needsRetry ?u"
      "vs_reconciling ?u" "filter member_job (vs_jobs ?u) = []"
      using same on pf sf(2) r(2) by (simp_all add: same_member_def)
    then have "Subscription h is \<notin> set (vs_jobs ?u)" for h "is" by (metis filter_empty_conv member_job.simps(1))
    then have m: "member_ok ?f" using uf by (simp add: member_ok_def start_job_def)
    have q: "quiet ?u ?f" by (rule quiet_job) simp
    have "vs_pending ?u \<subseteq> vs_pending p" "vs_retries ?u \<subseteq> vs_retries p" using a(2) by (simp_all add: progress_def)
    then have sub: "vs_pending ?f \<subseteq> set (vs_desired s)" "vs_retries ?f \<subseteq> set (vs_desired s)"
      using q s(3,4) by (simp_all add: quiet_def pf)
    have "started ?f b" if "b \<in> set (vs_desired s)" for b
      using a(3)[of b] that on pf sf(2) q by (simp add: started_def quiet_def)
    then show ?thesis using q m a(1) sub uf by (simp add: sync_ok_iff quiet_def)
  qed
  show ?thesis
    using off stale now core pf by (auto simp: subscription_settled_def p_def[symmetric] Let_def sync_core_def)
qed

section \<open>Timers fire\<close>

lemma calm_fired:
  assumes "timers_ok s" "map_of (vs_timers s) n = Some (Catch_timer a g)"
  shows "calm a s (s\<lparr>vs_timers := filter (\<lambda>x. fst x \<noteq> n) (vs_timers s)\<rparr>)"
    "(i, Catch_timer a h) \<in> set (vs_timers s) \<Longrightarrow> h \<noteq> g \<Longrightarrow> i \<noteq> n"
proof -
  have d: "distinct (map fst (vs_timers s))" using assms(1) by (simp add: timers_ok_def)
  then have own: "t = Catch_timer a g" if "(n, t) \<in> set (vs_timers s)" for t
    using assms(2) that by (simp add: map_of_eq_Some_iff)
  show "(i, Catch_timer a h) \<in> set (vs_timers s) \<Longrightarrow> h \<noteq> g \<Longrightarrow> i \<noteq> n" using own by auto
  have m: "j \<noteq> n" if "(j, Membership_timer h ids) \<in> set (vs_timers s)" for j h ids using own that by auto
  have b: "j \<noteq> n" if "(j, Catch_timer b h) \<in> set (vs_timers s)" "b \<noteq> a" for j b h using own that by auto
  have "distinct (map fst (filter (\<lambda>x. fst x \<noteq> n) (vs_timers s)))" using d by (simp add: distinct_map_filter)
  then show "calm a s (s\<lparr>vs_timers := filter (\<lambda>x. fst x \<noteq> n) (vs_timers s)\<rparr>)"
    using m b by (auto simp: calm_def same_member_def timers_ok_def caches_ok_def catch_live_def split: option.splits catch_status.splits)
qed

lemma catch_timer_ok:
  assumes "sync_ok s" "map_of (vs_timers s) n = Some (Catch_timer a g)"
  shows "sync_ok (fire_timer cursor (Catch_timer a g) (s\<lparr>vs_timers := filter (\<lambda>x. fst x \<noteq> n) (vs_timers s)\<rparr>))"
proof -
  let ?t = "s\<lparr>vs_timers := filter (\<lambda>x. fst x \<noteq> n) (vs_timers s)\<rparr>"
  have s: "timers_ok s" "\<not> vs_disposed s" "catch_here s a" "catch_live s a" using assms(1) by (simp_all add: sync_ok_iff sync_core_def)
  note c = calm_fired[OF s(1) assms(2)]
  have tt: "timers_ok ?t" using c(1) s(1) by (simp add: calm_def)
  show ?thesis
  proof (cases "\<exists>d. vs_catchUps s a = Some d \<and> ca_generation d = g \<and> ca_status d = Failed_catch")
    case True
    then obtain d where d: "vs_catchUps s a = Some d" "ca_generation d = g" "ca_status d = Failed_catch" by blast
    have h: "vs_connected ?t" "a \<in> set (vs_desired ?t)" "a \<in> set (vs_acknowledged ?t)" "a \<in> vs_loaded ?t"
      using s(3) d(1) by (simp_all add: catch_here_def)
    have "decideCatchUp (vs_catchUps ?t a) (case None of Some p \<Rightarrow> p | None \<Rightarrow> planTimelineResumeFetch (cursor a)) False = Replace"
      using d by (simp add: decideCatchUp_def)
    moreover have nd: "\<not> vs_disposed ?t" using s(2) by simp
    ultimately have r: "calm a ?t (startCatchUp cursor a None False ?t)" "catch_live (startCatchUp cursor a None False ?t) a"
      "vs_catchUps (startCatchUp cursor a None False ?t) a \<noteq> None"
      using start_replaces[OF tt nd h] by blast+
    have "sync_ok (startCatchUp cursor a None False ?t)"
      by (rule calm_ok[OF assms(1) calm_trans[OF c(1) r(1)] r(2)]) (use r(3) d(1) in \<open>simp_all add: started_def\<close>)
    then show ?thesis using d by simp
  next
    case False
    then have "fire_timer cursor (Catch_timer a g) ?t = ?t" by (auto split: option.split)
    moreover have "catch_live ?t a"
      using s(4) False c(2) by (auto simp: catch_live_def split: option.splits catch_status.splits)
    ultimately show ?thesis using calm_ok[OF assms(1) c(1)] by simp
  qed
qed

lemma membership_timer_ok:
  assumes "sync_ok s" "map_of (vs_timers s) n = Some (Membership_timer g ids)"
  shows "sync_ok (fire_timer cursor (Membership_timer g ids) (s\<lparr>vs_timers := filter (\<lambda>x. fst x \<noteq> n) (vs_timers s)\<rparr>))"
proof -
  let ?t = "s\<lparr>vs_timers := filter (\<lambda>x. fst x \<noteq> n) (vs_timers s), vs_cancelRetry := None\<rparr>"
  have s: "sync_core s" "member_ok s" "vs_pending s \<subseteq> set (vs_desired s)" "vs_retries s \<subseteq> set (vs_desired s)" and tm: "timers_ok s"
    using assms(1) by (simp_all add: sync_ok_iff sync_core_def)
  have d: "distinct (map fst (vs_timers s))" using tm by (simp add: timers_ok_def)
  have only: "i = n \<and> h = g \<and> is = ids" if "(i, Membership_timer h is) \<in> set (vs_timers s)" for i h "is"
  proof -
    have "vs_cancelRetry s = Some i" "vs_cancelRetry s = Some n"
      using tm that map_of_SomeD[OF assms(2)] by (simp_all add: timers_ok_def; blast)+
    then have i: "i = n" by simp
    then have "map_of (vs_timers s) n = Some (Membership_timer h is)" using that d by (simp add: map_of_eq_Some_iff)
    then show ?thesis using assms(2) i by simp
  qed
  have "vs_cancelRetry s = Some n" using tm map_of_SomeD[OF assms(2)] by (simp add: timers_ok_def; blast)
  then have cancel: "?t = cancel_membership s" by (simp add: cancel_membership_def cancel_timer_def)
  have core: "sync_core ?t" unfolding cancel
    using s(1) cancel_membership_facts[of s] by (simp add: sync_core_def catch_here_def)
  have pre: "member_pre ?t" using s(2) by (simp add: member_ok_def member_pre_def)
  show ?thesis
  proof (cases "vs_connected s \<and> vs_membership s = g \<and> vs_desired s = ids")
    case True
    have "sync_ok (reconcileMembership ?t)"
    proof (rule reconciled_ok[OF core pre])
      assume "\<not> (vs_selective ?t \<and> (vs_desired ?t \<noteq> vs_acknowledged ?t \<or> vs_needsRetry ?t \<or> (\<exists>g ids. Subscription g ids \<in> set (vs_jobs ?t))))"
      then have "\<not> member_moves s" by (auto simp: member_moves_alt)
      then show "\<forall>a \<in> vs_pending ?t \<union> vs_retries ?t. a \<in> set (vs_acknowledged ?t) \<and> started ?t a"
        using attended_alone[OF assms(1)] True by (auto simp: started_def)
    qed (use s in simp_all)
    then show ?thesis using True s(1) by (simp add: sync_core_def)
  next
    case False
    then have "fire_timer cursor (Membership_timer g ids) (s\<lparr>vs_timers := filter (\<lambda>x. fst x \<noteq> n) (vs_timers s)\<rparr>) = ?t" by auto
    moreover have "sync_ok ?t"
    proof -
      have mm: "member_moves ?t = member_moves s" if "vs_connected s"
        using only False that by (auto simp: member_moves_alt)
      have "member_ok ?t" using s(2) mm by (auto simp: member_ok_def)
      then show ?thesis using core mm assms(1) by (auto simp: sync_ok_iff started_def)
    qed
    ultimately show ?thesis by simp
  qed
qed

section \<open>Every step\<close>

text \<open>What is left out: the code forgets an agent when a latest tail arrives for a catch-up that was
  cancelled, when a subscription is acknowledged that is out of date but equals what is desired, or
  lacks an agent that is being caught up, when the user retries an agent that is up to date, or the
  subscription that has become the acknowledged one, and when the desired agents change between the
  end of a reconciliation and its \<open>finally\<close>.\<close>

definition smooth :: "sync_event \<Rightarrow> sync_state \<Rightarrow> bool" where
  "smooth e s =
     (case e of
        Dispose \<Rightarrow> False
      | Visible_ids src ids \<Rightarrow> \<not> (vs_connected s \<and> vs_selective s \<and> Reconcile_end \<in> set (vs_jobs s))
      | Set_active b \<Rightarrow> \<not> (vs_connected s \<and> vs_selective s \<and> Reconcile_end \<in> set (vs_jobs s))
      | Retry a \<Rightarrow>
          (case vs_catchUps s a of
             Some c \<Rightarrow> ca_status c \<noteq> Complete \<and> (ca_status c = Failed_catch \<or> vs_desired s \<noteq> vs_acknowledged s)
           | None \<Rightarrow> vs_desired s \<noteq> vs_acknowledged s)
      | Page_settles n (Inr page) \<Rightarrow>
          (case (if n < length (vs_jobs s) then vs_jobs s ! n else Reconcile_end) of
             Tail_fetch a g request \<Rightarrow> map_option ca_generation (vs_catchUps s a) = Some g
           | _ \<Rightarrow> True)
      | Job_settles n None \<Rightarrow>
          (case (if n < length (vs_jobs s) then vs_jobs s ! n else Reconcile_end) of
             Subscription g ids \<Rightarrow>
               \<not> (vs_connected s \<and> vs_selective s \<and> g \<noteq> vs_membership s \<and>
                  (ids = vs_desired s \<or> list_ex (\<lambda>a. vs_catchUps s a \<noteq> None \<and> a \<notin> set ids) (vs_desired s)))
           | _ \<Rightarrow> True)
      | _ \<Rightarrow> True)"

lemma retry_ok:
  assumes "sync_ok s" "smooth (Retry a) s"
  shows "sync_ok (retryVisibleAgentTimeline cursor a s)"
proof -
  have s: "sync_core s" "member_ok s" "vs_pending s \<subseteq> set (vs_desired s)" "vs_retries s \<subseteq> set (vs_desired s)"
    using assms(1) by (simp_all add: sync_ok_iff)
  let ?t = "s\<lparr>vs_retries := insert a (vs_retries s)\<rparr>"
  show ?thesis
  proof (cases "a \<in> set (vs_desired s) \<and> a \<notin> vs_retries s")
    case d: True
    have nc: "ca_status c \<noteq> Complete" if "vs_catchUps s a = Some c" for c using assms(2) that by (auto simp: smooth_def)
    have core: "sync_core ?t"
      using s(1) nc by (auto simp: sync_core_def timers_ok_def caches_ok_def catch_live_def catch_here_def split: option.splits catch_status.splits)
    show ?thesis
    proof (cases "\<exists>c. vs_catchUps s a = Some c \<and> ca_status c = Failed_catch")
      case True
      then obtain c where c: "vs_catchUps s a = Some c" "ca_status c = Failed_catch" by blast
      have h: "a \<in> set (vs_acknowledged s)" using s(1) c(1) unfolding sync_core_def catch_here_def by auto
      have mv: "member_moves ?t = member_moves s" by (simp add: member_moves_def)
      have "member_ok ?t" using s(2) by (simp add: member_ok_def mv)
      then have t: "sync_ok ?t"
        using core assms(1) d h c(1) by (auto simp: sync_ok_iff started_def mv)
      let ?w = "cancel_timer (ca_cancelRetry c) ?t"
      have tm: "timers_ok ?t" "\<not> vs_disposed ?t" "catch_here ?t a" using core by (simp_all add: sync_core_def)
      have ct: "vs_catchUps ?t a = Some c" using c(1) by simp
      have w: "calm a ?t ?w" by (rule calm_cancel[OF tm(1) ct])
      have cw: "vs_catchUps ?w a = Some c" using c(1) by (simp add: cancel_timer_def split: option.split)
      have "timers_ok ?w" using w tm(1) by (simp add: calm_def)
      moreover have "\<not> vs_disposed ?w" "vs_connected ?w" "a \<in> set (vs_desired ?w)" "a \<in> set (vs_acknowledged ?w)" "a \<in> vs_loaded ?w"
        using calm_member[OF w] tm(2,3) ct by (simp_all add: catch_here_def)
      moreover have "decideCatchUp (vs_catchUps ?w a) p True = Replace" for p using cw c(2) by (simp add: decideCatchUp_def)
      ultimately have r: "calm a ?w (startCatchUp cursor a (ca_request c) True ?w)" "catch_live (startCatchUp cursor a (ca_request c) True ?w) a"
        "vs_catchUps (startCatchUp cursor a (ca_request c) True ?w) a \<noteq> None"
        using start_replaces[of ?w a] by blast+
      have "sync_ok (startCatchUp cursor a (ca_request c) True ?w)"
        by (rule calm_ok[OF t calm_trans[OF w r(1)] r(2)]) (use r(3) ct in \<open>simp_all add: started_def\<close>)
      then show ?thesis using c d by (simp add: retryVisibleAgentTimeline_def Let_def)
    next
      case False
      then have ne: "vs_desired s \<noteq> vs_acknowledged s" using assms(2) by (auto simp: smooth_def split: option.splits)
      let ?u = "(cancel_membership ?t)\<lparr>vs_retryDelay := None, vs_needsRetry := False\<rparr>"
      have "sync_core (cancel_membership ?t)"
        using core cancel_membership_facts[of ?t] by (simp add: sync_core_def catch_here_def)
      then have cu: "sync_core ?u"
        by (auto simp: sync_core_def timers_ok_def caches_ok_def catch_live_def catch_here_def split: option.splits catch_status.splits)
      have pre: "member_pre ?u" using s(2) by (auto simp: member_ok_def member_pre_def)
      have "sync_ok (reconcileMembership ?u)" if "vs_selective s"
        by (rule reconciled_ok[OF cu pre]) (use s d ne that in auto)
      then show ?thesis
        using False d assms(1) by (cases "vs_catchUps s a") (auto simp: retryVisibleAgentTimeline_def Let_def)
    qed
  qed (use assms(1) in \<open>auto simp: retryVisibleAgentTimeline_def\<close>)
qed

lemma step_ok:
  assumes "sync_ok s" "smooth e s"
  shows "sync_ok (sync_step cursor e s)"
proof (cases e)
  case (Visible_ids src ids)
  then show ?thesis
    using assms publish_ok[of "s\<lparr>vs_sources := ss\<rparr>" cursor for ss] by (simp add: replaceVisibleAgentIds_def smooth_def Let_def)
next
  case (Set_active b)
  then show ?thesis using assms publish_ok[of "s\<lparr>vs_active := b\<rparr>" cursor] by (simp add: setActive_def smooth_def)
next
  case (Set_connected b)
  then show ?thesis
    using assms(1) connect_ok disconnect_ok by (cases b; cases "vs_connected s") (simp_all add: setConnected_def)
next
  case (Set_mode b)
  then show ?thesis using mode_ok[OF assms(1)] by simp
next
  case (Gap a c)
  then show ?thesis using assms(1) start_ok by (simp add: recoverGap_def)
next
  case (Retry a)
  then show ?thesis using assms retry_ok by simp
next
  case Dispose
  then show ?thesis using assms(2) by (simp add: smooth_def)
next
  case (Page_settles n page)
  show ?thesis
  proof (cases "n < length (vs_jobs s)")
    case n: True
    show ?thesis
    proof (cases "vs_jobs s ! n")
      case (Page_fetch a g request fallback)
      then show ?thesis using Page_settles n page_ok[OF assms(1) n] by simp
    next
      case (Tail_fetch a g request)
      have "map_option ca_generation (vs_catchUps s a) = Some g" if "page = Inr p" for p
        using assms(2) that Page_settles n Tail_fetch by (simp add: smooth_def)
      then show ?thesis using Page_settles n Tail_fetch tail_ok[OF assms(1) n Tail_fetch] by simp
    qed (use assms(1) Page_settles in simp_all)
  qed (use assms(1) Page_settles in simp)
next
  case (Job_settles n failure)
  show ?thesis
  proof (cases "n < length (vs_jobs s)")
    case n: True
    show ?thesis
    proof (cases "vs_jobs s ! n")
      case (Subscription g ids)
      show ?thesis
      proof (cases failure)
        case None
        have guard: "ids \<noteq> vs_desired s \<and> (\<forall>a \<in> set (vs_desired s). vs_catchUps s a \<noteq> None \<longrightarrow> a \<in> set ids)"
          if "vs_connected s" "vs_selective s" "g \<noteq> vs_membership s"
          using assms(2) that Job_settles None n Subscription by (auto simp: smooth_def list_ex_iff)
        show ?thesis using settled_ok[OF assms(1) n Subscription guard] Job_settles None n Subscription by simp
      qed (use Job_settles n Subscription failed_ok[OF assms(1) n Subscription] in simp)
    qed (use assms(1) Job_settles n cache_ok[OF assms(1) n] end_ok[OF assms(1) n] in simp_all)
  qed (use assms(1) Job_settles in simp)
next
  case (Timer_fires n)
  show ?thesis
  proof (cases "map_of (vs_timers s) n")
    case (Some t)
    then show ?thesis
      using Timer_fires catch_timer_ok[OF assms(1)] membership_timer_ok[OF assms(1)] by (cases t) (simp_all del: fire_timer.simps)
  qed (use assms(1) Timer_fires in simp)
qed

section \<open>Viewed timelines are attended\<close>

inductive sync_reach :: "sync_state \<Rightarrow> bool" where
  start: "sync_reach (sync_start selective)"
| step: "sync_reach s \<Longrightarrow> smooth e s \<Longrightarrow> sync_reach (sync_step cursor e s)"

lemma reach_ok: "sync_reach s \<Longrightarrow> sync_ok s"
proof (induction rule: sync_reach.induct)
  case (start selective)
  then show ?case
    by (simp add: sync_start_def sync_ok_iff sync_core_def timers_ok_def caches_ok_def catch_live_def catch_here_def member_ok_def)
qed (rule step_ok)

text \<open>What works on an agent: the load of its cache, the fetch of its catch-up, or the timer of its retry.\<close>

definition works_on :: "sync_state \<Rightarrow> string \<Rightarrow> bool" where
  "works_on s a \<longleftrightarrow>
     Cache_load a \<in> set (vs_jobs s) \<or>
     (case vs_catchUps s a of
        None \<Rightarrow> False
      | Some c \<Rightarrow> list_ex (fetches a (ca_generation c)) (vs_jobs s) \<or> Catch_timer a (ca_generation c) \<in> snd ` set (vs_timers s))"


fun smooth_run :: "((string \<Rightarrow> timeline_cursor option) \<times> sync_event) list \<Rightarrow> sync_state \<Rightarrow> bool" where
  "smooth_run [] s = True"
| "smooth_run ((cursor, e) # es) s = (smooth e s \<and> smooth_run es (sync_step cursor e s))"

lemma smooth_run_reach: "sync_reach s \<Longrightarrow> smooth_run es s \<Longrightarrow> sync_reach (fold (\<lambda>(cursor, e) s. sync_step cursor e s) es s)"
  by (induction es s rule: smooth_run.induct) (auto intro: sync_reach.step)

text \<open>Two clients: one that has nothing of an agent, one that has it up to its seventh row.\<close>

definition no_cursor :: "string \<Rightarrow> timeline_cursor option" where
  "no_cursor a = None"

definition seventh_row :: "string \<Rightarrow> timeline_cursor option" where
  "seventh_row a = Some \<lparr>cu_epoch = ''e'', cu_seq = 7\<rparr>"


section \<open>Agents that are forgotten\<close>


text \<open>A subscription that fails once and then succeeds leaves an error on an agent that was up to date:
  the failure is noted for all agents of the subscription, and only the end of a catch-up removes it,
  which an agent that is up to date does not start. Retrying it does nothing.\<close>

theorem failed_subscription_leaves_error:
  "let s = sync_run True [(no_cursor, Visible_ids ''pane'' [''a'']), (no_cursor, Set_connected True), (no_cursor, Job_settles 1 None),
     (no_cursor, Job_settles 0 None), (no_cursor, Job_settles 0 None), (no_cursor, Page_settles 0 (Inr (False, None))),
     (no_cursor, Visible_ids ''pane'' [''a'', ''b'']), (no_cursor, Job_settles 1 (Some ''timeout'')), (no_cursor, Job_settles 1 None),
     (no_cursor, Timer_fires 0), (no_cursor, Job_settles 1 None), (no_cursor, Job_settles 1 None), (no_cursor, Job_settles 0 None),
     (no_cursor, Page_settles 0 (Inr (False, None))), (no_cursor, Retry ''a'')]
   in vs_desired s = [''a'', ''b''] \<and> vs_acknowledged s = [''a'', ''b''] \<and> getAgentTimelineStatus s ''b'' = S_ready \<and>
      getAgentTimelineStatus s ''a'' = S_error \<and> map_option ca_status (vs_catchUps s ''a'') = Some Complete \<and>
      vs_jobs s = [] \<and> vs_timers s = []"
  by code_simp

end
