(* ===== verification/Spec2Isabelle.thy ===== *)
theory Spec2Isabelle
  imports Task_Store_Spec Task_Service_Spec Verification Schedule_System Timeline_Spec Reconcile_Result Workspace_Persistence
    Pid_Lock_Spec Git_Scheduler Stream_Coalescer_Spec Service_Ports_Spec Agent_Runs Port_Allocator Timeline_Attended
begin

text \<open>
  A verification library for Orqara: its daemon (\<open>packages/server\<close>, with the wire schemas it shares
  through \<open>packages/protocol\<close>) and the workspace of its app (\<open>packages/app\<close>).

  \<^bold>\<open>The program.\<close> Orqara runs coding agents on the user's machine. Clients (the app, the command
  line) talk to a daemon, which keeps tasks, runs agents on them, verifies their work, fires
  schedules, and serves the history of every agent as a timeline in pages. The app shows agents,
  terminals, files and drafts in the tabs of a tree of panes. The library covers the parts of the
  daemon that keep its own state and rules, and of the app the layout of workspaces and the sync of the
  timelines in view.

  \<^bold>\<open>Tasks.\<close>
  \<^item> \<open>Task_Document\<close> (\<open>tasks/types.ts\<close>, \<open>task-document.ts\<close>): the markdown file of a task, written by
    \<open>serializeTask\<close> and read by \<open>parseTask\<close>, whose regular expressions are matchers on \<open>Js_String\<close>.
    \<open>Task_Roundtrip\<close> proves that well-formed tasks survive writing and reading, and shows a
    title that does not.
  \<^item> \<open>Task_Graph\<close> (\<open>task-graph.ts\<close>) and \<open>Execution_Order\<close> (\<open>execution-order.ts\<close>): indexes, readiness,
    and the simulated run. The lemmas show that the simulation returns on every graph the loader
    builds and that what it reports as done is the least set closed under finished dependencies.
  \<^item> \<open>Task_Store\<close> (\<open>task-store.ts\<close>): a directory of task files as a list of names and texts; every
    operation reads by parsing and writes by serializing. \<open>Task_Store_Spec\<close> refines it to a finite
    map from ids to tasks and proves the invariant of reachable stores (well-formed files, no
    cycle of parents).
  \<^item> \<open>Task_Service\<close> (\<open>task-service.ts\<close>): the three SQLite tables as lists of rows, statements that
    may violate a constraint, and transactions that roll back. \<open>Task_Service_Spec\<close> is a step relation
    in which calls interleave, with the invariant of its reachable states, idempotency of command
    ids and the check of revisions.
  \<^item> \<open>Verification\<close> (\<open>verification.ts\<close>): the fingerprint of a workspace, capturing the output of the
    check, its verdict, and the removal of a temporary checkout.

  \<^bold>\<open>Schedules.\<close>
  \<^item> \<open>Cron\<close> (\<open>schedule/cron-expression.ts\<close>, \<open>cadence.ts\<close>, \<open>server/schedule/cron.ts\<close>): parsing of cron
    fields, the search for the next minute, and the rewriting of an interval as a cron expression.
  \<^item> \<open>Schedule_Store\<close> (\<open>types.ts\<close>, \<open>store.ts\<close>), \<open>Schedule_Service\<close> (\<open>service.ts\<close>): schedules and their
    schema, the file store, and the service with its inputs normalised, its ticks, runs, and
    recovery at start. The locale \<open>schedule_updater\<close> of \<open>Schedule_Spec\<close> is the contract of the functions
    the service gives to \<open>update\<close>; it is interpreted on each of them. \<open>Schedule_System\<close> puts calls,
    ticks, runs and restarts together as a step relation and proves what holds in each reachable
    state.

  \<^bold>\<open>Timelines.\<close>
  \<^item> \<open>Timeline\<close> (\<open>agent-timeline-store.ts\<close>, \<open>agent-timeline-content.ts\<close>): rows with sequence numbers, the
    limits on their content, and the pages of rows.
  \<^item> \<open>Timeline_Projection\<close> (\<open>timeline-projection.ts\<close>): merging rows into entries and the windows and
    pages over them. The locale \<open>chunk_merge\<close> of \<open>Timeline_Spec\<close> is what the two merging passes share.
    The lemmas show that entries partition the rows and that paging neither skips nor stalls.

  \<^item> \<open>Timeline_Sync\<close> (the app's \<open>timeline/viewed-timeline-sync.ts\<close>, \<open>timeline-sync-plan.ts\<close>): the client's
    subscription to the agents it shows and the catching up of their timelines by pages. A promise
    that has not settled is a job and settles at any later time; a timer is there until it fires or is
    cancelled; what the client has of a timeline is given with each event. \<open>Timeline_Sync_Spec\<close> and
    \<open>Timeline_Membership\<close> state the invariant of its states and that each part of an operation keeps it;
    \<open>Timeline_Attended\<close> proves that agents in view are worked on in smooth runs. \<open>smooth\<close> leaves out
    the events in which the code forgets an agent; two such runs are shown.

  \<^bold>\<open>The daemon's processes and streams.\<close>
  \<^item> \<open>Pid_Lock\<close> (\<open>server/pid-lock.ts\<close>): the lock file that keeps a second daemon out. Names point to
    inodes and each system call is a step, so that calls of several processes interleave.
    \<open>Pid_Lock_Spec\<close> proves that one process holds the lock while the owners are alive, and shows two
    ways in which a crash spoils it.
  \<^item> \<open>Git_Scheduler\<close> (\<open>utils/git-process-scheduler.ts\<close>): queues, admission, and the execution of git
    processes behind a throttle that may start a request at any later time or fail. The limit is
    kept, and every request settles.
  \<^item> \<open>Stream_Coalescer\<close> (\<open>agent/agent-stream-coalescer.ts\<close>, \<open>terminal/terminal-output-coalescer.ts\<close>):
    gathering the events of an agent (items of \<open>Timeline\<close>) and the output of a terminal; timers are
    events. \<open>Stream_Coalescer_Spec\<close> proves that nothing is lost, invented or left without a timer.
  \<^item> \<open>Agent_Runs\<close> (\<open>agent/agent-run-state.ts\<close>): the runs of agents, whose promises resolve when they
    settle, and the stream of events that the reader of a turn waits for.
  \<^item> \<open>Service_Ports\<close> (\<open>workspace-service-port-registry.ts\<close>), \<open>Port_Allocator\<close>
    (\<open>workspace-service-port-allocator.ts\<close>): the plans of ports of workspaces. Plans are objects in a
    heap, and a call is a job that other calls come between. \<open>Service_Ports_Spec\<close> proves that no two
    services hold a port and that plans are right, and shows a release that a refresh undoes.

  \<^bold>\<open>The layout of a workspace.\<close>
  \<^item> \<open>Workspace_Tabs\<close> (\<open>workspace-tabs/model.ts\<close>, \<open>identity.ts\<close>, \<open>new-tab.ts\<close>, and the hosts of
    \<open>panels/panel-manifest.ts\<close>): what a tab shows, its normal form, equality and id.
  \<^item> \<open>Split_Tree\<close> and \<open>Workspace_Layout\<close> (\<open>stores/workspace-layout-actions.ts\<close>): the tree of panes with
    the sizes of its splits, each edit of it, and the operations on a layout. \<open>Split_Tree_Spec\<close> says
    when a tree is well formed, \<open>Split_Sizes\<close> that sizes are clamped to a minimum, \<open>Split_Edits\<close> that
    edits keep trees well formed and what they do to the tabs. \<open>Workspace_Layout_Spec\<close>,
    \<open>Layout_Operations\<close> and \<open>Layout_Opening\<close> lift this to layouts, \<open>Layout_Steps\<close> to the layouts that
    operations reach; \<open>Layout_Content\<close> and \<open>Layout_Changes\<close> say which tabs an operation adds, changes
    and removes.
  \<^item> \<open>Workspace_Reconcile\<close> (\<open>reconcileWorkspaceTabs\<close> of the same file): bringing the tabs in line with the
    agents and terminals of the daemon; \<open>Reconcile_Spec\<close> and \<open>Reconcile_Result\<close> prove that it does.
  \<^item> \<open>Workspace_Store\<close>, \<open>Workspace_Actions\<close>, \<open>Workspace_Persistence\<close>
    (\<open>stores/workspace-layout-store.ts\<close>): the state of all workspaces, its actions, and what is
    persisted, merged and migrated. These are definitions that the layout theories' results apply to;
    no theorem is stated of the store as a whole.

  \<^bold>\<open>How code is read.\<close> A function that may throw returns \<open>error + value\<close>; an asynchronous function is
  one step, unless others can come between its awaits to effect, in which case it is a job of a
  step relation. A JavaScript \<open>Map\<close> is an association list in insertion order, \<open>sort\<close> is stable,
  numbers are integers (with \<open>NaN\<close> where the source can meet it), strings are lists of characters.
  Parameters stand for what is not in the repository: the clock, random ids, SHA-256, collation of
  the locale, time zones, GUID syntax, git and child processes, the agents a run meets, the panels
  that plugins bring, and whether a port is free. Ids and the clock of one action come from one
  environment. Objects whose identity matters (runs, plans of ports, buffers) live in a heap or
  carry a number. Sizes of splits are exact rationals, and sets of agent ids are lists.

  \<^bold>\<open>Bounds and fuel.\<close> The loop of the simulated run and the walk along parents are
  \<open>partial_function (option)\<close>: both are proved to return, the walk on reachable stores only, and it is
  shown not to return after \<open>update\<close> makes a task its own parent. The two traversals of children carry
  the number of files as fuel, enough because a visit adds a file or ends a path of distinct
  parents. Skipping missed occurrences gives \<open>Diverges\<close> where the code would loop on a time that does
  not grow; the end of a run is proved not to meet it. The search for the next run stops after the
  366 days that the code allows. The window expansion runs once per entry and once more, as in
  the code, and a theorem shows that this is enough.

  The search of a range of ports is measured by the offsets that are left.

  \<^bold>\<open>Not modelled.\<close> Of the app everything but the layout of workspaces and the sync of viewed timelines: its user
  interface, the replicas of timelines and the reduction of their events to what is shown, the schema
  validation of the stored layout, the resolution of links to files, and the labels of panels. The
  desktop shell, the command line, the website and the relay. The agent manager, which drives
  providers through asynchronous streams, and the provider adapters, which translate the messages
  of programs that are not in the repository; sessions, and the wire messages other than those of
  tasks, schedules and timelines; git, workspaces and terminals, which wrap other programs; log
  output. A receiver of coalesced events that calls back into the coalescer is not modelled, nor
  is a reconciliation that tells layouts apart by identity. Numbers are not rounded to 53 bits.
\<close>

end
